(* ===== verification/Prelude.thy ===== *)
theory Prelude
  imports Main "HOL-Library.AList" "HOL-Library.Multiset" "HOL-Library.Word"
    "HOL-Library.Signed_Division" "HOL-Library.Char_ord" "HOL-Library.List_Lexorder"
    "HOL-Library.Sublist"
begin

text \<open>
  The part of Go the components share: 64-bit integers, maps, and the functions of the packages
  \<^verbatim>\<open>strings\<close>, \<^verbatim>\<open>strconv\<close> and \<^verbatim>\<open>sort\<close> the agent calls, with the lemmas that carry the
  component proofs.

  \<^item> A Go \<^verbatim>\<open>int\<close> or \<^verbatim>\<open>int64\<close> is an \<open>int\<close>; where an operation can leave the 64-bit range the
    model applies \<open>i64\<close>, the two's complement wrap-around. A \<^verbatim>\<open>uint64\<close> is a \<open>64 word\<close>.
  \<^item> A Go map is an association list with distinct keys (\<open>wf_map\<close>): \<open>map_of m k\<close> reads,
    \<open>mput k v m\<close> stores, \<open>mdel k m\<close> deletes, \<open>length m\<close> is \<^verbatim>\<open>len(m)\<close>. A \<^verbatim>\<open>for range\<close>
    visits the entries in the order of the list. Go leaves that order open: a theorem about
    an arbitrary list is a theorem about every order, and where a loop runs over a map the
    function itself has just built, and the order can be seen in the result, the order is an
    argument \<open>rng\<close> of the definition (\<open>range_order\<close>).
  \<^item> A Go string is its list of bytes. \<open>TrimSpace\<close> removes every Unicode white-space rune, in
    its UTF-8 encoding. \<open>ToLower\<close> maps the ASCII letters; the identifiers the agent folds
    (kernel types, tags, protocols, task states) are ASCII.
\<close>

named_theorems go_simps \<open>equations of the modelled Go library\<close>
named_theorems go_wf \<open>well-formedness of Go maps is kept\<close>

section \<open>Integers\<close>

definition i64 :: "int \<Rightarrow> int" where
  "i64 x = signed_take_bit 63 x"

definition in_i64 :: "int \<Rightarrow> bool" where
  "in_i64 x \<longleftrightarrow> - (2 ^ 63) \<le> x \<and> x < 2 ^ 63"

lemma i64_id [go_simps]: "in_i64 x \<Longrightarrow> i64 x = x"
  unfolding i64_def in_i64_def by (rule signed_take_bit_int_eq_self) simp_all

lemma in_i64_i64 [simp]: "in_i64 (i64 x)"
  unfolding i64_def in_i64_def
  using signed_take_bit_int_greater_eq_minus_exp [of 63 x] signed_take_bit_int_less_exp [of 63 x]
  by simp

lemma in_i64_mono: "in_i64 b \<Longrightarrow> 0 \<le> a \<Longrightarrow> a \<le> b \<Longrightarrow> in_i64 a"
  unfolding in_i64_def by simp

section \<open>Maps\<close>

type_synonym ('k, 'v) gomap = "('k \<times> 'v) list"

abbreviation mput :: "'k \<Rightarrow> 'v \<Rightarrow> ('k, 'v) gomap \<Rightarrow> ('k, 'v) gomap" where
  "mput \<equiv> AList.update"

abbreviation mdel :: "'k \<Rightarrow> ('k, 'v) gomap \<Rightarrow> ('k, 'v) gomap" where
  "mdel \<equiv> AList.delete"

definition wf_map :: "('k, 'v) gomap \<Rightarrow> bool" where
  "wf_map m \<longleftrightarrow> distinct (map fst m)"

text \<open>Reading a missing key yields the zero value of the element type.\<close>

definition mget_or :: "'v \<Rightarrow> ('k, 'v) gomap \<Rightarrow> 'k \<Rightarrow> 'v" where
  "mget_or z m k = (case map_of m k of None \<Rightarrow> z | Some v \<Rightarrow> v)"

definition mhas :: "('k, 'v) gomap \<Rightarrow> 'k \<Rightarrow> bool" where
  "mhas m k \<longleftrightarrow> map_of m k \<noteq> None"

definition mkeep :: "('k \<Rightarrow> bool) \<Rightarrow> ('k, 'v) gomap \<Rightarrow> ('k, 'v) gomap" where
  "mkeep P m = filter (\<lambda>(k, v). P k) m"

definition range_order :: "('a list \<Rightarrow> 'a list) \<Rightarrow> bool" where
  "range_order rng \<longleftrightarrow> (\<forall>xs. mset (rng xs) = mset xs)"

lemma map_of_mput [go_simps]:
  "map_of (mput k v m) k' = (if k' = k then Some v else map_of m k')"
  by (simp add: update_conv)

lemma map_of_mdel [go_simps]:
  "map_of (mdel k m) k' = (if k' = k then None else map_of m k')"
  by (simp add: delete_conv)

lemma map_of_filter_fst:
  "map_of (filter (\<lambda>(k, v). P k) m) x = (if P x then map_of m x else None)"
  by (induction m) auto

lemma map_of_mkeep [go_simps]: "map_of (mkeep P m) k = (if P k then map_of m k else None)"
  unfolding mkeep_def by (rule map_of_filter_fst)

lemma mhas_iff [go_simps]: "mhas m k \<longleftrightarrow> k \<in> fst ` set m"
  by (simp add: mhas_def map_of_eq_None_iff)

lemma wf_map_Nil [simp, go_wf]: "wf_map []"
  by (simp add: wf_map_def)

lemma wf_mput [go_wf]: "wf_map m \<Longrightarrow> wf_map (mput k v m)"
  unfolding wf_map_def by (rule distinct_update)

lemma wf_mdel [go_wf]: "wf_map m \<Longrightarrow> wf_map (mdel k m)"
  unfolding wf_map_def by (rule distinct_delete)

lemma wf_mkeep [go_wf]: "wf_map m \<Longrightarrow> wf_map (mkeep P m)"
  unfolding wf_map_def mkeep_def by (rule distinct_map_filter)

lemma mget_or_mput [go_simps]:
  "mget_or z (mput k v m) k' = (if k' = k then v else mget_or z m k')"
  by (simp add: mget_or_def map_of_mput)

lemma wf_map_of_iff: "wf_map m \<Longrightarrow> map_of m k = Some v \<longleftrightarrow> (k, v) \<in> set m"
  unfolding wf_map_def by (rule map_of_eq_Some_iff)

lemma map_of_map_snd:
  "map_of (map (\<lambda>x. (fst x, f (snd x))) m) k = map_option f (map_of m k)"
  by (induction m) auto

text \<open>Two orders of the same entries are the same map.\<close>

lemma map_of_perm:
  assumes "wf_map m" and "mset m = mset m'"
  shows "map_of m = map_of m'"
proof -
  have "wf_map m'"
    using assms unfolding wf_map_def by (metis mset_map mset_eq_imp_distinct_iff)
  moreover have "set m = set m'"
    using assms(2) by (rule mset_eq_setD)
  ultimately show ?thesis
    using assms(1) by (simp add: wf_map_def map_of_inject_set)
qed

lemma range_order_set: "range_order rng \<Longrightarrow> set (rng xs) = set xs"
  unfolding range_order_def by (metis set_mset_mset)

lemma range_order_mset: "range_order rng \<Longrightarrow> mset (rng xs) = mset xs"
  unfolding range_order_def by blast

lemma range_order_map_of: "range_order rng \<Longrightarrow> wf_map m \<Longrightarrow> map_of (rng m) = map_of m"
  by (metis map_of_perm range_order_mset)

lemma range_order_id: "range_order (\<lambda>xs. xs)"
  by (simp add: range_order_def)

lemma range_order_rev: "range_order rev"
  by (simp add: range_order_def)

text \<open>Building a map in a loop \<^verbatim>\<open>m[key(x)] = val(x)\<close>: the last entry of a key wins.\<close>

definition mbuild :: "('a \<Rightarrow> 'k) \<Rightarrow> ('a \<Rightarrow> 'v) \<Rightarrow> 'a list \<Rightarrow> ('k, 'v) gomap" where
  "mbuild f g xs = fold (\<lambda>x m. mput (f x) (g x) m) xs []"

lemma map_of_fold_mput:
  "map_of (fold (\<lambda>x m. mput (f x) (g x) m) xs m) k =
     (case map_of (rev (map (\<lambda>x. (f x, g x)) xs)) k of None \<Rightarrow> map_of m k | Some v \<Rightarrow> Some v)"
  by (induction xs arbitrary: m) (auto simp: map_add_def map_of_mput split: option.splits)

lemma map_of_mbuild: "map_of (mbuild f g xs) k = map_of (rev (map (\<lambda>x. (f x, g x)) xs)) k"
  unfolding mbuild_def by (simp add: map_of_fold_mput split: option.splits)

lemma wf_fold_mput: "wf_map m \<Longrightarrow> wf_map (fold (\<lambda>x m. mput (f x) (g x) m) xs m)"
  by (induction xs arbitrary: m) (auto intro: wf_mput)

lemma wf_mbuild [go_wf, simp]: "wf_map (mbuild f g xs)"
  unfolding mbuild_def by (rule wf_fold_mput) simp

lemma dom_mbuild: "fst ` set (mbuild f g xs) = f ` set xs"
proof -
  have "map_of (mbuild f g xs) k = None \<longleftrightarrow> k \<notin> f ` set xs" for k
    unfolding map_of_mbuild map_of_eq_None_iff by (simp add: image_image)
  then show ?thesis
    unfolding map_of_eq_None_iff by blast
qed

lemma mbuild_snoc: "mbuild f g (xs @ [x]) = mput (f x) (g x) (mbuild f g xs)"
  by (simp add: mbuild_def)

lemma mput_new: "k \<notin> fst ` set m \<Longrightarrow> mput k v m = m @ [(k, v)]"
  by (induction m) auto

lemma mbuild_distinct:
  "distinct (map f xs) \<Longrightarrow> mbuild f g xs = map (\<lambda>x. (f x, g x)) xs"
proof (induction xs rule: rev_induct)
  case Nil
  show ?case by (simp add: mbuild_def)
next
  case (snoc x xs)
  then show ?case by (simp add: mbuild_snoc mput_new image_image)
qed

end
