(* ===== verification/GoStrings.thy ===== *)
theory GoStrings
  imports Prelude
begin

text \<open>
  The functions of Go's \<^verbatim>\<open>strings\<close> and \<^verbatim>\<open>strconv\<close> packages the agent uses, on byte strings:
  \<open>TrimSpace\<close>, \<open>ToLower\<close>, \<open>HasPrefix\<close>, \<open>TrimPrefix\<close>, \<open>Contains\<close>, \<open>Split\<close>, \<open>ReplaceAll\<close>,
  \<open>Fields\<close>, \<open>Atoi\<close> and \<open>FormatInt\<close>, and the laws the components rely on (trimming is
  idempotent, a number printed is a number read).
\<close>

section \<open>Bytes\<close>

abbreviation byte :: "char \<Rightarrow> nat" where
  "byte c \<equiv> of_char c"

definition is_digit :: "char \<Rightarrow> bool" where
  "is_digit c \<longleftrightarrow> 48 \<le> byte c \<and> byte c \<le> 57"

definition is_lower :: "char \<Rightarrow> bool" where
  "is_lower c \<longleftrightarrow> 97 \<le> byte c \<and> byte c \<le> 122"

definition is_upper :: "char \<Rightarrow> bool" where
  "is_upper c \<longleftrightarrow> 65 \<le> byte c \<and> byte c \<le> 90"

section \<open>White space\<close>

text \<open>The UTF-8 encodings of the runes for which \<^verbatim>\<open>unicode.IsSpace\<close> holds.\<close>

definition space_runes :: "string list" where
  "space_runes =
     [[CHR 0x20], [CHR 0x09], [CHR 0x0A], [CHR 0x0B], [CHR 0x0C], [CHR 0x0D],
      [CHR 0xC2, CHR 0x85], [CHR 0xC2, CHR 0xA0], [CHR 0xE1, CHR 0x9A, CHR 0x80],
      [CHR 0xE2, CHR 0x80, CHR 0x80], [CHR 0xE2, CHR 0x80, CHR 0x81],
      [CHR 0xE2, CHR 0x80, CHR 0x82], [CHR 0xE2, CHR 0x80, CHR 0x83],
      [CHR 0xE2, CHR 0x80, CHR 0x84], [CHR 0xE2, CHR 0x80, CHR 0x85],
      [CHR 0xE2, CHR 0x80, CHR 0x86], [CHR 0xE2, CHR 0x80, CHR 0x87],
      [CHR 0xE2, CHR 0x80, CHR 0x88], [CHR 0xE2, CHR 0x80, CHR 0x89],
      [CHR 0xE2, CHR 0x80, CHR 0x8A], [CHR 0xE2, CHR 0x80, CHR 0xA8],
      [CHR 0xE2, CHR 0x80, CHR 0xA9], [CHR 0xE2, CHR 0x80, CHR 0xAF],
      [CHR 0xE2, CHR 0x81, CHR 0x9F], [CHR 0xE3, CHR 0x80, CHR 0x80]]"

text \<open>The number of bytes of the member of \<open>ps\<close> the string starts with, 0 if there is none.\<close>

fun lead :: "string list \<Rightarrow> string \<Rightarrow> nat" where
  "lead [] s = 0"
| "lead (p # ps) s = (if prefix p s then length p else lead ps s)"

text \<open>Remove members of \<open>ps\<close> from the front for as long as there is one.\<close>

function strip :: "string list \<Rightarrow> string \<Rightarrow> string" where
  "strip ps s = (if 0 < lead ps s \<and> s \<noteq> [] then strip ps (drop (lead ps s) s) else s)"
  by pat_completeness auto
termination
  by (relation "measure (\<lambda>(ps, s). length s)") auto

declare strip.simps [simp del]

definition TrimSpace :: "string \<Rightarrow> string" where
  "TrimSpace s = rev (strip (map rev space_runes) (rev (strip space_runes s)))"

lemma lead_le: "lead ps s \<le> length s"
  by (induction ps) (auto dest: prefix_length_le)

lemma strip_lead: "lead ps (strip ps s) = 0"
proof (induction ps s rule: strip.induct)
  case (1 ps s)
  show ?case
  proof (cases "0 < lead ps s \<and> s \<noteq> []")
    case True
    with "1.IH" show ?thesis by (simp add: strip.simps [of ps s])
  next
    case False
    then show ?thesis using lead_le [of ps s] by (auto simp: strip.simps [of ps s])
  qed
qed

lemma strip_fix: "lead ps s = 0 \<Longrightarrow> strip ps s = s"
  by (simp add: strip.simps)

lemma strip_idem [simp]: "strip ps (strip ps s) = strip ps s"
  by (rule strip_fix) (rule strip_lead)

lemma strip_suffix: "suffix (strip ps s) s"
proof (induction ps s rule: strip.induct)
  case (1 ps s)
  show ?case
  proof (cases "0 < lead ps s \<and> s \<noteq> []")
    case True
    with "1.IH" have "suffix (strip ps (drop (lead ps s) s)) (drop (lead ps s) s)" by blast
    with True show ?thesis
      by (simp add: strip.simps [of ps s]) (meson suffix_drop suffix_order.trans)
  next
    case False
    then show ?thesis by (auto simp: strip.simps [of ps s])
  qed
qed

text \<open>
  Removing bytes from the end of a string cannot create a white-space rune at its front: a
  prefix of the string has no rune at the front that the string does not have.
\<close>

lemma lead_prefix: "prefix t s \<Longrightarrow> lead ps s = 0 \<Longrightarrow> [] \<notin> set ps \<Longrightarrow> lead ps t = 0"
  by (induction ps) (auto split: if_splits dest: prefix_order.trans)

lemma TrimSpace_prefix: "prefix (TrimSpace s) (strip space_runes s)"
  unfolding TrimSpace_def by (metis strip_suffix suffix_to_prefix rev_rev_ident)

lemma TrimSpace_idem [go_simps]: "TrimSpace (TrimSpace s) = TrimSpace s"
proof -
  have "[] \<notin> set space_runes" by (simp add: space_runes_def)
  then have "lead space_runes (TrimSpace s) = 0"
    using lead_prefix [OF TrimSpace_prefix] strip_lead by blast
  then have "strip space_runes (TrimSpace s) = TrimSpace s" by (rule strip_fix)
  then show ?thesis by (simp add: TrimSpace_def)
qed

lemma TrimSpace_Nil [simp]: "TrimSpace [] = []"
  by (simp add: TrimSpace_def strip.simps)

section \<open>Case\<close>

definition lower_char :: "char \<Rightarrow> char" where
  "lower_char c = (if is_upper c then char_of (byte c + 32) else c)"

definition ToLower :: "string \<Rightarrow> string" where
  "ToLower s = map lower_char s"

lemma lower_char_not_upper: "\<not> is_upper (lower_char c)"
proof (cases "is_upper c")
  case True
  then have "byte (lower_char c) = byte c + 32"
    by (simp add: lower_char_def is_upper_def of_char_of take_bit_eq_mod)
  with True show ?thesis by (simp add: is_upper_def)
next
  case False
  then show ?thesis by (simp add: lower_char_def)
qed

lemma ToLower_idem [go_simps]: "ToLower (ToLower s) = ToLower s"
  unfolding ToLower_def using lower_char_not_upper by (simp add: lower_char_def [of "lower_char _"])

lemma ToLower_Nil [simp]: "ToLower [] = []"
  and ToLower_eq_Nil [simp]: "ToLower s = [] \<longleftrightarrow> s = []"
  by (simp_all add: ToLower_def)

section \<open>Searching and splitting\<close>

definition HasPrefix :: "string \<Rightarrow> string \<Rightarrow> bool" where
  "HasPrefix s p = prefix p s"

definition TrimPrefix :: "string \<Rightarrow> string \<Rightarrow> string" where
  "TrimPrefix s p = (if prefix p s then drop (length p) s else s)"

text \<open>\<^verbatim>\<open>strings.Contains(s, c)\<close> for a one-byte \<^verbatim>\<open>c\<close>.\<close>

definition ContainsByte :: "string \<Rightarrow> char \<Rightarrow> bool" where
  "ContainsByte s c \<longleftrightarrow> c \<in> set s"

text \<open>\<^verbatim>\<open>strings.Split(s, c)\<close> for a one-byte separator.\<close>

fun SplitByte :: "char \<Rightarrow> string \<Rightarrow> string list" where
  "SplitByte c [] = [[]]"
| "SplitByte c (x # xs) =
     (if x = c then [] # SplitByte c xs
      else (case SplitByte c xs of [] \<Rightarrow> [[x]] | p # ps \<Rightarrow> (x # p) # ps))"

text \<open>Splitting: no part has the separator, and a part that ends in a separator is the first.\<close>

lemma SplitByte_ne: "SplitByte c s \<noteq> []"
  by (cases s) (auto split: list.split)

lemma SplitByte_parts: "l \<in> set (SplitByte c s) \<Longrightarrow> c \<notin> set l"
  by (induction c s arbitrary: l rule: SplitByte.induct) (auto split: if_splits list.splits)

lemma SplitByte_append: "c \<notin> set l \<Longrightarrow> SplitByte c (l @ c # s) = l # SplitByte c s"
  by (induction l) auto

text \<open>\<^verbatim>\<open>strings.ReplaceAll(s, old, new)\<close> for a non-empty \<^verbatim>\<open>old\<close>: leftmost, non-overlapping.\<close>

function ReplaceAll :: "string \<Rightarrow> string \<Rightarrow> string \<Rightarrow> string" where
  "ReplaceAll old new s =
     (if s = [] then []
      else if old \<noteq> [] \<and> prefix old s then new @ ReplaceAll old new (drop (length old) s)
      else hd s # ReplaceAll old new (tl s))"
  by pat_completeness auto
termination
  by (relation "measure (\<lambda>(old, new, s). length s)") auto

declare ReplaceAll.simps [simp del]

text \<open>\<^verbatim>\<open>strings.Fields\<close>: the maximal runs of bytes between white-space runes.\<close>

function field_end :: "string \<Rightarrow> nat" where
  "field_end s = (if s = [] \<or> 0 < lead space_runes s then 0 else Suc (field_end (tl s)))"
  by pat_completeness auto
termination
  by (relation "measure length") auto

declare field_end.simps [simp del]

lemma field_end_pos: "s \<noteq> [] \<Longrightarrow> lead space_runes s = 0 \<Longrightarrow> 0 < field_end s"
  by (simp add: field_end.simps)

lemma strip_length: "length (strip ps s) \<le> length s"
  using strip_suffix by (rule suffix_length_le)

function Fields :: "string \<Rightarrow> string list" where
  "Fields s =
     (let t = strip space_runes s
      in if t = [] then [] else take (field_end t) t # Fields (drop (field_end t) t))"
  by pat_completeness auto
termination
proof (relation "measure length", goal_cases)
  case (2 s t)
  then have "0 < field_end t" by (simp add: field_end_pos strip_lead)
  moreover have "length t \<le> length s" using 2 by (simp add: strip_length)
  moreover have "0 < length t" using 2 by simp
  ultimately have "length t - field_end t < length s" by linarith
  then show ?case by simp
qed simp

declare Fields.simps [simp del]

section \<open>Numbers\<close>

fun digits_val :: "int \<Rightarrow> string \<Rightarrow> int option" where
  "digits_val acc [] = Some acc"
| "digits_val acc (c # cs) =
     (if is_digit c then digits_val (acc * 10 + (int (byte c) - 48)) cs else None)"

text \<open>\<^verbatim>\<open>strconv.ParseInt(s, 10, 64)\<close>, which \<^verbatim>\<open>strconv.Atoi\<close> agrees with; \<open>None\<close> is the error.\<close>

definition ParseInt :: "string \<Rightarrow> int option" where
  "ParseInt s =
     (let (neg, ds) = (case s of
         c # cs \<Rightarrow> if c = CHR ''-'' then (True, cs) else if c = CHR ''+'' then (False, cs) else (False, s)
       | [] \<Rightarrow> (False, s))
      in if ds = [] then None
         else case digits_val 0 ds of
             None \<Rightarrow> None
           | Some v \<Rightarrow> (let x = (if neg then - v else v) in if in_i64 x then Some x else None))"

fun digits_of :: "nat \<Rightarrow> string" where
  "digits_of n = (if n < 10 then [char_of (48 + n)] else digits_of (n div 10) @ [char_of (48 + n mod 10)])"

declare digits_of.simps [simp del]

text \<open>\<^verbatim>\<open>strconv.FormatInt(x, 10)\<close>.\<close>

definition FormatInt :: "int \<Rightarrow> string" where
  "FormatInt x = (if x < 0 then CHR ''-'' # digits_of (nat (- x)) else digits_of (nat x))"

lemma byte_digit: "d < 10 \<Longrightarrow> byte (char_of (48 + d)) = 48 + d"
  by (simp add: of_char_of take_bit_eq_mod)

lemma digit_char: "d < (10::nat) \<Longrightarrow> is_digit (char_of (48 + d))"
  by (simp add: is_digit_def byte_digit)

lemma digits_val_append:
  "digits_val a (xs @ ys) = (case digits_val a xs of None \<Rightarrow> None | Some v \<Rightarrow> digits_val v ys)"
  by (induction xs arbitrary: a) auto

lemma digits_val_digits_of: "digits_val 0 (digits_of n) = Some (int n)"
proof (induction n rule: digits_of.induct)
  case (1 n)
  show ?case
  proof (cases "n < 10")
    case True
    then show ?thesis by (simp add: digits_of.simps [of n] digit_char byte_digit)
  next
    case False
    with 1 have "digits_val 0 (digits_of (n div 10)) = Some (int (n div 10))" by simp
    with False show ?thesis
      by (simp add: digits_of.simps [of n] digits_val_append digit_char byte_digit zdiv_int zmod_int)
  qed
qed

lemma digits_of_digits: "c \<in> set (digits_of n) \<Longrightarrow> is_digit c"
proof (induction n rule: digits_of.induct)
  case (1 n)
  then show ?case
    by (cases "n < 10") (auto simp: digits_of.simps [of n] digit_char)
qed

lemma digits_of_ne [simp]: "digits_of n \<noteq> []"
  by (subst digits_of.simps) simp

lemma is_digit_signs: "\<not> is_digit (CHR ''-'')" "\<not> is_digit (CHR ''+'')"
  by (simp_all add: is_digit_def)

lemma ParseInt_digits_of:
  assumes "int n < 2 ^ 63"
  shows "ParseInt (digits_of n) = Some (int n)"
proof -
  obtain c cs where cs: "digits_of n = c # cs" by (cases "digits_of n") auto
  then have "is_digit c" using digits_of_digits [of c n] by simp
  then have "c \<noteq> CHR ''-''" and "c \<noteq> CHR ''+''" by (metis is_digit_signs)+
  with cs assms digits_val_digits_of [of n] show ?thesis
    by (simp add: ParseInt_def in_i64_def)
qed

lemma ParseInt_FormatInt: "in_i64 x \<Longrightarrow> ParseInt (FormatInt x) = Some x"
proof (cases "x < 0")
  case True
  moreover assume "in_i64 x"
  ultimately show ?thesis
    by (simp add: FormatInt_def ParseInt_def digits_val_digits_of)
next
  case False
  moreover assume "in_i64 x"
  ultimately show ?thesis
    using ParseInt_digits_of [of "nat x"] by (simp add: FormatInt_def in_i64_def)
qed

lemma ParseInt_in_i64: "ParseInt s = Some v \<Longrightarrow> in_i64 v"
  by (auto simp: ParseInt_def Let_def split: list.splits if_splits option.splits)

text \<open>A string of ASCII digits has no white space.\<close>

lemma lead_0I: "\<forall>p \<in> set ps. p \<noteq> [] \<and> \<not> is_digit (hd p) \<Longrightarrow> is_digit c \<Longrightarrow> lead ps (c # s) = 0"
  by (induction ps) (auto simp: prefix_Cons)

lemma space_runes_no_digit:
  "\<forall>p \<in> set space_runes. p \<noteq> [] \<and> \<not> is_digit (hd p)"
  "\<forall>p \<in> set (map rev space_runes). p \<noteq> [] \<and> \<not> is_digit (hd p)"
  by (simp_all add: space_runes_def is_digit_def)

lemmas lead_space_digit = lead_0I [OF space_runes_no_digit(1)]
lemmas lead_rev_space_digit = lead_0I [OF space_runes_no_digit(2)]

lemma TrimSpace_digits_of [go_simps]: "TrimSpace (digits_of n) = digits_of n"
proof -
  let ?d = "digits_of n"
  obtain c cs where c: "?d = c # cs" by (cases ?d) auto
  obtain e es where e: "rev ?d = e # es" by (cases "rev ?d") auto
  have "is_digit c" using c digits_of_digits [of c n] by simp
  then have 1: "strip space_runes ?d = ?d" by (simp add: c strip_fix lead_space_digit)
  have "e \<in> set (rev ?d)" unfolding e by simp
  then have "is_digit e" using digits_of_digits [of e n] by simp
  then have "strip (map rev space_runes) (rev ?d) = rev ?d"
    by (simp add: e strip_fix lead_rev_space_digit)
  with 1 show ?thesis by (simp add: TrimSpace_def)
qed

end
