(* ===== verification/AgentV2.thy ===== *)
theory AgentV2
  imports GoStrings
begin

text \<open>
  The encrypted agent protocol of \<^verbatim>\<open>internal/agentv2/protocol.go\<close>: base64url values of fixed
  size, the length-prefixed transcripts that are signed, the sliding replay window on 64-bit
  words, and sessions that seal and open envelopes. The AEAD, HKDF, X25519, Ed25519 and HMAC
  primitives are arguments (\<open>aead\<close>, \<open>hkdf\<close>, \<open>crypto\<close>); a theorem that needs a law of theirs
  states it (\<open>aead_ok\<close>).
\<close>

unbundle bit_operations_syntax

section \<open>Base64url without padding\<close>

definition b64_alphabet :: string where
  "b64_alphabet = ''ABCDEFGHIJKLMNOPQRSTUVWXYZabcdefghijklmnopqrstuvwxyz0123456789-_''"

definition b64_char :: "nat \<Rightarrow> char" where
  "b64_char n = b64_alphabet ! (n mod 64)"

definition b64_val :: "char \<Rightarrow> nat option" where
  "b64_val c =
     (if is_upper c then Some (byte c - 65)
      else if is_lower c then Some (byte c - 71)
      else if is_digit c then Some (byte c + 4)
      else if c = CHR ''-'' then Some 62
      else if c = CHR ''_'' then Some 63
      else None)"

fun b64_enc :: "nat list \<Rightarrow> nat list" where
  "b64_enc [] = []"
| "b64_enc [a] = [a div 4, (a mod 4) * 16]"
| "b64_enc [a, b] = [a div 4, (a mod 4) * 16 + b div 16, (b mod 16) * 4]"
| "b64_enc (a # b # c # xs) =
     [a div 4, (a mod 4) * 16 + b div 16, (b mod 16) * 4 + c div 64, c mod 64] @ b64_enc xs"

fun b64_dec :: "nat list \<Rightarrow> nat list option" where
  "b64_dec [] = Some []"
| "b64_dec [p] = None"
| "b64_dec [p, q] = Some [p * 4 + q div 16]"
| "b64_dec [p, q, r] = Some [p * 4 + q div 16, (q mod 16) * 16 + r div 4]"
| "b64_dec (p # q # r # s # xs) =
     (case b64_dec xs of None \<Rightarrow> None
      | Some ys \<Rightarrow> Some ([p * 4 + q div 16, (q mod 16) * 16 + r div 4, (r mod 4) * 64 + s] @ ys))"

fun those_vals :: "string \<Rightarrow> nat list option" where
  "those_vals [] = Some []"
| "those_vals (c # cs) =
     (case b64_val c of None \<Rightarrow> None | Some v \<Rightarrow> map_option ((#) v) (those_vals cs))"

definition encode :: "string \<Rightarrow> string" where
  "encode value = map b64_char (b64_enc (map byte value))"

text \<open>The decoder skips carriage returns and line feeds.\<close>

definition b64_decode :: "string \<Rightarrow> string option" where
  "b64_decode s =
     Option.bind (those_vals (filter (\<lambda>c. c \<noteq> CHR 0x0A \<and> c \<noteq> CHR 0x0D) s))
       (\<lambda>vs. map_option (map char_of) (b64_dec vs))"

definition decodeSized :: "string \<Rightarrow> nat \<Rightarrow> string option" where
  "decodeSized value sz =
     (case b64_decode value of
        None \<Rightarrow> None
      | Some decoded \<Rightarrow> if length decoded \<noteq> sz then None else Some decoded)"

section \<open>Transcripts\<close>

text \<open>\<^verbatim>\<open>binary.BigEndian.PutUint64\<close> and \<^verbatim>\<open>Uint64\<close>.\<close>

fun be_bytes :: "nat \<Rightarrow> nat \<Rightarrow> string" where
  "be_bytes 0 n = []"
| "be_bytes (Suc k) n = char_of (n div 256 ^ k) # be_bytes k n"

definition be64 :: "64 word \<Rightarrow> string" where
  "be64 v = be_bytes 8 (unat v)"

definition be64_val :: "string \<Rightarrow> 64 word" where
  "be64_val bs = word_of_nat (foldl (\<lambda>a c. a * 256 + byte c) 0 bs)"

definition appendUint64 :: "string \<Rightarrow> 64 word \<Rightarrow> string" where
  "appendUint64 out value = out @ be64 value"

definition appendField :: "string \<Rightarrow> string \<Rightarrow> string" where
  "appendField out value = appendUint64 out (word_of_nat (length value)) @ value"

record HandshakeRequest =
  rq_Version :: string
  rq_Mode :: string
  rq_MachineID :: string
  rq_IdentityPublic :: string
  rq_EphemeralPublic :: string
  rq_Nonce :: string
  rq_Timestamp :: int
  rq_Proof :: string

record HandshakeResponse =
  rs_Version :: string
  rs_SessionID :: string
  rs_IdentityPublic :: string
  rs_EphemeralPublic :: string
  rs_Nonce :: string
  rs_Timestamp :: int
  rs_Enrolled :: bool
  rs_Signature :: string

definition RequestTranscript :: "HandshakeRequest \<Rightarrow> string" where
  "RequestTranscript request =
     appendUint64
       (foldl appendField []
          [''ca2'', rq_Version request, rq_Mode request, rq_MachineID request,
           rq_IdentityPublic request, rq_EphemeralPublic request, rq_Nonce request])
       (word_of_int (rq_Timestamp request))"

definition ResponseTranscript :: "string \<Rightarrow> HandshakeResponse \<Rightarrow> string" where
  "ResponseTranscript request response =
     appendUint64
       (foldl appendField request
          [rs_Version response, rs_SessionID response, rs_IdentityPublic response,
           rs_EphemeralPublic response, rs_Nonce response])
       (word_of_int (rs_Timestamp response))
     @ (if rs_Enrolled response then [char_of (1::nat)] else [char_of (0::nat)])"

section \<open>Replay window\<close>

record replayWindow =
  maxSeq :: "64 word"
  bitmap :: "64 word"

definition replayWindow_zero :: replayWindow where
  "replayWindow_zero = \<lparr>maxSeq = 0, bitmap = 0\<rparr>"

definition accept :: "replayWindow \<Rightarrow> 64 word \<Rightarrow> bool \<times> replayWindow" where
  "accept w seq =
     (if seq = 0 then (False, w)
      else if maxSeq w < seq then
        (let shift = seq - maxSeq w;
             shifted = (if 64 \<le> shift then 0 else push_bit (unat shift) (bitmap w))
         in (True, w\<lparr>maxSeq := seq, bitmap := shifted OR 1\<rparr>))
      else
        (let difference = maxSeq w - seq
         in if 64 \<le> difference then (False, w)
            else (let b = push_bit (unat difference) 1
                  in if bitmap w AND b \<noteq> 0 then (False, w)
                     else (True, w\<lparr>bitmap := bitmap w OR b\<rparr>))))"

section \<open>Sessions\<close>

text \<open>An AEAD: \<open>seal nonce plaintext aad\<close> and \<open>open nonce ciphertext aad\<close>.\<close>

record aead =
  aead_seal :: "string \<Rightarrow> string \<Rightarrow> string \<Rightarrow> string"
  aead_open :: "string \<Rightarrow> string \<Rightarrow> string \<Rightarrow> string option"

record Session =
  se_machineID :: string
  se_sessionID :: string
  se_sendAEAD :: aead
  se_recvAEAD :: aead
  se_sendNonce :: string
  se_recvNonce :: string
  se_sendDirection :: nat
  se_recvDirection :: nat
  se_sendSeq :: "64 word"
  se_recvWindow :: replayWindow

datatype v2_error =
    SequenceExhausted | ErrInvalidEnvelope | ErrWrongSession | ErrReplay
  | HandshakeNotInitialized | UnsupportedProtocol | PanelIdentityMismatch | InvalidEncodedValue
  | InvalidSignature | KeyAgreementFailed | InvalidSessionBinding | CipherUnavailable
  | InvalidIdentityKey | EnrollmentKeyTooShort | RandomUnavailable

definition EnvelopeVersion :: char where
  "EnvelopeVersion = CHR 0x02"

definition sessionIDSize :: nat where "sessionIDSize = 16"
definition nonceSize :: nat where "nonceSize = 12"
definition headerSize :: nat where "headerSize = 1 + sessionIDSize + 8"
definition tagSize :: nat where "tagSize = 16"

definition xor_byte :: "char \<Rightarrow> char \<Rightarrow> char" where
  "xor_byte a b = char_of (byte a XOR byte b)"

definition makeNonce :: "string \<Rightarrow> 64 word \<Rightarrow> string" where
  "makeNonce base seq =
     take (nonceSize - 8) base @ map2 xor_byte (drop (nonceSize - 8) base) (be64 seq)"

definition associatedData ::
    "string \<Rightarrow> string \<Rightarrow> string \<Rightarrow> string \<Rightarrow> nat \<Rightarrow> 64 word \<Rightarrow> string" where
  "associatedData sessionID machineID method path direction seq =
     appendUint64
       (foldl appendField ([EnvelopeVersion, char_of direction] @ sessionID) [machineID, method, path])
       seq"

definition Seal :: "Session \<Rightarrow> string \<Rightarrow> string \<Rightarrow> string \<Rightarrow> (v2_error + string) \<times> Session" where
  "Seal s method path plaintext =
     (let seq = se_sendSeq s + 1; s' = s\<lparr>se_sendSeq := seq\<rparr>
      in if seq = 0 then (Inl SequenceExhausted, s')
         else
           (let nonce = makeNonce (se_sendNonce s) seq;
                aad = associatedData (se_sessionID s) (se_machineID s) method path (se_sendDirection s) seq;
                ciphertext = aead_seal (se_sendAEAD s) nonce plaintext aad
            in (Inr ([EnvelopeVersion] @ se_sessionID s @ be64 seq @ ciphertext), s')))"

definition envelope_ok :: "string \<Rightarrow> bool" where
  "envelope_ok envelope \<longleftrightarrow>
     headerSize + tagSize \<le> length envelope \<and> hd envelope = EnvelopeVersion"

definition envelope_id :: "string \<Rightarrow> string" where
  "envelope_id envelope = take sessionIDSize (drop 1 envelope)"

definition envelope_seq :: "string \<Rightarrow> 64 word" where
  "envelope_seq envelope = be64_val (take 8 (drop (1 + sessionIDSize) envelope))"

definition Open :: "Session \<Rightarrow> string \<Rightarrow> string \<Rightarrow> string \<Rightarrow> (v2_error + string) \<times> Session" where
  "Open s method path envelope =
     (if \<not> envelope_ok envelope then (Inl ErrInvalidEnvelope, s)
      else if envelope_id envelope \<noteq> se_sessionID s then (Inl ErrWrongSession, s)
      else
        (let seq = envelope_seq envelope
         in if seq = 0 then (Inl ErrInvalidEnvelope, s)
            else
              (case accept (se_recvWindow s) seq of
                 (False, _) \<Rightarrow> (Inl ErrReplay, s)
               | (True, candidate) \<Rightarrow>
                   (let nonce = makeNonce (se_recvNonce s) seq;
                        aad = associatedData (se_sessionID s) (se_machineID s) method path
                                (se_recvDirection s) seq
                    in case aead_open (se_recvAEAD s) nonce (drop headerSize envelope) aad of
                         None \<Rightarrow> (Inl ErrInvalidEnvelope, s)
                       | Some plain \<Rightarrow> (Inr plain, s\<lparr>se_recvWindow := candidate\<rparr>)))))"

definition SessionIDFromEnvelope :: "string \<Rightarrow> v2_error + string" where
  "SessionIDFromEnvelope envelope =
     (if \<not> envelope_ok envelope then Inl ErrInvalidEnvelope else Inr (encode (envelope_id envelope)))"

definition Session_ID :: "Session \<Rightarrow> string" where
  "Session_ID s = encode (se_sessionID s)"

text \<open>
  \<open>hkdf shared salt info n\<close> gives \<open>n\<close> bytes of key material or fails; \<open>newAEAD key\<close> is AES-GCM.
\<close>

definition deriveSession ::
    "(string \<Rightarrow> string \<Rightarrow> string \<Rightarrow> nat \<Rightarrow> string option) \<Rightarrow> (string \<Rightarrow> aead option) \<Rightarrow>
     string \<Rightarrow> string \<Rightarrow> string \<Rightarrow> string \<Rightarrow> bool \<Rightarrow> v2_error + Session" where
  "deriveSession hkdf newAEAD shared salt sessionID machineID server =
     (if length sessionID \<noteq> sessionIDSize \<or> machineID = [] then Inl InvalidSessionBinding
      else case hkdf shared salt ''ca2'' (32 + 32 + nonceSize + nonceSize) of
             None \<Rightarrow> Inl CipherUnavailable
           | Some material \<Rightarrow>
               (case newAEAD (take 32 material) of
                  None \<Rightarrow> Inl CipherUnavailable
                | Some c2s \<Rightarrow>
                    (case newAEAD (take 32 (drop 32 material)) of
                       None \<Rightarrow> Inl CipherUnavailable
                     | Some s2c \<Rightarrow>
                         (let lo = take nonceSize (drop 64 material);
                              hi = take nonceSize (drop (64 + nonceSize) material)
                          in Inr (if server
                             then \<lparr>se_machineID = machineID, se_sessionID = sessionID,
                                   se_sendAEAD = s2c, se_recvAEAD = c2s,
                                   se_sendNonce = hi, se_recvNonce = lo,
                                   se_sendDirection = 1, se_recvDirection = 0,
                                   se_sendSeq = 0, se_recvWindow = replayWindow_zero\<rparr>
                             else \<lparr>se_machineID = machineID, se_sessionID = sessionID,
                                   se_sendAEAD = c2s, se_recvAEAD = s2c,
                                   se_sendNonce = lo, se_recvNonce = hi,
                                   se_sendDirection = 0, se_recvDirection = 1,
                                   se_sendSeq = 0, se_recvWindow = replayWindow_zero\<rparr>)))))"

section \<open>Handshake\<close>

text \<open>
  The primitives: Ed25519 signing and verification, HMAC-SHA256, SHA-256 and X25519
  (\<open>x_public\<close> of a private key, \<open>x_agree\<close> of a private key and a peer's bytes).
\<close>

record crypto =
  ed_sign :: "string \<Rightarrow> string \<Rightarrow> string"
  ed_verify :: "string \<Rightarrow> string \<Rightarrow> string \<Rightarrow> bool"
  hmac_sha256 :: "string \<Rightarrow> string \<Rightarrow> string"
  sha256 :: "string \<Rightarrow> string"
  x_public :: "string \<Rightarrow> string"
  x_agree :: "string \<Rightarrow> string \<Rightarrow> string option"

record ClientHandshake =
  ch_Request :: HandshakeRequest
  ch_ephemeralPrivate :: "string option"
  ch_requestTranscript :: string

definition ParsePublicKey :: "string \<Rightarrow> string option" where
  "ParsePublicKey value = decodeSized value 32"

definition transcriptHash :: "crypto \<Rightarrow> string \<Rightarrow> string \<Rightarrow> string" where
  "transcriptHash cr request response = sha256 cr (request @ response)"

text \<open>
  \<open>ephemeral\<close> and \<open>nonce\<close> are what the random source returned: a private key and 32 bytes.
\<close>

definition NewClientHandshake ::
    "crypto \<Rightarrow> string option \<Rightarrow> string option \<Rightarrow> string \<Rightarrow> string \<Rightarrow> string \<Rightarrow> string \<Rightarrow> bool \<Rightarrow> int \<Rightarrow>
     v2_error + ClientHandshake" where
  "NewClientHandshake cr ephemeral nonce machineID identityPublic identityPrivate enrollmentKey enrolled now =
     (if length identityPublic \<noteq> 32 \<or> length identityPrivate \<noteq> 64 then Inl InvalidIdentityKey
      else case ephemeral of
        None \<Rightarrow> Inl RandomUnavailable
      | Some ephemeralPrivate \<Rightarrow>
          (case nonce of
             None \<Rightarrow> Inl RandomUnavailable
           | Some n \<Rightarrow>
               (let request = \<lparr>rq_Version = ''2'', rq_Mode = (if enrolled then ''lj'' else ''dj''),
                      rq_MachineID = machineID, rq_IdentityPublic = encode identityPublic,
                      rq_EphemeralPublic = encode (x_public cr ephemeralPrivate),
                      rq_Nonce = encode n, rq_Timestamp = now, rq_Proof = []\<rparr>;
                    transcript = RequestTranscript request
                in if enrolled then
                     Inr \<lparr>ch_Request = request\<lparr>rq_Proof := encode (ed_sign cr identityPrivate transcript)\<rparr>,
                          ch_ephemeralPrivate = Some ephemeralPrivate, ch_requestTranscript = transcript\<rparr>
                   else if length enrollmentKey < 32 then Inl EnrollmentKeyTooShort
                   else
                     Inr \<lparr>ch_Request = request\<lparr>rq_Proof := encode (hmac_sha256 cr enrollmentKey transcript)\<rparr>,
                          ch_ephemeralPrivate = Some ephemeralPrivate, ch_requestTranscript = transcript\<rparr>)))"

definition Complete ::
    "crypto \<Rightarrow> (string \<Rightarrow> string \<Rightarrow> string \<Rightarrow> nat \<Rightarrow> string option) \<Rightarrow> (string \<Rightarrow> aead option) \<Rightarrow>
     ClientHandshake option \<Rightarrow> HandshakeResponse \<Rightarrow> string \<Rightarrow> v2_error + Session" where
  "Complete cr hkdf newAEAD hs response expectedPanelIdentity =
     (case hs of
        None \<Rightarrow> Inl HandshakeNotInitialized
      | Some h \<Rightarrow>
     (case ch_ephemeralPrivate h of
        None \<Rightarrow> Inl HandshakeNotInitialized
      | Some ephemeralPrivate \<Rightarrow>
     if rs_Version response \<noteq> ''2'' then Inl UnsupportedProtocol
     else if ParsePublicKey (rs_IdentityPublic response) \<noteq> Some expectedPanelIdentity
       then Inl PanelIdentityMismatch
     else (case decodeSized (rs_EphemeralPublic response) 32 of
        None \<Rightarrow> Inl InvalidEncodedValue
      | Some serverEphemeral \<Rightarrow>
     (case decodeSized (rs_SessionID response) sessionIDSize of
        None \<Rightarrow> Inl InvalidEncodedValue
      | Some sessionID \<Rightarrow>
     (case decodeSized (rs_Nonce response) 32 of
        None \<Rightarrow> Inl InvalidEncodedValue
      | Some _ \<Rightarrow>
     (case decodeSized (rs_Signature response) 64 of
        None \<Rightarrow> Inl InvalidEncodedValue
      | Some signature \<Rightarrow>
          (let responseTranscript = ResponseTranscript (ch_requestTranscript h) response
           in if \<not> ed_verify cr expectedPanelIdentity responseTranscript signature
              then Inl InvalidSignature
              else (case x_agree cr ephemeralPrivate serverEphemeral of
                      None \<Rightarrow> Inl KeyAgreementFailed
                    | Some shared \<Rightarrow>
                        deriveSession hkdf newAEAD shared
                          (transcriptHash cr (ch_requestTranscript h) responseTranscript)
                          sessionID (rq_MachineID (ch_Request h)) False))))))))"

section \<open>The replay window implements the set of accepted sequence numbers\<close>

text \<open>
  The abstract filter: a number is accepted if it is positive, new, and fewer than 64 behind
  the largest accepted one.
\<close>

definition accept_spec :: "nat set \<Rightarrow> nat \<Rightarrow> bool" where
  "accept_spec S n \<longleftrightarrow> n \<noteq> 0 \<and> n \<notin> S \<and> (\<forall>m \<in> S. m < n + 64)"

definition window_rel :: "replayWindow \<Rightarrow> nat set \<Rightarrow> bool" where
  "window_rel w S \<longleftrightarrow>
     0 \<notin> S \<and> (\<forall>n \<in> S. n \<le> unat (maxSeq w)) \<and> (maxSeq w \<noteq> 0 \<longrightarrow> unat (maxSeq w) \<in> S) \<and>
     (\<forall>d < 64. bit (bitmap w) d \<longleftrightarrow> d \<le> unat (maxSeq w) \<and> unat (maxSeq w) - d \<in> S)"

lemma window_rel_zero: "window_rel replayWindow_zero {}"
  by (simp add: window_rel_def replayWindow_zero_def)

lemma unat_ge_64: "64 \<le> (x :: 64 word) \<longleftrightarrow> 64 \<le> unat x"
  by (simp add: word_le_nat_alt)

lemma and_bit_zero: "(x AND push_bit d 1 \<noteq> 0) \<longleftrightarrow> bit x d" for x :: "64 word"
  by (simp add: push_bit_eq_mult and_exp_eq_0_iff_not_bit)

lemma accept_newer:
  assumes rel: "window_rel w S" and lt: "maxSeq w < seq"
  shows "\<exists>w'. accept w seq = (True, w') \<and> accept_spec S (unat seq) \<and> window_rel w' (insert (unat seq) S)"
proof -
  let ?m = "unat (maxSeq w)" and ?n = "unat seq"
  have mn: "?m < ?n" using lt by (simp add: word_less_nat_alt)
  have sub: "unat (seq - maxSeq w) = ?n - ?m"
    using lt by (simp add: unat_sub less_imp_le)
  define bm where "bm = (if 64 \<le> seq - maxSeq w then 0 else push_bit (unat (seq - maxSeq w)) (bitmap w))"
  have acc: "accept w seq = (True, w\<lparr>maxSeq := seq, bitmap := bm OR 1\<rparr>)"
    using lt mn by (auto simp: accept_def bm_def Let_def)
  have old: "n \<le> ?m" if "n \<in> S" for n using rel that by (auto simp: window_rel_def)
  have bits: "bit (bm OR 1) d \<longleftrightarrow> d \<le> ?n \<and> ?n - d \<in> insert ?n S" if d: "d < 64" for d
  proof -
    have "bit bm d \<longleftrightarrow> ?n - ?m \<le> d \<and> bit (bitmap w) (d - (?n - ?m))"
      using d by (auto simp: bm_def unat_ge_64 sub bit_simps)
    also have "\<dots> \<longleftrightarrow> ?n - ?m \<le> d \<and> d \<le> ?n \<and> ?n - d \<in> S"
      using rel d mn by (auto simp: window_rel_def)
    also have "\<dots> \<longleftrightarrow> d \<noteq> 0 \<and> d \<le> ?n \<and> ?n - d \<in> S"
      using old mn by fastforce
    finally show ?thesis using d mn by (auto simp: bit_simps)
  qed
  have "accept_spec S ?n" using old mn by (fastforce simp: accept_spec_def)
  moreover have "window_rel (w\<lparr>maxSeq := seq, bitmap := bm OR 1\<rparr>) (insert ?n S)"
    using rel mn old bits by (fastforce simp: window_rel_def)
  ultimately show ?thesis using acc by blast
qed

lemma accept_older:
  assumes rel: "window_rel w S" and le: "seq \<le> maxSeq w" and nz: "seq \<noteq> 0"
  shows "\<exists>b w'. accept w seq = (b, w') \<and> b = accept_spec S (unat seq) \<and>
           window_rel w' (if b then insert (unat seq) S else S)"
proof -
  let ?m = "unat (maxSeq w)" and ?n = "unat seq"
  have nm: "?n \<le> ?m" using le by (simp add: word_le_nat_alt)
  have n0: "?n \<noteq> 0" using nz by (simp add: unat_eq_0)
  have mS: "?m \<in> S" using rel nz le by (auto simp: window_rel_def)
  have nlt: "\<not> maxSeq w < seq" using le by (simp add: not_less)
  have sub: "unat (maxSeq w - seq) = ?m - ?n" using le by (simp add: unat_sub)
  have old: "n \<le> ?m" if "n \<in> S" for n using rel that by (auto simp: window_rel_def)
  show ?thesis
  proof (cases "64 \<le> ?m - ?n")
    case True
    then have "accept w seq = (False, w)"
      using le nz by (simp add: accept_def Let_def unat_ge_64 sub)
    moreover have "\<not> accept_spec S ?n" using mS True by (force simp: accept_spec_def)
    ultimately show ?thesis using rel by (intro exI [of _ False] exI [of _ w]) simp
  next
    case False
    then have d: "?m - ?n < 64" by simp
    have seen: "bit (bitmap w) (?m - ?n) \<longleftrightarrow> ?n \<in> S"
      using rel d nm by (auto simp: window_rel_def)
    have spec: "accept_spec S ?n \<longleftrightarrow> ?n \<notin> S"
      using old n0 d by (fastforce simp: accept_spec_def)
    have acc: "accept w seq = (if ?n \<in> S then (False, w)
                 else (True, w\<lparr>bitmap := bitmap w OR push_bit (?m - ?n) 1\<rparr>))"
      using nlt nz False and_bit_zero [of "bitmap w"] seen
      by (simp add: accept_def Let_def unat_ge_64 sub)
    have bits: "bit (bitmap w OR push_bit (?m - ?n) 1) e \<longleftrightarrow> e \<le> ?m \<and> ?m - e \<in> insert ?n S"
      if "e < 64" for e
      using rel that nm d by (auto simp: window_rel_def bit_simps)
    then have "window_rel (w\<lparr>bitmap := bitmap w OR push_bit (?m - ?n) 1\<rparr>) (insert ?n S)"
      using rel nm n0 by (auto simp: window_rel_def)
    with acc spec rel show ?thesis by auto
  qed
qed

lemma accept_refines:
  assumes "window_rel w S"
  shows "\<exists>w'. accept w seq = (accept_spec S (unat seq), w') \<and>
           window_rel w' (if accept_spec S (unat seq) then insert (unat seq) S else S)"
proof -
  consider "seq = 0" | "maxSeq w < seq" | "seq \<le> maxSeq w" "seq \<noteq> 0" by force
  then show ?thesis
  proof cases
    case 1
    then show ?thesis using assms by (simp add: accept_def accept_spec_def)
  next
    case 2
    then show ?thesis using accept_newer [OF assms 2] by auto
  next
    case 3
    then show ?thesis using accept_older [OF assms 3] by auto
  qed
qed

section \<open>Filters that let each key through at most once\<close>

text \<open>The inputs a filter accepts, in order.\<close>

fun filter_run :: "('w \<Rightarrow> 'n \<Rightarrow> bool \<times> 'w) \<Rightarrow> 'w \<Rightarrow> 'n list \<Rightarrow> 'n list" where
  "filter_run f w [] = []"
| "filter_run f w (n # ns) =
     (case f w n of (b, w') \<Rightarrow> if b then n # filter_run f w' ns else filter_run f w' ns)"

text \<open>
  What a client of a replay filter relies on: what is let through is new, what is refused
  leaves the set of seen keys as it was.
\<close>

locale at_most_once =
  fixes f :: "'w \<Rightarrow> 'n \<Rightarrow> bool \<times> 'w"
    and key :: "'n \<Rightarrow> nat"
    and rel :: "'w \<Rightarrow> nat set \<Rightarrow> bool"
  assumes let_through: "rel w S \<Longrightarrow> f w n = (True, w') \<Longrightarrow> key n \<notin> S \<and> rel w' (insert (key n) S)"
    and refused: "rel w S \<Longrightarrow> f w n = (False, w') \<Longrightarrow> rel w' S"
begin

lemma run_distinct:
  "rel w S \<Longrightarrow> distinct (map key (filter_run f w ns)) \<and> key ` set (filter_run f w ns) \<inter> S = {}"
proof (induction ns arbitrary: w S)
  case Nil
  show ?case by simp
next
  case (Cons n ns)
  obtain b w' where f: "f w n = (b, w')" by fastforce
  show ?case
  proof (cases b)
    case True
    with f Cons.prems have n: "key n \<notin> S" and w': "rel w' (insert (key n) S)"
      using let_through by auto
    from Cons.IH [OF w'] n f True show ?thesis by auto
  next
    case False
    with f Cons.prems have "rel w' S" using refused by simp
    from Cons.IH [OF this] f False show ?thesis by simp
  qed
qed

end

text \<open>A replay filter in addition accepts exactly what the abstract filter accepts.\<close>

locale replay_filter =
  fixes f :: "'w \<Rightarrow> 'n \<Rightarrow> bool \<times> 'w"
    and key :: "'n \<Rightarrow> nat"
    and rel :: "'w \<Rightarrow> nat set \<Rightarrow> bool"
  assumes exact: "rel w S \<Longrightarrow> \<exists>w'. f w n = (accept_spec S (key n), w') \<and>
     rel w' (if accept_spec S (key n) then insert (key n) S else S)"
begin

lemma once: "at_most_once f key rel"
proof
  fix w S n w'
  assume "rel w S" and "f w n = (True, w')"
  then show "key n \<notin> S \<and> rel w' (insert (key n) S)"
    using exact [of w S n] by (auto simp: accept_spec_def)
next
  fix w S n w'
  assume "rel w S" and "f w n = (False, w')"
  then show "rel w' S" using exact [of w S n] by auto
qed

end

sublocale replay_filter < at_most_once f key rel
  by (rule once)

interpretation rw: replay_filter accept unat window_rel
  by unfold_locales (rule accept_refines)

text \<open>The decisions over a sequence of numbers, by the window and by the abstract filter.\<close>

fun accept_run :: "replayWindow \<Rightarrow> 64 word list \<Rightarrow> bool list" where
  "accept_run w [] = []"
| "accept_run w (n # ns) = (case accept w n of (b, w') \<Rightarrow> b # accept_run w' ns)"

fun spec_run :: "nat set \<Rightarrow> nat list \<Rightarrow> bool list" where
  "spec_run S [] = []"
| "spec_run S (n # ns) =
     accept_spec S n # spec_run (if accept_spec S n then insert n S else S) ns"

lemma accept_run_spec: "window_rel w S \<Longrightarrow> accept_run w ns = spec_run S (map unat ns)"
proof (induction ns arbitrary: w S)
  case Nil
  show ?case by simp
next
  case (Cons n ns)
  obtain w' where "accept w n = (accept_spec S (unat n), w')"
    and "window_rel w' (if accept_spec S (unat n) then insert (unat n) S else S)"
    using accept_refines [OF Cons.prems] by blast
  with Cons.IH show ?case by simp
qed

section \<open>Length-prefixed fields are injective\<close>

lemma length_be_bytes [simp]: "length (be_bytes k n) = k"
  by (induction k) simp_all

lemma length_be64 [simp]: "length (be64 v) = 8"
  by (simp add: be64_def)

lemma foldl_be_bytes:
  "foldl (\<lambda>a c. a * 256 + byte c) a (be_bytes k n) = a * 256 ^ k + n mod 256 ^ k"
proof (induction k arbitrary: a)
  case 0
  show ?case by simp
next
  case (Suc k)
  have "n mod 256 ^ Suc k = (n div 256 ^ k mod 256) * 256 ^ k + n mod 256 ^ k"
    using mod_mult2_eq [of n "256 ^ k" 256] by (simp add: mult.commute)
  then show ?case by (simp add: Suc.IH) (simp add: algebra_simps)
qed

lemma be64_val_be64 [simp]: "be64_val (be64 v) = v"
proof -
  have "unat v < 2 ^ LENGTH(64)" by (rule unsigned_less)
  then have "unat v < 256 ^ 8" by simp
  then show ?thesis by (simp add: be64_val_def be64_def foldl_be_bytes)
qed

lemma be64_inj: "be64 v = be64 w \<longleftrightarrow> v = w"
  by (metis be64_val_be64)

definition fld :: "string \<Rightarrow> string" where
  "fld v = be64 (word_of_nat (length v)) @ v"

lemma foldl_appendField: "foldl appendField out vs = out @ concat (map fld vs)"
  by (induction vs arbitrary: out) (simp_all add: appendField_def appendUint64_def fld_def)

lemma fld_inj:
  assumes "fld v @ x = fld w @ y" and "length v < 2 ^ 64" and "length w < 2 ^ 64"
  shows "v = w \<and> x = y"
proof -
  have "be64 (word_of_nat (length v)) = be64 (word_of_nat (length w))"
    and r: "v @ x = w @ y"
    using assms(1) by (simp_all add: fld_def)
  then have "(word_of_nat (length v) :: 64 word) = word_of_nat (length w)"
    by (simp add: be64_inj)
  then have "length v = length w"
    using assms(2,3) by (simp add: word_of_nat_eq_iff take_bit_nat_eq_self)
  with r show ?thesis by simp
qed

lemma flds_inj:
  assumes "concat (map fld vs) @ x = concat (map fld ws) @ y" and "length vs = length ws"
    and "\<forall>v \<in> set vs \<union> set ws. length v < 2 ^ 64"
  shows "vs = ws \<and> x = y"
  using assms(2,1,3)
proof (induction vs ws arbitrary: x y rule: list_induct2)
  case Nil
  then show ?case by simp
next
  case (Cons v vs w ws)
  have "v = w \<and> concat (map fld vs) @ x = concat (map fld ws) @ y"
    using Cons.prems by (intro fld_inj) auto
  with Cons show ?case by auto
qed

lemma word_of_i64_inj:
  assumes "word_of_int a = (word_of_int b :: 64 word)" and "in_i64 a" and "in_i64 b"
  shows "a = b"
proof -
  have "sint (word_of_int a :: 64 word) = sint (word_of_int b :: 64 word)"
    using assms(1) by simp
  then have "i64 a = i64 b" by (simp add: sint_sbintrunc' i64_def)
  with assms(2,3) show ?thesis by (simp add: i64_id)
qed

section \<open>Base64 round trip\<close>

lemma b64_val_char_all: "\<forall>n \<in> set [0..<64]. b64_val (b64_char n) = Some n"
  by code_simp

lemma b64_char_no_newline_all:
  "\<forall>n \<in> set [0..<64]. b64_char n \<noteq> CHR 0x0A \<and> b64_char n \<noteq> CHR 0x0D"
  by code_simp

lemma those_vals_chars: "\<forall>v \<in> set vs. v < 64 \<Longrightarrow> those_vals (map b64_char vs) = Some vs"
  using b64_val_char_all by (induction vs) auto

lemma filter_chars:
  "\<forall>v \<in> set vs. v < 64 \<Longrightarrow>
     filter (\<lambda>c. c \<noteq> CHR 0x0A \<and> c \<noteq> CHR 0x0D) (map b64_char vs) = map b64_char vs"
  using b64_char_no_newline_all by (induction vs) auto

lemma b64_enc_small: "\<forall>b \<in> set bs. b < 256 \<Longrightarrow> \<forall>v \<in> set (b64_enc bs). v < 64"
  by (induction bs rule: b64_enc.induct) (auto; linarith)+

lemma b64_dec_enc: "\<forall>b \<in> set bs. b < 256 \<Longrightarrow> b64_dec (b64_enc bs) = Some bs"
proof (induction bs rule: b64_enc.induct)
  case (3 a b)
  then have "b div 16 < 16" by auto
  then show ?case by simp
next
  case (4 a b c xs)
  have "b div 16 < 16" and "c div 64 < 4" using 4 by auto
  then have "((a mod 4) * 16 + b div 16) div 16 = a mod 4" and "((a mod 4) * 16 + b div 16) mod 16 = b div 16"
    and "((b mod 16) * 4 + c div 64) div 4 = b mod 16" and "((b mod 16) * 4 + c div 64) mod 4 = c div 64"
    by simp_all
  with 4 show ?case by simp
qed simp_all

lemma b64_decode_encode: "b64_decode (encode x) = Some x"
proof -
  let ?vs = "b64_enc (map byte x)"
  have bytes: "\<forall>b \<in> set (map byte x). b < 256" by auto
  then have "\<forall>v \<in> set ?vs. v < 64" by (rule b64_enc_small)
  then have "those_vals (filter (\<lambda>c. c \<noteq> CHR 0x0A \<and> c \<noteq> CHR 0x0D) (encode x)) = Some ?vs"
    by (simp only: encode_def filter_chars those_vals_chars)
  with b64_dec_enc [OF bytes] show ?thesis
    by (simp add: b64_decode_def comp_def)
qed

lemma length_encode_le: "length (encode x) \<le> 2 * length x"
proof -
  have "length (b64_enc bs) \<le> 2 * length bs" for bs
    by (induction bs rule: b64_enc.induct) simp_all
  from this [of "map byte x"] show ?thesis by (simp add: encode_def)
qed

lemma decodeSized_encode: "decodeSized (encode x) n = (if length x = n then Some x else None)"
  by (simp add: decodeSized_def b64_decode_encode)

section \<open>Sessions\<close>

text \<open>AES-GCM opens what it sealed, and appends a tag of 16 bytes.\<close>

definition aead_ok :: "aead \<Rightarrow> bool" where
  "aead_ok a \<longleftrightarrow> (\<forall>n p d. aead_open a n (aead_seal a n p d) d = Some p \<and>
     length (aead_seal a n p d) = length p + 16)"

definition paired :: "Session \<Rightarrow> Session \<Rightarrow> bool" where
  "paired c s \<longleftrightarrow>
     se_sessionID c = se_sessionID s \<and> length (se_sessionID c) = sessionIDSize \<and>
     se_machineID c = se_machineID s \<and> se_sendAEAD c = se_recvAEAD s \<and> aead_ok (se_sendAEAD c) \<and>
     se_sendNonce c = se_recvNonce s \<and> se_sendDirection c = se_recvDirection s \<and>
     (\<exists>S. window_rel (se_recvWindow s) S \<and> (\<forall>n \<in> S. n \<le> unat (se_sendSeq c)))"

lemmas header_defs = headerSize_def sessionIDSize_def tagSize_def nonceSize_def

lemma envelope_parts:
  fixes n :: "64 word"
  assumes "length sid = sessionIDSize" and "16 \<le> length ct"
  defines "env \<equiv> [EnvelopeVersion] @ sid @ be64 n @ ct"
  shows "envelope_ok env" and "envelope_id env = sid" and "envelope_seq env = n"
    and "drop headerSize env = ct"
  using assms by (simp_all add: envelope_ok_def envelope_id_def envelope_seq_def header_defs)

lemma seal_open:
  assumes p: "paired c s" and nz: "se_sendSeq c + 1 \<noteq> 0"
  shows "\<exists>env c' s'. Seal c m q pt = (Inr env, c') \<and> se_sendSeq c' = se_sendSeq c + 1 \<and>
           Open s m q env = (Inr pt, s') \<and> paired c' s'"
proof -
  let ?n = "se_sendSeq c + 1" and ?c' = "c\<lparr>se_sendSeq := se_sendSeq c + 1\<rparr>"
  let ?nonce = "makeNonce (se_sendNonce c) ?n"
  let ?aad = "associatedData (se_sessionID c) (se_machineID c) m q (se_sendDirection c) ?n"
  let ?ct = "aead_seal (se_sendAEAD c) ?nonce pt ?aad"
  define env where "env = [EnvelopeVersion] @ se_sessionID c @ be64 ?n @ ?ct"
  have eqs: "se_sessionID s = se_sessionID c" "se_machineID s = se_machineID c"
    "se_recvAEAD s = se_sendAEAD c" "se_recvNonce s = se_sendNonce c"
    "se_recvDirection s = se_sendDirection c"
    using p by (auto simp: paired_def)
  obtain S where w: "window_rel (se_recvWindow s) S" and S: "\<forall>n \<in> S. n \<le> unat (se_sendSeq c)"
    using p by (auto simp: paired_def)
  have un: "unat ?n = Suc (unat (se_sendSeq c))"
    using nz by (metis add.commute unatSuc)
  then have "accept_spec S (unat ?n)" using S by (fastforce simp: accept_spec_def)
  then obtain w' where acc: "accept (se_recvWindow s) ?n = (True, w')"
    and w': "window_rel w' (insert (unat ?n) S)"
    using accept_refines [OF w, of ?n] by auto
  have ok: "aead_ok (se_sendAEAD c)" and len: "length (se_sessionID c) = sessionIDSize"
    using p by (auto simp: paired_def)
  then have "16 \<le> length ?ct" by (simp add: aead_ok_def)
  note parts = envelope_parts [OF len this, of ?n, folded env_def]
  have "Open s m q env = (Inr pt, s\<lparr>se_recvWindow := w'\<rparr>)"
    using ok nz acc by (simp add: Open_def parts eqs aead_ok_def Let_def)
  moreover have "Seal c m q pt = (Inr env, ?c')"
    using nz by (simp add: Seal_def Let_def env_def)
  moreover have "paired ?c' (s\<lparr>se_recvWindow := w'\<rparr>)"
    using p w' S un by (fastforce simp: paired_def)
  ultimately show ?thesis by (intro exI [of _ env] exI [of _ ?c'] exI) auto
qed

text \<open>Messages \<open>(method, path, plaintext)\<close> sealed by one side and opened by the other, in order.\<close>

fun transfer :: "Session \<Rightarrow> Session \<Rightarrow> (string \<times> string \<times> string) list \<Rightarrow> (v2_error + string) list" where
  "transfer c s [] = []"
| "transfer c s ((m, q, pt) # msgs) =
     (case Seal c m q pt of
        (Inl e, c') \<Rightarrow> Inl e # transfer c' s msgs
      | (Inr env, c') \<Rightarrow> (case Open s m q env of (r, s') \<Rightarrow> r # transfer c' s' msgs))"

lemma transfer_paired:
  assumes "paired c s" and "unat (se_sendSeq c) + length msgs < 2 ^ 64"
  shows "transfer c s msgs = map (\<lambda>(m, q, pt). Inr pt) msgs"
  using assms
proof (induction msgs arbitrary: c s)
  case Nil
  show ?case by simp
next
  case (Cons msg msgs)
  obtain m q pt where msg: "msg = (m, q, pt)" by (cases msg)
  have "unat (se_sendSeq c + 1) = Suc (unat (se_sendSeq c))"
    using Cons.prems(2) by (simp add: unat_word_ariths)
  moreover from this have "se_sendSeq c + 1 \<noteq> 0" by (metis nat.distinct(1) unat_0)
  ultimately show ?case
    using seal_open [OF Cons.prems(1), of m q pt] Cons by (auto simp: msg)
qed

lemma derived_paired:
  assumes "deriveSession hkdf newAEAD shared salt sid mid False = Inr c"
    and "deriveSession hkdf newAEAD shared salt sid mid True = Inr s"
    and "\<forall>k a. newAEAD k = Some a \<longrightarrow> aead_ok a"
  shows "paired c s" and "paired s c" and "se_sendSeq c = 0" and "se_sendSeq s = 0"
  using assms window_rel_zero
  by (auto simp: deriveSession_def paired_def Let_def split: if_splits option.splits)

text \<open>Opening as a filter on \<open>(method, path, envelope)\<close>: at most once per sequence number.\<close>

definition open_step :: "Session \<Rightarrow> string \<times> string \<times> string \<Rightarrow> bool \<times> Session" where
  "open_step s msg =
     (case msg of (m, q, env) \<Rightarrow> (case Open s m q env of (r, s') \<Rightarrow> (\<not> isl r, s')))"

definition msg_seq :: "string \<times> string \<times> string \<Rightarrow> nat" where
  "msg_seq msg = (case msg of (m, q, env) \<Rightarrow> unat (envelope_seq env))"

lemma not_isl_Inr: "\<not> isl r \<Longrightarrow> (\<And>x. r = Inr x \<Longrightarrow> P) \<Longrightarrow> P"
  by (cases r) auto

lemma Open_Inl_same: "Open s m q env = (Inl e, s') \<Longrightarrow> s' = s"
  by (auto simp: Open_def Let_def split: if_splits prod.splits bool.splits option.splits)

lemma Open_Inr_window:
  "Open s m q env = (Inr pt, s') \<Longrightarrow>
     \<exists>w. accept (se_recvWindow s) (envelope_seq env) = (True, w) \<and> s' = s\<lparr>se_recvWindow := w\<rparr>"
  by (auto simp: Open_def Let_def split: if_splits prod.splits bool.splits option.splits)

interpretation ses: at_most_once open_step msg_seq "\<lambda>s S. window_rel (se_recvWindow s) S"
proof
  fix s S msg s'
  assume w: "window_rel (se_recvWindow s) S" and "open_step s msg = (True, s')"
  then obtain m q env pt where msg: "msg = (m, q, env)" and "Open s m q env = (Inr pt, s')"
    by (cases msg) (auto simp: open_step_def split: prod.splits elim!: not_isl_Inr)
  with Open_Inr_window obtain v
    where "accept (se_recvWindow s) (envelope_seq env) = (True, v)" and "s' = s\<lparr>se_recvWindow := v\<rparr>"
    by blast
  with rw.let_through [OF w] msg
  show "msg_seq msg \<notin> S \<and> window_rel (se_recvWindow s') (insert (msg_seq msg) S)"
    by (simp add: msg_seq_def)
next
  fix s S msg s'
  assume "window_rel (se_recvWindow s) S" and "open_step s msg = (False, s')"
  then show "window_rel (se_recvWindow s') S"
    by (cases msg) (auto simp: open_step_def isl_def dest: Open_Inl_same split: prod.splits)
qed

section \<open>Properties\<close>

text \<open>
  C4. The replay window on two 64-bit words decides every sequence of sequence numbers exactly as
  the abstract filter does that remembers every accepted number: a number passes if it is positive,
  was not accepted before and is fewer than 64 behind the largest accepted one.
\<close>

theorem replay_window_exact:
  "accept_run replayWindow_zero ns = spec_run {} (map unat ns)"
  using window_rel_zero by (rule accept_run_spec)

text \<open>
  C7. However envelopes are repeated, reordered, dropped or forged on the way, a session that has
  received nothing yet delivers at most one plaintext per sequence number, and an envelope it
  refuses leaves the session as it was.
\<close>

theorem session_no_replay:
  assumes "se_recvWindow s = replayWindow_zero"
  shows "distinct (map (\<lambda>(m, q, env). envelope_seq env) (filter_run open_step s msgs)) \<and>
    (Open t m q env = (Inl e, t') \<longrightarrow> t' = t)"
proof -
  have "distinct (map msg_seq (filter_run open_step s msgs))"
    using ses.run_distinct [of s "{}" msgs] assms window_rel_zero by simp
  moreover have "msg_seq = unat \<circ> (\<lambda>(m, q, env). envelope_seq env)"
    by (auto simp: msg_seq_def)
  ultimately have "distinct (map (\<lambda>(m, q, env). envelope_seq env) (filter_run open_step s msgs))"
    by (metis distinct_map list.map_comp)
  then show ?thesis using Open_Inl_same by blast
qed

definition null_aead :: aead where
  "null_aead = \<lparr>aead_seal = (\<lambda>n p d. p @ replicate 16 (CHR 0x00)),
     aead_open = (\<lambda>n c d. Some (take (length c - 16) c))\<rparr>"

lemma null_aead_ok: "aead_ok null_aead"
  by (simp add: aead_ok_def null_aead_def)

definition demo_session :: Session where
  "demo_session = \<lparr>se_machineID = ''m'', se_sessionID = replicate 16 (CHR ''s''),
     se_sendAEAD = null_aead, se_recvAEAD = null_aead,
     se_sendNonce = replicate 12 (CHR 0x00), se_recvNonce = replicate 12 (CHR 0x00),
     se_sendDirection = 0, se_recvDirection = 0,
     se_sendSeq = 0, se_recvWindow = replayWindow_zero\<rparr>"

definition demo_envelope :: string where
  "demo_envelope = projr (fst (Seal demo_session ''GET'' ''/x'' ''hi''))"

theorem session_no_replay_witness:
  "se_recvWindow demo_session = replayWindow_zero \<and>
   distinct (map (\<lambda>(m, q, env). envelope_seq env)
     (filter_run open_step demo_session [(''GET'', ''/x'', demo_envelope), (''GET'', ''/x'', demo_envelope)]))"
proof -
  have z: "se_recvWindow demo_session = replayWindow_zero" by (simp add: demo_session_def)
  with session_no_replay [OF z] show ?thesis by blast
qed

text \<open>
  C25. Both directions of a derived session pair deliver every message, in order and unchanged:
  for an AEAD that opens what it sealed, fewer than \<open>2 ^ 64\<close> messages sealed by the agent are
  opened by the panel to the same plaintexts, and the other way round.
\<close>

theorem session_pair_delivers:
  assumes "deriveSession hkdf newAEAD shared salt sid mid False = Inr c"
    and "deriveSession hkdf newAEAD shared salt sid mid True = Inr s"
    and "\<forall>k a. newAEAD k = Some a \<longrightarrow> aead_ok a"
    and "length msgs < 2 ^ 64"
  shows "transfer c s msgs = map (\<lambda>(m, q, pt). Inr pt) msgs \<and>
    transfer s c msgs = map (\<lambda>(m, q, pt). Inr pt) msgs"
  using transfer_paired [OF derived_paired(1) [OF assms(1-3)]]
    transfer_paired [OF derived_paired(2) [OF assms(1-3)]] derived_paired(3,4) [OF assms(1-3)] assms(4)
  by simp_all

definition demo_hkdf :: "string \<Rightarrow> string \<Rightarrow> string \<Rightarrow> nat \<Rightarrow> string option" where
  "demo_hkdf shared salt info n = Some (replicate n (CHR 0x07))"

definition demo_derive :: "bool \<Rightarrow> v2_error + Session" where
  "demo_derive server = deriveSession demo_hkdf (\<lambda>k. Some null_aead) [] [] (replicate 16 (CHR ''s'')) ''m'' server"

theorem session_pair_delivers_witness:
  "\<exists>c s. demo_derive False = Inr c \<and> demo_derive True = Inr s \<and>
     transfer c s [(''GET'', ''/x'', ''hello'')] = [Inr ''hello'']"
proof -
  obtain c s where d: "demo_derive False = Inr c" "demo_derive True = Inr s"
    by (simp add: demo_derive_def deriveSession_def demo_hkdf_def sessionIDSize_def Let_def)
  have "\<forall>k a. (\<lambda>k. Some null_aead) k = Some a \<longrightarrow> aead_ok a" by (simp add: null_aead_ok)
  from session_pair_delivers [OF d [unfolded demo_derive_def] this, of "[(''GET'', ''/x'', ''hello'')]"] d
  show ?thesis by auto
qed

definition request_small :: "HandshakeRequest \<Rightarrow> bool" where
  "request_small r \<longleftrightarrow> in_i64 (rq_Timestamp r) \<and>
     (\<forall>v \<in> {rq_Version r, rq_Mode r, rq_MachineID r, rq_IdentityPublic r, rq_EphemeralPublic r, rq_Nonce r}.
        length v < 2 ^ 64)"

definition response_small :: "HandshakeResponse \<Rightarrow> bool" where
  "response_small r \<longleftrightarrow> in_i64 (rs_Timestamp r) \<and>
     (\<forall>v \<in> {rs_Version r, rs_SessionID r, rs_IdentityPublic r, rs_EphemeralPublic r, rs_Nonce r}.
        length v < 2 ^ 64)"

lemma append_be64_inj: "xs @ be64 v = ys @ be64 w \<longleftrightarrow> xs = ys \<and> v = w"
  by (simp add: be64_inj)

lemma RequestTranscript_tail:
  assumes "RequestTranscript r @ x = RequestTranscript t @ y" and "request_small r" and "request_small t"
  shows "r\<lparr>rq_Proof := []\<rparr> = t\<lparr>rq_Proof := []\<rparr> \<and> x = y"
proof -
  let ?f = "\<lambda>r. [''ca2'', rq_Version r, rq_Mode r, rq_MachineID r, rq_IdentityPublic r,
    rq_EphemeralPublic r, rq_Nonce r]"
  have "concat (map fld (?f r)) @ (be64 (word_of_int (rq_Timestamp r)) @ x) =
        concat (map fld (?f t)) @ (be64 (word_of_int (rq_Timestamp t)) @ y)"
    using assms(1) unfolding RequestTranscript_def appendUint64_def foldl_appendField by simp
  then have "?f r = ?f t \<and> be64 (word_of_int (rq_Timestamp r)) @ x = be64 (word_of_int (rq_Timestamp t)) @ y"
    using assms(2,3) by (intro flds_inj) (auto simp: request_small_def)
  moreover from this have "word_of_int (rq_Timestamp r) = (word_of_int (rq_Timestamp t) :: 64 word)" and "x = y"
    by (simp_all add: be64_inj)
  moreover from this have "rq_Timestamp r = rq_Timestamp t"
    using assms(2,3) by (intro word_of_i64_inj) (auto simp: request_small_def)
  ultimately show ?thesis by simp
qed

lemma transcript_inj:
  assumes "ResponseTranscript (RequestTranscript r) p = ResponseTranscript (RequestTranscript t) q"
    and "request_small r" and "request_small t" and "response_small p" and "response_small q"
  shows "r\<lparr>rq_Proof := []\<rparr> = t\<lparr>rq_Proof := []\<rparr> \<and> p\<lparr>rs_Signature := []\<rparr> = q\<lparr>rs_Signature := []\<rparr>"
proof -
  let ?f = "\<lambda>p. [rs_Version p, rs_SessionID p, rs_IdentityPublic p, rs_EphemeralPublic p, rs_Nonce p]"
  let ?e = "\<lambda>p. if rs_Enrolled p then [char_of (1::nat)] else [char_of (0::nat)]"
  let ?x = "\<lambda>p. be64 (word_of_int (rs_Timestamp p)) @ ?e p"
  have "RequestTranscript r @ concat (map fld (?f p)) @ ?x p = RequestTranscript t @ concat (map fld (?f q)) @ ?x q"
    using assms(1) unfolding ResponseTranscript_def appendUint64_def foldl_appendField by simp
  from RequestTranscript_tail [OF this assms(2,3)]
  have rt: "r\<lparr>rq_Proof := []\<rparr> = t\<lparr>rq_Proof := []\<rparr>"
    and c: "concat (map fld (?f p)) @ ?x p = concat (map fld (?f q)) @ ?x q"
    by simp_all
  from c have f: "?f p = ?f q \<and> ?x p = ?x q"
    using assms(4,5) by (intro flds_inj) (auto simp: response_small_def)
  then have w: "word_of_int (rs_Timestamp p) = (word_of_int (rs_Timestamp q) :: 64 word)" and e: "?e p = ?e q"
    by (simp_all add: be64_inj)
  from w have "rs_Timestamp p = rs_Timestamp q"
    using assms(4,5) by (intro word_of_i64_inj) (auto simp: response_small_def)
  moreover from e have "rs_Enrolled p = rs_Enrolled q" by (simp split: if_splits)
  ultimately show ?thesis using rt f by simp
qed

text \<open>
  C24. What is signed in a handshake determines what was sent: if two response transcripts are equal,
  the requests they answer agree in every field but the proof, and the responses agree in every
  field but the signature, the enrolment flag included. (Fields shorter than \<open>2 ^ 64\<close> bytes,
  timestamps in the 64-bit range.)
\<close>

theorem transcript_binding:
  assumes "ResponseTranscript (RequestTranscript r) p = ResponseTranscript (RequestTranscript t) q"
    and "request_small r" and "request_small t" and "response_small p" and "response_small q"
  shows "r\<lparr>rq_Proof := []\<rparr> = t\<lparr>rq_Proof := []\<rparr> \<and> p\<lparr>rs_Signature := []\<rparr> = q\<lparr>rs_Signature := []\<rparr>"
  by (rule transcript_inj [OF assms])

definition demo_request :: HandshakeRequest where
  "demo_request = \<lparr>rq_Version = ''2'', rq_Mode = ''dj'', rq_MachineID = ''m'', rq_IdentityPublic = ''k'',
     rq_EphemeralPublic = ''e'', rq_Nonce = ''n'', rq_Timestamp = 17, rq_Proof = ''p''\<rparr>"

definition demo_response :: HandshakeResponse where
  "demo_response = \<lparr>rs_Version = ''2'', rs_SessionID = ''s'', rs_IdentityPublic = ''k'',
     rs_EphemeralPublic = ''e'', rs_Nonce = ''n'', rs_Timestamp = 18, rs_Enrolled = True, rs_Signature = ''x''\<rparr>"

theorem transcript_binding_witness:
  "ResponseTranscript (RequestTranscript demo_request) demo_response \<noteq>
   ResponseTranscript (RequestTranscript demo_request) (demo_response\<lparr>rs_Enrolled := False\<rparr>)"
  using transcript_binding [of demo_request demo_response demo_request "demo_response\<lparr>rs_Enrolled := False\<rparr>"]
  by (auto simp: demo_request_def demo_response_def request_small_def response_small_def in_i64_def)

lemma RequestTranscript_proof [simp]: "RequestTranscript (r\<lparr>rq_Proof := x\<rparr>) = RequestTranscript r"
  by (simp add: RequestTranscript_def)

lemma NewClientHandshake_request:
  assumes "NewClientHandshake cr ephemeral nonce machineID identityPublic identityPrivate enrollmentKey enrolled now = Inr h"
  shows "ch_requestTranscript h = RequestTranscript (ch_Request h)" and "rq_MachineID (ch_Request h) = machineID"
    and "rq_IdentityPublic (ch_Request h) = encode identityPublic" and "rq_Timestamp (ch_Request h) = now"
    and "\<exists>e n. ephemeral = Some e \<and> nonce = Some n \<and> rq_EphemeralPublic (ch_Request h) = encode (x_public cr e) \<and>
      rq_Nonce (ch_Request h) = encode n"
  using assms by (auto simp: NewClientHandshake_def Let_def split: if_splits option.splits) (simp_all add: RequestTranscript_def)

lemma Complete_checks:
  assumes "Complete cr hkdf newAEAD (Some h) response panelKey = Inr s"
  shows "rs_Version response = ''2''" and "ParsePublicKey (rs_IdentityPublic response) = Some panelKey"
    and "\<exists>sig. ed_verify cr panelKey (ResponseTranscript (ch_requestTranscript h) response) sig"
    and "decodeSized (rs_SessionID response) sessionIDSize = Some (se_sessionID s)"
    and "se_machineID s = rq_MachineID (ch_Request h)" and "se_sendSeq s = 0" and "se_recvWindow s = replayWindow_zero"
  using assms by (auto simp: Complete_def deriveSession_def Let_def split: option.splits if_splits)

text \<open>
  C23. A completed handshake is with the pinned panel and about this very request. Suppose the holder of the
  pinned key signs nothing but the transcripts of the requests it answers (\<open>answered\<close>, with its answers)
  and its signatures cannot be forged. Then, if the agent made a request and completed the handshake
  with some response, the panel has answered exactly this request, with the fresh nonce and ephemeral
  key the agent drew, its machine and its identity key, and the response, up to its signature, is the
  panel's answer to it: a response to an earlier or another request is never accepted. The session has
  the identifier of that answer, belongs to the machine that asked, and starts with an empty window.
\<close>

theorem Complete_pins_panel:
  assumes "NewClientHandshake cr ephemeral nonce machineID identityPublic identityPrivate enrollmentKey enrolled now = Inr h"
    and "Complete cr hkdf newAEAD (Some h) response panelKey = Inr s"
    and "\<forall>m sig. ed_verify cr panelKey m sig \<longrightarrow> (\<exists>(q, p) \<in> answered. m = ResponseTranscript (RequestTranscript q) p)"
    and "\<forall>(q, p) \<in> answered. request_small q \<and> response_small p" and "request_small (ch_Request h)" and "response_small response"
  shows "\<exists>q p e n. (q, p) \<in> answered \<and> ephemeral = Some e \<and> nonce = Some n \<and>
    rq_MachineID q = machineID \<and> rq_IdentityPublic q = encode identityPublic \<and> rq_Timestamp q = now \<and>
    rq_EphemeralPublic q = encode (x_public cr e) \<and> rq_Nonce q = encode n \<and>
    response\<lparr>rs_Signature := []\<rparr> = p\<lparr>rs_Signature := []\<rparr> \<and>
    rs_Version response = ''2'' \<and> ParsePublicKey (rs_IdentityPublic response) = Some panelKey \<and>
    decodeSized (rs_SessionID p) sessionIDSize = Some (se_sessionID s) \<and>
    se_machineID s = machineID \<and> se_sendSeq s = 0 \<and> se_recvWindow s = replayWindow_zero"
proof -
  note N = NewClientHandshake_request [OF assms(1)] and C = Complete_checks [OF assms(2)]
  obtain q p where a: "(q, p) \<in> answered"
    and t: "ResponseTranscript (RequestTranscript (ch_Request h)) response = ResponseTranscript (RequestTranscript q) p"
    using C(3) assms(3) N(1) by fastforce
  have "request_small q" "response_small p" using a assms(4) by auto
  from transcript_inj [OF t assms(5) this(1) assms(6) this(2)]
  have r: "(ch_Request h)\<lparr>rq_Proof := []\<rparr> = q\<lparr>rq_Proof := []\<rparr>"
    and p: "response\<lparr>rs_Signature := []\<rparr> = p\<lparr>rs_Signature := []\<rparr>" by simp_all
  have "rq_MachineID q = rq_MachineID (ch_Request h)" "rq_IdentityPublic q = rq_IdentityPublic (ch_Request h)"
    "rq_Timestamp q = rq_Timestamp (ch_Request h)" "rq_EphemeralPublic q = rq_EphemeralPublic (ch_Request h)"
    "rq_Nonce q = rq_Nonce (ch_Request h)"
    using r by (cases q; cases "ch_Request h"; simp)+
  moreover have "rs_SessionID p = rs_SessionID response" using p by (cases p; cases response; simp)
  moreover obtain e n where "ephemeral = Some e" "nonce = Some n" "rq_EphemeralPublic (ch_Request h) = encode (x_public cr e)"
    "rq_Nonce (ch_Request h) = encode n" using N(5) by blast
  ultimately show ?thesis
    using N(2-4) C(1,2,4-) a p by (intro exI [of _ q] exI [of _ p] exI [of _ e] exI [of _ n]) simp
qed

definition demo_crypto :: crypto where
  "demo_crypto = \<lparr>ed_sign = (\<lambda>k m. replicate 64 (CHR ''g'')), ed_verify = (\<lambda>k m g. False),
     hmac_sha256 = (\<lambda>k m. replicate 32 (CHR ''h'')), sha256 = (\<lambda>m. replicate 32 (CHR ''d'')),
     x_public = (\<lambda>k. k), x_agree = (\<lambda>k p. Some (replicate 32 (CHR ''z'')))\<rparr>"

definition demo_handshake :: "crypto \<Rightarrow> v2_error + ClientHandshake" where
  "demo_handshake cr = NewClientHandshake cr (Some (replicate 32 (CHR ''e''))) (Some (replicate 32 (CHR ''n''))) ''m''
     (replicate 32 (CHR ''i'')) (replicate 64 (CHR ''j'')) [] True 17"

definition demo_asked :: HandshakeRequest where
  "demo_asked = \<lparr>rq_Version = ''2'', rq_Mode = ''lj'', rq_MachineID = ''m'', rq_IdentityPublic = encode (replicate 32 (CHR ''i'')),
     rq_EphemeralPublic = encode (replicate 32 (CHR ''e'')), rq_Nonce = encode (replicate 32 (CHR ''n'')), rq_Timestamp = 17,
     rq_Proof = encode (replicate 64 (CHR ''g''))\<rparr>"

definition demo_signed :: HandshakeResponse where
  "demo_signed = \<lparr>rs_Version = ''2'', rs_SessionID = encode (replicate 16 (CHR ''s'')),
     rs_IdentityPublic = encode (replicate 32 (CHR ''p'')),
     rs_EphemeralPublic = encode (replicate 32 (CHR ''e'')), rs_Nonce = encode (replicate 32 (CHR ''n'')),
     rs_Timestamp = 18, rs_Enrolled = True, rs_Signature = encode (replicate 64 (CHR ''g''))\<rparr>"

text \<open>A panel that has answered one request.\<close>

definition demo_panel :: crypto where
  "demo_panel = demo_crypto\<lparr>ed_verify := (\<lambda>k m g. m = ResponseTranscript (RequestTranscript demo_asked) demo_signed)\<rparr>"

theorem Complete_pins_panel_witness:
  "\<exists>h s. demo_handshake demo_panel = Inr h \<and>
     Complete demo_panel demo_hkdf (\<lambda>k. Some null_aead) (Some h) demo_signed (replicate 32 (CHR ''p'')) = Inr s \<and> se_machineID s = ''m''"
proof -
  define h where "h = \<lparr>ch_Request = demo_asked, ch_ephemeralPrivate = Some (replicate 32 (CHR ''e'')),
    ch_requestTranscript = RequestTranscript demo_asked\<rparr>"
  have n: "demo_handshake demo_panel = Inr h"
    by (simp add: demo_handshake_def NewClientHandshake_def demo_panel_def demo_crypto_def h_def demo_asked_def Let_def)
      (simp add: RequestTranscript_def)
  have "\<exists>s. Complete demo_panel demo_hkdf (\<lambda>k. Some null_aead) (Some h) demo_signed (replicate 32 (CHR ''p'')) = Inr s"
    by (simp add: Complete_def h_def demo_signed_def ParsePublicKey_def decodeSized_encode
        sessionIDSize_def demo_panel_def demo_crypto_def deriveSession_def demo_hkdf_def demo_asked_def Let_def)
  then obtain s where s: "Complete demo_panel demo_hkdf (\<lambda>k. Some null_aead) (Some h) demo_signed (replicate 32 (CHR ''p'')) = Inr s"
    by blast
  have "length (encode (replicate 32 c)) < 2 ^ 64" "length (encode (replicate 16 c)) < 2 ^ 64" for c
    using length_encode_le [of "replicate 32 c"] length_encode_le [of "replicate 16 c"] by simp_all
  then have small: "request_small demo_asked" "response_small demo_signed"
    by (simp_all add: request_small_def response_small_def demo_asked_def demo_signed_def in_i64_def)
  have v: "\<forall>m sig. ed_verify demo_panel (replicate 32 (CHR ''p'')) m sig \<longrightarrow>
      (\<exists>(q, p) \<in> {(demo_asked, demo_signed)}. m = ResponseTranscript (RequestTranscript q) p)"
    by (simp add: demo_panel_def)
  show ?thesis
    using Complete_pins_panel [OF n [unfolded demo_handshake_def] s v] small n s by (auto simp: h_def)
qed

end
