(* ===== verification/Outbox.thy ===== *)
theory Outbox
  imports Prelude
begin

text \<open>
  The contract of the agent's retried requests. Telemetry, application results and device snapshots
  are sent with an idempotency key; a request whose response was lost is sent again, and the
  platform recognises it by its key. This is only sound if a key is never used for two different
  contents. The locale states what a sender promises of one step, and shows that then no run ever
  uses a key twice for different contents, provided the generated keys are fresh.
\<close>

inductive ob_run ::
  "('k \<Rightarrow> 's \<Rightarrow> 's \<Rightarrow> bool) \<Rightarrow> ('s \<Rightarrow> ('k \<times> 'v) set) \<Rightarrow> 's \<Rightarrow> 's \<Rightarrow> 'k set \<Rightarrow> bool"
  for step and reqs and s0 where
  ob_start: "ob_run step reqs s0 s0 (fst ` reqs s0)"
| ob_next: "ob_run step reqs s0 s K \<Longrightarrow> k \<notin> K \<Longrightarrow> step k s s' \<Longrightarrow> ob_run step reqs s0 s' (insert k K)"

text \<open>\<open>reqs s\<close> holds the requests a state may still send and the ones it has sent.\<close>

locale outbox =
  fixes step :: "'k \<Rightarrow> 's \<Rightarrow> 's \<Rightarrow> bool"
    and reqs :: "'s \<Rightarrow> ('k \<times> 'v) set"
  assumes one_fresh: "step k s s' \<Longrightarrow> \<exists>v. reqs s' \<subseteq> insert (k, v) (reqs s)"
begin

lemma run_invariant:
  assumes "ob_run step reqs s0 s K" and "single_valued (reqs s0)"
  shows "single_valued (reqs s) \<and> fst ` reqs s \<subseteq> K"
  using assms(1)
proof induction
  case ob_start
  show ?case using assms(2) by simp
next
  case (ob_next s K k s')
  obtain v where sub: "reqs s' \<subseteq> insert (k, v) (reqs s)" using one_fresh [OF ob_next.hyps(3)] by blast
  have new: "(k, w) \<notin> reqs s" for w using ob_next.IH ob_next.hyps(2) by force
  have "single_valued (insert (k, v) (reqs s))"
    using ob_next.IH new by (auto simp: single_valued_def)
  moreover have "fst ` reqs s' \<subseteq> insert k K" using sub ob_next.IH by force
  ultimately show ?case using single_valued_subset [OF sub] by blast
qed

lemma key_determines_content:
  assumes "ob_run step reqs s0 s K" and "reqs s0 = {}" and "(k, v) \<in> reqs s" and "(k, w) \<in> reqs s"
  shows "v = w"
  using run_invariant [OF assms(1)] assms(2-) by (auto simp: single_valued_def)

end

end
