(* ===== verification/Model.thy ===== *)
theory Model
  imports GoStrings
begin

text \<open>
  The internal node model of \<^verbatim>\<open>internal/model\<close> (\<^verbatim>\<open>types.go\<close>, \<^verbatim>\<open>custom_route.go\<close>) and the two
  configuration structs it carries (\<^verbatim>\<open>internal/config/config.go\<close>).

  A Go slice or map that can be nil is an \<open>option\<close>: \<open>None\<close> is nil, \<open>Some []\<close> is empty and not nil;
  the difference is visible in the code (nil guards) and in the JSON form that is hashed
  (\<^verbatim>\<open>null\<close> against \<^verbatim>\<open>[]\<close>). A pointer to a struct is an \<open>option\<close> as well. A value of type \<^verbatim>\<open>any\<close>
  is one of the shapes the JSON and YAML decoders produce; a \<^verbatim>\<open>float64\<close> is \<open>m * 2 ^ e\<close>.
\<close>

type_synonym 'a slice = "'a list option"

definition elems :: "'a slice \<Rightarrow> 'a list" where
  "elems s = (case s of None \<Rightarrow> [] | Some xs \<Rightarrow> xs)"

lemma elems_simps [simp]: "elems None = []" "elems (Some xs) = xs"
  by (simp_all add: elems_def)

datatype any =
    AnyNil
  | AnyBool bool
  | AnyInt int
  | AnyFloat int int
  | AnyString string
  | AnyList "any list"
  | AnyMap "(string \<times> any) list"

type_synonym any_map = "(string, any) gomap option"

record RouteRule =
  rr_ID :: int
  rr_Match :: "string slice"
  rr_Action :: string
  rr_ActionValue :: string

record OutboundConfig =
  ob_Tag :: string
  ob_Protocol :: string
  ob_Settings :: any_map
  ob_ProxyTag :: string

record RouteMatch =
  m_Domains :: "string slice"
  m_DomainSuffixes :: "string slice"
  m_GeoIPs :: "string slice"
  m_IPCIDRs :: "string slice"
  m_Ports :: "string slice"
  m_Networks :: "string slice"
  m_SourceCIDRs :: "string slice"
  m_SourcePorts :: "string slice"

record RouteAction =
  a_Type :: string
  a_Target :: string

record CustomRouteRule =
  cr_Name :: string
  cr_Disabled :: bool
  cr_Match :: RouteMatch
  cr_Action :: RouteAction

record RouteProfile =
  rp_CustomRouteRules :: "CustomRouteRule slice"
  rp_DefaultOutboundTag :: string
  rp_CustomOutbounds :: "OutboundConfig slice"

record BrutalConfig =
  br_Enabled :: bool
  br_UpMbps :: int
  br_DownMbps :: int

record MultiplexConfig =
  mx_Enabled :: bool
  mx_Protocol :: string
  mx_MaxConnections :: int
  mx_MinStreams :: int
  mx_MaxStreams :: int
  mx_Padding :: bool
  mx_Brutal :: "BrutalConfig option"

record UserSpec =
  ID :: int
  UUID :: string
  SpeedLimit :: int
  DeviceLimit :: int
  RouteScope :: string

record CertConfig =
  cc_AutoTLS :: bool
  cc_Domain :: string
  cc_Email :: string
  cc_CertFile :: string
  cc_KeyFile :: string
  cc_CertDir :: string
  cc_HTTPPort :: int
  cc_CertMode :: string
  cc_DNSProvider :: string
  cc_DNSEnv :: "(string, string) gomap option"
  cc_CertContent :: string
  cc_KeyContent :: string

record KernelConfig =
  kc_Type :: string
  kc_ConfigDir :: string
  kc_LogLevel :: string
  kc_GeoDataDir :: string
  kc_CustomOutbound :: "any_map list"
  kc_CustomRoute :: "any_map list"
  kc_CustomConfig :: string

record NodeSpec =
  n_Protocol :: string
  n_ListenIP :: string
  n_ServerPort :: int
  n_Network :: string
  n_NetworkSettings :: any_map
  n_Routes :: "RouteRule slice"
  n_KernelType :: string
  n_KernelLogLevel :: string
  n_CustomOutbounds :: "OutboundConfig slice"
  n_CustomRoutes :: "any_map slice"
  n_CustomRouteRules :: "CustomRouteRule slice"
  n_RouteProfiles :: "(string, RouteProfile) gomap option"
  n_DefaultOutboundTag :: string
  n_CertConfig :: "CertConfig option"
  n_AutoTLS :: bool
  n_Domain :: string
  n_Cipher :: string
  n_Plugin :: string
  n_PluginOpt :: string
  n_ServerKey :: string
  n_TLS :: int
  n_Flow :: string
  n_Decryption :: string
  n_TLSSettings :: any_map
  n_Host :: string
  n_ServerName :: string
  n_Version :: int
  n_UpMbps :: int
  n_DownMbps :: int
  n_Obfs :: string
  n_ObfsPassword :: string
  n_CongestionControl :: string
  n_PaddingScheme :: string
  n_Transport :: string
  n_TrafficPattern :: string
  n_Multiplex :: "MultiplexConfig option"
  n_AcceptProxyProtocol :: bool

text \<open>\<^verbatim>\<open>(*NodeSpec).GetProxyProtocol\<close>, on a possibly nil receiver.\<close>

definition GetProxyProtocol :: "NodeSpec option \<Rightarrow> bool" where
  "GetProxyProtocol spec =
     (case spec of
        None \<Rightarrow> False
      | Some n \<Rightarrow>
          if n_AcceptProxyProtocol n then True
          else case n_NetworkSettings n of
                 None \<Rightarrow> False
               | Some m \<Rightarrow> (case map_of m ''acceptProxyProtocol'' of Some (AnyBool b) \<Rightarrow> b | _ \<Rightarrow> False))"

text \<open>The clone helpers turn an empty slice or map into nil.\<close>

definition cloneAnyMap :: "any_map \<Rightarrow> any_map" where
  "cloneAnyMap src = (if elems src = [] then None else Some (elems src))"

definition cloneMapSlice :: "any_map slice \<Rightarrow> any_map slice" where
  "cloneMapSlice src = (if elems src = [] then None else Some (map cloneAnyMap (elems src)))"

definition cloneStringSlice :: "string slice \<Rightarrow> string slice" where
  "cloneStringSlice src = (if elems src = [] then None else Some (elems src))"

definition cloneRouteMatch :: "RouteMatch \<Rightarrow> RouteMatch" where
  "cloneRouteMatch src =
     \<lparr>m_Domains = cloneStringSlice (m_Domains src),
      m_DomainSuffixes = cloneStringSlice (m_DomainSuffixes src),
      m_GeoIPs = cloneStringSlice (m_GeoIPs src),
      m_IPCIDRs = cloneStringSlice (m_IPCIDRs src),
      m_Ports = cloneStringSlice (m_Ports src),
      m_Networks = cloneStringSlice (m_Networks src),
      m_SourceCIDRs = cloneStringSlice (m_SourceCIDRs src),
      m_SourcePorts = cloneStringSlice (m_SourcePorts src)\<rparr>"

definition cloneRouteAction :: "RouteAction \<Rightarrow> RouteAction" where
  "cloneRouteAction src = \<lparr>a_Type = a_Type src, a_Target = a_Target src\<rparr>"

definition cloneCustomRouteRules :: "CustomRouteRule slice \<Rightarrow> CustomRouteRule slice" where
  "cloneCustomRouteRules src =
     (if elems src = [] then None
      else Some (map (\<lambda>rule. \<lparr>cr_Name = cr_Name rule, cr_Disabled = cr_Disabled rule,
                   cr_Match = cloneRouteMatch (cr_Match rule),
                   cr_Action = cloneRouteAction (cr_Action rule)\<rparr>) (elems src)))"

named_theorems clone_simps \<open>what the clone helpers keep\<close>

lemma elems_clone [clone_simps]:
  "elems (cloneAnyMap a) = elems a"
  "elems (cloneStringSlice s) = elems s"
  by (simp_all add: cloneAnyMap_def cloneStringSlice_def)

lemma clone_idem [clone_simps]:
  "cloneAnyMap (cloneAnyMap a) = cloneAnyMap a"
  "cloneStringSlice (cloneStringSlice s) = cloneStringSlice s"
  "cloneMapSlice (cloneMapSlice ms) = cloneMapSlice ms"
  by (auto simp: cloneAnyMap_def cloneStringSlice_def cloneMapSlice_def)

lemma cloneRouteMatch_idem [clone_simps]: "cloneRouteMatch (cloneRouteMatch x) = cloneRouteMatch x"
  by (simp add: cloneRouteMatch_def clone_simps)

end
