(* ===== verification/Mailbox.thy ===== *)
theory Mailbox
  imports Model
begin

text \<open>
  The per-node mailbox of machine mode (\<^verbatim>\<open>internal/controlplane/mailbox.go\<close>, and the event and payload
  types of \<^verbatim>\<open>internal/controlplane/types.go\<close>). Pushed events are coalesced under the mailbox mutex;
  the service is woken through a channel of capacity one, modelled by the flag \<open>nm_notifyCh\<close>: a
  token is waiting or not.

  \<open>Apply\<close> and \<open>MarkReady\<close> release the mutex before they notify, so each is a locked part followed by
  \<open>notify\<close>; the step relation \<open>mb_step\<close> interleaves these parts with the service that takes the token
  and drains.
\<close>

section \<open>Types\<close>

datatype EventType = EventSyncConfig | EventSyncUsers | EventSyncUserDelta | EventSyncDevices | OtherEvent string

type_synonym device_users = "(int, string slice) gomap option"

record Event =
  ev_Type :: EventType
  ev_Config :: "NodeSpec option"
  ev_Users :: "UserSpec slice"
  ev_DeltaAction :: string
  ev_DeltaUsers :: "UserSpec slice"
  ev_DeviceUsers :: device_users

record MailboxState =
  ms_Config :: "NodeSpec option"
  ms_Users :: "UserSpec slice"
  ms_DeviceUsers :: device_users
  ms_HasConfig :: bool
  ms_HasUsers :: bool
  ms_HasDevices :: bool
  ms_NeedsReconcile :: bool

record NodeMailbox =
  nm_ready :: bool
  nm_config :: "NodeSpec option"
  nm_users :: "UserSpec slice"
  nm_deviceUsers :: device_users
  nm_dirtyConfig :: bool
  nm_dirtyUsers :: bool
  nm_dirtyDevices :: bool
  nm_needsReconcile :: bool
  nm_hasFullUserState :: bool
  nm_notifyCh :: bool

definition MailboxState_zero :: MailboxState where
  "MailboxState_zero = \<lparr>ms_Config = None, ms_Users = None, ms_DeviceUsers = None, ms_HasConfig = False,
     ms_HasUsers = False, ms_HasDevices = False, ms_NeedsReconcile = False\<rparr>"

definition NewNodeMailbox :: NodeMailbox where
  "NewNodeMailbox = \<lparr>nm_ready = False, nm_config = None, nm_users = None, nm_deviceUsers = None,
     nm_dirtyConfig = False, nm_dirtyUsers = False, nm_dirtyDevices = False, nm_needsReconcile = False,
     nm_hasFullUserState = False, nm_notifyCh = False\<rparr>"

section \<open>Cloning\<close>

text \<open>\<^verbatim>\<open>append([]T(nil), xs...)\<close>: nil when there is nothing to append.\<close>

definition append_nil :: "'a slice \<Rightarrow> 'a slice" where
  "append_nil xs = (if elems xs = [] then None else Some (elems xs))"

definition clone_cert :: "CertConfig \<Rightarrow> CertConfig" where
  "clone_cert c = c\<lparr>cc_DNSEnv := map_option (\<lambda>m. mbuild fst snd m) (cc_DNSEnv c)\<rparr>"

definition clone_mux :: "MultiplexConfig \<Rightarrow> MultiplexConfig" where
  "clone_mux m = m\<lparr>mx_Brutal := map_option (\<lambda>b. b) (mx_Brutal m)\<rparr>"

definition cloneNodeSpec :: "NodeSpec option \<Rightarrow> NodeSpec option" where
  "cloneNodeSpec spec =
     (case spec of
        None \<Rightarrow> None
      | Some s \<Rightarrow> Some (s\<lparr>
          n_NetworkSettings := map_option (\<lambda>m. mbuild fst snd m) (n_NetworkSettings s),
          n_TLSSettings := map_option (\<lambda>m. mbuild fst snd m) (n_TLSSettings s),
          n_Routes := append_nil (n_Routes s),
          n_CustomOutbounds := append_nil (n_CustomOutbounds s),
          n_CustomRoutes := map_option (map (map_option (\<lambda>m. mbuild fst snd m))) (n_CustomRoutes s),
          n_CustomRouteRules := append_nil (n_CustomRouteRules s),
          n_CertConfig := map_option clone_cert (n_CertConfig s),
          n_Multiplex := map_option clone_mux (n_Multiplex s)\<rparr>))"

definition cloneUsers :: "UserSpec slice \<Rightarrow> UserSpec slice" where
  "cloneUsers users = map_option (\<lambda>xs. xs) users"

definition cloneDeviceUsers :: "device_users \<Rightarrow> device_users" where
  "cloneDeviceUsers devices = map_option (mbuild fst (\<lambda>(uid, ips). Some (elems ips))) devices"

section \<open>User deltas\<close>

fun add_user :: "UserSpec \<Rightarrow> (int, nat) gomap \<times> UserSpec list \<Rightarrow> (int, nat) gomap \<times> UserSpec list" where
  "add_user user (index, current) =
     (case map_of index (ID user) of
        Some idx \<Rightarrow> (index, current[idx := user])
      | None \<Rightarrow> (mput (ID user) (length current) index, current @ [user]))"

definition user_index :: "UserSpec list \<Rightarrow> (int, nat) gomap" where
  "user_index current = mbuild (\<lambda>(i, user). ID user) fst (enumerate 0 current)"

definition applyUserDelta :: "UserSpec slice \<Rightarrow> string \<Rightarrow> UserSpec list \<Rightarrow> bool \<times> UserSpec slice" where
  "applyUserDelta users action dlt =
     (let current = cloneUsers users; index = user_index (elems current) in
      if action = ''add'' then
        (case snd (fold add_user dlt (index, elems current)) of
           [] \<Rightarrow> (True, current)
         | us \<Rightarrow> (True, Some us))
      else if action = ''remove'' then
        (True, append_nil (Some (filter (\<lambda>u. ID u \<notin> ID ` set dlt) (elems current))))
      else (False, users))"

section \<open>Operations\<close>

definition notify :: "NodeMailbox \<Rightarrow> NodeMailbox" where
  "notify m = m\<lparr>nm_notifyCh := True\<rparr>"

definition MarkReady_locked :: "NodeMailbox \<Rightarrow> NodeMailbox" where
  "MarkReady_locked m = m\<lparr>nm_ready := True\<rparr>"

definition MarkReady :: "NodeMailbox \<Rightarrow> NodeMailbox" where
  "MarkReady m = notify (MarkReady_locked m)"

definition SeedBaseline :: "NodeMailbox \<Rightarrow> UserSpec slice \<Rightarrow> NodeSpec option \<Rightarrow> NodeMailbox" where
  "SeedBaseline m users config =
     (let m1 = (if users \<noteq> None \<and> \<not> nm_hasFullUserState m
                then m\<lparr>nm_users := cloneUsers users, nm_hasFullUserState := True\<rparr> else m) in
      if config \<noteq> None \<and> nm_config m1 = None then m1\<lparr>nm_config := cloneNodeSpec config\<rparr> else m1)"

definition Apply_locked :: "NodeMailbox \<Rightarrow> Event \<Rightarrow> bool \<times> NodeMailbox" where
  "Apply_locked m event =
     (case ev_Type event of
        EventSyncConfig \<Rightarrow>
          if ev_Config event \<noteq> None
          then (True, m\<lparr>nm_config := cloneNodeSpec (ev_Config event), nm_dirtyConfig := True\<rparr>)
          else (False, m)
      | EventSyncUsers \<Rightarrow>
          if ev_Users event \<noteq> None
          then (True, m\<lparr>nm_users := cloneUsers (ev_Users event), nm_dirtyUsers := True, nm_hasFullUserState := True\<rparr>)
          else (False, m)
      | EventSyncDevices \<Rightarrow>
          if ev_DeviceUsers event \<noteq> None
          then (True, m\<lparr>nm_deviceUsers := cloneDeviceUsers (ev_DeviceUsers event), nm_dirtyDevices := True\<rparr>)
          else (False, m)
      | EventSyncUserDelta \<Rightarrow>
          if elems (ev_DeltaUsers event) \<noteq> [] then
            if \<not> nm_hasFullUserState m then (True, m\<lparr>nm_needsReconcile := True\<rparr>)
            else case applyUserDelta (nm_users m) (ev_DeltaAction event) (elems (ev_DeltaUsers event)) of
                   (False, _) \<Rightarrow> (True, m\<lparr>nm_needsReconcile := True\<rparr>)
                 | (True, us) \<Rightarrow> (True, m\<lparr>nm_users := us, nm_dirtyUsers := True\<rparr>)
          else (False, m)
      | OtherEvent _ \<Rightarrow> (False, m))"

definition Apply :: "NodeMailbox \<Rightarrow> Event \<Rightarrow> NodeMailbox" where
  "Apply m event = (case Apply_locked m event of (changed, m') \<Rightarrow> if changed then notify m' else m')"

definition DrainIfReady :: "NodeMailbox \<Rightarrow> MailboxState \<times> NodeMailbox" where
  "DrainIfReady m =
     (if \<not> nm_ready m then (MailboxState_zero, m)
      else
        (let state = MailboxState_zero\<lparr>ms_NeedsReconcile := nm_needsReconcile m\<rparr>;
             (state, m) =
               (if nm_dirtyConfig m \<and> nm_config m \<noteq> None
                then (state\<lparr>ms_Config := cloneNodeSpec (nm_config m), ms_HasConfig := True\<rparr>, m\<lparr>nm_dirtyConfig := False\<rparr>)
                else (state, m));
             (state, m) =
               (if nm_dirtyUsers m
                then (state\<lparr>ms_Users := cloneUsers (nm_users m), ms_HasUsers := True\<rparr>, m\<lparr>nm_dirtyUsers := False\<rparr>)
                else (state, m));
             (state, m) =
               (if nm_dirtyDevices m \<and> nm_deviceUsers m \<noteq> None
                then (state\<lparr>ms_DeviceUsers := cloneDeviceUsers (nm_deviceUsers m), ms_HasDevices := True\<rparr>, m\<lparr>nm_dirtyDevices := False\<rparr>)
                else (state, m))
         in (state, m\<lparr>nm_needsReconcile := False\<rparr>)))"

section \<open>Cloning keeps the values\<close>

text \<open>The specs that reach the mailbox hold proper maps.\<close>

fun opt_wf :: "('k, 'v) gomap option \<Rightarrow> bool" where
  "opt_wf None \<longleftrightarrow> True"
| "opt_wf (Some m) \<longleftrightarrow> wf_map m"

definition spec_wf :: "NodeSpec \<Rightarrow> bool" where
  "spec_wf s \<longleftrightarrow> opt_wf (n_NetworkSettings s) \<and> opt_wf (n_TLSSettings s) \<and>
     (\<forall>m \<in> set (elems (n_CustomRoutes s)). opt_wf m) \<and>
     (case n_CertConfig s of None \<Rightarrow> True | Some c \<Rightarrow> opt_wf (cc_DNSEnv c))"

lemma mbuild_copy: "wf_map m \<Longrightarrow> mbuild fst snd m = m"
  by (simp add: wf_map_def mbuild_distinct)

lemma opt_wf_copy: "opt_wf m \<Longrightarrow> map_option (mbuild fst snd) m = m"
  by (cases m) (simp_all add: mbuild_copy)

lemma cloneUsers_id [simp]: "cloneUsers us = us"
  by (simp add: cloneUsers_def option.map_ident)

lemma clone_mux_id: "clone_mux m = m"
  by (simp add: clone_mux_def option.map_ident)

lemma map_option_clone_mux [simp]: "map_option clone_mux m = m"
  by (cases m) (simp_all add: clone_mux_id)

lemma opt_wf_mbuild [simp]: "opt_wf (map_option (mbuild f g) m)"
  by (cases m) simp_all

lemma append_nil_idem [simp]: "append_nil (append_nil xs) = append_nil xs"
  by (simp add: append_nil_def)

lemma append_nil_eq_iff: "append_nil xs = xs \<longleftrightarrow> xs \<noteq> Some []"
  by (cases xs) (auto simp: append_nil_def)

lemma mbuild_copy_idem [simp]:
  "mbuild fst snd (mbuild f g m) = mbuild f g m"
  by (rule mbuild_copy) simp

lemma map_option_mbuild_idem [simp]:
  "map_option (mbuild fst snd) (map_option (mbuild f g) m) = map_option (mbuild f g) m"
  by (cases m) simp_all

lemma clone_cert_idem [simp]: "clone_cert (clone_cert c) = clone_cert c"
  by (simp add: clone_cert_def)

lemma cloneNodeSpec_idem [simp]: "cloneNodeSpec (cloneNodeSpec s) = cloneNodeSpec s"
  by (cases s) (simp_all add: cloneNodeSpec_def option.map_comp comp_def)

lemma cloneNodeSpec_None [simp]: "cloneNodeSpec s = None \<longleftrightarrow> s = None"
  by (simp add: cloneNodeSpec_def split: option.split)

lemma cloneDeviceUsers_None [simp]: "cloneDeviceUsers d = None \<longleftrightarrow> d = None"
  by (simp add: cloneDeviceUsers_def)

lemma cloneDeviceUsers_idem [simp]: "cloneDeviceUsers (cloneDeviceUsers d) = cloneDeviceUsers d"
proof (cases d)
  case (Some m)
  let ?g = "\<lambda>(uid, ips). Some (elems ips)"
  have vals: "\<forall>e \<in> set (mbuild fst ?g m). ?g e = snd e"
  proof
    fix e assume "e \<in> set (mbuild fst ?g m)"
    then have "map_of (mbuild fst ?g m) (fst e) = Some (snd e)"
      using wf_mbuild [of fst ?g m] by (simp add: wf_map_def)
    then show "?g e = snd e"
      unfolding map_of_mbuild by (auto dest!: map_of_SomeD split: prod.splits)
  qed
  have "distinct (map fst (mbuild fst ?g m))" using wf_mbuild [of fst ?g m] by (simp add: wf_map_def)
  then have "mbuild fst ?g (mbuild fst ?g m) = map (\<lambda>e. (fst e, ?g e)) (mbuild fst ?g m)"
    by (rule mbuild_distinct)
  also have "\<dots> = mbuild fst ?g m"
    by (rule map_idI) (metis vals prod.collapse)
  finally show ?thesis by (simp add: cloneDeviceUsers_def Some)
qed (simp add: cloneDeviceUsers_def)

section \<open>What a delta does\<close>

definition user_map :: "UserSpec list \<Rightarrow> int \<Rightarrow> UserSpec option" where
  "user_map us = map_of (map (\<lambda>u. (ID u, u)) us)"

definition idx_ok :: "(int, nat) gomap \<Rightarrow> UserSpec list \<Rightarrow> bool" where
  "idx_ok index cur \<longleftrightarrow> distinct (map ID cur) \<and>
     (\<forall>k i. map_of index k = Some i \<longleftrightarrow> i < length cur \<and> ID (cur ! i) = k)"

lemma user_map_iff: "distinct (map ID us) \<Longrightarrow> user_map us k = Some u \<longleftrightarrow> u \<in> set us \<and> ID u = k"
  unfolding user_map_def by (subst map_of_eq_Some_iff) (auto simp: comp_def)

lemma user_map_None: "user_map us k = None \<longleftrightarrow> k \<notin> ID ` set us"
  by (simp add: user_map_def map_of_eq_None_iff image_image)

lemma user_map_snoc: "ID u \<notin> ID ` set us \<Longrightarrow> user_map (us @ [u]) = (user_map us)(ID u \<mapsto> u)"
  using user_map_None [of us "ID u"]
  by (intro ext) (auto simp: user_map_def map_add_def split: option.split)

lemma distinct_ID_nth: "distinct (map ID cur) \<Longrightarrow> i < length cur \<Longrightarrow> j < length cur \<Longrightarrow>
  ID (cur ! i) = ID (cur ! j) \<Longrightarrow> i = j"
  by (metis length_map nth_eq_iff_index_eq nth_map)

lemma map_ID_update: "i < length cur \<Longrightarrow> ID (cur ! i) = ID u \<Longrightarrow> map ID (cur[i := u]) = map ID cur"
  by (metis list_update_id map_update nth_map)

lemma user_map_update:
  assumes "distinct (map ID cur)" and "i < length cur" and "ID (cur ! i) = ID u"
  shows "user_map (cur[i := u]) = (user_map cur)(ID u \<mapsto> u)"
proof
  fix k
  have d: "distinct (map ID (cur[i := u]))" by (simp only: map_ID_update assms)
  show "user_map (cur[i := u]) k = ((user_map cur)(ID u \<mapsto> u)) k"
  proof (cases "k = ID u")
    case True
    then show ?thesis using assms(2) d by (simp add: user_map_iff set_update_memI)
  next
    case False
    have "v \<in> set (cur[i := u]) \<longleftrightarrow> v \<in> set cur" if "ID v = k" for v
    proof
      show "v \<in> set cur" if "v \<in> set (cur[i := u])"
        using that set_update_subset_insert [of cur i u] \<open>ID v = k\<close> False by auto
      show "v \<in> set (cur[i := u])" if v: "v \<in> set cur"
      proof -
        obtain j where j: "j < length cur" "cur ! j = v" using v by (auto simp: in_set_conv_nth)
        then have "j \<noteq> i" using assms(3) \<open>ID v = k\<close> False by auto
        then show ?thesis using j by (metis length_list_update nth_list_update_neq nth_mem)
      qed
    qed
    then have "user_map (cur[i := u]) k = Some v \<longleftrightarrow> user_map cur k = Some v" for v
      using d assms(1) by (auto simp: user_map_iff)
    then show ?thesis using False by (metis fun_upd_other option.exhaust)
  qed
qed

lemma user_index_snoc: "user_index (us @ [u]) = mput (ID u) (length us) (user_index us)"
  by (simp add: user_index_def enumerate_append_eq mbuild_snoc)

lemma idx_ok_snoc:
  assumes "idx_ok index cur" and "ID u \<notin> ID ` set cur"
  shows "idx_ok (mput (ID u) (length cur) index) (cur @ [u])"
  using assms unfolding idx_ok_def
  by (auto simp: map_of_mput nth_append less_Suc_eq split: if_splits) (metis image_eqI nth_mem)+

lemma idx_ok_index: "distinct (map ID us) \<Longrightarrow> idx_ok (user_index us) us"
proof (induction us rule: rev_induct)
  case Nil
  show ?case by (simp add: idx_ok_def user_index_def mbuild_def)
next
  case (snoc u us)
  then show ?case by (simp add: user_index_snoc idx_ok_snoc)
qed

lemma add_user_step:
  assumes "idx_ok index cur" and "add_user u (index, cur) = (index', cur')"
  shows "idx_ok index' cur'" and "user_map cur' = (user_map cur)(ID u \<mapsto> u)"
    and "map ID cur' = (if ID u \<in> ID ` set cur then map ID cur else map ID cur @ [ID u])"
proof -
  have d: "distinct (map ID cur)"
    and ix: "\<And>k i. map_of index k = Some i \<longleftrightarrow> i < length cur \<and> ID (cur ! i) = k"
    using assms(1) by (auto simp: idx_ok_def)
  have "idx_ok index' cur' \<and> user_map cur' = (user_map cur)(ID u \<mapsto> u) \<and>
      map ID cur' = (if ID u \<in> ID ` set cur then map ID cur else map ID cur @ [ID u])"
  proof (cases "map_of index (ID u)")
    case (Some i)
    then have i: "i < length cur" "ID (cur ! i) = ID u" using ix by auto
    have r: "index' = index" "cur' = cur[i := u]" using assms(2) Some by auto
    have m: "map ID (cur[i := u]) = map ID cur" by (rule map_ID_update [OF i])
    have "ID (cur[i := u] ! j) = ID (cur ! j)" if "j < length cur" for j
      using m that by (metis length_list_update nth_map)
    then have "idx_ok index' cur'" using d ix m by (auto simp: idx_ok_def r)
    moreover have "ID u \<in> ID ` set cur" using i by (metis image_eqI nth_mem)
    ultimately show ?thesis using user_map_update [OF d i] m by (simp add: r)
  next
    case None
    then have n: "ID u \<notin> ID ` set cur" using ix by (auto simp: in_set_conv_nth) (metis option.distinct(1))
    have r: "index' = mput (ID u) (length cur) index" "cur' = cur @ [u]" using assms(2) None by auto
    show ?thesis using idx_ok_snoc [OF assms(1) n] user_map_snoc [OF n] n by (simp add: r)
  qed
  then show "idx_ok index' cur'" and "user_map cur' = (user_map cur)(ID u \<mapsto> u)"
    and "map ID cur' = (if ID u \<in> ID ` set cur then map ID cur else map ID cur @ [ID u])" by auto
qed

lemma fold_add_user:
  assumes "idx_ok index cur" and "fold add_user dlt (index, cur) = (index', cur')"
  shows "distinct (map ID cur') \<and> user_map cur' = fold (\<lambda>u m. m(ID u \<mapsto> u)) dlt (user_map cur) \<and>
    prefix (map ID cur) (map ID cur')"
  using assms
proof (induction dlt arbitrary: index cur)
  case Nil
  then show ?case by (auto simp: idx_ok_def)
next
  case (Cons u dlt)
  obtain index1 cur1 where s: "add_user u (index, cur) = (index1, cur1)" by fastforce
  note S = add_user_step [OF Cons.prems(1) s]
  have "fold add_user dlt (index1, cur1) = (index', cur')" using Cons.prems(2) s by simp
  from Cons.IH [OF S(1) this] show ?case
    using S(2,3) by (auto split: if_splits dest: append_prefixD)
qed

section \<open>The users a list stands for\<close>

text \<open>
  What a list of users means to the limiter and the kernels, which key it by ID: the last entry of
  every ID. A delta changes this map as it says, also for a list that repeats an ID.
\<close>

fun last_map :: "UserSpec list \<Rightarrow> int \<Rightarrow> UserSpec option" where
  "last_map [] = Map.empty"
| "last_map (u # us) = [ID u \<mapsto> u] ++ last_map us"

lemma last_map_append: "last_map (us @ vs) = last_map us ++ last_map vs"
  by (induction us) simp_all

lemma last_map_single: "last_map [u] = [ID u \<mapsto> u]"
  by simp

lemma last_map_None: "last_map us k = None \<longleftrightarrow> k \<notin> ID ` set us"
proof (induction us rule: rev_induct)
  case (snoc u us)
  then show ?case by (auto simp: last_map_append map_add_def split: option.splits if_splits)
qed simp

lemma last_map_filter:
  "last_map (filter (\<lambda>u. ID u \<notin> A) us) = (\<lambda>k. if k \<in> A then None else last_map us k)"
proof (induction us rule: rev_induct)
  case (snoc u us)
  then show ?case by (auto simp: last_map_append last_map_single map_add_def fun_eq_iff split: option.splits)
qed (simp add: fun_eq_iff)

text \<open>The index of \<open>applyUserDelta\<close> gives the last position of every ID.\<close>

definition idx_last :: "(int, nat) gomap \<Rightarrow> UserSpec list \<Rightarrow> bool" where
  "idx_last index cur \<longleftrightarrow> (\<forall>k. case map_of index k of
       None \<Rightarrow> k \<notin> ID ` set cur
     | Some i \<Rightarrow> i < length cur \<and> ID (cur ! i) = k \<and> k \<notin> ID ` set (drop (Suc i) cur))"

lemma idx_last_snoc:
  assumes "idx_last index cur"
  shows "idx_last (mput (ID u) (length cur) index) (cur @ [u])"
proof -
  have "case map_of (mput (ID u) (length cur) index) k of None \<Rightarrow> k \<notin> ID ` set (cur @ [u])
     | Some i \<Rightarrow> i < length (cur @ [u]) \<and> ID ((cur @ [u]) ! i) = k \<and> k \<notin> ID ` set (drop (Suc i) (cur @ [u]))" for k
    using assms unfolding idx_last_def by (cases "k = ID u"; cases "map_of index k") (force simp: map_of_mput nth_append dest: spec [of _ k])+
  then show ?thesis by (simp add: idx_last_def)
qed

lemma idx_last_index: "idx_last (user_index us) us"
proof (induction us rule: rev_induct)
  case Nil
  show ?case by (simp add: idx_last_def user_index_def mbuild_def)
next
  case (snoc u us)
  then show ?case by (simp add: user_index_snoc idx_last_snoc)
qed

lemma last_map_update:
  assumes "i < length cur" and "ID (cur ! i) = ID u" and "ID u \<notin> ID ` set (drop (Suc i) cur)"
  shows "last_map (cur[i := u]) = (last_map cur)(ID u \<mapsto> u)"
proof -
  have "cur = take i cur @ [cur ! i] @ drop (Suc i) cur" using assms(1) by (simp add: id_take_nth_drop)
  then have "last_map cur = last_map (take i cur) ++ ([ID u \<mapsto> cur ! i] ++ last_map (drop (Suc i) cur))"
    using assms(2) by (metis last_map_append last_map_single)
  moreover have "last_map (cur[i := u]) = last_map (take i cur) ++ ([ID u \<mapsto> u] ++ last_map (drop (Suc i) cur))"
    using assms(1) by (simp add: upd_conv_take_nth_drop last_map_append [of _ "_ # _"] last_map_append [of "[u]", simplified] last_map_single)
  ultimately show ?thesis
    using assms(3) last_map_None [of "drop (Suc i) cur" "ID u"]
    by (auto simp: fun_eq_iff map_add_def split: option.splits)
qed

lemma idx_last_update:
  assumes "idx_last index cur" and "i < length cur" and "ID (cur ! i) = ID u"
  shows "idx_last index (cur[i := u])"
proof -
  have m: "map ID (cur[i := u]) = map ID cur" by (rule map_ID_update [OF assms(2,3)])
  have n: "ID (cur[i := u] ! j) = ID (cur ! j)" if "j < length cur" for j
    using m that by (metis length_list_update nth_map)
  have d: "ID ` set (drop j (cur[i := u])) = ID ` set (drop j cur)" for j
    using arg_cong [OF m, of "\<lambda>xs. set (drop j xs)"] by (simp add: drop_map)
  show ?thesis
    unfolding idx_last_def
  proof
    fix k
    show "case map_of index k of None \<Rightarrow> k \<notin> ID ` set (cur[i := u])
      | Some j \<Rightarrow> j < length (cur[i := u]) \<and> ID (cur[i := u] ! j) = k \<and> k \<notin> ID ` set (drop (Suc j) (cur[i := u]))"
      using assms(1) [unfolded idx_last_def, THEN spec, of k] n d [of 0] by (cases "map_of index k") (simp_all add: d)
  qed
qed

lemma fold_add_user_last:
  assumes "idx_last index cur" and "fold add_user dlt (index, cur) = (index', cur')"
  shows "last_map cur' = last_map cur ++ last_map dlt \<and> length cur \<le> length cur'"
  using assms
proof (induction dlt arbitrary: index cur)
  case Nil
  then show ?case by simp
next
  case (Cons u dlt)
  obtain index1 cur1 where s: "add_user u (index, cur) = (index1, cur1)" by fastforce
  have S: "idx_last index1 cur1 \<and> last_map cur1 = (last_map cur)(ID u \<mapsto> u) \<and> length cur \<le> length cur1"
  proof (cases "map_of index (ID u)")
    case None
    then have "index1 = mput (ID u) (length cur) index" "cur1 = cur @ [u]" using s by auto
    then show ?thesis using idx_last_snoc [OF Cons.prems(1)] by (simp add: last_map_append last_map_single)
  next
    case (Some i)
    then have r: "index1 = index" "cur1 = cur[i := u]" using s by auto
    have i: "i < length cur" "ID (cur ! i) = ID u" "ID u \<notin> ID ` set (drop (Suc i) cur)"
      using Cons.prems(1) Some unfolding idx_last_def by (auto dest: spec [of _ "ID u"])
    show ?thesis using idx_last_update [OF Cons.prems(1) i(1,2)] last_map_update [OF i] by (simp add: r)
  qed
  have "fold add_user dlt (index1, cur1) = (index', cur')" using Cons.prems(2) s by simp
  note I = Cons.IH [OF conjunct1 [OF S] this]
  have "last_map cur' = (last_map cur ++ [ID u \<mapsto> u]) ++ last_map dlt"
    using I S by (metis map_add_empty map_add_upd)
  then show ?case using I S by (metis last_map.simps(2) map_add_assoc order_trans)
qed

lemma applyUserDelta_last:
  "last_map (elems (snd (applyUserDelta us ''add'' d))) = last_map (elems us) ++ last_map d"
  "last_map (elems (snd (applyUserDelta us ''remove'' d))) = (\<lambda>k. if k \<in> ID ` set d then None else last_map (elems us) k)"
proof -
  obtain index' cur' where f: "fold add_user d (user_index (elems us), elems us) = (index', cur')" by fastforce
  note F = fold_add_user_last [OF idx_last_index f]
  have "elems (snd (applyUserDelta us ''add'' d)) = cur'"
    using F by (auto simp: applyUserDelta_def Let_def f split: list.split)
  then show "last_map (elems (snd (applyUserDelta us ''add'' d))) = last_map (elems us) ++ last_map d" using F by simp
  have "elems (snd (applyUserDelta us ''remove'' d)) = filter (\<lambda>u. ID u \<notin> ID ` set d) (elems us)"
    by (simp add: applyUserDelta_def Let_def append_nil_def)
  then show "last_map (elems (snd (applyUserDelta us ''remove'' d))) = (\<lambda>k. if k \<in> ID ` set d then None else last_map (elems us) k)"
    by (simp add: last_map_filter)
qed

section \<open>Interleavings\<close>

text \<open>
  A mailbox with its producers and its consumer. \<open>w_owed\<close> counts the \<open>Apply\<close> and \<open>MarkReady\<close> calls
  that have released the mutex and have yet to notify; \<open>w_draining\<close> says that the service has taken
  the token and has yet to drain. The \<open>w_want\<close> fields are the reference, computed from the pushed
  events alone: the last configuration and device state that were pushed (or seeded), and the users:
  those of the last full list with every delta since carried out on the map from IDs to users
  (\<open>w_wantUsers\<close>, \<open>None\<close> before the first full list). The \<open>w_got\<close> fields are what the service has last been
  handed; \<open>w_missed\<close> says that a delta arrived that has no meaning (no list to apply it to, or an
  unknown action) and the service has not yet been told to reconcile.
\<close>

record mb_world =
  w_box :: NodeMailbox
  w_owed :: nat
  w_draining :: bool
  w_wantConfig :: "NodeSpec option"
  w_gotConfig :: "NodeSpec option"
  w_wantDevices :: device_users
  w_gotDevices :: device_users
  w_wantUsers :: "(int \<Rightarrow> UserSpec option) option"
  w_gotUsers :: "UserSpec slice"
  w_missed :: bool

definition mb_init :: mb_world where
  "mb_init = \<lparr>w_box = NewNodeMailbox, w_owed = 0, w_draining = False, w_wantConfig = None, w_gotConfig = None,
     w_wantDevices = None, w_gotDevices = None, w_wantUsers = None, w_gotUsers = None, w_missed = False\<rparr>"

definition want_delta :: "string \<Rightarrow> UserSpec list \<Rightarrow> (int \<Rightarrow> UserSpec option) \<Rightarrow> int \<Rightarrow> UserSpec option" where
  "want_delta action dlt m =
     (if action = ''add'' then m ++ last_map dlt
      else if action = ''remove'' then (\<lambda>k. if k \<in> ID ` set dlt then None else m k) else m)"

definition want :: "Event \<Rightarrow> mb_world \<Rightarrow> mb_world" where
  "want e w = (case ev_Type e of
     EventSyncConfig \<Rightarrow> (if ev_Config e = None then w else w\<lparr>w_wantConfig := cloneNodeSpec (ev_Config e)\<rparr>)
   | EventSyncUsers \<Rightarrow> (case ev_Users e of None \<Rightarrow> w | Some us \<Rightarrow> w\<lparr>w_wantUsers := Some (last_map us)\<rparr>)
   | EventSyncDevices \<Rightarrow> (if ev_DeviceUsers e = None then w else w\<lparr>w_wantDevices := cloneDeviceUsers (ev_DeviceUsers e)\<rparr>)
   | EventSyncUserDelta \<Rightarrow>
       w\<lparr>w_wantUsers := map_option (want_delta (ev_DeltaAction e) (elems (ev_DeltaUsers e))) (w_wantUsers w),
         w_missed := w_missed w \<or> elems (ev_DeltaUsers e) \<noteq> [] \<and>
           (w_wantUsers w = None \<or> ev_DeltaAction e \<noteq> ''add'' \<and> ev_DeltaAction e \<noteq> ''remove'')\<rparr>
   | OtherEvent _ \<Rightarrow> w)"

definition take_in :: "MailboxState \<Rightarrow> mb_world \<Rightarrow> mb_world" where
  "take_in st w = w\<lparr>w_gotConfig := (if ms_HasConfig st then ms_Config st else w_gotConfig w),
     w_gotUsers := (if ms_HasUsers st then ms_Users st else w_gotUsers w),
     w_gotDevices := (if ms_HasDevices st then ms_DeviceUsers st else w_gotDevices w),
     w_missed := (w_missed w \<and> \<not> ms_NeedsReconcile st)\<rparr>"

inductive mb_step :: "mb_world \<Rightarrow> mb_world \<Rightarrow> bool" where
  mb_apply: "Apply_locked (w_box w) e = (changed, m) \<Longrightarrow>
     mb_step w ((want e w)\<lparr>w_box := m, w_owed := w_owed w + (if changed then 1 else 0)\<rparr>)"
| mb_ready: "mb_step w (w\<lparr>w_box := MarkReady_locked (w_box w), w_owed := w_owed w + 1\<rparr>)"
| mb_notify: "0 < w_owed w \<Longrightarrow> mb_step w (w\<lparr>w_box := notify (w_box w), w_owed := w_owed w - 1\<rparr>)"
| mb_seed: "\<not> nm_ready (w_box w) \<Longrightarrow>
     mb_step w (w\<lparr>w_box := SeedBaseline (w_box w) users config,
       w_wantConfig := (if config \<noteq> None \<and> w_wantConfig w = None then cloneNodeSpec config else w_wantConfig w),
       w_gotConfig := (if config \<noteq> None \<and> w_wantConfig w = None then cloneNodeSpec config else w_gotConfig w),
       w_wantUsers := (if users \<noteq> None \<and> w_wantUsers w = None then Some (last_map (elems users)) else w_wantUsers w),
       w_gotUsers := (if users \<noteq> None \<and> w_wantUsers w = None then users else w_gotUsers w)\<rparr>)"
| mb_wake: "nm_notifyCh (w_box w) \<Longrightarrow> \<not> w_draining w \<Longrightarrow>
     mb_step w (w\<lparr>w_box := (w_box w)\<lparr>nm_notifyCh := False\<rparr>, w_draining := True\<rparr>)"
| mb_drain: "DrainIfReady (w_box w) = (st, m) \<Longrightarrow>
     mb_step w ((take_in st w)\<lparr>w_box := m, w_draining := False\<rparr>)"

inductive mb_reach :: "mb_world \<Rightarrow> bool" where
  mb_start: "mb_reach mb_init"
| mb_more: "mb_reach w \<Longrightarrow> mb_step w w' \<Longrightarrow> mb_reach w'"

definition mb_dirty :: "NodeMailbox \<Rightarrow> bool" where
  "mb_dirty m \<longleftrightarrow> nm_dirtyConfig m \<or> nm_dirtyUsers m \<or> nm_dirtyDevices m \<or> nm_needsReconcile m"

definition mb_inv :: "mb_world \<Rightarrow> bool" where
  "mb_inv w \<longleftrightarrow>
     (nm_dirtyConfig (w_box w) \<longrightarrow> nm_config (w_box w) \<noteq> None) \<and>
     (nm_dirtyDevices (w_box w) \<longrightarrow> nm_deviceUsers (w_box w) \<noteq> None) \<and>
     w_wantConfig w = nm_config (w_box w) \<and> cloneNodeSpec (nm_config (w_box w)) = nm_config (w_box w) \<and>
     w_wantDevices w = nm_deviceUsers (w_box w) \<and>
     cloneDeviceUsers (nm_deviceUsers (w_box w)) = nm_deviceUsers (w_box w) \<and>
     (\<not> nm_dirtyConfig (w_box w) \<longrightarrow> w_gotConfig w = nm_config (w_box w)) \<and>
     (\<not> nm_dirtyDevices (w_box w) \<longrightarrow> w_gotDevices w = nm_deviceUsers (w_box w)) \<and>
     (nm_hasFullUserState (w_box w) \<and> \<not> nm_dirtyUsers (w_box w) \<longrightarrow> w_gotUsers w = nm_users (w_box w)) \<and>
     (nm_dirtyUsers (w_box w) \<longrightarrow> nm_hasFullUserState (w_box w)) \<and>
     w_wantUsers w = (if nm_hasFullUserState (w_box w) then Some (last_map (elems (nm_users (w_box w)))) else None) \<and>
     (w_missed w \<longrightarrow> nm_needsReconcile (w_box w)) \<and>
     (nm_ready (w_box w) \<and> mb_dirty (w_box w) \<longrightarrow> nm_notifyCh (w_box w) \<or> 0 < w_owed w \<or> w_draining w)"

lemma applyUserDelta_known:
  "fst (applyUserDelta us a d) \<longleftrightarrow> a = ''add'' \<or> a = ''remove''"
  by (simp add: applyUserDelta_def Let_def split: list.split)

lemma Apply_delta:
  assumes "ev_Type e = EventSyncUserDelta"
  shows "Apply_locked m e =
    (if elems (ev_DeltaUsers e) = [] then (False, m)
     else if \<not> nm_hasFullUserState m \<or> ev_DeltaAction e \<noteq> ''add'' \<and> ev_DeltaAction e \<noteq> ''remove''
     then (True, m\<lparr>nm_needsReconcile := True\<rparr>)
     else (True, m\<lparr>nm_users := snd (applyUserDelta (nm_users m) (ev_DeltaAction e) (elems (ev_DeltaUsers e))),
             nm_dirtyUsers := True\<rparr>))"
proof -
  obtain ok us where d: "applyUserDelta (nm_users m) (ev_DeltaAction e) (elems (ev_DeltaUsers e)) = (ok, us)"
    by fastforce
  have "ok \<longleftrightarrow> ev_DeltaAction e = ''add'' \<or> ev_DeltaAction e = ''remove''"
    using applyUserDelta_known [of "nm_users m" "ev_DeltaAction e"] d by (metis fst_conv)
  then show ?thesis by (cases ok) (auto simp: Apply_locked_def assms d)
qed

lemma Apply_locked_inv:
  assumes "mb_inv w" and "Apply_locked (w_box w) e = (changed, m)"
  shows "mb_inv ((want e w)\<lparr>w_box := m, w_owed := w_owed w + (if changed then 1 else 0)\<rparr>)"
proof (cases "ev_Type e")
  case EventSyncUserDelta
  show ?thesis
  proof (cases "elems (ev_DeltaUsers e) = []")
    case True
    then show ?thesis
      using assms Apply_delta [OF EventSyncUserDelta, of "w_box w"]
      by (auto simp: want_def EventSyncUserDelta mb_inv_def want_delta_def)
  next
    case False
    let ?miss = "\<not> nm_hasFullUserState (w_box w) \<or> ev_DeltaAction e \<noteq> ''add'' \<and> ev_DeltaAction e \<noteq> ''remove''"
    show ?thesis
    proof (cases ?miss)
      case True
      then have "changed" "m = (w_box w)\<lparr>nm_needsReconcile := True\<rparr>"
        using assms(2) Apply_delta [OF EventSyncUserDelta, of "w_box w"] False by auto
      then show ?thesis using assms(1) True
        by (auto simp: want_def EventSyncUserDelta mb_inv_def want_delta_def split: if_splits)
    next
      case known: False
      let ?us = "snd (applyUserDelta (nm_users (w_box w)) (ev_DeltaAction e) (elems (ev_DeltaUsers e)))"
      have "changed" "m = (w_box w)\<lparr>nm_users := ?us, nm_dirtyUsers := True\<rparr>"
        using known assms(2) Apply_delta [OF EventSyncUserDelta, of "w_box w"] False by auto
      moreover have "last_map (elems ?us) = want_delta (ev_DeltaAction e) (elems (ev_DeltaUsers e)) (last_map (elems (nm_users (w_box w))))"
        using known applyUserDelta_last by (auto simp: want_delta_def)
      ultimately show ?thesis using assms(1) known by (auto simp: want_def EventSyncUserDelta mb_inv_def)
    qed
  qed
next
  case EventSyncConfig
  show ?thesis
  proof (cases "ev_Config e = None")
    case True
    then show ?thesis using assms by (simp add: EventSyncConfig mb_inv_def Apply_locked_def want_def)
  next
    case False
    then have "changed" "m = (w_box w)\<lparr>nm_config := cloneNodeSpec (ev_Config e), nm_dirtyConfig := True\<rparr>" "want e w = w\<lparr>w_wantConfig := cloneNodeSpec (ev_Config e)\<rparr>"
      using assms(2) by (auto simp: EventSyncConfig Apply_locked_def want_def)
    then show ?thesis using assms(1) False by (simp add: mb_inv_def)
  qed
next
  case EventSyncUsers
  show ?thesis
  proof (cases "ev_Users e = None")
    case True
    then show ?thesis using assms by (simp add: EventSyncUsers mb_inv_def Apply_locked_def want_def)
  next
    case False
    then have "changed" "m = (w_box w)\<lparr>nm_users := ev_Users e, nm_dirtyUsers := True, nm_hasFullUserState := True\<rparr>" "want e w = w\<lparr>w_wantUsers := Some (last_map (elems (ev_Users e)))\<rparr>"
      using assms(2) by (auto simp: EventSyncUsers Apply_locked_def want_def)
    then show ?thesis using assms(1) False by (simp add: mb_inv_def)
  qed
next
  case EventSyncDevices
  show ?thesis
  proof (cases "ev_DeviceUsers e = None")
    case True
    then show ?thesis using assms by (simp add: EventSyncDevices mb_inv_def Apply_locked_def want_def)
  next
    case False
    then have "changed" "m = (w_box w)\<lparr>nm_deviceUsers := cloneDeviceUsers (ev_DeviceUsers e), nm_dirtyDevices := True\<rparr>" "want e w = w\<lparr>w_wantDevices := cloneDeviceUsers (ev_DeviceUsers e)\<rparr>"
      using assms(2) by (auto simp: EventSyncDevices Apply_locked_def want_def)
    then show ?thesis using assms(1) False by (simp add: mb_inv_def)
  qed
next
  case (OtherEvent t)
  then show ?thesis
    using assms by (simp add: mb_inv_def Apply_locked_def want_def)
qed

lemma DrainIfReady_ready:
  assumes "nm_ready m" and "nm_dirtyConfig m \<Longrightarrow> nm_config m \<noteq> None"
    and "nm_dirtyDevices m \<Longrightarrow> nm_deviceUsers m \<noteq> None"
  shows "DrainIfReady m =
    (\<lparr>ms_Config = (if nm_dirtyConfig m then cloneNodeSpec (nm_config m) else None),
      ms_Users = (if nm_dirtyUsers m then nm_users m else None),
      ms_DeviceUsers = (if nm_dirtyDevices m then cloneDeviceUsers (nm_deviceUsers m) else None),
      ms_HasConfig = nm_dirtyConfig m, ms_HasUsers = nm_dirtyUsers m, ms_HasDevices = nm_dirtyDevices m,
      ms_NeedsReconcile = nm_needsReconcile m\<rparr>,
     m\<lparr>nm_dirtyConfig := False, nm_dirtyUsers := False, nm_dirtyDevices := False, nm_needsReconcile := False\<rparr>)"
  using assms
  by (cases "nm_dirtyConfig m"; cases "nm_dirtyUsers m"; cases "nm_dirtyDevices m")
    (simp_all add: DrainIfReady_def MailboxState_zero_def)

lemma mb_step_inv:
  assumes "mb_step w w'" and "mb_inv w"
  shows "mb_inv w'"
  using assms(1)
proof cases
  case (mb_apply e changed m)
  then show ?thesis using Apply_locked_inv [OF assms(2)] by blast
next
  case mb_ready
  then show ?thesis using assms(2) by (simp add: mb_inv_def MarkReady_locked_def mb_dirty_def)
next
  case mb_notify
  then show ?thesis using assms(2) by (auto simp: mb_inv_def notify_def mb_dirty_def)
next
  case (mb_seed users config)
  then show ?thesis
    using assms(2) by (auto simp: mb_inv_def SeedBaseline_def Let_def mb_dirty_def)
next
  case mb_wake
  then show ?thesis using assms(2) by (auto simp: mb_inv_def mb_dirty_def)
next
  case (mb_drain st m)
  show ?thesis
  proof (cases "nm_ready (w_box w)")
    case False
    then have "st = MailboxState_zero" "m = w_box w" using mb_drain(2) by (auto simp: DrainIfReady_def)
    then show ?thesis
      using assms(2) False by (simp add: mb_drain(1) mb_inv_def take_in_def MailboxState_zero_def)
  next
    case True
    have c: "nm_dirtyConfig (w_box w) \<Longrightarrow> nm_config (w_box w) \<noteq> None"
      and d: "nm_dirtyDevices (w_box w) \<Longrightarrow> nm_deviceUsers (w_box w) \<noteq> None"
      using assms(2) by (auto simp: mb_inv_def)
    show ?thesis
      using DrainIfReady_ready [OF True c d] mb_drain(2) assms(2)
      by (auto simp: mb_drain(1) mb_inv_def take_in_def mb_dirty_def)
  qed
qed

lemma mb_reach_inv: "mb_reach w \<Longrightarrow> mb_inv w"
proof (induction rule: mb_reach.induct)
  case mb_start
  show ?case by (simp add: mb_inv_def mb_init_def NewNodeMailbox_def cloneNodeSpec_def cloneDeviceUsers_def mb_dirty_def)
qed (rule mb_step_inv)

section \<open>Properties\<close>

text \<open>
  C5. No pushed update is lost. Events may arrive at any time, before or after the service is ready,
  and between any two critical sections; whenever the mailbox is ready and nothing is left that
  would wake the service (no token, no notification owed, no drain under way), the service has been
  handed the latest configuration, the latest device state and the latest users: as a map from IDs,
  the last full list that was pushed or seeded with every later delta carried out on it in order. And
  it has been told to reconcile if a delta had nothing to apply to or an unknown action.
\<close>

theorem mailbox_no_lost_update:
  assumes "mb_reach w" and "nm_ready (w_box w)" and "\<not> nm_notifyCh (w_box w)" and "w_owed w = 0" and "\<not> w_draining w"
  shows "w_gotConfig w = w_wantConfig w \<and> w_gotDevices w = w_wantDevices w \<and> \<not> w_missed w \<and>
    (case w_wantUsers w of None \<Rightarrow> True | Some users \<Rightarrow> last_map (elems (w_gotUsers w)) = users)"
  using mb_reach_inv [OF assms(1)] assms(2-) by (auto simp: mb_inv_def mb_dirty_def)

definition demo_event :: "UserSpec list \<Rightarrow> Event" where
  "demo_event us = \<lparr>ev_Type = EventSyncUsers, ev_Config = None, ev_Users = Some us, ev_DeltaAction = [],
     ev_DeltaUsers = None, ev_DeviceUsers = None\<rparr>"

definition demo_mail_user :: UserSpec where
  "demo_mail_user = \<lparr>ID = 7, UUID = ''u'', SpeedLimit = 0, DeviceLimit = 0, RouteScope = []\<rparr>"

text \<open>A user list and a delta are pushed, the mailbox is marked ready, all notify, the service wakes and drains.\<close>

definition demo_delta :: Event where
  "demo_delta = \<lparr>ev_Type = EventSyncUserDelta, ev_Config = None, ev_Users = None, ev_DeltaAction = ''add'',
     ev_DeltaUsers = Some [demo_mail_user\<lparr>SpeedLimit := 5\<rparr>], ev_DeviceUsers = None\<rparr>"

theorem mailbox_no_lost_update_witness:
  "\<exists>w. mb_reach w \<and> nm_ready (w_box w) \<and> \<not> nm_notifyCh (w_box w) \<and> w_owed w = 0 \<and> \<not> w_draining w \<and>
     last_map (elems (w_gotUsers w)) 7 = Some (demo_mail_user\<lparr>SpeedLimit := 5\<rparr>)"
proof -
  let ?u = "demo_mail_user\<lparr>SpeedLimit := 5\<rparr>"
  let ?m0 = "NewNodeMailbox\<lparr>nm_users := Some [demo_mail_user], nm_dirtyUsers := True, nm_hasFullUserState := True\<rparr>"
  let ?m1 = "?m0\<lparr>nm_users := Some [?u]\<rparr>"
  let ?start = "(want (demo_event [demo_mail_user]) mb_init)\<lparr>w_box := ?m0, w_owed := 1\<rparr>"
  let ?w1 = "(want demo_delta ?start)\<lparr>w_box := ?m1, w_owed := 2\<rparr>"
  let ?w2 = "?w1\<lparr>w_box := MarkReady_locked ?m1, w_owed := 3\<rparr>"
  let ?w3 = "?w2\<lparr>w_box := notify (MarkReady_locked ?m1), w_owed := 2\<rparr>"
  let ?w4 = "?w3\<lparr>w_box := notify (MarkReady_locked ?m1), w_owed := 1\<rparr>"
  let ?w5 = "?w4\<lparr>w_box := notify (MarkReady_locked ?m1), w_owed := 0\<rparr>"
  let ?w6 = "?w5\<lparr>w_box := (w_box ?w5)\<lparr>nm_notifyCh := False\<rparr>, w_draining := True\<rparr>"
  obtain st m where d: "DrainIfReady (w_box ?w6) = (st, m)" by fastforce
  let ?v = "(take_in st ?w6)\<lparr>w_box := m, w_draining := False\<rparr>"
  have "Apply_locked (w_box mb_init) (demo_event [demo_mail_user]) = (True, ?m0)"
    by (simp add: Apply_locked_def demo_event_def mb_init_def)
  from mb_more [OF mb_start mb_apply [OF this]] have "mb_reach ?start" by (simp add: mb_init_def)
  moreover have "Apply_locked (w_box ?start) demo_delta = (True, ?m1)"
    by (simp add: Apply_locked_def demo_delta_def demo_mail_user_def applyUserDelta_def user_index_def mbuild_def)
  from mb_apply [OF this] have "mb_step ?start ?w1" by (simp add: numeral_2_eq_2)
  ultimately have "mb_reach ?w1" by (rule mb_more)
  moreover have "mb_step ?w1 ?w2" using mb_ready [of ?w1] by (simp add: eval_nat_numeral)
  ultimately have "mb_reach ?w2" by (rule mb_more)
  moreover have "mb_step ?w2 ?w3" using mb_notify [of ?w2] by simp
  ultimately have "mb_reach ?w3" by (rule mb_more)
  moreover have "mb_step ?w3 ?w4" using mb_notify [of ?w3] by (simp add: notify_def)
  ultimately have "mb_reach ?w4" by (rule mb_more)
  moreover have "mb_step ?w4 ?w5" using mb_notify [of ?w4] by (simp add: notify_def)
  ultimately have "mb_reach ?w5" by (rule mb_more)
  moreover have "mb_step ?w5 ?w6"
    using mb_wake [of ?w5] by (simp add: notify_def mb_init_def want_def demo_delta_def demo_event_def)
  ultimately have "mb_reach ?w6" by (rule mb_more)
  moreover have "mb_step ?w6 ?v" by (rule mb_drain [OF d])
  ultimately have r: "mb_reach ?v" by (rule mb_more)
  have m: "nm_ready m" "\<not> nm_notifyCh m"
    using d by (auto simp: DrainIfReady_def MailboxState_zero_def MarkReady_locked_def notify_def NewNodeMailbox_def mb_init_def)
  have "w_wantUsers ?v = Some [7 \<mapsto> ?u]"
    by (simp add: take_in_def want_def demo_delta_def demo_event_def want_delta_def demo_mail_user_def map_add_def fun_eq_iff mb_init_def)
  then have "last_map (elems (w_gotUsers ?v)) = [7 \<mapsto> ?u]"
    using mailbox_no_lost_update [OF r] m by (simp add: take_in_def mb_init_def)
  then show ?thesis using r m by (intro exI [of _ ?v]) (simp add: take_in_def mb_init_def)
qed

text \<open>
  A user delta does to the buffered list what it says. Adding keeps the users already there in
  their places, appends new ones, and gives every user the last entry the delta has for its ID;
  removing takes exactly the users with a listed ID away. IDs stay distinct.
\<close>

lemma applyUserDelta_spec:
  assumes "distinct (map ID us)"
  shows "(\<exists>us'. applyUserDelta (Some us) ''add'' d = (True, Some us') \<and> distinct (map ID us') \<and>
      prefix (map ID us) (map ID us') \<and> user_map us' = fold (\<lambda>u m. m(ID u \<mapsto> u)) d (user_map us)) \<and>
    (\<exists>us'. applyUserDelta (Some us) ''remove'' d = (True, us') \<and> distinct (map ID (elems us')) \<and>
      user_map (elems us') = (\<lambda>k. if k \<in> ID ` set d then None else user_map us k))"
proof -
  obtain index' us' where f: "fold add_user d (user_index us, us) = (index', us')" by fastforce
  note F = fold_add_user [OF idx_ok_index [OF assms] f]
  have "applyUserDelta (Some us) ''add'' d = (True, Some us')"
    using F by (auto simp: applyUserDelta_def Let_def f split: list.split)
  then have add: "\<exists>us'. applyUserDelta (Some us) ''add'' d = (True, Some us') \<and> distinct (map ID us') \<and>
      prefix (map ID us) (map ID us') \<and> user_map us' = fold (\<lambda>u m. m(ID u \<mapsto> u)) d (user_map us)"
    using F by blast
  let ?f = "filter (\<lambda>u. ID u \<notin> ID ` set d) us"
  have e: "elems (snd (applyUserDelta (Some us) ''remove'' d)) = ?f"
    by (simp add: applyUserDelta_def append_nil_def)
  have df: "distinct (map ID ?f)" using assms by (rule distinct_map_filter)
  have "user_map ?f k = Some u \<longleftrightarrow> (if k \<in> ID ` set d then None else user_map us k) = Some u" for k u
    using user_map_iff [OF df, of k u] user_map_iff [OF assms, of k u] by (cases "k \<in> ID ` set d") auto
  then have "user_map ?f k = (if k \<in> ID ` set d then None else user_map us k)" for k
    by (metis option.exhaust)
  then have "user_map ?f = (\<lambda>k. if k \<in> ID ` set d then None else user_map us k)" by blast
  then show ?thesis
    using add e df by (simp add: applyUserDelta_def Let_def)
qed

theorem applyUserDelta_spec_witness:
  "\<exists>us'. applyUserDelta (Some [demo_mail_user]) ''add'' [demo_mail_user\<lparr>SpeedLimit := 5\<rparr>] = (True, Some us') \<and>
     user_map us' 7 = Some (demo_mail_user\<lparr>SpeedLimit := 5\<rparr>)"
  using applyUserDelta_spec [of "[demo_mail_user]" "[demo_mail_user\<lparr>SpeedLimit := 5\<rparr>]"]
  by (auto simp: demo_mail_user_def)

text \<open>
  The copy the mailbox hands on is the configuration that was put in, except that an empty but
  non-nil list of routes, outbounds or custom route rules comes out as nil.
\<close>

lemma cloneNodeSpec_exact:
  assumes "spec_wf s"
  shows "cloneNodeSpec (Some s) = Some s \<longleftrightarrow>
    n_Routes s \<noteq> Some [] \<and> n_CustomOutbounds s \<noteq> Some [] \<and> n_CustomRouteRules s \<noteq> Some []"
proof -
  have cr: "map_option (map (map_option (mbuild fst snd))) (n_CustomRoutes s) = n_CustomRoutes s"
    using assms by (cases "n_CustomRoutes s") (auto simp: spec_wf_def opt_wf_copy intro: map_idI)
  have cc: "map_option clone_cert (n_CertConfig s) = n_CertConfig s"
    using assms by (cases "n_CertConfig s") (auto simp: spec_wf_def clone_cert_def opt_wf_copy)
  have "cloneNodeSpec (Some s) = Some (s\<lparr>n_Routes := append_nil (n_Routes s),
      n_CustomOutbounds := append_nil (n_CustomOutbounds s), n_CustomRouteRules := append_nil (n_CustomRouteRules s)\<rparr>)"
    using assms cr cc by (simp add: cloneNodeSpec_def spec_wf_def opt_wf_copy)
  then show ?thesis
    by (cases s) (simp add: append_nil_eq_iff)
qed

definition demo_spec :: NodeSpec where
  "demo_spec = \<lparr>n_Protocol = ''vless'', n_ListenIP = [], n_ServerPort = 443, n_Network = ''tcp'',
     n_NetworkSettings = None, n_Routes = Some [], n_KernelType = [], n_KernelLogLevel = [],
     n_CustomOutbounds = None, n_CustomRoutes = None, n_CustomRouteRules = None, n_RouteProfiles = None,
     n_DefaultOutboundTag = [], n_CertConfig = None, n_AutoTLS = False, n_Domain = [], n_Cipher = [],
     n_Plugin = [], n_PluginOpt = [], n_ServerKey = [], n_TLS = 0, n_Flow = [], n_Decryption = [],
     n_TLSSettings = None, n_Host = [], n_ServerName = [], n_Version = 0, n_UpMbps = 0, n_DownMbps = 0,
     n_Obfs = [], n_ObfsPassword = [], n_CongestionControl = [], n_PaddingScheme = [], n_Transport = [],
     n_TrafficPattern = [], n_Multiplex = None, n_AcceptProxyProtocol = False\<rparr>"

theorem cloneNodeSpec_exact_witness:
  "cloneNodeSpec (Some demo_spec) \<noteq> Some demo_spec \<and>
   cloneNodeSpec (Some (demo_spec\<lparr>n_Routes := None\<rparr>)) = Some (demo_spec\<lparr>n_Routes := None\<rparr>)"
  using cloneNodeSpec_exact [of demo_spec] cloneNodeSpec_exact [of "demo_spec\<lparr>n_Routes := None\<rparr>"]
  by (simp add: demo_spec_def spec_wf_def)

end
