(* ===== verification/Validate.thy ===== *)
theory Validate
  imports Model
begin

text \<open>
  Validation of a node spec before it reaches a kernel: \<^verbatim>\<open>validate.go\<close>, \<^verbatim>\<open>custom_outbound_validate.go\<close>,
  \<^verbatim>\<open>custom_route_validate.go\<close>, \<^verbatim>\<open>custom_config_tags.go\<close> and the two support matrices of
  \<^verbatim>\<open>internal/model\<close>. Every error return is a constructor of \<open>verror\<close>, with the index the message
  carries; a loop is a recursion over its list with the index and the sets it accumulates.

  The kernel's custom configuration file is outside the program: \<open>readFile\<close> reads it and \<open>parseDoc\<close>
  decodes it (as JSON or as YAML), both arguments. The matchers a Go map is ranged over are tested in
  a fixed order; the result carries only whether one of them is unsupported.
\<close>

section \<open>Errors\<close>

datatype verror =
    KernelTypeUnsupported string
  | ConfigUnreadable
  | ConfigNotJSON
  | ConfigNotYAML
  | SourceTagDuplicates string string string
  | OutboundTagDuplicates nat string string
  | OutboundTagRequired nat
  | OutboundProtocolRequired nat
  | OutboundProtocolUnsupported nat string
  | OutboundSettingsRequired nat
  | OutboundSettingReserved nat string
  | OutboundSettingBlank nat string
  | OutboundPortInvalid nat string
  | OutboundTagRepeated nat string
  | ProxyTagBlank nat
  | ProxyTagSelf nat
  | ProxyTagUnknown nat string
  | MatchRequired nat
  | MatcherUnsupported nat
  | PortsInvalid nat
  | SourcePortsInvalid nat
  | NetworksInvalid nat
  | GeoIPsInvalid nat
  | ActionTypeRequired nat
  | ActionTypeUnsupported nat string
  | TargetRequired nat
  | TargetUnknown nat string
  | TargetNotAllowed nat
  | ProfileInvalid string verror
  | ProfileTagUnknown string string
  | DefaultTagUnknown string
  | TransportUnsupported string

definition tagkey :: "string \<Rightarrow> string" where
  "tagkey s = ToLower (TrimSpace s)"

definition add_tag :: "string \<Rightarrow> string list \<Rightarrow> string list" where
  "add_tag tag tags = (let t = tagkey tag in if t \<noteq> [] then t # tags else tags)"

section \<open>Kernel types and transports\<close>

definition normalizeKernelType :: "string \<Rightarrow> verror + string" where
  "normalizeKernelType value =
     (let v = ToLower (TrimSpace value) in
      if v = ''singbox'' \<or> v = ''sing-box'' then Inr ''singbox''
      else if v = ''xray'' then Inr ''xray''
      else Inl (KernelTypeUnsupported value))"

definition singboxUnsupportedTransports :: "string list" where
  "singboxUnsupportedTransports = [''xhttp'', ''splithttp'']"

definition validateTransportKernel :: "string \<Rightarrow> string \<Rightarrow> verror + unit" where
  "validateTransportKernel network kernelType =
     (let net = ToLower (TrimSpace network) in
      if kernelType = ''singbox'' \<and> net \<in> set singboxUnsupportedTransports then Inl (TransportUnsupported net)
      else Inr ())"

definition ResolveKernelForTransport :: "string \<Rightarrow> string \<Rightarrow> string" where
  "ResolveKernelForTransport network configuredKernel =
     (let net = ToLower (TrimSpace network) in
      if configuredKernel = ''singbox'' \<and> net \<in> set singboxUnsupportedTransports then ''xray''
      else configuredKernel)"

definition OutboundSupportMatrix :: "string \<Rightarrow> string list option" where
  "OutboundSupportMatrix = map_of
     [(''xray'', [''vmess'', ''vless'', ''trojan'', ''shadowsocks'', ''socks'', ''http'', ''wireguard'']),
      (''singbox'', [''vmess'', ''vless'', ''trojan'', ''shadowsocks'', ''socks'', ''http'', ''wireguard'',
         ''tuic'', ''hysteria2'', ''anytls'', ''naive'', ''mieru''])]"

definition RouteSupportMatrix :: "string \<Rightarrow> (string list \<times> string list) option" where
  "RouteSupportMatrix = map_of
     [(''xray'', [''domains'', ''domain_suffixes'', ''geo_ips'', ''ip_cidrs'', ''ports'', ''networks'',
         ''source_cidrs'', ''source_ports''], [''block'', ''direct'', ''route'']),
      (''singbox'', [''domains'', ''domain_suffixes'', ''ip_cidrs'', ''ports'', ''networks'',
         ''source_cidrs'', ''source_ports''], [''block'', ''direct'', ''route''])]"

section \<open>Outbounds\<close>

definition port_range :: "int \<Rightarrow> int option" where
  "port_range v = (if v < 1 \<or> 65535 < v then None else Some v)"

definition float_int :: "int \<Rightarrow> int \<Rightarrow> int option" where
  "float_int m e = (if 0 \<le> e then Some (m * 2 ^ nat e)
     else if m mod 2 ^ nat (- e) = 0 then Some (m div 2 ^ nat (- e)) else None)"

definition asPort :: "any \<Rightarrow> int option" where
  "asPort value = (case value of
     AnyInt v \<Rightarrow> port_range v
   | AnyFloat m e \<Rightarrow> (case float_int m e of None \<Rightarrow> None | Some v \<Rightarrow> port_range v)
   | AnyString s \<Rightarrow> (case ParseInt (TrimSpace s) of None \<Rightarrow> None | Some v \<Rightarrow> port_range v)
   | _ \<Rightarrow> None)"

text \<open>\<^verbatim>\<open>strings.TrimSpace(fmt.Sprintf("%v", value)) == ""\<close>: only a blank string prints blank.\<close>

definition sprint_blank :: "any \<Rightarrow> bool" where
  "sprint_blank value = (case value of AnyString s \<Rightarrow> TrimSpace s = [] | _ \<Rightarrow> False)"

definition reserved_settings :: "string list" where
  "reserved_settings = [''tag'', ''protocol'', ''proxy_tag'', ''proxyTag'']"

definition nonblank_settings :: "string list" where
  "nonblank_settings = [''server'', ''uuid'', ''password'', ''method'', ''cipher'', ''private_key'', ''secret_key'',
     ''privateKey'', ''secretKey'']"

definition validateOutboundSettings :: "nat \<Rightarrow> any_map \<Rightarrow> verror + unit" where
  "validateOutboundSettings index settings =
     (let m = elems settings;
          bad_port = (\<lambda>key. case map_of m key of None \<Rightarrow> False | Some v \<Rightarrow> asPort v = None) in
      if m = [] then Inl (OutboundSettingsRequired index)
      else case find (\<lambda>key. map_of m key \<noteq> None) reserved_settings of
        Some key \<Rightarrow> Inl (OutboundSettingReserved index key)
      | None \<Rightarrow>
        (case find (\<lambda>key. case map_of m key of None \<Rightarrow> False | Some v \<Rightarrow> sprint_blank v) nonblank_settings of
           Some key \<Rightarrow> Inl (OutboundSettingBlank index key)
         | None \<Rightarrow>
             if bad_port ''server_port'' then Inl (OutboundPortInvalid index ''server_port'')
             else if bad_port ''serverPort'' then Inl (OutboundPortInvalid index ''serverPort'')
             else Inr ()))"

fun outbound_loop ::
  "string \<Rightarrow> string list \<Rightarrow> nat \<Rightarrow> OutboundConfig list \<Rightarrow> string list \<Rightarrow> string list \<Rightarrow> verror + string list" where
  "outbound_loop kernelType allowed i [] seen avail = Inr avail"
| "outbound_loop kernelType allowed i (outbound # rest) seen avail =
     (let tag = TrimSpace (ob_Tag outbound);
          protocol = ToLower (TrimSpace (ob_Protocol outbound));
          key = ToLower tag in
      if tag = [] then Inl (OutboundTagRequired i)
      else if protocol = [] then Inl (OutboundProtocolRequired i)
      else if kernelType \<noteq> [] \<and> protocol \<notin> set allowed then Inl (OutboundProtocolUnsupported i (ob_Protocol outbound))
      else case validateOutboundSettings i (ob_Settings outbound) of
        Inl e \<Rightarrow> Inl e
      | Inr _ \<Rightarrow>
          if key \<in> set seen then Inl (OutboundTagRepeated i tag)
          else outbound_loop kernelType allowed (Suc i) rest (key # seen) (key # avail))"

fun proxy_loop :: "string list \<Rightarrow> nat \<Rightarrow> OutboundConfig list \<Rightarrow> verror + unit" where
  "proxy_loop avail i [] = Inr ()"
| "proxy_loop avail i (outbound # rest) =
     (if ob_ProxyTag outbound = [] then proxy_loop avail (Suc i) rest
      else
        (let proxyTag = ToLower (TrimSpace (ob_ProxyTag outbound)) in
         if proxyTag = [] then Inl (ProxyTagBlank i)
         else if proxyTag = ToLower (TrimSpace (ob_Tag outbound)) then Inl (ProxyTagSelf i)
         else if proxyTag \<notin> set avail then Inl (ProxyTagUnknown i (ob_ProxyTag outbound))
         else proxy_loop avail (Suc i) rest))"

definition ValidateCustomOutboundsForKernel ::
  "OutboundConfig slice \<Rightarrow> string \<Rightarrow> string list \<Rightarrow> verror + unit" where
  "ValidateCustomOutboundsForKernel outbounds kernelType additionalTags =
     (if elems outbounds = [] then Inr ()
      else
        (let kt = ToLower (TrimSpace kernelType);
             run = (\<lambda>allowed.
               case outbound_loop kt allowed 0 (elems outbounds) [] (fold add_tag additionalTags [''block'', ''direct'']) of
                 Inl e \<Rightarrow> Inl e
               | Inr avail \<Rightarrow> proxy_loop avail 0 (elems outbounds)) in
         if kt \<noteq> [] then
           (case OutboundSupportMatrix kt of
              None \<Rightarrow> Inl (KernelTypeUnsupported kt)
            | Some protocols \<Rightarrow> run (map ToLower protocols))
         else run []))"

definition ValidateCustomOutbounds :: "OutboundConfig slice \<Rightarrow> verror + unit" where
  "ValidateCustomOutbounds outbounds = ValidateCustomOutboundsForKernel outbounds [] []"

section \<open>Route rules\<close>

definition hasAnyNonBlank :: "string slice \<Rightarrow> bool" where
  "hasAnyNonBlank values = (\<exists>v \<in> set (elems values). TrimSpace v \<noteq> [])"

definition hasRouteMatch :: "RouteMatch \<Rightarrow> bool" where
  "hasRouteMatch match = list_ex hasAnyNonBlank
     [m_Domains match, m_DomainSuffixes match, m_GeoIPs match, m_IPCIDRs match, m_Ports match,
      m_Networks match, m_SourceCIDRs match, m_SourcePorts match]"

definition matcher_checks :: "RouteMatch \<Rightarrow> (string, string slice) gomap" where
  "matcher_checks match =
     [(''domains'', m_Domains match), (''domain_suffixes'', m_DomainSuffixes match), (''geo_ips'', m_GeoIPs match),
      (''ip_cidrs'', m_IPCIDRs match), (''ports'', m_Ports match), (''networks'', m_Networks match),
      (''source_cidrs'', m_SourceCIDRs match), (''source_ports'', m_SourcePorts match)]"

definition ensureRouteMatcherSupported :: "nat \<Rightarrow> string \<Rightarrow> string list \<Rightarrow> RouteMatch \<Rightarrow> verror + unit" where
  "ensureRouteMatcherSupported index kernelType matcherSupport match =
     (if kernelType = [] then Inr ()
      else if list_ex (\<lambda>(matcher, values). hasAnyNonBlank values \<and> matcher \<notin> set matcherSupport) (matcher_checks match)
      then Inl (MatcherUnsupported index) else Inr ())"

definition geoip_char :: "char \<Rightarrow> bool" where
  "geoip_char c \<longleftrightarrow> is_lower c \<or> is_digit c \<or> c = CHR ''.'' \<or> c = CHR ''_'' \<or> c = CHR ''-''"

definition geoip_ok :: "string \<Rightarrow> bool" where
  "geoip_ok value =
     (let v = TrimSpace (TrimPrefix (ToLower (TrimSpace value)) ''geoip:'') in
      v = [] \<or> (list_all geoip_char v \<and> (is_lower (hd v) \<or> is_digit (hd v))))"

definition validateGeoIPCategories :: "string slice \<Rightarrow> bool" where
  "validateGeoIPCategories values = list_all geoip_ok (elems values)"

definition validateNetworks :: "string slice \<Rightarrow> bool" where
  "validateNetworks values =
     list_all (\<lambda>value. let v = ToLower (TrimSpace value) in v = [] \<or> v = ''tcp'' \<or> v = ''udp'') (elems values)"

definition port_spec_ok :: "string \<Rightarrow> bool" where
  "port_spec_ok raw =
     (let value = TrimSpace raw in
      if value = [] then True
      else if ContainsByte value (CHR ''-'') \<or> ContainsByte value (CHR '':'') then
        (let delimiter = (if ContainsByte value (CHR '':'') then CHR '':'' else CHR ''-'') in
         case SplitByte delimiter value of
           [a, b] \<Rightarrow>
             (case ParseInt (TrimSpace a) of
                None \<Rightarrow> False
              | Some start \<Rightarrow>
                  if start < 1 \<or> 65535 < start then False
                  else case ParseInt (TrimSpace b) of
                         None \<Rightarrow> False
                       | Some e \<Rightarrow> \<not> (e < 1 \<or> 65535 < e \<or> e < start))
         | _ \<Rightarrow> False)
      else case ParseInt value of None \<Rightarrow> False | Some port \<Rightarrow> \<not> (port < 1 \<or> 65535 < port))"

definition validatePortSpecs :: "string slice \<Rightarrow> bool" where
  "validatePortSpecs values = list_all port_spec_ok (elems values)"

definition validate_action :: "nat \<Rightarrow> string \<Rightarrow> string list \<Rightarrow> string list option \<Rightarrow> RouteAction \<Rightarrow> verror + unit" where
  "validate_action i kernelType actionSupport availableTags action =
     (let actionType = ToLower (TrimSpace (a_Type action));
          target = TrimSpace (a_Target action) in
      if actionType = [] then Inl (ActionTypeRequired i)
      else if kernelType \<noteq> [] \<and> actionType \<notin> set actionSupport then Inl (ActionTypeUnsupported i (a_Type action))
      else if actionType = ''route'' then
        (if target = [] then Inl (TargetRequired i)
         else case availableTags of
                None \<Rightarrow> Inr ()
              | Some tags \<Rightarrow> if ToLower target \<notin> set tags then Inl (TargetUnknown i (a_Target action)) else Inr ())
      else if actionType = ''direct'' \<or> actionType = ''block'' then
        (if target \<noteq> [] then Inl (TargetNotAllowed i) else Inr ())
      else Inl (ActionTypeUnsupported i (a_Type action)))"

definition validate_rule ::
  "nat \<Rightarrow> string \<Rightarrow> string list \<Rightarrow> string list \<Rightarrow> string list option \<Rightarrow> CustomRouteRule \<Rightarrow> verror + unit" where
  "validate_rule i kernelType matcherSupport actionSupport availableTags rule =
     (let match = cr_Match rule in
      if cr_Disabled rule then Inr ()
      else if \<not> hasRouteMatch match then Inl (MatchRequired i)
      else case ensureRouteMatcherSupported i kernelType matcherSupport match of
        Inl e \<Rightarrow> Inl e
      | Inr _ \<Rightarrow>
          if \<not> validatePortSpecs (m_Ports match) then Inl (PortsInvalid i)
          else if \<not> validatePortSpecs (m_SourcePorts match) then Inl (SourcePortsInvalid i)
          else if \<not> validateNetworks (m_Networks match) then Inl (NetworksInvalid i)
          else if \<not> validateGeoIPCategories (m_GeoIPs match) then Inl (GeoIPsInvalid i)
          else validate_action i kernelType actionSupport availableTags (cr_Action rule))"

fun rule_loop ::
  "string \<Rightarrow> string list \<Rightarrow> string list \<Rightarrow> string list option \<Rightarrow> nat \<Rightarrow> CustomRouteRule list \<Rightarrow> verror + unit" where
  "rule_loop kernelType ms acts tags i [] = Inr ()"
| "rule_loop kernelType ms acts tags i (rule # rest) =
     (case validate_rule i kernelType ms acts tags rule of
        Inl e \<Rightarrow> Inl e
      | Inr _ \<Rightarrow> rule_loop kernelType ms acts tags (Suc i) rest)"

definition ValidateCustomRouteRules ::
  "CustomRouteRule slice \<Rightarrow> string \<Rightarrow> string list option \<Rightarrow> verror + unit" where
  "ValidateCustomRouteRules rules kernelType availableTags =
     (if elems rules = [] then Inr ()
      else
        (let kt = ToLower (TrimSpace kernelType) in
         if kt \<noteq> [] then
           (case RouteSupportMatrix kt of
              None \<Rightarrow> Inl (KernelTypeUnsupported kt)
            | Some (matchers, actions) \<Rightarrow>
                rule_loop kt (map ToLower matchers) (map ToLower actions) availableTags 0 (elems rules))
         else rule_loop kt [] [] availableTags 0 (elems rules)))"

section \<open>Outbound tags of the local kernel configuration\<close>

record outboundTagSource =
  ts_Tag :: string
  ts_Source :: string

datatype file_result = FileMissing | FileError | FileData string

definition index_name :: "string \<Rightarrow> nat \<Rightarrow> string" where
  "index_name pre i = pre @ ''['' @ digits_of i @ '']''"

definition tag_string :: "(string, any) gomap \<Rightarrow> string" where
  "tag_string m = (case map_of m ''tag'' of Some (AnyString s) \<Rightarrow> TrimSpace s | _ \<Rightarrow> [])"

fun tag_sources :: "string \<Rightarrow> nat \<Rightarrow> (string, any) gomap list \<Rightarrow> outboundTagSource list" where
  "tag_sources pre i [] = []"
| "tag_sources pre i (m # ms) =
     (if tag_string m = [] then tag_sources pre (Suc i) ms
      else \<lparr>ts_Tag = tag_string m, ts_Source = index_name pre i\<rparr> # tag_sources pre (Suc i) ms)"

definition collectRawOutboundTagSources :: "any_map list \<Rightarrow> outboundTagSource list" where
  "collectRawOutboundTagSources outbounds = tag_sources ''kernel.custom_outbound'' 0 (map elems outbounds)"

definition toSliceOfMaps :: "any option \<Rightarrow> (string, any) gomap list \<times> bool" where
  "toSliceOfMaps v = (case v of
     Some (AnyList items) \<Rightarrow>
       (let result = concat (map (\<lambda>item. case item of AnyMap m \<Rightarrow> [m] | _ \<Rightarrow> []) items) in (result, result \<noteq> []))
   | _ \<Rightarrow> ([], False))"

definition collectCustomConfigOutboundTagSources ::
  "(string \<Rightarrow> file_result) \<Rightarrow> (bool \<Rightarrow> string \<Rightarrow> (string, any) gomap option) \<Rightarrow> string \<Rightarrow> verror + outboundTagSource list" where
  "collectCustomConfigOutboundTagSources readFile parseDoc path =
     (if TrimSpace path = [] then Inr []
      else case readFile path of
        FileMissing \<Rightarrow> Inr []
      | FileError \<Rightarrow> Inl ConfigUnreadable
      | FileData data \<Rightarrow>
          if TrimSpace data = [] then Inr []
          else
            (let isJSON = HasPrefix (TrimSpace data) ''{'' in
             case parseDoc isJSON data of
               None \<Rightarrow> Inl (if isJSON then ConfigNotJSON else ConfigNotYAML)
             | Some decoded \<Rightarrow>
                 (let (items, ok) = toSliceOfMaps (map_of decoded ''outbounds'') in
                  if \<not> ok then Inr [] else Inr (tag_sources ''kernel.custom_config.outbounds'' 0 items))))"

definition collectAdditionalOutboundTagSources ::
  "(string \<Rightarrow> file_result) \<Rightarrow> (bool \<Rightarrow> string \<Rightarrow> (string, any) gomap option) \<Rightarrow> string \<Rightarrow> any_map list \<Rightarrow>
    verror + outboundTagSource list" where
  "collectAdditionalOutboundTagSources readFile parseDoc path rawOutbounds =
     (let sources = collectRawOutboundTagSources rawOutbounds in
      case collectCustomConfigOutboundTagSources readFile parseDoc path of
        Inl e \<Rightarrow> Inl e
      | Inr customSources \<Rightarrow> Inr (sources @ customSources))"

fun source_collisions :: "outboundTagSource list \<Rightarrow> (string, string) gomap \<Rightarrow> verror + (string, string) gomap" where
  "source_collisions [] seen = Inr seen"
| "source_collisions (source # rest) seen =
     (let key = ToLower (TrimSpace (ts_Tag source)) in
      if key = [] then source_collisions rest seen
      else case map_of seen key of
        Some prev \<Rightarrow> Inl (SourceTagDuplicates (ts_Source source) (ts_Tag source) prev)
      | None \<Rightarrow> source_collisions rest (mput key (ts_Source source) seen))"

fun outbound_collisions :: "nat \<Rightarrow> OutboundConfig list \<Rightarrow> (string, string) gomap \<Rightarrow> verror + unit" where
  "outbound_collisions i [] seen = Inr ()"
| "outbound_collisions i (outbound # rest) seen =
     (let key = ToLower (TrimSpace (ob_Tag outbound)) in
      if key = [] then outbound_collisions (Suc i) rest seen
      else case map_of seen key of
        Some prev \<Rightarrow> Inl (OutboundTagDuplicates i (ob_Tag outbound) prev)
      | None \<Rightarrow> outbound_collisions (Suc i) rest seen)"

definition validateOutboundTagCollisions :: "OutboundConfig slice \<Rightarrow> outboundTagSource list \<Rightarrow> verror + unit" where
  "validateOutboundTagCollisions structured additional =
     (case source_collisions additional [] of
        Inl e \<Rightarrow> Inl e
      | Inr seen \<Rightarrow> outbound_collisions 0 (elems structured) seen)"

definition additionalTagNames :: "outboundTagSource list \<Rightarrow> string list" where
  "additionalTagNames sources = map ts_Tag sources"

section \<open>The node spec\<close>

definition buildAvailableOutboundTags :: "OutboundConfig slice \<Rightarrow> string list \<Rightarrow> string list" where
  "buildAvailableOutboundTags structured rawTags =
     fold add_tag rawTags (fold (\<lambda>outbound. add_tag (ob_Tag outbound)) (elems structured) [''direct'', ''block''])"

fun profile_loop :: "string \<Rightarrow> string list \<Rightarrow> (string \<times> RouteProfile) list \<Rightarrow> verror + unit" where
  "profile_loop kernelType tags [] = Inr ()"
| "profile_loop kernelType tags ((scope, profile) # rest) =
     (case ValidateCustomRouteRules (rp_CustomRouteRules profile) kernelType (Some tags) of
        Inl e \<Rightarrow> Inl (ProfileInvalid scope e)
      | Inr _ \<Rightarrow>
          (let tag = ToLower (TrimSpace (rp_DefaultOutboundTag profile)) in
           if tag \<noteq> [] \<and> tag \<notin> set tags then Inl (ProfileTagUnknown scope (rp_DefaultOutboundTag profile))
           else profile_loop kernelType tags rest))"

definition ValidateNodeSpec ::
  "(string \<Rightarrow> file_result) \<Rightarrow> (bool \<Rightarrow> string \<Rightarrow> (string, any) gomap option) \<Rightarrow>
    NodeSpec option \<Rightarrow> KernelConfig \<Rightarrow> verror + unit" where
  "ValidateNodeSpec readFile parseDoc spec kcfg =
     (case spec of
        None \<Rightarrow> Inr ()
      | Some n \<Rightarrow>
        (let effectiveKernelType =
           (if TrimSpace (kc_Type kcfg) = [] then TrimSpace (n_KernelType n) else TrimSpace (kc_Type kcfg)) in
         case normalizeKernelType effectiveKernelType of
           Inl e \<Rightarrow> Inl e
         | Inr kernelType \<Rightarrow>
        (case collectAdditionalOutboundTagSources readFile parseDoc (kc_CustomConfig kcfg) (kc_CustomOutbound kcfg) of
           Inl e \<Rightarrow> Inl e
         | Inr sources \<Rightarrow>
        (case validateOutboundTagCollisions (n_CustomOutbounds n) sources of
           Inl e \<Rightarrow> Inl e
         | Inr _ \<Rightarrow>
        (let additionalTags = additionalTagNames sources;
             availableTags = buildAvailableOutboundTags (n_CustomOutbounds n) additionalTags in
         case ValidateCustomOutboundsForKernel (n_CustomOutbounds n) kernelType additionalTags of
           Inl e \<Rightarrow> Inl e
         | Inr _ \<Rightarrow>
        (case ValidateCustomRouteRules (n_CustomRouteRules n) kernelType (Some availableTags) of
           Inl e \<Rightarrow> Inl e
         | Inr _ \<Rightarrow>
        (case profile_loop kernelType availableTags (elems (n_RouteProfiles n)) of
           Inl e \<Rightarrow> Inl e
         | Inr _ \<Rightarrow>
        (let defaultTag = ToLower (TrimSpace (n_DefaultOutboundTag n)) in
         if defaultTag \<noteq> [] \<and> defaultTag \<notin> set availableTags then Inl (DefaultTagUnknown (n_DefaultOutboundTag n))
         else validateTransportKernel (n_Network n) kernelType))))))))"

section \<open>What is accepted\<close>

definition settings_ok :: "any_map \<Rightarrow> bool" where
  "settings_ok settings \<longleftrightarrow> elems settings \<noteq> [] \<and>
     (\<forall>key \<in> set reserved_settings. map_of (elems settings) key = None) \<and>
     (\<forall>key \<in> set nonblank_settings. \<forall>v. map_of (elems settings) key = Some v \<longrightarrow> \<not> sprint_blank v) \<and>
     (\<forall>key \<in> {''server_port'', ''serverPort''}. \<forall>v. map_of (elems settings) key = Some v \<longrightarrow> asPort v \<noteq> None)"

definition outbound_ok :: "string \<Rightarrow> string list \<Rightarrow> OutboundConfig \<Rightarrow> bool" where
  "outbound_ok k allowed ob \<longleftrightarrow> TrimSpace (ob_Tag ob) \<noteq> [] \<and> tagkey (ob_Protocol ob) \<noteq> [] \<and>
     (k \<noteq> [] \<longrightarrow> tagkey (ob_Protocol ob) \<in> set allowed) \<and> settings_ok (ob_Settings ob)"

definition proxy_ok :: "string set \<Rightarrow> OutboundConfig \<Rightarrow> bool" where
  "proxy_ok tags ob \<longleftrightarrow> ob_ProxyTag ob = [] \<or>
     tagkey (ob_ProxyTag ob) \<noteq> [] \<and> tagkey (ob_ProxyTag ob) \<noteq> tagkey (ob_Tag ob) \<and> tagkey (ob_ProxyTag ob) \<in> tags"

lemma validateOutboundSettings_iff: "validateOutboundSettings i s = Inr () \<longleftrightarrow> settings_ok s"
proof -
  have r: "find (\<lambda>key. map_of (elems s) key \<noteq> None) reserved_settings = None \<longleftrightarrow>
      (\<forall>key \<in> set reserved_settings. map_of (elems s) key = None)"
    by (auto simp: find_None_iff)
  have b: "find (\<lambda>key. case map_of (elems s) key of None \<Rightarrow> False | Some v \<Rightarrow> sprint_blank v) nonblank_settings = None \<longleftrightarrow>
      (\<forall>key \<in> set nonblank_settings. \<forall>v. map_of (elems s) key = Some v \<longrightarrow> \<not> sprint_blank v)"
    by (auto simp: find_None_iff split: option.splits)
  have p: "\<not> (case map_of (elems s) key of None \<Rightarrow> False | Some v \<Rightarrow> asPort v = None) \<longleftrightarrow>
      (\<forall>v. map_of (elems s) key = Some v \<longrightarrow> asPort v \<noteq> None)" for key
    by (simp split: option.split)
  show ?thesis
    unfolding settings_ok_def r [symmetric] b [symmetric] p [symmetric]
    by (auto simp: validateOutboundSettings_def Let_def split: option.split)
qed

lemma Inr_unit: "(x :: 'e + unit) = Inr u \<longleftrightarrow> x = Inr ()"
  by (cases u) simp

lemma settings_case:
  "(case validateOutboundSettings i s of Inl e \<Rightarrow> Inl e | Inr _ \<Rightarrow> f) = Inr a \<longleftrightarrow> settings_ok s \<and> f = Inr a"
  using validateOutboundSettings_iff [of i s] by (cases "validateOutboundSettings i s") auto

lemma outbound_loop_iff:
  "outbound_loop k allowed i obs seen avail = Inr tags \<longleftrightarrow>
     (\<forall>ob \<in> set obs. outbound_ok k allowed ob) \<and> distinct (map (tagkey \<circ> ob_Tag) obs) \<and>
     (\<forall>ob \<in> set obs. tagkey (ob_Tag ob) \<notin> set seen) \<and> tags = rev (map (tagkey \<circ> ob_Tag) obs) @ avail"
proof (induction obs arbitrary: i seen avail)
  case Nil
  show ?case by auto
next
  case (Cons ob obs)
  have "outbound_loop k allowed i (ob # obs) seen avail = Inr tags \<longleftrightarrow>
      outbound_ok k allowed ob \<and> tagkey (ob_Tag ob) \<notin> set seen \<and>
      outbound_loop k allowed (Suc i) obs (tagkey (ob_Tag ob) # seen) (tagkey (ob_Tag ob) # avail) = Inr tags"
    by (auto simp: Let_def settings_case outbound_ok_def tagkey_def)
  moreover have "tagkey (ob_Tag ob) \<notin> set (map (tagkey \<circ> ob_Tag) obs) \<longleftrightarrow>
      (\<forall>ob' \<in> set obs. tagkey (ob_Tag ob') \<noteq> tagkey (ob_Tag ob))"
    by (auto simp: image_iff)
  ultimately show ?case
    unfolding Cons.IH list.map distinct.simps comp_apply [of tagkey ob_Tag ob] rev.simps append_assoc append.simps
      set_simps ball_simps ball_conj_distrib insert_iff de_Morgan_disj by blast
qed

lemma proxy_loop_iff: "proxy_loop avail i obs = Inr () \<longleftrightarrow> (\<forall>ob \<in> set obs. proxy_ok (set avail) ob)"
  by (induction obs arbitrary: i) (auto simp: Let_def proxy_ok_def tagkey_def)

definition tagset :: "string list \<Rightarrow> string set" where
  "tagset tags = {tagkey t | t. t \<in> set tags \<and> tagkey t \<noteq> []}"

lemma set_fold_add_tag: "set (fold add_tag tags acc) = set acc \<union> tagset tags"
  by (induction tags arbitrary: acc) (auto simp: add_tag_def tagset_def Let_def)

lemma tagset_append: "tagset (xs @ ys) = tagset xs \<union> tagset ys"
  by (auto simp: tagset_def)

definition known_tags :: "OutboundConfig list \<Rightarrow> string list \<Rightarrow> string set" where
  "known_tags obs extra = {''direct'', ''block''} \<union> tagset (map ob_Tag obs) \<union> tagset extra"

lemma set_buildAvailableOutboundTags: "set (buildAvailableOutboundTags obs extra) = known_tags (elems obs) extra"
proof -
  have e: "fold (\<lambda>outbound. add_tag (ob_Tag outbound)) xs acc = fold add_tag (map ob_Tag xs) acc" for xs acc
    by (simp add: fold_map comp_def)
  show ?thesis unfolding buildAvailableOutboundTags_def e set_fold_add_tag known_tags_def by auto
qed

lemma tagkey_nonblank: "tagkey t \<noteq> [] \<longleftrightarrow> TrimSpace t \<noteq> []"
  by (simp add: tagkey_def ToLower_def)

definition outbounds_ok :: "string \<Rightarrow> string list \<Rightarrow> OutboundConfig list \<Rightarrow> bool" where
  "outbounds_ok k extra obs \<longleftrightarrow>
     (\<forall>ob \<in> set obs. outbound_ok k (map ToLower (the (OutboundSupportMatrix k))) ob \<and> proxy_ok (known_tags obs extra) ob) \<and>
     distinct (map (tagkey \<circ> ob_Tag) obs)"

lemma kernel_key: "k = ''singbox'' \<or> k = ''xray'' \<Longrightarrow> ToLower (TrimSpace k) = k \<and> k \<noteq> [] \<and>
   OutboundSupportMatrix k \<noteq> None \<and> RouteSupportMatrix k \<noteq> None"
proof -
  have "ToLower (TrimSpace ''singbox'') = ''singbox''" and "ToLower (TrimSpace ''xray'') = ''xray''" by code_simp+
  moreover assume "k = ''singbox'' \<or> k = ''xray''"
  ultimately show ?thesis by (auto simp: OutboundSupportMatrix_def RouteSupportMatrix_def)
qed

lemma ValidateCustomOutboundsForKernel_iff:
  assumes "k = ''singbox'' \<or> k = ''xray''"
  shows "ValidateCustomOutboundsForKernel obs k extra = Inr () \<longleftrightarrow> outbounds_ok k extra (elems obs)"
proof (cases "elems obs = []")
  case True
  then show ?thesis by (simp add: ValidateCustomOutboundsForKernel_def outbounds_ok_def)
next
  case False
  obtain ps where ps: "OutboundSupportMatrix k = Some ps" using kernel_key [OF assms] by auto
  let ?init = "fold add_tag extra [''block'', ''direct'']"
  let ?r = "outbound_loop k (map ToLower ps) 0 (elems obs) [] ?init"
  have e: "ValidateCustomOutboundsForKernel obs k extra =
      (case ?r of Inl e \<Rightarrow> Inl e | Inr avail \<Rightarrow> proxy_loop avail 0 (elems obs))"
    using False kernel_key [OF assms] by (simp add: ValidateCustomOutboundsForKernel_def Let_def ps)
  have tags: "set (rev (map (tagkey \<circ> ob_Tag) (elems obs)) @ ?init) = known_tags (elems obs) extra"
    if "\<forall>ob \<in> set (elems obs). outbound_ok k (map ToLower ps) ob"
    using that by (auto simp: set_fold_add_tag known_tags_def tagset_def outbound_ok_def tagkey_nonblank)
  show ?thesis
  proof
    assume "ValidateCustomOutboundsForKernel obs k extra = Inr ()"
    then obtain av where av: "?r = Inr av" and pr: "proxy_loop av 0 (elems obs) = Inr ()"
      unfolding e by (auto split: sum.splits)
    show "outbounds_ok k extra (elems obs)"
      using av [unfolded outbound_loop_iff] pr [unfolded proxy_loop_iff] tags
      by (auto simp: outbounds_ok_def ps)
  next
    assume "outbounds_ok k extra (elems obs)"
    then have "?r = Inr (rev (map (tagkey \<circ> ob_Tag) (elems obs)) @ ?init)"
      and "proxy_loop (rev (map (tagkey \<circ> ob_Tag) (elems obs)) @ ?init) 0 (elems obs) = Inr ()"
      unfolding outbound_loop_iff proxy_loop_iff using tags by (auto simp: outbounds_ok_def ps)
    then show "ValidateCustomOutboundsForKernel obs k extra = Inr ()" unfolding e by simp
  qed
qed

text \<open>A route rule is acceptable for a kernel when it is disabled, or matches something the kernel can
  match and acts on a known outbound.\<close>

definition action_ok :: "string set \<Rightarrow> RouteAction \<Rightarrow> bool" where
  "action_ok tags act \<longleftrightarrow>
     tagkey (a_Type act) = ''route'' \<and> TrimSpace (a_Target act) \<noteq> [] \<and> tagkey (a_Target act) \<in> tags \<or>
     tagkey (a_Type act) \<in> {''direct'', ''block''} \<and> TrimSpace (a_Target act) = []"

definition rule_ok :: "string \<Rightarrow> string set \<Rightarrow> CustomRouteRule \<Rightarrow> bool" where
  "rule_ok k tags r \<longleftrightarrow> cr_Disabled r \<or>
     hasRouteMatch (cr_Match r) \<and> (k = ''singbox'' \<longrightarrow> \<not> hasAnyNonBlank (m_GeoIPs (cr_Match r))) \<and>
     validatePortSpecs (m_Ports (cr_Match r)) \<and> validatePortSpecs (m_SourcePorts (cr_Match r)) \<and>
     validateNetworks (m_Networks (cr_Match r)) \<and> validateGeoIPCategories (m_GeoIPs (cr_Match r)) \<and>
     action_ok tags (cr_Action r)"

lemma support_lower:
  "map ToLower [''block'', ''direct'', ''route''] = [''block'', ''direct'', ''route'']"
  "map ToLower [''domains'', ''domain_suffixes'', ''geo_ips'', ''ip_cidrs'', ''ports'', ''networks'',
     ''source_cidrs'', ''source_ports''] = [''domains'', ''domain_suffixes'', ''geo_ips'', ''ip_cidrs'', ''ports'',
     ''networks'', ''source_cidrs'', ''source_ports'']"
  "map ToLower [''domains'', ''domain_suffixes'', ''ip_cidrs'', ''ports'', ''networks'', ''source_cidrs'', ''source_ports''] =
     [''domains'', ''domain_suffixes'', ''ip_cidrs'', ''ports'', ''networks'', ''source_cidrs'', ''source_ports'']"
  by code_simp+

lemma validate_action_iff:
  "validate_action i k [''block'', ''direct'', ''route''] (Some tags) act = Inr () \<longleftrightarrow> action_ok (set tags) act"
  by (auto simp: validate_action_def Let_def action_ok_def tagkey_def)

lemma ensureRouteMatcherSupported_iff:
  assumes "k = ''singbox'' \<or> k = ''xray''" and "RouteSupportMatrix k = Some (ms, acts)"
  shows "ensureRouteMatcherSupported i k (map ToLower ms) match = Inr () \<longleftrightarrow>
    (k = ''singbox'' \<longrightarrow> \<not> hasAnyNonBlank (m_GeoIPs match))"
  using assms(1)
proof
  assume k: "k = ''singbox''"
  then have "ms = [''domains'', ''domain_suffixes'', ''ip_cidrs'', ''ports'', ''networks'', ''source_cidrs'', ''source_ports'']"
    using assms(2) by (simp add: RouteSupportMatrix_def)
  then have "map ToLower ms = [''domains'', ''domain_suffixes'', ''ip_cidrs'', ''ports'', ''networks'', ''source_cidrs'', ''source_ports'']"
    by (simp only: support_lower)
  then show ?thesis by (simp add: ensureRouteMatcherSupported_def matcher_checks_def k)
next
  assume k: "k = ''xray''"
  then have "ms = [''domains'', ''domain_suffixes'', ''geo_ips'', ''ip_cidrs'', ''ports'', ''networks'',
     ''source_cidrs'', ''source_ports'']"
    using assms(2) by (simp add: RouteSupportMatrix_def)
  then have "map ToLower ms = [''domains'', ''domain_suffixes'', ''geo_ips'', ''ip_cidrs'', ''ports'', ''networks'',
     ''source_cidrs'', ''source_ports'']"
    by (simp only: support_lower)
  then show ?thesis by (simp add: ensureRouteMatcherSupported_def matcher_checks_def k)
qed

lemma validate_rule_iff:
  assumes "k = ''singbox'' \<or> k = ''xray''" and "RouteSupportMatrix k = Some (ms, acts)"
  shows "validate_rule i k (map ToLower ms) (map ToLower acts) (Some tags) r = Inr () \<longleftrightarrow> rule_ok k (set tags) r"
proof -
  have "acts = [''block'', ''direct'', ''route'']"
    using assms by (auto simp: RouteSupportMatrix_def)
  then have acts: "map ToLower acts = [''block'', ''direct'', ''route'']" by (simp only: support_lower)
  have m: "(case ensureRouteMatcherSupported i k (map ToLower ms) (cr_Match r) of Inl e \<Rightarrow> Inl e | Inr _ \<Rightarrow> f) = Inr () \<longleftrightarrow>
      (k = ''singbox'' \<longrightarrow> \<not> hasAnyNonBlank (m_GeoIPs (cr_Match r))) \<and> f = Inr ()" for f :: "verror + unit"
    unfolding ensureRouteMatcherSupported_iff [OF assms, of i, symmetric]
    by (cases "ensureRouteMatcherSupported i k (map ToLower ms) (cr_Match r)") auto
  show ?thesis
    unfolding validate_rule_def Let_def rule_ok_def acts validate_action_iff [of i k, symmetric]
    using m by (cases "cr_Disabled r"; cases "hasRouteMatch (cr_Match r)") (simp_all split: if_split)
qed

lemma rule_loop_iff:
  assumes "k = ''singbox'' \<or> k = ''xray''" and "RouteSupportMatrix k = Some (ms, acts)"
  shows "rule_loop k (map ToLower ms) (map ToLower acts) (Some tags) i rules = Inr () \<longleftrightarrow>
    (\<forall>r \<in> set rules. rule_ok k (set tags) r)"
proof (induction rules arbitrary: i)
  case (Cons r rules)
  then show ?case
    using validate_rule_iff [OF assms, of i tags r]
    by (cases "validate_rule i k (map ToLower ms) (map ToLower acts) (Some tags) r") auto
qed simp

lemma ValidateCustomRouteRules_iff:
  assumes "k = ''singbox'' \<or> k = ''xray''"
  shows "ValidateCustomRouteRules rules k (Some tags) = Inr () \<longleftrightarrow> (\<forall>r \<in> set (elems rules). rule_ok k (set tags) r)"
proof -
  obtain ms acts where sm: "RouteSupportMatrix k = Some (ms, acts)" using kernel_key [OF assms] by auto
  show ?thesis
    using kernel_key [OF assms] rule_loop_iff [OF assms sm]
    by (auto simp: ValidateCustomRouteRules_def Let_def sm)
qed

definition profile_ok :: "string \<Rightarrow> string set \<Rightarrow> RouteProfile \<Rightarrow> bool" where
  "profile_ok k tags p \<longleftrightarrow> (\<forall>r \<in> set (elems (rp_CustomRouteRules p)). rule_ok k tags r) \<and>
     (tagkey (rp_DefaultOutboundTag p) = [] \<or> tagkey (rp_DefaultOutboundTag p) \<in> tags)"

lemma profile_loop_iff:
  assumes "k = ''singbox'' \<or> k = ''xray''"
  shows "profile_loop k tags ps = Inr () \<longleftrightarrow> (\<forall>p \<in> snd ` set ps. profile_ok k (set tags) p)"
proof (induction ps)
  case (Cons sp ps)
  obtain scope p where sp: "sp = (scope, p)" by (rule prod.exhaust)
  have "(case ValidateCustomRouteRules (rp_CustomRouteRules p) k (Some tags) of
      Inl e \<Rightarrow> Inl (ProfileInvalid scope e) | Inr _ \<Rightarrow> f) = Inr () \<longleftrightarrow>
      (\<forall>r \<in> set (elems (rp_CustomRouteRules p)). rule_ok k (set tags) r) \<and> f = Inr ()" for f :: "verror + unit"
    unfolding ValidateCustomRouteRules_iff [OF assms, of _ tags, symmetric]
    by (cases "ValidateCustomRouteRules (rp_CustomRouteRules p) k (Some tags)") auto
  then show ?case
    using Cons.IH by (auto simp: sp Let_def profile_ok_def tagkey_def)
qed simp

lemma source_collisions_step:
  "tagkey (ts_Tag s) = [] \<Longrightarrow> source_collisions (s # ss) seen = source_collisions ss seen"
  "tagkey (ts_Tag s) \<noteq> [] \<Longrightarrow> tagkey (ts_Tag s) \<in> fst ` set seen \<Longrightarrow> source_collisions (s # ss) seen \<noteq> Inr r"
  "tagkey (ts_Tag s) \<noteq> [] \<Longrightarrow> tagkey (ts_Tag s) \<notin> fst ` set seen \<Longrightarrow>
     source_collisions (s # ss) seen = source_collisions ss (mput (tagkey (ts_Tag s)) (ts_Source s) seen)"
  using map_of_eq_None_iff [of seen "tagkey (ts_Tag s)"]
  by (auto simp: tagkey_def Let_def split: option.split)

lemma tagset_Cons: "tagset (t # ts) = (if tagkey t = [] then {} else {tagkey t}) \<union> tagset ts"
  by (auto simp: tagset_def)

definition source_tags :: "outboundTagSource list \<Rightarrow> string list" where
  "source_tags ss = filter (\<lambda>t. t \<noteq> []) (map (tagkey \<circ> ts_Tag) ss)"

lemma set_source_tags: "set (source_tags ss) = tagset (map ts_Tag ss)"
  by (auto simp: source_tags_def tagset_def)

lemma source_collisions_iff:
  "(\<exists>seen'. source_collisions ss seen = Inr seen') \<longleftrightarrow>
     distinct (source_tags ss) \<and> set (source_tags ss) \<inter> fst ` set seen = {}"
proof (induction ss arbitrary: seen)
  case Nil
  show ?case by (simp add: source_tags_def)
next
  case (Cons s ss)
  let ?k = "tagkey (ts_Tag s)"
  consider (blank) "?k = []" | (dup) "?k \<noteq> []" "?k \<in> fst ` set seen" | (new) "?k \<noteq> []" "?k \<notin> fst ` set seen" by blast
  then show ?case
  proof cases
    case blank
    then show ?thesis using Cons.IH [of seen] by (simp add: source_collisions_step(1) source_tags_def del: source_collisions.simps)
  next
    case dup
    then show ?thesis using source_collisions_step(2) [of s seen ss] by (auto simp: source_tags_def)
  next
    case new
    have "source_tags (s # ss) = ?k # source_tags ss" using new by (simp add: source_tags_def)
    then show ?thesis
      using Cons.IH [of "mput ?k (ts_Source s) seen"] new
      unfolding source_collisions_step(3) [OF new] by (simp add: dom_update) blast
  qed
qed

lemma source_collisions_dom:
  "source_collisions ss seen = Inr seen' \<Longrightarrow> fst ` set seen' = fst ` set seen \<union> set (source_tags ss)"
proof (induction ss arbitrary: seen)
  case Nil
  then show ?case by (simp add: source_tags_def)
next
  case (Cons s ss)
  let ?k = "tagkey (ts_Tag s)"
  consider (blank) "?k = []" | (dup) "?k \<noteq> []" "?k \<in> fst ` set seen" | (new) "?k \<noteq> []" "?k \<notin> fst ` set seen" by blast
  then show ?case
  proof cases
    case blank
    then show ?thesis using Cons by (simp add: source_collisions_step(1) source_tags_def del: source_collisions.simps)
  next
    case dup
    then show ?thesis using Cons.prems source_collisions_step(2) [OF dup] by blast
  next
    case new
    have "source_tags (s # ss) = ?k # source_tags ss" using new by (simp add: source_tags_def)
    then show ?thesis
      using Cons.IH [of "mput ?k (ts_Source s) seen"] Cons.prems
      unfolding source_collisions_step(3) [OF new] by (auto simp: dom_update)
  qed
qed

lemma outbound_collisions_iff:
  "outbound_collisions i obs seen = Inr () \<longleftrightarrow> tagset (map ob_Tag obs) \<inter> fst ` set seen = {}"
proof (induction obs arbitrary: i)
  case Nil
  show ?case by (simp add: tagset_def)
next
  case (Cons ob obs)
  show ?case
    using Cons.IH [of "Suc i"] map_of_eq_None_iff [of seen "tagkey (ob_Tag ob)"]
    by (cases "map_of seen (tagkey (ob_Tag ob))") (auto simp: Let_def tagset_Cons tagkey_def)
qed

text \<open>The tags of all sources and of all outbounds are different.\<close>

definition tags_disjoint :: "outboundTagSource list \<Rightarrow> OutboundConfig list \<Rightarrow> bool" where
  "tags_disjoint ss obs \<longleftrightarrow> distinct (source_tags ss) \<and> tagset (map ob_Tag obs) \<inter> set (source_tags ss) = {}"

lemma validateOutboundTagCollisions_iff:
  "validateOutboundTagCollisions obs ss = Inr () \<longleftrightarrow> tags_disjoint ss (elems obs)"
proof (cases "source_collisions ss []")
  case (Inl e)
  then have "\<not> distinct (source_tags ss)" using source_collisions_iff [of ss "[]"] by simp
  then show ?thesis by (simp add: validateOutboundTagCollisions_def Inl tags_disjoint_def)
next
  case (Inr seen)
  then have "distinct (source_tags ss)" using source_collisions_iff [of ss "[]"] by simp
  then show ?thesis
    using source_collisions_dom [OF Inr]
    by (simp add: validateOutboundTagCollisions_def Inr tags_disjoint_def outbound_collisions_iff)
qed

section \<open>Properties\<close>

definition node_ok :: "string \<Rightarrow> outboundTagSource list \<Rightarrow> NodeSpec \<Rightarrow> bool" where
  "node_ok k sources n \<longleftrightarrow>
     (let obs = elems (n_CustomOutbounds n); tags = known_tags obs (map ts_Tag sources) in
      tags_disjoint sources obs \<and> outbounds_ok k (map ts_Tag sources) obs \<and>
      (\<forall>r \<in> set (elems (n_CustomRouteRules n)). rule_ok k tags r) \<and>
      (\<forall>p \<in> snd ` set (elems (n_RouteProfiles n)). profile_ok k tags p) \<and>
      (tagkey (n_DefaultOutboundTag n) = [] \<or> tagkey (n_DefaultOutboundTag n) \<in> tags) \<and>
      \<not> (k = ''singbox'' \<and> tagkey (n_Network n) \<in> {''xhttp'', ''splithttp''}))"

definition effective_kernel :: "KernelConfig \<Rightarrow> NodeSpec \<Rightarrow> string" where
  "effective_kernel kcfg n =
     (if TrimSpace (kc_Type kcfg) = [] then TrimSpace (n_KernelType n) else TrimSpace (kc_Type kcfg))"

lemma normalizeKernelType_result: "normalizeKernelType v = Inr k \<Longrightarrow> k = ''singbox'' \<or> k = ''xray''"
  by (auto simp: normalizeKernelType_def Let_def split: if_splits)

lemma case_Inr_iff: "(case x of Inl e \<Rightarrow> Inl e | Inr v \<Rightarrow> f v) = Inr b \<longleftrightarrow> (\<exists>v. x = Inr v \<and> f v = Inr b)"
  by (cases x) auto

lemma ex_unit: "(\<exists>u :: unit. P u) \<longleftrightarrow> P ()"
  by auto

lemma if_Inl_iff: "(if c then Inl e else f) = Inr b \<longleftrightarrow> \<not> c \<and> f = Inr b"
  by simp

lemma ValidateNodeSpec_node_ok:
  "ValidateNodeSpec readFile parseDoc (Some n) kcfg = Inr () \<longleftrightarrow>
     (\<exists>k sources. normalizeKernelType (effective_kernel kcfg n) = Inr k \<and>
        collectAdditionalOutboundTagSources readFile parseDoc (kc_CustomConfig kcfg) (kc_CustomOutbound kcfg) = Inr sources \<and>
        node_ok k sources n)"
proof -
  let ?obs = "n_CustomOutbounds n"
  have body: "(validateOutboundTagCollisions ?obs ss = Inr () \<and>
      ValidateCustomOutboundsForKernel ?obs k (map ts_Tag ss) = Inr () \<and>
      ValidateCustomRouteRules (n_CustomRouteRules n) k (Some (buildAvailableOutboundTags ?obs (map ts_Tag ss))) = Inr () \<and>
      profile_loop k (buildAvailableOutboundTags ?obs (map ts_Tag ss)) (elems (n_RouteProfiles n)) = Inr () \<and>
      \<not> (tagkey (n_DefaultOutboundTag n) \<noteq> [] \<and>
        tagkey (n_DefaultOutboundTag n) \<notin> set (buildAvailableOutboundTags ?obs (map ts_Tag ss))) \<and>
      validateTransportKernel (n_Network n) k = Inr ()) \<longleftrightarrow> node_ok k ss n"
    if "normalizeKernelType t = Inr k" for t k ss
  proof -
    note k = normalizeKernelType_result [OF that]
    have t: "validateTransportKernel (n_Network n) k = Inr () \<longleftrightarrow>
        \<not> (k = ''singbox'' \<and> tagkey (n_Network n) \<in> {''xhttp'', ''splithttp''})"
      by (simp add: validateTransportKernel_def Let_def singboxUnsupportedTransports_def tagkey_def)
    show ?thesis
      unfolding validateOutboundTagCollisions_iff ValidateCustomOutboundsForKernel_iff [OF k]
        ValidateCustomRouteRules_iff [OF k] profile_loop_iff [OF k] set_buildAvailableOutboundTags t node_ok_def Let_def
      by blast
  qed
  show ?thesis
    unfolding ValidateNodeSpec_def option.case Let_def additionalTagNames_def effective_kernel_def [symmetric]
      tagkey_def [symmetric]
    unfolding case_Inr_iff if_Inl_iff ex_unit
    using body by (metis (no_types, lifting))
qed

text \<open>
  C35. A node spec passes validation exactly when its kernel type is known, the outbound tags of the
  local configuration can be read, and it is well formed for that kernel: all outbound tags differ
  (ignoring case and surrounding space), every outbound has a protocol the kernel supports and usable
  settings, every proxy tag, rule target and default tag names a known outbound (no outbound proxies
  through itself), every enabled rule matches something with valid ports, networks and categories the
  kernel can match, and the transport is one the kernel has.
\<close>

theorem ValidateNodeSpec_iff:
  "ValidateNodeSpec readFile parseDoc (Some n) kcfg = Inr () \<longleftrightarrow>
     (\<exists>k sources. normalizeKernelType (effective_kernel kcfg n) = Inr k \<and>
        collectAdditionalOutboundTagSources readFile parseDoc (kc_CustomConfig kcfg) (kc_CustomOutbound kcfg) = Inr sources \<and>
        node_ok k sources n)"
  by (rule ValidateNodeSpec_node_ok)

text \<open>A string that begins and ends with a digit has nothing to trim.\<close>

lemma TrimSpace_digit_ends:
  assumes "is_digit c" and "s = c # cs" and "is_digit (last s)"
  shows "TrimSpace s = s"
proof -
  have 1: "strip space_runes s = s" using assms by (simp add: strip_fix lead_space_digit)
  obtain es where "rev s = last s # es" using assms(2) by (metis list.distinct(1) rev.simps(2) rev_append rev_rev_ident append_butlast_last_id)
  with assms(3) have "lead (map rev space_runes) (rev s) = 0" by (metis lead_rev_space_digit)
  then have "strip (map rev space_runes) (rev s) = rev s" by (rule strip_fix)
  with 1 show ?thesis by (simp add: TrimSpace_def)
qed

lemma SplitByte_none: "c \<notin> set s \<Longrightarrow> SplitByte c s = [s]"
  by (induction s) auto

lemma SplitByte_one: "c \<notin> set a \<Longrightarrow> c \<notin> set b \<Longrightarrow> SplitByte c (a @ c # b) = [a, b]"
  by (induction a) (auto simp: SplitByte_none)

lemma digits_of_no_sep: "CHR ''-'' \<notin> set (digits_of n)" "CHR '':'' \<notin> set (digits_of n)"
  using digits_of_digits [of "CHR ''-''" n] digits_of_digits [of "CHR '':''" n] by (auto simp: is_digit_def)

lemma digits_of_Cons: "\<exists>c cs. digits_of n = c # cs \<and> is_digit c"
  using digits_of_digits [of _ n] digits_of_ne [of n] by (metis list.exhaust list.set_intros(1))

lemma range_trim:
  assumes "\<not> is_digit sep"
  shows "TrimSpace (digits_of a @ sep # digits_of b) = digits_of a @ sep # digits_of b"
proof -
  obtain c cs where c: "digits_of a = c # cs" "is_digit c" using digits_of_Cons by blast
  have "is_digit (last (digits_of b))" using digits_of_digits [of _ b] by (meson digits_of_ne last_in_set)
  then show ?thesis using c by (intro TrimSpace_digit_ends [of c]) auto
qed

text \<open>
  A port specification is accepted exactly when it is in range: a printed number when it is
  between 1 and 65535, and two printed numbers with a dash or a colon between them when they are
  in that range and in order.
\<close>

lemma port_spec_exact:
  assumes "n < 2 ^ 63" and "a < 2 ^ 63" and "b < 2 ^ 63" and "sep = CHR ''-'' \<or> sep = CHR '':''"
  shows "(port_spec_ok (digits_of n) \<longleftrightarrow> 1 \<le> n \<and> n \<le> 65535) \<and>
    (port_spec_ok (digits_of a @ sep # digits_of b) \<longleftrightarrow> 1 \<le> a \<and> a \<le> b \<and> b \<le> 65535)"
proof -
  have p: "ParseInt (digits_of m) = Some (int m)" if "m < 2 ^ 63" for m
    using that ParseInt_digits_of [of m] by (metis of_nat_less_iff of_nat_numeral of_nat_power)
  have ne: "digits_of m \<noteq> []" for m by simp
  have "port_spec_ok (digits_of n) \<longleftrightarrow> 1 \<le> n \<and> n \<le> 65535"
    using p [OF assms(1)] digits_of_no_sep [of n]
    by (auto simp: port_spec_ok_def Let_def TrimSpace_digits_of ContainsByte_def)
  moreover have nd: "\<not> is_digit sep" using assms(4) by (auto simp: is_digit_def)
  have "SplitByte sep (digits_of a @ sep # digits_of b) = [digits_of a, digits_of b]"
    using assms(4) digits_of_no_sep by (intro SplitByte_one) auto
  then have "port_spec_ok (digits_of a @ sep # digits_of b) \<longleftrightarrow> 1 \<le> a \<and> a \<le> b \<and> b \<le> 65535"
    using p [OF assms(2)] p [OF assms(3)] assms(4) digits_of_no_sep [of a] digits_of_no_sep [of b]
    by (auto simp: port_spec_ok_def Let_def range_trim [OF nd] TrimSpace_digits_of ContainsByte_def)
  ultimately show ?thesis by blast
qed

theorem port_spec_exact_witness:
  "port_spec_ok ''443'' \<and> \<not> port_spec_ok ''8080-80''"
proof -
  have "digits_of 443 = ''443''" and "digits_of 8080 = ''8080''" and "digits_of 80 = ''80''"
    by (simp_all add: digits_of.simps char_of_def bit_Suc_0_iff)
  then show ?thesis
    using port_spec_exact [of 443 8080 80 "CHR ''-''"] by simp
qed

text \<open>
  Choosing the kernel for a transport settles the transport check: the kernel chosen can carry
  the transport, the configured one is kept whenever it can, and choosing again changes nothing.
\<close>

lemma ResolveKernelForTransport_valid:
  "validateTransportKernel net (ResolveKernelForTransport net k) = Inr () \<and>
   (validateTransportKernel net k = Inr () \<longleftrightarrow> ResolveKernelForTransport net k = k) \<and>
   ResolveKernelForTransport net (ResolveKernelForTransport net k) = ResolveKernelForTransport net k"
  by (simp add: validateTransportKernel_def ResolveKernelForTransport_def Let_def)

end
