(* ===== verification/Limiter.thy ===== *)
theory Limiter
  imports Model
begin

text \<open>
  Per-user limits: \<^verbatim>\<open>internal/limiter/limiter.go\<close> (device limits, removed users) and
  \<^verbatim>\<open>internal/limiter/speedtracker.go\<close> (one shared token bucket per user).

  Buckets are shared by pointer with the connections that use them, so they live in a store
  (\<open>st_heap\<close>, a pointer is an index) and \<open>UpdateBuckets\<close> writes through the pointer. Of a token
  bucket (\<^verbatim>\<open>golang.org/x/time/rate\<close>) the model keeps what this code sets: its rate and its burst.
  The locks make every operation atomic, \<open>GetLimiter\<close> apart, which releases the lock between its
  look-up and its insertion; the two halves are \<open>GetLimiter_lookup\<close> and \<open>GetLimiter_insert\<close>, and the
  states below are reached with any insertion at any moment (\<open>lim_insert\<close>), whatever record its look-up
  had found. \<open>GetLimiter\<close> is a call that nothing interrupts. Logging is left out.
\<close>

section \<open>limiter.go\<close>

record Limiter =
  lm_users :: "(int, UserSpec) gomap"
  lm_uuidDeviceLimit :: "(string, int) gomap"
  lm_deviceLimitEvents :: "64 word"

definition Limiter_New :: Limiter where
  "Limiter_New = \<lparr>lm_users = [], lm_uuidDeviceLimit = [], lm_deviceLimitEvents = 0\<rparr>"

definition UpdateUsers ::
    "((int \<times> UserSpec) list \<Rightarrow> (int \<times> UserSpec) list) \<Rightarrow> Limiter \<Rightarrow> UserSpec list \<Rightarrow> int list \<times> Limiter" where
  "UpdateUsers rng l users =
     (let newUsers = mbuild ID (\<lambda>u. u) users;
          removed = map fst (filter (\<lambda>(k, u). \<not> mhas newUsers k) (lm_users l));
          idx = fold (\<lambda>(k, u) m. if 0 < DeviceLimit u then mput (UUID u) (DeviceLimit u) m else m)
                  (rng newUsers) []
      in (removed, l\<lparr>lm_users := newUsers, lm_uuidDeviceLimit := idx\<rparr>))"

definition SnapshotMetrics :: "Limiter \<Rightarrow> 64 word" where
  "SnapshotMetrics l = lm_deviceLimitEvents l"

definition GetDeviceLimitByUUID :: "Limiter \<Rightarrow> string \<Rightarrow> int option" where
  "GetDeviceLimitByUUID l uuid = map_of (lm_uuidDeviceLimit l) uuid"

section \<open>speedtracker.go\<close>

record bucket =
  bk_rate :: int
  bk_burst :: int

record SpeedTracker =
  st_buckets :: "(int, nat) gomap"
  st_heap :: "bucket list"
  st_uuidMap :: "(string, int) gomap"
  st_hasLimits :: bool

definition NewSpeedTracker :: SpeedTracker where
  "NewSpeedTracker = \<lparr>st_buckets = [], st_heap = [], st_uuidMap = [], st_hasLimits = False\<rparr>"

definition bytesPerSec :: "UserSpec \<Rightarrow> int" where
  "bytesPerSec u = i64 (SpeedLimit u * 1000000) sdiv 8"

definition update_bucket :: "UserSpec \<Rightarrow> bucket" where
  "update_bucket u =
     (let bps = bytesPerSec u; burst = (if bps < 64 * 1024 then 64 * 1024 else bps)
      in \<lparr>bk_rate = bps, bk_burst = burst\<rparr>)"

definition new_bucket :: "UserSpec \<Rightarrow> bucket" where
  "new_bucket u =
     (let bps = bytesPerSec u; burst = (if bps < 64 * 1024 then 64 * 1024 else bps); cap4s = i64 (bps * 4)
      in \<lparr>bk_rate = bps, bk_burst = (if 64 * 1024 < cap4s \<and> cap4s < burst then cap4s else burst)\<rparr>)"

text \<open>One iteration of the loop over the users: buckets, store, UUID map and active IDs.\<close>

fun bucket_step ::
    "UserSpec \<Rightarrow> (int, nat) gomap \<times> bucket list \<times> (string, int) gomap \<times> int list \<Rightarrow>
     (int, nat) gomap \<times> bucket list \<times> (string, int) gomap \<times> int list" where
  "bucket_step u (b, h, um, act) =
     (let act' = List.insert (ID u) act;
          um' = (if UUID u \<noteq> [] then mput (UUID u) (ID u) um else um)
      in case map_of b (ID u) of
           None \<Rightarrow> (b, h, um', act')
         | Some r \<Rightarrow>
             if 0 < SpeedLimit u then (b, h[r := update_bucket u], um', act')
             else (mdel (ID u) b, h, um', act'))"

definition UpdateBuckets ::
    "((int \<times> UserSpec) list \<Rightarrow> (int \<times> UserSpec) list) \<Rightarrow> Limiter \<Rightarrow> SpeedTracker \<Rightarrow> SpeedTracker" where
  "UpdateBuckets rng l t =
     (let currentUsers = map snd (rng (lm_users l))
      in case fold bucket_step currentUsers (st_buckets t, st_heap t, [], []) of
           (b, h, um, act) \<Rightarrow>
             (let b' = mkeep (\<lambda>k. k \<in> set act) b
              in t\<lparr>st_buckets := b', st_heap := h, st_uuidMap := um, st_hasLimits := 0 < length b'\<rparr>))"

datatype lookup = NoLimiter | Found nat | Create int UserSpec

definition GetLimiter_lookup :: "SpeedTracker \<Rightarrow> Limiter \<Rightarrow> string \<Rightarrow> lookup" where
  "GetLimiter_lookup t l user =
     (case map_of (st_uuidMap t) user of
        None \<Rightarrow> NoLimiter
      | Some uid \<Rightarrow>
          (case map_of (st_buckets t) uid of
             Some r \<Rightarrow> Found r
           | None \<Rightarrow>
               (case map_of (lm_users l) uid of
                  None \<Rightarrow> NoLimiter
                | Some u \<Rightarrow> if SpeedLimit u \<le> 0 then NoLimiter else Create uid u)))"

definition GetLimiter_insert :: "SpeedTracker \<Rightarrow> int \<Rightarrow> UserSpec \<Rightarrow> nat \<times> SpeedTracker" where
  "GetLimiter_insert t uid u =
     (case map_of (st_buckets t) uid of
        Some existing \<Rightarrow> (existing, t)
      | None \<Rightarrow>
          (let r = length (st_heap t)
           in (r, t\<lparr>st_buckets := mput uid r (st_buckets t), st_heap := st_heap t @ [new_bucket u],
                    st_hasLimits := True\<rparr>)))"

definition GetLimiter :: "SpeedTracker \<Rightarrow> Limiter \<Rightarrow> string \<Rightarrow> nat option \<times> SpeedTracker" where
  "GetLimiter t l user =
     (case GetLimiter_lookup t l user of
        NoLimiter \<Rightarrow> (None, t)
      | Found r \<Rightarrow> (Some r, t)
      | Create uid u \<Rightarrow> (case GetLimiter_insert t uid u of (r, t') \<Rightarrow> (Some r, t')))"

definition HasLimits :: "SpeedTracker \<Rightarrow> bool" where
  "HasLimits t = st_hasLimits t"

definition LimitedUserCount :: "SpeedTracker \<Rightarrow> nat" where
  "LimitedUserCount t = length (st_buckets t)"

section \<open>Invariants\<close>

definition lim_inv :: "Limiter \<Rightarrow> bool" where
  "lim_inv l \<longleftrightarrow> wf_map (lm_users l) \<and> (\<forall>(k, u) \<in> set (lm_users l). ID u = k)"

text \<open>Every bucket pointer is valid and no two users share a bucket.\<close>

definition st_inv :: "SpeedTracker \<Rightarrow> bool" where
  "st_inv t \<longleftrightarrow> wf_map (st_buckets t) \<and> distinct (map snd (st_buckets t)) \<and>
     (\<forall>r \<in> snd ` set (st_buckets t). r < length (st_heap t)) \<and>
     (st_hasLimits t \<longleftrightarrow> st_buckets t \<noteq> [])"

lemma lim_inv_New: "lim_inv Limiter_New"
  by (simp add: lim_inv_def Limiter_New_def)

lemma st_inv_New: "st_inv NewSpeedTracker"
  by (simp add: st_inv_def NewSpeedTracker_def)

lemma mbuild_ID: "(k, u) \<in> set (mbuild ID (\<lambda>u. u) users) \<Longrightarrow> ID u = k \<and> u \<in> set users"
proof -
  assume "(k, u) \<in> set (mbuild ID (\<lambda>u. u) users)"
  then have "map_of (mbuild ID (\<lambda>u. u) users) k = Some u" by (simp add: wf_map_of_iff)
  then have "(k, u) \<in> set (map (\<lambda>u. (ID u, u)) users)"
    unfolding map_of_mbuild by (auto dest: map_of_SomeD)
  then show ?thesis by auto
qed

lemma UpdateUsers_inv: "lim_inv (snd (UpdateUsers rng l users))"
  by (auto simp: lim_inv_def UpdateUsers_def Let_def dest: mbuild_ID)

lemma UpdateUsers_users:
  "lm_users (snd (UpdateUsers rng l users)) = mbuild ID (\<lambda>u. u) users"
  by (simp add: UpdateUsers_def Let_def)

lemma GetLimiter_insert_inv: "st_inv t \<Longrightarrow> st_inv (snd (GetLimiter_insert t uid u))"
  by (fastforce simp: st_inv_def GetLimiter_insert_def Let_def map_of_eq_None_iff mput_new wf_map_def
      split: option.splits)

lemma GetLimiter_inv: "st_inv t \<Longrightarrow> st_inv (snd (GetLimiter t l user))"
  by (cases "GetLimiter_lookup t l user") (simp_all add: GetLimiter_def split_beta GetLimiter_insert_inv)

section \<open>The loop of UpdateBuckets\<close>

text \<open>The part of the invariant that concerns buckets and store only.\<close>

definition bh_inv :: "(int, nat) gomap \<Rightarrow> bucket list \<Rightarrow> bool" where
  "bh_inv b h \<longleftrightarrow> wf_map b \<and> distinct (map snd b) \<and> (\<forall>r \<in> snd ` set b. r < length h)"

lemma distinct_snd_mdel: "distinct (map snd m) \<Longrightarrow> distinct (map snd (mdel k m))"
  unfolding AList.delete_eq by (rule distinct_map_filter)

lemma bh_inv_mdel: "bh_inv b h \<Longrightarrow> bh_inv (mdel k b) h"
proof -
  assume "bh_inv b h"
  moreover have "set (mdel k b) \<subseteq> set b" by (auto simp: AList.delete_eq)
  ultimately show ?thesis by (auto simp: bh_inv_def wf_mdel distinct_snd_mdel)
qed

lemma bh_inv_lt: "bh_inv b h \<Longrightarrow> map_of b k = Some r \<Longrightarrow> r < length h"
  unfolding bh_inv_def by (metis imageI map_of_SomeD snd_conv)

lemma bh_inv_refs_differ:
  "bh_inv b h \<Longrightarrow> map_of b k = Some r \<Longrightarrow> map_of b k' = Some r' \<Longrightarrow> k \<noteq> k' \<Longrightarrow> r \<noteq> r'"
  unfolding bh_inv_def by (metis distinct_map inj_onD map_of_SomeD prod.inject prod.sel(2))

definition after_loop :: "UserSpec list \<Rightarrow> (int, nat) gomap \<Rightarrow> bucket list \<Rightarrow> (int, nat) gomap \<Rightarrow> bucket list \<Rightarrow> bool" where
  "after_loop us b h b' h' \<longleftrightarrow> bh_inv b' h' \<and> length h' = length h \<and>
     (\<forall>k. map_of b' k =
        (if \<exists>u \<in> set us. ID u = k \<and> SpeedLimit u \<le> 0 then None else map_of b k)) \<and>
     (\<forall>u \<in> set us. \<forall>r. map_of b' (ID u) = Some r \<longrightarrow> h' ! r = update_bucket u)"

lemma after_loopI:
  assumes "bh_inv b' h'" and "length h' = length h"
    and "\<And>k. map_of b' k = (if \<exists>u \<in> set us. ID u = k \<and> SpeedLimit u \<le> 0 then None else map_of b k)"
    and "\<And>u r. u \<in> set us \<Longrightarrow> map_of b' (ID u) = Some r \<Longrightarrow> h' ! r = update_bucket u"
  shows "after_loop us b h b' h'"
  unfolding after_loop_def using assms(1,2,4) by (intro conjI allI ballI impI assms(3)) auto

lemma after_loopD:
  assumes "after_loop us b h b' h'"
  shows "bh_inv b' h'" and "length h' = length h"
    and "map_of b' k = (if \<exists>u \<in> set us. ID u = k \<and> SpeedLimit u \<le> 0 then None else map_of b k)"
    and "u \<in> set us \<Longrightarrow> map_of b' (ID u) = Some r \<Longrightarrow> h' ! r = update_bucket u"
  using assms unfolding after_loop_def by blast+

lemma bucket_loop:
  assumes "bh_inv b h" and "distinct (map ID us)"
  shows "\<exists>b' h' um' act'. fold bucket_step us (b, h, um, act) = (b', h', um', act') \<and>
    after_loop us b h b' h' \<and> set act' = ID ` set us \<union> set act"
  using assms
proof (induction us arbitrary: um act rule: rev_induct)
  case Nil
  then show ?case by (simp add: after_loop_def)
next
  case (snoc u us)
  obtain b1 h1 um1 act1 where st: "fold bucket_step us (b, h, um, act) = (b1, h1, um1, act1)"
    and al: "after_loop us b h b1 h1" and act1: "set act1 = ID ` set us \<union> set act"
    using snoc.IH [of um act] snoc.prems by auto
  have fresh: "ID v \<noteq> ID u" if "v \<in> set us" for v
    using snoc.prems(2) imageI [OF that, of ID] by auto
  show ?case
  proof (cases "map_of b1 (ID u)")
    case None
    moreover from None al have "after_loop (us @ [u]) b h b1 h1"
      using fresh by (auto simp: after_loop_def)
    ultimately show ?thesis using st act1 by (auto simp: Let_def)
  next
    case (Some r)
    show ?thesis
    proof (cases "0 < SpeedLimit u")
      case True
      have "bh_inv b1 h1" using al by (rule after_loopD)
      then have "r < length h1" using Some by (rule bh_inv_lt)
      moreover have "r \<noteq> r'" if "v \<in> set us" "map_of b1 (ID v) = Some r'" for v r'
        using bh_inv_refs_differ [of b1 h1 "ID u" r "ID v" r'] after_loopD(1) [OF al] Some that fresh [OF that(1)]
        by simp
      ultimately have "h1[r := update_bucket u] ! r' = update_bucket v"
        if "v \<in> set (us @ [u])" "map_of b1 (ID v) = Some r'" for v r'
        using that al Some by (auto dest: after_loopD(4))
      then have "after_loop (us @ [u]) b h b1 (h1[r := update_bucket u])"
        using after_loopD(1-3) [OF al] True by (intro after_loopI) (auto simp: bh_inv_def)
      then show ?thesis using st act1 Some True by (auto simp: Let_def)
    next
      case False
      have "after_loop (us @ [u]) b h (mdel (ID u) b1) h1"
        using al False fresh by (auto simp: after_loop_def bh_inv_mdel map_of_mdel)
      then show ?thesis using st act1 Some False by (auto simp: Let_def)
    qed
  qed
qed

lemma bucket_loop_uuid:
  "\<exists>b' h' act'. fold bucket_step us (b, h, um, act) =
     (b', h', fold (\<lambda>u m. if UUID u \<noteq> [] then mput (UUID u) (ID u) m else m) us um, act')"
  by (induction us arbitrary: b h um act) (auto simp: Let_def split: option.split)

lemma map_of_fold_if:
  "\<forall>x \<in> set xs. P x \<and> f x = k \<longrightarrow> g x = v \<Longrightarrow>
   map_of (fold (\<lambda>x m. if P x then mput (f x) (g x) m else m) xs m) k =
     (if \<exists>x \<in> set xs. P x \<and> f x = k then Some v else map_of m k)"
  by (induction xs arbitrary: m) (auto simp: map_of_mput)

text \<open>What the users of the limiter are after the loop: distinct IDs, each under its own key.\<close>

lemma lim_inv_users:
  assumes "lim_inv l" and "range_order rng"
  defines "us \<equiv> map snd (rng (lm_users l))"
  shows "distinct (map ID us)" and "set us = snd ` set (lm_users l)"
    and "u \<in> set us \<Longrightarrow> map_of (lm_users l) (ID u) = Some u"
proof -
  have keys: "\<forall>p \<in> set (lm_users l). ID (snd p) = fst p" and wf: "wf_map (lm_users l)"
    using assms(1) by (auto simp: lim_inv_def)
  have s: "set (rng (lm_users l)) = set (lm_users l)"
    using assms(2) by (rule range_order_set)
  then show us: "set us = snd ` set (lm_users l)" by (simp add: us_def)
  have "map ID us = map fst (rng (lm_users l))"
    using keys s by (simp add: us_def comp_def)
  moreover have "distinct (map fst (rng (lm_users l)))"
    using wf range_order_mset [OF assms(2), of "lm_users l"]
    by (metis mset_eq_imp_distinct_iff mset_map wf_map_def)
  ultimately show "distinct (map ID us)" by simp
  show "map_of (lm_users l) (ID u) = Some u" if "u \<in> set us"
    using that us keys wf by (auto simp: wf_map_of_iff)
qed

definition after_update ::
    "((int \<times> UserSpec) list \<Rightarrow> (int \<times> UserSpec) list) \<Rightarrow> Limiter \<Rightarrow> SpeedTracker \<Rightarrow> SpeedTracker \<Rightarrow> bool" where
  "after_update rng l t t' \<longleftrightarrow> st_inv t' \<and>
     (\<forall>k. map_of (st_buckets t') k =
        (case map_of (lm_users l) k of
           Some u \<Rightarrow> if 0 < SpeedLimit u then map_of (st_buckets t) k else None | None \<Rightarrow> None)) \<and>
     (\<forall>k u r. map_of (lm_users l) k = Some u \<longrightarrow> map_of (st_buckets t') k = Some r \<longrightarrow>
        st_heap t' ! r = update_bucket u) \<and>
     st_uuidMap t' = fold (\<lambda>u m. if UUID u \<noteq> [] then mput (UUID u) (ID u) m else m)
        (map snd (rng (lm_users l))) []"

lemma UpdateBuckets_spec:
  assumes "lim_inv l" and "st_inv t" and "range_order rng"
  shows "after_update rng l t (UpdateBuckets rng l t)"
proof -
  define us where "us = map snd (rng (lm_users l))"
  note us = lim_inv_users [OF assms(1,3), folded us_def]
  have bh: "bh_inv (st_buckets t) (st_heap t)"
    using assms(2) by (simp add: st_inv_def bh_inv_def)
  obtain b h um act where loop: "fold bucket_step us (st_buckets t, st_heap t, [], []) = (b, h, um, act)"
    and al: "after_loop us (st_buckets t) (st_heap t) b h" and act: "set act = ID ` set us"
    using bucket_loop [OF bh us(1), of "[]" "[]"] by auto
  have um: "um = fold (\<lambda>u m. if UUID u \<noteq> [] then mput (UUID u) (ID u) m else m) us []"
    using bucket_loop_uuid [of us "st_buckets t" "st_heap t" "[]" "[]"] loop by auto
  let ?b = "mkeep (\<lambda>k. k \<in> set act) b"
  have upd: "UpdateBuckets rng l t =
      t\<lparr>st_buckets := ?b, st_heap := h, st_uuidMap := um, st_hasLimits := 0 < length ?b\<rparr>"
    using loop by (simp add: UpdateBuckets_def us_def [symmetric] Let_def)
  have keys: "map_of (lm_users l) k = None \<longleftrightarrow> k \<notin> set act" for k
  proof -
    have "set act = fst ` set (lm_users l)"
      using act us(2) assms(1) by (auto simp: lim_inv_def image_iff) force+
    then show ?thesis by (simp add: map_of_eq_None_iff)
  qed
  have at: "u \<in> set us \<and> ID u = k" if "map_of (lm_users l) k = Some u" for k u
    using that us(2) assms(1) by (force simp: lim_inv_def dest: map_of_SomeD)
  have look: "map_of ?b k = (case map_of (lm_users l) k of
      Some u \<Rightarrow> if 0 < SpeedLimit u then map_of (st_buckets t) k else None | None \<Rightarrow> None)" for k
  proof (cases "map_of (lm_users l) k")
    case None
    then have "k \<notin> set act" using keys by blast
    with None show ?thesis by (simp add: map_of_mkeep)
  next
    case (Some u)
    have "v = u" if "v \<in> set us" "ID v = k" for v using us(3) [OF that(1)] Some that(2) by simp
    moreover have "k \<in> set act" using keys [of k] Some by simp
    moreover have "map_of b k = (if SpeedLimit u \<le> 0 then None else map_of (st_buckets t) k)"
      using calculation(1) at [OF Some] by (subst after_loopD(3) [OF al]) auto
    ultimately show ?thesis using Some by (simp add: map_of_mkeep)
  qed
  have "bh_inv ?b h" using after_loopD(1) [OF al]
    by (simp add: bh_inv_def wf_mkeep) (auto simp: mkeep_def intro: distinct_map_filter)
  then have "st_inv (UpdateBuckets rng l t)" by (simp add: upd st_inv_def bh_inv_def)
  moreover have "h ! r = update_bucket u" if "map_of (lm_users l) k = Some u" "map_of ?b k = Some r" for k u r
    using that after_loopD(4) [OF al] at [OF that(1)] by (auto simp: map_of_mkeep split: if_splits)
  ultimately show ?thesis using look um by (auto simp: after_update_def upd us_def)
qed

lemma UpdateBuckets_inv:
  "lim_inv l \<Longrightarrow> st_inv t \<Longrightarrow> range_order rng \<Longrightarrow> st_inv (UpdateBuckets rng l t)"
  using UpdateBuckets_spec by (auto simp: after_update_def)

section \<open>The two burst formulas\<close>

lemma bytesPerSec_bound: "bytesPerSec u \<le> 2 ^ 60 \<and> - (2 ^ 60) \<le> bytesPerSec u"
proof -
  let ?x = "i64 (SpeedLimit u * 1000000)"
  have x: "- (2 ^ 63) \<le> ?x" "?x < 2 ^ 63" using in_i64_i64 [of "SpeedLimit u * 1000000"]
    by (simp_all add: in_i64_def)
  have "?x sdiv 8 = sgn ?x * (\<bar>?x\<bar> div 8)" by (simp add: signed_divide_int_def)
  moreover have "0 \<le> \<bar>?x\<bar> div 8" "\<bar>?x\<bar> div 8 \<le> 2 ^ 60" using x by auto
  ultimately show ?thesis unfolding bytesPerSec_def by (cases "?x" "0 :: int" rule: linorder_cases) auto
qed

lemma new_bucket_eq_update_bucket: "new_bucket u = update_bucket u"
proof -
  have "i64 (bytesPerSec u * 4) = bytesPerSec u * 4"
    using bytesPerSec_bound [of u] by (intro i64_id) (simp add: in_i64_def)
  then show ?thesis by (simp add: new_bucket_def update_bucket_def Let_def)
qed

section \<open>The limits a kernel sees\<close>

text \<open>
  The interface the kernels use: device limits by UUID, and limiters by UUID. A client relies on
  these laws after the user list has been synchronised.
\<close>

definition sync_users ::
    "((int \<times> UserSpec) list \<Rightarrow> (int \<times> UserSpec) list) \<Rightarrow> UserSpec list \<Rightarrow> Limiter \<times> SpeedTracker \<Rightarrow> Limiter \<times> SpeedTracker" where
  "sync_users rng users st =
     (case st of (l, t) \<Rightarrow> (let l' = snd (UpdateUsers rng l users) in (l', UpdateBuckets rng l' t)))"

definition users_ok :: "UserSpec list \<Rightarrow> bool" where
  "users_ok users \<longleftrightarrow> distinct (map ID users) \<and> distinct (map UUID users) \<and> (\<forall>u \<in> set users. UUID u \<noteq> [])"

lemma users_ok_same_UUID: "users_ok users \<Longrightarrow> u \<in> set users \<Longrightarrow> v \<in> set users \<Longrightarrow> UUID u = UUID v \<Longrightarrow> u = v"
  unfolding users_ok_def by (meson distinct_map inj_onD)

lemma users_ok_mbuild: "users_ok users \<Longrightarrow> mbuild ID (\<lambda>u. u) users = map (\<lambda>u. (ID u, u)) users"
  unfolding users_ok_def by (intro mbuild_distinct) simp

lemma users_ok_lookup: "users_ok users \<Longrightarrow> u \<in> set users \<Longrightarrow> map_of (mbuild ID (\<lambda>u. u) users) (ID u) = Some u"
  by (simp add: wf_map_of_iff) (simp add: users_ok_mbuild)

lemma device_limit_sync:
  assumes ok: "users_ok users" and rng: "range_order rng"
  shows "GetDeviceLimitByUUID (snd (UpdateUsers rng l users)) uuid = Some d \<longleftrightarrow>
    (\<exists>u \<in> set users. UUID u = uuid \<and> DeviceLimit u = d \<and> 0 < d)"
proof -
  let ?es = "rng (mbuild ID (\<lambda>u. u) users)"
  have s: "set ?es = (\<lambda>u. (ID u, u)) ` set users"
    using range_order_set [OF rng] by (simp add: users_ok_mbuild [OF ok])
  have fold: "fold (\<lambda>(k, u) m. if 0 < DeviceLimit u then mput (UUID u) (DeviceLimit u) m else m) =
      fold (\<lambda>e m. if 0 < DeviceLimit (snd e) then mput (UUID (snd e)) (DeviceLimit (snd e)) m else m)"
    by (rule arg_cong [of _ _ fold]) (auto simp: fun_eq_iff)
  have look: "GetDeviceLimitByUUID (snd (UpdateUsers rng l users)) uuid =
      map_of (fold (\<lambda>e m. if 0 < DeviceLimit (snd e) then mput (UUID (snd e)) (DeviceLimit (snd e)) m else m) ?es []) uuid"
    by (simp add: GetDeviceLimitByUUID_def UpdateUsers_def Let_def fold)
  show ?thesis
  proof (cases "\<exists>u \<in> set users. UUID u = uuid")
    case True
    then obtain u where u: "u \<in> set users" "UUID u = uuid" by blast
    then have only: "v = u" if "v \<in> set users" "UUID v = uuid" for v
      using users_ok_same_UUID [OF ok] that by blast
    have "\<forall>e \<in> set ?es. 0 < DeviceLimit (snd e) \<and> UUID (snd e) = uuid \<longrightarrow> DeviceLimit (snd e) = DeviceLimit u"
      by (auto simp: s dest: only)
    from map_of_fold_if [OF this] have "GetDeviceLimitByUUID (snd (UpdateUsers rng l users)) uuid =
        (if \<exists>e \<in> set ?es. 0 < DeviceLimit (snd e) \<and> UUID (snd e) = uuid then Some (DeviceLimit u) else None)"
      by (simp add: look)
    moreover have "(\<exists>e \<in> set ?es. 0 < DeviceLimit (snd e) \<and> UUID (snd e) = uuid) \<longleftrightarrow> 0 < DeviceLimit u"
      using u by (auto simp: s dest: only)
    ultimately show ?thesis using u by (auto dest: only)
  next
    case False
    then have "\<forall>e \<in> set ?es. 0 < DeviceLimit (snd e) \<and> UUID (snd e) = uuid \<longrightarrow> DeviceLimit (snd e) = 0"
      by (auto simp: s)
    from map_of_fold_if [OF this] False show ?thesis by (auto simp: look s)
  qed
qed

lemma uuidMap_sync:
  assumes ok: "users_ok users" and rng: "range_order rng" and inv: "st_inv t"
  shows "map_of (st_uuidMap (snd (sync_users rng users (l, t)))) uuid =
    (if \<exists>u \<in> set users. UUID u = uuid then Some (ID (SOME u. u \<in> set users \<and> UUID u = uuid)) else None)"
proof -
  let ?l = "snd (UpdateUsers rng l users)"
  have li: "lim_inv ?l" by (rule UpdateUsers_inv)
  have "st_uuidMap (UpdateBuckets rng ?l t) =
      fold (\<lambda>u m. if UUID u \<noteq> [] then mput (UUID u) (ID u) m else m) (map snd (rng (lm_users ?l))) []"
    using UpdateBuckets_spec [OF li inv rng] by (simp add: after_update_def)
  moreover have s: "set (map snd (rng (lm_users ?l))) = set users"
    using range_order_set [OF rng] by (simp add: UpdateUsers_users users_ok_mbuild [OF ok] image_image)
  moreover have "\<forall>v \<in> set (map snd (rng (lm_users ?l))). UUID v \<noteq> [] \<and> UUID v = uuid \<longrightarrow>
      ID v = ID (SOME u. u \<in> set users \<and> UUID u = uuid)"
    unfolding s by (metis (mono_tags, lifting) ok someI_ex users_ok_same_UUID)
  ultimately show ?thesis
    using map_of_fold_if [of "map snd (rng (lm_users ?l))" "\<lambda>u. UUID u \<noteq> []" UUID uuid ID] ok
    by (auto simp: sync_users_def Let_def users_ok_def)
qed

lemma limiter_sync:
  assumes ok: "users_ok users" and rng: "range_order rng" and inv: "st_inv t" and u: "u \<in> set users"
    and s: "sync_users rng users (l, t) = (l', t')" and g: "GetLimiter t' l' (UUID u) = (r, t'')"
  shows "(SpeedLimit u \<le> 0 \<longrightarrow> r = None) \<and>
    (0 < SpeedLimit u \<longrightarrow> (\<exists>i. r = Some i \<and> st_heap t'' ! i = update_bucket u))"
proof -
  have l': "l' = snd (UpdateUsers rng l users)" and t': "t' = UpdateBuckets rng l' t"
    using s by (auto simp: sync_users_def Let_def)
  have au: "after_update rng l' t t'"
    unfolding t' l' by (rule UpdateBuckets_spec [OF UpdateUsers_inv inv rng])
  have lu: "map_of (lm_users l') (ID u) = Some u"
    by (simp add: l' UpdateUsers_users users_ok_lookup [OF ok u])
  have "(SOME v. v \<in> set users \<and> UUID v = UUID u) = u"
    using ok u users_ok_same_UUID by (intro some_equality) auto
  then have um: "map_of (st_uuidMap t') (UUID u) = Some (ID u)"
    using uuidMap_sync [OF ok rng inv, of l "UUID u"] s u by auto
  show ?thesis
  proof (cases "map_of (st_buckets t') (ID u)")
    case None
    then show ?thesis using g um lu
      by (auto simp: GetLimiter_def GetLimiter_lookup_def GetLimiter_insert_def Let_def new_bucket_eq_update_bucket
          split: if_splits)
  next
    case (Some i)
    then have "r = Some i" "t'' = t'" using g um by (auto simp: GetLimiter_def GetLimiter_lookup_def)
    moreover have "0 < SpeedLimit u \<and> st_heap t' ! i = update_bucket u"
      using au lu Some by (auto simp: after_update_def split: if_splits)
    ultimately show ?thesis by simp
  qed
qed

text \<open>A UUID no user has gets no limiter.\<close>

lemma limiter_sync_unknown:
  assumes "users_ok users" and "range_order rng" and "st_inv t"
    and s: "sync_users rng users (l, t) = (l', t')" and "uuid \<notin> UUID ` set users"
  shows "GetLimiter t' l' uuid = (None, t')"
  using uuidMap_sync [OF assms(1-3), of l uuid] assms(5)
  by (auto simp: GetLimiter_def GetLimiter_lookup_def s)

definition speed_of :: "Limiter \<times> SpeedTracker \<Rightarrow> string \<Rightarrow> bucket option" where
  "speed_of st uuid =
     (case GetLimiter (snd st) (fst st) uuid of
        (None, _) \<Rightarrow> None | (Some i, t') \<Rightarrow> Some (st_heap t' ! i))"

definition syncs :: "UserSpec list \<Rightarrow> Limiter \<times> SpeedTracker \<Rightarrow> Limiter \<times> SpeedTracker \<Rightarrow> bool" where
  "syncs users st st' \<longleftrightarrow> (\<exists>rng. range_order rng \<and> st' = sync_users rng users st)"

text \<open>
  The states of the pair: created, synchronised with any list in any order, asked for a limiter. The
  last rule is the second half of a \<open>GetLimiter\<close> that was overtaken: it inserts a bucket for whatever
  record its first half read earlier, so for any record.
\<close>

inductive lim_reach :: "Limiter \<times> SpeedTracker \<Rightarrow> bool" where
  lim_new: "lim_reach (Limiter_New, NewSpeedTracker)"
| lim_sync: "lim_reach st \<Longrightarrow> syncs users st st' \<Longrightarrow> lim_reach st'"
| lim_get: "lim_reach (l, t) \<Longrightarrow> GetLimiter t l user = (r, t') \<Longrightarrow> lim_reach (l, t')"
| lim_insert: "lim_reach (l, t) \<Longrightarrow> GetLimiter_insert t uid u = (r, t') \<Longrightarrow> lim_reach (l, t')"

lemma lim_reach_inv: "lim_reach st \<Longrightarrow> st_inv (snd st)"
proof (induction rule: lim_reach.induct)
  case lim_new
  show ?case by (simp add: st_inv_New)
next
  case (lim_sync st users st')
  obtain l t where st: "st = (l, t)" by fastforce
  from lim_sync obtain rng where "range_order rng" and "st' = sync_users rng users (l, t)"
    by (auto simp: syncs_def st)
  moreover have "st_inv t" using lim_sync by (simp add: st)
  ultimately show ?case
    by (simp add: sync_users_def Let_def UpdateBuckets_inv UpdateUsers_inv)
next
  case (lim_get l t user r t')
  then show ?case using GetLimiter_inv [of t l user] by simp
next
  case (lim_insert l t uid u r t')
  then show ?case using GetLimiter_insert_inv [of t uid u] by simp
qed

lemma uuid_sync:
  assumes "lim_reach st" and "users_ok users" and "syncs users st st'" and "u \<in> set users"
  shows "map_of (st_uuidMap (snd st')) (UUID u) = Some (ID u)"
proof -
  obtain rng where rng: "range_order rng" and st': "st' = sync_users rng users (fst st, snd st)"
    using assms(3) by (auto simp: syncs_def)
  have "(SOME v. v \<in> set users \<and> UUID v = UUID u) = u"
    using assms(2,4) users_ok_same_UUID by (intro some_equality) auto
  then show ?thesis
    using uuidMap_sync [OF assms(2) rng lim_reach_inv [OF assms(1)], of "fst st" "UUID u"] assms(4) by (auto simp: st')
qed

section \<open>The interface of the limits\<close>

text \<open>
  What a kernel relies on: after a synchronisation the limits are those of the list, whatever the
  state before.
\<close>

locale limit_provider =
  fixes sync :: "UserSpec list \<Rightarrow> 's \<Rightarrow> 's \<Rightarrow> bool"
    and device :: "'s \<Rightarrow> string \<Rightarrow> int option"
    and speed :: "'s \<Rightarrow> string \<Rightarrow> bucket option"
    and reach :: "'s \<Rightarrow> bool"
  assumes sync_reach: "reach s \<Longrightarrow> sync users s s' \<Longrightarrow> reach s'"
    and device_law: "reach s \<Longrightarrow> users_ok users \<Longrightarrow> sync users s s' \<Longrightarrow>
      device s' uuid = Some d \<longleftrightarrow> (\<exists>u \<in> set users. UUID u = uuid \<and> DeviceLimit u = d \<and> 0 < d)"
    and speed_law: "reach s \<Longrightarrow> users_ok users \<Longrightarrow> sync users s s' \<Longrightarrow> u \<in> set users \<Longrightarrow>
      speed s' (UUID u) = (if 0 < SpeedLimit u then Some (update_bucket u) else None)"
    and speed_unknown: "reach s \<Longrightarrow> users_ok users \<Longrightarrow> sync users s s' \<Longrightarrow> uuid \<notin> UUID ` set users \<Longrightarrow>
      speed s' uuid = None"
begin

lemma last_list_decides:
  assumes "reach s" and "reach r" and "users_ok users" and "sync users s s'" and "sync users r r'"
  shows "device s' = device r'" and "speed s' = speed r'"
proof -
  show "device s' = device r'"
  proof
    fix uuid
    have "device s' uuid = Some d \<longleftrightarrow> device r' uuid = Some d" for d
      using assms by (simp add: device_law)
    then show "device s' uuid = device r' uuid" by (metis option.exhaust)
  qed
  show "speed s' = speed r'"
  proof
    fix uuid
    show "speed s' uuid = speed r' uuid"
    proof (cases "uuid \<in> UUID ` set users")
      case True
      then obtain u where "u \<in> set users" and "uuid = UUID u" by blast
      then show ?thesis using assms by (simp add: speed_law)
    next
      case False
      then show ?thesis using assms by (simp add: speed_unknown)
    qed
  qed
qed

end

interpretation lim: limit_provider syncs "\<lambda>st. GetDeviceLimitByUUID (fst st)" speed_of lim_reach
proof
  fix st users st'
  assume "lim_reach st" and "syncs users st st'"
  then show "lim_reach st'" by (rule lim_reach.lim_sync)
next
  fix st users st' uuid d
  assume ok: "users_ok users" and s: "syncs users st st'"
  obtain l t where st: "st = (l, t)" by fastforce
  obtain rng where rng: "range_order rng" and "sync_users rng users (l, t) = st'"
    using s by (auto simp: syncs_def st)
  then have "fst st' = snd (UpdateUsers rng l users)" by (auto simp: sync_users_def Let_def)
  then show "GetDeviceLimitByUUID (fst st') uuid = Some d \<longleftrightarrow>
      (\<exists>u \<in> set users. UUID u = uuid \<and> DeviceLimit u = d \<and> 0 < d)"
    using device_limit_sync [OF ok rng] by simp
next
  fix st users st' u
  assume r: "lim_reach st" and ok: "users_ok users" and s: "syncs users st st'" and u: "u \<in> set users"
  obtain l t where st: "st = (l, t)" by fastforce
  obtain rng where rng: "range_order rng" and st': "sync_users rng users (l, t) = st'"
    using s by (auto simp: syncs_def st)
  show "speed_of st' (UUID u) = (if 0 < SpeedLimit u then Some (update_bucket u) else None)"
    using limiter_sync [OF ok rng _ u, of t l "fst st'" "snd st'"] lim_reach_inv [OF r] st'
    by (auto simp: speed_of_def st split: prod.split option.split)
next
  fix st users st' uuid
  assume r: "lim_reach st" and ok: "users_ok users" and s: "syncs users st st'"
    and "uuid \<notin> UUID ` set users"
  then show "speed_of st' uuid = None"
    using limiter_sync_unknown [OF ok, of _ "snd st" "fst st" "fst st'" "snd st'" uuid] lim_reach_inv [OF r]
    by (auto simp: speed_of_def syncs_def)
qed

section \<open>Properties\<close>

text \<open>
  After the limiter has been given a user list (distinct IDs and UUIDs), in whatever state it was
  reached before, the device limit found for a UUID is exactly the positive limit of its user, and
  the limiter found for a user's UUID runs at \<open>SpeedLimit * 1000000 / 8\<close> bytes per second with a
  burst of at least 64 KiB if the user has a speed limit, and is absent otherwise.
\<close>

lemma limits_in_force:
  assumes "lim_reach st" and "users_ok users" and "syncs users st st'" and "u \<in> set users"
  shows "GetDeviceLimitByUUID (fst st') (UUID u) = (if 0 < DeviceLimit u then Some (DeviceLimit u) else None) \<and>
    speed_of st' (UUID u) = (if 0 < SpeedLimit u
      then Some \<lparr>bk_rate = bytesPerSec u, bk_burst = max 65536 (bytesPerSec u)\<rparr> else None)"
proof -
  have d: "GetDeviceLimitByUUID (fst st') (UUID u) = Some d \<longleftrightarrow> DeviceLimit u = d \<and> 0 < d" for d
    using lim.device_law [OF assms(1-3)] assms(4) users_ok_same_UUID [OF assms(2)] by blast
  have "GetDeviceLimitByUUID (fst st') (UUID u) = (if 0 < DeviceLimit u then Some (DeviceLimit u) else None)"
    using d by (metis option.exhaust)
  then show ?thesis
    using lim.speed_law [OF assms] by (auto simp: update_bucket_def Let_def max_def)
qed

definition demo_user :: "int \<Rightarrow> string \<Rightarrow> int \<Rightarrow> int \<Rightarrow> UserSpec" where
  "demo_user i uuid speed devices =
     \<lparr>ID = i, UUID = uuid, SpeedLimit = speed, DeviceLimit = devices, RouteScope = []\<rparr>"

definition demo_limits :: "UserSpec list \<Rightarrow> Limiter \<times> SpeedTracker" where
  "demo_limits users = sync_users (\<lambda>xs. xs) users (Limiter_New, NewSpeedTracker)"

lemma demo_limits_sync: "syncs users (Limiter_New, NewSpeedTracker) (demo_limits users)"
  using range_order_id by (auto simp: syncs_def demo_limits_def)

theorem limits_in_force_witness:
  "GetDeviceLimitByUUID (fst (demo_limits [demo_user 1 ''a'' 100 3, demo_user 2 ''b'' 0 0])) ''a'' = Some 3 \<and>
   speed_of (demo_limits [demo_user 1 ''a'' 100 3, demo_user 2 ''b'' 0 0]) ''a'' =
     Some \<lparr>bk_rate = 12500000, bk_burst = 12500000\<rparr>"
proof -
  have ok: "users_ok [demo_user 1 ''a'' 100 3, demo_user 2 ''b'' 0 0]"
    by (simp add: users_ok_def demo_user_def)
  have "bytesPerSec (demo_user 1 ''a'' 100 3) = 12500000"
    by (simp add: bytesPerSec_def demo_user_def i64_id in_i64_def signed_divide_int_def)
  with limits_in_force [OF lim_new ok demo_limits_sync, of "demo_user 1 ''a'' 100 3"]
  show ?thesis by (simp add: demo_user_def)
qed

text \<open>
  The limits have no memory: two limiters that have been given the same list answer every device
  limit and every speed limit query alike, whatever lists and queries came before.
\<close>

lemma limits_history_free:
  assumes "lim_reach s" and "lim_reach r" and "users_ok users" and "syncs users s s'" and "syncs users r r'"
  shows "GetDeviceLimitByUUID (fst s') uuid = GetDeviceLimitByUUID (fst r') uuid \<and>
    speed_of s' uuid = speed_of r' uuid"
  using lim.last_list_decides [OF assms] by metis

theorem limits_history_free_witness:
  "speed_of (sync_users rev [demo_user 1 ''a'' 8 0] (demo_limits [demo_user 1 ''a'' 100 3])) ''a'' =
   speed_of (demo_limits [demo_user 1 ''a'' 8 0]) ''a''"
proof -
  have ok: "users_ok [demo_user 1 ''a'' 8 0]" by (simp add: users_ok_def demo_user_def)
  have "lim_reach (demo_limits [demo_user 1 ''a'' 100 3])"
    using lim_new demo_limits_sync by (rule lim_reach.lim_sync)
  moreover have "syncs [demo_user 1 ''a'' 8 0] (demo_limits [demo_user 1 ''a'' 100 3])
      (sync_users rev [demo_user 1 ''a'' 8 0] (demo_limits [demo_user 1 ''a'' 100 3]))"
    using range_order_rev by (auto simp: syncs_def)
  ultimately show ?thesis
    using limits_history_free [OF _ lim_new ok _ demo_limits_sync] by blast
qed

text \<open>
  A connection keeps the pointer it was handed, and that pointer is the one later updates write
  through: if a user's limiter was handed out and the next list still limits that user, the very
  same bucket then runs at the new rate, and it stays the bucket of that user alone.
\<close>

lemma live_bucket_updated:
  assumes "lim_reach (l, t)" and "map_of (st_buckets t) (ID u) = Some i"
    and "users_ok users" and "range_order rng" and "u \<in> set users" and "0 < SpeedLimit u"
    and "sync_users rng users (l, t) = (l', t')"
  shows "map_of (st_buckets t') (ID u) = Some i \<and> st_heap t' ! i = update_bucket u \<and>
    (\<forall>k. map_of (st_buckets t') k = Some i \<longrightarrow> k = ID u)"
proof -
  have l': "l' = snd (UpdateUsers rng l users)" and t': "t' = UpdateBuckets rng l' t"
    using assms(7) by (auto simp: sync_users_def Let_def)
  have inv: "st_inv t" using lim_reach_inv [OF assms(1)] by simp
  have au: "after_update rng l' t t'"
    unfolding t' l' by (rule UpdateBuckets_spec [OF UpdateUsers_inv inv assms(4)])
  have lu: "map_of (lm_users l') (ID u) = Some u"
    by (simp add: l' UpdateUsers_users users_ok_lookup [OF assms(3,5)])
  have b: "map_of (st_buckets t') (ID u) = Some i"
    using au lu assms(2,6) by (simp add: after_update_def)
  have "bh_inv (st_buckets t') (st_heap t')" using au by (simp add: after_update_def st_inv_def bh_inv_def)
  then have "k = ID u" if "map_of (st_buckets t') k = Some i" for k
    using bh_inv_refs_differ [OF _ that b] by blast
  then show ?thesis using au lu b by (auto simp: after_update_def)
qed

theorem live_bucket_updated_witness:
  "\<exists>i l t l' t'. GetLimiter (snd (demo_limits [demo_user 1 ''a'' 100 0])) (fst (demo_limits [demo_user 1 ''a'' 100 0])) ''a'' =
       (Some i, t) \<and> l = fst (demo_limits [demo_user 1 ''a'' 100 0]) \<and>
     sync_users rev [demo_user 1 ''a'' 8 0] (l, t) = (l', t') \<and> st_heap t' ! i = update_bucket (demo_user 1 ''a'' 8 0)"
proof -
  let ?st = "demo_limits [demo_user 1 ''a'' 100 0]"
  obtain r t where g: "GetLimiter (snd ?st) (fst ?st) ''a'' = (r, t)" by fastforce
  have gt: "r = Some 0 \<and> map_of (st_buckets t) 1 = Some 0"
    using g unfolding demo_limits_def
    by (simp add: sync_users_def UpdateUsers_def UpdateBuckets_def Limiter_New_def NewSpeedTracker_def Let_def
        mbuild_def demo_user_def GetLimiter_def GetLimiter_lookup_def GetLimiter_insert_def mkeep_def)
      auto
  have "lim_reach ?st" using lim_new demo_limits_sync by (rule lim_reach.lim_sync)
  then have "lim_reach (fst ?st, t)" using g by (metis lim_get prod.collapse)
  moreover obtain l' t' where s: "sync_users rev [demo_user 1 ''a'' 8 0] (fst ?st, t) = (l', t')" by fastforce
  ultimately have "st_heap t' ! 0 = update_bucket (demo_user 1 ''a'' 8 0)"
    using live_bucket_updated [of "fst ?st" t "demo_user 1 ''a'' 8 0" 0 "[demo_user 1 ''a'' 8 0]" rev l' t'] gt
    by (simp add: users_ok_def demo_user_def range_order_rev)
  then show ?thesis using g gt s by blast
qed

text \<open>
  The second half of an overtaken \<open>GetLimiter\<close> does not check its record again. A connection that read
  the record of a user before a new list raised its limit from 8 to 100, and inserts after the update,
  installs a bucket at the old rate; the connections that follow share it until the next update.
\<close>

definition demo_race :: "Limiter \<times> SpeedTracker" where
  "demo_race =
     (let (l, t) = demo_limits [demo_user 1 ''a'' 8 0]; found = GetLimiter_lookup t l ''a'';
          (l', t') = sync_users (\<lambda>xs. xs) [demo_user 1 ''a'' 100 0] (l, t)
      in case found of Create uid u \<Rightarrow> (l', snd (GetLimiter_insert t' uid u)) | _ \<Rightarrow> (l', t'))"

lemma overtaken_bucket_stale:
  "speed_of demo_race ''a'' = Some (update_bucket (demo_user 1 ''a'' 8 0)) \<and>
   update_bucket (demo_user 1 ''a'' 8 0) \<noteq> update_bucket (demo_user 1 ''a'' 100 0) \<and>
   lm_users (fst demo_race) = [(1, demo_user 1 ''a'' 100 0)]"
  by code_simp

text \<open>
  The users reported as removed by an update are exactly those that were present before and are
  absent from the new list, each once.
\<close>

lemma UpdateUsers_removed:
  assumes "lim_inv l"
  shows "set (fst (UpdateUsers rng l users)) = fst ` set (lm_users l) - ID ` set users \<and>
    distinct (fst (UpdateUsers rng l users))"
proof -
  have e: "fst (UpdateUsers rng l users) =
      map fst (filter (\<lambda>(k, u). k \<notin> ID ` set users) (lm_users l))"
    by (simp add: UpdateUsers_def Let_def mhas_iff dom_mbuild case_prod_beta')
  have "distinct (map fst (lm_users l))" using assms by (simp add: lim_inv_def wf_map_def)
  then show ?thesis unfolding e by (auto intro: distinct_map_filter)
qed

text \<open>
  Whether any limit is configured is only known once a limited user has connected: after the first
  user list, however many of its users have a speed limit, no bucket exists yet, so \<open>HasLimits\<close> is
  false and the count of limited users is 0, although \<open>speed_of\<close> finds a limit for each of them.
\<close>

lemma HasLimits_false_until_first_connection:
  assumes "range_order rng" and "sync_users rng users (Limiter_New, NewSpeedTracker) = (l, t)"
  shows "\<not> HasLimits t \<and> LimitedUserCount t = 0"
proof -
  have t: "t = UpdateBuckets rng l NewSpeedTracker" and l: "l = snd (UpdateUsers rng Limiter_New users)"
    using assms(2) by (auto simp: sync_users_def Let_def)
  have "after_update rng l NewSpeedTracker t"
    unfolding t l by (rule UpdateBuckets_spec [OF UpdateUsers_inv st_inv_New assms(1)])
  then have "st_inv t" and "map_of (st_buckets t) k = None" for k
    by (auto simp: after_update_def NewSpeedTracker_def split: option.splits)
  then have "st_buckets t = []" unfolding map_of_eq_None_iff by (metis all_not_in_conv image_is_empty set_empty)
  with \<open>st_inv t\<close> show ?thesis by (simp add: HasLimits_def LimitedUserCount_def st_inv_def)
qed

theorem HasLimits_false_until_first_connection_witness:
  "\<not> HasLimits (snd (demo_limits [demo_user 1 ''a'' 100 0])) \<and>
   speed_of (demo_limits [demo_user 1 ''a'' 100 0]) ''a'' \<noteq> None"
proof -
  have "users_ok [demo_user 1 ''a'' 100 0]" by (simp add: users_ok_def demo_user_def)
  from lim.speed_law [OF lim_new this demo_limits_sync, of "demo_user 1 ''a'' 100 0"]
  have "speed_of (demo_limits [demo_user 1 ''a'' 100 0]) (UUID (demo_user 1 ''a'' 100 0)) \<noteq> None"
    by simp (simp add: demo_user_def)
  moreover have "\<not> HasLimits (snd (demo_limits [demo_user 1 ''a'' 100 0]))"
    using HasLimits_false_until_first_connection [OF range_order_id] unfolding demo_limits_def
    by (metis prod.collapse)
  ultimately show ?thesis by (simp add: demo_user_def)
qed

end
