(* ===== verification/Panel.thy ===== *)
theory Panel
  imports Validate Limiter
begin

text \<open>
  Conversions into and out of the internal node model: \<^verbatim>\<open>internal/model/panel.go\<close> (the panel's
  \<^verbatim>\<open>NodeConfig\<close>), \<^verbatim>\<open>internal/model/standalone.go\<close> with the validation of \<^verbatim>\<open>internal/config/standalone.go\<close>,
  and \<^verbatim>\<open>internal/platformclient/types.go\<close> (the device platform's node spec and users).

  The panel's and the standalone file's leaf structs (routes, outbounds, rules, matches, actions,
  profiles, multiplex, users) have the fields of the model's and share its records; the field by
  field conversion loops are the functions \<open>conv_route\<close> to \<open>conv_mux\<close>. A Go \<^verbatim>\<open>range\<close> over the profile
  map converts its entries one by one.
\<close>

section \<open>Leaf conversions\<close>

definition conv_route :: "RouteRule \<Rightarrow> RouteRule" where
  "conv_route route = \<lparr>rr_ID = rr_ID route, rr_Match = cloneStringSlice (rr_Match route),
     rr_Action = rr_Action route, rr_ActionValue = rr_ActionValue route\<rparr>"

definition conv_outbound :: "OutboundConfig \<Rightarrow> OutboundConfig" where
  "conv_outbound outbound = \<lparr>ob_Tag = ob_Tag outbound, ob_Protocol = ob_Protocol outbound,
     ob_Settings = cloneAnyMap (ob_Settings outbound), ob_ProxyTag = ob_ProxyTag outbound\<rparr>"

definition conv_rule :: "CustomRouteRule \<Rightarrow> CustomRouteRule" where
  "conv_rule rule = \<lparr>cr_Name = cr_Name rule, cr_Disabled = cr_Disabled rule,
     cr_Match = cloneRouteMatch (cr_Match rule),
     cr_Action = \<lparr>a_Type = a_Type (cr_Action rule), a_Target = a_Target (cr_Action rule)\<rparr>\<rparr>"

text \<open>Appending to a nil slice leaves it nil when there is nothing to append.\<close>

definition appended :: "'a list \<Rightarrow> 'a slice" where
  "appended xs = (if xs = [] then None else Some xs)"

definition conv_profile :: "RouteProfile \<Rightarrow> RouteProfile" where
  "conv_profile profile =
     \<lparr>rp_CustomRouteRules = appended (map conv_rule (elems (rp_CustomRouteRules profile))),
      rp_DefaultOutboundTag = rp_DefaultOutboundTag profile,
      rp_CustomOutbounds = appended (map conv_outbound (elems (rp_CustomOutbounds profile)))\<rparr>"

definition conv_mux :: "MultiplexConfig \<Rightarrow> MultiplexConfig" where
  "conv_mux m = \<lparr>mx_Enabled = mx_Enabled m, mx_Protocol = mx_Protocol m, mx_MaxConnections = mx_MaxConnections m,
     mx_MinStreams = mx_MinStreams m, mx_MaxStreams = mx_MaxStreams m, mx_Padding = mx_Padding m,
     mx_Brutal = map_option (\<lambda>b. \<lparr>br_Enabled = br_Enabled b, br_UpMbps = br_UpMbps b, br_DownMbps = br_DownMbps b\<rparr>)
       (mx_Brutal m)\<rparr>"

section \<open>The panel's node configuration\<close>

record PanelCertConfig =
  pc_CertMode :: string
  pc_Domain :: string
  pc_Email :: string
  pc_DNSProvider :: string
  pc_DNSEnv :: "(string, string) gomap option"
  pc_HTTPPort :: int
  pc_CertFile :: string
  pc_KeyFile :: string
  pc_CertContent :: string
  pc_KeyContent :: string

record BaseConfig =
  bc_PushInterval :: int
  bc_PullInterval :: int

record NodeConfig =
  nc_NodeID :: int
  nc_Protocol :: string
  nc_ListenIP :: string
  nc_ServerPort :: int
  nc_Network :: string
  nc_NetworkSettings :: any_map
  nc_BaseConfig :: BaseConfig
  nc_Routes :: "RouteRule slice"
  nc_KernelType :: string
  nc_KernelLogLevel :: string
  nc_CustomOutbounds :: "OutboundConfig slice"
  nc_CustomRoutes :: "any_map slice"
  nc_CustomRouteRules :: "CustomRouteRule slice"
  nc_CustomRouteProfiles :: "(string, RouteProfile) gomap option"
  nc_DefaultOutboundTag :: string
  nc_CertConfig :: "PanelCertConfig option"
  nc_AutoTLS :: bool
  nc_Domain :: string
  nc_Cipher :: string
  nc_Plugin :: string
  nc_PluginOpt :: string
  nc_ServerKey :: string
  nc_TLS :: int
  nc_Flow :: string
  nc_Decryption :: string
  nc_TLSSettings :: any_map
  nc_Host :: string
  nc_ServerName :: string
  nc_Version :: int
  nc_UpMbps :: int
  nc_DownMbps :: int
  nc_Obfs :: string
  nc_ObfsPassword :: string
  nc_CongestionControl :: string
  nc_PaddingScheme :: string
  nc_Transport :: string
  nc_TrafficPattern :: string
  nc_Multiplex :: "MultiplexConfig option"
  nc_AcceptProxyProtocol :: bool

record panel_User =
  pu_ID :: int
  pu_UUID :: string
  pu_SpeedLimit :: int
  pu_DeviceLimit :: int

definition cert_from_panel :: "PanelCertConfig \<Rightarrow> CertConfig" where
  "cert_from_panel c = \<lparr>cc_AutoTLS = False, cc_Domain = pc_Domain c, cc_Email = pc_Email c,
     cc_CertFile = pc_CertFile c, cc_KeyFile = pc_KeyFile c, cc_CertDir = [], cc_HTTPPort = pc_HTTPPort c,
     cc_CertMode = pc_CertMode c, cc_DNSProvider = pc_DNSProvider c, cc_DNSEnv = pc_DNSEnv c,
     cc_CertContent = pc_CertContent c, cc_KeyContent = pc_KeyContent c\<rparr>"

definition cert_to_panel :: "CertConfig \<Rightarrow> PanelCertConfig" where
  "cert_to_panel c = \<lparr>pc_CertMode = cc_CertMode c, pc_Domain = cc_Domain c, pc_Email = cc_Email c,
     pc_DNSProvider = cc_DNSProvider c, pc_DNSEnv = cc_DNSEnv c, pc_HTTPPort = cc_HTTPPort c,
     pc_CertFile = cc_CertFile c, pc_KeyFile = cc_KeyFile c,
     pc_CertContent = cc_CertContent c, pc_KeyContent = cc_KeyContent c\<rparr>"

definition NodeSpecFromPanel :: "NodeConfig option \<Rightarrow> NodeSpec option" where
  "NodeSpecFromPanel cfg =
     (case cfg of
        None \<Rightarrow> None
      | Some nc \<Rightarrow> Some \<lparr>
        n_Protocol = nc_Protocol nc,
        n_ListenIP = nc_ListenIP nc,
        n_ServerPort = nc_ServerPort nc,
        n_Network = nc_Network nc,
        n_NetworkSettings = cloneAnyMap (nc_NetworkSettings nc),
        n_Routes = Some (map conv_route (elems (nc_Routes nc))),
        n_KernelType = nc_KernelType nc,
        n_KernelLogLevel = nc_KernelLogLevel nc,
        n_CustomOutbounds = Some (map conv_outbound (elems (nc_CustomOutbounds nc))),
        n_CustomRoutes = cloneMapSlice (nc_CustomRoutes nc),
        n_CustomRouteRules = Some (map conv_rule (elems (nc_CustomRouteRules nc))),
        n_RouteProfiles = Some (map (\<lambda>(scope, profile). (scope, conv_profile profile)) (elems (nc_CustomRouteProfiles nc))),
        n_DefaultOutboundTag = nc_DefaultOutboundTag nc,
        n_CertConfig = map_option cert_from_panel (nc_CertConfig nc),
        n_AutoTLS = nc_AutoTLS nc,
        n_Domain = nc_Domain nc,
        n_Cipher = nc_Cipher nc,
        n_Plugin = nc_Plugin nc,
        n_PluginOpt = nc_PluginOpt nc,
        n_ServerKey = nc_ServerKey nc,
        n_TLS = nc_TLS nc,
        n_Flow = nc_Flow nc,
        n_Decryption = nc_Decryption nc,
        n_TLSSettings = cloneAnyMap (nc_TLSSettings nc),
        n_Host = nc_Host nc,
        n_ServerName = nc_ServerName nc,
        n_Version = nc_Version nc,
        n_UpMbps = nc_UpMbps nc,
        n_DownMbps = nc_DownMbps nc,
        n_Obfs = nc_Obfs nc,
        n_ObfsPassword = nc_ObfsPassword nc,
        n_CongestionControl = nc_CongestionControl nc,
        n_PaddingScheme = nc_PaddingScheme nc,
        n_Transport = nc_Transport nc,
        n_TrafficPattern = nc_TrafficPattern nc,
        n_Multiplex = map_option conv_mux (nc_Multiplex nc),
        n_AcceptProxyProtocol = nc_AcceptProxyProtocol nc\<rparr>)"

definition ToPanel :: "NodeSpec option \<Rightarrow> NodeConfig option" where
  "ToPanel spec =
     (case spec of
        None \<Rightarrow> None
      | Some n \<Rightarrow> Some \<lparr>
        nc_NodeID = 0,
        nc_Protocol = n_Protocol n,
        nc_ListenIP = n_ListenIP n,
        nc_ServerPort = n_ServerPort n,
        nc_Network = n_Network n,
        nc_NetworkSettings = cloneAnyMap (n_NetworkSettings n),
        nc_BaseConfig = \<lparr>bc_PushInterval = 0, bc_PullInterval = 0\<rparr>,
        nc_Routes = Some (map conv_route (elems (n_Routes n))),
        nc_KernelType = n_KernelType n,
        nc_KernelLogLevel = n_KernelLogLevel n,
        nc_CustomOutbounds = Some (map conv_outbound (elems (n_CustomOutbounds n))),
        nc_CustomRoutes = cloneMapSlice (n_CustomRoutes n),
        nc_CustomRouteRules = Some (map conv_rule (elems (n_CustomRouteRules n))),
        nc_CustomRouteProfiles = Some (map (\<lambda>(scope, profile). (scope, conv_profile profile)) (elems (n_RouteProfiles n))),
        nc_DefaultOutboundTag = n_DefaultOutboundTag n,
        nc_CertConfig = map_option cert_to_panel (n_CertConfig n),
        nc_AutoTLS = n_AutoTLS n,
        nc_Domain = n_Domain n,
        nc_Cipher = n_Cipher n,
        nc_Plugin = n_Plugin n,
        nc_PluginOpt = n_PluginOpt n,
        nc_ServerKey = n_ServerKey n,
        nc_TLS = n_TLS n,
        nc_Flow = n_Flow n,
        nc_Decryption = n_Decryption n,
        nc_TLSSettings = cloneAnyMap (n_TLSSettings n),
        nc_Host = n_Host n,
        nc_ServerName = n_ServerName n,
        nc_Version = n_Version n,
        nc_UpMbps = n_UpMbps n,
        nc_DownMbps = n_DownMbps n,
        nc_Obfs = n_Obfs n,
        nc_ObfsPassword = n_ObfsPassword n,
        nc_CongestionControl = n_CongestionControl n,
        nc_PaddingScheme = n_PaddingScheme n,
        nc_Transport = n_Transport n,
        nc_TrafficPattern = n_TrafficPattern n,
        nc_Multiplex = map_option conv_mux (n_Multiplex n),
        nc_AcceptProxyProtocol = n_AcceptProxyProtocol n\<rparr>)"

definition NodeSpecFromPanelValidated ::
  "(string \<Rightarrow> file_result) \<Rightarrow> (bool \<Rightarrow> string \<Rightarrow> (string, any) gomap option) \<Rightarrow>
    NodeConfig option \<Rightarrow> KernelConfig \<Rightarrow> verror + NodeSpec option" where
  "NodeSpecFromPanelValidated readFile parseDoc nc kcfg =
     (let spec = NodeSpecFromPanel nc in
      case ValidateNodeSpec readFile parseDoc spec kcfg of Inl e \<Rightarrow> Inl e | Inr _ \<Rightarrow> Inr spec)"

definition UserSpecsFromPanel :: "panel_User slice \<Rightarrow> UserSpec slice" where
  "UserSpecsFromPanel users = map_option (map (\<lambda>user. \<lparr>ID = pu_ID user, UUID = pu_UUID user,
     SpeedLimit = pu_SpeedLimit user, DeviceLimit = pu_DeviceLimit user, RouteScope = []\<rparr>)) users"

definition UserSpecsToPanel :: "UserSpec slice \<Rightarrow> panel_User slice" where
  "UserSpecsToPanel users = map_option (map (\<lambda>user. \<lparr>pu_ID = ID user, pu_UUID = UUID user,
     pu_SpeedLimit = SpeedLimit user, pu_DeviceLimit = DeviceLimit user\<rparr>)) users"

section \<open>Standalone configuration\<close>

record StandaloneNodeConfig =
  sn_Protocol :: string
  sn_ListenIP :: string
  sn_ServerPort :: int
  sn_Network :: string
  sn_NetworkSettings :: any_map
  sn_Routes :: "RouteRule slice"
  sn_CustomRouteRules :: "CustomRouteRule slice"
  sn_Cipher :: string
  sn_Plugin :: string
  sn_PluginOpt :: string
  sn_ServerKey :: string
  sn_TLS :: int
  sn_Flow :: string
  sn_Decryption :: string
  sn_TLSSettings :: any_map
  sn_Host :: string
  sn_ServerName :: string
  sn_Version :: int
  sn_UpMbps :: int
  sn_DownMbps :: int
  sn_Obfs :: string
  sn_ObfsPassword :: string
  sn_CongestionControl :: string
  sn_PaddingScheme :: string
  sn_Transport :: string
  sn_TrafficPattern :: string
  sn_Multiplex :: "MultiplexConfig option"
  sn_AcceptProxyProtocol :: bool

record StandaloneConfig =
  sc_Enabled :: bool
  sc_Node :: StandaloneNodeConfig
  sc_Users :: "panel_User list"

definition NodeSpecFromStandalone :: "StandaloneConfig option \<Rightarrow> KernelConfig \<Rightarrow> NodeSpec option" where
  "NodeSpecFromStandalone standalone kcfg =
     (case standalone of
        None \<Rightarrow> None
      | Some sc \<Rightarrow> (let node = sc_Node sc in Some \<lparr>
        n_Protocol = sn_Protocol node,
        n_ListenIP = sn_ListenIP node,
        n_ServerPort = sn_ServerPort node,
        n_Network = sn_Network node,
        n_NetworkSettings = cloneAnyMap (sn_NetworkSettings node),
        n_Routes = Some (map conv_route (elems (sn_Routes node))),
        n_KernelType = kc_Type kcfg,
        n_KernelLogLevel = kc_LogLevel kcfg,
        n_CustomOutbounds = None,
        n_CustomRoutes = None,
        n_CustomRouteRules = Some (map conv_rule (elems (sn_CustomRouteRules node))),
        n_RouteProfiles = None,
        n_DefaultOutboundTag = [],
        n_CertConfig = None,
        n_AutoTLS = False,
        n_Domain = [],
        n_Cipher = sn_Cipher node,
        n_Plugin = sn_Plugin node,
        n_PluginOpt = sn_PluginOpt node,
        n_ServerKey = sn_ServerKey node,
        n_TLS = sn_TLS node,
        n_Flow = sn_Flow node,
        n_Decryption = sn_Decryption node,
        n_TLSSettings = cloneAnyMap (sn_TLSSettings node),
        n_Host = sn_Host node,
        n_ServerName = sn_ServerName node,
        n_Version = sn_Version node,
        n_UpMbps = sn_UpMbps node,
        n_DownMbps = sn_DownMbps node,
        n_Obfs = sn_Obfs node,
        n_ObfsPassword = sn_ObfsPassword node,
        n_CongestionControl = sn_CongestionControl node,
        n_PaddingScheme = sn_PaddingScheme node,
        n_Transport = sn_Transport node,
        n_TrafficPattern = sn_TrafficPattern node,
        n_Multiplex = map_option conv_mux (sn_Multiplex node),
        n_AcceptProxyProtocol = sn_AcceptProxyProtocol node\<rparr>))"

definition NodeSpecFromStandaloneValidated ::
  "(string \<Rightarrow> file_result) \<Rightarrow> (bool \<Rightarrow> string \<Rightarrow> (string, any) gomap option) \<Rightarrow>
    StandaloneConfig option \<Rightarrow> KernelConfig \<Rightarrow> verror + NodeSpec option" where
  "NodeSpecFromStandaloneValidated readFile parseDoc standalone kcfg =
     (let spec = NodeSpecFromStandalone standalone kcfg in
      case ValidateNodeSpec readFile parseDoc spec kcfg of Inl e \<Rightarrow> Inl e | Inr _ \<Rightarrow> Inr spec)"

definition UserSpecsFromStandalone :: "StandaloneConfig option \<Rightarrow> UserSpec slice" where
  "UserSpecsFromStandalone standalone =
     (case standalone of
        None \<Rightarrow> None
      | Some sc \<Rightarrow> Some (map (\<lambda>user. \<lparr>ID = pu_ID user, UUID = pu_UUID user, SpeedLimit = pu_SpeedLimit user,
          DeviceLimit = pu_DeviceLimit user, RouteScope = []\<rparr>) (sc_Users sc)))"

datatype standalone_error =
    StandaloneMissing
  | StandaloneWithNodes
  | StandaloneProtocol
  | StandalonePort
  | StandaloneTLS
  | StandaloneNoUsers
  | StandaloneUserID nat
  | StandaloneUserUUID nat
  | StandaloneDupID nat int
  | StandaloneDupUUID nat string

fun standalone_users :: "nat \<Rightarrow> panel_User list \<Rightarrow> int list \<Rightarrow> string list \<Rightarrow> standalone_error + unit" where
  "standalone_users i [] ids uuids = Inr ()"
| "standalone_users i (user # rest) ids uuids =
     (if pu_ID user \<le> 0 then Inl (StandaloneUserID i)
      else if pu_UUID user = [] then Inl (StandaloneUserUUID i)
      else if pu_ID user \<in> set ids then Inl (StandaloneDupID i (pu_ID user))
      else if pu_UUID user \<in> set uuids then Inl (StandaloneDupUUID i (pu_UUID user))
      else standalone_users (Suc i) rest (pu_ID user # ids) (pu_UUID user # uuids))"

text \<open>The first argument is the number of entries of the top-level \<^verbatim>\<open>nodes\<close>.\<close>

definition validateStandalone :: "nat \<Rightarrow> StandaloneConfig option \<Rightarrow> standalone_error + unit" where
  "validateStandalone nodes standalone =
     (case standalone of
        None \<Rightarrow> Inl StandaloneMissing
      | Some sc \<Rightarrow>
          (let node = sc_Node sc in
           if 0 < nodes then Inl StandaloneWithNodes
           else if sn_Protocol node = [] then Inl StandaloneProtocol
           else if sn_ServerPort node \<le> 0 \<or> 65535 < sn_ServerPort node then Inl StandalonePort
           else if sn_TLS node < 0 \<or> 2 < sn_TLS node then Inl StandaloneTLS
           else if sc_Users sc = [] then Inl StandaloneNoUsers
           else standalone_users 0 (sc_Users sc) [] []))"

section \<open>The device platform's node spec\<close>

text \<open>
  The settings arrive as JSON; \<open>unmarshal\<close> decodes a document into a map (\<open>None\<close> on an error) and
  \<open>shape\<close> decodes the normalised map into the panel's structure. Both stand for \<^verbatim>\<open>encoding/json\<close>
  applied to the panel's struct tags.
\<close>

record PlatformNodeSpec =
  ps_NodeID :: int
  ps_Revision :: int
  ps_Protocol :: string
  ps_ListenIP :: string
  ps_ServerPort :: int
  ps_KernelType :: string
  ps_Settings :: string
  ps_PushInterval :: int
  ps_PullInterval :: int

record platform_User =
  fu_ID :: int
  fu_UUID :: string
  fu_SpeedLimit :: int
  fu_DeviceLimit :: int
  fu_RouteScope :: string

definition NodeSpec_Transport :: "(string \<Rightarrow> (string, any) gomap option) \<Rightarrow> PlatformNodeSpec \<Rightarrow> string" where
  "NodeSpec_Transport unmarshal s =
     (case unmarshal (ps_Settings s) of
        None \<Rightarrow> []
      | Some settings \<Rightarrow>
          (case map_of settings ''transport'' of
             Some (AnyString value) \<Rightarrow> value
           | _ \<Rightarrow> (case map_of settings ''network'' of Some (AnyString value) \<Rightarrow> value | _ \<Rightarrow> [])))"

definition float_trunc :: "int \<Rightarrow> int \<Rightarrow> int" where
  "float_trunc m e = (if 0 \<le> e then m * 2 ^ nat e else m sdiv 2 ^ nat (- e))"

definition boolInt :: "any option \<Rightarrow> int" where
  "boolInt value = (case value of
     Some (AnyBool b) \<Rightarrow> (if b then 1 else 0)
   | Some (AnyFloat m e) \<Rightarrow> float_trunc m e
   | Some (AnyInt v) \<Rightarrow> v
   | _ \<Rightarrow> 0)"

text \<open>\<^verbatim>\<open>settings[key] == nil\<close>: the key is missing or its value is nil.\<close>

definition is_nil :: "(string, any) gomap \<Rightarrow> string \<Rightarrow> bool" where
  "is_nil m key \<longleftrightarrow> map_of m key = None \<or> map_of m key = Some AnyNil"

definition alias_key :: "string \<Rightarrow> string \<Rightarrow> (string, any) gomap \<Rightarrow> (string, any) gomap" where
  "alias_key from to m = (case map_of m from of
     Some v \<Rightarrow> if is_nil m to then mput to v m else m
   | None \<Rightarrow> m)"

definition normalize_tls :: "(string, any) gomap \<Rightarrow> (string, any) gomap" where
  "normalize_tls m = (case map_of m ''tls'' of
     Some (AnyMap tls) \<Rightarrow>
       (let m1 = mput ''tls'' (AnyInt (boolInt (map_of tls ''enabled''))) m in
        case map_of tls ''settings'' of
          Some (AnyMap explicit) \<Rightarrow> mput ''tls_settings'' (AnyMap explicit) m1
        | _ \<Rightarrow>
            (let tlsSettings = mkeep (\<lambda>key. key \<noteq> ''enabled'') tls in
             if tlsSettings \<noteq> [] then mput ''tls_settings'' (AnyMap tlsSettings) m1 else m1))
   | _ \<Rightarrow> m)"

definition normalize_settings :: "PlatformNodeSpec \<Rightarrow> (string, any) gomap \<Rightarrow> (string, any) gomap" where
  "normalize_settings s settings =
     (let m1 = (case map_of settings ''transport'' of
                  Some (AnyString transport) \<Rightarrow>
                    if is_nil settings ''network'' then mput ''network'' (AnyString transport) settings else settings
                | _ \<Rightarrow> settings);
          m2 = alias_key ''network_settings'' ''networkSettings'' m1;
          m3 = alias_key ''obfs_password'' ''obfs-password'' m2;
          m4 = normalize_tls m3
      in mput ''base_config'' (AnyMap [(''push_interval'', AnyInt (ps_PushInterval s)), (''pull_interval'', AnyInt (ps_PullInterval s))])
        (mput ''kernel_type'' (AnyString (ps_KernelType s))
        (mput ''server_port'' (AnyInt (ps_ServerPort s))
        (mput ''listen_ip'' (AnyString (ps_ListenIP s))
        (mput ''protocol'' (AnyString (ps_Protocol s))
        (mput ''node_id'' (AnyInt (ps_NodeID s)) m4))))))"

datatype platform_error = SettingsUndecodable | ShapeUndecodable | SpecInvalid verror

definition NodeSpec_Model ::
  "(string \<Rightarrow> (string, any) gomap option) \<Rightarrow> ((string, any) gomap \<Rightarrow> NodeConfig option) \<Rightarrow>
    (string \<Rightarrow> file_result) \<Rightarrow> (bool \<Rightarrow> string \<Rightarrow> (string, any) gomap option) \<Rightarrow>
    PlatformNodeSpec \<Rightarrow> KernelConfig \<Rightarrow> platform_error + NodeSpec option" where
  "NodeSpec_Model unmarshal shape readFile parseDoc s kcfg =
     (case (if ps_Settings s \<noteq> [] \<and> ps_Settings s \<noteq> ''null'' then unmarshal (ps_Settings s) else Some []) of
        None \<Rightarrow> Inl SettingsUndecodable
      | Some settings \<Rightarrow>
          (case shape (normalize_settings s settings) of
             None \<Rightarrow> Inl ShapeUndecodable
           | Some legacyShape \<Rightarrow>
               (case NodeSpecFromPanelValidated readFile parseDoc (Some legacyShape) kcfg of
                  Inl e \<Rightarrow> Inl (SpecInvalid e)
                | Inr spec \<Rightarrow> Inr spec)))"

definition UsersResponse_Models :: "platform_User list \<Rightarrow> UserSpec slice" where
  "UsersResponse_Models users = Some (map (\<lambda>user. \<lparr>ID = fu_ID user, UUID = fu_UUID user, SpeedLimit = fu_SpeedLimit user,
     DeviceLimit = fu_DeviceLimit user, RouteScope = fu_RouteScope user\<rparr>) users)"

section \<open>Properties\<close>

lemma conv_route_idem [clone_simps]: "conv_route (conv_route r) = conv_route r"
  by (simp add: conv_route_def clone_simps)

lemma conv_outbound_idem [clone_simps]: "conv_outbound (conv_outbound r) = conv_outbound r"
  by (simp add: conv_outbound_def clone_simps)

lemma conv_rule_idem [clone_simps]: "conv_rule (conv_rule r) = conv_rule r"
  by (simp add: conv_rule_def clone_simps)

lemma elems_appended [clone_simps]: "elems (appended xs) = xs"
  by (simp add: appended_def)

lemma conv_profile_idem [clone_simps]: "conv_profile (conv_profile r) = conv_profile r"
  by (simp add: conv_profile_def clone_simps comp_def)

lemma conv_mux_id [simp]: "conv_mux m = m"
  by (cases "mx_Brutal m") (simp_all add: conv_mux_def)

lemma cert_roundtrip [clone_simps]: "cert_from_panel (cert_to_panel (cert_from_panel c)) = cert_from_panel c"
  by (simp add: cert_from_panel_def cert_to_panel_def)

text \<open>
  What the panel's form cannot tell apart: a nil slice or map and an empty one. \<open>nil_empty\<close> picks nil,
  and \<open>panel_normal\<close> is a node spec with this choice made throughout, nothing else changed but the two
  fields of its certificate section that the panel's form does not have.
\<close>

definition nil_empty :: "'a slice \<Rightarrow> 'a slice" where
  "nil_empty xs = (if xs = Some [] then None else xs)"

definition normal_rule :: "CustomRouteRule \<Rightarrow> CustomRouteRule" where
  "normal_rule rule = rule\<lparr>cr_Match := (cr_Match rule)\<lparr>
     m_Domains := nil_empty (m_Domains (cr_Match rule)), m_DomainSuffixes := nil_empty (m_DomainSuffixes (cr_Match rule)),
     m_GeoIPs := nil_empty (m_GeoIPs (cr_Match rule)), m_IPCIDRs := nil_empty (m_IPCIDRs (cr_Match rule)),
     m_Ports := nil_empty (m_Ports (cr_Match rule)), m_Networks := nil_empty (m_Networks (cr_Match rule)),
     m_SourceCIDRs := nil_empty (m_SourceCIDRs (cr_Match rule)), m_SourcePorts := nil_empty (m_SourcePorts (cr_Match rule))\<rparr>\<rparr>"

definition normal_outbound :: "OutboundConfig \<Rightarrow> OutboundConfig" where
  "normal_outbound outbound = outbound\<lparr>ob_Settings := nil_empty (ob_Settings outbound)\<rparr>"

definition normal_profile :: "RouteProfile \<Rightarrow> RouteProfile" where
  "normal_profile profile = profile\<lparr>
     rp_CustomRouteRules := nil_empty (map_option (map normal_rule) (rp_CustomRouteRules profile)),
     rp_CustomOutbounds := nil_empty (map_option (map normal_outbound) (rp_CustomOutbounds profile))\<rparr>"

definition panel_normal :: "NodeSpec \<Rightarrow> NodeSpec" where
  "panel_normal n = n\<lparr>
     n_NetworkSettings := nil_empty (n_NetworkSettings n),
     n_Routes := Some (map (\<lambda>route. route\<lparr>rr_Match := nil_empty (rr_Match route)\<rparr>) (elems (n_Routes n))),
     n_CustomOutbounds := Some (map normal_outbound (elems (n_CustomOutbounds n))),
     n_CustomRoutes := nil_empty (map_option (map nil_empty) (n_CustomRoutes n)),
     n_CustomRouteRules := Some (map normal_rule (elems (n_CustomRouteRules n))),
     n_RouteProfiles := Some (map (\<lambda>(scope, profile). (scope, normal_profile profile)) (elems (n_RouteProfiles n))),
     n_CertConfig := map_option (\<lambda>c. c\<lparr>cc_AutoTLS := False, cc_CertDir := []\<rparr>) (n_CertConfig n),
     n_TLSSettings := nil_empty (n_TLSSettings n)\<rparr>"

lemma clone_nil_empty:
  "cloneAnyMap m = nil_empty m" "cloneStringSlice xs = nil_empty xs" "nil_empty (nil_empty ys) = nil_empty ys"
  by (auto simp: cloneAnyMap_def cloneStringSlice_def nil_empty_def elems_def split: option.splits)

lemma cloneMapSlice_nil_empty: "cloneMapSlice ms = nil_empty (map_option (map nil_empty) ms)"
  by (cases ms) (simp_all add: cloneMapSlice_def nil_empty_def clone_nil_empty)

lemma conv_normal:
  "conv_outbound x = normal_outbound x" "conv_rule r = normal_rule r" "conv_route t = t\<lparr>rr_Match := nil_empty (rr_Match t)\<rparr>"
  by (simp_all add: conv_outbound_def normal_outbound_def conv_rule_def normal_rule_def conv_route_def cloneRouteMatch_def
      clone_nil_empty)

lemma appended_nil_empty: "appended (map f (elems xs)) = nil_empty (map_option (map f) xs)"
  by (cases xs) (simp_all add: appended_def nil_empty_def)

lemma conv_profile_normal: "conv_profile p = normal_profile p"
  by (simp add: conv_profile_def normal_profile_def appended_nil_empty conv_normal [abs_def])

text \<open>
  C37. Every node spec survives being sent to the panel and read back. For any spec at all, with every
  one of its fields, the outcome is the spec itself up to nil and empty slices (\<open>panel_normal\<close>) and the
  two fields of the certificate section that the panel's form does not have (\<^verbatim>\<open>AutoTLS\<close> and \<^verbatim>\<open>CertDir\<close>);
  a spec without a certificate section whose slices are in that form comes back unchanged. For users,
  everything but the route scope, which the panel's form does not have either, survives.
\<close>

theorem panel_roundtrip:
  "NodeSpecFromPanel (ToPanel (Some n)) = Some (panel_normal n) \<and> NodeSpecFromPanel (ToPanel None) = None \<and>
   UserSpecsFromPanel (UserSpecsToPanel users) = map_option (map (\<lambda>u. u\<lparr>RouteScope := []\<rparr>)) users"
proof (intro conjI)
  have m: "map_option conv_mux x = x" for x by (cases x) simp_all
  have c: "map_option (\<lambda>x. cert_from_panel (cert_to_panel x)) y = map_option (\<lambda>c. c\<lparr>cc_AutoTLS := False, cc_CertDir := []\<rparr>) y" for y
    by (cases y) (simp_all add: cert_from_panel_def cert_to_panel_def)
  show "NodeSpecFromPanel (ToPanel (Some n)) = Some (panel_normal n)"
    unfolding NodeSpecFromPanel_def ToPanel_def option.case panel_normal_def
    by (simp add: clone_simps m c option.map_comp comp_def case_prod_beta')
      (simp add: clone_nil_empty cloneMapSlice_nil_empty conv_normal [abs_def] conv_profile_normal)
  show "UserSpecsFromPanel (UserSpecsToPanel users) = map_option (map (\<lambda>u. u\<lparr>RouteScope := []\<rparr>)) users"
    by (cases users) (simp_all add: UserSpecsFromPanel_def UserSpecsToPanel_def)
qed (simp add: NodeSpecFromPanel_def ToPanel_def)

lemma standalone_users_iff:
  "standalone_users i us ids uuids = Inr () \<longleftrightarrow>
     (\<forall>u \<in> set us. 0 < pu_ID u \<and> pu_UUID u \<noteq> [] \<and> pu_ID u \<notin> set ids \<and> pu_UUID u \<notin> set uuids) \<and>
     distinct (map pu_ID us) \<and> distinct (map pu_UUID us)"
  by (induction us arbitrary: i ids uuids) (auto simp: image_iff)

text \<open>
  The checks of the standalone configuration give the limiter what it relies on: if a
  configuration is accepted, the users handed to the node have distinct IDs and distinct, non-empty
  UUIDs, so that after they are applied each user's limits are in force, whatever came before.
\<close>

lemma standalone_limits_in_force:
  assumes "validateStandalone nodes (Some sc) = Inr ()" and "UserSpecsFromStandalone (Some sc) = Some users"
    and "lim_reach st" and "syncs users st st'" and "u \<in> set users"
  shows "GetDeviceLimitByUUID (fst st') (UUID u) = (if 0 < DeviceLimit u then Some (DeviceLimit u) else None) \<and>
    speed_of st' (UUID u) = (if 0 < SpeedLimit u then Some (update_bucket u) else None)"
proof -
  have "standalone_users 0 (sc_Users sc) [] [] = Inr ()"
    using assms(1) by (simp add: validateStandalone_def Let_def split: if_splits)
  then have ok: "users_ok users"
    using assms(2) unfolding standalone_users_iff
    by (auto simp: UserSpecsFromStandalone_def users_ok_def comp_def)
  have d: "GetDeviceLimitByUUID (fst st') (UUID u) = Some d \<longleftrightarrow> DeviceLimit u = d \<and> 0 < d" for d
    using lim.device_law [OF assms(3) ok assms(4)] assms(5) users_ok_same_UUID [OF ok] by blast
  then have "GetDeviceLimitByUUID (fst st') (UUID u) = (if 0 < DeviceLimit u then Some (DeviceLimit u) else None)"
    by (metis option.exhaust)
  then show ?thesis using lim.speed_law [OF assms(3) ok assms(4,5)] by blast
qed

definition demo_standalone :: StandaloneConfig where
  "demo_standalone = \<lparr>sc_Enabled = True,
     sc_Node = \<lparr>sn_Protocol = ''vless'', sn_ListenIP = [], sn_ServerPort = 443, sn_Network = [], sn_NetworkSettings = None, sn_Routes = None, sn_CustomRouteRules = None, sn_Cipher = [], sn_Plugin = [], sn_PluginOpt = [], sn_ServerKey = [], sn_TLS = 0, sn_Flow = [], sn_Decryption = [], sn_TLSSettings = None, sn_Host = [], sn_ServerName = [], sn_Version = 0, sn_UpMbps = 0, sn_DownMbps = 0, sn_Obfs = [], sn_ObfsPassword = [], sn_CongestionControl = [], sn_PaddingScheme = [], sn_Transport = [], sn_TrafficPattern = [], sn_Multiplex = None, sn_AcceptProxyProtocol = False\<rparr>,
     sc_Users = [\<lparr>pu_ID = 1, pu_UUID = ''a'', pu_SpeedLimit = 0, pu_DeviceLimit = 2\<rparr>]\<rparr>"

theorem standalone_limits_in_force_witness:
  "GetDeviceLimitByUUID (fst (demo_limits (elems (UserSpecsFromStandalone (Some demo_standalone))))) ''a'' = Some 2"
proof -
  let ?u = "\<lparr>ID = 1, UUID = ''a'', SpeedLimit = 0, DeviceLimit = 2, RouteScope = []\<rparr>"
  have v: "validateStandalone 0 (Some demo_standalone) = Inr ()"
    by (simp add: validateStandalone_def demo_standalone_def)
  have u: "UserSpecsFromStandalone (Some demo_standalone) = Some [?u]"
    by (simp add: UserSpecsFromStandalone_def demo_standalone_def)
  show ?thesis
    using standalone_limits_in_force [OF v u lim_new demo_limits_sync, of ?u] by (simp add: u)
qed

lemma map_of_alias_key:
  "map_of (alias_key from to m) k =
     (if k = to \<and> is_nil m to \<and> map_of m from \<noteq> None then map_of m from else map_of m k)"
  by (simp add: alias_key_def map_of_mput split: option.split)

lemma map_of_normalize_tls:
  "k \<noteq> ''tls'' \<Longrightarrow> k \<noteq> ''tls_settings'' \<Longrightarrow> map_of (normalize_tls m) k = map_of m k"
  by (simp add: normalize_tls_def Let_def map_of_mput split: option.split any.split)

text \<open>
  The settings document of a platform node cannot override the node's identity: after
  normalisation, node ID, protocol, listen address, port and kernel type are those of the spec,
  whatever the settings say. The network is the one the settings name, or else their transport, and
  settings other than the normalised ones are kept.
\<close>

lemma normalize_settings_spec:
  "map_of (normalize_settings s m) ''node_id'' = Some (AnyInt (ps_NodeID s)) \<and>
   map_of (normalize_settings s m) ''protocol'' = Some (AnyString (ps_Protocol s)) \<and>
   map_of (normalize_settings s m) ''listen_ip'' = Some (AnyString (ps_ListenIP s)) \<and>
   map_of (normalize_settings s m) ''server_port'' = Some (AnyInt (ps_ServerPort s)) \<and>
   map_of (normalize_settings s m) ''kernel_type'' = Some (AnyString (ps_KernelType s)) \<and>
   map_of (normalize_settings s m) ''network'' =
     (if is_nil m ''network''
      then (case map_of m ''transport'' of Some (AnyString t) \<Rightarrow> Some (AnyString t) | _ \<Rightarrow> map_of m ''network'')
      else map_of m ''network'') \<and>
   (\<forall>k. k \<in> {''node_id'', ''protocol'', ''listen_ip'', ''server_port'', ''kernel_type'', ''base_config'', ''network'',
       ''networkSettings'', ''obfs-password'', ''tls'', ''tls_settings''} \<or>
     map_of (normalize_settings s m) k = map_of m k)"
proof -
  let ?m1 = "case map_of m ''transport'' of
      Some (AnyString transport) \<Rightarrow>
        if is_nil m ''network'' then mput ''network'' (AnyString transport) m else m
    | _ \<Rightarrow> m"
  let ?m4 = "normalize_tls (alias_key ''obfs_password'' ''obfs-password'' (alias_key ''network_settings'' ''networkSettings'' ?m1))"
  have m1: "map_of ?m1 k = map_of m k" if "k \<noteq> ''network''" for k
    using that by (auto simp: map_of_mput split: option.split any.split)
  have net: "map_of ?m1 ''network'' =
     (if is_nil m ''network''
      then (case map_of m ''transport'' of Some (AnyString t) \<Rightarrow> Some (AnyString t) | _ \<Rightarrow> map_of m ''network'')
      else map_of m ''network'')"
    by (simp add: map_of_mput split: option.split any.split)
  have m4: "map_of ?m4 k = map_of ?m1 k" if "k \<notin> {''tls'', ''tls_settings'', ''obfs-password'', ''networkSettings''}" for k
    using that by (simp add: map_of_normalize_tls map_of_alias_key)
  have keep: "k = ''network'' \<or> k = ''networkSettings'' \<or> k = ''obfs-password'' \<or> k = ''tls'' \<or> k = ''tls_settings'' \<or>
      map_of ?m4 k = map_of m k" for k
    using m4 [of k] m1 [of k] by (metis empty_iff insert_iff)
  define n4 where "n4 = ?m4"
  have n4: "map_of n4 ''network'' = map_of ?m1 ''network''" using m4 [of "''network''"] by (simp add: n4_def)
  show ?thesis
    unfolding normalize_settings_def Let_def map_of_mput net [symmetric] n4_def [symmetric] n4 [symmetric]
    using keep [folded n4_def] by simp
qed

end
