(* ===== verification/ControlPlane.thy ===== *)
theory ControlPlane
  imports Outbox Mailbox Panel
begin

text \<open>
  The device platform control plane (\<^verbatim>\<open>internal/controlplane/device_platform.go\<close>): fetching a
  node's snapshot, acknowledging applied revisions, and reporting devices.

  \<^verbatim>\<open>SendTelemetry\<close> is the network: a call either is confirmed or fails, given as a boolean; what was
  attempted is part of the result. A generated idempotency key and the current time are arguments of
  the definitions that use them. \<open>ReportDevices\<close> releases its mutex while the request is under way, so
  it is a first and a second critical section around the request. \<open>ReportApplication\<close> checks the revision
  before it takes its mutex, so it is the check, the critical section and the flush; calls may overlap.
\<close>

section \<open>Types\<close>

record ApplicationResult =
  ar_Revision :: int
  ar_Status :: string
  ar_Stage :: string
  ar_Error :: string

record TelemetryEvent =
  te_Type :: string
  te_NodeID :: int
  te_OccurredAt :: string
  te_Data :: "(string, any) gomap"

record applicationReport =
  ap_key :: string
  ap_event :: TelemetryEvent

record deviceReport =
  dr_key :: string
  dr_occurredAt :: string
  dr_devices :: device_users
  dr_next :: device_users

record DevicePlatform =
  dp_nodeID :: int
  dp_kcfg :: KernelConfig
  dp_revision :: int
  dp_applicationLast :: "(int, ApplicationResult) gomap"
  dp_pendingApplications :: "applicationReport list"
  dp_pendingDevice :: "deviceReport option"

definition NewDevicePlatformControlPlane :: "int \<Rightarrow> KernelConfig \<Rightarrow> DevicePlatform" where
  "NewDevicePlatformControlPlane nodeID kcfg = \<lparr>dp_nodeID = nodeID, dp_kcfg = kcfg, dp_revision = 0,
     dp_applicationLast = [], dp_pendingApplications = [], dp_pendingDevice = None\<rparr>"

section \<open>Application results\<close>

definition application_event :: "DevicePlatform \<Rightarrow> string \<Rightarrow> ApplicationResult \<Rightarrow> TelemetryEvent" where
  "application_event p now result = \<lparr>te_Type = ''node.application'', te_NodeID = dp_nodeID p, te_OccurredAt = now,
     te_Data = [(''revision'', AnyInt (ar_Revision result)), (''status'', AnyString (ar_Status result)),
       (''stage'', AnyString (ar_Stage result)), (''error'', AnyString (ar_Error result))]\<rparr>"

text \<open>
  \<open>ReportApplication\<close> in its two parts: the revision check, on an atomic counter and outside the mutex
  (the flag tells whether it goes on), and the critical section that queues the result. Each result
  makes one atomic access to the counter that matters: an applied one raises it, any other reads it.
\<close>

definition ReportApplication_check :: "ApplicationResult \<Rightarrow> DevicePlatform \<Rightarrow> bool \<times> DevicePlatform" where
  "ReportApplication_check result p =
     (if ar_Revision result \<le> 0 then (False, p)
      else
        (let p1 = (if ar_Status result = ''applied'' \<and> dp_revision p < ar_Revision result
                   then p\<lparr>dp_revision := ar_Revision result\<rparr> else p) in
         if ar_Status result \<noteq> ''applied'' \<and> ar_Revision result \<le> dp_revision p1 then (False, p1) else (True, p1)))"

definition ReportApplication_enqueue :: "string \<Rightarrow> string \<Rightarrow> ApplicationResult \<Rightarrow> DevicePlatform \<Rightarrow> DevicePlatform" where
  "ReportApplication_enqueue key now result p =
     (let previous = map_of (dp_applicationLast p) (ar_Revision result) in
      if previous \<noteq> None \<and> (previous = Some result \<or> ar_Status result = ''received'') then p
      else p\<lparr>
        dp_applicationLast := mkeep (\<lambda>revision. \<not> revision < ar_Revision result - 8)
          (mput (ar_Revision result) result (dp_applicationLast p)),
        dp_pendingApplications := dp_pendingApplications p @ [\<lparr>ap_key = key, ap_event = application_event p now result\<rparr>]\<rparr>)"

text \<open>The outcomes of the requests in order; a request beyond the list fails. The attempted reports come first.\<close>

fun flush_loop :: "bool list \<Rightarrow> applicationReport list \<Rightarrow> applicationReport list \<times> applicationReport list" where
  "flush_loop outcomes [] = ([], [])"
| "flush_loop (True # outcomes) (report # rest) =
     (case flush_loop outcomes rest of (sent, left) \<Rightarrow> (report # sent, left))"
| "flush_loop (False # outcomes) (report # rest) = ([report], report # rest)"
| "flush_loop [] (report # rest) = ([report], report # rest)"

definition flushApplications :: "bool list \<Rightarrow> DevicePlatform \<Rightarrow> applicationReport list \<times> DevicePlatform" where
  "flushApplications outcomes p =
     (case flush_loop outcomes (dp_pendingApplications p) of
        (sent, left) \<Rightarrow> (sent, p\<lparr>dp_pendingApplications := left\<rparr>))"

definition ReportApplication ::
  "string \<Rightarrow> string \<Rightarrow> bool list \<Rightarrow> ApplicationResult \<Rightarrow> DevicePlatform \<Rightarrow> applicationReport list \<times> DevicePlatform" where
  "ReportApplication key now outcomes result p =
     (case ReportApplication_check result p of
        (go, p') \<Rightarrow> if go then flushApplications outcomes (ReportApplication_enqueue key now result p') else ([], p'))"

section \<open>Snapshots\<close>

datatype snapshot_error =
    FetchSpecFailed
  | WrongNode int
  | WaitForKernel string string
  | ConvertFailed platform_error
  | FetchUsersFailed

record Snapshot =
  ss_Revision :: int
  ss_Config :: "NodeSpec option"
  ss_Users :: "UserSpec slice"

definition normal_kernel :: "string \<Rightarrow> string" where
  "normal_kernel t = ReplaceAll ''sing-box'' ''singbox'' (ToLower (TrimSpace t))"

definition actual_kernel :: "KernelConfig \<Rightarrow> string" where
  "actual_kernel kcfg = (let k = normal_kernel (kc_Type kcfg) in if k = [] then ''singbox'' else k)"

definition desired_kernel :: "(string \<Rightarrow> (string, any) gomap option) \<Rightarrow> KernelConfig \<Rightarrow> PlatformNodeSpec \<Rightarrow> string" where
  "desired_kernel unmarshal kcfg spec =
     (let k = normal_kernel (ps_KernelType spec) in
      ResolveKernelForTransport (NodeSpec_Transport unmarshal spec) (if k = [] then actual_kernel kcfg else k))"

text \<open>
  The snapshot of a node with the application results it reports, in order. \<open>fetched\<close> and \<open>users\<close> are
  the answers of the platform, \<open>None\<close> when the request failed; \<open>msg\<close> is the text of an error.
\<close>

definition node_snapshot ::
  "(snapshot_error \<Rightarrow> string) \<Rightarrow> (string \<Rightarrow> (string, any) gomap option) \<Rightarrow> ((string, any) gomap \<Rightarrow> NodeConfig option) \<Rightarrow>
    (string \<Rightarrow> file_result) \<Rightarrow> (bool \<Rightarrow> string \<Rightarrow> (string, any) gomap option) \<Rightarrow>
    PlatformNodeSpec option \<Rightarrow> platform_User list option \<Rightarrow> DevicePlatform \<Rightarrow>
    ApplicationResult list \<times> (snapshot_error + Snapshot)" where
  "node_snapshot msg unmarshal shape readFile parseDoc fetched users p =
     (case fetched of
        None \<Rightarrow> ([], Inl FetchSpecFailed)
      | Some spec \<Rightarrow>
          if ps_NodeID spec \<noteq> dp_nodeID p then ([], Inl (WrongNode (ps_NodeID spec)))
          else
            (let received = \<lparr>ar_Revision = ps_Revision spec, ar_Status = ''received'', ar_Stage = ''fetch'', ar_Error = []\<rparr>;
                 failed = (\<lambda>stage e. ([received, \<lparr>ar_Revision = ps_Revision spec, ar_Status = ''failed'', ar_Stage = stage,
                   ar_Error = msg e\<rparr>], Inl e));
                 actual = actual_kernel (dp_kcfg p);
                 desired = desired_kernel unmarshal (dp_kcfg p) spec in
             if desired \<noteq> actual then failed ''kernel'' (WaitForKernel desired actual)
             else case NodeSpec_Model unmarshal shape readFile parseDoc spec (dp_kcfg p) of
               Inl e \<Rightarrow> failed ''convert'' (ConvertFailed e)
             | Inr modelSpec \<Rightarrow>
                 (case users of
                    None \<Rightarrow> failed ''users'' FetchUsersFailed
                  | Some us \<Rightarrow>
                      ([received], Inr \<lparr>ss_Revision = ps_Revision spec, ss_Config = modelSpec, ss_Users = UsersResponse_Models us\<rparr>))))"

section \<open>Devices\<close>

definition cloneDeviceMap :: "device_users \<Rightarrow> device_users" where
  "cloneDeviceMap input = map_option (mbuild fst (\<lambda>(uid, ips). append_nil (Some (sort (elems ips))))) input"

text \<open>\<^verbatim>\<open>reflect.DeepEqual\<close> on two non-nil maps.\<close>

definition deep_equal :: "device_users \<Rightarrow> device_users \<Rightarrow> bool" where
  "deep_equal a b \<longleftrightarrow> (a = None) = (b = None) \<and> length (elems a) = length (elems b) \<and>
     list_all (\<lambda>(k, v). map_of (elems b) k = Some v) (elems a)"

definition ReportDevices_begin ::
  "string \<Rightarrow> string \<Rightarrow> device_users \<Rightarrow> DevicePlatform \<Rightarrow> deviceReport option \<times> DevicePlatform" where
  "ReportDevices_begin key now devices p =
     (let normalizedDevices = cloneDeviceMap devices;
          send = (\<lambda>r. (Some (r\<lparr>dr_devices := cloneDeviceMap (dr_devices r)\<rparr>), p\<lparr>dp_pendingDevice := Some r\<rparr>)) in
      case dp_pendingDevice p of
        None \<Rightarrow>
          if normalizedDevices = None then (None, p)
          else send \<lparr>dr_key = key, dr_occurredAt = now, dr_devices = normalizedDevices, dr_next = None\<rparr>
      | Some r \<Rightarrow>
          if normalizedDevices \<noteq> None \<and> \<not> deep_equal normalizedDevices (dr_devices r)
          then send (r\<lparr>dr_next := normalizedDevices\<rparr>)
          else send r)"

definition ReportDevices_confirm :: "string \<Rightarrow> string \<Rightarrow> deviceReport \<Rightarrow> DevicePlatform \<Rightarrow> DevicePlatform" where
  "ReportDevices_confirm key now current p =
     (case dp_pendingDevice p of
        None \<Rightarrow> p
      | Some r \<Rightarrow>
          if dr_key r = dr_key current then
            (if dr_next r \<noteq> None
             then p\<lparr>dp_pendingDevice := Some (r\<lparr>dr_devices := dr_next r, dr_next := None, dr_key := key, dr_occurredAt := now\<rparr>)\<rparr>
             else p\<lparr>dp_pendingDevice := None\<rparr>)
          else p)"

text \<open>One call that is not interrupted: \<open>ok\<close> says whether the request is confirmed; the request comes first.\<close>

definition ReportDevices ::
  "string \<times> string \<Rightarrow> string \<times> string \<Rightarrow> bool \<Rightarrow> device_users \<Rightarrow> DevicePlatform \<Rightarrow> deviceReport option \<times> DevicePlatform" where
  "ReportDevices first second ok devices p =
     (case ReportDevices_begin (fst first) (snd first) devices p of
        (None, p') \<Rightarrow> (None, p')
      | (Some current, p') \<Rightarrow>
          (Some current, if ok then ReportDevices_confirm (fst second) (snd second) current p' else p'))"

section \<open>Sequences of application results\<close>

datatype app_op =
    ACheck ApplicationResult
  | AEnqueue string string ApplicationResult
  | AFlush "bool list"

text \<open>
  The parts of the calls in any order: results pass the revision check (\<open>al_admitted\<close>, in that order;
  \<open>al_waiting\<close> are those that have yet to take the mutex), are queued, and the queue is flushed. Logged
  are also the results that were queued with the reports made of them, the reports that were
  confirmed, and the requests that were sent.
\<close>

record app_log =
  al_admitted :: "ApplicationResult list"
  al_waiting :: "ApplicationResult list"
  al_accepted :: "(ApplicationResult \<times> applicationReport) list"
  al_confirmed :: "applicationReport list"
  al_sent :: "applicationReport list"

definition app_start :: app_log where
  "app_start = \<lparr>al_admitted = [], al_waiting = [], al_accepted = [], al_confirmed = [], al_sent = []\<rparr>"

fun app_step :: "app_op \<Rightarrow> app_log \<times> DevicePlatform \<Rightarrow> app_log \<times> DevicePlatform" where
  "app_step (ACheck result) (l, p) =
     (case ReportApplication_check result p of
        (go, p') \<Rightarrow> (if go then l\<lparr>al_admitted := al_admitted l @ [result], al_waiting := al_waiting l @ [result]\<rparr> else l, p'))"
| "app_step (AEnqueue key now result) (l, p) =
     (if result \<notin> set (al_waiting l) then (l, p)
      else
        (let p' = ReportApplication_enqueue key now result p; l' = l\<lparr>al_waiting := remove1 result (al_waiting l)\<rparr> in
         (if dp_pendingApplications p' = dp_pendingApplications p then l'
          else l'\<lparr>al_accepted := al_accepted l @ [(result, last (dp_pendingApplications p'))]\<rparr>, p')))"
| "app_step (AFlush outcomes) (l, p) =
     (let (sent, p') = flushApplications outcomes p in
      (l\<lparr>al_sent := al_sent l @ sent,
         al_confirmed := al_confirmed l @ take (length (takeWhile (\<lambda>ok. ok) outcomes)) (dp_pendingApplications p)\<rparr>, p'))"

definition app_run :: "app_op list \<Rightarrow> DevicePlatform \<Rightarrow> app_log \<times> DevicePlatform" where
  "app_run ops p = fold app_step ops (app_start, p)"

lemma flush_loop_spec:
  "flush_loop outcomes ps =
     (let n = length (takeWhile (\<lambda>ok. ok) outcomes) in (take (Suc n) ps, drop n ps))"
  by (induction outcomes ps rule: flush_loop.induct) (simp_all add: Let_def)

lemma flushApplications_spec:
  "flushApplications outcomes p =
     (let n = length (takeWhile (\<lambda>ok. ok) outcomes); ps = dp_pendingApplications p
      in (take (Suc n) ps, p\<lparr>dp_pendingApplications := drop n ps\<rparr>))"
  by (simp add: flushApplications_def flush_loop_spec Let_def)

text \<open>The two parts branch by branch.\<close>

lemma check_cases:
  assumes "ReportApplication_check result p = (go, p')"
  shows "dp_pendingApplications p' = dp_pendingApplications p" and "dp_pendingDevice p' = dp_pendingDevice p"
    and "dp_revision p \<le> dp_revision p'"
    and "go \<Longrightarrow> ar_Status result = ''applied'' \<Longrightarrow> ar_Revision result \<le> dp_revision p'"
    and "go \<Longrightarrow> ar_Status result \<noteq> ''applied'' \<Longrightarrow> dp_revision p < ar_Revision result"
  using assms by (auto simp: ReportApplication_check_def Let_def split: if_splits)

lemma enqueue_cases:
  obtains (ignored) "ReportApplication_enqueue key now result p = p"
  | (queued) "dp_pendingApplications (ReportApplication_enqueue key now result p) = dp_pendingApplications p @
        [\<lparr>ap_key = key, ap_event = application_event p now result\<rparr>]"
      and "dp_pendingDevice (ReportApplication_enqueue key now result p) = dp_pendingDevice p"
      and "dp_revision (ReportApplication_enqueue key now result p) = dp_revision p"
proof -
  have "ReportApplication_enqueue key now result p = p \<or>
      (\<exists>x. ReportApplication_enqueue key now result p = p\<lparr>dp_applicationLast := x,
        dp_pendingApplications := dp_pendingApplications p @ [\<lparr>ap_key = key, ap_event = application_event p now result\<rparr>]\<rparr>)"
    unfolding ReportApplication_enqueue_def Let_def by auto
  then show thesis using ignored queued by auto
qed

definition not_stale :: "ApplicationResult \<Rightarrow> ApplicationResult \<Rightarrow> bool" where
  "not_stale a b \<longleftrightarrow> (ar_Status a = ''applied'' \<longrightarrow> ar_Status b = ''applied'' \<or> ar_Revision a < ar_Revision b)"





section \<open>Idempotency keys\<close>

text \<open>Application results as an outbox: a step checks a result, queues one under a fresh key, or flushes.\<close>

definition app_key_step :: "string \<Rightarrow> app_log \<times> DevicePlatform \<Rightarrow> app_log \<times> DevicePlatform \<Rightarrow> bool" where
  "app_key_step k s s' \<longleftrightarrow> (\<exists>now result. s' = app_step (AEnqueue k now result) s) \<or> (\<exists>result. s' = app_step (ACheck result) s) \<or>
     (\<exists>outcomes. s' = app_step (AFlush outcomes) s)"

definition app_reqs :: "app_log \<times> DevicePlatform \<Rightarrow> (string \<times> TelemetryEvent) set" where
  "app_reqs s = (\<lambda>r. (ap_key r, ap_event r)) ` (set (dp_pendingApplications (snd s)) \<union> set (al_sent (fst s)))"

interpretation appbox: outbox app_key_step app_reqs
proof
  fix k s s'
  assume "app_key_step k s s'"
  then consider (report) now result where "s' = app_step (AEnqueue k now result) s"
    | (check) result where "s' = app_step (ACheck result) s"
    | (flush) outcomes where "s' = app_step (AFlush outcomes) s"
    unfolding app_key_step_def by blast
  then show "\<exists>v. app_reqs s' \<subseteq> insert (k, v) (app_reqs s)"
  proof cases
    case report
    obtain l p where s: "s = (l, p)" by fastforce
    show ?thesis
      by (cases rule: enqueue_cases [of k now result p]) (auto simp: report s app_reqs_def)
  next
    case check
    obtain l p where s: "s = (l, p)" by fastforce
    obtain go p' where c: "ReportApplication_check result p = (go, p')" by fastforce
    show ?thesis using check_cases(1) [OF c] by (auto simp: check s c app_reqs_def)
  next
    case flush
    obtain l p where s: "s = (l, p)" by fastforce
    let ?n = "length (takeWhile (\<lambda>ok. ok) outcomes)"
    have "set (take (Suc ?n) (dp_pendingApplications p)) \<subseteq> set (dp_pendingApplications p)"
      "set (drop ?n (dp_pendingApplications p)) \<subseteq> set (dp_pendingApplications p)"
      by (simp_all add: set_take_subset set_drop_subset)
    then have "app_reqs s' \<subseteq> app_reqs s"
      unfolding app_reqs_def flush s app_step.simps flushApplications_spec Let_def by auto
    then show ?thesis by blast
  qed
qed

text \<open>Device snapshots as an outbox: the two critical sections, each with a key it may use up.\<close>

definition dev_content :: "deviceReport \<Rightarrow> string \<times> string \<times> device_users" where
  "dev_content r = (dr_key r, dr_occurredAt r, dr_devices r)"

definition dev_step :: "string \<Rightarrow> deviceReport list \<times> DevicePlatform \<Rightarrow> deviceReport list \<times> DevicePlatform \<Rightarrow> bool" where
  "dev_step k s s' \<longleftrightarrow>
     (\<exists>now devices r p'. ReportDevices_begin k now devices (snd s) = (r, p') \<and>
        s' = (fst s @ (case r of None \<Rightarrow> [] | Some current \<Rightarrow> [current]), p')) \<or>
     (\<exists>now current. s' = (fst s, ReportDevices_confirm k now current (snd s)))"

definition dev_reqs :: "deviceReport list \<times> DevicePlatform \<Rightarrow> (string \<times> string \<times> device_users) set" where
  "dev_reqs s = dev_content ` set (fst s) \<union>
     (case dp_pendingDevice (snd s) of None \<Rightarrow> {} | Some r \<Rightarrow> {dev_content (r\<lparr>dr_devices := cloneDeviceMap (dr_devices r)\<rparr>)})"

interpretation devbox: outbox dev_step dev_reqs
proof
  fix k s s'
  assume "dev_step k s s'"
  then consider (start) now devices r p' where "ReportDevices_begin k now devices (snd s) = (r, p')"
      and "s' = (fst s @ (case r of None \<Rightarrow> [] | Some current \<Rightarrow> [current]), p')"
    | (confirm) now current where "s' = (fst s, ReportDevices_confirm k now current (snd s))"
    by (auto simp: dev_step_def)
  then show "\<exists>v. dev_reqs s' \<subseteq> insert (k, v) (dev_reqs s)"
  proof cases
    case start
    show ?thesis
    proof (cases "dp_pendingDevice (snd s)")
      case None
      then show ?thesis
        using start
        by (intro exI [of _ "(now, cloneDeviceMap (cloneDeviceMap devices))"])
          (auto simp: ReportDevices_begin_def dev_reqs_def dev_content_def Let_def split: if_splits)
    next
      case (Some q)
      then have "dev_reqs s' \<subseteq> dev_reqs s"
        using start by (auto simp: ReportDevices_begin_def dev_reqs_def dev_content_def Let_def split: if_splits)
      then show ?thesis by blast
    qed
  next
    case confirm
    show ?thesis
    proof (cases "dp_pendingDevice (snd s)")
      case None
      then show ?thesis by (auto simp: confirm ReportDevices_confirm_def dev_reqs_def)
    next
      case (Some q)
      then show ?thesis
        by (intro exI [of _ "(now, cloneDeviceMap (dr_next q))"])
          (auto simp: confirm ReportDevices_confirm_def dev_reqs_def dev_content_def)
    qed
  qed
qed

section \<open>Properties\<close>


definition demo_kcfg :: "string \<Rightarrow> KernelConfig" where
  "demo_kcfg t = \<lparr>kc_Type = t, kc_ConfigDir = [], kc_LogLevel = [], kc_GeoDataDir = [], kc_CustomOutbound = [],
     kc_CustomRoute = [], kc_CustomConfig = []\<rparr>"

definition demo_result :: "int \<Rightarrow> string \<Rightarrow> ApplicationResult" where
  "demo_result n status = \<lparr>ar_Revision = n, ar_Status = status, ar_Stage = ''kernel'', ar_Error = []\<rparr>"



text \<open>
  Overlapping calls can overtake one another between the check and the mutex: a failure of revision 1
  passes the check, the same revision is admitted as applied and queued, and the failure is queued
  behind it, so the platform is last told that the revision failed.
\<close>

lemma overtaken_result_stale:
  "map fst (al_accepted (fst (app_run
     [ACheck (demo_result 1 ''failed''), ACheck (demo_result 1 ''applied''), AEnqueue ''k1'' ''t1'' (demo_result 1 ''applied''),
      AEnqueue ''k2'' ''t2'' (demo_result 1 ''failed'')] (NewDevicePlatformControlPlane 5 (demo_kcfg ''xray''))))) =
     [demo_result 1 ''applied'', demo_result 1 ''failed''] \<and>
   \<not> not_stale (demo_result 1 ''applied'') (demo_result 1 ''failed'')"
  by (simp add: app_run_def app_start_def NewDevicePlatformControlPlane_def ReportApplication_check_def
      ReportApplication_enqueue_def demo_result_def mkeep_def application_event_def not_stale_def)

text \<open>
  C34. The idempotency key of a device report is never reused for different contents: as long as the
  generated keys are fresh, two device reports that were ever sent with the same key have the same
  time and the same devices, over all interleavings of overlapping calls, lost responses and
  replaced snapshots.
\<close>

theorem device_keys_unique:
  assumes "ob_run dev_step dev_reqs ([], NewDevicePlatformControlPlane nodeID kcfg) (sent, p) K"
    and "r \<in> set sent" and "q \<in> set sent" and "dr_key r = dr_key q"
  shows "dr_occurredAt r = dr_occurredAt q \<and> dr_devices r = dr_devices q"
proof -
  have "dev_content r \<in> dev_reqs (sent, p)" "dev_content q \<in> dev_reqs (sent, p)"
    using assms(2,3) by (auto simp: dev_reqs_def)
  then have "(dr_key r, dr_occurredAt r, dr_devices r) \<in> dev_reqs (sent, p)"
    "(dr_key r, dr_occurredAt q, dr_devices q) \<in> dev_reqs (sent, p)"
    using assms(4) by (simp_all add: dev_content_def)
  from devbox.key_determines_content [OF assms(1) _ this] show ?thesis
    by (simp add: dev_reqs_def NewDevicePlatformControlPlane_def)
qed

definition demo_devices :: "string list \<Rightarrow> device_users" where
  "demo_devices ips = Some [(1, Some ips)]"

text \<open>A report is sent, the response is lost, newer devices are set aside, the report is sent again.\<close>

theorem device_keys_unique_witness:
  "\<exists>sent p K r q. ob_run dev_step dev_reqs ([], NewDevicePlatformControlPlane 5 (demo_kcfg [])) (sent, p) K \<and>
     sent = [r, q] \<and> dr_key r = dr_key q \<and> dr_devices r = dr_devices q \<and> dr_next q \<noteq> None"
proof -
  let ?p0 = "NewDevicePlatformControlPlane 5 (demo_kcfg [])"
  obtain r p1 where b1: "ReportDevices_begin ''k1'' ''t1'' (demo_devices [''a'']) ?p0 = (Some r, p1)"
    by (simp add: ReportDevices_begin_def NewDevicePlatformControlPlane_def cloneDeviceMap_def demo_devices_def Let_def)
  obtain q p2 where b2: "ReportDevices_begin ''k2'' ''t2'' (demo_devices [''b'']) p1 = (Some q, p2)"
    using b1 by (auto simp: ReportDevices_begin_def NewDevicePlatformControlPlane_def cloneDeviceMap_def demo_devices_def
        Let_def deep_equal_def mbuild_def append_nil_def)
  have kq: "dr_key r = dr_key q" "dr_next q \<noteq> None"
    using b1 b2 by (auto simp: ReportDevices_begin_def NewDevicePlatformControlPlane_def cloneDeviceMap_def demo_devices_def
        Let_def deep_equal_def mbuild_def append_nil_def split: if_splits)
  have "dev_step ''k1'' ([], ?p0) ([r], p1)" "dev_step ''k2'' ([r], p1) ([r, q], p2)"
    unfolding dev_step_def using b1 b2 by fastforce+
  note steps = this
  have "ob_run dev_step dev_reqs ([], ?p0) ([], ?p0) {}"
    using ob_start [of dev_step dev_reqs "([], ?p0)"] by (simp add: dev_reqs_def NewDevicePlatformControlPlane_def)
  from ob_next [of dev_step dev_reqs, OF this _ steps(1)] have "ob_run dev_step dev_reqs ([], ?p0) ([r], p1) {''k1''}" by simp
  from ob_next [of dev_step dev_reqs, OF this _ steps(2)] have run: "ob_run dev_step dev_reqs ([], ?p0) ([r, q], p2) {''k2'', ''k1''}" by simp
  from device_keys_unique [OF run, of r q] kq run show ?thesis by auto
qed

text \<open>
  The idempotency key of an application report is never reused for a different event: two
  application reports ever sent with the same key carry the same event, however often they were
  retried and whatever was enqueued in between.
\<close>

lemma application_keys_unique:
  assumes "ob_run app_key_step app_reqs (app_start,
      NewDevicePlatformControlPlane nodeID kcfg) (l, p) K"
    and "a \<in> set (al_sent l)" and "b \<in> set (al_sent l)" and "ap_key a = ap_key b"
  shows "ap_event a = ap_event b"
proof -
  have "(ap_key a, ap_event a) \<in> app_reqs (l, p)" "(ap_key b, ap_event b) \<in> app_reqs (l, p)"
    using assms(2,3) by (auto simp: app_reqs_def)
  note this(1) this(2) [folded assms(4)]
  from appbox.key_determines_content [OF assms(1) _ this]
  show ?thesis by (simp add: app_reqs_def app_start_def NewDevicePlatformControlPlane_def)
qed

theorem application_keys_unique_witness:
  "\<exists>l p K a. ob_run app_key_step app_reqs (app_start,
      NewDevicePlatformControlPlane 5 (demo_kcfg [])) (l, p) K \<and> al_sent l = [a, a]"
proof -
  let ?s0 = "(app_start, NewDevicePlatformControlPlane 5 (demo_kcfg []))"
  let ?sc = "app_step (ACheck (demo_result 1 ''received'')) ?s0"
  let ?s1 = "app_step (AEnqueue ''k1'' ''t1'' (demo_result 1 ''received'')) ?sc"
  let ?s2 = "app_step (AFlush [False]) ?s1"
  let ?s3 = "app_step (AFlush [False]) ?s2"
  have "app_key_step ''k1'' ?sc ?s1" "app_key_step ''k2'' ?s1 ?s2" "app_key_step ''k3'' ?s2 ?s3" "app_key_step ''k0'' ?s0 ?sc"
    unfolding app_key_step_def by blast+
  note steps = this
  have "ob_run app_key_step app_reqs ?s0 ?s0 {}"
    using ob_start [of app_key_step app_reqs ?s0] by (simp add: app_reqs_def app_start_def NewDevicePlatformControlPlane_def)
  from ob_next [of app_key_step app_reqs, OF this _ steps(4)] have "ob_run app_key_step app_reqs ?s0 ?sc {''k0''}" by (simp del: app_step.simps)
  from ob_next [of app_key_step app_reqs, OF this _ steps(1)] have "ob_run app_key_step app_reqs ?s0 ?s1 {''k1'', ''k0''}" by (simp del: app_step.simps)
  from ob_next [of app_key_step app_reqs, OF this _ steps(2)] have "ob_run app_key_step app_reqs ?s0 ?s2 {''k2'', ''k1'', ''k0''}" by (simp del: app_step.simps)
  from ob_next [of app_key_step app_reqs, OF this _ steps(3)] have run: "ob_run app_key_step app_reqs ?s0 ?s3 {''k3'', ''k2'', ''k1'', ''k0''}" by (simp del: app_step.simps)
  obtain l p where s3: "?s3 = (l, p)" by fastforce
  then obtain a b where ab: "al_sent l = [a, b]" and k: "ap_key a = ap_key b" and key: "ap_key b = ''k1''"
    by (auto simp: ReportApplication_check_def ReportApplication_enqueue_def demo_result_def NewDevicePlatformControlPlane_def
        flushApplications_def app_start_def)
  from application_keys_unique [OF run [unfolded s3], of a b] ab k have "a = b" by simp
  then show ?thesis using run s3 ab by auto
qed

lemma deep_equal_refl: "opt_wf d \<Longrightarrow> deep_equal d d"
  by (cases d) (auto simp: deep_equal_def wf_map_def list_all_iff)

lemma opt_wf_cloneDeviceMap: "opt_wf (cloneDeviceMap d)"
  by (simp add: cloneDeviceMap_def)

text \<open>
  The newest device snapshot does not always win. If a report of devices \<open>a\<close> is unconfirmed and a
  snapshot \<open>b\<close> has been set aside behind it, then returning to \<open>a\<close> does not withdraw \<open>b\<close>: once the
  platform answers again, \<open>b\<close> is the last snapshot it confirms, although \<open>a\<close> was reported last.
\<close>

lemma device_snapshot_superseded:
  assumes "dp_pendingDevice p = None" and "a \<noteq> None" and "b \<noteq> None"
    and "\<not> deep_equal (cloneDeviceMap b) (cloneDeviceMap a)"
    and "ReportDevices f1 g1 False a p = (r1, p1)" and "ReportDevices f2 g2 False b p1 = (r2, p2)"
    and "ReportDevices f3 g3 True a p2 = (r3, p3)" and "ReportDevices f4 g4 True None p3 = (r4, p4)"
  shows "map_option dr_devices r4 = Some (cloneDeviceMap (cloneDeviceMap b)) \<and> dp_pendingDevice p4 = None"
proof -
  let ?a = "cloneDeviceMap a" and ?b = "cloneDeviceMap b"
  have n: "?a \<noteq> None" "?b \<noteq> None" "cloneDeviceMap None = None" using assms(2,3) by (simp_all add: cloneDeviceMap_def)
  let ?r = "\<lparr>dr_key = fst f1, dr_occurredAt = snd f1, dr_devices = ?a, dr_next = None\<rparr>"
  have 1: "p1 = p\<lparr>dp_pendingDevice := Some ?r\<rparr>"
    using assms(1,5) n by (auto simp: ReportDevices_def ReportDevices_begin_def Let_def)
  have 2: "p2 = p\<lparr>dp_pendingDevice := Some (?r\<lparr>dr_next := ?b\<rparr>)\<rparr>"
    using assms(4,6) n by (auto simp: 1 ReportDevices_def ReportDevices_begin_def Let_def)
  have "deep_equal ?a ?a" by (rule deep_equal_refl [OF opt_wf_cloneDeviceMap])
  then have 3: "p3 = p\<lparr>dp_pendingDevice := Some \<lparr>dr_key = fst g3, dr_occurredAt = snd g3, dr_devices = ?b, dr_next = None\<rparr>\<rparr>"
    using assms(7) n by (auto simp: 2 ReportDevices_def ReportDevices_begin_def ReportDevices_confirm_def Let_def)
  show ?thesis
    using assms(8) n by (auto simp: 3 ReportDevices_def ReportDevices_begin_def ReportDevices_confirm_def Let_def)
qed

theorem device_snapshot_superseded_witness:
  "map_option dr_devices (fst (ReportDevices (''k7'', []) (''k8'', []) True None
     (snd (ReportDevices (''k5'', []) (''k6'', []) True (demo_devices [''a''])
     (snd (ReportDevices (''k3'', []) (''k4'', []) False (demo_devices [''b''])
     (snd (ReportDevices (''k1'', []) (''k2'', []) False (demo_devices [''a''])
       (NewDevicePlatformControlPlane 5 (demo_kcfg []))))))))))
   = Some (demo_devices [''b''])"
proof -
  have 1: "dp_pendingDevice (NewDevicePlatformControlPlane 5 (demo_kcfg [])) = None"
    "demo_devices [''a''] \<noteq> None" "demo_devices [''b''] \<noteq> None"
    by (simp_all add: NewDevicePlatformControlPlane_def demo_devices_def)
  have c: "cloneDeviceMap (demo_devices [x]) = demo_devices [x]" for x
    by (simp add: demo_devices_def cloneDeviceMap_def mbuild_def append_nil_def)
  have "\<not> deep_equal (cloneDeviceMap (demo_devices [''b''])) (cloneDeviceMap (demo_devices [''a'']))"
    unfolding c by (simp add: deep_equal_def demo_devices_def)
  from device_snapshot_superseded [OF 1 this surjective_pairing surjective_pairing surjective_pairing surjective_pairing]
  show ?thesis unfolding c by blast
qed

text \<open>
  A snapshot that reaches the service is of the node it asked for and fits the kernel that runs:
  its settings passed validation, its transport is one the kernel can carry, its revision is the one
  fetched, and exactly one result, that it was received, was reported.
\<close>

lemma snapshot_sound:
  assumes "node_snapshot msg unmarshal shape readFile parseDoc fetched users p = (results, Inr snap)"
  shows "\<exists>spec us n. fetched = Some spec \<and> users = Some us \<and> ps_NodeID spec = dp_nodeID p \<and>
    ss_Revision snap = ps_Revision spec \<and> ss_Config snap = Some n \<and>
    ValidateNodeSpec readFile parseDoc (Some n) (dp_kcfg p) = Inr () \<and>
    validateTransportKernel (NodeSpec_Transport unmarshal spec) (actual_kernel (dp_kcfg p)) = Inr () \<and>
    ss_Users snap = UsersResponse_Models us \<and> map ar_Status results = [''received'']"
proof -
  obtain spec where f: "fetched = Some spec" using assms by (auto simp: node_snapshot_def split: option.splits)
  have n: "ps_NodeID spec = dp_nodeID p" using assms by (auto simp: node_snapshot_def f split: if_splits)
  have k: "desired_kernel unmarshal (dp_kcfg p) spec = actual_kernel (dp_kcfg p)"
    using assms n by (auto simp: node_snapshot_def f Let_def split: if_splits)
  obtain m where m: "NodeSpec_Model unmarshal shape readFile parseDoc spec (dp_kcfg p) = Inr m"
    using assms n k by (auto simp: node_snapshot_def f Let_def split: sum.splits)
  obtain us where us: "users = Some us"
    using assms n k m by (auto simp: node_snapshot_def f Let_def split: option.splits)
  have r: "results = [\<lparr>ar_Revision = ps_Revision spec, ar_Status = ''received'', ar_Stage = ''fetch'', ar_Error = []\<rparr>]"
    "snap = \<lparr>ss_Revision = ps_Revision spec, ss_Config = m, ss_Users = UsersResponse_Models us\<rparr>"
    using assms n k m us by (auto simp: node_snapshot_def f Let_def)
  obtain nc where v: "NodeSpecFromPanelValidated readFile parseDoc (Some nc) (dp_kcfg p) = Inr m"
    using m by (auto simp: NodeSpec_Model_def split: option.splits sum.splits)
  then obtain n' where "m = Some n'" "ValidateNodeSpec readFile parseDoc (Some n') (dp_kcfg p) = Inr ()"
    by (auto simp: NodeSpecFromPanelValidated_def Let_def NodeSpecFromPanel_def split: sum.splits)
  moreover have "validateTransportKernel (NodeSpec_Transport unmarshal spec) (actual_kernel (dp_kcfg p)) = Inr ()"
    unfolding k [symmetric] by (simp add: desired_kernel_def validateTransportKernel_def ResolveKernelForTransport_def Let_def)
  ultimately show ?thesis using f n us r by simp
qed

definition demo_platform_spec :: PlatformNodeSpec where
  "demo_platform_spec = \<lparr>ps_NodeID = 5, ps_Revision = 3, ps_Protocol = ''vless'', ps_ListenIP = [], ps_ServerPort = 443,
     ps_KernelType = [], ps_Settings = [], ps_PushInterval = 0, ps_PullInterval = 0\<rparr>"

lemma normal_kernel_xray: "normal_kernel ''xray'' = ''xray''" and normal_kernel_Nil: "normal_kernel [] = []"
proof -
  have "ToLower (TrimSpace ''xray'') = ''xray''" "ReplaceAll ''sing-box'' ''singbox'' ''xray'' = ''xray''" by code_simp+
  then show "normal_kernel ''xray'' = ''xray''" by (simp add: normal_kernel_def)
  have "ReplaceAll ''sing-box'' ''singbox'' [] = []" by code_simp
  then show "normal_kernel [] = []" by (simp add: normal_kernel_def)
qed

lemma demo_spec_valid:
  "ValidateNodeSpec (\<lambda>_. FileMissing) parseDoc (NodeSpecFromPanel (ToPanel (Some demo_spec))) (demo_kcfg ''xray'') = Inr ()"
proof -
  have t: "TrimSpace ''xray'' = ''xray''" "ToLower ''xray'' = ''xray''" by code_simp+
  show ?thesis
    by (simp add: NodeSpecFromPanel_def ToPanel_def demo_spec_def ValidateNodeSpec_def demo_kcfg_def t Let_def
        normalizeKernelType_def collectAdditionalOutboundTagSources_def collectCustomConfigOutboundTagSources_def
        collectRawOutboundTagSources_def validateOutboundTagCollisions_def ValidateCustomOutboundsForKernel_def
        ValidateCustomRouteRules_def validateTransportKernel_def)
qed

theorem snapshot_sound_witness:
  "\<exists>snap. node_snapshot (\<lambda>_. []) (\<lambda>_. Some []) (\<lambda>_. ToPanel (Some demo_spec)) (\<lambda>_. FileMissing) (\<lambda>_ _. None)
       (Some demo_platform_spec) (Some []) (NewDevicePlatformControlPlane 5 (demo_kcfg ''xray'')) =
     ([\<lparr>ar_Revision = 3, ar_Status = ''received'', ar_Stage = ''fetch'', ar_Error = []\<rparr>], Inr snap) \<and>
     ss_Revision snap = 3"
proof -
  let ?k = "demo_kcfg ''xray''"
  have a: "actual_kernel ?k = ''xray''"
    by (simp add: actual_kernel_def demo_kcfg_def normal_kernel_xray Let_def)
  have d: "desired_kernel (\<lambda>_. Some []) ?k demo_platform_spec = ''xray''"
    by (simp add: desired_kernel_def a demo_platform_spec_def normal_kernel_Nil Let_def ResolveKernelForTransport_def)
  have m: "NodeSpec_Model (\<lambda>_. Some []) (\<lambda>_. ToPanel (Some demo_spec)) (\<lambda>_. FileMissing) (\<lambda>_ _. None) demo_platform_spec ?k =
      Inr (NodeSpecFromPanel (ToPanel (Some demo_spec)))"
    using demo_spec_valid [of "\<lambda>_ _. None"]
    by (cases "ToPanel (Some demo_spec)")
      (auto simp: NodeSpec_Model_def demo_platform_spec_def NodeSpecFromPanelValidated_def Let_def ToPanel_def)
  obtain rs snap where s: "node_snapshot (\<lambda>_. []) (\<lambda>_. Some []) (\<lambda>_. ToPanel (Some demo_spec)) (\<lambda>_. FileMissing) (\<lambda>_ _. None)
       (Some demo_platform_spec) (Some []) (NewDevicePlatformControlPlane 5 ?k) = (rs, Inr snap)"
    and rs: "rs = [\<lparr>ar_Revision = 3, ar_Status = ''received'', ar_Stage = ''fetch'', ar_Error = []\<rparr>]"
    using a d m by (simp add: node_snapshot_def NewDevicePlatformControlPlane_def demo_platform_spec_def Let_def)
  from snapshot_sound [OF s] have "ss_Revision snap = 3" by (simp add: demo_platform_spec_def)
  then show ?thesis using s rs by blast
qed

end
