(* ===== verification/Tracker.thy ===== *)
theory Tracker
  imports Prelude
begin

text \<open>
  The traffic tracker (\<^verbatim>\<open>internal/tracker/tracker.go\<close>). The kernel counts bytes per user since its
  start; every tick the service hands these cumulative counters to \<open>Process\<close>, which turns them
  into deltas and adds the deltas to a pending buffer that \<open>FlushTraffic\<close> drains.

  The mutex-protected fields and the published snapshot are one record. The counters are 64-bit and
  their arithmetic wraps (\<open>i64\<close>). \<open>sha\<close> is the hexadecimal SHA-256 digest; nothing is assumed of it.
\<close>

section \<open>State and operations\<close>

type_synonym traffic = "(int, int \<times> int) gomap"
type_synonym alive = "(int, (string, bool) gomap) gomap"

record snapshot =
  sn_traffic :: traffic
  sn_aliveIPs :: alive
  sn_online :: "(int, int) gomap"
  sn_connCount :: int
  sn_inSpeed :: int
  sn_outSpeed :: int

record Tracker =
  tr_lastSeen :: traffic
  tr_pendingTraffic :: traffic
  tr_live :: snapshot
  tr_aliveIPsBuf :: "(int, string list) gomap"
  tr_lastAliveIPsHash :: string

definition Tracker_New :: Tracker where
  "Tracker_New = \<lparr>tr_lastSeen = [], tr_pendingTraffic = [],
     tr_live = \<lparr>sn_traffic = [], sn_aliveIPs = [], sn_online = [], sn_connCount = 0, sn_inSpeed = 0, sn_outSpeed = 0\<rparr>,
     tr_aliveIPsBuf = [], tr_lastAliveIPsHash = []\<rparr>"

definition copyTrafficMap :: "traffic \<Rightarrow> traffic" where
  "copyTrafficMap src = mbuild fst snd src"

definition delta :: "int \<Rightarrow> int \<Rightarrow> int" where
  "delta cum prev = (let d = i64 (cum - prev) in if d < 0 then cum else d)"

fun process_step ::
  "int \<times> (int \<times> int) \<Rightarrow> traffic \<times> traffic \<times> int \<times> int \<Rightarrow> traffic \<times> traffic \<times> int \<times> int" where
  "process_step (uid, cum) (lastSeen, pending, cycleIn, cycleOut) =
     (let prev = mget_or (0, 0) lastSeen uid;
          deltaUp = delta (fst cum) (fst prev);
          deltaDown = delta (snd cum) (snd prev);
          lastSeen' = mput uid cum lastSeen in
      if 0 < deltaUp \<or> 0 < deltaDown
      then (let cur = mget_or (0, 0) pending uid in
            (lastSeen', mput uid (i64 (fst cur + deltaUp), i64 (snd cur + deltaDown)) pending,
             i64 (cycleIn + deltaDown), i64 (cycleOut + deltaUp)))
      else (lastSeen', pending, cycleIn, cycleOut))"

definition Process :: "Tracker \<Rightarrow> traffic \<Rightarrow> alive \<Rightarrow> int \<Rightarrow> Tracker" where
  "Process t cumTraffic kernelAliveIPs connCount =
     (case fold process_step cumTraffic (tr_lastSeen t, tr_pendingTraffic t, 0, 0) of
        (lastSeen, pending, cycleIn, cycleOut) \<Rightarrow>
          t\<lparr>tr_lastSeen := lastSeen, tr_pendingTraffic := pending,
            tr_live := \<lparr>sn_traffic = copyTrafficMap pending, sn_aliveIPs = kernelAliveIPs,
              sn_online = mbuild fst (\<lambda>(uid, ips). int (length ips)) kernelAliveIPs,
              sn_connCount = connCount, sn_inSpeed = cycleIn, sn_outSpeed = cycleOut\<rparr>\<rparr>)"

definition FlushTraffic :: "Tracker \<Rightarrow> traffic \<times> Tracker" where
  "FlushTraffic t = (tr_pendingTraffic t, t\<lparr>tr_pendingTraffic := []\<rparr>)"

fun restore_step :: "int \<times> (int \<times> int) \<Rightarrow> traffic \<Rightarrow> traffic" where
  "restore_step (uid, d) pending =
     (let cur = mget_or (0, 0) pending uid in
      mput uid (i64 (fst cur + fst d), i64 (snd cur + snd d)) pending)"

definition RestoreTraffic :: "Tracker \<Rightarrow> traffic \<Rightarrow> Tracker" where
  "RestoreTraffic t data = t\<lparr>tr_pendingTraffic := fold restore_step data (tr_pendingTraffic t)\<rparr>"

definition HasTraffic :: "Tracker \<Rightarrow> bool" where
  "HasTraffic t \<longleftrightarrow> 0 < length (tr_pendingTraffic t)"

definition uid_bytes :: "int \<Rightarrow> string" where
  "uid_bytes uid = map (\<lambda>k. char_of (nat (uid div 2 ^ k mod 256))) [24, 16, 8, 0]"

definition aliveIPs_bytes :: "alive \<Rightarrow> string" where
  "aliveIPs_bytes aliveIPs =
     concat (map (\<lambda>uid. uid_bytes uid @ concat (sort (map fst (mget_or [] aliveIPs uid))))
       (sort (map fst aliveIPs)))"

definition calcAliveIPsHash :: "(string \<Rightarrow> string) \<Rightarrow> alive \<Rightarrow> string" where
  "calcAliveIPsHash sha aliveIPs =
     (if length aliveIPs = 0 then [] else sha (aliveIPs_bytes aliveIPs))"

definition FlushAliveIPs :: "(string \<Rightarrow> string) \<Rightarrow> Tracker \<Rightarrow> (int, string list) gomap option \<times> Tracker" where
  "FlushAliveIPs sha t =
     (let s = tr_live t; currentHash = calcAliveIPsHash sha (sn_aliveIPs s) in
      if currentHash = tr_lastAliveIPsHash t then (None, t)
      else (let buf = mbuild fst (\<lambda>(uid, ips). map fst ips) (sn_aliveIPs s) in
            (Some buf, t\<lparr>tr_lastAliveIPsHash := currentHash, tr_aliveIPsBuf := buf\<rparr>)))"

definition CurrentOnline :: "Tracker \<Rightarrow> (int, int) gomap" where
  "CurrentOnline t = mbuild fst snd (sn_online (tr_live t))"

fun dedup_append :: "string list \<Rightarrow> string list \<Rightarrow> string list" where
  "dedup_append ips [] = ips"
| "dedup_append ips (ip # rest) = dedup_append (if ip \<in> set ips then ips else ips @ [ip]) rest"

fun restore_alive_step :: "int \<times> string list \<Rightarrow> (int, string list) gomap \<Rightarrow> (int, string list) gomap" where
  "restore_alive_step (uid, ipList) buf = mput uid (dedup_append (mget_or [] buf uid) ipList) buf"

definition RestoreAliveIPs :: "Tracker \<Rightarrow> (int, string list) gomap \<Rightarrow> Tracker" where
  "RestoreAliveIPs t data = t\<lparr>tr_aliveIPsBuf := fold restore_alive_step data (tr_aliveIPsBuf t)\<rparr>"

definition ActiveConnections :: "Tracker \<Rightarrow> int" where
  "ActiveConnections t = sn_connCount (tr_live t)"

definition TotalConnections :: "Tracker \<Rightarrow> int" where
  "TotalConnections t = 0"

definition InboundSpeed :: "Tracker \<Rightarrow> int" where
  "InboundSpeed t = sn_inSpeed (tr_live t) sdiv 10"

definition OutboundSpeed :: "Tracker \<Rightarrow> int" where
  "OutboundSpeed t = sn_outSpeed (tr_live t) sdiv 10"

section \<open>Deltas\<close>

text \<open>
  What the tracker bills of a sequence of readings: the values that are followed by a smaller one or
  by nothing.
\<close>

fun peaks :: "int list \<Rightarrow> int" where
  "peaks [] = 0"
| "peaks [c] = c"
| "peaks (c # d # cs) = (if d < c then c else 0) + peaks (d # cs)"

fun deltas :: "int \<Rightarrow> int list \<Rightarrow> int" where
  "deltas prev [] = 0"
| "deltas prev (c # cs) = delta c prev + deltas c cs"

lemma delta_eq:
  assumes "0 \<le> c" "in_i64 c" "0 \<le> p" "in_i64 p"
  shows "delta c p = (if c < p then c else c - p)"
proof -
  have "in_i64 (c - p)" using assms by (auto simp: in_i64_def)
  then show ?thesis by (simp add: delta_def i64_id)
qed

definition counters_ok :: "int list \<Rightarrow> bool" where
  "counters_ok cs \<longleftrightarrow> (\<forall>c \<in> set cs. 0 \<le> c \<and> in_i64 c)"

lemma delta_nonneg: "0 \<le> c \<Longrightarrow> 0 \<le> delta c p"
  by (simp add: delta_def Let_def)

lemma deltas_nonneg: "counters_ok cs \<Longrightarrow> 0 \<le> deltas p cs"
  by (induction cs arbitrary: p) (auto simp: counters_ok_def delta_nonneg)

lemma deltas_peaks_aux:
  "counters_ok (p # cs) \<Longrightarrow> p + deltas p cs = peaks (p # cs)"
proof (induction cs arbitrary: p)
  case (Cons c cs)
  then have "c + deltas c cs = peaks (c # cs)" by (simp add: counters_ok_def)
  moreover have "delta c p = (if c < p then c else c - p)"
    using Cons.prems by (intro delta_eq) (auto simp: counters_ok_def)
  ultimately show ?case by auto
qed simp

lemma deltas_peaks: "counters_ok cs \<Longrightarrow> deltas 0 cs = peaks cs"
proof (cases cs)
  case (Cons c cs')
  assume "counters_ok cs"
  then show ?thesis
    using deltas_peaks_aux [of c cs'] Cons by (simp add: delta_eq counters_ok_def in_i64_def)
qed simp

lemma deltas_snoc: "deltas p (cs @ [c]) = deltas p cs + delta c (last (p # cs))"
  by (induction cs arbitrary: p) auto

section \<open>Runs of the kernel\<close>

text \<open>
  What should be billed. The readings of a user's counter belong to successive runs of the kernel: in
  one run the counter only grows, and every restart begins a new run at zero. \<open>kernel_runs runs cs\<close>
  says that \<open>runs\<close> is such a division of the readings \<open>cs\<close>, \<open>counted\<close> is what the kernel counted: the
  last reading of every run. \<open>hidden\<close> is what the tracker cannot see of it: it has only the readings,
  so a restart after which the first reading is no smaller than the last one before it looks like
  growth, and the bytes of the run before it are lost.
\<close>

definition kernel_runs :: "int list list \<Rightarrow> int list \<Rightarrow> bool" where
  "kernel_runs runs cs \<longleftrightarrow> concat runs = cs \<and> list_all (\<lambda>r. r \<noteq> [] \<and> sorted r) runs"

definition counted :: "int list list \<Rightarrow> int" where
  "counted runs = (\<Sum>r \<leftarrow> runs. last r)"

fun hidden :: "int list list \<Rightarrow> int" where
  "hidden (r # r' # rs) = (if last r \<le> hd r' then last r else 0) + hidden (r' # rs)"
| "hidden _ = 0"

lemma peaks_append:
  "r \<noteq> [] \<Longrightarrow> sorted r \<Longrightarrow>
    peaks (r @ cs) = (if cs = [] \<or> hd cs < last r then last r else 0) + peaks cs"
proof (induction r rule: peaks.induct)
  case (2 c)
  then show ?case by (cases cs) simp_all
qed simp_all

lemma peaks_runs:
  "list_all (\<lambda>r. r \<noteq> [] \<and> sorted r) runs \<Longrightarrow> peaks (concat runs) = counted runs - hidden runs"
proof (induction runs rule: hidden.induct)
  case (1 r r' rs)
  then have "peaks (concat (r' # rs)) = counted (r' # rs) - hidden (r' # rs)" by simp
  then show ?case
    using "1.prems" peaks_append [of r "concat (r' # rs)"] by (simp add: counted_def)
qed (use peaks_append [of _ "[]"] in \<open>auto simp: counted_def\<close>)

lemma hidden_nonneg:
  "counters_ok (concat runs) \<Longrightarrow> list_all (\<lambda>r. r \<noteq> [] \<and> sorted r) runs \<Longrightarrow> 0 \<le> hidden runs"
proof (induction runs rule: hidden.induct)
  case (1 r r' rs)
  then have "last r \<in> set (concat (r # r' # rs))" by simp
  then have "0 \<le> last r" using "1.prems"(1) unfolding counters_ok_def by blast
  then show ?case using "1.IH" "1.prems" by (auto simp: counters_ok_def)
qed auto

section \<open>One tick\<close>

abbreviation upof :: "traffic \<Rightarrow> int \<Rightarrow> int \<times> int" where
  "upof m u \<equiv> mget_or (0, 0) m u"

abbreviation add_pair :: "int \<times> int \<Rightarrow> int \<times> int \<Rightarrow> int \<times> int" where
  "add_pair a b \<equiv> (i64 (fst a + fst b), i64 (snd a + snd b))"

definition in_pair :: "int \<times> int \<Rightarrow> bool" where
  "in_pair p \<longleftrightarrow> in_i64 (fst p) \<and> in_i64 (snd p)"

definition delta2 :: "int \<times> int \<Rightarrow> int \<times> int \<Rightarrow> int \<times> int" where
  "delta2 c p = (delta (fst c) (fst p), delta (snd c) (snd p))"

definition pend_ok :: "traffic \<Rightarrow> bool" where
  "pend_ok m \<longleftrightarrow> (\<forall>u. in_pair (upof m u))"

definition nonneg_cum :: "traffic \<Rightarrow> bool" where
  "nonneg_cum m \<longleftrightarrow> wf_map m \<and> (\<forall>(u, c) \<in> set m. 0 \<le> fst c \<and> 0 \<le> snd c)"

lemma mget_or_notin: "u \<notin> fst ` set m \<Longrightarrow> mget_or z m u = z"
  by (simp add: mget_or_def map_of_eq_None_iff [symmetric])

lemma fold_process:
  assumes "fold process_step cum (ls, pd, ci, co) = (ls', pd', ci', co')"
    and "nonneg_cum cum" and "pend_ok pd"
  shows "upof ls' u = (case map_of cum u of None \<Rightarrow> upof ls u | Some c \<Rightarrow> c) \<and>
    upof pd' u = (case map_of cum u of None \<Rightarrow> upof pd u | Some c \<Rightarrow> add_pair (upof pd u) (delta2 c (upof ls u))) \<and>
    pend_ok pd'"
  using assms
proof (induction cum arbitrary: ls pd ci co)
  case Nil
  then show ?case by simp
next
  case (Cons e cum)
  obtain v c where e: "e = (v, c)" by (rule prod.exhaust)
  obtain ls1 pd1 ci1 co1 where s: "process_step (v, c) (ls, pd, ci, co) = (ls1, pd1, ci1, co1)"
    by (metis prod_cases4)
  have ok: "nonneg_cum cum" and nn: "0 \<le> fst c" "0 \<le> snd c" and new: "map_of cum v = None"
    using Cons.prems(2) by (auto simp: nonneg_cum_def wf_map_def e map_of_eq_None_iff)
  have ls1: "ls1 = mput v c ls"
    using s by (auto simp: Let_def split: if_splits)
  have d0: "0 \<le> delta (fst c) (fst (upof ls v))" "0 \<le> delta (snd c) (snd (upof ls v))"
    using nn by (auto intro: delta_nonneg)
  have in0: "in_i64 (fst (upof pd v))" "in_i64 (snd (upof pd v))"
    using Cons.prems(3) by (simp_all add: pend_ok_def in_pair_def)
  have pd1: "upof pd1 w = (if w = v then add_pair (upof pd v) (delta2 c (upof ls v)) else upof pd w)" for w
    using s d0 in0 by (auto simp: Let_def mget_or_mput delta2_def i64_id split: if_splits)
  have "pend_ok pd1"
    using Cons.prems(3) by (auto simp: pend_ok_def pd1 in_pair_def)
  moreover have "fold process_step cum (ls1, pd1, ci1, co1) = (ls', pd', ci', co')"
    using Cons.prems(1) s by (simp add: e)
  ultimately show ?case
    using Cons.IH [OF _ ok] new by (auto simp: e ls1 pd1 mget_or_mput split: option.split)
qed

lemma Process_user:
  assumes "nonneg_cum cum" and "pend_ok (tr_pendingTraffic t)"
  shows "upof (tr_lastSeen (Process t cum a n)) u =
      (case map_of cum u of None \<Rightarrow> upof (tr_lastSeen t) u | Some c \<Rightarrow> c)"
    and "upof (tr_pendingTraffic (Process t cum a n)) u =
      (case map_of cum u of None \<Rightarrow> upof (tr_pendingTraffic t) u
       | Some c \<Rightarrow> add_pair (upof (tr_pendingTraffic t) u) (delta2 c (upof (tr_lastSeen t) u)))"
    and "pend_ok (tr_pendingTraffic (Process t cum a n))"
proof -
  obtain ls pd ci co where f: "fold process_step cum (tr_lastSeen t, tr_pendingTraffic t, 0, 0) = (ls, pd, ci, co)"
    by (metis prod_cases4)
  note r = fold_process [OF f assms, of u]
  show "upof (tr_lastSeen (Process t cum a n)) u =
      (case map_of cum u of None \<Rightarrow> upof (tr_lastSeen t) u | Some c \<Rightarrow> c)"
    and "upof (tr_pendingTraffic (Process t cum a n)) u =
      (case map_of cum u of None \<Rightarrow> upof (tr_pendingTraffic t) u
       | Some c \<Rightarrow> add_pair (upof (tr_pendingTraffic t) u) (delta2 c (upof (tr_lastSeen t) u)))"
    and "pend_ok (tr_pendingTraffic (Process t cum a n))"
    using r by (simp_all add: Process_def f)
qed

lemma fold_restore:
  assumes "wf_map data" and "pend_ok pd"
  shows "upof (fold restore_step data pd) u =
      (case map_of data u of None \<Rightarrow> upof pd u | Some d \<Rightarrow> add_pair (upof pd u) d) \<and>
    pend_ok (fold restore_step data pd)"
  using assms
proof (induction data arbitrary: pd)
  case Nil
  then show ?case by simp
next
  case (Cons e data)
  obtain v d where e: "e = (v, d)" by (rule prod.exhaust)
  have r: "upof (restore_step (v, d) pd) w = (if w = v then add_pair (upof pd v) d else upof pd w)" for w
    by (simp add: Let_def mget_or_mput)
  then have "pend_ok (restore_step (v, d) pd)"
    using Cons.prems(2) by (auto simp: pend_ok_def in_pair_def simp del: restore_step.simps)
  moreover have "wf_map data" and "map_of data v = None"
    using Cons.prems(1) by (auto simp: wf_map_def e map_of_eq_None_iff)
  ultimately show ?case
    using Cons.IH [of "restore_step (v, d) pd"] r
    by (auto simp: e simp del: restore_step.simps split: option.split)
qed

section \<open>Runs\<close>

datatype tr_op =
    TProcess traffic alive int
  | TFlush
  | TRestore traffic

fun tr_run :: "Tracker \<Rightarrow> tr_op list \<Rightarrow> traffic list \<times> Tracker" where
  "tr_run t [] = ([], t)"
| "tr_run t (TProcess c a n # ops) = tr_run (Process t c a n) ops"
| "tr_run t (TFlush # ops) =
     (let (f, t') = FlushTraffic t; (fs, t'') = tr_run t' ops in (f # fs, t''))"
| "tr_run t (TRestore d # ops) = tr_run (RestoreTraffic t d) ops"

fun op_ok :: "tr_op \<Rightarrow> bool" where
  "op_ok (TProcess c a n) \<longleftrightarrow> nonneg_cum c \<and> (\<forall>(u, v) \<in> set c. in_pair v)"
| "op_ok TFlush \<longleftrightarrow> True"
| "op_ok (TRestore d) \<longleftrightarrow> nonneg_cum d"

text \<open>The counter values a user showed (\<open>side\<close> picks upload or download), and what was restored to it.\<close>

fun seen :: "(int \<times> int \<Rightarrow> int) \<Rightarrow> int \<Rightarrow> tr_op list \<Rightarrow> int list" where
  "seen side u [] = []"
| "seen side u (TProcess c a n # ops) =
     (case map_of c u of None \<Rightarrow> seen side u ops | Some v \<Rightarrow> side v # seen side u ops)"
| "seen side u (TFlush # ops) = seen side u ops"
| "seen side u (TRestore d # ops) = seen side u ops"

fun restored :: "(int \<times> int \<Rightarrow> int) \<Rightarrow> int \<Rightarrow> tr_op list \<Rightarrow> int" where
  "restored side u [] = 0"
| "restored side u (TProcess c a n # ops) = restored side u ops"
| "restored side u (TFlush # ops) = restored side u ops"
| "restored side u (TRestore d # ops) = side (upof d u) + restored side u ops"

definition is_side :: "(int \<times> int \<Rightarrow> int) \<Rightarrow> bool" where
  "is_side side \<longleftrightarrow> side = fst \<or> side = snd"

definition flushed_total :: "(int \<times> int \<Rightarrow> int) \<Rightarrow> int \<Rightarrow> traffic list \<Rightarrow> int" where
  "flushed_total side u fs = (\<Sum>f \<leftarrow> fs. side (upof f u))"

lemma side_add: "is_side side \<Longrightarrow> side (add_pair a b) = i64 (side a + side b)"
  by (auto simp: is_side_def)

lemma side_delta2: "is_side side \<Longrightarrow> side (delta2 a b) = delta (side a) (side b)"
  by (auto simp: is_side_def delta2_def)

lemma side_zero: "is_side side \<Longrightarrow> side (0, 0) = 0"
  by (auto simp: is_side_def)

lemma nonneg_side: "is_side side \<Longrightarrow> nonneg_cum d \<Longrightarrow> 0 \<le> side (upof d u)"
  by (auto simp: nonneg_cum_def is_side_def mget_or_def dest!: map_of_SomeD split: option.split)

lemma nonneg_lookup: "is_side side \<Longrightarrow> nonneg_cum d \<Longrightarrow> map_of d u = Some v \<Longrightarrow> 0 \<le> side v"
  using nonneg_side [of side d u] by (simp add: mget_or_def)

lemma restored_nonneg: "is_side side \<Longrightarrow> \<forall>x \<in> set ops. op_ok x \<Longrightarrow> 0 \<le> restored side u ops"
proof (induction ops)
  case (Cons x ops)
  then show ?case by (cases x) (simp_all add: nonneg_side)
qed simp

lemma seen_ok: "is_side side \<Longrightarrow> \<forall>x \<in> set ops. op_ok x \<Longrightarrow> counters_ok (seen side u ops)"
proof (induction ops)
  case (Cons x ops)
  show ?case
  proof (cases x)
    case (TProcess c a n)
    have "0 \<le> side v \<and> in_i64 (side v)" if "map_of c u = Some v" for v
      using Cons.prems TProcess nonneg_lookup [OF _ _ that, of side] map_of_SomeD [OF that]
      by (auto simp: in_pair_def is_side_def)
    then show ?thesis
      using Cons by (auto simp: TProcess counters_ok_def split: option.splits)
  qed (use Cons in auto)
qed (simp add: counters_ok_def)

text \<open>Nothing is lost and nothing is counted twice, as long as the total fits the counters.\<close>

lemma pending_fits:
  "0 \<le> p \<Longrightarrow> 0 \<le> d \<Longrightarrow> 0 \<le> x \<Longrightarrow> 0 \<le> y \<Longrightarrow> p + d + x + y < 2 ^ 63 \<Longrightarrow> i64 (p + d) = p + d"
  by (rule i64_id) (simp add: in_i64_def)

lemma Process_side:
  assumes "is_side side" and "nonneg_cum c" and "pend_ok (tr_pendingTraffic t)"
    and "0 \<le> side (upof (tr_pendingTraffic t) u)" and "map_of c u = Some v"
    and "side (upof (tr_pendingTraffic t) u) + delta (side v) (side (upof (tr_lastSeen t) u)) + x + y < 2 ^ 63"
    and "0 \<le> x" and "0 \<le> y"
  shows "side (upof (tr_pendingTraffic (Process t c a n)) u) =
      side (upof (tr_pendingTraffic t) u) + delta (side v) (side (upof (tr_lastSeen t) u))"
    and "side (upof (tr_lastSeen (Process t c a n)) u) = side v"
proof -
  note P = Process_user [OF assms(2,3), of a n]
  have "0 \<le> delta (side v) (side (upof (tr_lastSeen t) u))"
    by (rule delta_nonneg, rule nonneg_lookup [OF assms(1,2,5)])
  from pending_fits [OF assms(4) this assms(7,8,6)]
  show "side (upof (tr_pendingTraffic (Process t c a n)) u) =
      side (upof (tr_pendingTraffic t) u) + delta (side v) (side (upof (tr_lastSeen t) u))"
    by (simp add: P(2) assms(5) side_add assms(1) side_delta2 del: fst_conv snd_conv)
  show "side (upof (tr_lastSeen (Process t c a n)) u) = side v" by (simp add: P(1) assms(5))
qed

lemma Restore_side:
  assumes "is_side side" and "nonneg_cum d" and "pend_ok (tr_pendingTraffic t)"
    and "0 \<le> side (upof (tr_pendingTraffic t) u)"
    and "side (upof (tr_pendingTraffic t) u) + side (upof d u) + x + y < 2 ^ 63" and "0 \<le> x" and "0 \<le> y"
  shows "side (upof (tr_pendingTraffic (RestoreTraffic t d)) u) =
      side (upof (tr_pendingTraffic t) u) + side (upof d u)"
    and "pend_ok (tr_pendingTraffic (RestoreTraffic t d))"
proof -
  have "wf_map d" using assms(2) by (simp add: nonneg_cum_def)
  note R = fold_restore [OF this assms(3), of u]
  have fit: "i64 (side (upof (tr_pendingTraffic t) u) + side (upof d u)) =
      side (upof (tr_pendingTraffic t) u) + side (upof d u)"
    by (rule pending_fits [OF assms(4) nonneg_side [OF assms(1,2)] assms(6,7,5)])
  show "side (upof (tr_pendingTraffic (RestoreTraffic t d)) u) =
      side (upof (tr_pendingTraffic t) u) + side (upof d u)"
  proof (cases "map_of d u")
    case None
    then show ?thesis using R by (simp add: RestoreTraffic_def mget_or_def [of _ d] side_zero assms(1))
  next
    case (Some v)
    then show ?thesis
      using R fit by (simp add: RestoreTraffic_def side_add assms(1) mget_or_def [of _ d] del: fst_conv snd_conv)
  qed
  show "pend_ok (tr_pendingTraffic (RestoreTraffic t d))" using R by (simp add: RestoreTraffic_def)
qed

lemma tr_run_conserves:
  assumes "is_side side" and "\<forall>x \<in> set ops. op_ok x" and "pend_ok (tr_pendingTraffic t)"
    and "0 \<le> side (upof (tr_pendingTraffic t) u)"
    and "side (upof (tr_pendingTraffic t) u) + deltas (side (upof (tr_lastSeen t) u)) (seen side u ops) +
      restored side u ops < 2 ^ 63"
    and "tr_run t ops = (fs, t')"
  shows "flushed_total side u fs + side (upof (tr_pendingTraffic t') u) =
    side (upof (tr_pendingTraffic t) u) + deltas (side (upof (tr_lastSeen t) u)) (seen side u ops) +
      restored side u ops"
  using assms(2-)
proof (induction ops arbitrary: t fs)
  case Nil
  then show ?case by (simp add: flushed_total_def)
next
  case (Cons x ops)
  have ok: "\<forall>x \<in> set ops. op_ok x" using Cons.prems(1) by simp
  have rest: "0 \<le> deltas l (seen side u ops)" "0 \<le> restored side u ops" for l
    using seen_ok [OF assms(1) ok] deltas_nonneg restored_nonneg [OF assms(1) ok] by blast+
  show ?case
  proof (cases x)
    case (TProcess c a n)
    have nn: "nonneg_cum c" using Cons.prems(1) TProcess by simp
    note P = Process_user [OF nn Cons.prems(2), of a n]
    show ?thesis
    proof (cases "map_of c u")
      case None
      then show ?thesis using Cons.IH [OF ok, of "Process t c a n"] Cons.prems P by (simp add: TProcess)
    next
      case (Some v)
      note S = Process_side [OF assms(1) nn Cons.prems(2,3) Some _ rest(1) rest(2), of "side v" a n]
      have "0 \<le> delta (side v) (side (upof (tr_lastSeen t) u))"
        by (rule delta_nonneg, rule nonneg_lookup [OF assms(1) nn Some])
      then show ?thesis
        using Cons.IH [OF ok P(3), of fs] Cons.prems(3,4,5) S by (simp add: TProcess Some algebra_simps)
    qed
  next
    case TFlush
    obtain fs' where r: "tr_run (t\<lparr>tr_pendingTraffic := []\<rparr>) ops = (fs', t')" and fs: "fs = tr_pendingTraffic t # fs'"
      using Cons.prems(5) by (auto simp: TFlush FlushTraffic_def split: prod.splits)
    have z: "side (upof [] u) = 0" by (simp add: mget_or_def side_zero assms(1))
    have "pend_ok []" by (simp add: pend_ok_def mget_or_def in_pair_def in_i64_def)
    then show ?thesis
      using Cons.IH [OF ok _ _ _ r] Cons.prems(3,4) by (simp add: TFlush fs z flushed_total_def)
  next
    case (TRestore d)
    have nn: "nonneg_cum d" using Cons.prems(1) TRestore by simp
    note R = Restore_side [OF assms(1) nn Cons.prems(2,3) _ rest(1) rest(2), of "side (upof (tr_lastSeen t) u)"]
    have "tr_lastSeen (RestoreTraffic t d) = tr_lastSeen t" by (simp add: RestoreTraffic_def)
    then show ?thesis
      using Cons.IH [OF ok, of "RestoreTraffic t d" fs] Cons.prems(3-) R nonneg_side [OF assms(1) nn, of u]
      by (simp add: TRestore algebra_simps)
  qed
qed

lemma tr_run_New_conserves:
  assumes "is_side side" and "\<forall>x \<in> set ops. op_ok x" and "kernel_runs runs (seen side u ops)"
    and "counted runs + restored side u ops < 2 ^ 63"
    and "tr_run Tracker_New ops = (fs, t')"
  shows "flushed_total side u fs + side (upof (tr_pendingTraffic t') u) =
    counted runs - hidden runs + restored side u ops"
proof -
  have z: "upof (tr_pendingTraffic Tracker_New) u = (0, 0)" "upof (tr_lastSeen Tracker_New) u = (0, 0)"
    and p: "pend_ok (tr_pendingTraffic Tracker_New)"
    by (simp_all add: Tracker_New_def mget_or_def pend_ok_def in_pair_def in_i64_def)
  have ok: "counters_ok (seen side u ops)" by (rule seen_ok [OF assms(1,2)])
  have "deltas 0 (seen side u ops) = counted runs - hidden runs" and "0 \<le> hidden runs"
    using assms(3) ok deltas_peaks [OF ok] peaks_runs [of runs] hidden_nonneg [of runs]
    by (simp_all add: kernel_runs_def)
  then show ?thesis
    using tr_run_conserves [OF assms(1,2) p _ _ assms(5), of u] assms(4) by (simp add: z side_zero assms(1))
qed

section \<open>Alive IPs\<close>

text \<open>Two maps of alive IPs hold the same users with the same sets of IPs.\<close>

definition same_alive :: "alive \<Rightarrow> alive \<Rightarrow> bool" where
  "same_alive a b \<longleftrightarrow> wf_map a \<and> wf_map b \<and> fst ` set a = fst ` set b \<and>
     (\<forall>u \<in> fst ` set a. wf_map (mget_or [] a u) \<and> wf_map (mget_or [] b u) \<and>
        fst ` set (mget_or [] a u) = fst ` set (mget_or [] b u))"

lemma sort_same_keys:
  fixes xs ys :: "('a :: linorder \<times> 'b) list"
  assumes "wf_map xs" and "wf_map ys" and "fst ` set xs = fst ` set ys"
  shows "sort (map fst xs) = sort (map fst ys)"
  by (rule sorted_distinct_set_unique) (use assms in \<open>simp_all add: wf_map_def\<close>)

lemma calcAliveIPsHash_cong:
  assumes "same_alive a b"
  shows "calcAliveIPsHash sha a = calcAliveIPsHash sha b"
proof -
  have "sort (map fst a) = sort (map fst b)"
    using assms by (intro sort_same_keys) (auto simp: same_alive_def)
  moreover have "sort (map fst (mget_or [] a u)) = sort (map fst (mget_or [] b u))"
    if "u \<in> fst ` set a" for u
    using assms that unfolding same_alive_def by (intro sort_same_keys) blast+
  ultimately have "aliveIPs_bytes a = aliveIPs_bytes b"
    unfolding aliveIPs_bytes_def
    by (intro arg_cong [where f = concat] map_cong) (metis set_map set_sort)+
  moreover have "a = [] \<longleftrightarrow> b = []"
    using assms by (auto simp: same_alive_def)
  ultimately show ?thesis by (simp add: calcAliveIPsHash_def)
qed

lemma FlushAliveIPs_hash:
  "tr_lastAliveIPsHash (snd (FlushAliveIPs sha t)) = calcAliveIPsHash sha (sn_aliveIPs (tr_live t))"
  by (simp add: FlushAliveIPs_def Let_def)

lemma Process_alive: "sn_aliveIPs (tr_live (Process t c a n)) = a"
  and Process_hash: "tr_lastAliveIPsHash (Process t c a n) = tr_lastAliveIPsHash t"
  by (simp_all add: Process_def split: prod.split)

lemma FlushAliveIPs_unchanged:
  assumes "calcAliveIPsHash sha a = calcAliveIPsHash sha b"
  shows "fst (FlushAliveIPs sha (Process (snd (FlushAliveIPs sha (Process t c a n))) c' b n')) = None"
  using assms
  by (simp add: FlushAliveIPs_def [of _ "Process (snd _) _ _ _"] Let_def Process_alive Process_hash FlushAliveIPs_hash)

section \<open>Properties\<close>

text \<open>
  C6. Traffic is conserved. Over any interleaving of ticks, flushes and restores, and however the
  readings of a user divide into runs of the kernel, what has been flushed for the user plus what is
  still pending is what was restored, plus what the kernel counted (the last reading of every run),
  less the runs that ended in a hidden restart: one whose next reading is at least the last one, which
  the tracker takes for growth. So nothing is ever billed twice, and all of it is billed when every
  restart shows a smaller reading. Each of upload and download is covered, ticks that do not list the
  user included, provided the counters are non-negative and the total stays below \<open>2 ^ 63\<close>.
\<close>

theorem traffic_conserved:
  assumes "is_side side" and "\<forall>x \<in> set ops. op_ok x" and "kernel_runs runs (seen side u ops)"
    and "counted runs + restored side u ops < 2 ^ 63"
    and "tr_run Tracker_New ops = (fs, t')"
  shows "flushed_total side u fs + side (upof (tr_pendingTraffic t') u) =
    counted runs - hidden runs + restored side u ops"
  by (rule tr_run_New_conserves [OF assms])

definition demo_ticks :: "tr_op list" where
  "demo_ticks = [TProcess [(1, (10, 100))] [] 1, TFlush, TProcess [(1, (15, 160)), (2, (7, 7))] [] 2,
     TProcess [(1, (4, 30))] [] 1, TFlush, TRestore [(1, (0, 5))]]"

theorem traffic_conserved_witness:
  "flushed_total snd 1 (fst (tr_run Tracker_New demo_ticks)) +
     snd (upof (tr_pendingTraffic (snd (tr_run Tracker_New demo_ticks))) 1) = 195"
proof -
  have "\<forall>x \<in> set demo_ticks. op_ok x"
    by (simp add: demo_ticks_def nonneg_cum_def wf_map_def in_pair_def in_i64_def)
  moreover have "kernel_runs [[100, 160], [30]] (seen snd 1 demo_ticks)"
    by (simp add: kernel_runs_def demo_ticks_def)
  moreover have "restored snd 1 demo_ticks = 5" "counted [[100, 160], [30]] = 190" "hidden [[100, 160], [30]] = 0"
    by (simp_all add: demo_ticks_def counted_def mget_or_def)
  ultimately show ?thesis
    using traffic_conserved [of snd demo_ticks "[[100, 160], [30]]" 1 "fst (tr_run Tracker_New demo_ticks)"]
    by (simp add: is_side_def)
qed

text \<open>
  A hidden restart does lose traffic: a kernel that counted 10 bytes, restarted and counted 15 more is
  billed for 15 of its 25 bytes.
\<close>

lemma hidden_restart_loses:
  "(let (fs, t) = tr_run Tracker_New [TProcess [(1, (10, 0))] [] 1, TProcess [(1, (15, 0))] [] 1, TFlush] in
     counted [[10], [15]] = 25 \<and> flushed_total fst 1 fs = 15 \<and> tr_pendingTraffic t = [])"
  by code_simp

text \<open>
  A device snapshot is reported exactly as the kernel gave it, and an unchanged one is not
  reported again: a flush either returns, for every user, the IPs of the last tick, or nothing; and
  after a flush, however the maps of the next tick happen to be ordered, a tick with the same users
  and the same IPs makes the next flush return nothing.
\<close>

lemma devices_reported_once:
  assumes "wf_map a" and "same_alive a b"
  shows "(case fst (FlushAliveIPs sha (Process t c a n)) of
      None \<Rightarrow> calcAliveIPsHash sha a = tr_lastAliveIPsHash t
    | Some buf \<Rightarrow> \<forall>u. map_of buf u = map_option (map fst) (map_of a u)) \<and>
    fst (FlushAliveIPs sha (Process (snd (FlushAliveIPs sha (Process t c a n))) c' b n')) = None"
proof -
  have "distinct (map fst a)" using assms(1) by (simp add: wf_map_def)
  then have "mbuild fst (\<lambda>(uid, ips). map fst ips) a = map (\<lambda>x. (fst x, map fst (snd x))) a"
    by (simp add: mbuild_distinct case_prod_beta')
  then have "map_of (mbuild fst (\<lambda>(uid, ips). map fst ips) a) u = map_option (map fst) (map_of a u)" for u
    by (simp add: map_of_map_snd)
  moreover note FlushAliveIPs_unchanged [OF calcAliveIPsHash_cong [OF assms(2)], of sha t c n c' n']
  ultimately show ?thesis
    by (simp add: FlushAliveIPs_def Let_def Process_alive Process_hash)
qed

definition demo_alive :: "string list \<Rightarrow> alive" where
  "demo_alive ips = [(1, map (\<lambda>ip. (ip, True)) ips)]"

theorem devices_reported_once_witness:
  "fst (FlushAliveIPs (\<lambda>x. x) (Process (snd (FlushAliveIPs (\<lambda>x. x) (Process Tracker_New [] (demo_alive [''10.0.0.1'', ''10.0.0.2'']) 2)))
     [] (demo_alive [''10.0.0.2'', ''10.0.0.1'']) 2)) = None"
proof -
  have "wf_map (demo_alive [''10.0.0.1'', ''10.0.0.2''])"
    and "same_alive (demo_alive [''10.0.0.1'', ''10.0.0.2'']) (demo_alive [''10.0.0.2'', ''10.0.0.1''])"
    by (auto simp: demo_alive_def same_alive_def wf_map_def mget_or_def)
  from devices_reported_once [OF this] show ?thesis by blast
qed

text \<open>
  The digest that decides whether devices changed is taken over the concatenated IPs, without a
  separator, so some changes go unnoticed whatever the hash function is: after \<open>1.1.1.1\<close> and
  \<open>12.1.1.1\<close> were reported, the devices \<open>1.1.1.11\<close> and \<open>2.1.1.1\<close> that replace them are not.
\<close>

lemma device_change_missed:
  "fst ` set (mget_or [] (demo_alive [''1.1.1.1'', ''12.1.1.1'']) 1) \<noteq>
     fst ` set (mget_or [] (demo_alive [''1.1.1.11'', ''2.1.1.1'']) 1) \<and>
   fst (FlushAliveIPs sha (Process (snd (FlushAliveIPs sha (Process t c (demo_alive [''1.1.1.1'', ''12.1.1.1'']) n)))
     c' (demo_alive [''1.1.1.11'', ''2.1.1.1'']) n')) = None"
proof -
  have "sort [''1.1.1.1'', ''12.1.1.1''] = [''1.1.1.1'', ''12.1.1.1'']"
    and "sort [''1.1.1.11'', ''2.1.1.1''] = [''1.1.1.11'', ''2.1.1.1'']" and "sort [1 :: int] = [1]"
    by (rule sorted_sort_id, simp)+
  then have "aliveIPs_bytes (demo_alive [''1.1.1.1'', ''12.1.1.1'']) = aliveIPs_bytes (demo_alive [''1.1.1.11'', ''2.1.1.1''])"
    by (simp add: aliveIPs_bytes_def demo_alive_def mget_or_def del: sort_key_simps)
  then have "calcAliveIPsHash sha (demo_alive [''1.1.1.1'', ''12.1.1.1'']) =
      calcAliveIPsHash sha (demo_alive [''1.1.1.11'', ''2.1.1.1''])"
    by (simp add: calcAliveIPsHash_def demo_alive_def)
  from FlushAliveIPs_unchanged [OF this, of t c n c' n'] show ?thesis
    by (simp add: demo_alive_def mget_or_def insert_eq_iff)
qed

end
