(* ===== verification/Service.thy ===== *)
theory Service
  imports ControlPlane Tracker
begin

text \<open>
  The node service (\<^verbatim>\<open>internal/service/service.go\<close>): it applies configurations and users to a proxy
  kernel, tracks traffic and reports it.

  The proxy kernel and the certificate manager are used through their interfaces (\<^verbatim>\<open>kernel.Kernel\<close>,
  \<^verbatim>\<open>cert.Manager\<close>): a record of the functions the service calls, over an abstract state of their own.
  An error is \<open>Some\<close> text, nil is \<open>None\<close>. \<open>env\<close> gathers them with the hash and JSON functions, the order
  in which a range over a map runs, and what the control plane supports. Effects on the outside are
  recorded in the state: the application results handed to the control plane (\<open>s_reported\<close>) and the
  polls started (\<open>s_pulls\<close>). The log lines are not modelled. The main loop runs one handler at a time;
  the goroutine of a poll is split into its start and its end.
\<close>

section \<open>Types\<close>

type_synonym TLSCert = "string \<times> string"
type_synonym err = "string option"

definition HasCert :: "TLSCert \<Rightarrow> bool" where
  "HasCert t \<longleftrightarrow> fst t \<noteq> [] \<and> snd t \<noteq> []"

record 'k Kernel =
  k_Start :: "NodeSpec option \<Rightarrow> UserSpec slice \<Rightarrow> TLSCert \<Rightarrow> 'k \<Rightarrow> err \<times> 'k"
  k_Stop :: "'k \<Rightarrow> 'k"
  k_IsRunning :: "'k \<Rightarrow> bool"
  k_Reload :: "NodeSpec option \<Rightarrow> UserSpec slice \<Rightarrow> TLSCert \<Rightarrow> 'k \<Rightarrow> err \<times> 'k"
  k_AddUsers :: "UserSpec slice \<Rightarrow> 'k \<Rightarrow> err \<times> 'k"
  k_RemoveUsers :: "UserSpec slice \<Rightarrow> 'k \<Rightarrow> err \<times> 'k"
  k_UpdateUsers :: "UserSpec slice \<Rightarrow> 'k \<Rightarrow> err \<times> 'k"
  k_GetUserTraffic :: "'k \<Rightarrow> (traffic \<times> alive \<times> int) option"
  k_UpdateGlobalDevices :: "device_users \<Rightarrow> 'k \<Rightarrow> 'k"
  k_ClearGlobalDevices :: "'k \<Rightarrow> 'k"
  k_Protocols :: "string list"

record 'c CertManager =
  c_Reconfigure :: "CertConfig \<Rightarrow> 'c \<Rightarrow> (string + bool) \<times> 'c"
  c_TLSCert :: "'c \<Rightarrow> TLSCert"
  c_CertRenewed :: "'c \<Rightarrow> bool \<times> 'c"

datatype runtime_error =
    SpecNil
  | ProtocolUnsupported string string
  | CertificateRequired string
  | DNSProviderRequired
  | DNSProviderUnknown string
  | RealitySettings
  | RealityPrivateKey
  | RealityTarget

record ('k, 'c) env =
  e_kernel :: "'k Kernel"
  e_cert :: "'c CertManager"
  e_sha :: "string \<Rightarrow> string"
  e_json :: "NodeSpec \<Rightarrow> string"
  e_rng :: "(int \<times> UserSpec) list \<Rightarrow> (int \<times> UserSpec) list"
  e_dnsKnown :: "string \<Rightarrow> bool"
  e_msg :: "runtime_error \<Rightarrow> string"
  e_SupportsPolling :: bool
  e_SupportsDiscovery :: bool
  e_SupportsReporting :: bool
  e_SupportsDeviceReports :: bool
  e_ReportsApplication :: bool

record ReportPayload =
  pl_AppliedRevision :: int
  pl_BatchID :: string
  pl_OccurredAt :: string
  pl_Traffic :: "traffic"
  pl_Alive :: "(int, string list) gomap option"
  pl_Online :: "(int, int) gomap"
  pl_CPU :: any
  pl_Mem :: "any \<times> any"
  pl_Swap :: "any \<times> any"
  pl_Disk :: "any \<times> any"
  pl_Metrics :: "(string, any) gomap"

record ('k, 'c) Service =
  s_kernelType :: string
  s_logLevel :: string
  s_certCfg :: CertConfig
  s_kernel :: 'k
  s_certMgr :: 'c
  s_tracker :: Tracker
  s_limiter :: Limiter
  s_speedTracker :: SpeedTracker
  s_lastConfig :: "NodeSpec option"
  s_lastUsers :: "UserSpec slice"
  s_desiredRevision :: int
  s_appliedRevision :: int
  s_lastKernelError :: err
  s_appliedConfig :: "NodeSpec option"
  s_appliedUsers :: "UserSpec slice"
  s_lastUserHash :: string
  s_lastConfigHash :: string
  s_pullBackoff :: int
  s_pushBackoff :: int
  s_pushActive :: bool
  s_pullActive :: bool
  s_wsClient :: "nat option"
  s_wsRunning :: "nat option"
  s_wsResyncPending :: bool
  s_reconcileNeeded :: bool
  s_wsDisconnected :: bool
  s_machineMailbox :: "NodeMailbox option"
  s_pendingReport :: "ReportPayload option"
  s_reported :: "ApplicationResult list"
  s_pulls :: "(string \<times> bool) list"

record pullResult =
  pr_revision :: int
  pr_config :: "NodeSpec option"
  pr_users :: "UserSpec slice"
  pr_configHash :: string
  pr_userHash :: string
  pr_certChanged :: bool

section \<open>Backoff\<close>

definition shouldSkip :: "int \<Rightarrow> bool \<times> int" where
  "shouldSkip skipRemaining = (if 0 < skipRemaining then (True, skipRemaining - 1) else (False, skipRemaining))"

definition onSuccess :: "int \<Rightarrow> int" where
  "onSuccess skipRemaining = 0"

definition onFailure :: "int \<Rightarrow> int" where
  "onFailure skipRemaining =
     (if skipRemaining \<le> 0 then 1 else if skipRemaining < 8 then skipRemaining * 2 else skipRemaining)"

section \<open>Hashes and user lists\<close>

definition le64 :: "int \<Rightarrow> string" where
  "le64 x = map (\<lambda>k. char_of (nat (x div 2 ^ (8 * k) mod 256))) [0..<8]"

text \<open>Users with equal IDs are hashed in list order (\<^verbatim>\<open>sort.Slice\<close> leaves their order open).\<close>

definition user_bytes :: "UserSpec \<Rightarrow> string" where
  "user_bytes u = le64 (ID u) @ UUID u @ le64 (SpeedLimit u) @ le64 (DeviceLimit u)"

definition computeUserHash :: "(string \<Rightarrow> string) \<Rightarrow> UserSpec slice \<Rightarrow> string" where
  "computeUserHash sha users = sha (concat (map user_bytes (sort_key ID (elems users))))"

definition computeConfigHash :: "('k, 'c) env \<Rightarrow> NodeSpec option \<Rightarrow> string" where
  "computeConfigHash en cfg = (case cfg of None \<Rightarrow> [] | Some n \<Rightarrow> e_sha en (e_json en n))"

definition mergeUsers ::
  "((int \<times> UserSpec) list \<Rightarrow> (int \<times> UserSpec) list) \<Rightarrow> UserSpec slice \<Rightarrow> UserSpec slice \<Rightarrow> UserSpec slice" where
  "mergeUsers rng base dlt =
     (case dlt of
        None \<Rightarrow> Some (elems base)
      | Some d \<Rightarrow> Some (map snd (rng (mbuild ID (\<lambda>u. u) (elems base @ d)))))"

definition subtractUsers :: "UserSpec slice \<Rightarrow> UserSpec slice \<Rightarrow> UserSpec slice" where
  "subtractUsers base dlt =
     (case base of
        None \<Rightarrow> None
      | Some b \<Rightarrow> if elems dlt = [] then base else Some (filter (\<lambda>u. ID u \<notin> ID ` set (elems dlt)) b))"

section \<open>Runtime validation\<close>

definition stringValue :: "any option \<Rightarrow> string" where
  "stringValue v = (case v of Some (AnyString s) \<Rightarrow> s | _ \<Rightarrow> [])"

definition cfgKernelType :: "string \<Rightarrow> string" where
  "cfgKernelType kernelType = ToLower (TrimSpace kernelType)"

definition validateRealityRequirements :: "NodeSpec \<Rightarrow> string \<Rightarrow> runtime_error + unit" where
  "validateRealityRequirements spec kernelType =
     (case n_TLSSettings spec of
        None \<Rightarrow> Inl RealitySettings
      | Some m \<Rightarrow>
          (let privateKey = TrimSpace (stringValue (map_of m ''private_key''));
               serverName = TrimSpace (stringValue (map_of m ''server_name''));
               dest = TrimSpace (stringValue (map_of m ''dest'')) in
           if privateKey = [] then Inl RealityPrivateKey
           else if serverName = [] \<and> dest = [] then Inl RealityTarget
           else Inr ()))"

definition hasUsableTLSConfig :: "NodeSpec \<Rightarrow> TLSCert \<Rightarrow> bool" where
  "hasUsableTLSConfig spec tls =
     (if HasCert tls then True
      else case n_CertConfig spec of
        None \<Rightarrow> False
      | Some c \<Rightarrow>
          (let mode = ToLower (TrimSpace (cc_CertMode c)) in
           if mode = ''self'' then True
           else if mode = ''content'' then TrimSpace (cc_CertContent c) \<noteq> [] \<and> TrimSpace (cc_KeyContent c) \<noteq> []
           else if mode = ''file'' then TrimSpace (cc_CertFile c) \<noteq> [] \<and> TrimSpace (cc_KeyFile c) \<noteq> []
           else if mode = ''http'' then TrimSpace (cc_Domain c) \<noteq> []
           else if mode = ''dns'' then TrimSpace (cc_Domain c) \<noteq> [] \<and> TrimSpace (cc_DNSProvider c) \<noteq> []
           else False))"

definition validateTLSRequirements :: "NodeSpec \<Rightarrow> TLSCert \<Rightarrow> string \<Rightarrow> runtime_error + unit" where
  "validateTLSRequirements spec tls kernelType =
     (let needsCert = (n_Protocol spec \<in> {''hysteria'', ''hysteria2'', ''tuic'', ''anytls''} \<or>
            n_Protocol spec = ''trojan'' \<and> n_TLS spec \<noteq> 2) in
      if needsCert \<and> \<not> hasUsableTLSConfig spec tls then Inl (CertificateRequired (n_Protocol spec))
      else if n_TLS spec = 2 then validateRealityRequirements spec kernelType
      else Inr ())"

definition validateRuntimeCertConfig :: "(string \<Rightarrow> bool) \<Rightarrow> NodeSpec \<Rightarrow> runtime_error + unit" where
  "validateRuntimeCertConfig dnsKnown spec =
     (case n_CertConfig spec of
        None \<Rightarrow> Inr ()
      | Some c \<Rightarrow>
          if ToLower (TrimSpace (cc_CertMode c)) \<noteq> ''dns'' then Inr ()
          else
            (let provider = TrimSpace (cc_DNSProvider c) in
             if provider = [] then Inl DNSProviderRequired
             else if \<not> dnsKnown provider then Inl (DNSProviderUnknown provider)
             else Inr ()))"

definition validateNodeRuntime ::
  "(string \<Rightarrow> bool) \<Rightarrow> string \<Rightarrow> string list \<Rightarrow> NodeSpec option \<Rightarrow> TLSCert \<Rightarrow> runtime_error + unit" where
  "validateNodeRuntime dnsKnown kernelType supported spec tls =
     (case spec of
        None \<Rightarrow> Inl SpecNil
      | Some n \<Rightarrow>
          if n_Protocol n \<notin> set supported then Inl (ProtocolUnsupported (n_Protocol n) kernelType)
          else case validateTLSRequirements n tls (cfgKernelType kernelType) of
            Inl e \<Rightarrow> Inl e
          | Inr _ \<Rightarrow> validateRuntimeCertConfig dnsKnown n)"

section \<open>Reporting what was applied\<close>

definition running :: "('k, 'c) env \<Rightarrow> ('k, 'c) Service \<Rightarrow> bool" where
  "running en s = k_IsRunning (e_kernel en) (s_kernel s)"

definition tlsCert :: "('k, 'c) env \<Rightarrow> ('k, 'c) Service \<Rightarrow> TLSCert" where
  "tlsCert en s = c_TLSCert (e_cert en) (s_certMgr s)"

definition reportApplication :: "('k, 'c) env \<Rightarrow> string \<Rightarrow> string \<Rightarrow> err \<Rightarrow> ('k, 'c) Service \<Rightarrow> ('k, 'c) Service" where
  "reportApplication en status stage e s =
     (if s_desiredRevision s \<le> 0 \<or> \<not> e_ReportsApplication en then s
      else s\<lparr>s_reported := s_reported s @ [\<lparr>ar_Revision = s_desiredRevision s, ar_Status = status, ar_Stage = stage,
        ar_Error = (case e of None \<Rightarrow> [] | Some m \<Rightarrow> m)\<rparr>]\<rparr>)"

definition confirmApplication :: "('k, 'c) env \<Rightarrow> ('k, 'c) Service \<Rightarrow> ('k, 'c) Service" where
  "confirmApplication en s =
     (if \<not> running en s then s
      else
        (let s1 = s\<lparr>s_reconcileNeeded := False\<rparr> in
         if s_desiredRevision s1 \<le> 0 \<or> s_desiredRevision s1 = s_appliedRevision s1 then s1
         else reportApplication en ''applied'' ''kernel'' None (s1\<lparr>s_appliedRevision := s_desiredRevision s1\<rparr>)))"

section \<open>User state\<close>

definition sync_limits :: "('k, 'c) env \<Rightarrow> UserSpec list \<Rightarrow> ('k, 'c) Service \<Rightarrow> ('k, 'c) Service" where
  "sync_limits en users s =
     (case sync_users (e_rng en) users (s_limiter s, s_speedTracker s) of
        (l, t) \<Rightarrow> s\<lparr>s_limiter := l, s_speedTracker := t\<rparr>)"

definition prepareUserState ::
  "('k, 'c) env \<Rightarrow> UserSpec slice \<Rightarrow> ('k, 'c) Service \<Rightarrow> (UserSpec slice \<times> string) \<times> ('k, 'c) Service" where
  "prepareUserState en users s =
     (let us = Some (elems users) in
      ((append_nil (s_lastUsers s), s_lastUserHash s),
       (sync_limits en (elems us) s)\<lparr>s_lastUsers := append_nil us, s_lastUserHash := computeUserHash (e_sha en) us\<rparr>))"

definition updateUserState :: "('k, 'c) env \<Rightarrow> UserSpec slice \<Rightarrow> ('k, 'c) Service \<Rightarrow> ('k, 'c) Service" where
  "updateUserState en users s = snd (prepareUserState en (Some (elems users)) s)"

definition restoreUserState :: "('k, 'c) env \<Rightarrow> UserSpec slice \<Rightarrow> string \<Rightarrow> ('k, 'c) Service \<Rightarrow> ('k, 'c) Service" where
  "restoreUserState en users hash s =
     (let us = Some (elems users) in
      (sync_limits en (elems us) s)\<lparr>s_lastUsers := append_nil us, s_lastUserHash := hash\<rparr>)"

section \<open>Kernel and certificate\<close>

definition startKernel :: "('k, 'c) env \<Rightarrow> NodeSpec option \<Rightarrow> UserSpec slice \<Rightarrow> ('k, 'c) Service \<Rightarrow> bool \<times> ('k, 'c) Service" where
  "startKernel en nc users s =
     (case k_Start (e_kernel en) nc users (tlsCert en s) (s_kernel s) of
        (Some e, k) \<Rightarrow> (False, s\<lparr>s_kernel := k, s_lastKernelError := Some e\<rparr>)
      | (None, k) \<Rightarrow> (True, s\<lparr>s_kernel := k, s_lastKernelError := None, s_appliedConfig := nc, s_appliedUsers := users\<rparr>))"

definition applyNodeCert :: "('k, 'c) env \<Rightarrow> CertConfig \<Rightarrow> ('k, 'c) Service \<Rightarrow> (string + bool) \<times> ('k, 'c) Service" where
  "applyNodeCert en newCfg s =
     (let cfgCopy = newCfg\<lparr>cc_CertDir := cc_CertDir (s_certCfg s)\<rparr> in
      case c_Reconfigure (e_cert en) cfgCopy (s_certMgr s) of
        (Inl e, m) \<Rightarrow> (Inl e, s\<lparr>s_certMgr := m\<rparr>)
      | (Inr changed, m) \<Rightarrow> (Inr changed, s\<lparr>s_certMgr := m, s_certCfg := cfgCopy\<rparr>))"

definition applyRemoteOverrides ::
  "('k, 'c) env \<Rightarrow> NodeSpec option \<Rightarrow> ('k, 'c) Service \<Rightarrow> (string + bool) \<times> ('k, 'c) Service" where
  "applyRemoteOverrides en nc s =
     (case nc of
        None \<Rightarrow> (Inr False, s)
      | Some n \<Rightarrow>
          (let s1 = (if n_KernelLogLevel n \<noteq> [] \<and> n_KernelLogLevel n \<noteq> s_logLevel s
                     then s\<lparr>s_logLevel := n_KernelLogLevel n\<rparr> else s) in
           case n_CertConfig n of
             Some c \<Rightarrow> applyNodeCert en c s1
           | None \<Rightarrow>
               (let s2 = (if n_AutoTLS n \<noteq> cc_AutoTLS (s_certCfg s1)
                          then s1\<lparr>s_certCfg := (s_certCfg s1)\<lparr>cc_AutoTLS := n_AutoTLS n\<rparr>\<rparr> else s1);
                    s3 = (if n_Domain n \<noteq> [] \<and> n_Domain n \<noteq> cc_Domain (s_certCfg s2)
                          then s2\<lparr>s_certCfg := (s_certCfg s2)\<lparr>cc_Domain := n_Domain n\<rparr>\<rparr> else s2)
                in (Inr False, s3))))"

section \<open>User updates\<close>

definition applyUserUpdate :: "('k, 'c) env \<Rightarrow> UserSpec slice \<Rightarrow> string \<Rightarrow> ('k, 'c) Service \<Rightarrow> ('k, 'c) Service" where
  "applyUserUpdate en users newHash s =
     (if \<not> running en s then
        (case (if elems users \<noteq> [] \<and> s_lastConfig s \<noteq> None then applyRemoteOverrides en (s_lastConfig s) s else (Inr False, s)) of
           (Inl e, s1) \<Rightarrow> reportApplication en ''failed'' ''certificate'' (Some e)
             (s1\<lparr>s_lastKernelError := Some e, s_reconcileNeeded := True\<rparr>)
         | (Inr _, s1) \<Rightarrow>
             (let ((prevUsers, prevHash), s2) = prepareUserState en users s1;
                  s3 = (if elems users \<noteq> [] \<and> s_lastConfig s2 \<noteq> None
                        then (case startKernel en (s_lastConfig s2) users s2 of
                                (True, s3) \<Rightarrow> s3
                              | (False, s3) \<Rightarrow> restoreUserState en prevUsers prevHash s3)
                        else s2)
              in if newHash \<noteq> [] \<and> elems users \<noteq> [] \<and> running en s3
                 then confirmApplication en (s3\<lparr>s_lastUserHash := newHash\<rparr>)
                 else s3))
      else
        (let ((prevUsers, prevHash), s1) = prepareUserState en users s in
         case k_UpdateUsers (e_kernel en) users (s_kernel s1) of
           (Some e, k) \<Rightarrow>
             (case startKernel en (s_lastConfig s1) users (s1\<lparr>s_kernel := k\<rparr>) of
                (True, s2) \<Rightarrow> s2
              | (False, s2) \<Rightarrow> restoreUserState en prevUsers prevHash s2)
         | (None, k) \<Rightarrow>
             (let s2 = s1\<lparr>s_kernel := k\<rparr>;
                  s3 = (if newHash \<noteq> [] then s2\<lparr>s_lastUserHash := newHash\<rparr> else s2)
              in confirmApplication en s3)))"

definition remove_replaced :: "('k, 'c) env \<Rightarrow> UserSpec list \<Rightarrow> UserSpec \<Rightarrow> 'k \<Rightarrow> 'k" where
  "remove_replaced en lastUsers dlt k =
     (case find (\<lambda>old. ID old = ID dlt \<and> UUID old \<noteq> UUID dlt) lastUsers of
        None \<Rightarrow> k
      | Some old \<Rightarrow> snd (k_RemoveUsers (e_kernel en) (Some [old]) k))"

text \<open>Apply \<open>op\<close> to the running kernel, else all of \<open>users\<close>, else give the user state back.\<close>

definition apply_or_fall_back ::
  "('k, 'c) env \<Rightarrow> ('k \<Rightarrow> err \<times> 'k) \<Rightarrow> UserSpec slice \<Rightarrow> ('k, 'c) Service \<Rightarrow> ('k, 'c) Service" where
  "apply_or_fall_back en op users s =
     (let ((prevUsers, prevHash), s1) = prepareUserState en users s in
      case op (s_kernel s1) of
        (None, k) \<Rightarrow> s1\<lparr>s_kernel := k\<rparr>
      | (Some e, k) \<Rightarrow>
          (case k_UpdateUsers (e_kernel en) users k of
             (None, k') \<Rightarrow> s1\<lparr>s_kernel := k'\<rparr>
           | (Some e', k') \<Rightarrow> restoreUserState en prevUsers prevHash (s1\<lparr>s_kernel := k'\<rparr>)))"

definition service_applyUserDelta ::
  "('k, 'c) env \<Rightarrow> string \<Rightarrow> UserSpec slice \<Rightarrow> ('k, 'c) Service \<Rightarrow> ('k, 'c) Service" where
  "service_applyUserDelta en action deltaUsers s =
     (if action = ''add'' then
        (if elems deltaUsers = [] then s
         else
           (let merged = mergeUsers (e_rng en) (s_lastUsers s) deltaUsers in
            if \<not> running en s then applyUserUpdate en merged (computeUserHash (e_sha en) merged) s
            else
              (let k = fold (remove_replaced en (elems (s_lastUsers s))) (elems deltaUsers) (s_kernel s)
               in apply_or_fall_back en (k_AddUsers (e_kernel en) deltaUsers) merged (s\<lparr>s_kernel := k\<rparr>))))
      else if action = ''remove'' then
        (if elems deltaUsers = [] then s
         else if \<not> running en s then s
         else apply_or_fall_back en (k_RemoveUsers (e_kernel en) deltaUsers) (subtractUsers (s_lastUsers s) deltaUsers) s)
      else s)"

section \<open>Configuration changes\<close>

definition applyChanges :: "('k, 'c) env \<Rightarrow> bool \<Rightarrow> ('k, 'c) Service \<Rightarrow> bool \<times> ('k, 'c) Service" where
  "applyChanges en configChanged s =
     (if \<not> configChanged then (True, s)
      else if s_lastConfig s = None \<or> elems (s_lastUsers s) = [] then
        (True, if elems (s_lastUsers s) = []
               then s\<lparr>s_kernel := k_Stop (e_kernel en) (s_kernel s), s_appliedUsers := None\<rparr> else s)
      else if running en s then
        (case k_Reload (e_kernel en) (s_lastConfig s) (s_lastUsers s) (tlsCert en s) (s_kernel s) of
           (Some e, k) \<Rightarrow> (False, s\<lparr>s_kernel := k, s_lastKernelError := Some e\<rparr>)
         | (None, k) \<Rightarrow> (True, s\<lparr>s_kernel := k, s_lastKernelError := None, s_appliedConfig := s_lastConfig s,
             s_appliedUsers := s_lastUsers s\<rparr>))
      else startKernel en (s_lastConfig s) (s_lastUsers s) s)"

text \<open>The runtime inputs that a failed application puts back.\<close>

definition restore_inputs :: "('k, 'c) env \<Rightarrow> ('k, 'c) Service \<Rightarrow> ('k, 'c) Service \<Rightarrow> ('k, 'c) Service" where
  "restore_inputs en previous s =
     s\<lparr>s_logLevel := s_logLevel previous,
       s_certMgr := snd (c_Reconfigure (e_cert en) (s_certCfg previous) (s_certMgr s)),
       s_certCfg := s_certCfg previous\<rparr>"

definition restore_kernel :: "('k, 'c) env \<Rightarrow> NodeSpec option \<Rightarrow> UserSpec slice \<Rightarrow> ('k, 'c) Service \<Rightarrow> ('k, 'c) Service" where
  "restore_kernel en config users s =
     (if config \<noteq> None \<and> elems users \<noteq> [] then
        (case k_Reload (e_kernel en) config users (tlsCert en s) (s_kernel s) of
           (None, k) \<Rightarrow> s\<lparr>s_kernel := k\<rparr>
         | (Some e, k) \<Rightarrow> s\<lparr>s_kernel := snd (k_Start (e_kernel en) config users (tlsCert en s) k)\<rparr>)
      else s)"

definition apply_config :: "('k, 'c) env \<Rightarrow> pullResult \<Rightarrow> ('k, 'c) Service \<Rightarrow> (string + unit) \<times> ('k, 'c) Service" where
  "apply_config en result s =
     (if pr_config result = None then (Inr (), s)
      else case applyRemoteOverrides en (pr_config result) s of
        (Inl e, s1) \<Rightarrow> (Inl e, s1)
      | (Inr _, s1) \<Rightarrow> (Inr (), s1\<lparr>s_lastConfig := pr_config result, s_lastConfigHash := pr_configHash result\<rparr>))"

definition apply_users :: "('k, 'c) env \<Rightarrow> pullResult \<Rightarrow> bool \<Rightarrow> ('k, 'c) Service \<Rightarrow> ('k, 'c) Service" where
  "apply_users en result configChanged s =
     (if pr_users result \<noteq> None \<and> pr_userHash result \<noteq> s_lastUserHash s
      then (if configChanged then updateUserState en (pr_users result) s
            else applyUserUpdate en (pr_users result) (pr_userHash result) s)
      else s)"

text \<open>The failure branch: report, then put the state \<open>s0\<close> from before back.\<close>

definition roll_back :: "('k, 'c) env \<Rightarrow> ('k, 'c) Service \<Rightarrow> ('k, 'c) Service \<Rightarrow> ('k, 'c) Service" where
  "roll_back en s0 s4 =
     (let failure = (case s_lastKernelError s4 of None \<Rightarrow> ''user authorization update failed'' | Some e \<Rightarrow> e);
          s5 = reportApplication en ''failed'' ''kernel'' (Some failure) (s4\<lparr>s_reconcileNeeded := True\<rparr>);
          s6 = (restore_inputs en s0 s5)\<lparr>s_lastConfig := s_lastConfig s0, s_lastConfigHash := s_lastConfigHash s0\<rparr>;
          s7 = (restoreUserState en (append_nil (s_lastUsers s0)) (s_lastUserHash s0) s6)
            \<lparr>s_desiredRevision := s_desiredRevision s0\<rparr>
      in restore_kernel en (s_lastConfig s0) (append_nil (s_lastUsers s0)) s7)"

definition applyPullResult :: "('k, 'c) env \<Rightarrow> pullResult \<Rightarrow> ('k, 'c) Service \<Rightarrow> ('k, 'c) Service" where
  "applyPullResult en result s0 =
     (let s1 = s0\<lparr>s_wsResyncPending := False,
            s_desiredRevision := (if 0 < pr_revision result then pr_revision result else s_desiredRevision s0)\<rparr>;
          valid = (if pr_config result = None then Inr ()
            else validateNodeRuntime (e_dnsKnown en) (s_kernelType s1) (k_Protocols (e_kernel en)) (pr_config result) (tlsCert en s1)) in
      case valid of
        Inl e \<Rightarrow> (reportApplication en ''failed'' ''validate'' (Some (e_msg en e)) (s1\<lparr>s_reconcileNeeded := True\<rparr>))
          \<lparr>s_desiredRevision := s_desiredRevision s0\<rparr>
      | Inr _ \<Rightarrow>
        (let configChanged = (pr_certChanged result \<or> pr_config result \<noteq> None) in
         case apply_config en result s1 of
           (Inl e, s2) \<Rightarrow>
             (restore_inputs en s0 (reportApplication en ''failed'' ''certificate'' (Some e) (s2\<lparr>s_reconcileNeeded := True\<rparr>)))
               \<lparr>s_desiredRevision := s_desiredRevision s0\<rparr>
         | (Inr _, s2) \<Rightarrow>
             (let s3 = apply_users en result configChanged s2;
                  (succeeded, s4) = (if configChanged then applyChanges en True s3 else (True, s3)) in
              if \<not> succeeded \<or> pr_users result \<noteq> None \<and> pr_userHash result \<noteq> s_lastUserHash s4
              then roll_back en s0 s4
              else confirmApplication en s4)))"

section \<open>Polling\<close>

definition pullViaAPIAsync :: "('k, 'c) env \<Rightarrow> ('k, 'c) Service \<Rightarrow> ('k, 'c) Service" where
  "pullViaAPIAsync en s =
     (if \<not> e_SupportsPolling en \<or> s_pullActive s then s
      else case shouldSkip (s_pullBackoff s) of
        (True, b) \<Rightarrow> s\<lparr>s_pullBackoff := b\<rparr>
      | (False, b) \<Rightarrow>
          (case c_CertRenewed (e_cert en) (s_certMgr s) of
             (certChanged, m) \<Rightarrow>
               s\<lparr>s_pullBackoff := b, s_pullActive := True, s_certMgr := m,
                 s_pulls := s_pulls s @ [(s_lastConfigHash s, certChanged)]\<rparr>))"

text \<open>The end of a poll that was started with these arguments; the result goes to \<open>applyPullResult\<close>.\<close>

definition pull_finished ::
  "('k, 'c) env \<Rightarrow> string \<times> bool \<Rightarrow> Snapshot option \<Rightarrow> ('k, 'c) Service \<Rightarrow> pullResult option \<times> ('k, 'c) Service" where
  "pull_finished en start polled s =
     (case polled of
        None \<Rightarrow> (None, s\<lparr>s_reconcileNeeded := True, s_wsResyncPending := False,
          s_pullBackoff := onFailure (s_pullBackoff s), s_pullActive := False\<rparr>)
      | Some snap \<Rightarrow>
          (let configHash = (if ss_Config snap = None then [] else computeConfigHash en (ss_Config snap)) in
           (Some \<lparr>pr_revision = ss_Revision snap,
              pr_config = (if configHash = fst start \<and> \<not> snd start then None else ss_Config snap),
              pr_users = ss_Users snap, pr_configHash = configHash,
              pr_userHash = (if ss_Users snap = None then [] else computeUserHash (e_sha en) (ss_Users snap)),
              pr_certChanged = snd start\<rparr>,
            s\<lparr>s_pullBackoff := onSuccess (s_pullBackoff s), s_pullActive := False\<rparr>)))"

definition requestWSResync :: "('k, 'c) env \<Rightarrow> ('k, 'c) Service \<Rightarrow> ('k, 'c) Service" where
  "requestWSResync en s =
     (let s1 = s\<lparr>s_reconcileNeeded := True\<rparr> in
      if s_wsResyncPending s1 then s1 else pullViaAPIAsync en (s1\<lparr>s_wsResyncPending := True\<rparr>))"

section \<open>Pushed events\<close>

definition handleWSEvent :: "('k, 'c) env \<Rightarrow> Event \<Rightarrow> ('k, 'c) Service \<Rightarrow> ('k, 'c) Service" where
  "handleWSEvent en event s =
     (case ev_Type event of
        EventSyncConfig \<Rightarrow>
          if ev_Config event = None then s
          else
            (let newConfigHash = computeConfigHash en (ev_Config event) in
             if newConfigHash = s_lastConfigHash s then s
             else applyPullResult en \<lparr>pr_revision = 0, pr_config = ev_Config event, pr_users = None,
               pr_configHash = newConfigHash, pr_userHash = [], pr_certChanged = False\<rparr> s)
      | EventSyncUsers \<Rightarrow>
          if ev_Users event = None then s
          else
            (let newHash = computeUserHash (e_sha en) (ev_Users event) in
             if newHash = s_lastUserHash s then s
             else applyUserUpdate en (ev_Users event) newHash s)
      | EventSyncUserDelta \<Rightarrow>
          if elems (ev_DeltaUsers event) = [] then s
          else service_applyUserDelta en (ev_DeltaAction event) (ev_DeltaUsers event) s
      | EventSyncDevices \<Rightarrow>
          if ev_DeviceUsers event \<noteq> None
          then s\<lparr>s_kernel := k_UpdateGlobalDevices (e_kernel en) (ev_DeviceUsers event) (s_kernel s)\<rparr> else s
      | OtherEvent _ \<Rightarrow> s)"

definition no_event :: "EventType \<Rightarrow> Event" where
  "no_event t = \<lparr>ev_Type = t, ev_Config = None, ev_Users = None, ev_DeltaAction = [], ev_DeltaUsers = None, ev_DeviceUsers = None\<rparr>"

definition drainMachineMailbox :: "('k, 'c) env \<Rightarrow> ('k, 'c) Service \<Rightarrow> ('k, 'c) Service" where
  "drainMachineMailbox en s =
     (case s_machineMailbox s of
        None \<Rightarrow> s
      | Some box \<Rightarrow>
          (let (state, box') = DrainIfReady box;
               s0 = s\<lparr>s_machineMailbox := Some box'\<rparr>;
               s1 = (if ms_HasConfig state then handleWSEvent en ((no_event EventSyncConfig)\<lparr>ev_Config := ms_Config state\<rparr>) s0 else s0);
               s2 = (if ms_HasUsers state then handleWSEvent en ((no_event EventSyncUsers)\<lparr>ev_Users := ms_Users state\<rparr>) s1 else s1);
               s3 = (if ms_HasDevices state then handleWSEvent en ((no_event EventSyncDevices)\<lparr>ev_DeviceUsers := ms_DeviceUsers state\<rparr>) s2 else s2)
           in if ms_NeedsReconcile state then requestWSResync en s3 else s3))"

definition markMailboxReadyAndDrain :: "('k, 'c) env \<Rightarrow> ('k, 'c) Service \<Rightarrow> ('k, 'c) Service" where
  "markMailboxReadyAndDrain en s =
     (case s_machineMailbox s of
        None \<Rightarrow> s
      | Some box \<Rightarrow>
          drainMachineMailbox en (s\<lparr>s_machineMailbox := Some (MarkReady (SeedBaseline box (s_lastUsers s) (s_lastConfig s)))\<rparr>))"

definition handleWSStatus :: "('k, 'c) env \<Rightarrow> bool \<Rightarrow> bool \<Rightarrow> ('k, 'c) Service \<Rightarrow> ('k, 'c) Service" where
  "handleWSStatus en connected needsResync s =
     (let s1 = (if needsResync then requestWSResync en s else s) in
      if connected then pullViaAPIAsync en (s1\<lparr>s_wsDisconnected := False\<rparr>)
      else pullViaAPIAsync en (s1\<lparr>s_wsDisconnected := True,
        s_kernel := k_ClearGlobalDevices (e_kernel en) (s_kernel s1)\<rparr>))"

section \<open>Start\<close>

record Bootstrap =
  bs_Revision :: int
  bs_PushInterval :: int
  bs_PullInterval :: int
  bs_Push :: "nat option"
  bs_Config :: "NodeSpec option"
  bs_Users :: "UserSpec slice"
  bs_Mailbox :: "NodeMailbox option"

datatype setup_error = ConfigNil | SetupInvalid runtime_error | SetupCertificate string | SetupKernel err

definition interval :: "int \<Rightarrow> int \<Rightarrow> int" where
  "interval configured offered =
     (let i = (if configured = 0 \<and> 0 < offered then offered else configured) in if i = 0 then 60 else i)"

definition initialSetup ::
  "('k, 'c) env \<Rightarrow> Bootstrap \<Rightarrow> ('k, 'c) Service \<Rightarrow> setup_error option \<times> ('k, 'c) Service" where
  "initialSetup en b s0 =
     (let s = s0\<lparr>s_wsClient := (if bs_Push b \<noteq> None then bs_Push b else s_wsClient s0), s_machineMailbox := bs_Mailbox b\<rparr> in
      if bs_Config b = None then (if bs_Push b \<noteq> None then (None, s) else (Some ConfigNil, s))
      else
        (let s1 = s\<lparr>s_desiredRevision := bs_Revision b\<rparr> in
         case validateNodeRuntime (e_dnsKnown en) (s_kernelType s1) (k_Protocols (e_kernel en)) (bs_Config b) (tlsCert en s1) of
           Inl e \<Rightarrow> (Some (SetupInvalid e), reportApplication en ''failed'' ''validate'' (Some (e_msg en e)) s1)
         | Inr _ \<Rightarrow>
             (let s2 = updateUserState en (bs_Users b)
                    (s1\<lparr>s_lastConfig := bs_Config b, s_lastConfigHash := computeConfigHash en (bs_Config b)\<rparr>) in
              if elems (bs_Users b) = [] then (None, markMailboxReadyAndDrain en (s2\<lparr>s_reconcileNeeded := True\<rparr>))
              else case applyRemoteOverrides en (bs_Config b) s2 of
                (Inl e, s3) \<Rightarrow> (Some (SetupCertificate e), reportApplication en ''failed'' ''certificate'' (Some e) s3)
              | (Inr _, s3) \<Rightarrow>
                  (case startKernel en (bs_Config b) (bs_Users b) s3 of
                     (False, s4) \<Rightarrow> (Some (SetupKernel (s_lastKernelError s4)),
                       reportApplication en ''failed'' ''kernel'' (s_lastKernelError s4) s4)
                   | (True, s4) \<Rightarrow> (None, markMailboxReadyAndDrain en (confirmApplication en s4))))))"

section \<open>Tracking and reporting\<close>

definition trackAndEnforce :: "('k, 'c) env \<Rightarrow> ('k, 'c) Service \<Rightarrow> ('k, 'c) Service" where
  "trackAndEnforce en s =
     (if \<not> running en s then s
      else case k_GetUserTraffic (e_kernel en) (s_kernel s) of
        None \<Rightarrow> s
      | Some (traffic, aliveIPs, connCount) \<Rightarrow> s\<lparr>s_tracker := Process (s_tracker s) traffic aliveIPs connCount\<rparr>)"

record Status =
  st_CPU :: any
  st_Mem :: "any \<times> any"
  st_Swap :: "any \<times> any"
  st_Disk :: "any \<times> any"
  st_Uptime :: any
  st_Goroutines :: any
  st_CPUPerCore :: "any list"
  st_Load :: "any \<times> any \<times> any"
  st_NumGC :: any
  st_LastPauseMS :: any

text \<open>\<open>api\<close> are the counters of the control plane client, \<open>ws\<close> says whether a push client exists and is connected.
  The last write to \<open>wsDisconnectAt\<close> is kept as whether it is set.\<close>

definition buildMetrics :: "Status \<Rightarrow> any \<times> any \<Rightarrow> bool \<times> bool \<Rightarrow> ('k, 'c) Service \<Rightarrow> (string, any) gomap" where
  "buildMetrics st api ws s =
     (let limited = AnyInt (int (LimitedUserCount (s_speedTracker s))) in
      [(''uptime'', st_Uptime st), (''goroutines'', st_Goroutines st),
       (''active_connections'', AnyInt (ActiveConnections (s_tracker s))),
       (''total_connections'', AnyInt (TotalConnections (s_tracker s))),
       (''active_users'', AnyInt (int (length (CurrentOnline (s_tracker s))))),
       (''total_users'', AnyInt (int (length (elems (s_lastUsers s))))),
       (''inbound_speed'', AnyInt (InboundSpeed (s_tracker s))),
       (''outbound_speed'', AnyInt (OutboundSpeed (s_tracker s)))] @
      (if st_CPUPerCore st \<noteq> [] then [(''cpu_per_core'', AnyList (st_CPUPerCore st))] else []) @
      [(''load'', AnyMap [(''load1'', fst (st_Load st)), (''load5'', fst (snd (st_Load st))), (''load15'', snd (snd (st_Load st)))]),
       (''speed_limiter'', AnyMap [(''has_limits'', AnyBool (HasLimits (s_speedTracker s))), (''limited_users'', limited)]),
       (''gc'', AnyMap [(''num_gc'', st_NumGC st), (''last_pause_ms'', st_LastPauseMS st)]),
       (''api'', AnyMap [(''success'', fst api), (''failure'', snd api)]),
       (''ws'', AnyMap [(''enabled'', AnyBool (fst ws)), (''connected'', AnyBool (fst ws \<and> snd ws))]),
       (''limits'', AnyMap [(''device_limit_events'', AnyInt (uint (SnapshotMetrics (s_limiter s)))),
          (''speed_limited_users'', limited)])])"

definition cloneTraffic :: "traffic \<Rightarrow> traffic" where
  "cloneTraffic input = mbuild fst snd input"

definition cloneAliveIPs :: "(int, string list) gomap option \<Rightarrow> (int, string list) gomap option" where
  "cloneAliveIPs input = map_option (mbuild fst snd) input"

definition cloneOnline :: "(int, int) gomap \<Rightarrow> (int, int) gomap" where
  "cloneOnline input = mbuild fst snd input"

definition cloneReportPayload :: "ReportPayload \<Rightarrow> ReportPayload" where
  "cloneReportPayload payload = payload\<lparr>pl_Traffic := cloneTraffic (pl_Traffic payload),
     pl_Alive := cloneAliveIPs (pl_Alive payload), pl_Online := cloneOnline (pl_Online payload),
     pl_Metrics := mbuild fst snd (pl_Metrics payload)\<rparr>"

text \<open>\<open>batchID\<close> and \<open>now\<close> are the generated identifier and the time, used when nothing is pending.\<close>

definition beginReport ::
  "('k, 'c) env \<Rightarrow> string \<Rightarrow> string \<Rightarrow> Status \<Rightarrow> any \<times> any \<Rightarrow> bool \<times> bool \<Rightarrow> ('k, 'c) Service \<Rightarrow>
    ReportPayload \<times> ('k, 'c) Service" where
  "beginReport en batchID now st api ws s =
     (case s_pendingReport s of
        Some payload \<Rightarrow> (cloneReportPayload payload, s)
      | None \<Rightarrow>
          (let metrics = mput ''kernel_status'' (AnyBool (running en s)) (buildMetrics st api ws s);
               (traffic, t1) = FlushTraffic (s_tracker s);
               (alive, t2) = FlushAliveIPs (e_sha en) t1;
               payload = \<lparr>pl_AppliedRevision = s_appliedRevision s, pl_BatchID = batchID, pl_OccurredAt = now,
                 pl_Traffic = cloneTraffic traffic, pl_Alive = cloneAliveIPs alive, pl_Online = CurrentOnline t2,
                 pl_CPU = st_CPU st, pl_Mem = st_Mem st, pl_Swap = st_Swap st, pl_Disk = st_Disk st, pl_Metrics = metrics\<rparr>
           in (cloneReportPayload payload, s\<lparr>s_tracker := t2, s_pendingReport := Some payload\<rparr>)))"

definition completeReport :: "string \<Rightarrow> ('k, 'c) Service \<Rightarrow> ('k, 'c) Service" where
  "completeReport batchID s =
     (case s_pendingReport s of
        Some payload \<Rightarrow> if pl_BatchID payload = batchID then s\<lparr>s_pendingReport := None\<rparr> else s
      | None \<Rightarrow> s)"

text \<open>The part of \<open>pushReportAsync\<close> before the request, which it may skip, and the part after it.\<close>

definition pushReportAsync ::
  "('k, 'c) env \<Rightarrow> string \<Rightarrow> string \<Rightarrow> Status \<Rightarrow> any \<times> any \<Rightarrow> bool \<times> bool \<Rightarrow> ('k, 'c) Service \<Rightarrow>
    ReportPayload option \<times> ('k, 'c) Service" where
  "pushReportAsync en batchID now st api ws s =
     (if \<not> e_SupportsReporting en \<or> s_pushActive s then (None, s)
      else case shouldSkip (s_pushBackoff s) of
        (True, b) \<Rightarrow> (None, s\<lparr>s_pushBackoff := b\<rparr>)
      | (False, b) \<Rightarrow>
          (case beginReport en batchID now st api ws (s\<lparr>s_pushBackoff := b, s_pushActive := True\<rparr>) of
             (payload, s') \<Rightarrow> (Some payload, s')))"

definition push_finished :: "ReportPayload \<Rightarrow> bool \<Rightarrow> ('k, 'c) Service \<Rightarrow> ('k, 'c) Service" where
  "push_finished payload ok s =
     (if ok then (completeReport (pl_BatchID payload) s)\<lparr>s_pushBackoff := onSuccess (s_pushBackoff s), s_pushActive := False\<rparr>
      else s\<lparr>s_pushBackoff := onFailure (s_pushBackoff s), s_pushActive := False\<rparr>)"

text \<open>\<open>Some d\<close>: the sink is given the devices \<open>d\<close>, which may be nil.\<close>

definition sendDeviceBatch :: "('k, 'c) env \<Rightarrow> ('k, 'c) Service \<Rightarrow> (int, string list) gomap option option \<times> ('k, 'c) Service" where
  "sendDeviceBatch en s =
     (if \<not> e_SupportsDeviceReports en then (None, s)
      else case FlushAliveIPs (e_sha en) (s_tracker s) of (devices, t) \<Rightarrow> (Some devices, s\<lparr>s_tracker := t\<rparr>))"

text \<open>The final report at shutdown; \<open>ok\<close> is the outcome of the request.\<close>

definition pushReportSync ::
  "('k, 'c) env \<Rightarrow> string \<Rightarrow> string \<Rightarrow> Status \<Rightarrow> any \<times> any \<Rightarrow> bool \<times> bool \<Rightarrow> bool \<Rightarrow> ('k, 'c) Service \<Rightarrow>
    ReportPayload option \<times> ('k, 'c) Service" where
  "pushReportSync en batchID now st api ws ok s =
     (if \<not> e_SupportsReporting en then (None, s)
      else case beginReport en batchID now st api ws s of
        (payload, s1) \<Rightarrow> (Some payload, if ok then completeReport (pl_BatchID payload) s1 else s1))"

section \<open>Creation, discovery and the pull ticker\<close>

text \<open>\<open>cert.NewManager\<close> and the kernel constructors give the initial \<open>c\<close> and \<open>k\<close>.\<close>

definition newService :: "string \<Rightarrow> string \<Rightarrow> CertConfig \<Rightarrow> 'k \<Rightarrow> 'c \<Rightarrow> ('k, 'c) Service" where
  "newService kernelType logLevel certCfg k c =
     \<lparr>s_kernelType = kernelType, s_logLevel = logLevel, s_certCfg = certCfg, s_kernel = k, s_certMgr = c,
      s_tracker = Tracker_New, s_limiter = Limiter_New, s_speedTracker = NewSpeedTracker,
      s_lastConfig = None, s_lastUsers = None, s_desiredRevision = 0, s_appliedRevision = 0,
      s_lastKernelError = None, s_appliedConfig = None, s_appliedUsers = None, s_lastUserHash = [],
      s_lastConfigHash = [], s_pullBackoff = 0, s_pushBackoff = 0, s_pushActive = False, s_pullActive = False,
      s_wsClient = None, s_wsRunning = None, s_wsResyncPending = False, s_reconcileNeeded = False,
      s_wsDisconnected = False, s_machineMailbox = None, s_pendingReport = None, s_reported = [], s_pulls = []\<rparr>"

definition startWSClient :: "('k, 'c) Service \<Rightarrow> ('k, 'c) Service" where
  "startWSClient s = (case s_wsClient s of None \<Rightarrow> s | Some c \<Rightarrow> s\<lparr>s_wsRunning := Some c\<rparr>)"

text \<open>\<open>long\<close>: the push client has been disconnected for more than ten minutes. \<open>found\<close>: the outcome of the
  request, an error or the client of a control plane that offers push.\<close>

definition wsDiscovery :: "('k, 'c) env \<Rightarrow> bool \<Rightarrow> string + nat option \<Rightarrow> ('k, 'c) Service \<Rightarrow> ('k, 'c) Service" where
  "wsDiscovery en long found s =
     (if \<not> e_SupportsDiscovery en then s
      else if \<not> (s_wsClient s = None \<or> s_wsDisconnected s \<and> long) then s
      else case found of
        Inl _ \<Rightarrow> s
      | Inr pushClient \<Rightarrow>
          (let s1 = (if e_SupportsPolling en then pullViaAPIAsync en s else s) in
           case pushClient of
             Some c \<Rightarrow> if s_wsClient s1 = None
               then startWSClient (s1\<lparr>s_wsClient := Some c, s_wsDisconnected := False\<rparr>) else s1
           | None \<Rightarrow> if s_wsClient s1 \<noteq> None
               then s1\<lparr>s_wsRunning := None, s_wsClient := None, s_wsDisconnected := False\<rparr> else s1))"

definition pull_tick :: "('k, 'c) env \<Rightarrow> bool \<Rightarrow> ('k, 'c) Service \<Rightarrow> ('k, 'c) Service" where
  "pull_tick en connected s =
     (if s_wsClient s \<noteq> None \<and> connected \<and> \<not> s_reconcileNeeded s then s else pullViaAPIAsync en s)"

section \<open>What the operations leave alone\<close>

named_theorems frame \<open>fields an operation does not change\<close>

definition base :: "('k, 'c) Service \<Rightarrow> NodeSpec option \<times> string \<times> int" where
  "base s = (s_lastConfig s, s_lastConfigHash s, s_desiredRevision s)"

definition uview :: "('k, 'c) Service \<Rightarrow> Limiter \<times> SpeedTracker \<times> UserSpec slice \<times> string" where
  "uview s = (s_limiter s, s_speedTracker s, s_lastUsers s, s_lastUserHash s)"

definition inputs :: "('k, 'c) Service \<Rightarrow> string \<times> CertConfig" where
  "inputs s = (s_logLevel s, s_certCfg s)"

lemma reportApplication_frame [frame]:
  "base (reportApplication en a b e s) = base s" "uview (reportApplication en a b e s) = uview s"
  "inputs (reportApplication en a b e s) = inputs s" "s_kernel (reportApplication en a b e s) = s_kernel s"
  "s_reconcileNeeded (reportApplication en a b e s) = s_reconcileNeeded s"
  "s_appliedRevision (reportApplication en a b e s) = s_appliedRevision s"
  by (simp_all add: reportApplication_def base_def uview_def inputs_def)

lemma confirmApplication_frame [frame]:
  "base (confirmApplication en s) = base s" "uview (confirmApplication en s) = uview s"
  "inputs (confirmApplication en s) = inputs s" "s_kernel (confirmApplication en s) = s_kernel s"
  using reportApplication_frame [of en "''applied''" "''kernel''" None]
  by (simp_all add: confirmApplication_def Let_def) (simp_all add: base_def uview_def inputs_def)

lemma sync_limits_frame [frame]:
  "base (sync_limits en us s) = base s" "inputs (sync_limits en us s) = inputs s"
  "s_kernel (sync_limits en us s) = s_kernel s" "s_certMgr (sync_limits en us s) = s_certMgr s"
  "s_lastConfig (sync_limits en us s) = s_lastConfig s"
  by (simp_all add: sync_limits_def base_def inputs_def split: prod.split)

lemma restoreUserState_frame [frame]:
  "base (restoreUserState en us h s) = base s" "inputs (restoreUserState en us h s) = inputs s"
  "s_kernel (restoreUserState en us h s) = s_kernel s"
  using sync_limits_frame [of en _ s] by (simp_all add: restoreUserState_def Let_def base_def inputs_def)

lemma prepareUserState_frame [frame]:
  assumes "prepareUserState en us s = (prev, s')"
  shows "base s' = base s" "inputs s' = inputs s" "s_kernel s' = s_kernel s" "s_lastConfig s' = s_lastConfig s"
    "prev = (append_nil (s_lastUsers s), s_lastUserHash s)"
  using assms sync_limits_frame [of en _ s] by (auto simp: prepareUserState_def Let_def base_def inputs_def)

lemma updateUserState_frame [frame]:
  "base (updateUserState en us s) = base s" "inputs (updateUserState en us s) = inputs s"
  "s_kernel (updateUserState en us s) = s_kernel s"
  using prepareUserState_frame [of en "Some (elems us)" s] by (simp_all add: updateUserState_def) (metis prod.collapse)+

lemma startKernel_frame [frame]:
  assumes "startKernel en nc us s = (ok, s')"
  shows "base s' = base s" "uview s' = uview s" "inputs s' = inputs s"
  using assms by (auto simp: startKernel_def base_def uview_def inputs_def split: prod.splits option.splits)

lemma applyRemoteOverrides_frame [frame]:
  assumes "applyRemoteOverrides en nc s = (r, s')"
  shows "base s' = base s" "uview s' = uview s" "s_kernel s' = s_kernel s"
  using assms
  by (auto simp: applyRemoteOverrides_def applyNodeCert_def Let_def base_def uview_def
      split: option.splits prod.splits sum.splits if_splits)

lemma pullViaAPIAsync_frame [frame]:
  "base (pullViaAPIAsync en s) = base s" "uview (pullViaAPIAsync en s) = uview s"
  "s_kernel (pullViaAPIAsync en s) = s_kernel s"
  by (auto simp: pullViaAPIAsync_def base_def uview_def split: prod.split bool.split)

lemma requestWSResync_frame [frame]:
  "base (requestWSResync en s) = base s" "uview (requestWSResync en s) = uview s"
  by (simp_all add: requestWSResync_def Let_def frame) (simp_all add: base_def uview_def)

section \<open>The users in force\<close>

text \<open>What the service relies on in its environment: a range visits every entry of a map once, and a
  start that fails does not make a kernel run.\<close>

definition env_ok :: "('k, 'c) env \<Rightarrow> bool" where
  "env_ok en \<longleftrightarrow> range_order (e_rng en) \<and>
     (\<forall>nc us tls k e k'. k_Start (e_kernel en) nc us tls k = (Some e, k') \<longrightarrow>
        k_IsRunning (e_kernel en) k' = k_IsRunning (e_kernel en) k)"

text \<open>
  The limits of a list of users are in force: device limits for all, speed limits for all but the users
  in \<open>ex st\<close>, whose bucket a connection inserted for a record that was no longer the user's.
\<close>

definition in_force :: "(Limiter \<times> SpeedTracker \<Rightarrow> int set) \<Rightarrow> UserSpec list \<Rightarrow> Limiter \<times> SpeedTracker \<Rightarrow> bool" where
  "in_force ex us st \<longleftrightarrow> lim_reach st \<and> (users_ok us \<longrightarrow>
     (\<forall>uuid d. GetDeviceLimitByUUID (fst st) uuid = Some d \<longleftrightarrow> (\<exists>u \<in> set us. UUID u = uuid \<and> DeviceLimit u = d \<and> 0 < d)) \<and>
     (\<forall>u \<in> set us. map_of (st_uuidMap (snd st)) (UUID u) = Some (ID u)) \<and>
     (\<forall>u \<in> set us. ID u \<notin> ex st \<longrightarrow> speed_of st (UUID u) = (if 0 < SpeedLimit u then Some (update_bucket u) else None)))"

definition uview_ok :: "(string \<Rightarrow> string) \<Rightarrow> (Limiter \<times> SpeedTracker \<Rightarrow> int set) \<Rightarrow> Limiter \<times> SpeedTracker \<times> UserSpec slice \<times> string \<Rightarrow> bool" where
  "uview_ok sha ex v \<longleftrightarrow> (case v of (l, t, us, h) \<Rightarrow> us \<noteq> Some [] \<and> in_force ex (elems us) (l, t) \<and>
     (h = computeUserHash sha us \<or> h = [] \<and> us = None))"

abbreviation user_inv :: "('k, 'c) env \<Rightarrow> (Limiter \<times> SpeedTracker \<Rightarrow> int set) \<Rightarrow> ('k, 'c) Service \<Rightarrow> bool" where
  "user_inv en ex s \<equiv> uview_ok (e_sha en) ex (uview s)"

lemma elems_append_nil [simp]: "elems (append_nil us) = elems us"
  by (simp add: append_nil_def)

lemma append_nil_not_empty [simp]: "append_nil us \<noteq> Some []"
  by (simp add: append_nil_def)

lemma computeUserHash_cong: "elems us = elems vs \<Longrightarrow> computeUserHash sha us = computeUserHash sha vs"
  by (simp add: computeUserHash_def)

lemma sync_limits_in_force:
  assumes "env_ok en" and "lim_reach (s_limiter s, s_speedTracker s)"
  shows "in_force ex us (s_limiter (sync_limits en us s), s_speedTracker (sync_limits en us s))"
proof -
  obtain l t where st: "sync_users (e_rng en) us (s_limiter s, s_speedTracker s) = (l, t)" by fastforce
  have y: "syncs us (s_limiter s, s_speedTracker s) (l, t)"
    using assms(1) st by (auto simp: syncs_def env_ok_def)
  have "in_force ex us (l, t)"
    unfolding in_force_def
    using lim_reach.lim_sync [OF assms(2) y] lim.device_law [OF assms(2) _ y] lim.speed_law [OF assms(2) _ y]
      uuid_sync [OF assms(2) _ y] by blast
  then show ?thesis by (simp add: sync_limits_def st)
qed

lemma in_force_reach: "in_force ex us st \<Longrightarrow> lim_reach st"
  by (simp add: in_force_def)

lemma uview_reach: "user_inv en ex s \<Longrightarrow> lim_reach (s_limiter s, s_speedTracker s)"
  by (auto simp: uview_ok_def uview_def dest: in_force_reach)

lemma prepareUserState_inv:
  assumes "env_ok en" and "user_inv en ex s" and "prepareUserState en us s = (prev, s')"
  shows "user_inv en ex s'" and "s_lastUserHash s' = computeUserHash (e_sha en) us" and "s_lastUsers s' = append_nil us"
proof -
  have s': "s' = (sync_limits en (elems us) s)\<lparr>s_lastUsers := append_nil (Some (elems us)),
      s_lastUserHash := computeUserHash (e_sha en) (Some (elems us))\<rparr>"
    using assms(3) by (auto simp: prepareUserState_def Let_def)
  have a: "append_nil (Some (elems us)) = append_nil us" by (simp add: append_nil_def)
  have h: "computeUserHash (e_sha en) (Some (elems us)) = computeUserHash (e_sha en) us"
    "computeUserHash (e_sha en) (append_nil us) = computeUserHash (e_sha en) us"
    by (auto intro: computeUserHash_cong)
  show "user_inv en ex s'" "s_lastUserHash s' = computeUserHash (e_sha en) us" "s_lastUsers s' = append_nil us"
    using sync_limits_in_force [OF assms(1) uview_reach [OF assms(2)], where us = "elems us"]
    by (simp_all add: s' uview_ok_def uview_def a h)
qed

lemma restoreUserState_inv:
  assumes "env_ok en" and "lim_reach (s_limiter s, s_speedTracker s)" and "user_inv en ex p"
  shows "user_inv en ex (restoreUserState en (append_nil (s_lastUsers p)) (s_lastUserHash p) s)"
    and "s_lastUsers (restoreUserState en (append_nil (s_lastUsers p)) (s_lastUserHash p) s) = s_lastUsers p"
    and "s_lastUserHash (restoreUserState en (append_nil (s_lastUsers p)) (s_lastUserHash p) s) = s_lastUserHash p"
proof -
  have ne: "s_lastUsers p \<noteq> Some []" using assms(3) by (simp add: uview_ok_def uview_def)
  then have a: "append_nil (Some (elems (s_lastUsers p))) = s_lastUsers p"
    by (cases "s_lastUsers p") (auto simp: append_nil_def)
  show "user_inv en ex (restoreUserState en (append_nil (s_lastUsers p)) (s_lastUserHash p) s)"
    and "s_lastUsers (restoreUserState en (append_nil (s_lastUsers p)) (s_lastUserHash p) s) = s_lastUsers p"
    and "s_lastUserHash (restoreUserState en (append_nil (s_lastUsers p)) (s_lastUserHash p) s) = s_lastUserHash p"
    using sync_limits_in_force [OF assms(1,2), where us = "elems (s_lastUsers p)"] assms(3) ne
    by (simp_all add: restoreUserState_def Let_def uview_ok_def uview_def a)
qed

lemma uview_update [simp]:
  "uview (s\<lparr>s_kernel := k\<rparr>) = uview s" "uview (s\<lparr>s_lastKernelError := e\<rparr>) = uview s"
  "uview (s\<lparr>s_reconcileNeeded := b\<rparr>) = uview s" "uview (s\<lparr>s_desiredRevision := n\<rparr>) = uview s"
  "uview (s\<lparr>s_wsResyncPending := b\<rparr>) = uview s" "uview (s\<lparr>s_lastConfig := c\<rparr>) = uview s"
  "uview (s\<lparr>s_lastConfigHash := h\<rparr>) = uview s" "uview (s\<lparr>s_machineMailbox := m\<rparr>) = uview s"
  "uview (s\<lparr>s_tracker := t\<rparr>) = uview s" "uview (s\<lparr>s_pendingReport := r\<rparr>) = uview s"
  "uview (s\<lparr>s_wsDisconnected := b\<rparr>) = uview s" "uview (s\<lparr>s_appliedUsers := us\<rparr>) = uview s"
  "uview (s\<lparr>s_appliedConfig := c\<rparr>) = uview s"
  "uview (s\<lparr>s_wsClient := w\<rparr>) = uview s" "uview (s\<lparr>s_wsRunning := w\<rparr>) = uview s"
  "uview (s\<lparr>s_pushActive := b\<rparr>) = uview s" "uview (s\<lparr>s_pullActive := b\<rparr>) = uview s"
  "uview (s\<lparr>s_pushBackoff := n\<rparr>) = uview s" "uview (s\<lparr>s_pullBackoff := n\<rparr>) = uview s"
  by (simp_all add: uview_def)

lemma base_update [simp]:
  "base (s\<lparr>s_kernel := k\<rparr>) = base s" "base (s\<lparr>s_lastKernelError := e\<rparr>) = base s"
  "base (s\<lparr>s_reconcileNeeded := b\<rparr>) = base s" "base (s\<lparr>s_lastUserHash := h\<rparr>) = base s"
  "base (s\<lparr>s_lastUsers := us\<rparr>) = base s" "base (s\<lparr>s_appliedUsers := us\<rparr>) = base s"
  "base (s\<lparr>s_appliedConfig := c\<rparr>) = base s" "base (s\<lparr>s_wsResyncPending := b\<rparr>) = base s"
  "base (s\<lparr>s_appliedRevision := n\<rparr>) = base s"
  by (simp_all add: base_def)

lemma user_inv_same_hash:
  "user_inv en ex s \<Longrightarrow> s_lastUserHash s = h \<Longrightarrow> user_inv en ex (s\<lparr>s_lastUserHash := h\<rparr>)"
  by (simp add: uview_def)

lemma startKernel_failed:
  assumes "env_ok en" and "startKernel en nc us s = (False, s')"
  shows "running en s' = running en s"
proof -
  obtain e k where k: "k_Start (e_kernel en) nc us (tlsCert en s) (s_kernel s) = (e, k)" by fastforce
  then have "e \<noteq> None" "s_kernel s' = k"
    using assms(2) by (auto simp: startKernel_def split: option.splits)
  then show ?thesis using assms(1) k unfolding env_ok_def running_def by blast
qed

lemma start_or_restore_inv:
  assumes "env_ok en" and "user_inv en ex s" and "user_inv en ex p"
    and "startKernel en nc us s = (ok, s')"
  shows "user_inv en ex (if ok then s' else restoreUserState en (append_nil (s_lastUsers p)) (s_lastUserHash p) s')"
proof -
  have "user_inv en ex s'" using assms(2) startKernel_frame(2) [OF assms(4)] by simp
  then show ?thesis using restoreUserState_inv(1) [OF assms(1) uview_reach assms(3)] by simp
qed

lemma uview_eqD: "uview s = uview t \<Longrightarrow> s_lastUserHash s = s_lastUserHash t \<and> s_lastUsers s = s_lastUsers t"
  by (simp add: uview_def)

text \<open>The idle branch of \<open>applyUserUpdate\<close> after the overrides.\<close>

lemma applyUserUpdate_idle_inv:
  assumes "env_ok en" and "user_inv en ex s" and "\<not> running en s"
    and "prepareUserState en us s = ((pu, ph), s2)"
    and "s3 = (if elems us \<noteq> [] \<and> s_lastConfig s2 \<noteq> None
        then (case startKernel en (s_lastConfig s2) us s2 of
                (True, s3) \<Rightarrow> s3 | (False, s3) \<Rightarrow> restoreUserState en pu ph s3) else s2)"
    and "h = computeUserHash (e_sha en) us"
  shows "user_inv en ex s3 \<and> (running en s3 \<longrightarrow> s_lastUserHash s3 = h)"
proof -
  note P = prepareUserState_inv [OF assms(1,2,4)] and F = prepareUserState_frame [OF assms(4)]
  have r2: "\<not> running en s2" using assms(3) F(3) by (simp add: running_def)
  show ?thesis
  proof (cases "elems us \<noteq> [] \<and> s_lastConfig s2 \<noteq> None")
    case False
    then have "s3 = s2" unfolding assms(5) by (rule if_not_P)
    then show ?thesis using P r2 by simp
  next
    case True
    obtain ok s' where st: "startKernel en (s_lastConfig s2) us s2 = (ok, s')" by fastforce
    have s3: "s3 = (if ok then s' else restoreUserState en (append_nil (s_lastUsers s)) (s_lastUserHash s) s')"
      using assms(5) True F(5) by (simp add: st split: bool.split)
    have "user_inv en ex s3" unfolding s3 by (rule start_or_restore_inv [OF assms(1) P(1) assms(2) st])
    moreover have "s_lastUserHash s3 = h" if "running en s3"
    proof (cases ok)
      case True
      then show ?thesis using s3 startKernel_frame(2) [OF st] P(2) assms(6) by (simp add: uview_def)
    next
      case False
      then have "running en s' = running en s2"
        using startKernel_failed [OF assms(1)] st by metis
      then have "running en s3 = running en s2" using False s3 by (simp add: running_def frame)
      then show ?thesis using that r2 by simp
    qed
    ultimately show ?thesis by blast
  qed
qed

lemma applyUserUpdate_inv:
  assumes "env_ok en" and "user_inv en ex s" and "h = computeUserHash (e_sha en) us"
  shows "user_inv en ex (applyUserUpdate en us h s)"
proof (cases "running en s")
  case False
  obtain r s1 where o: "(if elems us \<noteq> [] \<and> s_lastConfig s \<noteq> None then applyRemoteOverrides en (s_lastConfig s) s
      else (Inr False, s)) = (r, s1)" by fastforce
  have f: "uview s1 = uview s" "s_kernel s1 = s_kernel s"
    using o applyRemoteOverrides_frame [of en "s_lastConfig s" s] by (auto split: if_splits)
  show ?thesis
  proof (cases r)
    case (Inl e)
    then show ?thesis using False o f assms(2) by (simp add: applyUserUpdate_def frame)
  next
    case (Inr b)
    obtain pu ph s2 where p: "prepareUserState en us s1 = ((pu, ph), s2)" by (metis prod.collapse)
    define s3 where "s3 = (if elems us \<noteq> [] \<and> s_lastConfig s2 \<noteq> None
        then (case startKernel en (s_lastConfig s2) us s2 of
                (True, s3) \<Rightarrow> s3 | (False, s3) \<Rightarrow> restoreUserState en pu ph s3) else s2)"
    have "\<not> running en s1" "user_inv en ex s1" using False f assms(2) by (simp_all add: running_def)
    from applyUserUpdate_idle_inv [OF assms(1) this(2,1) p s3_def assms(3)]
    have "user_inv en ex s3" "running en s3 \<longrightarrow> s_lastUserHash s3 = h" by auto
    moreover have "applyUserUpdate en us h s =
        (if h \<noteq> [] \<and> elems us \<noteq> [] \<and> running en s3 then confirmApplication en (s3\<lparr>s_lastUserHash := h\<rparr>) else s3)"
      using False o Inr p by (simp add: applyUserUpdate_def s3_def)
    ultimately show ?thesis by (simp add: frame user_inv_same_hash)
  qed
next
  case True
  obtain pu ph s1 where p: "prepareUserState en us s = ((pu, ph), s1)" by (metis prod.collapse)
  note P = prepareUserState_inv [OF assms(1,2) p] and F = prepareUserState_frame [OF p]
  obtain e k where u: "k_UpdateUsers (e_kernel en) us (s_kernel s1) = (e, k)" by fastforce
  show ?thesis
  proof (cases e)
    case None
    then show ?thesis
      using True p u P assms(3) by (simp add: applyUserUpdate_def Let_def frame user_inv_same_hash)
  next
    case (Some e')
    obtain ok s2 where st: "startKernel en (s_lastConfig s1) us (s1\<lparr>s_kernel := k\<rparr>) = (ok, s2)" by fastforce
    have i: "user_inv en ex (s1\<lparr>s_kernel := k\<rparr>)" using P(1) by simp
    have "applyUserUpdate en us h s = (if ok then s2 else restoreUserState en (append_nil (s_lastUsers s)) (s_lastUserHash s) s2)"
      using True p u Some st F(5) by (simp add: applyUserUpdate_def split: bool.split)
    then show ?thesis using start_or_restore_inv [OF assms(1) i assms(2) st] by simp
  qed
qed

lemma apply_or_fall_back_inv:
  assumes "env_ok en" and "user_inv en ex s"
  shows "user_inv en ex (apply_or_fall_back en op us s)"
proof -
  obtain pu ph s1 where p: "prepareUserState en us s = ((pu, ph), s1)" by (metis prod.collapse)
  note P = prepareUserState_inv [OF assms p] and F = prepareUserState_frame [OF p]
  have r: "user_inv en ex (restoreUserState en pu ph (s1\<lparr>s_kernel := k\<rparr>))" for k
    using restoreUserState_inv(1) [OF assms(1) _ assms(2), of "s1\<lparr>s_kernel := k\<rparr>"] uview_reach [OF P(1)] F(5) by simp
  show ?thesis
    using p P(1) r by (auto simp: apply_or_fall_back_def split: prod.split option.split)
qed

lemma service_applyUserDelta_inv:
  assumes "env_ok en" and "user_inv en ex s"
  shows "user_inv en ex (service_applyUserDelta en action d s)"
  using assms applyUserUpdate_inv [OF assms refl] apply_or_fall_back_inv [OF assms(1)]
  by (simp add: service_applyUserDelta_def Let_def)

lemma applyChanges_frame [frame]:
  assumes "applyChanges en c s = (ok, s')"
  shows "base s' = base s" "uview s' = uview s" "inputs s' = inputs s"
  using assms startKernel_frame [of en "s_lastConfig s" "s_lastUsers s" s ok s']
  by (auto simp: applyChanges_def inputs_def split: if_splits prod.splits option.splits)

lemma start_or_restore_base:
  "base (case startKernel en nc us t of (True, s3) \<Rightarrow> s3 | (False, s3) \<Rightarrow> restoreUserState en pu ph s3) = base t"
  using startKernel_frame(1) [of en nc us t] by (auto simp: frame split: prod.split bool.split)

lemma applyUserUpdate_base: "base (applyUserUpdate en us h s) = base s"
proof (cases "running en s")
  case False
  obtain r s1 where o: "(if elems us \<noteq> [] \<and> s_lastConfig s \<noteq> None then applyRemoteOverrides en (s_lastConfig s) s
      else (Inr False, s)) = (r, s1)" by fastforce
  have f: "base s1 = base s"
    using o applyRemoteOverrides_frame [of en "s_lastConfig s" s] by (auto split: if_splits)
  show ?thesis
  proof (cases r)
    case (Inl e)
    then show ?thesis using False o f by (simp add: applyUserUpdate_def frame)
  next
    case (Inr b)
    obtain pu ph s2 where p: "prepareUserState en us s1 = ((pu, ph), s2)" by (metis prod.collapse)
    define s3 where "s3 = (if elems us \<noteq> [] \<and> s_lastConfig s2 \<noteq> None
        then (case startKernel en (s_lastConfig s2) us s2 of
                (True, s3) \<Rightarrow> s3 | (False, s3) \<Rightarrow> restoreUserState en pu ph s3) else s2)"
    have "base s3 = base s"
      unfolding s3_def using start_or_restore_base [where en = en and t = s2 and us = us] prepareUserState_frame(1) [OF p] f
      by simp
    moreover have "applyUserUpdate en us h s =
        (if h \<noteq> [] \<and> elems us \<noteq> [] \<and> running en s3 then confirmApplication en (s3\<lparr>s_lastUserHash := h\<rparr>) else s3)"
      using False o Inr p by (simp add: applyUserUpdate_def s3_def)
    ultimately show ?thesis by (simp add: frame)
  qed
next
  case True
  obtain pu ph s1 where p: "prepareUserState en us s = ((pu, ph), s1)" by (metis prod.collapse)
  obtain e k where u: "k_UpdateUsers (e_kernel en) us (s_kernel s1) = (e, k)" by fastforce
  show ?thesis
    using True p u prepareUserState_frame(1) [OF p] start_or_restore_base [where en = en and t = "s1\<lparr>s_kernel := k\<rparr>" and us = us]
    by (cases e) (simp_all add: applyUserUpdate_def Let_def frame)
qed

text \<open>A result carries the hash of its users, as \<open>pull_finished\<close> and the event handler compute it.\<close>

definition pull_ok :: "('k, 'c) env \<Rightarrow> pullResult \<Rightarrow> bool" where
  "pull_ok en r \<longleftrightarrow> (pr_users r \<noteq> None \<longrightarrow> pr_userHash r = computeUserHash (e_sha en) (pr_users r))"

lemma apply_users_inv:
  assumes "env_ok en" and "pull_ok en r" and "user_inv en ex s"
  shows "user_inv en ex (apply_users en r c s)"
proof -
  obtain prev s' where p: "prepareUserState en (Some (elems (pr_users r))) s = (prev, s')" by fastforce
  have "user_inv en ex (updateUserState en (pr_users r) s)"
    using prepareUserState_inv(1) [OF assms(1,3) p] by (simp add: updateUserState_def p)
  then show ?thesis
    using applyUserUpdate_inv [OF assms(1,3)] assms(2,3) by (simp add: apply_users_def pull_ok_def)
qed

lemma apply_users_base: "base (apply_users en r c s) = base s"
  by (simp add: apply_users_def frame applyUserUpdate_base)

lemma apply_config_frame:
  assumes "apply_config en r s = (x, s')"
  shows "uview s' = uview s" "s_kernel s' = s_kernel s" "s_desiredRevision s' = s_desiredRevision s"
    and "x = Inl e \<Longrightarrow> base s' = base s"
    and "x = Inr () \<Longrightarrow> s_lastConfig s' = (if pr_config r = None then s_lastConfig s else pr_config r) \<and>
      s_lastConfigHash s' = (if pr_config r = None then s_lastConfigHash s else pr_configHash r)"
proof -
  obtain y s1 where o: "applyRemoteOverrides en (pr_config r) s = (y, s1)" by fastforce
  note F = applyRemoteOverrides_frame [OF o]
  show "uview s' = uview s" "s_kernel s' = s_kernel s" "s_desiredRevision s' = s_desiredRevision s"
    and "x = Inl e \<Longrightarrow> base s' = base s"
    and "x = Inr () \<Longrightarrow> s_lastConfig s' = (if pr_config r = None then s_lastConfig s else pr_config r) \<and>
      s_lastConfigHash s' = (if pr_config r = None then s_lastConfigHash s else pr_configHash r)"
    using assms F by (auto simp: apply_config_def o base_def split: if_splits sum.splits)
qed

definition baseline :: "('k, 'c) Service \<Rightarrow> (NodeSpec option \<times> string \<times> int) \<times> UserSpec slice \<times> string \<times> string \<times> CertConfig" where
  "baseline s = (base s, s_lastUsers s, s_lastUserHash s, inputs s)"

lemma restore_kernel_frame:
  "uview (restore_kernel en c us s) = uview s" "baseline (restore_kernel en c us s) = baseline s"
  "s_reconcileNeeded (restore_kernel en c us s) = s_reconcileNeeded s"
  by (auto simp: restore_kernel_def baseline_def uview_def base_def inputs_def split: prod.split option.split)

lemma restore_inputs_frame:
  "uview (restore_inputs en p s) = uview s" "base (restore_inputs en p s) = base s" "inputs (restore_inputs en p s) = inputs p"
  "s_reconcileNeeded (restore_inputs en p s) = s_reconcileNeeded s"
  by (simp_all add: restore_inputs_def uview_def base_def inputs_def)

lemma roll_back_restores:
  assumes "env_ok en" and "user_inv en ex s0" and "lim_reach (s_limiter s4, s_speedTracker s4)"
  shows "baseline (roll_back en s0 s4) = baseline s0 \<and> s_reconcileNeeded (roll_back en s0 s4) \<and>
    user_inv en ex (roll_back en s0 s4)"
proof -
  define s5 where "s5 = reportApplication en ''failed'' ''kernel''
    (Some (case s_lastKernelError s4 of None \<Rightarrow> ''user authorization update failed'' | Some e \<Rightarrow> e)) (s4\<lparr>s_reconcileNeeded := True\<rparr>)"
  define s6 where "s6 = (restore_inputs en s0 s5)\<lparr>s_lastConfig := s_lastConfig s0, s_lastConfigHash := s_lastConfigHash s0\<rparr>"
  define s7 where "s7 = restoreUserState en (append_nil (s_lastUsers s0)) (s_lastUserHash s0) s6"
  have 5: "s_reconcileNeeded s5" "uview s5 = uview s4" by (simp_all add: s5_def frame)
  have 6: "s_reconcileNeeded s6" "uview s6 = uview s4" "s_lastConfig s6 = s_lastConfig s0"
    "s_lastConfigHash s6 = s_lastConfigHash s0" "inputs s6 = inputs s0"
    using 5 restore_inputs_frame [of en s0 s5] by (simp_all add: s6_def inputs_def)
  have "lim_reach (s_limiter s6, s_speedTracker s6)" using assms(3) 6(2) by (simp add: uview_def)
  note R = restoreUserState_inv [OF assms(1) this assms(2), folded s7_def]
  have 7: "base s7 = base s6" "inputs s7 = inputs s6" "s_reconcileNeeded s7 = s_reconcileNeeded s6"
    by (simp_all add: s7_def frame) (simp add: restoreUserState_def Let_def sync_limits_def split: prod.split)
  have r: "roll_back en s0 s4 = restore_kernel en (s_lastConfig s0) (append_nil (s_lastUsers s0)) (s7\<lparr>s_desiredRevision := s_desiredRevision s0\<rparr>)"
    by (simp add: roll_back_def Let_def s5_def s6_def s7_def)
  have b: "baseline (s7\<lparr>s_desiredRevision := s_desiredRevision s0\<rparr>) = baseline s0"
    using R(2,3) 7 6 by (simp add: baseline_def base_def inputs_def)
  show ?thesis unfolding r restore_kernel_frame b using R(1) 7 6 by simp
qed

end
