(* ===== verification/ServiceRun.thy ===== *)
theory ServiceRun
  imports Service
begin

text \<open>
  Runs of the node service: a result is applied as a whole or rolled back, and in every reachable state
  of the main loop the limits in force are those of the users the service keeps. Connections run beside
  the main loop: the insertion of a speed bucket by one is a step of its own.
\<close>

section \<open>Applying a result\<close>

lemma confirmApplication_running:
  assumes "running en s"
  shows "\<not> s_reconcileNeeded (confirmApplication en s)"
    and "0 < s_desiredRevision s \<Longrightarrow> s_appliedRevision (confirmApplication en s) = s_desiredRevision s"
  using assms by (auto simp: confirmApplication_def Let_def frame)

lemma confirmApplication_idle: "\<not> running en s \<Longrightarrow> confirmApplication en s = s"
  by (simp add: confirmApplication_def)

lemma startKernel_users:
  assumes "startKernel en nc us t = (ok, s')" and "s_lastUsers t = append_nil us"
    and "w = (if ok then s' else restoreUserState en pu ph s')"
  shows "s_lastUsers w = append_nil us \<or> s_lastUserHash w = ph \<and> s_kernel w = s_kernel s'"
proof (cases ok)
  case True
  then show ?thesis using assms uview_eqD [OF startKernel_frame(2) [OF assms(1)]] by simp
next
  case False
  then have "w = restoreUserState en pu ph s'" using assms(3) by simp
  then show ?thesis using restoreUserState_frame(3) [of en pu ph s'] by (simp add: restoreUserState_def Let_def)
qed

lemma prepareUserState_users:
  assumes "prepareUserState en us s = ((pu, ph), t)"
  shows "s_lastUsers t = append_nil us" and "ph = s_lastUserHash s"
  using assms by (auto simp: prepareUserState_def Let_def append_nil_def)

text \<open>An update of the users leaves the new users or the old hash.\<close>

lemma applyUserUpdate_users:
  assumes "env_ok en"
  shows "s_lastUsers (applyUserUpdate en us h s) = append_nil us \<or> s_lastUserHash (applyUserUpdate en us h s) = s_lastUserHash s"
proof (cases "running en s")
  case False
  obtain r s1 where o: "(if elems us \<noteq> [] \<and> s_lastConfig s \<noteq> None then applyRemoteOverrides en (s_lastConfig s) s
      else (Inr False, s)) = (r, s1)" by fastforce
  have f: "uview s1 = uview s" "s_kernel s1 = s_kernel s"
    using o applyRemoteOverrides_frame [of en "s_lastConfig s" s] by (auto split: if_splits)
  show ?thesis
  proof (cases r)
    case (Inl e)
    define t where "t = s1\<lparr>s_lastKernelError := Some e, s_reconcileNeeded := True\<rparr>"
    have "applyUserUpdate en us h s = reportApplication en ''failed'' ''certificate'' (Some e) t"
      using False o Inl by (simp add: applyUserUpdate_def t_def)
    moreover have "uview t = uview s" using f by (simp add: t_def)
    ultimately have "uview (applyUserUpdate en us h s) = uview s" by (simp add: reportApplication_frame)
    then show ?thesis using uview_eqD by blast
  next
    case (Inr b)
    obtain pu ph s2 where p: "prepareUserState en us s1 = ((pu, ph), s2)" by (metis prod.collapse)
    note u2 = prepareUserState_users [OF p]
    have ph: "ph = s_lastUserHash s" using u2(2) f(1) by (simp add: uview_def)
    obtain ok s' where st: "startKernel en (s_lastConfig s2) us s2 = (ok, s')" by fastforce
    define s3 where "s3 = (if elems us \<noteq> [] \<and> s_lastConfig s2 \<noteq> None
        then (if ok then s' else restoreUserState en pu ph s') else s2)"
    have eq: "applyUserUpdate en us h s =
        (if h \<noteq> [] \<and> elems us \<noteq> [] \<and> running en s3 then confirmApplication en (s3\<lparr>s_lastUserHash := h\<rparr>) else s3)"
      using False o Inr p st by (simp add: applyUserUpdate_def s3_def split: bool.split)
    have k2: "s_kernel s2 = s_kernel s" using prepareUserState_frame(3) [OF p] f(2) by simp
    have "s_lastUsers s3 = append_nil us \<or> s_lastUserHash s3 = ph \<and> \<not> running en s3"
    proof (cases "ok \<or> \<not> (elems us \<noteq> [] \<and> s_lastConfig s2 \<noteq> None)")
      case True
      then show ?thesis using u2(1) uview_eqD [OF startKernel_frame(2) [OF st]] by (auto simp: s3_def)
    next
      case no: False
      then have "running en s' = running en s2" using startKernel_failed [OF assms] st by metis
      then show ?thesis
        using no False k2 restoreUserState_frame(3) [of en pu ph s']
        by (simp add: s3_def running_def) (simp add: restoreUserState_def Let_def)
    qed
    then show ?thesis
      using eq ph uview_eqD [OF confirmApplication_frame(2) [of en "s3\<lparr>s_lastUserHash := h\<rparr>"]] by auto
  qed
next
  case True
  obtain pu ph s1 where p: "prepareUserState en us s = ((pu, ph), s1)" by (metis prod.collapse)
  note u1 = prepareUserState_users [OF p]
  obtain e k where u: "k_UpdateUsers (e_kernel en) us (s_kernel s1) = (e, k)" by fastforce
  show ?thesis
  proof (cases e)
    case None
    define t where "t = (if h \<noteq> [] then s1\<lparr>s_kernel := k, s_lastUserHash := h\<rparr> else s1\<lparr>s_kernel := k\<rparr>)"
    have "applyUserUpdate en us h s = confirmApplication en t"
      using True p u None by (simp add: applyUserUpdate_def t_def)
    moreover have "s_lastUsers t = append_nil us" using u1 by (simp add: t_def)
    ultimately show ?thesis using uview_eqD [OF confirmApplication_frame(2) [of en t]] by simp
  next
    case (Some e')
    obtain ok s2 where st: "startKernel en (s_lastConfig s1) us (s1\<lparr>s_kernel := k\<rparr>) = (ok, s2)" by fastforce
    have "applyUserUpdate en us h s = (if ok then s2 else restoreUserState en pu ph s2)"
      using True p u Some st by (simp add: applyUserUpdate_def split: bool.split)
    from startKernel_users [OF st _ this] u1 show ?thesis by auto
  qed
qed

lemma apply_users_users:
  assumes "env_ok en" and "pr_users r \<noteq> None" and "pr_userHash r \<noteq> s_lastUserHash s"
    and "s_lastUserHash (apply_users en r c s) = pr_userHash r"
  shows "s_lastUsers (apply_users en r c s) = append_nil (pr_users r)"
  using assms applyUserUpdate_users [OF assms(1), of "pr_users r" "pr_userHash r" s]
  by (auto simp: apply_users_def updateUserState_def prepareUserState_def append_nil_def Let_def split: if_splits)

text \<open>What it means that a result became the new baseline.\<close>

definition adopted :: "('k, 'c) env \<Rightarrow> pullResult \<Rightarrow> ('k, 'c) Service \<Rightarrow> ('k, 'c) Service \<Rightarrow> bool" where
  "adopted en r s s' \<longleftrightarrow>
     s_lastConfig s' = (if pr_config r = None then s_lastConfig s else pr_config r) \<and>
     s_lastConfigHash s' = (if pr_config r = None then s_lastConfigHash s else pr_configHash r) \<and>
     s_desiredRevision s' = (if 0 < pr_revision r then pr_revision r else s_desiredRevision s) \<and>
     (pr_users r \<noteq> None \<longrightarrow> s_lastUserHash s' = pr_userHash r \<and>
        (pr_userHash r \<noteq> s_lastUserHash s \<longrightarrow> s_lastUsers s' = append_nil (pr_users r))) \<and>
     (running en s' \<longrightarrow> \<not> s_reconcileNeeded s' \<and>
        (0 < s_desiredRevision s' \<longrightarrow> s_appliedRevision s' = s_desiredRevision s'))"

text \<open>
  What the kernel is asked for a result, and its answer. A changed configuration or certificate: to stop
  if there are no users, else to reload or start with the configuration \<open>nc\<close> and the users \<open>us\<close>; changed users
  alone: to update its users, or to start with them if it does not run or refuses. \<open>kernel_back\<close>
  is how it is told the previous configuration and users again.
\<close>

definition users_asked :: "('k, 'c) env \<Rightarrow> UserSpec slice \<Rightarrow> NodeSpec option \<Rightarrow> TLSCert \<Rightarrow> 'k \<Rightarrow> err \<times> 'k" where
  "users_asked en us nc tls k =
     (if k_IsRunning (e_kernel en) k then
        (case k_UpdateUsers (e_kernel en) us k of (None, k') \<Rightarrow> (None, k') | (Some _, k') \<Rightarrow> k_Start (e_kernel en) nc us tls k')
      else if elems us \<noteq> [] \<and> nc \<noteq> None then k_Start (e_kernel en) nc us tls k else (None, k))"

definition config_asked :: "('k, 'c) env \<Rightarrow> NodeSpec option \<Rightarrow> UserSpec slice \<Rightarrow> TLSCert \<Rightarrow> 'k \<Rightarrow> err \<times> 'k" where
  "config_asked en nc us tls k =
     (if elems us = [] then (None, k_Stop (e_kernel en) k)
      else if nc = None then (None, k)
      else if k_IsRunning (e_kernel en) k then k_Reload (e_kernel en) nc us tls k
      else k_Start (e_kernel en) nc us tls k)"

definition new_config :: "pullResult \<Rightarrow> ('k, 'c) Service \<Rightarrow> NodeSpec option" where
  "new_config r s = (if pr_config r = None then s_lastConfig s else pr_config r)"

definition new_users :: "pullResult \<Rightarrow> ('k, 'c) Service \<Rightarrow> UserSpec slice" where
  "new_users r s = (if pr_users r \<noteq> None \<and> pr_userHash r \<noteq> s_lastUserHash s then append_nil (pr_users r) else s_lastUsers s)"

definition kernel_asked :: "('k, 'c) env \<Rightarrow> pullResult \<Rightarrow> ('k, 'c) Service \<Rightarrow> TLSCert \<Rightarrow> err \<times> 'k" where
  "kernel_asked en r s tls =
     (if pr_certChanged r \<or> pr_config r \<noteq> None then config_asked en (new_config r s) (new_users r s) tls (s_kernel s)
      else if pr_users r \<noteq> None \<and> pr_userHash r \<noteq> s_lastUserHash s
      then users_asked en (pr_users r) (s_lastConfig s) tls (s_kernel s)
      else (None, s_kernel s))"

definition kernel_back :: "('k, 'c) env \<Rightarrow> NodeSpec option \<Rightarrow> UserSpec slice \<Rightarrow> TLSCert \<Rightarrow> 'k \<Rightarrow> 'k" where
  "kernel_back en nc us tls k =
     (if nc = None \<or> elems us = [] then k
      else case k_Reload (e_kernel en) nc us tls k of
        (None, k') \<Rightarrow> k' | (Some _, k') \<Rightarrow> snd (k_Start (e_kernel en) nc us tls k'))"

text \<open>
  A result was rejected: the baseline is the one from before, a retry is due, and the kernel was left
  alone, or, after it refused the result or the certificate for its start could not be had, was told the previous
  configuration and users.
\<close>

definition rejected :: "('k, 'c) env \<Rightarrow> pullResult \<Rightarrow> ('k, 'c) Service \<Rightarrow> ('k, 'c) Service \<Rightarrow> bool" where
  "rejected en r s s' \<longleftrightarrow> baseline s' = baseline s \<and> s_reconcileNeeded s' \<and>
     (s_kernel s' = s_kernel s \<or>
      (\<exists>k. (k = s_kernel s \<or> (\<exists>e tls. kernel_asked en r s tls = (Some e, k))) \<and>
         s_kernel s' = kernel_back en (s_lastConfig s) (s_lastUsers s) (tlsCert en s') k))"

definition taken :: "('k, 'c) env \<Rightarrow> pullResult \<Rightarrow> ('k, 'c) Service \<Rightarrow> ('k, 'c) Service \<Rightarrow> bool" where
  "taken en r s s' \<longleftrightarrow> adopted en r s s' \<and> kernel_asked en r s (tlsCert en s') = (None, s_kernel s')"

lemma certMgr_frame:
  "s_certMgr (reportApplication en a b e s) = s_certMgr s" "s_certMgr (confirmApplication en s) = s_certMgr s"
  "s_certMgr (restoreUserState en us h s) = s_certMgr s" "s_certMgr (updateUserState en us s) = s_certMgr s"
  by (simp_all add: reportApplication_def confirmApplication_def restoreUserState_def updateUserState_def prepareUserState_def
      Let_def sync_limits_def split: prod.split)

lemma prepareUserState_hash:
  assumes "prepareUserState en us s = (prev, s')"
  shows "s_lastUserHash s' = computeUserHash (e_sha en) us"
proof -
  have "computeUserHash (e_sha en) (Some (elems us)) = computeUserHash (e_sha en) us" by (rule computeUserHash_cong) simp
  then show ?thesis using assms by (auto simp: prepareUserState_def Let_def)
qed

lemma prepareUserState_certMgr: "prepareUserState en us s = (prev, s') \<Longrightarrow> s_certMgr s' = s_certMgr s"
  by (auto simp: prepareUserState_def Let_def sync_limits_frame)

lemma startKernel_kernel:
  assumes "startKernel en nc us s = (ok, s')"
  shows "\<exists>e. k_Start (e_kernel en) nc us (tlsCert en s) (s_kernel s) = (e, s_kernel s') \<and> (ok \<longleftrightarrow> e = None)"
    and "s_certMgr s' = s_certMgr s"
  using assms by (auto simp: startKernel_def split: prod.splits option.splits)

lemma applyChanges_kernel:
  assumes "applyChanges en True s = (ok, s')"
  shows "\<exists>e. config_asked en (s_lastConfig s) (s_lastUsers s) (tlsCert en s) (s_kernel s) = (e, s_kernel s') \<and> (ok \<longleftrightarrow> e = None)"
    and "s_certMgr s' = s_certMgr s"
proof -
  show "\<exists>e. config_asked en (s_lastConfig s) (s_lastUsers s) (tlsCert en s) (s_kernel s) = (e, s_kernel s') \<and> (ok \<longleftrightarrow> e = None)"
  proof (cases "s_lastConfig s = None \<or> elems (s_lastUsers s) = []")
    case True
    then show ?thesis using assms by (auto simp: applyChanges_def config_asked_def)
  next
    case False
    show ?thesis
    proof (cases "running en s")
      case True
      then show ?thesis using False assms
        by (auto simp: applyChanges_def config_asked_def running_def split: prod.splits option.splits)
    next
      case idle: False
      then have "startKernel en (s_lastConfig s) (s_lastUsers s) s = (ok, s')" using False assms unfolding applyChanges_def by auto
      from startKernel_kernel(1) [OF this] show ?thesis using False idle by (auto simp: config_asked_def running_def)
    qed
  qed
  show "s_certMgr s' = s_certMgr s"
    using assms startKernel_kernel(2) [of en "s_lastConfig s" "s_lastUsers s" s ok s']
    by (auto simp: applyChanges_def split: if_splits prod.splits option.splits)
qed

text \<open>An update of the users: the new hash is kept exactly when the kernel took them.\<close>

lemma applyUserUpdate_kernel:
  assumes "env_ok en" and "h = computeUserHash (e_sha en) us" and "h \<noteq> s_lastUserHash s" and "s' = applyUserUpdate en us h s"
  shows "(s_lastUserHash s' = h \<and> users_asked en us (s_lastConfig s) (tlsCert en s') (s_kernel s) = (None, s_kernel s')) \<or>
    (s_lastUserHash s' \<noteq> h \<and>
      (s_kernel s' = s_kernel s \<or> (\<exists>e tls. users_asked en us (s_lastConfig s) tls (s_kernel s) = (Some e, s_kernel s'))))"
proof (cases "running en s")
  case False
  obtain r s1 where o: "(if elems us \<noteq> [] \<and> s_lastConfig s \<noteq> None then applyRemoteOverrides en (s_lastConfig s) s
      else (Inr False, s)) = (r, s1)" by fastforce
  have f: "uview s1 = uview s" "s_kernel s1 = s_kernel s" "base s1 = base s"
    using o applyRemoteOverrides_frame [of en "s_lastConfig s" s] by (auto split: if_splits)
  show ?thesis
  proof (cases r)
    case (Inl e)
    define t where "t = s1\<lparr>s_lastKernelError := Some e, s_reconcileNeeded := True\<rparr>"
    have s': "s' = reportApplication en ''failed'' ''certificate'' (Some e) t"
      using False o Inl assms(4) by (simp add: applyUserUpdate_def t_def)
    have "uview t = uview s" "s_kernel t = s_kernel s" using f by (simp_all add: t_def)
    then have "s_lastUserHash s' = s_lastUserHash s" "s_kernel s' = s_kernel s"
      using reportApplication_frame(2,4) [of en "''failed''" "''certificate''" "Some e" t] by (auto simp: s' dest: uview_eqD)
    then show ?thesis using assms(3) by simp
  next
    case (Inr b)
    obtain pu ph s2 where p: "prepareUserState en us s1 = ((pu, ph), s2)" by (metis prod.collapse)
    note F = prepareUserState_frame [OF p]
    have k2: "s_kernel s2 = s_kernel s" "s_lastConfig s2 = s_lastConfig s" "ph = s_lastUserHash s"
      using F f by (auto simp: base_def uview_def)
    have h2: "s_lastUserHash s2 = h"
      using prepareUserState_hash [OF p] assms(2) by simp
    obtain ok t where st: "startKernel en (s_lastConfig s2) us s2 = (ok, t)" by fastforce
    define s3 where "s3 = (if elems us \<noteq> [] \<and> s_lastConfig s2 \<noteq> None
        then (if ok then t else restoreUserState en pu ph t) else s2)"
    have eq: "s' = (if h \<noteq> [] \<and> elems us \<noteq> [] \<and> running en s3 then confirmApplication en (s3\<lparr>s_lastUserHash := h\<rparr>) else s3)"
      using False o Inr p st assms(4) by (simp add: applyUserUpdate_def s3_def split: bool.split)
    have k': "s_kernel s' = s_kernel s3" "s_certMgr s' = s_certMgr s3"
      using confirmApplication_frame(4) [of en "s3\<lparr>s_lastUserHash := h\<rparr>"] certMgr_frame(2) [of en "s3\<lparr>s_lastUserHash := h\<rparr>"]
      by (auto simp: eq)
    have h': "s_lastUserHash s' = h \<or> s_lastUserHash s' = s_lastUserHash s3 \<and> (h = [] \<or> elems us = [] \<or> \<not> running en s3)"
      using uview_eqD [OF confirmApplication_frame(2) [of en "s3\<lparr>s_lastUserHash := h\<rparr>"]] by (auto simp: eq)
    note S = startKernel_kernel [OF st]
    show ?thesis
    proof (cases "elems us \<noteq> [] \<and> s_lastConfig s \<noteq> None")
      case no: False
      then have "s3 = s2" using k2 by (auto simp: s3_def)
      then show ?thesis using no h' h2 k' k2 False by (auto simp: users_asked_def running_def)
    next
      case yes: True
      obtain e where e: "k_Start (e_kernel en) (s_lastConfig s) us (tlsCert en s2) (s_kernel s) = (e, s_kernel t)" "ok \<longleftrightarrow> e = None"
        using S(1) k2 by auto
      have asked: "users_asked en us (s_lastConfig s) tls (s_kernel s) = k_Start (e_kernel en) (s_lastConfig s) us tls (s_kernel s)" for tls
        using yes False by (simp add: users_asked_def running_def)
      show ?thesis
      proof (cases ok)
        case True
        then have "s3 = t" using yes k2 by (simp add: s3_def)
        then have "s_lastUserHash s' = h" "tlsCert en s' = tlsCert en s2" "s_kernel s' = s_kernel t"
          using h' h2 k' S(2) uview_eqD [OF startKernel_frame(2) [OF st]] by (auto simp: tlsCert_def)
        then show ?thesis using e True asked by simp
      next
        case fail: False
        then have s3: "s3 = restoreUserState en pu ph t" using yes k2 by (simp add: s3_def)
        have "running en t = running en s2" using startKernel_failed [OF assms(1)] st fail by metis
        then have "\<not> running en s3" using False k2(1) restoreUserState_frame(3) [of en pu ph t] by (simp add: s3 running_def)
        then have s': "s' = s3" by (simp add: eq)
        then have "s_lastUserHash s' \<noteq> h" using assms(3) k2(3) by (simp add: s3 restoreUserState_def Let_def)
        moreover have "s_kernel s' = s_kernel t" using s' restoreUserState_frame(3) [of en pu ph t] by (simp add: s3)
        moreover obtain e' where "e = Some e'" using e(2) fail by auto
        ultimately have "s_lastUserHash s' \<noteq> h" "users_asked en us (s_lastConfig s) (tlsCert en s2) (s_kernel s) = (Some e', s_kernel s')"
          using e(1) asked by simp_all
        then show ?thesis by blast
      qed
    qed
  qed
next
  case True
  obtain pu ph s1 where p: "prepareUserState en us s = ((pu, ph), s1)" by (metis prod.collapse)
  note F = prepareUserState_frame [OF p]
  have h1: "s_lastUserHash s1 = h" using prepareUserState_hash [OF p] assms(2) by simp
  obtain e k where u: "k_UpdateUsers (e_kernel en) us (s_kernel s) = (e, k)" by fastforce
  show ?thesis
  proof (cases e)
    case None
    define t where "t = (if h \<noteq> [] then s1\<lparr>s_kernel := k, s_lastUserHash := h\<rparr> else s1\<lparr>s_kernel := k\<rparr>)"
    have s': "s' = confirmApplication en t" using True p u None F(3) assms(4) by (simp add: applyUserUpdate_def t_def)
    have "s_kernel s' = k" "s_lastUserHash s' = h"
      using confirmApplication_frame(4) [of en t] uview_eqD [OF confirmApplication_frame(2) [of en t]] h1 by (auto simp: s' t_def)
    then show ?thesis using True u None by (simp add: users_asked_def running_def)
  next
    case (Some e')
    obtain ok s2 where st: "startKernel en (s_lastConfig s1) us (s1\<lparr>s_kernel := k\<rparr>) = (ok, s2)" by fastforce
    have s': "s' = (if ok then s2 else restoreUserState en pu ph s2)"
      using True p u Some st F(3) assms(4) by (simp add: applyUserUpdate_def split: bool.split)
    have asked: "users_asked en us (s_lastConfig s) tls (s_kernel s) = k_Start (e_kernel en) (s_lastConfig s) us tls k" for tls
      using True u Some by (simp add: users_asked_def running_def)
    obtain e2 where e2: "k_Start (e_kernel en) (s_lastConfig s) us (tlsCert en s1) k = (e2, s_kernel s2)" "ok \<longleftrightarrow> e2 = None"
      using startKernel_kernel(1) [OF st] F(4) by (auto simp: tlsCert_def)
    show ?thesis
    proof (cases ok)
      case True
      then have "s_lastUserHash s' = h" "tlsCert en s' = tlsCert en s1" "s_kernel s' = s_kernel s2"
        using s' h1 startKernel_kernel(2) [OF st] uview_eqD [OF startKernel_frame(2) [OF st]] by (auto simp: tlsCert_def)
      then show ?thesis using e2 True asked by simp
    next
      case False
      then have "s_lastUserHash s' = ph" "s_kernel s' = s_kernel s2"
        using s' restoreUserState_frame(3) [of en pu ph s2] by (simp_all add: restoreUserState_def Let_def)
      moreover have "ph \<noteq> h" using F(5) assms(3) by simp
      moreover obtain e3 where "e2 = Some e3" using e2(2) False by auto
      ultimately have "s_lastUserHash s' \<noteq> h" "users_asked en us (s_lastConfig s) (tlsCert en s1) (s_kernel s) = (Some e3, s_kernel s')"
        using e2(1) asked by simp_all
      then show ?thesis by blast
    qed
  qed
qed

text \<open>The state in which the configuration of a result is applied.\<close>

definition announced :: "pullResult \<Rightarrow> ('k, 'c) Service \<Rightarrow> ('k, 'c) Service" where
  "announced r s = s\<lparr>s_wsResyncPending := False,
     s_desiredRevision := (if 0 < pr_revision r then pr_revision r else s_desiredRevision s)\<rparr>"

lemma announced_frame:
  "uview (announced r s) = uview s" "inputs (announced r s) = inputs s" "s_kernel (announced r s) = s_kernel s"
  "s_lastConfig (announced r s) = s_lastConfig s" "s_lastConfigHash (announced r s) = s_lastConfigHash s"
  "s_desiredRevision (announced r s) = (if 0 < pr_revision r then pr_revision r else s_desiredRevision s)"
  by (simp_all add: announced_def inputs_def)

lemma baseline_uview:
  "uview s' = uview s \<Longrightarrow> base s' = base s \<Longrightarrow> inputs s' = inputs s \<Longrightarrow> baseline s' = baseline s"
  by (simp add: baseline_def uview_def)

text \<open>The branches of \<open>applyPullResult\<close>: a failed validation, a failed certificate, and the rest.\<close>

lemma applyPullResult_cases:
  obtains (invalid) e where "applyPullResult en r s = (reportApplication en ''failed'' ''validate'' (Some (e_msg en e))
        ((announced r s)\<lparr>s_reconcileNeeded := True\<rparr>))\<lparr>s_desiredRevision := s_desiredRevision s\<rparr>"
  | (certificate) e s2 where "apply_config en r (announced r s) = (Inl e, s2)"
      and "applyPullResult en r s = (restore_inputs en s (reportApplication en ''failed'' ''certificate'' (Some e)
        (s2\<lparr>s_reconcileNeeded := True\<rparr>)))\<lparr>s_desiredRevision := s_desiredRevision s\<rparr>"
  | (applied) s2 s3 ok s4 c where "apply_config en r (announced r s) = (Inr (), s2)" and "s3 = apply_users en r c s2"
      and "c = (pr_certChanged r \<or> pr_config r \<noteq> None)"
      and "(if c then applyChanges en True s3 else (True, s3)) = (ok, s4)"
      and "applyPullResult en r s = (if \<not> ok \<or> pr_users r \<noteq> None \<and> pr_userHash r \<noteq> s_lastUserHash s4
        then roll_back en s s4 else confirmApplication en s4)"
proof -
  define v where "v = (if pr_config r = None then Inr ()
    else validateNodeRuntime (e_dnsKnown en) (s_kernelType (announced r s)) (k_Protocols (e_kernel en)) (pr_config r)
      (tlsCert en (announced r s)))"
  define c where "c = (pr_certChanged r \<or> pr_config r \<noteq> None)"
  obtain x s2 where x: "apply_config en r (announced r s) = (x, s2)" by fastforce
  obtain ok s4 where y: "(if c then applyChanges en True (apply_users en r c s2) else (True, apply_users en r c s2)) = (ok, s4)"
    by fastforce
  have eq: "applyPullResult en r s = (case v of
        Inl e \<Rightarrow> (reportApplication en ''failed'' ''validate'' (Some (e_msg en e)) ((announced r s)\<lparr>s_reconcileNeeded := True\<rparr>))
          \<lparr>s_desiredRevision := s_desiredRevision s\<rparr>
      | Inr _ \<Rightarrow> (case x of
          Inl e \<Rightarrow> (restore_inputs en s (reportApplication en ''failed'' ''certificate'' (Some e)
            (s2\<lparr>s_reconcileNeeded := True\<rparr>)))\<lparr>s_desiredRevision := s_desiredRevision s\<rparr>
        | Inr _ \<Rightarrow> (if \<not> ok \<or> pr_users r \<noteq> None \<and> pr_userHash r \<noteq> s_lastUserHash s4
            then roll_back en s s4 else confirmApplication en s4)))"
    unfolding applyPullResult_def Let_def announced_def [symmetric] v_def [symmetric] c_def [symmetric] x prod.case y
    by (rule refl)
  show thesis
  proof (cases v)
    case (Inl e) then show thesis using eq invalid by simp
  next
    case (Inr u)
    note vr = Inr
    show thesis
    proof (cases x)
      case (Inl e) then show thesis using eq vr x certificate by simp
    next
      case (Inr u') then show thesis using eq vr x applied [OF _ refl c_def y] by simp
    qed
  qed
qed

lemma applied_frame:
  assumes "env_ok en" and "user_inv en ex s" and "pull_ok en r"
    and "apply_config en r (announced r s) = (Inr (), s2)" and "s3 = apply_users en r c s2"
    and "(if c then applyChanges en True s3 else (True, s3)) = (ok, s4)"
  shows "user_inv en ex s4" and "uview s4 = uview s3" and "base s4 = base s2"
proof -
  have 4: "uview s4 = uview s3" "base s4 = base s3"
    using assms(6) applyChanges_frame [of en True s3] by (auto split: if_splits)
  have "user_inv en ex s2" using assms(2) apply_config_frame(1) [OF assms(4)] by (simp add: announced_frame)
  then have "user_inv en ex s3" using apply_users_inv [OF assms(1,3)] assms(5) by simp
  then show "user_inv en ex s4" "uview s4 = uview s3" "base s4 = base s2"
    using 4 apply_users_base [of en r c s2] assms(5) by simp_all
qed

lemma applied_adopted:
  assumes "env_ok en" and "user_inv en ex s" and "pull_ok en r"
    and "apply_config en r (announced r s) = (Inr (), s2)" and "s3 = apply_users en r c s2"
    and "(if c then applyChanges en True s3 else (True, s3)) = (ok, s4)"
    and "pr_users r = None \<or> pr_userHash r = s_lastUserHash s4"
  shows "adopted en r s (confirmApplication en s4)"
proof -
  note A = applied_frame [OF assms(1-6)]
  note C = apply_config_frame [OF assms(4)]
  have b: "s_lastConfig s4 = s_lastConfig s2" "s_lastConfigHash s4 = s_lastConfigHash s2" "s_desiredRevision s4 = s_desiredRevision s2"
    using A(3) by (simp_all add: base_def)
  let ?s' = "confirmApplication en s4"
  have b': "s_lastConfig ?s' = s_lastConfig s4" "s_lastConfigHash ?s' = s_lastConfigHash s4"
    "s_desiredRevision ?s' = s_desiredRevision s4"
    using confirmApplication_frame(1) [of en s4] by (simp_all add: base_def)
  have u': "s_lastUsers ?s' = s_lastUsers s4" "s_lastUserHash ?s' = s_lastUserHash s4"
    using uview_eqD [OF confirmApplication_frame(2) [of en s4]] by simp_all
  have h2: "s_lastUserHash s2 = s_lastUserHash s" using uview_eqD [OF C(1)] uview_eqD [OF announced_frame(1) [of r s]] by simp
  have "s_lastUsers s4 = append_nil (pr_users r)" if "pr_users r \<noteq> None" "pr_userHash r \<noteq> s_lastUserHash s"
    using apply_users_users [OF assms(1) that(1), of s2 c] that h2 assms(5,7) uview_eqD [OF A(2)] by auto
  moreover have "running en ?s' = running en s4" by (simp add: running_def confirmApplication_frame)
  ultimately show ?thesis
    using assms(7) confirmApplication_running [of en s4] C(3,5)
    by (auto simp: adopted_def u' b' b announced_frame)
qed

text \<open>The kernel took what was applied, or refused it.\<close>

lemma applied_kernel:
  assumes "env_ok en" and "pull_ok en r" and "c = (pr_certChanged r \<or> pr_config r \<noteq> None)"
    and "apply_config en r (announced r s) = (Inr (), s2)" and "s3 = apply_users en r c s2"
    and "(if c then applyChanges en True s3 else (True, s3)) = (ok, s4)"
  shows "(if ok \<and> (pr_users r = None \<or> pr_userHash r = s_lastUserHash s4) then kernel_asked en r s (tlsCert en s4) = (None, s_kernel s4)
    else s_kernel s4 = s_kernel s \<or> (\<exists>e tls. kernel_asked en r s tls = (Some e, s_kernel s4)))"
proof -
  note C = apply_config_frame [OF assms(4)]
  have u2: "s_lastUserHash s2 = s_lastUserHash s" "s_lastUsers s2 = s_lastUsers s" "s_kernel s2 = s_kernel s"
    using uview_eqD [OF C(1)] uview_eqD [OF announced_frame(1) [of r s]] C(2) by (simp_all add: announced_frame)
  have c2: "s_lastConfig s2 = new_config r s" using C(5) by (simp add: new_config_def announced_frame)
  show ?thesis
  proof (cases c)
    case True
    have s3: "s3 = (if pr_users r \<noteq> None \<and> pr_userHash r \<noteq> s_lastUserHash s then updateUserState en (pr_users r) s2 else s2)"
      using assms(5) True u2 by (simp add: apply_users_def)
    have k3: "s_kernel s3 = s_kernel s" "s_lastConfig s3 = new_config r s" "s_lastUsers s3 = new_users r s"
      using updateUserState_frame [of en "pr_users r" s2] u2 c2
      by (auto simp: s3 base_def new_users_def) (simp add: updateUserState_def prepareUserState_def Let_def append_nil_def)
    have y: "applyChanges en True s3 = (ok, s4)" using assms(6) True by simp
    note K = applyChanges_kernel [OF y]
    have "pr_userHash r = s_lastUserHash s4" if "pr_users r \<noteq> None"
    proof -
      have "computeUserHash (e_sha en) (Some (elems (pr_users r))) = computeUserHash (e_sha en) (pr_users r)"
        by (rule computeUserHash_cong) simp
      then have "s_lastUserHash s3 = pr_userHash r"
        using that assms(2) u2 by (auto simp: s3 pull_ok_def updateUserState_def prepareUserState_def Let_def)
      then show ?thesis using uview_eqD [OF applyChanges_frame(2) [OF y]] by simp
    qed
    moreover have "kernel_asked en r s (tlsCert en s4) = config_asked en (s_lastConfig s3) (s_lastUsers s3) (tlsCert en s3) (s_kernel s3)"
      using True assms(3) k3 K(2) by (auto simp: kernel_asked_def tlsCert_def)
    ultimately have "pr_users r \<noteq> None \<longrightarrow> pr_userHash r = s_lastUserHash s4"
      and "\<exists>e. kernel_asked en r s (tlsCert en s4) = (e, s_kernel s4) \<and> (ok \<longleftrightarrow> e = None)" using K(1) by auto
    then show ?thesis
    proof (cases ok)
      case False
      then obtain e where "kernel_asked en r s (tlsCert en s4) = (Some e, s_kernel s4)"
        using \<open>\<exists>e. kernel_asked en r s (tlsCert en s4) = (e, s_kernel s4) \<and> (ok \<longleftrightarrow> e = None)\<close> by auto
      then show ?thesis using False by (simp only: simp_thms if_False) blast
    qed auto
  next
    case False
    then have n: "pr_config r = None" "\<not> pr_certChanged r" "ok" "s4 = s3" using assms(3,6) by auto
    show ?thesis
    proof (cases "pr_users r \<noteq> None \<and> pr_userHash r \<noteq> s_lastUserHash s")
      case no: False
      then have "s3 = s2" using assms(5) False u2 by (auto simp: apply_users_def)
      then show ?thesis using n no u2 by (auto simp: kernel_asked_def)
    next
      case yes: True
      then have s3: "s3 = applyUserUpdate en (pr_users r) (pr_userHash r) s2" using assms(5) False u2 by (simp add: apply_users_def)
      have "s_lastConfig s2 = s_lastConfig s" using c2 n by (simp add: new_config_def)
      then have "kernel_asked en r s tls = users_asked en (pr_users r) (s_lastConfig s2) tls (s_kernel s2)" for tls
        using yes n u2 by (simp add: kernel_asked_def)
      moreover have "pr_userHash r = computeUserHash (e_sha en) (pr_users r)" "pr_userHash r \<noteq> s_lastUserHash s2"
        using yes assms(2) u2 by (simp_all add: pull_ok_def)
      ultimately show ?thesis using applyUserUpdate_kernel [OF assms(1) _ _ s3] n yes u2 by auto
    qed
  qed
qed

lemma roll_back_kernel:
  assumes "s_lastUsers s0 \<noteq> Some []"
  shows "s_kernel (roll_back en s0 s4) =
    kernel_back en (s_lastConfig s0) (s_lastUsers s0) (tlsCert en (roll_back en s0 s4)) (s_kernel s4)"
proof -
  define s5 where "s5 = reportApplication en ''failed'' ''kernel''
    (Some (case s_lastKernelError s4 of None \<Rightarrow> ''user authorization update failed'' | Some e \<Rightarrow> e)) (s4\<lparr>s_reconcileNeeded := True\<rparr>)"
  define s6 where "s6 = (restore_inputs en s0 s5)\<lparr>s_lastConfig := s_lastConfig s0, s_lastConfigHash := s_lastConfigHash s0\<rparr>"
  define s7 where "s7 = (restoreUserState en (append_nil (s_lastUsers s0)) (s_lastUserHash s0) s6)\<lparr>s_desiredRevision := s_desiredRevision s0\<rparr>"
  have r: "roll_back en s0 s4 = restore_kernel en (s_lastConfig s0) (append_nil (s_lastUsers s0)) s7"
    by (simp add: roll_back_def Let_def s5_def s6_def s7_def)
  have "s_kernel s7 = s_kernel s4"
    using reportApplication_frame(4) [of en "''failed''" "''kernel''" _ "s4\<lparr>s_reconcileNeeded := True\<rparr>"]
    by (simp add: s7_def restoreUserState_frame(3) s6_def restore_inputs_def s5_def)
  moreover have "append_nil (s_lastUsers s0) = s_lastUsers s0" using assms by (simp add: append_nil_eq_iff)
  moreover have "tlsCert en (restore_kernel en nc us s7) = tlsCert en s7" for nc us
    by (simp add: restore_kernel_def tlsCert_def split: prod.split option.split)
  ultimately show ?thesis
    unfolding r by (auto simp: restore_kernel_def kernel_back_def tlsCert_def split: prod.split option.split)
qed

lemma applyPullResult_inv:
  assumes "env_ok en" and "user_inv en ex s" and "pull_ok en r"
  shows "user_inv en ex (applyPullResult en r s)"
    and "rejected en r s (applyPullResult en r s) \<or> taken en r s (applyPullResult en r s)"
proof -
  let ?s' = "applyPullResult en r s"
  have "user_inv en ex ?s' \<and> (rejected en r s ?s' \<or> taken en r s ?s')"
  proof (cases rule: applyPullResult_cases [of en r s])
    case (invalid e)
    define t where "t = reportApplication en ''failed'' ''validate'' (Some (e_msg en e)) ((announced r s)\<lparr>s_reconcileNeeded := True\<rparr>)"
    have t: "uview t = uview s" "inputs t = inputs s" "base t = base (announced r s)" "s_reconcileNeeded t" "s_kernel t = s_kernel s"
      using announced_frame(1,2,3) [of r s] by (simp_all add: t_def reportApplication_frame) (simp_all add: inputs_def)
    have "baseline (t\<lparr>s_desiredRevision := s_desiredRevision s\<rparr>) = baseline s"
      by (rule baseline_uview) (use t in \<open>simp_all add: base_def announced_frame inputs_def\<close>)
    then show ?thesis using invalid t assms(2) by (simp add: t_def [symmetric] rejected_def)
  next
    case (certificate e s2)
    define t where "t = reportApplication en ''failed'' ''certificate'' (Some e) (s2\<lparr>s_reconcileNeeded := True\<rparr>)"
    note C = apply_config_frame [OF certificate(1)]
    have t: "uview t = uview s" "base t = base (announced r s)" "s_reconcileNeeded t" "s_kernel t = s_kernel s"
      using C(1,2,4) by (simp_all add: t_def reportApplication_frame announced_frame)
    have "baseline ((restore_inputs en s t)\<lparr>s_desiredRevision := s_desiredRevision s\<rparr>) = baseline s"
      by (rule baseline_uview)
        (use t restore_inputs_frame [of en s t] in \<open>simp_all add: base_def announced_frame inputs_def\<close>)
    moreover have "s_kernel (restore_inputs en s t) = s_kernel s" using t by (simp add: restore_inputs_def)
    ultimately show ?thesis
      using certificate(2) t assms(2) restore_inputs_frame [of en s t] by (simp add: t_def [symmetric] rejected_def)
  next
    case (applied s2 s3 ok s4 c)
    note A = applied_frame [OF assms applied(1,2,4)] and D = applied_adopted [OF assms applied(1,2,4)]
    note K = applied_kernel [OF assms(1,3) applied(3,1,2,4)] and B = roll_back_restores [OF assms(1,2) uview_reach [OF A(1)]]
    have ne: "s_lastUsers s \<noteq> Some []" using assms(2) by (simp add: uview_ok_def uview_def)
    show ?thesis
    proof (cases "ok \<and> (pr_users r = None \<or> pr_userHash r = s_lastUserHash s4)")
      case True
      then have s': "?s' = confirmApplication en s4" using applied(5) by auto
      have "tlsCert en (confirmApplication en s4) = tlsCert en s4" by (simp add: tlsCert_def certMgr_frame)
      then show ?thesis
        using True K D A(1) by (simp add: s' taken_def confirmApplication_frame)
    next
      case False
      then have s': "?s' = roll_back en s s4" using applied(5) by auto
      have "s_kernel s4 = s_kernel s \<or> (\<exists>e tls. kernel_asked en r s tls = (Some e, s_kernel s4))" using K False by simp
      then have "rejected en r s (roll_back en s s4)"
        unfolding rejected_def using B roll_back_kernel [OF ne, of en s4] by blast
      then show ?thesis using B by (simp add: s')
    qed
  qed
  then show "user_inv en ex ?s'" and "rejected en r s ?s' \<or> taken en r s ?s'" by simp_all
qed

section \<open>Runs of the service\<close>

text \<open>
  A connection that creates a bucket for the record the limiter has changes nothing for anyone; one
  that creates a bucket for another record changes the limit of that user only.
\<close>

abbreviation limits_of :: "('k, 'c) Service \<Rightarrow> Limiter \<times> SpeedTracker" where
  "limits_of s \<equiv> (s_limiter s, s_speedTracker s)"

lemma GetLimiter_insert_cases:
  assumes "GetLimiter_insert t uid u = (r, t')"
  shows "t' = t \<or> map_of (st_buckets t) uid = None \<and>
    t' = t\<lparr>st_buckets := mput uid (length (st_heap t)) (st_buckets t), st_heap := st_heap t @ [new_bucket u], st_hasLimits := True\<rparr>"
  using assms by (auto simp: GetLimiter_insert_def Let_def split: option.splits)

lemma speed_of_insert:
  assumes "st_inv t" and "GetLimiter_insert t uid u = (r, t')"
    and "map_of (st_uuidMap t) uuid \<noteq> Some uid \<or> map_of (lm_users l) uid = Some u \<and> 0 < SpeedLimit u"
  shows "speed_of (l, t') uuid = speed_of (l, t) uuid"
proof -
  have lt: "i < length (st_heap t)" if "map_of (st_buckets t) k = Some i" for k i
    using assms(1) map_of_SomeD [OF that] by (force simp: st_inv_def)
  from GetLimiter_insert_cases [OF assms(2)] show ?thesis
  proof
    assume t': "map_of (st_buckets t) uid = None \<and> t' = t\<lparr>st_buckets := mput uid (length (st_heap t)) (st_buckets t),
      st_heap := st_heap t @ [new_bucket u], st_hasLimits := True\<rparr>"
    show ?thesis
    proof (cases "map_of (st_uuidMap t) uuid = Some uid")
      case True
      then show ?thesis using assms(3) t'
        by (simp add: speed_of_def GetLimiter_def GetLimiter_lookup_def GetLimiter_insert_def Let_def map_of_mput)
    next
      case False
      then show ?thesis using t'
        by (auto simp: map_of_mput speed_of_def GetLimiter_def GetLimiter_lookup_def GetLimiter_insert_def Let_def
            nth_append lt split: option.splits)
    qed
  qed simp
qed

lemma in_force_insert:
  assumes "in_force (\<lambda>_. X) us (l, t)" and "GetLimiter_insert t uid u = (r, t')"
    and "map_of (lm_users l) uid = Some u \<and> 0 < SpeedLimit u \<or> uid \<in> X'" and "X \<subseteq> X'"
  shows "in_force (\<lambda>_. X') us (l, t')"
proof -
  have um: "st_uuidMap t' = st_uuidMap t" using GetLimiter_insert_cases [OF assms(2)] by auto
  have "lim_reach (l, t)" using assms(1) by (simp add: in_force_def)
  then have "lim_reach (l, t')" and inv: "st_inv t"
    using lim_insert [OF _ assms(2)] lim_reach_inv by force+
  moreover have "speed_of (l, t') (UUID v) = speed_of (l, t) (UUID v)" if "users_ok us" "v \<in> set us" "ID v \<notin> X'" for v
  proof -
    have "map_of (st_uuidMap t) (UUID v) = Some (ID v)" using assms(1) that by (simp add: in_force_def)
    then show ?thesis using assms(3) that(3) by (intro speed_of_insert [OF inv assms(2)]) auto
  qed
  ultimately show ?thesis using assms(1,4) um unfolding in_force_def by (auto simp: subset_iff)
qed

lemma user_inv_exempt:
  "user_inv en ex s \<Longrightarrow> ex (limits_of s) \<subseteq> ex' (limits_of s) \<Longrightarrow> user_inv en ex' s"
  by (auto simp: uview_ok_def uview_def in_force_def)

text \<open>
  The inputs of the main loop with their outcomes, and what connections do meanwhile from goroutines of
  the kernel: \<open>Connection uid u\<close> is the second half of \<open>GetLimiter\<close>, which inserts a bucket for the user
  \<open>uid\<close> unless there is one. \<open>u\<close> is the record, with a speed limit, that its first half read under another lock,
  at any earlier moment, so it may be any record. (A synchronisation takes the two locks one after
  the other; the order of an insertion that falls between them and of the synchronisation does not
  matter, since the insertion does not read the user list.)
\<close>

datatype svc_event =
    TrackTick
  | ReportTick string string Status "any \<times> any" bool
  | ReportDone ReportPayload bool
  | DeviceTick
  | PullTick bool
  | PullDone "Snapshot option"
  | PullApplied
  | DiscoveryTick bool "string + nat option"
  | StatusChange bool bool
  | MailboxReady
  | MailboxArrived NodeMailbox
  | WSEvent Event
  | Connection int UserSpec

type_synonym ('k, 'c) svc_state = "('k, 'c) Service \<times> pullResult list"

fun svc_step :: "('k, 'c) env \<Rightarrow> svc_event \<Rightarrow> ('k, 'c) svc_state \<Rightarrow> ('k, 'c) svc_state" where
  "svc_step en TrackTick (s, q) = (trackAndEnforce en s, q)"
| "svc_step en (ReportTick b now st api conn) (s, q) = (snd (pushReportAsync en b now st api (s_wsClient s \<noteq> None, conn) s), q)"
| "svc_step en (ReportDone payload ok) (s, q) = (if s_pushActive s then push_finished payload ok s else s, q)"
| "svc_step en DeviceTick (s, q) = (snd (sendDeviceBatch en s), q)"
| "svc_step en (PullTick conn) (s, q) = (pull_tick en conn s, q)"
| "svc_step en (PullDone polled) (s, q) =
     (if s_pullActive s
      then (case pull_finished en (last (s_pulls s)) polled s of (r, s') \<Rightarrow> (s', q @ (case r of None \<Rightarrow> [] | Some x \<Rightarrow> [x])))
      else (s, q))"
| "svc_step en PullApplied (s, []) = (s, [])"
| "svc_step en PullApplied (s, r # q) = (applyPullResult en r s, q)"
| "svc_step en (DiscoveryTick long found) (s, q) = (wsDiscovery en long found s, q)"
| "svc_step en (StatusChange conn resync) (s, q) = (handleWSStatus en conn resync s, q)"
| "svc_step en MailboxReady (s, q) = (drainMachineMailbox en s, q)"
| "svc_step en (MailboxArrived box) (s, q) = (s\<lparr>s_machineMailbox := Some box\<rparr>, q)"
| "svc_step en (WSEvent e) (s, q) = (handleWSEvent en e s, q)"
| "svc_step en (Connection uid u) (s, q) =
     (if 0 < SpeedLimit u then s\<lparr>s_speedTracker := snd (GetLimiter_insert (s_speedTracker s) uid u)\<rparr> else s, q)"

text \<open>
  The users whose bucket was inserted for a record that was not the limiter's when it was inserted. Any
  event that changes the limits synchronises them with a list of users, which empties the set.
\<close>

fun raced :: "('k, 'c) env \<Rightarrow> svc_event \<Rightarrow> ('k, 'c) svc_state \<Rightarrow> int set \<Rightarrow> int set" where
  "raced en (Connection uid u) x X =
     (if map_of (st_buckets (s_speedTracker (fst x))) uid = None \<and> map_of (lm_users (s_limiter (fst x))) uid \<noteq> Some u
      then insert uid X else X)"
| "raced en e x X = (if limits_of (fst (svc_step en e x)) = limits_of (fst x) then X else {})"

inductive svc_reach :: "('k, 'c) env \<Rightarrow> ('k, 'c) svc_state \<Rightarrow> int set \<Rightarrow> bool" for en where
  svc_start: "initialSetup en b (newService kernelType logLevel certCfg k c) = (None, s) \<Longrightarrow>
    svc_reach en (startWSClient s, []) {}"
| svc_next: "svc_reach en x X \<Longrightarrow> svc_reach en (svc_step en e x) (raced en e x X)"

lemma handleWSEvent_inv:
  assumes "env_ok en" and "user_inv en ex s"
  shows "user_inv en ex (handleWSEvent en e s)"
proof -
  have "user_inv en ex (applyPullResult en \<lparr>pr_revision = 0, pr_config = ev_Config e, pr_users = None,
      pr_configHash = computeConfigHash en (ev_Config e), pr_userHash = [], pr_certChanged = False\<rparr> s)"
    by (rule applyPullResult_inv(1) [OF assms]) (simp add: pull_ok_def)
  then show ?thesis
    using assms service_applyUserDelta_inv [OF assms] applyUserUpdate_inv [OF assms refl]
    by (simp add: handleWSEvent_def Let_def split: EventType.split)
qed

lemma drainMachineMailbox_inv:
  assumes "env_ok en" and "user_inv en ex s"
  shows "user_inv en ex (drainMachineMailbox en s)"
  using assms handleWSEvent_inv [OF assms(1)]
  by (simp add: drainMachineMailbox_def Let_def requestWSResync_frame split: option.split prod.split)

lemma markMailboxReadyAndDrain_inv:
  assumes "env_ok en" and "user_inv en ex s"
  shows "user_inv en ex (markMailboxReadyAndDrain en s)"
  using assms drainMachineMailbox_inv [OF assms(1)] by (simp add: markMailboxReadyAndDrain_def split: option.split)

lemma newService_inv: "user_inv en ex (newService kernelType logLevel certCfg k c)"
proof -
  have "GetDeviceLimitByUUID Limiter_New uuid = None" for uuid by (simp add: GetDeviceLimitByUUID_def Limiter_New_def)
  then show ?thesis by (simp add: uview_ok_def uview_def newService_def in_force_def lim_reach.lim_new)
qed

lemma updateUserState_inv:
  assumes "env_ok en" and "user_inv en ex s"
  shows "user_inv en ex (updateUserState en us s)"
  using prepareUserState_inv(1) [OF assms, of "Some (elems us)"] unfolding updateUserState_def by (metis prod.collapse)

lemma initialSetup_inv:
  assumes "env_ok en" and "user_inv en ex s" and "initialSetup en b s = (r, s')"
  shows "user_inv en ex s'"
proof (cases "bs_Config b")
  case None
  then show ?thesis using assms by (auto simp: initialSetup_def Let_def split: if_splits)
next
  case (Some cfg)
  define s1 where "s1 = s\<lparr>s_wsClient := (if bs_Push b \<noteq> None then bs_Push b else s_wsClient s), s_machineMailbox := bs_Mailbox b,
      s_desiredRevision := bs_Revision b\<rparr>"
  define s2 where "s2 = updateUserState en (bs_Users b)
      (s1\<lparr>s_lastConfig := bs_Config b, s_lastConfigHash := computeConfigHash en (bs_Config b)\<rparr>)"
  have 1: "user_inv en ex s1" using assms(2) by (simp add: s1_def)
  have 2: "user_inv en ex s2" unfolding s2_def by (rule updateUserState_inv [OF assms(1)]) (use 1 in simp)
  obtain x s3 where x: "applyRemoteOverrides en (bs_Config b) s2 = (x, s3)" by fastforce
  obtain ok s4 where y: "startKernel en (bs_Config b) (bs_Users b) s3 = (ok, s4)" by fastforce
  have 4: "user_inv en ex s3" "user_inv en ex s4"
    using 2 applyRemoteOverrides_frame(2) [OF x] startKernel_frame(2) [OF y] by simp_all
  have c: "(bs_Config b = None) = False" using Some by simp
  have eq: "initialSetup en b s =
      (case validateNodeRuntime (e_dnsKnown en) (s_kernelType s1) (k_Protocols (e_kernel en)) (bs_Config b) (tlsCert en s1) of
         Inl e \<Rightarrow> (Some (SetupInvalid e), reportApplication en ''failed'' ''validate'' (Some (e_msg en e)) s1)
       | Inr _ \<Rightarrow>
           if elems (bs_Users b) = [] then (None, markMailboxReadyAndDrain en (s2\<lparr>s_reconcileNeeded := True\<rparr>))
           else case x of
             Inl e \<Rightarrow> (Some (SetupCertificate e), reportApplication en ''failed'' ''certificate'' (Some e) s3)
           | Inr _ \<Rightarrow>
               (case ok of
                  False \<Rightarrow> (Some (SetupKernel (s_lastKernelError s4)), reportApplication en ''failed'' ''kernel'' (s_lastKernelError s4) s4)
                | True \<Rightarrow> (None, markMailboxReadyAndDrain en (confirmApplication en s4))))"
    unfolding initialSetup_def Let_def c if_False s1_def [symmetric] s2_def [symmetric] x prod.case y by (rule refl)
  have "user_inv en ex (snd (initialSetup en b s))"
    unfolding eq using 1 2 4 markMailboxReadyAndDrain_inv [OF assms(1)]
    by (auto simp: reportApplication_frame confirmApplication_frame split: sum.split bool.split)
  then show ?thesis using assms(3) by simp
qed

text \<open>The other handlers do not touch the users.\<close>

lemma reporting_frame [frame]:
  "uview (trackAndEnforce en s) = uview s" "uview (snd (pushReportAsync en b now st api ws s)) = uview s"
  "uview (push_finished p ok s) = uview s" "uview (snd (sendDeviceBatch en s)) = uview s"
  by (auto simp: trackAndEnforce_def pushReportAsync_def beginReport_def push_finished_def completeReport_def
      sendDeviceBatch_def uview_def Let_def split: prod.split option.split bool.split)

lemma polling_frame [frame]:
  "uview (pull_tick en conn s) = uview s" "uview (snd (pull_finished en st polled s)) = uview s"
  "uview (wsDiscovery en long found s) = uview s" "uview (handleWSStatus en conn resync s) = uview s"
  "uview (startWSClient s) = uview s"
  by (auto simp: pull_tick_def pull_finished_def wsDiscovery_def handleWSStatus_def startWSClient_def Let_def
      pullViaAPIAsync_frame requestWSResync_frame split: option.split sum.split)

definition svc_inv :: "('k, 'c) env \<Rightarrow> (Limiter \<times> SpeedTracker \<Rightarrow> int set) \<Rightarrow> ('k, 'c) svc_state \<Rightarrow> bool" where
  "svc_inv en ex x \<longleftrightarrow> user_inv en ex (fst x) \<and> (\<forall>r \<in> set (snd x). pull_ok en r)"

lemma pull_finished_ok: "pull_finished en st polled s = (Some r, s') \<Longrightarrow> pull_ok en r"
  by (auto simp: pull_finished_def pull_ok_def Let_def split: option.splits)

text \<open>The main loop keeps the invariant for any exemption.\<close>

lemma svc_step_inv:
  assumes "env_ok en" and "svc_inv en ex x" and "\<And>uid u. e \<noteq> Connection uid u"
  shows "svc_inv en ex (svc_step en e x)"
proof -
  have i: "user_inv en ex (fst x)" and q: "\<forall>r \<in> set (snd x). pull_ok en r" using assms(2) by (simp_all add: svc_inv_def)
  show ?thesis
  proof (cases "(en, e, x)" rule: svc_step.cases)
    case (6 en' polled s q')
    obtain r s' where f: "pull_finished en (last (s_pulls s)) polled s = (r, s')" by fastforce
    have "uview s' = uview s" using polling_frame(2) [of en "last (s_pulls s)" polled s] f by simp
    then show ?thesis using 6 i q f pull_finished_ok [of en "last (s_pulls s)" polled s]
      by (auto simp: svc_inv_def split: option.split)
  next
    case (8 en' s r q')
    then show ?thesis using i q applyPullResult_inv(1) [OF assms(1)] by (simp add: svc_inv_def)
  next
    case (11 en' s q')
    then show ?thesis using i q drainMachineMailbox_inv [OF assms(1)] by (simp add: svc_inv_def)
  next
    case (13 en' ev s q')
    then show ?thesis using i q handleWSEvent_inv [OF assms(1)] by (simp add: svc_inv_def)
  next
    case (14 en' uid u s q')
    then show ?thesis using assms(3) by simp
  qed (use i q in \<open>simp_all add: svc_inv_def frame\<close>)
qed

lemma svc_step_raced:
  assumes "env_ok en" and "svc_inv en (\<lambda>_. X) x"
  shows "svc_inv en (\<lambda>_. raced en e x X) (svc_step en e x)"
proof (cases "\<exists>uid u. e = Connection uid u")
  case True
  then obtain uid u where e: "e = Connection uid u" by blast
  obtain s q where x: "x = (s, q)" by fastforce
  obtain r t where g: "GetLimiter_insert (s_speedTracker s) uid u = (r, t)" by fastforce
  have inf: "in_force (\<lambda>_. X) (elems (s_lastUsers s)) (s_limiter s, s_speedTracker s)"
    using assms(2) by (simp add: x svc_inv_def uview_ok_def uview_def)
  have "in_force (\<lambda>_. raced en e x X) (elems (s_lastUsers s)) (s_limiter s, t)" if "0 < SpeedLimit u"
  proof (cases "map_of (st_buckets (s_speedTracker s)) uid")
    case None
    then show ?thesis by (intro in_force_insert [OF inf g]) (use that in \<open>auto simp: e x\<close>)
  next
    case (Some i)
    then have "t = s_speedTracker s" using g by (simp add: GetLimiter_insert_def)
    then show ?thesis using inf Some by (simp add: e x)
  qed
  moreover have "X \<subseteq> raced en e x X" by (auto simp: e)
  then have "in_force (\<lambda>_. raced en e x X) (elems (s_lastUsers s)) (s_limiter s, s_speedTracker s)"
    using inf by (auto simp: in_force_def)
  ultimately show ?thesis
    using assms(2) by (simp add: x e svc_inv_def uview_ok_def uview_def g del: raced.simps)
next
  case False
  let ?ex = "\<lambda>st. if st = limits_of (fst x) then X else {}"
  have "svc_inv en ?ex x" using assms(2) user_inv_exempt [of en "\<lambda>_. X" "fst x" ?ex] by (simp add: svc_inv_def)
  then have i: "svc_inv en ?ex (svc_step en e x)" using svc_step_inv [OF assms(1)] False by blast
  have r: "raced en e x X = ?ex (limits_of (fst (svc_step en e x)))" using False by (cases e) auto
  show ?thesis
    unfolding r using i user_inv_exempt [of en ?ex "fst (svc_step en e x)"] by (simp add: svc_inv_def)
qed

lemma svc_reach_inv:
  assumes "svc_reach en x X" and "env_ok en"
  shows "svc_inv en (\<lambda>_. X) x"
  using assms(1)
proof induction
  case (svc_start b kernelType logLevel certCfg k c s)
  from initialSetup_inv [OF assms(2) newService_inv this] show ?case by (simp add: svc_inv_def frame)
next
  case (svc_next x X e)
  then show ?case using svc_step_raced [OF assms(2)] by blast
qed

section \<open>Properties\<close>

text \<open>
  C3. A polled or pushed result is applied as a whole or not at all. Either it was taken: the kernel was
  asked what the result demands (\<open>kernel_asked\<close>) and agreed, its state is the one it answered with, and the
  configuration, its hash, the revision, the users and their hash are those of the result; when the
  kernel runs, the revision counts as applied and no retry is due. Or it was rejected: configuration,
  hash, revision, users, user hash and runtime inputs are those from before, a retry is due, and the
  kernel was left alone or, once it had refused, was given the previous configuration and users again. In
  both cases the limits in force and the user hash are those of the users kept.
\<close>

theorem applyPullResult_atomic:
  assumes "env_ok en" and "user_inv en ex s" and "pull_ok en r"
  shows "(rejected en r s (applyPullResult en r s) \<or> taken en r s (applyPullResult en r s)) \<and> user_inv en ex (applyPullResult en r s)"
  using applyPullResult_inv [OF assms] by blast

text \<open>A kernel that refuses port 0.\<close>

definition demo_start :: "NodeSpec option \<Rightarrow> UserSpec slice \<Rightarrow> TLSCert \<Rightarrow> bool \<Rightarrow> err \<times> bool" where
  "demo_start nc us tls k = (case nc of None \<Rightarrow> (Some ''nil'', k) | Some n \<Rightarrow> if n_ServerPort n = 0 then (Some ''port'', k) else (None, True))"

definition demo_env :: "(bool, unit) env" where
  "demo_env = \<lparr>e_kernel = \<lparr>k_Start = demo_start, k_Stop = (\<lambda>_. False), k_IsRunning = (\<lambda>k. k), k_Reload = demo_start,
       k_AddUsers = (\<lambda>_ k. (None, k)), k_RemoveUsers = (\<lambda>_ k. (None, k)), k_UpdateUsers = (\<lambda>_ k. (None, k)),
       k_GetUserTraffic = (\<lambda>_. Some ([(1, 10, 20)], [], 1)), k_UpdateGlobalDevices = (\<lambda>_ k. k), k_ClearGlobalDevices = (\<lambda>k. k),
       k_Protocols = [''vless'']\<rparr>,
     e_cert = \<lparr>c_Reconfigure = (\<lambda>_ c. (Inr False, c)), c_TLSCert = (\<lambda>_. ([], [])), c_CertRenewed = (\<lambda>c. (False, c))\<rparr>,
     e_sha = (\<lambda>x. x), e_json = (\<lambda>n. digits_of (nat (n_ServerPort n))), e_rng = (\<lambda>m. m), e_dnsKnown = (\<lambda>_. True),
     e_msg = (\<lambda>_. ''invalid''), e_SupportsPolling = True, e_SupportsDiscovery = True, e_SupportsReporting = True,
     e_SupportsDeviceReports = True, e_ReportsApplication = True\<rparr>"

definition demo_service :: "(bool, unit) Service" where
  "demo_service = newService ''xray'' [] \<lparr>cc_AutoTLS = False, cc_Domain = [], cc_Email = [], cc_CertFile = [], cc_KeyFile = [],
     cc_CertDir = [], cc_HTTPPort = 0, cc_CertMode = [], cc_DNSProvider = [], cc_DNSEnv = None, cc_CertContent = [],
     cc_KeyContent = []\<rparr> False ()"

lemma demo_env_ok: "env_ok demo_env"
  by (auto simp: env_ok_def demo_env_def demo_start_def range_order_id split: option.splits if_splits)

definition demo_pull :: "int \<Rightarrow> pullResult" where
  "demo_pull port = \<lparr>pr_revision = 4, pr_config = Some (demo_spec\<lparr>n_ServerPort := port\<rparr>), pr_users = Some [demo_user 1 ''a'' 8 2],
     pr_configHash = ''h'', pr_userHash = computeUserHash (\<lambda>x. x) (Some [demo_user 1 ''a'' 8 2]), pr_certChanged = False\<rparr>"

lemma demo_pull_ok: "pull_ok demo_env (demo_pull port)"
  by (simp add: pull_ok_def demo_pull_def demo_env_def)

lemma demo_service_inv: "user_inv demo_env ex demo_service"
  unfolding demo_service_def by (rule newService_inv)

lemma demo_rejected: "s_lastUsers (applyPullResult demo_env (demo_pull 0) demo_service) = None"
  by code_simp

lemma demo_adopted: "s_lastUsers (applyPullResult demo_env (demo_pull 443) demo_service) = Some [demo_user 1 ''a'' 8 2]"
  by code_simp

lemma demo_pull_new:
  "pr_users (demo_pull port) = Some [demo_user 1 ''a'' 8 2]" "pr_userHash (demo_pull port) \<noteq> []"
  "s_lastUserHash demo_service = []" "s_lastUsers demo_service = None"
  by (simp_all add: demo_pull_def computeUserHash_def user_bytes_def le64_def demo_service_def newService_def)

theorem applyPullResult_atomic_witness:
  "rejected demo_env (demo_pull 0) demo_service (applyPullResult demo_env (demo_pull 0) demo_service) \<and>
   taken demo_env (demo_pull 443) demo_service (applyPullResult demo_env (demo_pull 443) demo_service)"
  using applyPullResult_atomic [OF demo_env_ok demo_service_inv demo_pull_ok, of 0]
    applyPullResult_atomic [OF demo_env_ok demo_service_inv demo_pull_ok, of 443] demo_rejected demo_adopted demo_pull_new
  by (auto simp: taken_def rejected_def adopted_def baseline_def append_nil_def)

text \<open>
  C2. In every state the service reaches, whatever the order of polls, pushed events, user deltas,
  failures of the kernel, roll-backs, status changes, reports and connections, the limits in force are
  those of the users the service keeps: each user has its device limit, and a UUID of no user has no
  device limit; each user has its speed limit, unless since the last synchronisation a connection
  inserted a bucket for a record of this user that was no longer the limiter's (\<open>X\<close>, the race shown by
  \<open>overtaken_bucket_stale\<close>). The hash used to detect changes is the hash of these users.
\<close>

theorem service_limits_follow_users:
  assumes "env_ok en" and "svc_reach en (s, q) X" and "users_ok (elems (s_lastUsers s))" and "u \<in> set (elems (s_lastUsers s))"
  shows "GetDeviceLimitByUUID (s_limiter s) (UUID u) = (if 0 < DeviceLimit u then Some (DeviceLimit u) else None) \<and>
    (ID u \<notin> X \<longrightarrow>
      speed_of (s_limiter s, s_speedTracker s) (UUID u) = (if 0 < SpeedLimit u then Some (update_bucket u) else None)) \<and>
    (uuid \<notin> UUID ` set (elems (s_lastUsers s)) \<longrightarrow> GetDeviceLimitByUUID (s_limiter s) uuid = None) \<and>
    s_lastUserHash s = computeUserHash (e_sha en) (s_lastUsers s)"
proof -
  have i: "user_inv en (\<lambda>_. X) s" using svc_reach_inv [OF assms(2,1)] by (simp add: svc_inv_def)
  then have d: "GetDeviceLimitByUUID (s_limiter s) x = Some d \<longleftrightarrow>
      (\<exists>v \<in> set (elems (s_lastUsers s)). UUID v = x \<and> DeviceLimit v = d \<and> 0 < d)" for x d
    using assms(3) by (simp add: uview_ok_def uview_def in_force_def)
  have sp: "speed_of (s_limiter s, s_speedTracker s) (UUID u) = (if 0 < SpeedLimit u then Some (update_bucket u) else None)"
    if "ID u \<notin> X"
    using i assms(3,4) that by (simp add: uview_ok_def uview_def in_force_def)
  have "GetDeviceLimitByUUID (s_limiter s) (UUID u) = Some d \<longleftrightarrow> DeviceLimit u = d \<and> 0 < d" for d
    using d assms(4) users_ok_same_UUID [OF assms(3)] by blast
  then have "GetDeviceLimitByUUID (s_limiter s) (UUID u) = (if 0 < DeviceLimit u then Some (DeviceLimit u) else None)"
    by (metis option.exhaust)
  moreover have "GetDeviceLimitByUUID (s_limiter s) uuid = None" if "uuid \<notin> UUID ` set (elems (s_lastUsers s))"
    using d [of uuid] that by (cases "GetDeviceLimitByUUID (s_limiter s) uuid") auto
  moreover have "s_lastUserHash s = computeUserHash (e_sha en) (s_lastUsers s)"
    using i assms(4) by (auto simp: uview_ok_def uview_def)
  ultimately show ?thesis using sp by blast
qed

definition demo_boot :: Bootstrap where
  "demo_boot = \<lparr>bs_Revision = 1, bs_PushInterval = 0, bs_PullInterval = 0, bs_Push = None, bs_Config = Some demo_spec,
     bs_Users = Some [demo_user 1 ''a'' 8 2], bs_Mailbox = None\<rparr>"

text \<open>A new list of users arrives, then the first connection of its user creates the bucket.\<close>

definition demo_listed :: "(bool, unit) svc_state" where
  "demo_listed = svc_step demo_env (WSEvent ((no_event EventSyncUsers)\<lparr>ev_Users := Some [demo_user 2 ''b'' 16 3]\<rparr>))
     (startWSClient (snd (initialSetup demo_env demo_boot demo_service)), [])"

definition demo_run :: "(bool, unit) svc_state" where
  "demo_run = svc_step demo_env (Connection 2 (demo_user 2 ''b'' 16 3)) demo_listed"

lemma demo_run_reach: "svc_reach demo_env (fst demo_run, snd demo_run) {}"
proof -
  have "fst (initialSetup demo_env demo_boot demo_service) = None" by code_simp
  then have "initialSetup demo_env demo_boot demo_service = (None, snd (initialSetup demo_env demo_boot demo_service))"
    by (simp add: prod_eq_iff)
  from svc_next [OF svc_start [OF this [unfolded demo_service_def]]]
  have "svc_reach demo_env demo_listed {}"
    unfolding demo_listed_def demo_service_def by (metis (no_types, lifting) raced.simps(13))
  moreover have "raced demo_env (Connection 2 (demo_user 2 ''b'' 16 3)) demo_listed {} = {}"
  proof -
    have "map_of (lm_users (s_limiter (fst demo_listed))) 2 = Some (demo_user 2 ''b'' 16 3)" by code_simp
    then show ?thesis by simp
  qed
  ultimately show ?thesis
    unfolding demo_run_def prod.collapse by (metis svc_next)
qed

lemma demo_run_users: "s_lastUsers (fst demo_run) = Some [demo_user 2 ''b'' 16 3]"
  by code_simp

theorem service_limits_follow_users_witness:
  "GetDeviceLimitByUUID (s_limiter (fst demo_run)) ''b'' = Some 3 \<and> GetDeviceLimitByUUID (s_limiter (fst demo_run)) ''a'' = None \<and>
   speed_of (s_limiter (fst demo_run), s_speedTracker (fst demo_run)) ''b'' = Some (update_bucket (demo_user 2 ''b'' 16 3))"
  using service_limits_follow_users [OF demo_env_ok demo_run_reach, of "demo_user 2 ''b'' 16 3" "''a''"]
  by (simp add: demo_run_users users_ok_def demo_user_def)

end
