(* ===== verification/ServiceReport.thy ===== *)
theory ServiceReport
  imports ServiceRun
begin

text \<open>
  Reporting traffic: every byte the kernel counted is in exactly one batch or still in the tracker,
  and a batch is sent again, under the same identifier, only with the same content.
\<close>

section \<open>The reporting machine\<close>

text \<open>
  The service with a log of what was sent, what was confirmed, the request in flight, and the ticks and
  flushes of the tracker. The other handlers of the service, and the kernel, leave the part of the
  state that reporting uses (\<open>rview\<close>) alone.
\<close>

record ('k, 'c) rp =
  rp_svc :: "('k, 'c) Service"
  rp_sent :: "ReportPayload list"
  rp_acked :: "ReportPayload list"
  rp_flight :: "ReportPayload option"
  rp_ops :: "tr_op list"

datatype rp_event =
    RTrack
  | RReport string Status "any \<times> any" "bool \<times> bool"
  | RDone bool
  | RSync string Status "any \<times> any" "bool \<times> bool" bool
  | RDevices

definition tick_ops :: "('k, 'c) env \<Rightarrow> ('k, 'c) Service \<Rightarrow> tr_op list" where
  "tick_ops en s = (if \<not> running en s then [] else case k_GetUserTraffic (e_kernel en) (s_kernel s) of
     None \<Rightarrow> [] | Some (c, a, n) \<Rightarrow> [TProcess c a n])"

definition flush_ops :: "('k, 'c) Service \<Rightarrow> ReportPayload option \<Rightarrow> tr_op list" where
  "flush_ops s p = (if p \<noteq> None \<and> s_pendingReport s = None then [TFlush] else [])"

definition sent_log :: "ReportPayload option \<Rightarrow> ReportPayload list" where
  "sent_log p = (case p of None \<Rightarrow> [] | Some x \<Rightarrow> [x])"

fun rp_exec :: "('k, 'c) env \<Rightarrow> string \<Rightarrow> rp_event \<Rightarrow> ('k, 'c) rp \<Rightarrow> ('k, 'c) rp" where
  "rp_exec en b RTrack w =
     w\<lparr>rp_svc := trackAndEnforce en (rp_svc w), rp_ops := rp_ops w @ tick_ops en (rp_svc w)\<rparr>"
| "rp_exec en b (RReport now st api ws) w =
     (case pushReportAsync en b now st api ws (rp_svc w) of
        (p, s') \<Rightarrow> w\<lparr>rp_svc := s', rp_sent := rp_sent w @ sent_log p, rp_ops := rp_ops w @ flush_ops (rp_svc w) p,
          rp_flight := (if p = None then rp_flight w else p)\<rparr>)"
| "rp_exec en b (RDone ok) w =
     (case rp_flight w of
        None \<Rightarrow> w
      | Some p \<Rightarrow> w\<lparr>rp_svc := push_finished p ok (rp_svc w), rp_acked := rp_acked w @ (if ok then [p] else []), rp_flight := None\<rparr>)"
| "rp_exec en b (RSync now st api ws ok) w =
     (case pushReportSync en b now st api ws ok (rp_svc w) of
        (p, s') \<Rightarrow> w\<lparr>rp_svc := s', rp_sent := rp_sent w @ sent_log p, rp_ops := rp_ops w @ flush_ops (rp_svc w) p,
          rp_acked := rp_acked w @ (if ok then sent_log p else [])\<rparr>)"
| "rp_exec en b RDevices w = w\<lparr>rp_svc := snd (sendDeviceBatch en (rp_svc w))\<rparr>"

definition rview :: "('k, 'c) Service \<Rightarrow> Tracker \<times> ReportPayload option \<times> bool" where
  "rview s = (s_tracker s, s_pendingReport s, s_pushActive s)"

definition rp_step :: "('k, 'c) env \<Rightarrow> string \<Rightarrow> ('k, 'c) rp \<Rightarrow> ('k, 'c) rp \<Rightarrow> bool" where
  "rp_step en b w w' \<longleftrightarrow> (\<exists>ev. w' = rp_exec en b ev w) \<or> (\<exists>s'. rview s' = rview (rp_svc w) \<and> w' = w\<lparr>rp_svc := s'\<rparr>)"

definition rp_start :: "('k, 'c) Service \<Rightarrow> ('k, 'c) rp" where
  "rp_start s = \<lparr>rp_svc = s, rp_sent = [], rp_acked = [], rp_flight = None, rp_ops = []\<rparr>"

definition pending_copies :: "('k, 'c) rp \<Rightarrow> ReportPayload set" where
  "pending_copies w = (case s_pendingReport (rp_svc w) of None \<Rightarrow> {} | Some p \<Rightarrow> {cloneReportPayload p})"

definition rp_reqs :: "('k, 'c) rp \<Rightarrow> (string \<times> ReportPayload) set" where
  "rp_reqs w = (\<lambda>p. (pl_BatchID p, p)) ` (set (rp_sent w) \<union> pending_copies w)"

section \<open>One step\<close>

definition tview :: "Tracker \<Rightarrow> traffic \<times> traffic" where
  "tview t = (tr_lastSeen t, tr_pendingTraffic t)"

lemma beginReport_cases:
  obtains (retry) p where "s_pendingReport s = Some p" and "beginReport en b now st api ws s = (cloneReportPayload p, s)"
  | (fresh) p t where "s_pendingReport s = None" and "pl_BatchID p = b"
      and "pl_Traffic p = cloneTraffic (tr_pendingTraffic (s_tracker s))"
      and "tview t = (tr_lastSeen (s_tracker s), [])"
      and "beginReport en b now st api ws s = (cloneReportPayload p, s\<lparr>s_tracker := t, s_pendingReport := Some p\<rparr>)"
proof (cases "s_pendingReport s")
  case None
  obtain tr t1 where 1: "FlushTraffic (s_tracker s) = (tr, t1)" by fastforce
  obtain al t2 where 2: "FlushAliveIPs (e_sha en) t1 = (al, t2)" by fastforce
  define p where "p = \<lparr>pl_AppliedRevision = s_appliedRevision s, pl_BatchID = b, pl_OccurredAt = now,
     pl_Traffic = cloneTraffic tr, pl_Alive = cloneAliveIPs al, pl_Online = CurrentOnline t2,
     pl_CPU = st_CPU st, pl_Mem = st_Mem st, pl_Swap = st_Swap st, pl_Disk = st_Disk st,
     pl_Metrics = mput ''kernel_status'' (AnyBool (running en s)) (buildMetrics st api ws s)\<rparr>"
  have tr: "tr = tr_pendingTraffic (s_tracker s)" "tview t1 = (tr_lastSeen (s_tracker s), [])"
    using 1 by (auto simp: FlushTraffic_def tview_def)
  have "tview t2 = tview t1" using 2 by (auto simp: FlushAliveIPs_def tview_def Let_def split: if_splits)
  moreover have "beginReport en b now st api ws s = (cloneReportPayload p, s\<lparr>s_tracker := t2, s_pendingReport := Some p\<rparr>)"
    by (simp add: beginReport_def None 1 2 p_def Let_def)
  ultimately show thesis using fresh [OF None, of p t2] tr by (simp add: p_def)
next
  case (Some p)
  then show thesis using retry by (simp add: beginReport_def)
qed

lemma cloneTraffic_id: "wf_map m \<Longrightarrow> cloneTraffic m = m"
  by (simp add: cloneTraffic_def mbuild_distinct wf_map_def)

lemma cloneReportPayload_simps [simp]:
  "pl_BatchID (cloneReportPayload p) = pl_BatchID p" "pl_Traffic (cloneReportPayload p) = cloneTraffic (pl_Traffic p)"
  by (simp_all add: cloneReportPayload_def)

text \<open>A step sends nothing, sends the pending batch again, or sends a new one under the fresh identifier.\<close>

lemma pushReportAsync_cases:
  obtains (skipped) s' where "pushReportAsync en b now st api ws s = (None, s')" and "rview s' = rview s"
  | (begun) s0 p s' where "pushReportAsync en b now st api ws s = (Some p, s')" and "beginReport en b now st api ws s0 = (p, s')"
      and "s_tracker s0 = s_tracker s" and "s_pendingReport s0 = s_pendingReport s"
proof -
  obtain skip k where sk: "shouldSkip (s_pushBackoff s) = (skip, k)" by fastforce
  define s0 where "s0 = s\<lparr>s_pushBackoff := k, s_pushActive := True\<rparr>"
  obtain p s' where b: "beginReport en b now st api ws s0 = (p, s')" by fastforce
  have "pushReportAsync en b now st api ws s =
      (if \<not> e_SupportsReporting en \<or> s_pushActive s then (None, s) else if skip then (None, s\<lparr>s_pushBackoff := k\<rparr>) else (Some p, s'))"
    using sk b by (simp add: pushReportAsync_def s0_def split: bool.split)
  then show thesis
    using skipped begun [OF _ b] by (auto simp: s0_def rview_def split: if_splits)
qed

lemma pushReportSync_cases:
  obtains (skipped) "pushReportSync en b now st api ws ok s = (None, s)"
  | (begun) p s' where "pushReportSync en b now st api ws ok s = (Some p, if ok then completeReport (pl_BatchID p) s' else s')"
      and "beginReport en b now st api ws s = (p, s')"
proof (cases "e_SupportsReporting en")
  case True
  obtain p s' where "beginReport en b now st api ws s = (p, s')" by (rule prod.exhaust)
  then show thesis using True begun by (simp add: pushReportSync_def)
qed (use skipped in \<open>simp add: pushReportSync_def\<close>)

section \<open>The invariant\<close>

definition accounted :: "string set \<Rightarrow> ('k, 'c) rp \<Rightarrow> bool" where
  "accounted K w \<longleftrightarrow> (\<exists>cs t. tr_run Tracker_New (rp_ops w) = (map pl_Traffic cs, t) \<and> tview t = tview (s_tracker (rp_svc w)) \<and>
     set cs = set (rp_sent w) \<and> distinct (map pl_BatchID cs) \<and> pl_BatchID ` set cs \<subseteq> K)"

definition rp_inv :: "string set \<Rightarrow> ('k, 'c) rp \<Rightarrow> bool" where
  "rp_inv K w \<longleftrightarrow> accounted K w \<and> wf_map (tr_pendingTraffic (s_tracker (rp_svc w))) \<and>
     pending_copies w \<subseteq> set (rp_sent w) \<and> set_option (rp_flight w) \<subseteq> set (rp_sent w) \<and>
     set (rp_acked w) \<subseteq> set (rp_sent w) \<and> set (rp_sent w) \<subseteq> set (rp_acked w) \<union> pending_copies w"

lemma tr_run_append:
  assumes "tr_run t xs = (fs, t1)"
  shows "tr_run t (xs @ ys) = (fs @ fst (tr_run t1 ys), snd (tr_run t1 ys))"
  using assms by (induction t xs arbitrary: fs rule: tr_run.induct) (auto simp: Let_def split: prod.splits)

lemma tview_Process: "tview t = tview t' \<Longrightarrow> tview (Process t c a n) = tview (Process t' c a n)"
  by (simp add: tview_def Process_def split: prod.split)

lemma wf_process_fold:
  "wf_map pd \<Longrightarrow> wf_map (fst (snd (fold process_step cum (ls, pd, x, y))))"
proof (induction cum arbitrary: ls pd x y)
  case (Cons e cum)
  obtain uid c where e: "e = (uid, c)" by (rule prod.exhaust)
  obtain ls' pd' x' y' where st: "process_step e (ls, pd, x, y) = (ls', pd', x', y')" by (metis prod.exhaust)
  have "wf_map pd'" using st Cons.prems by (auto simp: e Let_def intro: wf_mput split: if_splits)
  then show ?case using Cons.IH st by simp
qed simp

lemma wf_Process: "wf_map (tr_pendingTraffic t) \<Longrightarrow> wf_map (tr_pendingTraffic (Process t c a n))"
  using wf_process_fold [of "tr_pendingTraffic t" c "tr_lastSeen t" 0 0] by (auto simp: Process_def split: prod.split)

lemma trackAndEnforce_rview:
  "s_pendingReport (trackAndEnforce en s) = s_pendingReport s"
  "s_tracker (trackAndEnforce en s) = (case tick_ops en s of [TProcess c a n] \<Rightarrow> Process (s_tracker s) c a n | _ \<Rightarrow> s_tracker s)"
  by (auto simp: trackAndEnforce_def tick_ops_def split: option.split)

lemma tick_ops_cases: "tick_ops en s = [] \<or> (\<exists>c a n. tick_ops en s = [TProcess c a n])"
  by (auto simp: tick_ops_def split: option.split)

lemma accounted_keep:
  assumes "accounted K w" and "tview (s_tracker (rp_svc w')) = tview (s_tracker (rp_svc w))"
    and "rp_ops w' = rp_ops w" and "set (rp_sent w') = set (rp_sent w)" and "K \<subseteq> K'"
  shows "accounted K' w'"
proof -
  obtain cs t where "tr_run Tracker_New (rp_ops w) = (map pl_Traffic cs, t)" "tview t = tview (s_tracker (rp_svc w))"
    "set cs = set (rp_sent w)" "distinct (map pl_BatchID cs)" "pl_BatchID ` set cs \<subseteq> K"
    using assms(1) by (auto simp: accounted_def)
  then show ?thesis unfolding accounted_def by (intro exI [of _ cs] exI [of _ t]) (use assms(2-) in auto)
qed

lemma accounted_track:
  assumes "accounted K w" and "w' = rp_exec en b RTrack w"
  shows "accounted K w'"
proof -
  obtain cs t where I: "tr_run Tracker_New (rp_ops w) = (map pl_Traffic cs, t)" "tview t = tview (s_tracker (rp_svc w))"
    "set cs = set (rp_sent w)" "distinct (map pl_BatchID cs)" "pl_BatchID ` set cs \<subseteq> K"
    using assms(1) by (auto simp: accounted_def)
  consider "tick_ops en (rp_svc w) = []" | c a n where "tick_ops en (rp_svc w) = [TProcess c a n]"
    using tick_ops_cases [of en "rp_svc w"] by blast
  then show ?thesis
  proof cases
    case 1
    then show ?thesis using accounted_keep [OF assms(1), of w' K] assms(2) by (simp add: trackAndEnforce_rview)
  next
    case 2
    show ?thesis
      unfolding accounted_def
      by (intro exI [of _ cs] exI [of _ "Process t c a n"])
        (use I 2 tr_run_append [OF I(1), of "[TProcess c a n]"] tview_Process [OF I(2)] assms(2) in \<open>simp add: trackAndEnforce_rview\<close>)
  qed
qed

text \<open>Flushing into a new batch.\<close>

lemma accounted_fresh:
  assumes "accounted K w" and "b \<notin> K" and "wf_map (tr_pendingTraffic (s_tracker (rp_svc w)))"
    and "pl_BatchID p = b" and "pl_Traffic p = cloneTraffic (tr_pendingTraffic (s_tracker (rp_svc w)))"
    and "tview (s_tracker (rp_svc w')) = (tr_lastSeen (s_tracker (rp_svc w)), [])"
    and "rp_ops w' = rp_ops w @ [TFlush]" and "rp_sent w' = rp_sent w @ [cloneReportPayload p]"
  shows "accounted (insert b K) w'"
proof -
  obtain cs t where I: "tr_run Tracker_New (rp_ops w) = (map pl_Traffic cs, t)" "tview t = tview (s_tracker (rp_svc w))"
    "set cs = set (rp_sent w)" "distinct (map pl_BatchID cs)" "pl_BatchID ` set cs \<subseteq> K"
    using assms(1) by (auto simp: accounted_def)
  have t: "tr_pendingTraffic t = tr_pendingTraffic (s_tracker (rp_svc w))" "tr_lastSeen t = tr_lastSeen (s_tracker (rp_svc w))"
    using I(2) by (simp_all add: tview_def)
  have "tr_run Tracker_New (rp_ops w @ [TFlush]) = (map pl_Traffic (cs @ [cloneReportPayload p]), t\<lparr>tr_pendingTraffic := []\<rparr>)"
    using tr_run_append [OF I(1), of "[TFlush]"] assms(3,5) by (simp add: FlushTraffic_def t cloneTraffic_id)
  then show ?thesis
    unfolding accounted_def
    by (intro exI [of _ "cs @ [cloneReportPayload p]"] exI [of _ "t\<lparr>tr_pendingTraffic := []\<rparr>"])
      (use I(3-5) t assms(2,4,6,7,8) in \<open>auto simp: tview_def\<close>)
qed

lemma begin_inv:
  assumes "rp_inv K w" and "b \<notin> K" and "beginReport en b now st api ws s0 = (p, s')"
    and "s_tracker s0 = s_tracker (rp_svc w)" and "s_pendingReport s0 = s_pendingReport (rp_svc w)"
    and "w' = w\<lparr>rp_svc := s', rp_sent := rp_sent w @ [p], rp_ops := rp_ops w @ flush_ops (rp_svc w) (Some p)\<rparr>"
  shows "rp_inv (insert b K) w'"
proof (cases rule: beginReport_cases [of s0 en b now st api ws])
  case (retry q)
  then have q: "p = cloneReportPayload q" "s' = s0" "s_pendingReport (rp_svc w) = Some q" using assms(3,5) by auto
  have sent: "p \<in> set (rp_sent w)" "pending_copies w' = pending_copies w"
    using assms(1,5) q by (auto simp: rp_inv_def pending_copies_def assms(6))
  have "accounted (insert b K) w'"
    by (rule accounted_keep [of K w])
      (use assms(1,4) q sent in \<open>auto simp: rp_inv_def assms(6) flush_ops_def\<close>)
  then show ?thesis using assms(1,4) q sent by (auto simp: rp_inv_def assms(6))
next
  case (fresh q t)
  then have q: "p = cloneReportPayload q" "s' = s0\<lparr>s_tracker := t, s_pendingReport := Some q\<rparr>"
    "s_pendingReport (rp_svc w) = None" "pl_Traffic q = cloneTraffic (tr_pendingTraffic (s_tracker (rp_svc w)))"
    using assms(3-5) by auto
  have c: "pending_copies w' = {p}" "pending_copies w = {}" using q by (simp_all add: pending_copies_def assms(6))
  have "accounted (insert b K) w'"
    by (rule accounted_fresh [OF _ assms(2) _ fresh(2) q(4)])
      (use assms(1,4) q fresh(4) in \<open>auto simp: rp_inv_def assms(6) flush_ops_def\<close>)
  moreover have "wf_map (tr_pendingTraffic t)" using fresh(4) by (simp add: tview_def wf_map_def)
  ultimately show ?thesis using assms(1) c q(2) by (auto simp: rp_inv_def assms(6))
qed

lemma completeReport_frame [simp]:
  "s_tracker (completeReport b s) = s_tracker s"
  by (simp add: completeReport_def split: option.split)

lemma completeReport_pending:
  "s_pendingReport (completeReport b s) = None \<or> s_pendingReport (completeReport b s) = s_pendingReport s"
  by (simp add: completeReport_def split: option.split)

lemma same_batch:
  assumes "accounted K w" and "p \<in> set (rp_sent w)" and "q \<in> set (rp_sent w)" and "pl_BatchID p = pl_BatchID q"
  shows "p = q"
  using assms by (auto simp: accounted_def distinct_map inj_on_def)

lemma complete_inv:
  assumes "rp_inv K w" and "p \<in> set (rp_sent w)"
    and "w' = w\<lparr>rp_svc := completeReport (pl_BatchID p) (rp_svc w), rp_acked := rp_acked w @ [p]\<rparr>"
  shows "rp_inv K w'"
proof -
  have a: "accounted K w" using assms(1) by (simp add: rp_inv_def)
  have "accounted K w'" by (rule accounted_keep [OF a]) (simp_all add: assms(3))
  moreover have "cloneReportPayload q = p" if "s_pendingReport (rp_svc w) = Some q" "pl_BatchID q = pl_BatchID p" for q
    using same_batch [OF a assms(2), of "cloneReportPayload q"] that assms(1) by (simp add: rp_inv_def pending_copies_def)
  then have "pending_copies w' \<subseteq> pending_copies w" "pending_copies w \<subseteq> insert p (pending_copies w')"
    by (auto simp: assms(3) pending_copies_def completeReport_def split: option.splits if_splits)
  ultimately show ?thesis using assms(1,2) by (auto simp: rp_inv_def assms(3))
qed

lemma rp_inv_keep:
  assumes "rp_inv K w" and "K \<subseteq> K'" and "tview (s_tracker (rp_svc w')) = tview (s_tracker (rp_svc w))"
    and "s_pendingReport (rp_svc w') = s_pendingReport (rp_svc w)" and "rp_ops w' = rp_ops w" and "rp_sent w' = rp_sent w"
    and "rp_acked w' = rp_acked w" and "set_option (rp_flight w') \<subseteq> set (rp_sent w)"
  shows "rp_inv K' w'"
proof -
  have "accounted K' w'"
    by (rule accounted_keep [of K w]) (use assms in \<open>simp_all add: rp_inv_def\<close>)
  moreover have "pending_copies w' = pending_copies w" using assms(4) by (simp add: pending_copies_def)
  moreover have "tr_pendingTraffic (s_tracker (rp_svc w')) = tr_pendingTraffic (s_tracker (rp_svc w))"
    using assms(3) by (simp add: tview_def)
  ultimately show ?thesis using assms by (simp add: rp_inv_def)
qed

lemma rp_inv_mono: "rp_inv K w \<Longrightarrow> K \<subseteq> K' \<Longrightarrow> rp_inv K' w"
  by (rule rp_inv_keep [of K w K' w]) (auto simp: rp_inv_def)

lemma rp_exec_inv:
  assumes "rp_inv K w" and "b \<notin> K"
  shows "rp_inv (insert b K) (rp_exec en b ev w)"
proof (cases ev)
  case RTrack
  let ?w' = "rp_exec en b RTrack w"
  have "accounted K ?w'" using accounted_track [OF _ refl] assms(1) by (auto simp: rp_inv_def)
  then have "accounted (insert b K) ?w'" by (rule accounted_keep) auto
  moreover have "pending_copies ?w' = pending_copies w" by (simp add: pending_copies_def trackAndEnforce_rview)
  moreover have "wf_map (tr_pendingTraffic (s_tracker (rp_svc ?w')))"
    using assms(1) tick_ops_cases [of en "rp_svc w"] by (auto simp: rp_inv_def trackAndEnforce_rview wf_Process)
  ultimately show ?thesis using assms(1) by (simp add: rp_inv_def RTrack)
next
  case (RReport now st api ws)
  show ?thesis
  proof (cases rule: pushReportAsync_cases [of en b now st api ws "rp_svc w"])
    case (skipped s')
    then show ?thesis
      by (intro rp_inv_keep [OF assms(1)])
        (use assms(1) in \<open>auto simp: RReport rview_def rp_inv_def sent_log_def flush_ops_def\<close>)
  next
    case (begun s0 p s')
    note B = begin_inv [OF assms begun(2-4) refl]
    show ?thesis
      by (rule rp_inv_keep [OF B]) (auto simp: RReport begun(1) sent_log_def)
  qed
next
  case (RDone ok)
  show ?thesis
  proof (cases "rp_flight w")
    case None
    then show ?thesis using rp_inv_mono [OF assms(1)] by (auto simp: RDone)
  next
    case (Some p)
    have p: "p \<in> set (rp_sent w)" using assms(1) Some by (simp add: rp_inv_def)
    note C = complete_inv [OF assms(1) p refl]
    show ?thesis
    proof (cases ok)
      case True
      show ?thesis by (rule rp_inv_keep [OF C]) (auto simp: RDone Some True push_finished_def)
    next
      case False
      show ?thesis by (rule rp_inv_keep [OF assms(1)]) (auto simp: RDone Some False push_finished_def)
    qed
  qed
next
  case (RSync now st api ws ok)
  show ?thesis
  proof (cases rule: pushReportSync_cases [of en b now st api ws ok "rp_svc w"])
    case skipped
    then show ?thesis
      by (intro rp_inv_keep [OF assms(1)])
        (use assms(1) in \<open>auto simp: RSync rp_inv_def sent_log_def flush_ops_def\<close>)
  next
    case (begun p s')
    note B = begin_inv [OF assms begun(2) refl refl refl]
    note C = complete_inv [OF B, of p, OF _ refl]
    show ?thesis
    proof (cases ok)
      case True
      then have "pushReportSync en b now st api ws True (rp_svc w) = (Some p, completeReport (pl_BatchID p) s')"
        using begun(1) by simp
      then show ?thesis
        using B True by (intro rp_inv_keep [OF C]) (auto simp: RSync sent_log_def rp_inv_def)
    next
      case False
      then have "pushReportSync en b now st api ws False (rp_svc w) = (Some p, s')" using begun(1) by simp
      then show ?thesis using B False by (simp add: RSync sent_log_def)
    qed
  qed
next
  case RDevices
  have "tview t' = tview t" if "FlushAliveIPs sha t = (d, t')" for sha t d t'
    using that by (auto simp: FlushAliveIPs_def tview_def Let_def split: if_splits)
  then show ?thesis
    by (intro rp_inv_keep [OF assms(1)])
      (use assms(1) in \<open>auto simp: RDevices sendDeviceBatch_def rp_inv_def split: prod.split\<close>)
qed

lemma rp_step_inv:
  assumes "rp_inv K w" and "b \<notin> K" and "rp_step en b w w'"
  shows "rp_inv (insert b K) w'"
proof -
  have "rp_inv (insert b K) (w\<lparr>rp_svc := s'\<rparr>)" if "rview s' = rview (rp_svc w)" for s'
    by (rule rp_inv_keep [OF assms(1)]) (use that assms(1) in \<open>auto simp: rview_def rp_inv_def\<close>)
  then show ?thesis using assms rp_exec_inv [OF assms(1,2)] by (auto simp: rp_step_def)
qed

lemma rp_start_inv:
  assumes "s_tracker s = Tracker_New" and "s_pendingReport s = None"
  shows "rp_inv {} (rp_start s)"
  using assms by (simp add: rp_inv_def accounted_def rp_start_def pending_copies_def Tracker_New_def wf_map_def)

lemma rp_run_inv:
  assumes "ob_run (rp_step en) rp_reqs (rp_start s) w K" and "s_tracker s = Tracker_New" and "s_pendingReport s = None"
  shows "rp_inv K w"
  using assms(1)
proof induction
  case ob_start
  have "rp_reqs (rp_start s) = {}" using assms(3) by (simp add: rp_reqs_def rp_start_def pending_copies_def)
  then show ?case using rp_start_inv [OF assms(2,3)] by simp
next
  case (ob_next w K b w')
  then show ?case using rp_step_inv by blast
qed

section \<open>The contract of retried requests\<close>

interpretation repbox: outbox "rp_step en" rp_reqs for en
proof
  fix b w w'
  assume "rp_step en b w w'"
  then consider (exec) ev where "w' = rp_exec en b ev w" | (other) s' where "rview s' = rview (rp_svc w)" "w' = w\<lparr>rp_svc := s'\<rparr>"
    by (auto simp: rp_step_def)
  then show "\<exists>v. rp_reqs w' \<subseteq> insert (b, v) (rp_reqs w)"
  proof cases
    case other
    then have "rp_reqs w' = rp_reqs w" by (simp add: rp_reqs_def pending_copies_def rview_def)
    then show ?thesis by blast
  next
    case exec
    have begun_grows: "\<exists>v. rp_reqs w1 \<subseteq> insert (b, v) (rp_reqs w)"
      if "beginReport en b now st api ws s0 = (p, s')" "s_pendingReport s0 = s_pendingReport (rp_svc w)"
        "rp_sent w1 = rp_sent w @ [p]" "pending_copies w1 \<subseteq> pending_copies (w\<lparr>rp_svc := s'\<rparr>)" for now st api ws s0 p s' w1
      using that(1)
    proof (cases rule: beginReport_cases [of s0 en b now st api ws])
      case (retry q)
      then have "set (rp_sent w1) \<union> pending_copies w1 \<subseteq> set (rp_sent w) \<union> pending_copies w"
        using that by (auto simp: pending_copies_def)
      then have "rp_reqs w1 \<subseteq> rp_reqs w" unfolding rp_reqs_def by (rule image_mono)
      then show ?thesis by blast
    next
      case (fresh q t)
      then have "set (rp_sent w1) \<union> pending_copies w1 \<subseteq> insert (cloneReportPayload q) (set (rp_sent w) \<union> pending_copies w)"
        and "pl_BatchID (cloneReportPayload q) = b"
        using that by (auto simp: pending_copies_def)
      then show ?thesis unfolding rp_reqs_def by (intro exI [of _ "cloneReportPayload q"]) force
    qed
    show ?thesis
    proof (cases ev)
      case (RReport now st api ws)
      show ?thesis
      proof (cases rule: pushReportAsync_cases [of en b now st api ws "rp_svc w"])
        case (skipped s')
        then show ?thesis using exec RReport by (auto simp: rp_reqs_def pending_copies_def rview_def sent_log_def)
      next
        case (begun s0 p s')
        then show ?thesis using exec RReport
          by (intro begun_grows [OF begun(2,4)]) (simp_all add: sent_log_def pending_copies_def)
      qed
    next
      case (RSync now st api ws ok)
      show ?thesis
      proof (cases rule: pushReportSync_cases [of en b now st api ws ok "rp_svc w"])
        case skipped
        then show ?thesis using exec RSync by (auto simp: rp_reqs_def pending_copies_def sent_log_def)
      next
        case (begun p s')
        then show ?thesis using exec RSync completeReport_pending [of "pl_BatchID p" s']
          by (intro begun_grows [OF begun(2) refl]) (auto simp: sent_log_def pending_copies_def)
      qed
    next
      case (RDone ok)
      have "pending_copies w' \<subseteq> pending_copies w \<and> rp_sent w' = rp_sent w"
      proof (cases "rp_flight w")
        case (Some p)
        then show ?thesis using exec RDone completeReport_pending [of "pl_BatchID p" "rp_svc w"]
          by (auto simp: pending_copies_def push_finished_def)
      qed (use exec RDone in simp)
      then have "rp_reqs w' \<subseteq> rp_reqs w" unfolding rp_reqs_def by (intro image_mono) auto
      then show ?thesis by blast
    qed (use exec in \<open>auto simp: rp_reqs_def pending_copies_def trackAndEnforce_rview sendDeviceBatch_def split: prod.split\<close>)
  qed
qed

section \<open>Properties\<close>

text \<open>
  C1. No traffic is lost or counted twice by the reports, whatever responses are lost. Over any run of
  ticks, reports, retries, device flushes and the final report, with fresh batch identifiers, and
  however the readings of a user divide into runs of the kernel: the traffic of the user in the batches
  sent, each counted once, plus what the tracker still holds, is what the kernel counted, the last
  reading of every run, less the runs that ended in a hidden restart (one whose next reading is at
  least the last one: \<open>hidden\<close>, the loss shown by \<open>hidden_restart_loses\<close>). Two batches with the same
  identifier are equal, so a platform that keeps one batch per identifier books exactly this. And at
  most one batch is unconfirmed: the pending one.
\<close>

theorem reports_exactly_once:
  assumes "ob_run (rp_step en) rp_reqs (rp_start s) w K" and "s_tracker s = Tracker_New" and "s_pendingReport s = None"
    and "is_side side" and "\<forall>x \<in> set (rp_ops w). op_ok x"
    and "kernel_runs runs (seen side u (rp_ops w))" and "counted runs + restored side u (rp_ops w) < 2 ^ 63"
  shows "(\<Sum>p \<in> set (rp_sent w). side (upof (pl_Traffic p) u)) + side (upof (tr_pendingTraffic (s_tracker (rp_svc w))) u) =
      counted runs - hidden runs + restored side u (rp_ops w) \<and>
    (\<forall>p \<in> set (rp_sent w). \<forall>q \<in> set (rp_sent w). pl_BatchID p = pl_BatchID q \<longrightarrow> p = q) \<and>
    set (rp_sent w) - set (rp_acked w) \<subseteq> pending_copies w"
proof -
  have inv: "rp_inv K w" by (rule rp_run_inv [OF assms(1-3)])
  then obtain cs t where I: "tr_run Tracker_New (rp_ops w) = (map pl_Traffic cs, t)" "tview t = tview (s_tracker (rp_svc w))"
    "set cs = set (rp_sent w)" "distinct (map pl_BatchID cs)"
    by (auto simp: rp_inv_def accounted_def)
  have "flushed_total side u (map pl_Traffic cs) = (\<Sum>p \<in> set cs. side (upof (pl_Traffic p) u))"
    using I(4) by (simp add: flushed_total_def comp_def sum_list_distinct_conv_sum_set distinct_map)
  moreover have "\<forall>p \<in> set (rp_sent w). \<forall>q \<in> set (rp_sent w). pl_BatchID p = pl_BatchID q \<longrightarrow> p = q"
    using repbox.key_determines_content [OF assms(1)] assms(3)
    by (fastforce simp: rp_reqs_def rp_start_def pending_copies_def)
  ultimately show ?thesis
    using tr_run_New_conserves [OF assms(4-7) I(1)] I(2,3) inv by (auto simp: rp_inv_def tview_def)
qed

definition demo_status :: Status where
  "demo_status = \<lparr>st_CPU = AnyInt 1, st_Mem = (AnyInt 1, AnyInt 1), st_Swap = (AnyInt 0, AnyInt 0), st_Disk = (AnyInt 1, AnyInt 1),
     st_Uptime = AnyInt 1, st_Goroutines = AnyInt 1, st_CPUPerCore = [], st_Load = (AnyInt 0, AnyInt 0, AnyInt 0),
     st_NumGC = AnyInt 0, st_LastPauseMS = AnyInt 0\<rparr>"

text \<open>A batch whose response is lost, a skipped tick, then the same batch again.\<close>

definition demo_reporting :: "(bool, unit) rp" where
  "demo_reporting =
     rp_exec demo_env ''b5'' (RReport ''t2'' demo_status (AnyInt 0, AnyInt 0) (False, False))
     (rp_exec demo_env ''b4'' (RReport ''t1'' demo_status (AnyInt 0, AnyInt 0) (False, False))
     (rp_exec demo_env ''b3'' (RDone False)
     (rp_exec demo_env ''b2'' (RReport ''t0'' demo_status (AnyInt 0, AnyInt 0) (False, False))
     (rp_exec demo_env ''b1'' RTrack (rp_start (demo_service\<lparr>s_kernel := True\<rparr>))))))"

lemma demo_reporting_run:
  "ob_run (rp_step demo_env) rp_reqs (rp_start (demo_service\<lparr>s_kernel := True\<rparr>)) demo_reporting
     {''b5'', ''b4'', ''b3'', ''b2'', ''b1''}"
proof -
  have "rp_reqs (rp_start (demo_service\<lparr>s_kernel := True\<rparr>)) = {}"
    by (simp add: rp_reqs_def rp_start_def pending_copies_def demo_service_def newService_def)
  then have 0: "ob_run (rp_step demo_env) rp_reqs (rp_start (demo_service\<lparr>s_kernel := True\<rparr>))
      (rp_start (demo_service\<lparr>s_kernel := True\<rparr>)) {}"
    using ob_start [of "rp_step demo_env" rp_reqs "rp_start (demo_service\<lparr>s_kernel := True\<rparr>)"] by simp
  have step: "rp_step demo_env b w (rp_exec demo_env b ev w)" for b ev w by (auto simp: rp_step_def)
  note more = ob_next [of "rp_step demo_env" rp_reqs, OF _ _ step]
  show ?thesis unfolding demo_reporting_def by (intro more 0) simp_all
qed

lemma demo_reporting_values:
  "rp_ops demo_reporting = [TProcess [(1, 10, 20)] [] 1, TFlush]" "length (rp_sent demo_reporting) = 2"
  "tr_pendingTraffic (s_tracker (rp_svc demo_reporting)) = []"
  by code_simp+

theorem reports_exactly_once_witness:
  "length (rp_sent demo_reporting) = 2 \<and> (\<Sum>p \<in> set (rp_sent demo_reporting). fst (upof (pl_Traffic p) 1)) = 10"
  using reports_exactly_once [OF demo_reporting_run, where side = fst and u = 1 and runs = "[[10]]"]
  by (simp add: demo_reporting_values is_side_def kernel_runs_def counted_def nonneg_cum_def wf_map_def in_pair_def in_i64_def mget_or_def
      demo_service_def newService_def)

end
