(* ===== verification/ServiceUsers.thy ===== *)
theory ServiceUsers
  imports ServiceRun
begin

text \<open>
  The user list of the service: pushed deltas, the hash that decides whether a list is new, and the
  backoff after failed requests.
\<close>

section \<open>Deltas\<close>

lemma map_of_mbuild_users: "map_of (mbuild ID (\<lambda>u. u) (us @ d)) k = fold (\<lambda>u m. m(ID u \<mapsto> u)) d (map_of (mbuild ID (\<lambda>u. u) us)) k"
proof (induction d rule: rev_induct)
  case (snoc u d)
  have "mbuild ID (\<lambda>u. u) (us @ d @ [u]) = mput (ID u) u (mbuild ID (\<lambda>u. u) (us @ d))"
    using mbuild_snoc [of ID "\<lambda>u. u" "us @ d" u] by simp
  then show ?case using snoc by (simp add: map_of_mput)
qed simp

lemma user_map_mbuild:
  "distinct (map ID us) \<Longrightarrow> map_of (mbuild ID (\<lambda>u. u) us) = user_map us"
  by (simp add: mbuild_distinct user_map_def)

lemma mbuild_users_keys: "(k, u) \<in> set (mbuild ID (\<lambda>u. u) us) \<Longrightarrow> ID u = k"
proof -
  assume "(k, u) \<in> set (mbuild ID (\<lambda>u. u) us)"
  moreover have "distinct (map fst (mbuild ID (\<lambda>u. u) us))" using wf_mbuild unfolding wf_map_def .
  ultimately have "map_of (mbuild ID (\<lambda>u. u) us) k = Some u" by simp
  then have "(k, u) \<in> set (rev (map (\<lambda>u. (ID u, u)) us))" unfolding map_of_mbuild by (rule map_of_SomeD)
  then show ?thesis by auto
qed

lemma sort_key_distinct_unique:
  fixes f :: "'a \<Rightarrow> 'b :: linorder"
  assumes "distinct (map f xs)" and "distinct (map f ys)" and "set xs = set ys"
  shows "sort_key f xs = sort_key f ys"
proof (rule properties_for_sort_key)
  show m: "mset (sort_key f ys) = mset xs"
    using assms by (simp add: set_eq_iff_mset_eq_distinct distinct_map)
  show "sorted (map f (sort_key f ys))" by simp
  fix k
  assume "k \<in> set (sort_key f ys)"
  have one: "filter (\<lambda>x. f k = f x) zs = [k]" if "distinct (map f zs)" "k \<in> set zs" for zs
    using that by (induction zs) (auto simp: filter_empty_conv rev_image_eqI)
  show "filter (\<lambda>x. f k = f x) (sort_key f ys) = filter (\<lambda>x. f k = f x) xs"
    using one [of xs] one [of "sort_key f ys"] assms \<open>k \<in> set (sort_key f ys)\<close> by (simp add: distinct_map)
qed

lemma mbuild_users_IDs: "map ID (map snd (mbuild ID (\<lambda>u. u) us)) = map fst (mbuild ID (\<lambda>u. u) us)"
  using mbuild_users_keys [of _ _ us] by (auto simp: comp_def)

lemma mergeUsers_merges:
  assumes "distinct (map ID us)" and "range_order rng" and "mergeUsers rng (Some us) (Some d) = Some m"
  shows "distinct (map ID m)" and "user_map m = fold (\<lambda>u f. f(ID u \<mapsto> u)) d (user_map us)"
proof -
  let ?b = "mbuild ID (\<lambda>u. u) (us @ d)"
  have m: "m = map snd (rng ?b)" using assms(3) by (simp add: mergeUsers_def)
  have p: "mset (rng ?b) = mset ?b" using assms(2) wf_mbuild by (simp add: range_order_def)
  have dk: "distinct (map fst ?b)" using wf_mbuild unfolding wf_map_def .
  have "mset (map ID m) = mset (map fst ?b)"
    using p mbuild_users_IDs [of "us @ d"] by (metis m map_map mset_map)
  then show dm: "distinct (map ID m)" using dk by (metis mset_eq_imp_distinct_iff)
  have "set m = snd ` set ?b" using p by (metis m set_map set_mset_mset)
  then have "user_map m k = Some u \<longleftrightarrow> map_of ?b k = Some u" for k u
    using dk mbuild_users_keys [of _ _ "us @ d"] by (force simp: user_map_iff [OF dm])
  then have "user_map m k = map_of ?b k" for k by (metis option.exhaust)
  then show "user_map m = fold (\<lambda>u f. f(ID u \<mapsto> u)) d (user_map us)"
    by (simp add: fun_eq_iff map_of_mbuild_users user_map_mbuild [OF assms(1)])
qed

lemma user_map_set: "distinct (map ID us) \<Longrightarrow> set us = ran (user_map us)"
  by (auto simp: ran_def user_map_iff)

text \<open>
  The two implementations of a user delta agree. Starting from the same list with distinct IDs,
  the mailbox and the service end with the same users, whatever order Go's map iteration gives the
  service; so the hashes used for change detection agree as well, and a list that arrives through the
  mailbox after the same deltas is recognised as unchanged.
\<close>

lemma deltas_agree:
  assumes "distinct (map ID us)" and "range_order rng"
  shows "computeUserHash sha (snd (applyUserDelta (Some us) ''add'' d)) = computeUserHash sha (mergeUsers rng (Some us) (Some d)) \<and>
    set (elems (snd (applyUserDelta (Some us) ''add'' d))) = set (elems (mergeUsers rng (Some us) (Some d))) \<and>
    elems (snd (applyUserDelta (Some us) ''remove'' d)) = elems (subtractUsers (Some us) (Some d))"
proof -
  obtain index' us' where f: "fold add_user d (user_index us, us) = (index', us')" by fastforce
  note F = fold_add_user [OF idx_ok_index [OF assms(1)] f]
  obtain m where m: "mergeUsers rng (Some us) (Some d) = Some m" by (simp add: mergeUsers_def)
  note M = mergeUsers_merges [OF assms m]
  have e: "elems (snd (applyUserDelta (Some us) ''add'' d)) = us'"
    using F by (auto simp: applyUserDelta_def Let_def f split: list.split)
  have s: "set us' = set m" using F M user_map_set by metis
  then have "sort_key ID us' = sort_key ID m" using F M(1) by (intro sort_key_distinct_unique) auto
  then show ?thesis using e s m
    by (auto simp: computeUserHash_def applyUserDelta_def Let_def subtractUsers_def append_nil_def)
qed

theorem deltas_agree_witness:
  "computeUserHash (\<lambda>x. x) (snd (applyUserDelta (Some [demo_user 1 ''a'' 0 0]) ''add'' [demo_user 2 ''b'' 0 0])) =
   computeUserHash (\<lambda>x. x) (mergeUsers rev (Some [demo_user 1 ''a'' 0 0]) (Some [demo_user 2 ''b'' 0 0]))"
  using deltas_agree [OF _ range_order_rev, of "[demo_user 1 ''a'' 0 0]" "\<lambda>x. x" "[demo_user 2 ''b'' 0 0]"] by simp

section \<open>Removals that are lost\<close>

definition delta_event :: "string \<Rightarrow> UserSpec list \<Rightarrow> Event" where
  "delta_event action d = (no_event EventSyncUserDelta)\<lparr>ev_DeltaAction := action, ev_DeltaUsers := Some d\<rparr>"

text \<open>
  When a delta removes all remaining users of a node through the mailbox, the service ignores it:
  the mailbox hands on a nil list, which the service takes for an event without users. Nothing but the
  mailbox changes: the users, their limits and the kernel stay, and no poll is scheduled.
\<close>

lemma last_users_not_removed:
  assumes "nm_ready box" and "nm_hasFullUserState box" and "\<not> nm_dirtyConfig box" and "\<not> nm_dirtyDevices box"
    and "\<not> nm_needsReconcile box" and "d \<noteq> []" and "ID ` set (elems (nm_users box)) \<subseteq> ID ` set d"
    and "s_machineMailbox s = Some (Apply box (delta_event ''remove'' d))"
  shows "drainMachineMailbox en s = s\<lparr>s_machineMailbox := Some (snd (DrainIfReady (Apply box (delta_event ''remove'' d))))\<rparr>"
proof -
  have "filter (\<lambda>u. ID u \<notin> ID ` set d) (elems (nm_users box)) = []" using assms(7) by (auto simp: filter_empty_conv)
  then have "applyUserDelta (nm_users box) ''remove'' d = (True, None)"
    by (simp add: applyUserDelta_def Let_def append_nil_def)
  then have "Apply box (delta_event ''remove'' d) = box\<lparr>nm_users := None, nm_dirtyUsers := True, nm_notifyCh := True\<rparr>"
    using assms(2,6) by (simp add: Apply_def Apply_locked_def delta_event_def no_event_def notify_def)
  then show ?thesis
    using assms(1,3-5,8)
    by (simp add: drainMachineMailbox_def DrainIfReady_def Let_def MailboxState_zero_def handleWSEvent_def no_event_def)
qed

definition demo_box :: NodeMailbox where
  "demo_box = NewNodeMailbox\<lparr>nm_ready := True, nm_users := Some [demo_user 1 ''a'' 8 2], nm_hasFullUserState := True\<rparr>"

theorem last_users_not_removed_witness:
  "s_lastUsers (drainMachineMailbox demo_env ((fst demo_run)\<lparr>s_machineMailbox :=
     Some (Apply demo_box (delta_event ''remove'' [demo_user 1 ''a'' 8 2]))\<rparr>)) = Some [demo_user 2 ''b'' 16 3]"
  using last_users_not_removed [of demo_box "[demo_user 1 ''a'' 8 2]"
      "(fst demo_run)\<lparr>s_machineMailbox := Some (Apply demo_box (delta_event ''remove'' [demo_user 1 ''a'' 8 2]))\<rparr>" demo_env]
  by (simp add: demo_box_def NewNodeMailbox_def demo_run_users)

text \<open>
  A removal that arrives while the kernel is stopped is forgotten: every later event finds the
  service as if it had not been sent, so a configuration that starts the kernel starts it with the
  removed users. (An addition is kept in the same situation.)
\<close>

lemma removal_forgotten_while_stopped:
  assumes "\<not> running en s"
  shows "handleWSEvent en e (handleWSEvent en (delta_event ''remove'' d) s) = handleWSEvent en e s"
proof -
  have "handleWSEvent en (delta_event ''remove'' d) s = s"
    using assms by (simp add: handleWSEvent_def delta_event_def no_event_def service_applyUserDelta_def)
  then show ?thesis by simp
qed

definition demo_stopped :: "(bool, unit) Service" where
  "demo_stopped = demo_service\<lparr>s_lastUsers := Some [demo_user 1 ''a'' 8 2]\<rparr>"

lemma demo_stopped_starts:
  "s_appliedUsers (handleWSEvent demo_env ((no_event EventSyncConfig)\<lparr>ev_Config := Some demo_spec\<rparr>) demo_stopped) = Some [demo_user 1 ''a'' 8 2]"
  "\<not> running demo_env demo_stopped"
  by code_simp+

theorem removal_forgotten_while_stopped_witness:
  "s_appliedUsers (handleWSEvent demo_env ((no_event EventSyncConfig)\<lparr>ev_Config := Some demo_spec\<rparr>)
     (handleWSEvent demo_env (delta_event ''remove'' [demo_user 1 ''a'' 8 2]) demo_stopped)) = Some [demo_user 1 ''a'' 8 2]"
  using removal_forgotten_while_stopped [OF demo_stopped_starts(2)] demo_stopped_starts(1) by simp

section \<open>Route scopes\<close>

definition same_but_scope :: "UserSpec list \<Rightarrow> UserSpec list \<Rightarrow> bool" where
  "same_but_scope us vs \<longleftrightarrow> map (\<lambda>u. u\<lparr>RouteScope := []\<rparr>) us = map (\<lambda>u. u\<lparr>RouteScope := []\<rparr>) vs"

lemma sort_key_map: "sort_key f (map g xs) = map g (sort_key (\<lambda>x. f (g x)) xs)"
proof (induction xs)
  case (Cons x xs)
  have "insort_key f (g x) (map g ys) = map g (insort_key (\<lambda>x. f (g x)) x ys)" for ys by (induction ys) simp_all
  then show ?case using Cons by simp
qed simp

lemma computeUserHash_scope: "same_but_scope us vs \<Longrightarrow> computeUserHash sha (Some us) = computeUserHash sha (Some vs)"
proof -
  have "map user_bytes (sort_key ID us) = map user_bytes (sort_key ID (map (\<lambda>u. u\<lparr>RouteScope := []\<rparr>) us))" for us
    by (simp add: sort_key_map user_bytes_def)
  then show "same_but_scope us vs \<Longrightarrow> computeUserHash sha (Some us) = computeUserHash sha (Some vs)"
    unfolding same_but_scope_def computeUserHash_def by simp metis
qed

text \<open>
  A change of route scopes is acknowledged but not applied. The user hash leaves the route scope
  out, so a polled result in which only route scopes changed leaves the users and the kernel as they
  are, and yet its revision is recorded as applied.
\<close>

lemma route_scope_change_skipped:
  assumes "s_lastUserHash s = computeUserHash (e_sha en) (Some us)" and "same_but_scope us vs"
    and "pr_config r = None" and "\<not> pr_certChanged r" and "pr_users r = Some vs" and "0 < pr_revision r"
    and "pr_userHash r = computeUserHash (e_sha en) (Some vs)" and "running en s"
  shows "s_lastUsers (applyPullResult en r s) = s_lastUsers s \<and> s_kernel (applyPullResult en r s) = s_kernel s \<and>
    s_appliedRevision (applyPullResult en r s) = pr_revision r"
  using assms computeUserHash_scope [OF assms(2), of "e_sha en"]
  by (simp add: applyPullResult_def Let_def apply_config_def apply_users_def confirmApplication_def running_def
      reportApplication_def)

definition demo_scoped :: "string \<Rightarrow> UserSpec" where
  "demo_scoped scope = (demo_user 2 ''b'' 16 3)\<lparr>RouteScope := scope\<rparr>"

definition demo_scope_pull :: pullResult where
  "demo_scope_pull = \<lparr>pr_revision = 9, pr_config = None, pr_users = Some [demo_scoped ''vip''], pr_configHash = [],
     pr_userHash = computeUserHash (\<lambda>x. x) (Some [demo_scoped ''vip'']), pr_certChanged = False\<rparr>"

theorem route_scope_change_skipped_witness:
  "s_lastUsers (applyPullResult demo_env demo_scope_pull (fst demo_run)) = Some [demo_user 2 ''b'' 16 3] \<and>
   s_appliedRevision (applyPullResult demo_env demo_scope_pull (fst demo_run)) = 9"
proof -
  have "s_lastUserHash (fst demo_run) = computeUserHash (e_sha demo_env) (Some [demo_user 2 ''b'' 16 3])" "running demo_env (fst demo_run)"
    by code_simp+
  moreover have "same_but_scope [demo_user 2 ''b'' 16 3] [demo_scoped ''vip'']" by (simp add: same_but_scope_def demo_scoped_def)
  moreover have "e_sha demo_env = (\<lambda>x. x)" by (simp add: demo_env_def)
  ultimately show ?thesis
    using route_scope_change_skipped [of "fst demo_run" demo_env "[demo_user 2 ''b'' 16 3]" "[demo_scoped ''vip'']" demo_scope_pull]
    by (simp add: demo_scope_pull_def demo_run_users)
qed

section \<open>Backoff\<close>

text \<open>How the counter is used: a request is only made when \<open>shouldSkip\<close> says no, and one at a time.\<close>

inductive backoff_reach :: "int \<Rightarrow> bool \<Rightarrow> bool" where
  bo_start: "backoff_reach 0 False"
| bo_attempt: "backoff_reach b False \<Longrightarrow> shouldSkip b = (skip, b') \<Longrightarrow> backoff_reach b' (\<not> skip)"
| bo_success: "backoff_reach b True \<Longrightarrow> backoff_reach (onSuccess b) False"
| bo_failure: "backoff_reach b True \<Longrightarrow> backoff_reach (onFailure b) False"

text \<open>
  The backoff never grows: in the way it is used, at most one attempt is skipped after any number
  of consecutive failures. The doubling branch of \<open>onFailure\<close> is never reached, since a request is
  only made once the counter is 0.
\<close>

lemma backoff_constant:
  assumes "backoff_reach b active"
  shows "0 \<le> b \<and> b \<le> 1 \<and> (active \<longrightarrow> onFailure b = 1)"
proof -
  have "0 \<le> b \<and> b \<le> 1 \<and> (active \<longrightarrow> b = 0)"
    using assms by induction (auto simp: shouldSkip_def onSuccess_def onFailure_def split: if_splits)
  then show ?thesis by (simp add: onFailure_def)
qed

theorem backoff_constant_witness: "\<exists>b. backoff_reach b False \<and> b = 1 \<and> b \<le> 1"
proof -
  have "backoff_reach 0 True" using bo_attempt [OF bo_start, of False 0] by (simp add: shouldSkip_def)
  from bo_failure [OF this] have r: "backoff_reach (onFailure 0) False" .
  show ?thesis using r backoff_constant [OF r] by (auto simp: onFailure_def)
qed

end
