(* ===== verification/Upgrade.thy ===== *)
theory Upgrade
  imports GoStrings
begin

text \<open>
  Upgrades of the agent (\<^verbatim>\<open>internal/deviceplatform/upgrade.go\<close>, \<^verbatim>\<open>upgrade_state.go\<close>, and the upgrade
  handlers of \<^verbatim>\<open>orchestrator.go\<close>). A command is acknowledged, a detached installer is scheduled, and its
  result, left in a file, is reported by this process or by its replacement.

  The files are part of the state: the JSON state file as the record it encodes (\<open>Garbled\<close> when it
  cannot be read or decoded), the result files as text. Outcomes of writes, requests and of the
  service manager are arguments, and \<open>fmt\<close> gives the texts of messages. Times are in seconds.
\<close>

section \<open>Versions and quoting\<close>

definition version_char :: "char \<Rightarrow> bool" where
  "version_char c \<longleftrightarrow> is_lower c \<or> is_upper c \<or> is_digit c \<or> c \<in> set ''._-''"

text \<open>The regular expression \<^verbatim>\<open>^v[0-9]+\.[0-9]+\.[0-9]+(?:\+[a-zA-Z0-9._-]+)?$\<close>.\<close>

fun match_number :: "string \<Rightarrow> string option" where
  "match_number s = (if takeWhile is_digit s = [] then None else Some (dropWhile is_digit s))"

fun match_byte :: "char \<Rightarrow> string \<Rightarrow> string option" where
  "match_byte c [] = None"
| "match_byte c (x # xs) = (if x = c then Some xs else None)"

fun match_suffix :: "string \<Rightarrow> bool" where
  "match_suffix [] = True"
| "match_suffix (x # xs) = (x = CHR ''+'' \<and> xs \<noteq> [] \<and> list_all version_char xs)"

definition match_version :: "string \<Rightarrow> bool" where
  "match_version v =
     (case Option.bind (match_byte (CHR ''v'') v) (\<lambda>r. Option.bind (match_number r) (\<lambda>r.
           Option.bind (match_byte (CHR ''.'') r) (\<lambda>r. Option.bind (match_number r) (\<lambda>r.
           Option.bind (match_byte (CHR ''.'') r) match_number)))) of
        None \<Rightarrow> False | Some r \<Rightarrow> match_suffix r)"

definition validateUpgradeVersion :: "string \<Rightarrow> bool" where
  "validateUpgradeVersion version \<longleftrightarrow> \<not> (128 < length version \<or> \<not> match_version version)"

definition shellQuote :: "string \<Rightarrow> string" where
  "shellQuote value = [CHR 0x27] @ ReplaceAll [CHR 0x27] [CHR 0x27, CHR 0x5C, CHR 0x27, CHR 0x27] value @ [CHR 0x27]"

definition sanitizeUnitSuffix :: "string \<Rightarrow> string" where
  "sanitizeUnitSuffix value = filter (\<lambda>c. is_lower c \<or> is_upper c \<or> is_digit c \<or> c = CHR ''_'' \<or> c = CHR ''-'') value"

definition normalize_version :: "string \<Rightarrow> string" where
  "normalize_version value =
     takeWhile (\<lambda>c. c \<noteq> CHR ''+'') (TrimPrefix (TrimPrefix (ToLower (TrimSpace value)) ''corade-'') ''v'')"

definition versionsEqual :: "string \<Rightarrow> string \<Rightarrow> bool" where
  "versionsEqual current target \<longleftrightarrow> normalize_version current \<noteq> [] \<and> normalize_version current = normalize_version target"

definition targetVersionMatches :: "string \<Rightarrow> string \<Rightarrow> bool" where
  "targetVersionMatches current target =
     (let t = ToLower (TrimSpace target) in
      if t = ''latest'' \<or> t = ''corade-latest'' then True else versionsEqual current t)"

section \<open>Files\<close>

datatype 'a disk_file = Absent | Garbled | Stored 'a

record upgradeState =
  us_TaskID :: string
  us_TargetVersion :: string
  us_Status :: string
  us_Error :: string
  us_UpdatedAt :: int

record upgradeResult =
  ur_TaskID :: string
  ur_Status :: string
  ur_Code :: int
  ur_Message :: string

record disk =
  dk_state :: "upgradeState disk_file"
  dk_result :: "string disk_file"
  dk_error :: "string disk_file"

datatype load_error = NotExist | ReadFailed | TooLarge | InvalidTask | InvalidResult | InvalidStatus | InvalidCode

definition loadUpgradeState :: "disk \<Rightarrow> load_error + upgradeState" where
  "loadUpgradeState d =
     (case dk_state d of
        Absent \<Rightarrow> Inl NotExist
      | Garbled \<Rightarrow> Inl ReadFailed
      | Stored st \<Rightarrow>
          (let state = st\<lparr>us_TaskID := TrimSpace (us_TaskID st), us_TargetVersion := TrimSpace (us_TargetVersion st),
             us_Status := ToLower (TrimSpace (us_Status st))\<rparr> in
           if us_TaskID state = [] \<or> sanitizeUnitSuffix (us_TaskID state) \<noteq> us_TaskID state then Inl InvalidTask else Inr state))"

datatype save_error = EmptyPath | BadTask | BadVersion | WriteFailed

definition saveUpgradeState :: "string \<Rightarrow> int \<Rightarrow> bool \<Rightarrow> upgradeState \<Rightarrow> disk \<Rightarrow> (save_error + unit) \<times> disk" where
  "saveUpgradeState path now written state d =
     (if TrimSpace path = [] then (Inl EmptyPath, d)
      else if us_TaskID state = [] \<or> sanitizeUnitSuffix (us_TaskID state) \<noteq> us_TaskID state then (Inl BadTask, d)
      else if \<not> validateUpgradeVersion (us_TargetVersion state) then (Inl BadVersion, d)
      else if \<not> written then (Inl WriteFailed, d)
      else (Inr (), d\<lparr>dk_state := Stored (state\<lparr>us_UpdatedAt := now\<rparr>)\<rparr>))"

definition loadUpgradeResult :: "disk \<Rightarrow> load_error + upgradeResult" where
  "loadUpgradeResult d =
     (case dk_result d of
        Absent \<Rightarrow> Inl NotExist
      | Garbled \<Rightarrow> Inl ReadFailed
      | Stored data \<Rightarrow>
          if 1024 < length data then Inl TooLarge
          else case Fields data of
            [task, status, code] \<Rightarrow>
              if sanitizeUnitSuffix task \<noteq> task then Inl InvalidResult
              else if status \<noteq> ''succeeded'' \<and> status \<noteq> ''failed'' then Inl InvalidStatus
              else (case ParseInt code of
                  None \<Rightarrow> Inl InvalidCode
                | Some c \<Rightarrow>
                    if c < 0 \<or> 255 < c then Inl InvalidCode
                    else Inr \<lparr>ur_TaskID = task, ur_Status = status, ur_Code = c,
                      ur_Message = (case dk_error d of Stored m \<Rightarrow> TrimSpace (take 4096 m) | _ \<Rightarrow> [])\<rparr>)
          | _ \<Rightarrow> Inl InvalidResult)"

section \<open>Commands\<close>

record AgentCommand =
  cmd_ID :: string
  cmd_Type :: string
  cmd_TargetVersion :: string

text \<open>A result sent to the platform: task, status, version, message, and whether it arrived.\<close>

type_synonym sent_result = "string \<times> string \<times> string \<times> string \<times> bool"

record upgrade_world =
  uw_path :: string
  uw_version :: string
  uw_disk :: disk
  uw_sent :: "sent_result list"

datatype upgrade_message =
    PersistFailed
  | SchedulerUnavailable
  | ScheduleFailed string
  | VersionMismatch string string
  | ExitStatus int
  | UnreadableResult load_error
  | TimedOut

definition scheduleAgentUpgrade :: "string \<Rightarrow> string \<Rightarrow> string option \<Rightarrow> string option" where
  "scheduleAgentUpgrade taskID targetVersion started =
     (if sanitizeUnitSuffix taskID = [] then Some ''invalid upgrade task id''
      else if \<not> validateUpgradeVersion (TrimSpace targetVersion) then Some ''invalid upgrade target version''
      else started)"

definition persistUpgradeState ::
  "int \<Rightarrow> bool \<Rightarrow> string \<Rightarrow> string \<Rightarrow> string \<Rightarrow> string \<Rightarrow> upgrade_world \<Rightarrow> (save_error + unit) \<times> upgrade_world" where
  "persistUpgradeState now written taskID targetVersion status message w =
     (case saveUpgradeState (uw_path w) now written \<lparr>us_TaskID = taskID, us_TargetVersion = targetVersion,
        us_Status = status, us_Error = message, us_UpdatedAt = 0\<rparr> (uw_disk w) of
        (r, d) \<Rightarrow> (r, w\<lparr>uw_disk := d\<rparr>))"

definition sendUpgradeResult :: "bool \<Rightarrow> string \<Rightarrow> string \<Rightarrow> string \<Rightarrow> string \<Rightarrow> upgrade_world \<Rightarrow> upgrade_world" where
  "sendUpgradeResult ok taskID status version message w = w\<lparr>uw_sent := uw_sent w @ [(taskID, status, version, message, ok)]\<rparr>"

definition remove_state :: "upgrade_world \<Rightarrow> upgrade_world" where
  "remove_state w = w\<lparr>uw_disk := (uw_disk w)\<lparr>dk_state := Absent\<rparr>\<rparr>"

definition remove_result :: "upgrade_world \<Rightarrow> upgrade_world" where
  "remove_result w = w\<lparr>uw_disk := (uw_disk w)\<lparr>dk_result := Absent, dk_error := Absent\<rparr>\<rparr>"

definition failUpgrade :: "int \<Rightarrow> bool \<Rightarrow> bool \<Rightarrow> string \<Rightarrow> string \<Rightarrow> upgrade_world \<Rightarrow> upgrade_world" where
  "failUpgrade now written ok taskID message w =
     (let w1 = snd (persistUpgradeState now written taskID [] ''failed'' message w);
          w2 = sendUpgradeResult ok taskID ''failed'' (uw_version w1) message w1
      in if ok then remove_state w2 else w2)"

record command_outcome =
  co_now :: int
  co_written :: bool
  co_acked :: bool
  co_started :: "string option"
  co_failed :: bool

definition handle_command ::
  "(upgrade_message \<Rightarrow> string) \<Rightarrow> bool \<Rightarrow> command_outcome \<Rightarrow> AgentCommand \<Rightarrow> upgrade_world \<Rightarrow> upgrade_world" where
  "handle_command fmt available out command w =
     (if cmd_Type command \<noteq> ''agent.upgrade'' then w
      else if TrimSpace (cmd_ID command) = [] then w
      else
        (let fail = failUpgrade (co_now out) (co_written out) (co_failed out) (cmd_ID command) in
         case persistUpgradeState (co_now out) (co_written out) (cmd_ID command) (cmd_TargetVersion command) ''acknowledged'' [] w of
           (Inl e, w1) \<Rightarrow> fail (fmt PersistFailed) w1
         | (Inr _, w1) \<Rightarrow>
             (let w2 = sendUpgradeResult (co_acked out) (cmd_ID command) ''acknowledged'' [] [] w1 in
              if \<not> available then fail (fmt SchedulerUnavailable) w2
              else case scheduleAgentUpgrade (cmd_ID command) (cmd_TargetVersion command) (co_started out) of
                Some e \<Rightarrow> fail (fmt (ScheduleFailed e)) w2
              | None \<Rightarrow> w2)))"

fun handleCommands ::
  "(upgrade_message \<Rightarrow> string) \<Rightarrow> bool \<Rightarrow> (command_outcome \<times> AgentCommand) list \<Rightarrow> upgrade_world \<Rightarrow> upgrade_world" where
  "handleCommands fmt available [] w = w"
| "handleCommands fmt available ((out, command) # rest) w =
     handleCommands fmt available rest (handle_command fmt available out command w)"

section \<open>Reporting a pending upgrade\<close>

definition classifyUpgradeResult ::
  "(upgrade_message \<Rightarrow> string) \<Rightarrow> upgradeState \<Rightarrow> upgradeResult \<Rightarrow> string \<Rightarrow> string \<times> string" where
  "classifyUpgradeResult fmt state result currentVersion =
     (let status = ur_Status result in
      if status = ''succeeded'' \<and> us_TargetVersion state \<noteq> [] \<and> \<not> targetVersionMatches currentVersion (us_TargetVersion state)
      then (''failed'', fmt (VersionMismatch currentVersion (us_TargetVersion state)))
      else (status,
        if status = ''failed'' then
          (let message = TrimSpace (ur_Message result) in if message = [] then fmt (ExitStatus (ur_Code result)) else message)
        else []))"

definition reportPendingUpgrade ::
  "(upgrade_message \<Rightarrow> string) \<Rightarrow> int \<Rightarrow> bool \<Rightarrow> upgrade_world \<Rightarrow> upgrade_world" where
  "reportPendingUpgrade fmt now ok w =
     (case loadUpgradeState (uw_disk w) of
        Inl _ \<Rightarrow> w
      | Inr state \<Rightarrow>
          (let report = (\<lambda>status message. sendUpgradeResult ok (us_TaskID state) status (uw_version w) message w);
               finish = (\<lambda>w1. if ok then remove_state (remove_result w1) else w1);
               waiting =
                 (if us_Status state = ''failed'' then
                    (let w1 = report ''failed'' (us_Error state) in if ok then remove_state w1 else w1)
                  else if us_Status state = ''acknowledged'' then
                    (if us_UpdatedAt state \<noteq> 0 \<and> 720 \<le> now - us_UpdatedAt state
                     then (let w1 = report ''failed'' (fmt TimedOut) in if ok then remove_state w1 else w1)
                     else sendUpgradeResult ok (us_TaskID state) ''acknowledged'' [] [] w)
                  else w) in
           case loadUpgradeResult (uw_disk w) of
             Inr result \<Rightarrow>
               if ur_TaskID result = us_TaskID state
               then (case classifyUpgradeResult fmt state result (uw_version w) of (status, message) \<Rightarrow> finish (report status message))
               else waiting
           | Inl NotExist \<Rightarrow> waiting
           | Inl e \<Rightarrow> finish (report ''failed'' (fmt (UnreadableResult e)))))"

section \<open>What the shell sees\<close>

text \<open>
  How a POSIX shell reads a word: text in single quotes is literal, a backslash outside quotes
  makes the next byte literal (and removes a newline), any other byte outside quotes must be one
  without a meaning to the shell. \<open>None\<close>: not a single word.
\<close>

fun sh_word :: "bool \<Rightarrow> string \<Rightarrow> string option" where
  "sh_word False [] = Some []"
| "sh_word True [] = None"
| "sh_word True (c # cs) = (if c = CHR 0x27 then sh_word False cs else map_option (Cons c) (sh_word True cs))"
| "sh_word False (c # cs) =
     (if c = CHR 0x27 then sh_word True cs
      else if c = CHR 0x5C then
        (case cs of [] \<Rightarrow> None | d # ds \<Rightarrow> if d = CHR 0x0A then sh_word False ds else map_option (Cons d) (sh_word False ds))
      else if version_char c then map_option (Cons c) (sh_word False cs) else None)"

lemma ReplaceAll_byte:
  "ReplaceAll [q] new (x # xs) = (if x = q then new else [x]) @ ReplaceAll [q] new xs"
  "ReplaceAll [q] new [] = []"
  by (simp_all add: ReplaceAll.simps [where s = "x # xs"] ReplaceAll.simps [where s = "[]"])

lemma sh_word_quoted:
  "sh_word True (ReplaceAll [CHR 0x27] [CHR 0x27, CHR 0x5C, CHR 0x27, CHR 0x27] v @ [CHR 0x27]) = Some v"
  by (induction v) (simp_all add: ReplaceAll_byte)

section \<open>The version syntax\<close>

lemma match_number_iff: "match_number s = Some r \<longleftrightarrow> (\<exists>a. a \<noteq> [] \<and> list_all is_digit a \<and> s = a @ r \<and> (r = [] \<or> \<not> is_digit (hd r)))"
proof
  assume "match_number s = Some r"
  then have "takeWhile is_digit s \<noteq> []" "r = dropWhile is_digit s" by (auto split: if_splits)
  moreover have "list_all is_digit (takeWhile is_digit s)" by (simp add: list_all_iff) (meson set_takeWhileD)
  moreover have "dropWhile is_digit s = [] \<or> \<not> is_digit (hd (dropWhile is_digit s))" using hd_dropWhile by blast
  ultimately show "\<exists>a. a \<noteq> [] \<and> list_all is_digit a \<and> s = a @ r \<and> (r = [] \<or> \<not> is_digit (hd r))"
    by (intro exI [of _ "takeWhile is_digit s"]) simp
next
  assume "\<exists>a. a \<noteq> [] \<and> list_all is_digit a \<and> s = a @ r \<and> (r = [] \<or> \<not> is_digit (hd r))"
  then obtain a where a: "a \<noteq> []" "list_all is_digit a" "s = a @ r" "r = [] \<or> \<not> is_digit (hd r)" by blast
  then have "takeWhile is_digit s = a" "dropWhile is_digit s = r"
    by (cases r; auto simp: list_all_iff)+
  then show "match_number s = Some r" using a(1) by simp
qed

lemma match_byte_iff: "match_byte c s = Some r \<longleftrightarrow> s = c # r"
  by (cases s) auto

lemma match_suffix_iff: "match_suffix s \<longleftrightarrow> s = [] \<or> (\<exists>t. s = CHR ''+'' # t \<and> t \<noteq> [] \<and> list_all version_char t)"
  by (cases s) auto

lemma bind_iff: "(case Option.bind m f of None \<Rightarrow> False | Some r \<Rightarrow> P r) \<longleftrightarrow> (\<exists>x r. m = Some x \<and> f x = Some r \<and> P r)"
  by (cases m) (auto split: option.split)

definition number :: "string \<Rightarrow> bool" where
  "number a \<longleftrightarrow> a \<noteq> [] \<and> list_all is_digit a"

lemma dot_no_digit: "\<not> is_digit (CHR ''.'')" "\<not> is_digit (CHR ''+'')"
  by (simp_all add: is_digit_def)

lemma match_version_iff:
  "match_version v \<longleftrightarrow> (\<exists>a b c s. v = ''v'' @ a @ ''.'' @ b @ ''.'' @ c @ s \<and> number a \<and> number b \<and> number c \<and> match_suffix s)"
proof
  assume "match_version v"
  then show "\<exists>a b c s. v = ''v'' @ a @ ''.'' @ b @ ''.'' @ c @ s \<and> number a \<and> number b \<and> number c \<and> match_suffix s"
  proof -
    from \<open>match_version v\<close> obtain r1 r2 r3 r4 r5 s where m: "match_byte (CHR ''v'') v = Some r1" "match_number r1 = Some r2"
      "match_byte (CHR ''.'') r2 = Some r3" "match_number r3 = Some r4" "match_byte (CHR ''.'') r4 = Some r5"
      "match_number r5 = Some s" "match_suffix s"
      by (auto simp: match_version_def bind_eq_Some_conv simp del: match_number.simps split: option.splits)
    obtain a b c where "r1 = a @ r2" "r3 = b @ r4" "r5 = c @ s" "number a" "number b" "number c"
      using m(2,4,6) unfolding match_number_iff number_def by blast
    then show ?thesis using m(1,3,5,7) unfolding match_byte_iff by (intro exI [of _ a] exI [of _ b] exI [of _ c] exI [of _ s]) simp
  qed
next
  assume "\<exists>a b c s. v = ''v'' @ a @ ''.'' @ b @ ''.'' @ c @ s \<and> number a \<and> number b \<and> number c \<and> match_suffix s"
  then obtain a b c s where v: "v = ''v'' @ a @ ''.'' @ b @ ''.'' @ c @ s" and n: "number a" "number b" "number c" "match_suffix s" by blast
  have s: "s = [] \<or> \<not> is_digit (hd s)" using n(4) dot_no_digit by (auto simp: match_suffix_iff)
  have m: "match_number (x @ r) = Some r" if "number x" "r = [] \<or> \<not> is_digit (hd r)" for x r
    unfolding match_number_iff using that by (auto simp: number_def)
  have "match_number (a @ ''.'' @ b @ ''.'' @ c @ s) = Some (''.'' @ b @ ''.'' @ c @ s)"
    "match_number (b @ ''.'' @ c @ s) = Some (''.'' @ c @ s)" "match_number (c @ s) = Some s"
    using n s dot_no_digit by (intro m; simp)+
  then show "match_version v" using n(4) by (simp add: match_version_def v del: match_number.simps)
qed

section \<open>Properties\<close>

text \<open>
  C33. A value quoted for the installer's shell command is read by the shell as exactly one word, the
  value itself, whatever bytes it has: quotes, backslashes, newlines or metacharacters in a task
  identifier, a version or a path cannot end the word.
\<close>

theorem shellQuote_roundtrip: "sh_word False (shellQuote value) = Some value"
  by (simp add: shellQuote_def sh_word_quoted)

text \<open>
  The target versions accepted are exactly those of at most 128 bytes that read \<open>v\<close>, three
  numbers separated by dots, and optionally a plus sign and a non-empty suffix of letters, digits,
  dots, underscores and hyphens.
\<close>

lemma validateUpgradeVersion_iff:
  "validateUpgradeVersion v \<longleftrightarrow> length v \<le> 128 \<and> (\<exists>a b c s. v = ''v'' @ a @ ''.'' @ b @ ''.'' @ c @ s \<and>
     number a \<and> number b \<and> number c \<and> (s = [] \<or> (\<exists>t. s = ''+'' @ t \<and> t \<noteq> [] \<and> list_all version_char t)))"
  unfolding validateUpgradeVersion_def match_version_iff match_suffix_iff de_Morgan_disj not_not not_less append.simps by (rule refl)

lemma empty_version: "\<not> validateUpgradeVersion []"
  by (simp add: validateUpgradeVersion_def match_version_def)

lemma failUpgrade_disk: "\<not> ok \<Longrightarrow> uw_disk (failUpgrade now written ok taskID message w) = uw_disk w"
  by (auto simp: failUpgrade_def Let_def persistUpgradeState_def saveUpgradeState_def empty_version sendUpgradeResult_def)

text \<open>
  A failed upgrade whose report does not get through is forgotten. The failure is to be kept in the
  state file, but it is written with an empty target version, which the writer rejects; the file still
  says the task was acknowledged. So when scheduling fails and the failure report is lost, the next
  reports acknowledge the task again, without the reason, until the twelve minute timeout.
\<close>

lemma failure_report_lost:
  assumes "cmd_Type command = ''agent.upgrade''" and "cmd_ID command \<noteq> []" and "sanitizeUnitSuffix (cmd_ID command) = cmd_ID command"
    and "TrimSpace (cmd_ID command) = cmd_ID command" and "TrimSpace (uw_path w) \<noteq> []"
    and "validateUpgradeVersion (cmd_TargetVersion command)"
    and "co_written out" and "\<not> co_failed out" and "co_started out = Some e" and "TrimSpace (cmd_TargetVersion command) = cmd_TargetVersion command"
    and "dk_result (uw_disk w) = Absent" and "now - co_now out < 720"
  shows "uw_sent (reportPendingUpgrade fmt now ok (handle_command fmt True out command w)) =
    uw_sent w @ [(cmd_ID command, ''acknowledged'', [], [], co_acked out),
      (cmd_ID command, ''failed'', uw_version w, fmt (ScheduleFailed e), False),
      (cmd_ID command, ''acknowledged'', [], [], ok)]"
proof -
  define st where "st = \<lparr>us_TaskID = cmd_ID command, us_TargetVersion = cmd_TargetVersion command, us_Status = ''acknowledged'',
    us_Error = [], us_UpdatedAt = co_now out\<rparr>"
  define w2 where "w2 = w\<lparr>uw_disk := (uw_disk w)\<lparr>dk_state := Stored st\<rparr>,
    uw_sent := uw_sent w @ [(cmd_ID command, ''acknowledged'', [], [], co_acked out)]\<rparr>"
  define w3 where "w3 = failUpgrade (co_now out) True False (cmd_ID command) (fmt (ScheduleFailed e)) w2"
  have "scheduleAgentUpgrade (cmd_ID command) (cmd_TargetVersion command) (co_started out) = Some e"
    using assms by (simp add: scheduleAgentUpgrade_def)
  then have h: "handle_command fmt True out command w = w3"
    using assms by (simp add: handle_command_def persistUpgradeState_def saveUpgradeState_def sendUpgradeResult_def Let_def
        w2_def w3_def st_def)
  have d: "uw_disk w3 = (uw_disk w)\<lparr>dk_state := Stored st\<rparr>" by (simp add: w3_def failUpgrade_disk) (simp add: w2_def)
  have s3: "uw_sent w3 = uw_sent w2 @ [(cmd_ID command, ''failed'', uw_version w, fmt (ScheduleFailed e), False)]"
    by (simp add: w3_def failUpgrade_def Let_def persistUpgradeState_def saveUpgradeState_def empty_version sendUpgradeResult_def w2_def)
  have t: "ToLower (TrimSpace ''acknowledged'') = ''acknowledged''" by code_simp
  have "loadUpgradeState (uw_disk w3) = Inr st" using assms(2-4,10) by (simp add: d loadUpgradeState_def st_def t)
  moreover have "loadUpgradeResult (uw_disk w3) = Inl NotExist" using assms(11) by (simp add: d loadUpgradeResult_def)
  ultimately show ?thesis
    using assms(12) by (simp add: h reportPendingUpgrade_def Let_def st_def sendUpgradeResult_def s3 w2_def)
qed

definition demo_command :: AgentCommand where
  "demo_command = \<lparr>cmd_ID = ''task-1'', cmd_Type = ''agent.upgrade'', cmd_TargetVersion = ''v1.2.3''\<rparr>"

definition demo_outcome :: command_outcome where
  "demo_outcome = \<lparr>co_now = 100, co_written = True, co_acked = True, co_started = Some ''no systemd'', co_failed = False\<rparr>"

definition demo_upgrade :: upgrade_world where
  "demo_upgrade = \<lparr>uw_path = ''/etc/corade'', uw_version = ''v1.0.0'', uw_disk = \<lparr>dk_state = Absent, dk_result = Absent, dk_error = Absent\<rparr>,
     uw_sent = []\<rparr>"

theorem failure_report_lost_witness:
  "uw_sent (reportPendingUpgrade (\<lambda>_. ''m'') 130 True (handle_command (\<lambda>_. ''m'') True demo_outcome demo_command demo_upgrade)) =
     [(''task-1'', ''acknowledged'', [], [], True), (''task-1'', ''failed'', ''v1.0.0'', ''m'', False), (''task-1'', ''acknowledged'', [], [], True)]"
proof -
  have "sanitizeUnitSuffix (cmd_ID demo_command) = cmd_ID demo_command" "TrimSpace (cmd_ID demo_command) = cmd_ID demo_command"
    "TrimSpace (uw_path demo_upgrade) \<noteq> []" "validateUpgradeVersion (cmd_TargetVersion demo_command)"
    "TrimSpace (cmd_TargetVersion demo_command) = cmd_TargetVersion demo_command"
    by code_simp+
  then show ?thesis
    using failure_report_lost [of demo_command demo_upgrade demo_outcome "''no systemd''" 130 "\<lambda>_. ''m''" True]
    by (simp add: demo_command_def demo_outcome_def demo_upgrade_def)
qed













definition demo_pending :: upgrade_world where
  "demo_pending = demo_upgrade\<lparr>uw_disk := \<lparr>dk_state = Stored \<lparr>us_TaskID = ''task-1'', us_TargetVersion = ''v1.2.3'',
     us_Status = ''acknowledged'', us_Error = [], us_UpdatedAt = 100\<rparr>, dk_result = Absent, dk_error = Absent\<rparr>\<rparr>"



text \<open>
  A new command does not respect a pending upgrade. While task 1 is acknowledged and its installer runs,
  a second command that is refused (its version is invalid) removes the state file of task 1 once its
  own failure has arrived: no outcome of task 1 is ever reported.
\<close>

lemma new_command_drops_pending:
  "(let w = handle_command (\<lambda>_. ''m'') True (demo_outcome\<lparr>co_failed := True\<rparr>)
         (demo_command\<lparr>cmd_ID := ''task-2'', cmd_TargetVersion := ''latest''\<rparr>) demo_pending in
     dk_state (uw_disk w) = Absent \<and> map fst (uw_sent w) = [''task-2''])"
  by code_simp

end
