(* ===== verification/Orchestrator.thy ===== *)
theory Orchestrator
  imports ControlPlane Upgrade
begin

text \<open>
  The orchestrator of device-platform mode (\<^verbatim>\<open>internal/deviceplatform/orchestrator.go\<close>): it runs one
  service per node of the machine, starts and stops them as the platform's node list changes, restarts
  a node whose kernel changes, follows the platform's change cursor, and passes change notifications
  on to the services.

  The mutex-protected maps are association lists. A status channel is its buffer, of capacity 4; a
  send that would block is dropped. The \<^verbatim>\<open>done\<close> channel of a node is its identity, a number. Requests to
  the platform are arguments (\<open>None\<close>: failed), goroutines started by a handler are its second result.
  A stop takes the handle under the lock (\<open>stop_begin\<close>, \<open>stopAll_begin\<close>) and waits for the service outside it;
  \<open>stopNode\<close> and \<open>stopAll\<close> are such a stop when nothing happens while it waits.
\<close>

section \<open>State\<close>

record platform_Node =
  pn_ID :: int
  pn_Type :: string
  pn_Name :: string

record nodeHandle =
  nh_done :: nat
  nh_node :: platform_Node
  nh_kernelType :: string

type_synonym StatusChange = "bool \<times> bool"

record Orchestrator =
  or_nodes :: "(int, nodeHandle) gomap"
  or_statuses :: "(int, StatusChange list) gomap"
  or_stopping :: bool
  or_next :: nat
  or_running :: "nat list"
  or_cursor :: int
  or_connected :: bool
  or_pushInterval :: int
  or_pullInterval :: int
  or_heartbeatInterval :: int

datatype job = Rediscover | ReconcileNodeSpec int

section \<open>Nodes\<close>

text \<open>The kernel a node is started with, \<open>configured\<close> being the agent's own.\<close>

definition node_kernel :: "(string \<Rightarrow> (string, any) gomap option) \<Rightarrow> string \<Rightarrow> PlatformNodeSpec \<Rightarrow> string" where
  "node_kernel unmarshal configured spec =
     (let kernelType = ToLower (TrimSpace (ps_KernelType spec)) in
      ResolveKernelForTransport (NodeSpec_Transport unmarshal spec) (if kernelType = [] then configured else kernelType))"

definition startNode ::
  "(string \<Rightarrow> (string, any) gomap option) \<Rightarrow> string \<Rightarrow> bool \<Rightarrow> PlatformNodeSpec option \<Rightarrow> platform_Node \<Rightarrow> Orchestrator \<Rightarrow> Orchestrator" where
  "startNode unmarshal configured cancelled spec node ob =
     (if cancelled then ob
      else
        (let kernelType = (case spec of None \<Rightarrow> configured | Some s \<Rightarrow> node_kernel unmarshal configured s) in
         if or_stopping ob then ob
         else if mhas (or_nodes ob) (pn_ID node) then ob
         else ob\<lparr>or_nodes := mput (pn_ID node) \<lparr>nh_done = or_next ob, nh_node = node, nh_kernelType = kernelType\<rparr> (or_nodes ob),
                or_running := or_running ob @ [or_next ob], or_next := Suc (or_next ob)\<rparr>))"

text \<open>The callback by which a started service registers its status channel, and the end of its goroutine.\<close>

definition register_status :: "int \<Rightarrow> Orchestrator \<Rightarrow> Orchestrator" where
  "register_status nodeID ob = ob\<lparr>or_statuses := mput nodeID [] (or_statuses ob)\<rparr>"

definition node_exited :: "int \<Rightarrow> nat \<Rightarrow> Orchestrator \<Rightarrow> Orchestrator" where
  "node_exited nodeID done ob =
     (let o1 = ob\<lparr>or_running := removeAll done (or_running ob)\<rparr> in
      case map_of (or_nodes ob) nodeID of
        Some current \<Rightarrow> if nh_done current = done
          then o1\<lparr>or_nodes := mdel nodeID (or_nodes ob), or_statuses := mdel nodeID (or_statuses ob)\<rparr> else o1
      | None \<Rightarrow> o1)"

text \<open>
  \<open>stopNode\<close> and \<open>stopAll\<close> take the handles in a critical section (\<open>stop_begin\<close>, \<open>stopAll_begin\<close>), release the
  mutex, cancel the services and wait for their goroutines. \<open>stopNode\<close> and \<open>stopAll\<close> themselves are the calls
  that nothing overtakes while they wait; the steps of \<open>or_run\<close> below interleave the parts.
\<close>

definition stop_begin :: "int \<Rightarrow> Orchestrator \<Rightarrow> nodeHandle option \<times> Orchestrator" where
  "stop_begin nodeID ob =
     (case map_of (or_nodes ob) nodeID of
        None \<Rightarrow> (None, ob)
      | Some handle \<Rightarrow> (Some handle, ob\<lparr>or_nodes := mdel nodeID (or_nodes ob), or_statuses := mdel nodeID (or_statuses ob)\<rparr>))"

definition stopNode :: "int \<Rightarrow> Orchestrator \<Rightarrow> Orchestrator" where
  "stopNode nodeID ob =
     (case stop_begin nodeID ob of
        (None, ob') \<Rightarrow> ob'
      | (Some handle, ob') \<Rightarrow> node_exited nodeID (nh_done handle) ob')"

definition stopAll_begin :: "Orchestrator \<Rightarrow> (int \<times> nodeHandle) list \<times> Orchestrator" where
  "stopAll_begin ob = (or_nodes ob,
     ob\<lparr>or_stopping := True, or_nodes := [], or_statuses := fold (\<lambda>(nodeID, handle). mdel nodeID) (or_nodes ob) (or_statuses ob)\<rparr>)"

definition stopAll :: "Orchestrator \<Rightarrow> Orchestrator" where
  "stopAll ob = (case stopAll_begin ob of (handles, ob') \<Rightarrow>
     fold (\<lambda>(nodeID, handle). node_exited nodeID (nh_done handle)) handles ob')"

definition diffNodes ::
  "((int \<times> nodeHandle) list \<Rightarrow> (int \<times> nodeHandle) list) \<Rightarrow> ((int \<times> platform_Node) list \<Rightarrow> (int \<times> platform_Node) list) \<Rightarrow>
    (int, nodeHandle) gomap \<Rightarrow> (int, platform_Node) gomap \<Rightarrow> int list \<times> platform_Node list" where
  "diffNodes rng1 rng2 current wanted =
     (map fst (filter (\<lambda>(nodeID, h). \<not> mhas wanted nodeID) (rng1 current)),
      map snd (filter (\<lambda>(nodeID, n). \<not> mhas current nodeID) (rng2 wanted)))"

definition rediscover ::
  "(string \<Rightarrow> (string, any) gomap option) \<Rightarrow> string \<Rightarrow> ((int \<times> nodeHandle) list \<Rightarrow> (int \<times> nodeHandle) list) \<Rightarrow>
    ((int \<times> platform_Node) list \<Rightarrow> (int \<times> platform_Node) list) \<Rightarrow> bool \<Rightarrow> platform_Node list option \<Rightarrow>
    (int \<Rightarrow> PlatformNodeSpec option) \<Rightarrow> Orchestrator \<Rightarrow> Orchestrator" where
  "rediscover unmarshal configured rng1 rng2 cancelled response specs ob =
     (if cancelled then ob
      else case response of
        None \<Rightarrow> ob
      | Some nodes \<Rightarrow>
          (let wanted = mbuild pn_ID (\<lambda>n. n) nodes;
               (remove, start) = diffNodes rng1 rng2 (or_nodes ob) wanted
           in fold (\<lambda>node. startNode unmarshal configured cancelled (specs (pn_ID node)) node) start (fold stopNode remove ob)))"

section \<open>Notifications\<close>

definition send_status :: "StatusChange \<Rightarrow> StatusChange list \<Rightarrow> StatusChange list" where
  "send_status change buffer = (if length buffer < 4 then buffer @ [change] else buffer)"

definition notifyNode :: "int \<Rightarrow> StatusChange \<Rightarrow> Orchestrator \<Rightarrow> Orchestrator" where
  "notifyNode nodeID change ob =
     (case map_of (or_statuses ob) nodeID of
        None \<Rightarrow> ob
      | Some buffer \<Rightarrow> ob\<lparr>or_statuses := mput nodeID (send_status change buffer) (or_statuses ob)\<rparr>)"

definition broadcast :: "StatusChange \<Rightarrow> Orchestrator \<Rightarrow> Orchestrator" where
  "broadcast change ob = ob\<lparr>or_statuses := map (\<lambda>(nodeID, buffer). (nodeID, send_status change buffer)) (or_statuses ob)\<rparr>"

definition onStreamStatus :: "bool \<Rightarrow> Orchestrator \<Rightarrow> Orchestrator" where
  "onStreamStatus connected ob = broadcast (connected, connected) ob"

definition handleChange :: "string \<Rightarrow> int \<Rightarrow> Orchestrator \<Rightarrow> Orchestrator \<times> job list" where
  "handleChange eventType nodeID ob =
     (let resync = (or_connected ob, True) in
      if eventType = ''machine.nodes.replace'' then (ob, [Rediscover])
      else if eventType = ''agent.command.sync'' then (broadcast resync ob, [Rediscover])
      else if eventType = ''node.spec.replace'' then
        (if mhas (or_nodes ob) nodeID then (ob, [ReconcileNodeSpec nodeID]) else (notifyNode nodeID resync ob, []))
      else if eventType = ''node.members.replace'' \<or> eventType = ''node.members.patch'' \<or> eventType = ''node.devices.replace''
      then (notifyNode nodeID resync ob, [])
      else (ob, []))"

text \<open>\<open>reconcileNodeSpec\<close> up to the kernel comparison (\<open>Some handle\<close>: restart it), and the restart, which
  is given up when the node is no longer run by this handle. \<open>spec'\<close> is what the start fetches.\<close>

definition reconcile_decide ::
  "(string \<Rightarrow> (string, any) gomap option) \<Rightarrow> string \<Rightarrow> bool \<Rightarrow> PlatformNodeSpec option \<Rightarrow> int \<Rightarrow> Orchestrator \<Rightarrow>
    nodeHandle option \<times> Orchestrator" where
  "reconcile_decide unmarshal configured cancelled spec nodeID ob =
     (if cancelled then (None, ob)
      else case map_of (or_nodes ob) nodeID of
        None \<Rightarrow> (None, ob)
      | Some handle \<Rightarrow>
          (case spec of
             None \<Rightarrow> (None, notifyNode nodeID (or_connected ob, True) ob)
           | Some s \<Rightarrow>
               if node_kernel unmarshal configured s = nh_kernelType handle then (None, notifyNode nodeID (or_connected ob, True) ob)
               else (Some handle, ob)))"

definition reconcile_restart ::
  "(string \<Rightarrow> (string, any) gomap option) \<Rightarrow> string \<Rightarrow> bool \<Rightarrow> PlatformNodeSpec option \<Rightarrow> int \<Rightarrow> nodeHandle \<Rightarrow> Orchestrator \<Rightarrow> Orchestrator" where
  "reconcile_restart unmarshal configured cancelled spec' nodeID handle ob =
     (case map_of (or_nodes ob) nodeID of
        None \<Rightarrow> ob
      | Some current \<Rightarrow>
          if nh_done current \<noteq> nh_done handle then ob
          else startNode unmarshal configured cancelled spec' (nh_node handle) (stopNode nodeID ob))"

section \<open>Changes\<close>

definition currentCursor :: "Orchestrator \<Rightarrow> string" where
  "currentCursor ob = FormatInt (or_cursor ob)"

definition advanceCursor :: "string \<Rightarrow> Orchestrator \<Rightarrow> bool \<times> Orchestrator" where
  "advanceCursor candidate ob =
     (case ParseInt (TrimSpace candidate) of
        None \<Rightarrow> (False, ob)
      | Some v \<Rightarrow> if v < 0 then (False, ob) else if v \<le> or_cursor ob then (True, ob) else (True, ob\<lparr>or_cursor := v\<rparr>))"

fun handle_changes :: "(string \<times> int) list \<Rightarrow> Orchestrator \<Rightarrow> Orchestrator \<times> job list" where
  "handle_changes [] ob = (ob, [])"
| "handle_changes ((t, n) # rest) ob =
     (let (o1, j1) = handleChange t n ob; (o2, j2) = handle_changes rest o1 in (o2, j1 @ j2))"

text \<open>The answer holds the type and node of each change (the node read from its data when absent) and the next cursor.\<close>

definition pullChanges :: "((string \<times> int) list \<times> string) option \<Rightarrow> Orchestrator \<Rightarrow> Orchestrator \<times> job list" where
  "pullChanges response ob =
     (case response of
        None \<Rightarrow> (ob, [])
      | Some (changes, nextCursor) \<Rightarrow>
          (let (o1, jobs) = handle_changes changes ob in (snd (advanceCursor nextCursor o1), jobs)))"

definition orchestrator_onEvent :: "string \<Rightarrow> string \<Rightarrow> int \<Rightarrow> Orchestrator \<Rightarrow> Orchestrator \<times> job list" where
  "orchestrator_onEvent eventID eventType nodeID ob =
     handleChange eventType nodeID
       (if HasPrefix eventID ''chg_'' then snd (advanceCursor (TrimPrefix eventID ''chg_'') ob) else ob)"

definition applyIntervals :: "int \<Rightarrow> int \<Rightarrow> int \<Rightarrow> Orchestrator \<Rightarrow> Orchestrator" where
  "applyIntervals telemetry fallbackPull heartbeat ob =
     ob\<lparr>or_pushInterval := (if telemetry < 10 then 60 else telemetry),
       or_pullInterval := (if fallbackPull < 15 then 60 else fallbackPull),
       or_heartbeatInterval := (let h = i64 (heartbeat * 1000000000) in if h < 5000000000 then 15000000000 else h)\<rparr>"

section \<open>Supervision\<close>

text \<open>What rediscovery relies on: starting and stopping change the set of nodes by one, and nothing else.\<close>

locale supervisor =
  fixes lookup :: "'s \<Rightarrow> int \<Rightarrow> 'h option"
    and ready :: "'s \<Rightarrow> bool"
    and start :: "'n \<Rightarrow> 's \<Rightarrow> 's"
    and stop :: "int \<Rightarrow> 's \<Rightarrow> 's"
    and key :: "'n \<Rightarrow> int"
  assumes start_ready: "ready s \<Longrightarrow> ready (start n s)"
    and stop_ready: "ready s \<Longrightarrow> ready (stop i s)"
    and start_same: "ready s \<Longrightarrow> i \<noteq> key n \<Longrightarrow> lookup (start n s) i = lookup s i"
    and start_new: "ready s \<Longrightarrow> lookup (start n s) (key n) \<noteq> None"
    and start_old: "ready s \<Longrightarrow> lookup s i \<noteq> None \<Longrightarrow> lookup (start n s) i = lookup s i"
    and stop_same: "ready s \<Longrightarrow> i \<noteq> j \<Longrightarrow> lookup (stop j s) i = lookup s i"
    and stop_gone: "ready s \<Longrightarrow> lookup (stop j s) j = None"
begin

lemma fold_stop:
  assumes "ready s"
  shows "ready (fold stop js s)" and "lookup (fold stop js s) i = (if i \<in> set js then None else lookup s i)"
  using assms
proof (induction js arbitrary: s)
  case (Cons j js)
  {
    case 1
    then show ?case using Cons.IH(1) stop_ready by simp
  next
    case 2
    then show ?case using Cons.IH(2) [OF stop_ready [OF 2]] stop_same [OF 2] stop_gone [OF 2] by auto
  }
qed simp_all

lemma fold_start:
  assumes "ready s"
  shows "ready (fold start ns s)"
    and "lookup (fold start ns s) i \<noteq> None \<longleftrightarrow> i \<in> key ` set ns \<or> lookup s i \<noteq> None"
    and "lookup s i \<noteq> None \<Longrightarrow> lookup (fold start ns s) i = lookup s i"
  using assms
proof (induction ns arbitrary: s)
  case (Cons n ns)
  {
    case 1
    then show ?case using Cons.IH(1) start_ready by simp
  next
    case 2
    have "lookup (start n s) i \<noteq> None \<longleftrightarrow> i = key n \<or> lookup s i \<noteq> None"
      using start_new [OF 2] start_same [OF 2, of i n] by (cases "i = key n") auto
    then show ?case using Cons.IH(2) [OF start_ready [OF 2], of n] by auto
  next
    case 3
    then show ?case using Cons.IH(3) start_ready start_old by simp
  }
qed simp_all

lemma converges:
  assumes "ready s"
  shows "lookup (fold start ns (fold stop js s)) i \<noteq> None \<longleftrightarrow> i \<in> key ` set ns \<or> i \<notin> set js \<and> lookup s i \<noteq> None"
    and "i \<notin> set js \<Longrightarrow> lookup s i \<noteq> None \<Longrightarrow> lookup (fold start ns (fold stop js s)) i = lookup s i"
  using fold_stop [OF assms, of js] fold_start(2,3) [where ns = ns and i = i, OF fold_stop(1) [OF assms, of js]] by auto

end

lemma stopNode_lookup: "map_of (or_nodes (stopNode j ob)) i = (if i = j then None else map_of (or_nodes ob) i)"
  by (auto simp: stopNode_def stop_begin_def node_exited_def Let_def map_of_mdel split: option.split)

lemma startNode_lookup:
  assumes "\<not> or_stopping ob"
  shows "map_of (or_nodes (startNode u c False sp n ob)) i =
    (if i = pn_ID n \<and> map_of (or_nodes ob) i = None
     then Some \<lparr>nh_done = or_next ob, nh_node = n, nh_kernelType = (case sp of None \<Rightarrow> c | Some s \<Rightarrow> node_kernel u c s)\<rparr>
     else map_of (or_nodes ob) i)"
  using assms by (auto simp: startNode_def Let_def map_of_mput mhas_def)

interpretation nodes: supervisor "\<lambda>ob. map_of (or_nodes ob)" "\<lambda>ob. \<not> or_stopping ob"
  "\<lambda>n. startNode u c False (specs (pn_ID n)) n" stopNode pn_ID for u c specs
proof
  fix ob :: Orchestrator and n
  assume "\<not> or_stopping ob"
  then show "\<not> or_stopping (startNode u c False (specs (pn_ID n)) n ob)" by (simp add: startNode_def Let_def)
next
  fix ob :: Orchestrator and i
  assume "\<not> or_stopping ob"
  then show "\<not> or_stopping (stopNode i ob)" by (simp add: stopNode_def stop_begin_def node_exited_def Let_def split: option.split)
qed (auto simp: stopNode_lookup startNode_lookup)

section \<open>Properties\<close>

lemma filter_fst: "set (map fst (filter (\<lambda>(i, h). P i) xs)) = {i \<in> fst ` set xs. P i}"
  by (induction xs) auto

lemma filter_snd: "set (map snd (filter (\<lambda>(i, n). P i) xs)) = snd ` {(i, n) \<in> set xs. P i}"
  by (auto simp: case_prod_beta')

lemma diffNodes_sets:
  assumes "range_order rng1" and "range_order rng2" and "diffNodes rng1 rng2 current (mbuild pn_ID (\<lambda>n. n) ns) = (remove, start)"
  shows "set remove = {i. map_of current i \<noteq> None \<and> i \<notin> pn_ID ` set ns}"
    and "pn_ID ` set start = {i. map_of current i = None \<and> i \<in> pn_ID ` set ns}"
proof -
  let ?w = "mbuild pn_ID (\<lambda>n. n) ns"
  have k: "pn_ID n = i" if "(i, n) \<in> set ?w" for i n
  proof -
    have "distinct (map fst ?w)" using wf_mbuild unfolding wf_map_def .
    then have "map_of ?w i = Some n" using that by simp
    then have "(i, n) \<in> set (rev (map (\<lambda>n. (pn_ID n, n)) ns))" unfolding map_of_mbuild by (rule map_of_SomeD)
    then show ?thesis by auto
  qed
  have r: "set remove = {i \<in> fst ` set current. i \<notin> fst ` set ?w}"
    using assms(3) range_order_set [OF assms(1), of current] filter_fst [of "\<lambda>i. \<not> mhas ?w i" "rng1 current"]
    by (simp add: diffNodes_def mhas_iff)
  have s: "set start = snd ` {(i, n) \<in> set ?w. i \<notin> fst ` set current}"
    using assms(3) range_order_set [OF assms(2), of ?w] filter_snd [of "\<lambda>i. \<not> mhas current i" "rng2 ?w"]
    by (simp add: diffNodes_def mhas_iff)
  have "pn_ID ` set start = {i \<in> fst ` set ?w. i \<notin> fst ` set current}"
    unfolding s using k by force
  then show "set remove = {i. map_of current i \<noteq> None \<and> i \<notin> pn_ID ` set ns}"
    and "pn_ID ` set start = {i. map_of current i = None \<and> i \<in> pn_ID ` set ns}"
    using r by (auto simp: dom_mbuild map_of_eq_None_iff)
qed

text \<open>
  C26. After a discovery that got an answer, exactly the nodes of the answer run, in whatever order the
  maps were visited and whether or not their specifications could be fetched; and a node that was
  running and is still wanted keeps its handle: it is not restarted.
\<close>

theorem rediscover_converges:
  assumes "\<not> or_stopping ob" and "range_order rng1" and "range_order rng2"
  shows "fst ` set (or_nodes (rediscover u c rng1 rng2 False (Some ns) specs ob)) = pn_ID ` set ns \<and>
    (\<forall>i \<in> pn_ID ` set ns. map_of (or_nodes ob) i \<noteq> None \<longrightarrow>
       map_of (or_nodes (rediscover u c rng1 rng2 False (Some ns) specs ob)) i = map_of (or_nodes ob) i)"
proof -
  obtain remove start where d: "diffNodes rng1 rng2 (or_nodes ob) (mbuild pn_ID (\<lambda>n. n) ns) = (remove, start)" by fastforce
  note D = diffNodes_sets [OF assms(2,3) d]
  have r: "rediscover u c rng1 rng2 False (Some ns) specs ob =
      fold (\<lambda>node. startNode u c False (specs (pn_ID node)) node) start (fold stopNode remove ob)"
    by (simp add: rediscover_def Let_def d)
  have "map_of (or_nodes (rediscover u c rng1 rng2 False (Some ns) specs ob)) i \<noteq> None \<longleftrightarrow> i \<in> pn_ID ` set ns" for i
    using nodes.converges(1) [OF assms(1), of u c specs start remove i] unfolding r D by blast
  then have "fst ` set (or_nodes (rediscover u c rng1 rng2 False (Some ns) specs ob)) = pn_ID ` set ns"
    by (simp add: map_of_eq_None_iff) blast
  moreover have "map_of (or_nodes (rediscover u c rng1 rng2 False (Some ns) specs ob)) i = map_of (or_nodes ob) i"
    if "i \<in> pn_ID ` set ns" "map_of (or_nodes ob) i \<noteq> None" for i
    unfolding r by (rule nodes.converges(2) [OF assms(1)]) (use that D in auto)
  ultimately show ?thesis by blast
qed

definition demo_orchestrator :: Orchestrator where
  "demo_orchestrator = \<lparr>or_nodes = [], or_statuses = [], or_stopping = False, or_next = 0, or_running = [], or_cursor = 0,
     or_connected = True, or_pushInterval = 60, or_pullInterval = 60, or_heartbeatInterval = 15000000000\<rparr>"

definition demo_node :: "int \<Rightarrow> platform_Node" where
  "demo_node i = \<lparr>pn_ID = i, pn_Type = ''vless'', pn_Name = ''n''\<rparr>"

theorem rediscover_converges_witness:
  "fst ` set (or_nodes (rediscover (\<lambda>_. None) ''singbox'' rev rev False (Some [demo_node 2, demo_node 3]) (\<lambda>_. None)
     (startNode (\<lambda>_. None) ''singbox'' False None (demo_node 1) demo_orchestrator))) = {2, 3}"
proof -
  have "\<not> or_stopping (startNode (\<lambda>_. None) ''singbox'' False None (demo_node 1) demo_orchestrator)" by code_simp
  from rediscover_converges [OF this range_order_rev range_order_rev, of _ _ "[demo_node 2, demo_node 3]"]
  show ?thesis by (simp add: demo_node_def)
qed

text \<open>
  The orchestrator with its goroutines. A step is one critical section of any of them: a start (whatever
  specification it fetched before it took the mutex), the part of \<open>stopNode\<close> or \<open>stopAll\<close> that takes handles,
  the end of a service, a status registration, a change, a cursor. \<open>ow_owner\<close> records the node each
  service was started for, \<open>ow_told\<close> the services whose handle a stop has taken: it cancels them and waits.
\<close>

record or_world =
  ow_ob :: Orchestrator
  ow_told :: "nat list"
  ow_owner :: "nat \<Rightarrow> int"

inductive or_step :: "or_world \<Rightarrow> or_world \<Rightarrow> bool" where
  or_start: "or_step w (w\<lparr>ow_ob := startNode u c cancelled sp n (ow_ob w),
     ow_owner := (ow_owner w)(or_next (ow_ob w) := pn_ID n)\<rparr>)"
| or_stop: "stop_begin i (ow_ob w) = (Some h, ob') \<Longrightarrow> or_step w (w\<lparr>ow_ob := ob', ow_told := nh_done h # ow_told w\<rparr>)"
| or_stopAll: "stopAll_begin (ow_ob w) = (handles, ob') \<Longrightarrow>
     or_step w (w\<lparr>ow_ob := ob', ow_told := map (nh_done \<circ> snd) handles @ ow_told w\<rparr>)"
| or_exit: "d \<in> set (or_running (ow_ob w)) \<Longrightarrow> or_step w (w\<lparr>ow_ob := node_exited (ow_owner w d) d (ow_ob w)\<rparr>)"
| or_register: "or_step w (w\<lparr>ow_ob := register_status i (ow_ob w)\<rparr>)"
| or_change: "or_step w (w\<lparr>ow_ob := fst (handleChange t i (ow_ob w))\<rparr>)"
| or_cursor: "or_step w (w\<lparr>ow_ob := snd (advanceCursor cand (ow_ob w))\<rparr>)"

inductive or_run :: "or_world \<Rightarrow> bool" where
  or_new: "or_nodes (ow_ob w) = [] \<Longrightarrow> or_running (ow_ob w) = [] \<Longrightarrow> ow_told w = [] \<Longrightarrow> or_run w"
| or_more: "or_run w \<Longrightarrow> or_step w w' \<Longrightarrow> or_run w'"

text \<open>The service of a registered handle runs, for its node and untold; every other service has been told to stop.\<close>

definition handles_ok :: "or_world \<Rightarrow> bool" where
  "handles_ok w \<longleftrightarrow> (\<forall>i h. map_of (or_nodes (ow_ob w)) i = Some h \<longrightarrow>
     nh_done h \<in> set (or_running (ow_ob w)) \<and> ow_owner w (nh_done h) = i \<and> nh_done h \<notin> set (ow_told w))"

definition services_ok :: "or_world \<Rightarrow> bool" where
  "services_ok w \<longleftrightarrow> (\<forall>d \<in> set (or_running (ow_ob w)). d \<in> set (ow_told w) \<or>
     (\<exists>h. map_of (or_nodes (ow_ob w)) (ow_owner w d) = Some h \<and> nh_done h = d))"

definition or_inv :: "or_world \<Rightarrow> bool" where
  "or_inv w \<longleftrightarrow> wf_map (or_nodes (ow_ob w)) \<and> handles_ok w \<and> services_ok w \<and>
     (\<forall>d \<in> set (or_running (ow_ob w)) \<union> set (ow_told w). d < or_next (ow_ob w)) \<and>
     (or_stopping (ow_ob w) \<longrightarrow> or_nodes (ow_ob w) = [])"

lemma or_inv_start:
  assumes "or_inv w"
  shows "or_inv (w\<lparr>ow_ob := startNode u c cancelled sp n (ow_ob w), ow_owner := (ow_owner w)(or_next (ow_ob w) := pn_ID n)\<rparr>)"
proof -
  have lt: "d \<noteq> or_next (ow_ob w)" if "d \<in> set (or_running (ow_ob w)) \<union> set (ow_told w)" for d
    using assms that by (auto simp: or_inv_def)
  have old: "nh_done h \<in> set (or_running (ow_ob w)) \<and> ow_owner w (nh_done h) = i \<and> nh_done h \<notin> set (ow_told w)"
    if "map_of (or_nodes (ow_ob w)) i = Some h" for i h
    using assms that by (simp add: or_inv_def handles_ok_def)
  show ?thesis
  proof (cases "cancelled \<or> or_stopping (ow_ob w) \<or> mhas (or_nodes (ow_ob w)) (pn_ID n)")
    case True
    then have "startNode u c cancelled sp n (ow_ob w) = ow_ob w" by (auto simp: startNode_def)
    then show ?thesis using assms lt old by (auto simp: or_inv_def handles_ok_def services_ok_def)
  next
    case False
    then have none: "map_of (or_nodes (ow_ob w)) (pn_ID n) = None" by (simp add: mhas_def)
    let ?d = "or_next (ow_ob w)"
    define h where "h = \<lparr>nh_done = ?d, nh_node = n, nh_kernelType = (case sp of None \<Rightarrow> c | Some s \<Rightarrow> node_kernel u c s)\<rparr>"
    define ob' where "ob' = (ow_ob w)\<lparr>or_nodes := mput (pn_ID n) h (or_nodes (ow_ob w)),
      or_running := or_running (ow_ob w) @ [?d], or_next := Suc ?d\<rparr>"
    let ?w = "w\<lparr>ow_ob := ob', ow_owner := (ow_owner w)(?d := pn_ID n)\<rparr>"
    have ob': "startNode u c cancelled sp n (ow_ob w) = ob'"
      using False by (simp add: startNode_def ob'_def h_def)
    have "?d \<notin> set (ow_told w)" and hd: "nh_done h = ?d" using lt [of ?d] by (auto simp: h_def)
    moreover have "nh_done k \<noteq> ?d" if "map_of (or_nodes (ow_ob w)) i = Some k" for i k
      using lt [of "nh_done k"] old [OF that] by blast
    ultimately have "handles_ok ?w"
      using old by (auto simp: handles_ok_def ob'_def map_of_mput)
    moreover have "services_ok ?w"
      unfolding services_ok_def
    proof
      fix d assume d: "d \<in> set (or_running (ow_ob ?w))"
      show "d \<in> set (ow_told ?w) \<or> (\<exists>k. map_of (or_nodes (ow_ob ?w)) (ow_owner ?w d) = Some k \<and> nh_done k = d)"
      proof (cases "d = ?d")
        case True
        then show ?thesis using hd by (simp add: ob'_def map_of_mput)
      next
        case False
        then have "d \<in> set (ow_told w) \<or> (\<exists>k. map_of (or_nodes (ow_ob w)) (ow_owner w d) = Some k \<and> nh_done k = d)"
          using assms d by (auto simp: or_inv_def services_ok_def ob'_def)
        then show ?thesis using False none by (auto simp: ob'_def map_of_mput)
      qed
    qed
    ultimately show ?thesis
      unfolding ob' using assms False by (auto simp: or_inv_def ob'_def less_Suc_eq wf_mput)
  qed
qed

lemma or_inv_stop:
  assumes "or_inv w" and "stop_begin i (ow_ob w) = (Some h, ob')"
  shows "or_inv (w\<lparr>ow_ob := ob', ow_told := nh_done h # ow_told w\<rparr>)"
proof -
  have h: "map_of (or_nodes (ow_ob w)) i = Some h"
    and ob': "ob' = (ow_ob w)\<lparr>or_nodes := mdel i (or_nodes (ow_ob w)), or_statuses := mdel i (or_statuses (ow_ob w))\<rparr>"
    using assms(2) by (auto simp: stop_begin_def split: option.splits)
  have own: "ow_owner w (nh_done k) = j \<and> nh_done k \<in> set (or_running (ow_ob w)) \<and> nh_done k \<notin> set (ow_told w)"
    if "map_of (or_nodes (ow_ob w)) j = Some k" for j k
    using assms(1) that by (simp add: or_inv_def handles_ok_def)
  have "nh_done k \<noteq> nh_done h" if "map_of (or_nodes (ow_ob w)) j = Some k" "j \<noteq> i" for j k
    using own [OF h] own [OF that(1)] that(2) by auto
  then have "handles_ok (w\<lparr>ow_ob := ob', ow_told := nh_done h # ow_told w\<rparr>)"
    using own by (auto simp: handles_ok_def ob' map_of_mdel split: if_splits)
  moreover have "services_ok (w\<lparr>ow_ob := ob', ow_told := nh_done h # ow_told w\<rparr>)"
    using assms(1) h by (force simp: or_inv_def services_ok_def ob' map_of_mdel)
  ultimately show ?thesis
    using assms(1) own [OF h] by (auto simp: or_inv_def ob' wf_mdel)
qed

lemma or_inv_stopAll:
  assumes "or_inv w" and "stopAll_begin (ow_ob w) = (handles, ob')"
  shows "or_inv (w\<lparr>ow_ob := ob', ow_told := map (nh_done \<circ> snd) handles @ ow_told w\<rparr>)"
proof -
  have ob': "or_nodes ob' = []" "or_running ob' = or_running (ow_ob w)" "or_next ob' = or_next (ow_ob w)" "handles = or_nodes (ow_ob w)"
    using assms(2) by (auto simp: stopAll_begin_def)
  have m: "map_of (or_nodes (ow_ob w)) i = Some h \<longleftrightarrow> (i, h) \<in> set (or_nodes (ow_ob w))" for i h
    using assms(1) by (simp add: or_inv_def wf_map_of_iff)
  have "services_ok (w\<lparr>ow_ob := ob', ow_told := map (nh_done \<circ> snd) handles @ ow_told w\<rparr>)"
    using assms(1) unfolding or_inv_def services_ok_def m by (force simp: ob')
  moreover have "nh_done (snd x) < or_next (ow_ob w)" if "x \<in> set (or_nodes (ow_ob w))" for x
    using assms(1) m [of "fst x" "snd x"] that by (simp add: or_inv_def handles_ok_def)
  ultimately show ?thesis using assms(1) by (auto simp: or_inv_def ob' handles_ok_def)
qed

lemma or_inv_exit:
  assumes "or_inv w"
  shows "or_inv (w\<lparr>ow_ob := node_exited (ow_owner w d) d (ow_ob w)\<rparr>)"
proof -
  let ?ob = "ow_ob w" and ?ob' = "node_exited (ow_owner w d) d (ow_ob w)"
  have own: "ow_owner w (nh_done k) = j \<and> nh_done k \<in> set (or_running ?ob) \<and> nh_done k \<notin> set (ow_told w)"
    if "map_of (or_nodes ?ob) j = Some k" for j k
    using assms that by (simp add: or_inv_def handles_ok_def)
  have run: "set (or_running ?ob') = set (or_running ?ob) - {d}" "or_next ?ob' = or_next ?ob" "or_stopping ?ob' = or_stopping ?ob"
    by (auto simp: node_exited_def Let_def split: option.split)
  have look: "map_of (or_nodes ?ob') j =
      (case map_of (or_nodes ?ob) j of Some k \<Rightarrow> if nh_done k = d then None else Some k | None \<Rightarrow> None)" for j
  proof (cases "map_of (or_nodes ?ob) j")
    case None
    then show ?thesis by (auto simp: node_exited_def Let_def map_of_mdel split: option.split)
  next
    case (Some k)
    show ?thesis
    proof (cases "nh_done k = d")
      case True
      then have "map_of (or_nodes ?ob) (ow_owner w d) = Some k" "ow_owner w d = j" using own [OF Some] Some by auto
      then show ?thesis using True Some by (simp add: node_exited_def Let_def map_of_mdel)
    next
      case False
      then have "map_of (or_nodes ?ob') j = map_of (or_nodes ?ob) j"
        using Some by (cases "map_of (or_nodes ?ob) (ow_owner w d)") (auto simp: node_exited_def Let_def map_of_mdel)
      then show ?thesis using False Some by simp
    qed
  qed
  have "handles_ok (w\<lparr>ow_ob := ?ob'\<rparr>)" using own by (auto simp: handles_ok_def look run split: option.splits if_splits)
  moreover have "services_ok (w\<lparr>ow_ob := ?ob'\<rparr>)"
    using assms by (force simp: or_inv_def services_ok_def look run)
  moreover have "wf_map (or_nodes ?ob')" "or_nodes ?ob = [] \<longrightarrow> or_nodes ?ob' = []"
    using assms by (auto simp: or_inv_def node_exited_def Let_def wf_mdel split: option.split)
  ultimately show ?thesis using assms by (auto simp: or_inv_def run)
qed

lemma or_inv_same:
  assumes "or_inv w" and "or_nodes ob' = or_nodes (ow_ob w)" and "or_running ob' = or_running (ow_ob w)"
    and "or_next ob' = or_next (ow_ob w)" and "or_stopping ob' = or_stopping (ow_ob w)"
  shows "or_inv (w\<lparr>ow_ob := ob'\<rparr>)"
  using assms by (simp add: or_inv_def handles_ok_def services_ok_def)

lemma notify_nodes [simp]:
  "or_nodes (notifyNode i ch ob) = or_nodes ob" "or_running (notifyNode i ch ob) = or_running ob" "or_next (notifyNode i ch ob) = or_next ob"
  "or_nodes (broadcast ch ob) = or_nodes ob" "or_running (broadcast ch ob) = or_running ob" "or_next (broadcast ch ob) = or_next ob"
  "or_stopping (notifyNode i ch ob) = or_stopping ob" "or_stopping (broadcast ch ob) = or_stopping ob"
  by (simp_all add: notifyNode_def broadcast_def split: option.split)

lemma handleChange_nodes:
  "or_nodes (fst (handleChange t i ob)) = or_nodes ob" "or_running (fst (handleChange t i ob)) = or_running ob"
  "or_next (fst (handleChange t i ob)) = or_next ob" "or_stopping (fst (handleChange t i ob)) = or_stopping ob"
  unfolding handleChange_def Let_def by (simp_all only: if_distrib [of fst] if_distrib [of or_nodes] if_distrib [of or_running]
      if_distrib [of or_next] if_distrib [of or_stopping] fst_conv notify_nodes if_cancel)

lemma or_step_inv:
  assumes "or_step w w'" and "or_inv w"
  shows "or_inv w'"
  using assms(1)
proof cases
  case (or_register i)
  then show ?thesis using or_inv_same [OF assms(2)] by (simp add: register_status_def)
next
  case (or_change t i)
  then show ?thesis using or_inv_same [OF assms(2)] handleChange_nodes by simp
next
  case (or_cursor cand)
  then show ?thesis using or_inv_same [OF assms(2)] by (simp add: advanceCursor_def split: option.split)
qed (use assms(2) or_inv_start or_inv_stop or_inv_stopAll or_inv_exit in blast)+

lemma or_run_inv: "or_run w \<Longrightarrow> or_inv w"
proof (induction rule: or_run.induct)
  case (or_new w)
  then show ?case by (simp add: or_inv_def handles_ok_def services_ok_def wf_map_def)
qed (rule or_step_inv)

text \<open>
  C8. A node has at most one service that has not been told to stop. Over any interleaving of the critical
  sections of discoveries, restarts, stops, service ends and shutdown: every service that runs is that
  of the handle registered for its node, or a stop has taken its handle, cancels it and waits for it; so
  two services of one node of which neither was told to stop are the same; every registered handle has
  its service; and once shutdown has begun every service that still runs has been told to stop and none
  is started. (A service told to stop may still run when its successor starts, and shutdown does not
  wait for one that another stop is waiting for: \<open>restart_overlaps\<close> and \<open>shutdown_leaves_running\<close>.)
\<close>

theorem one_service_per_node:
  assumes "or_run w"
  shows "(\<forall>d \<in> set (or_running (ow_ob w)). d \<in> set (ow_told w) \<or>
      (\<exists>h. map_of (or_nodes (ow_ob w)) (ow_owner w d) = Some h \<and> nh_done h = d)) \<and>
    (\<forall>d \<in> set (or_running (ow_ob w)) - set (ow_told w). \<forall>e \<in> set (or_running (ow_ob w)) - set (ow_told w).
      ow_owner w d = ow_owner w e \<longrightarrow> d = e) \<and>
    (\<forall>i h. map_of (or_nodes (ow_ob w)) i = Some h \<longrightarrow>
      nh_done h \<in> set (or_running (ow_ob w)) \<and> ow_owner w (nh_done h) = i) \<and>
    (or_stopping (ow_ob w) \<longrightarrow> set (or_running (ow_ob w)) \<subseteq> set (ow_told w) \<and>
      startNode u c cancelled sp n (ow_ob w) = ow_ob w)"
proof -
  have inv: "or_inv w" by (rule or_run_inv [OF assms])
  have run: "\<exists>h. map_of (or_nodes (ow_ob w)) (ow_owner w d) = Some h \<and> nh_done h = d"
    if "d \<in> set (or_running (ow_ob w))" "d \<notin> set (ow_told w)" for d
    using inv that unfolding or_inv_def services_ok_def by blast
  have "d = e" if "d \<in> set (or_running (ow_ob w)) - set (ow_told w)" "e \<in> set (or_running (ow_ob w)) - set (ow_told w)"
    "ow_owner w d = ow_owner w e" for d e
    using run that by (metis DiffD1 DiffD2 option.inject)
  moreover have "set (or_running (ow_ob w)) \<subseteq> set (ow_told w)" "startNode u c cancelled sp n (ow_ob w) = ow_ob w"
    if "or_stopping (ow_ob w)"
    using inv that by (auto simp: or_inv_def services_ok_def startNode_def)
  ultimately show ?thesis using run inv unfolding or_inv_def handles_ok_def by blast
qed

definition demo_world :: or_world where
  "demo_world = \<lparr>ow_ob = demo_orchestrator, ow_told = [], ow_owner = (\<lambda>_. 0)\<rparr>"

definition demo_begin :: "int \<Rightarrow> or_world \<Rightarrow> or_world" where
  "demo_begin i w = w\<lparr>ow_ob := startNode (\<lambda>_. None) ''singbox'' False None (demo_node i) (ow_ob w),
     ow_owner := (ow_owner w)(or_next (ow_ob w) := pn_ID (demo_node i))\<rparr>"

definition demo_halt :: "int \<Rightarrow> or_world \<Rightarrow> or_world" where
  "demo_halt i w = (case stop_begin i (ow_ob w) of
     (None, ob') \<Rightarrow> w | (Some h, ob') \<Rightarrow> w\<lparr>ow_ob := ob', ow_told := nh_done h # ow_told w\<rparr>)"

lemma demo_steps: "or_run demo_world" "or_run w \<Longrightarrow> or_run (demo_begin i w)" "or_run w \<Longrightarrow> or_run (demo_halt i w)"
proof -
  show "or_run demo_world" by (rule or_new) (simp_all add: demo_world_def demo_orchestrator_def)
  show "or_run (demo_begin i w)" if "or_run w"
    unfolding demo_begin_def by (rule or_more [OF that or_start])
  show "or_run (demo_halt i w)" if "or_run w"
    using that or_more [OF that or_stop] by (auto simp: demo_halt_def split: prod.split option.split)
qed

text \<open>
  While \<open>stopNode\<close> waits, another discovery can start the node again: two services of one node run. And
  a shutdown that begins then has no handle of the old service and returns while it still runs.
\<close>

lemma restart_overlaps:
  "(let w = demo_begin 7 (demo_halt 7 (demo_begin 7 demo_world)) in
     or_running (ow_ob w) = [0, 1] \<and> ow_owner w 0 = 7 \<and> ow_owner w 1 = 7 \<and> ow_told w = [0])"
  by code_simp

lemma shutdown_leaves_running:
  "or_running (stopAll (ow_ob (demo_halt 7 (demo_begin 7 demo_world)))) = [0]"
  by code_simp

theorem one_service_per_node_witness:
  "or_running (ow_ob (demo_begin 7 (demo_halt 7 (demo_begin 7 demo_world)))) = [0, 1] \<and>
   (\<exists>h. map_of (or_nodes (ow_ob (demo_begin 7 (demo_halt 7 (demo_begin 7 demo_world))))) 7 = Some h \<and> nh_done h = 1)"
proof -
  let ?w = "demo_begin 7 (demo_halt 7 (demo_begin 7 demo_world))"
  have "or_run ?w" by (intro demo_steps)
  moreover have "or_running (ow_ob ?w) = [0, 1]" "ow_told ?w = [0]" "ow_owner ?w 1 = 7" by code_simp+
  ultimately show ?thesis using one_service_per_node [of ?w] by auto
qed

section \<open>The cursor\<close>

definition cursor_value :: "string \<Rightarrow> int option" where
  "cursor_value cand = (case ParseInt (TrimSpace cand) of Some v \<Rightarrow> if 0 \<le> v then Some v else None | None \<Rightarrow> None)"

lemma advanceCursor_max:
  "or_cursor (snd (advanceCursor cand ob)) = (case cursor_value cand of None \<Rightarrow> or_cursor ob | Some v \<Rightarrow> max (or_cursor ob) v)"
  "fst (advanceCursor cand ob) \<longleftrightarrow> cursor_value cand \<noteq> None"
  by (auto simp: advanceCursor_def cursor_value_def split: option.split)

text \<open>
  The cursor never goes back and loses no change: after any sequence of cursors from handshakes,
  polls and stream events, in any order, it is the largest valid one seen; an invalid one is refused
  and changes nothing; and the text sent in the next request denotes exactly this number.
\<close>

lemma cursor_is_largest:
  assumes "0 \<le> or_cursor ob" and "or_cursor ob < 2 ^ 63"
  shows "or_cursor (fold (\<lambda>cand ob. snd (advanceCursor cand ob)) cands ob) =
      Max (insert (or_cursor ob) {v. \<exists>cand \<in> set cands. cursor_value cand = Some v}) \<and>
    cursor_value (currentCursor (fold (\<lambda>cand ob. snd (advanceCursor cand ob)) cands ob)) =
      Some (or_cursor (fold (\<lambda>cand ob. snd (advanceCursor cand ob)) cands ob))"
proof -
  have fin: "finite {v. \<exists>cand \<in> set xs. cursor_value cand = Some v}" for xs
    by (rule finite_subset [of _ "(\<lambda>c. the (cursor_value c)) ` set xs"]) force+
  have m: "or_cursor (fold (\<lambda>cand ob. snd (advanceCursor cand ob)) xs ob) =
      Max (insert (or_cursor ob) {v. \<exists>cand \<in> set xs. cursor_value cand = Some v})" for xs and ob :: Orchestrator
  proof (induction xs arbitrary: ob)
    case (Cons x xs)
    let ?V = "{v. \<exists>cand \<in> set xs. cursor_value cand = Some v}"
    show ?case
    proof (cases "cursor_value x")
      case None
      then have "{v. \<exists>cand \<in> set (x # xs). cursor_value cand = Some v} = ?V" by auto
      then show ?thesis using Cons.IH None by (simp add: advanceCursor_max)
    next
      case (Some v)
      then have e: "{v. \<exists>cand \<in> set (x # xs). cursor_value cand = Some v} = insert v ?V" by auto
      have "Max (insert (max (or_cursor ob) v) ?V) = Max (insert (or_cursor ob) (insert v ?V))"
        using fin [of xs] by (cases "?V = {}") (simp_all add: max.assoc)
      then show ?thesis unfolding e using Cons.IH Some by (simp add: advanceCursor_max)
    qed
  qed simp
  let ?c = "or_cursor (fold (\<lambda>cand ob. snd (advanceCursor cand ob)) cands ob)"
  have "?c \<in> insert (or_cursor ob) {v. \<exists>cand \<in> set cands. cursor_value cand = Some v}"
    unfolding m using fin by (intro Max_in) simp_all
  moreover have "in_i64 v \<and> 0 \<le> v" if "cursor_value cand = Some v" for cand v
    using that ParseInt_in_i64 by (auto simp: cursor_value_def split: option.splits if_splits)
  ultimately have c: "in_i64 ?c" "0 \<le> ?c" using assms by (auto simp: in_i64_def)
  have "FormatInt ?c = digits_of (nat ?c)" using c by (simp add: FormatInt_def)
  then have "cursor_value (FormatInt ?c) = Some ?c"
    using c ParseInt_FormatInt [OF c(1)] by (simp add: cursor_value_def TrimSpace_digits_of)
  then show ?thesis using m by (simp add: currentCursor_def)
qed

theorem cursor_is_largest_witness:
  "or_cursor (fold (\<lambda>cand ob. snd (advanceCursor cand ob)) [''12'', ''x'', '' 40 '', ''7''] demo_orchestrator) = 40"
proof -
  have "cursor_value ''12'' = Some 12" "cursor_value ''x'' = None" "cursor_value '' 40 '' = Some 40" "cursor_value ''7'' = Some 7"
    by code_simp+
  then have "{v. \<exists>cand \<in> set [''12'', ''x'', '' 40 '', ''7'']. cursor_value cand = Some v} = {12, 40, 7}" by auto
  then show ?thesis
    using cursor_is_largest [of demo_orchestrator "[''12'', ''x'', '' 40 '', ''7'']"] by (simp add: demo_orchestrator_def)
qed

section \<open>Kernel names\<close>

lemma alias_normal: "normal_kernel ''sing-box'' = ''singbox''"
  by code_simp

lemma normal_kernel_alias:
  assumes "ToLower (TrimSpace t) = ''sing-box''"
  shows "normal_kernel t = ''singbox''"
proof -
  have "ToLower (TrimSpace ''sing-box'') = ''sing-box''" by code_simp
  then show ?thesis using assms alias_normal by (simp add: normal_kernel_def)
qed

text \<open>
  A node whose specification names its kernel \<open>sing-box\<close> and uses a transport only Xray has is
  never served. The orchestrator does not know this spelling, so it starts the node with it instead of
  with Xray, and sees no kernel change on later updates; the control plane does know it, wants Xray,
  and refuses every snapshot of the node.
\<close>

lemma kernel_alias_never_served:
  assumes "ToLower (TrimSpace (ps_KernelType spec)) = ''sing-box''"
    and "ToLower (TrimSpace (NodeSpec_Transport unmarshal spec)) \<in> set singboxUnsupportedTransports"
    and "\<not> or_stopping ob" and "map_of (or_nodes ob) (pn_ID node) = None"
    and "kc_Type (dp_kcfg p) = node_kernel unmarshal configured spec" and "dp_nodeID p = ps_NodeID spec"
  shows "fst (reconcile_decide unmarshal configured False (Some spec) (pn_ID node)
      (startNode unmarshal configured False (Some spec) node ob)) = None \<and>
    snd (node_snapshot msg unmarshal shape readFile parseDoc (Some spec) users p) = Inl (WaitForKernel ''xray'' ''singbox'')"
proof -
  have k: "node_kernel unmarshal configured spec = ''sing-box''"
    using assms(1) by (simp add: node_kernel_def ResolveKernelForTransport_def Let_def)
  have a: "actual_kernel (dp_kcfg p) = ''singbox''"
    using assms(5) by (simp add: k actual_kernel_def alias_normal)
  have "desired_kernel unmarshal (dp_kcfg p) spec = ''xray''"
    using assms(2) normal_kernel_alias [OF assms(1)] by (simp add: desired_kernel_def ResolveKernelForTransport_def)
  then have "snd (node_snapshot msg unmarshal shape readFile parseDoc (Some spec) users p) = Inl (WaitForKernel ''xray'' ''singbox'')"
    using assms(6) by (simp add: node_snapshot_def a)
  moreover have "fst (reconcile_decide unmarshal configured False (Some spec) (pn_ID node)
      (startNode unmarshal configured False (Some spec) node ob)) = None"
    using assms(4) by (simp add: reconcile_decide_def startNode_lookup [OF assms(3)])
  ultimately show ?thesis by blast
qed

definition demo_alias_spec :: PlatformNodeSpec where
  "demo_alias_spec = demo_platform_spec\<lparr>ps_KernelType := ''sing-box''\<rparr>"

theorem kernel_alias_never_served_witness:
  "snd (node_snapshot (\<lambda>_. []) (\<lambda>_. Some [(''transport'', AnyString ''xhttp'')]) (\<lambda>_. None) (\<lambda>_. FileMissing) (\<lambda>_ _. None)
     (Some demo_alias_spec) (Some []) ((NewDevicePlatformControlPlane 5 (demo_kcfg ''sing-box''))\<lparr>dp_nodeID := ps_NodeID demo_alias_spec\<rparr>)) =
     Inl (WaitForKernel ''xray'' ''singbox'')"
proof -
  let ?u = "\<lambda>_. Some [(''transport'', AnyString ''xhttp'')]"
  have t: "NodeSpec_Transport ?u demo_alias_spec = ''xhttp''" by (simp add: NodeSpec_Transport_def)
  have x: "ToLower (TrimSpace ''xhttp'') \<in> set singboxUnsupportedTransports" "ToLower (TrimSpace ''sing-box'') = ''sing-box''" by code_simp+
  have k: "ps_KernelType demo_alias_spec = ''sing-box''" by (simp add: demo_alias_spec_def)
  have "node_kernel ?u ''singbox'' demo_alias_spec = ''sing-box''"
    by (simp add: node_kernel_def ResolveKernelForTransport_def Let_def k x)
  then show ?thesis
    using kernel_alias_never_served [of demo_alias_spec ?u demo_orchestrator "demo_node 5"
        "(NewDevicePlatformControlPlane 5 (demo_kcfg ''sing-box''))\<lparr>dp_nodeID := ps_NodeID demo_alias_spec\<rparr>" "''singbox''"
        "\<lambda>_. []" "\<lambda>_. None" "\<lambda>_. FileMissing" "\<lambda>_ _. None" "Some []"] x
    by (simp add: t k demo_orchestrator_def demo_kcfg_def NewDevicePlatformControlPlane_def)
qed

end
