(* ===== verification/ConnTracker.thy ===== *)
theory ConnTracker
  imports GoStrings
begin

text \<open>
  The connection tracker of the sing-box kernel (\<^verbatim>\<open>internal/kernel/singbox/conntracker.go\<close>): per-user
  traffic counters and reference-counted source IPs, the device limit gate, connection references and
  connection identifiers.

  A \<^verbatim>\<open>*userStats\<close> is never replaced or removed from the map once it is there, so the pointer a
  connection holds is the ID of its user (\<open>None\<close> is nil). A connection of the kernel is a number.
  Times are seconds, the zero time is \<open>None\<close>. Rate limiting (\<^verbatim>\<open>golang.org/x/time/rate\<close>) only delays
  a transfer: the model has the number of bytes each transfer moved.
\<close>

section \<open>State\<close>

record userStats =
  us_upload :: int
  us_download :: int
  us_ips :: "(string, int) gomap"
  us_connCount :: int

definition userStats_new :: userStats where
  "userStats_new = \<lparr>us_upload = 0, us_download = 0, us_ips = [], us_connCount = 0\<rparr>"

record ConnTracker =
  ct_users :: "(int, userStats) gomap"
  ct_uuidMap :: "(string, int) gomap"
  ct_connMap :: "(string, nat) gomap"
  ct_idCounter :: int
  ct_globalDevices :: "(int, string list) gomap"
  ct_globalLastUpdate :: "int option"

record trackedConn =
  tc_conn :: nat
  tc_us :: "int option"
  tc_userID :: int
  tc_connID :: string
  tc_sourceIP :: string
  tc_closed :: bool

section \<open>Per-user statistics\<close>

definition addConn :: "string \<Rightarrow> userStats \<Rightarrow> userStats" where
  "addConn sourceIP u =
     u\<lparr>us_connCount := us_connCount u + 1, us_ips := mput sourceIP (mget_or 0 (us_ips u) sourceIP + 1) (us_ips u)\<rparr>"

definition removeConn :: "string \<Rightarrow> userStats \<Rightarrow> userStats" where
  "removeConn sourceIP u =
     (let n = mget_or 0 (us_ips u) sourceIP - 1; ips = mput sourceIP n (us_ips u) in
      u\<lparr>us_connCount := us_connCount u - 1, us_ips := (if n \<le> 0 then mdel sourceIP ips else ips)\<rparr>)"

definition distinctIPs :: "userStats \<Rightarrow> nat" where
  "distinctIPs u = length (us_ips u)"

definition aliveIPList :: "userStats \<Rightarrow> string list option" where
  "aliveIPList u = (if length (us_ips u) = 0 then None else Some (map fst (us_ips u)))"

section \<open>The tracker\<close>

definition NewConnTracker :: ConnTracker where
  "NewConnTracker = \<lparr>ct_users = [], ct_uuidMap = [], ct_connMap = [], ct_idCounter = 0, ct_globalDevices = [],
     ct_globalLastUpdate = None\<rparr>"

definition SetUserMap :: "(string, int) gomap \<Rightarrow> ConnTracker \<Rightarrow> ConnTracker" where
  "SetUserMap m t =
     t\<lparr>ct_uuidMap := m,
       ct_users := fold (\<lambda>(uuid, uid) users. if mhas users uid then users else mput uid userStats_new users) m (ct_users t)\<rparr>"

definition ct_UpdateGlobalDevices :: "int \<Rightarrow> (int, string list) gomap \<Rightarrow> ConnTracker \<Rightarrow> ConnTracker" where
  "ct_UpdateGlobalDevices now users t =
     t\<lparr>ct_globalDevices := mbuild fst (\<lambda>(uid, ips). remdups ips) users, ct_globalLastUpdate := Some now\<rparr>"

definition ct_ClearGlobalDevices :: "ConnTracker \<Rightarrow> ConnTracker" where
  "ct_ClearGlobalDevices t = t\<lparr>ct_globalDevices := [], ct_globalLastUpdate := None\<rparr>"

text \<open>Whether \<open>sourceIP\<close> is among the first \<open>limit\<close> of the sorted list.\<close>

definition among_first :: "int \<Rightarrow> string list \<Rightarrow> string \<Rightarrow> bool" where
  "among_first limit ips sourceIP \<longleftrightarrow> sourceIP \<in> set (take (nat limit) (sort (ips @ [sourceIP])))"

definition checkDeviceGate :: "int \<Rightarrow> userStats option \<Rightarrow> int \<Rightarrow> string \<Rightarrow> int \<Rightarrow> ConnTracker \<Rightarrow> bool" where
  "checkDeviceGate now us userID sourceIP limit t =
     (case us of
        None \<Rightarrow> False
      | Some u \<Rightarrow>
          if limit \<le> 0 then False
          else
            (let localIPs = map fst (us_ips u); localCount = length (us_ips u) in
             if sourceIP \<in> set localIPs then False
             else
               (let globalStale = (case ct_globalLastUpdate t of None \<Rightarrow> True | Some upd \<Rightarrow> 60 < now - upd) in
                case (if globalStale then None else map_of (ct_globalDevices t) userID) of
                  None \<Rightarrow>
                    if int localCount < limit then False else \<not> among_first limit localIPs sourceIP
                | Some globalIPs \<Rightarrow>
                    if sourceIP \<in> set globalIPs then False
                    else
                      (let allIPs = localIPs @ filter (\<lambda>ip. ip \<notin> set localIPs) globalIPs in
                       if int (length allIPs) < limit then False else \<not> among_first limit allIPs sourceIP))))"

section \<open>Connection identifiers\<close>

definition digit36 :: "nat \<Rightarrow> char" where
  "digit36 d = ''0123456789abcdefghijklmnopqrstuvwxyz'' ! d"

function digits36 :: "nat \<Rightarrow> string" where
  "digits36 n = (if n = 0 then [] else digits36 (n div 36) @ [digit36 (n mod 36)])"
  by pat_completeness auto
termination
  by (relation "measure (\<lambda>n. n)") auto

declare digits36.simps [simp del]

text \<open>The loop runs while \<open>n\<close> is positive and fills a buffer of 13 bytes from the end, enough for 63 bits.\<close>

definition formatInt36 :: "int \<Rightarrow> string" where
  "formatInt36 n = (if n = 0 then ''0'' else digits36 (nat n))"

definition nextID :: "ConnTracker \<Rightarrow> string \<times> ConnTracker" where
  "nextID t = (let c = i64 (ct_idCounter t + 1) in (''sb-'' @ formatInt36 c, t\<lparr>ct_idCounter := c\<rparr>))"

section \<open>Connections\<close>

definition user_update :: "int option \<Rightarrow> (userStats \<Rightarrow> userStats) \<Rightarrow> ConnTracker \<Rightarrow> ConnTracker" where
  "user_update us f t =
     (case us of
        None \<Rightarrow> t
      | Some uid \<Rightarrow> (case map_of (ct_users t) uid of None \<Rightarrow> t | Some u \<Rightarrow> t\<lparr>ct_users := mput uid (f u) (ct_users t)\<rparr>))"

text \<open>The user of a UUID: a missing entry reads as ID 0.\<close>

definition lookup_user :: "string \<Rightarrow> ConnTracker \<Rightarrow> int \<times> int option" where
  "lookup_user uuid t =
     (let uid = mget_or 0 (ct_uuidMap t) uuid in (uid, if mhas (ct_users t) uid then Some uid else None))"

definition gate :: "(string \<Rightarrow> int option) option \<Rightarrow> int \<Rightarrow> string \<Rightarrow> string \<Rightarrow> ConnTracker \<Rightarrow> bool" where
  "gate deviceLimit now uuid sourceIP t =
     (case deviceLimit of
        None \<Rightarrow> False
      | Some dlf \<Rightarrow>
          (case dlf uuid of
             None \<Rightarrow> False
           | Some limit \<Rightarrow>
               (let (uid, us) = lookup_user uuid t in
                checkDeviceGate now (Option.bind us (map_of (ct_users t))) uid sourceIP limit t)))"

text \<open>\<open>RoutedConnection\<close> (\<open>tcp\<close>) and \<open>RoutedPacketConnection\<close>; \<open>None\<close>: rejected and closed.\<close>

definition RoutedConnection ::
  "bool \<Rightarrow> (string \<Rightarrow> int option) option \<Rightarrow> int \<Rightarrow> nat \<Rightarrow> string \<Rightarrow> string \<Rightarrow> ConnTracker \<Rightarrow> trackedConn option \<times> ConnTracker" where
  "RoutedConnection tcp deviceLimit now conn uuid sourceIP t =
     (if gate deviceLimit now uuid sourceIP t then (None, t)
      else
        (let (uid, us) = lookup_user uuid t;
             t1 = user_update us (addConn sourceIP) t;
             (connID, t2) = nextID t1;
             t3 = (if tcp then t2\<lparr>ct_connMap := mput connID conn (ct_connMap t2)\<rparr> else t2)
         in (Some \<lparr>tc_conn = conn, tc_us = us, tc_userID = uid, tc_connID = connID, tc_sourceIP = sourceIP, tc_closed = False\<rparr>, t3)))"

definition removeConnRef :: "string \<Rightarrow> ConnTracker \<Rightarrow> ConnTracker" where
  "removeConnRef connID t = t\<lparr>ct_connMap := mdel connID (ct_connMap t)\<rparr>"

definition tracked_Close :: "trackedConn \<Rightarrow> ConnTracker \<Rightarrow> trackedConn \<times> ConnTracker" where
  "tracked_Close c t =
     (if tc_closed c then (c, t)
      else (c\<lparr>tc_closed := True\<rparr>, removeConnRef (tc_connID c) (user_update (tc_us c) (removeConn (tc_sourceIP c)) t)))"

section \<open>Counting\<close>

definition add_upload :: "int \<Rightarrow> userStats \<Rightarrow> userStats" where
  "add_upload n u = u\<lparr>us_upload := i64 (us_upload u + n)\<rparr>"

definition add_download :: "int \<Rightarrow> userStats \<Rightarrow> userStats" where
  "add_download n u = u\<lparr>us_download := i64 (us_download u + n)\<rparr>"

text \<open>Transfers of \<open>n\<close> bytes: through the wrapper, or past it with the counters it handed out.\<close>

definition tracked_Read :: "trackedConn \<Rightarrow> int \<Rightarrow> ConnTracker \<Rightarrow> ConnTracker" where
  "tracked_Read c n t = (if 0 < n then user_update (tc_us c) (add_upload n) t else t)"

definition tracked_Write :: "trackedConn \<Rightarrow> int \<Rightarrow> ConnTracker \<Rightarrow> ConnTracker" where
  "tracked_Write c n t = (if 0 < n then user_update (tc_us c) (add_download n) t else t)"

definition UnwrapReader_count :: "trackedConn \<Rightarrow> int \<Rightarrow> ConnTracker \<Rightarrow> ConnTracker" where
  "UnwrapReader_count c n t = user_update (tc_us c) (add_upload n) t"

definition UnwrapWriter_count :: "trackedConn \<Rightarrow> int \<Rightarrow> ConnTracker \<Rightarrow> ConnTracker" where
  "UnwrapWriter_count c n t = user_update (tc_us c) (add_download n) t"

definition ReadPacket :: "trackedConn \<Rightarrow> int option \<Rightarrow> ConnTracker \<Rightarrow> ConnTracker" where
  "ReadPacket c received t = (case received of None \<Rightarrow> t | Some n \<Rightarrow> user_update (tc_us c) (add_upload n) t)"

definition WritePacket :: "trackedConn \<Rightarrow> int \<Rightarrow> bool \<Rightarrow> ConnTracker \<Rightarrow> ConnTracker" where
  "WritePacket c n ok t = (if ok then user_update (tc_us c) (add_download n) t else t)"

definition UnwrapPacketReader_count :: "trackedConn \<Rightarrow> int \<Rightarrow> ConnTracker \<Rightarrow> ConnTracker" where
  "UnwrapPacketReader_count c n t = user_update (tc_us c) (add_download n) t"

definition UnwrapPacketWriter_count :: "trackedConn \<Rightarrow> int \<Rightarrow> ConnTracker \<Rightarrow> ConnTracker" where
  "UnwrapPacketWriter_count c n t = user_update (tc_us c) (add_upload n) t"

section \<open>Reading the tracker\<close>

definition ct_GetUserTraffic :: "ConnTracker \<Rightarrow> (int, int \<times> int) gomap \<times> (int, string list) gomap \<times> int" where
  "ct_GetUserTraffic t =
     (map (\<lambda>(uid, u). (uid, (us_upload u, us_download u))) (filter (\<lambda>(uid, u). 0 < us_upload u \<or> 0 < us_download u) (ct_users t)),
      List.map_filter (\<lambda>(uid, u). map_option (\<lambda>ips. (uid, ips)) (aliveIPList u)) (ct_users t),
      sum_list (map (\<lambda>(uid, u). us_connCount u) (ct_users t)))"

definition CloseByID :: "string \<Rightarrow> ConnTracker \<Rightarrow> nat option" where
  "CloseByID i t = map_of (ct_connMap t) i"

definition ActiveCount :: "ConnTracker \<Rightarrow> int" where
  "ActiveCount t = sum_list (map (\<lambda>(uid, u). us_connCount u) (ct_users t))"

section \<open>The device gate\<close>

lemma take_sorted_iff:
  fixes x :: "'a :: linorder"
  assumes "sorted xs" and "distinct xs" and "x \<in> set xs"
  shows "x \<in> set (take k xs) \<longleftrightarrow> length (filter (\<lambda>y. y < x) xs) < k"
  using assms
proof (induction xs arbitrary: k)
  case (Cons a xs)
  show ?case
  proof (cases "x = a")
    case True
    then have "filter (\<lambda>y. y < x) (a # xs) = []" using Cons.prems(1) by (auto simp: filter_empty_conv)
    then show ?thesis using True by (cases k) auto
  next
    case False
    then have x: "x \<in> set xs" using Cons.prems(3) by simp
    then have "a < x" using Cons.prems(1) False by (auto simp: less_le)
    then show ?thesis using Cons.IH [of "k - 1"] Cons.prems x False by (cases k) auto
  qed
qed simp

lemma among_first_iff:
  assumes "distinct ips" and "x \<notin> set ips"
  shows "among_first limit ips x \<longleftrightarrow> int (card {y \<in> set ips. y < x}) < limit"
proof -
  have "length (filter (\<lambda>y. y < x) (sort (ips @ [x]))) = card {y \<in> set ips. y < x}"
  proof -
    have "distinct (filter (\<lambda>y. y < x) (sort (ips @ [x])))" using assms by simp
    then have "length (filter (\<lambda>y. y < x) (sort (ips @ [x]))) = card (set (filter (\<lambda>y. y < x) (sort (ips @ [x]))))"
      by (rule distinct_card [symmetric])
    also have "set (filter (\<lambda>y. y < x) (sort (ips @ [x]))) = {y \<in> set ips. y < x}" by auto
    finally show ?thesis .
  qed
  moreover have "x \<in> set (take (nat limit) (sort (ips @ [x]))) \<longleftrightarrow> length (filter (\<lambda>y. y < x) (sort (ips @ [x]))) < nat limit"
    by (rule take_sorted_iff) (use assms in simp_all)
  ultimately show ?thesis by (auto simp: among_first_def)
qed

text \<open>The IPs the gate counts for a user: its own and, while they are fresh, those of the other nodes.\<close>

definition global_known :: "int \<Rightarrow> int \<Rightarrow> ConnTracker \<Rightarrow> string set" where
  "global_known now uid t =
     (case ct_globalLastUpdate t of
        None \<Rightarrow> {}
      | Some upd \<Rightarrow> if 60 < now - upd then {} else set (mget_or [] (ct_globalDevices t) uid))"

definition known_ips :: "int \<Rightarrow> int \<Rightarrow> userStats \<Rightarrow> ConnTracker \<Rightarrow> string set" where
  "known_ips now uid u t = fst ` set (us_ips u) \<union> global_known now uid t"

definition global_wf :: "ConnTracker \<Rightarrow> bool" where
  "global_wf t \<longleftrightarrow> (\<forall>(uid, ips) \<in> set (ct_globalDevices t). distinct ips)"

lemma gate_with_list:
  assumes "distinct ips" and "x \<notin> set ips" and "0 < limit"
  shows "(if int (length ips) < limit then False else \<not> among_first limit ips x) \<longleftrightarrow> limit \<le> int (card {y \<in> set ips. y < x})"
proof -
  have "card {y \<in> set ips. y < x} \<le> card (set ips)" by (rule card_mono) auto
  then have "card {y \<in> set ips. y < x} \<le> length ips" using assms(1) by (simp add: distinct_card)
  then show ?thesis using among_first_iff [OF assms(1,2), of limit] by auto
qed

lemma checkDeviceGate_iff:
  assumes "wf_map (us_ips u)" and "global_wf t"
  shows "checkDeviceGate now (Some u) uid ip limit t \<longleftrightarrow>
    0 < limit \<and> ip \<notin> known_ips now uid u t \<and> limit \<le> int (card {y \<in> known_ips now uid u t. y < ip})"
proof -
  define L where "L = map fst (us_ips u)"
  define G where "G = (if (case ct_globalLastUpdate t of None \<Rightarrow> True | Some upd \<Rightarrow> 60 < now - upd) then None
    else map_of (ct_globalDevices t) uid)"
  have dL: "distinct L" using assms(1) by (simp add: L_def wf_map_def)
  have g: "checkDeviceGate now (Some u) uid ip limit t \<longleftrightarrow>
      0 < limit \<and> ip \<notin> set L \<and> (case G of
        None \<Rightarrow> (if int (length L) < limit then False else \<not> among_first limit L ip)
      | Some g \<Rightarrow> ip \<notin> set g \<and> (if int (length (L @ filter (\<lambda>x. x \<notin> set L) g)) < limit then False
          else \<not> among_first limit (L @ filter (\<lambda>x. x \<notin> set L) g) ip))"
  proof -
    have len: "length (us_ips u) = length L" by (simp add: L_def)
    show ?thesis
      unfolding checkDeviceGate_def Let_def option.case L_def [symmetric] G_def [symmetric] len
      by (cases G) auto
  qed
  have k: "known_ips now uid u t = set L \<union> (case G of None \<Rightarrow> {} | Some g \<Rightarrow> set g)"
    by (auto simp: known_ips_def global_known_def L_def G_def mget_or_def split: option.splits)
  show ?thesis
  proof (cases G)
    case None
    then show ?thesis using g k gate_with_list [OF dL, of ip limit] by auto
  next
    case (Some gl)
    then have "(uid, gl) \<in> set (ct_globalDevices t)" by (auto simp: G_def dest: map_of_SomeD split: if_splits)
    then have "distinct gl" using assms(2) by (auto simp: global_wf_def)
    then have d: "distinct (L @ filter (\<lambda>x. x \<notin> set L) gl)" using dL by auto
    have "set (L @ filter (\<lambda>x. x \<notin> set L) gl) = known_ips now uid u t" using k Some by auto
    then show ?thesis using g k Some gate_with_list [OF d, of ip limit] by auto
  qed
qed

section \<open>Identifiers\<close>

fun value36 :: "string \<Rightarrow> nat" where
  "value36 s = foldl (\<lambda>n c. 36 * n + (if is_digit c then byte c - 48 else byte c - 87)) 0 s"

lemma digit36_value: "d < 36 \<Longrightarrow> (if is_digit (digit36 d) then byte (digit36 d) - 48 else byte (digit36 d) - 87) = d"
proof -
  have "list_all (\<lambda>d. (if is_digit (digit36 d) then byte (digit36 d) - 48 else byte (digit36 d) - 87) = d) [0..<36]" by code_simp
  then show "d < 36 \<Longrightarrow> ?thesis" by (simp add: list_all_iff)
qed

lemma value36_digits36: "value36 (digits36 n) = n"
proof (induction n rule: digits36.induct)
  case (1 n)
  show ?case
  proof (cases "n = 0")
    case True
    then show ?thesis by (simp add: digits36.simps)
  next
    case False
    then have "value36 (digits36 n) = 36 * value36 (digits36 (n div 36)) + n mod 36"
      by (simp add: digits36.simps [of n] digit36_value del: if_split)
    then show ?thesis using 1 False by simp
  qed
qed

lemma formatInt36_inj: "0 < a \<Longrightarrow> 0 < b \<Longrightarrow> formatInt36 a = formatInt36 b \<Longrightarrow> a = b"
  using value36_digits36 [of "nat a"] value36_digits36 [of "nat b"] by (simp add: formatInt36_def)

section \<open>Open connections\<close>

type_synonym conns = "(bool \<times> trackedConn) list"

text \<open>Runs of the tracker with the connections it has handed out, \<open>True\<close> for TCP.\<close>

inductive ct_reach :: "ConnTracker \<Rightarrow> conns \<Rightarrow> bool" where
  ct_new: "ct_reach NewConnTracker []"
| ct_users: "ct_reach t cs \<Longrightarrow> ct_reach (SetUserMap m t) cs"
| ct_devices: "ct_reach t cs \<Longrightarrow> ct_reach (ct_UpdateGlobalDevices now ds t) cs"
| ct_clear: "ct_reach t cs \<Longrightarrow> ct_reach (ct_ClearGlobalDevices t) cs"
| ct_open: "ct_reach t cs \<Longrightarrow> RoutedConnection tcp dl now conn uuid ip t = (Some c, t') \<Longrightarrow> ct_reach t' (cs @ [(tcp, c)])"
| ct_close: "ct_reach t (xs @ (tcp, c) # ys) \<Longrightarrow> tracked_Close c t = (c', t') \<Longrightarrow> ct_reach t' (xs @ (tcp, c') # ys)"
| ct_up: "ct_reach t cs \<Longrightarrow> ct_reach (user_update us (add_upload n) t) cs"
| ct_down: "ct_reach t cs \<Longrightarrow> ct_reach (user_update us (add_download n) t) cs"

definition open_for :: "int \<Rightarrow> conns \<Rightarrow> conns" where
  "open_for uid cs = filter (\<lambda>(tcp, c). \<not> tc_closed c \<and> tc_us c = Some uid) cs"

definition open_from :: "int \<Rightarrow> string \<Rightarrow> conns \<Rightarrow> conns" where
  "open_from uid ip cs = filter (\<lambda>(tcp, c). \<not> tc_closed c \<and> tc_us c = Some uid \<and> tc_sourceIP c = ip) cs"

definition stats_ok :: "conns \<Rightarrow> int \<Rightarrow> userStats \<Rightarrow> bool" where
  "stats_ok cs uid u \<longleftrightarrow> us_connCount u = int (length (open_for uid cs)) \<and> wf_map (us_ips u) \<and>
     (\<forall>ip. map_of (us_ips u) ip = (let n = int (length (open_from uid ip cs)) in if n = 0 then None else Some n))"

definition users_inv :: "ConnTracker \<Rightarrow> conns \<Rightarrow> bool" where
  "users_inv t cs \<longleftrightarrow> wf_map (ct_users t) \<and> (\<forall>uid u. map_of (ct_users t) uid = Some u \<longrightarrow> stats_ok cs uid u) \<and>
     (\<forall>(tcp, c) \<in> set cs. \<forall>uid. tc_us c = Some uid \<longrightarrow> mhas (ct_users t) uid)"

lemma stats_ok_counts: "stats_ok cs uid u \<Longrightarrow> stats_ok cs uid (add_upload n u) \<and> stats_ok cs uid (add_download n u)"
  by (simp add: stats_ok_def add_upload_def add_download_def)

lemma open_Nil: "open_for uid [] = []" "open_from uid ip [] = []"
  by (simp_all add: open_for_def open_from_def)

lemma stats_ok_add:
  assumes "stats_ok cs uid u" and "tc_us c = Some uid" and "\<not> tc_closed c"
  shows "stats_ok (cs @ [(tcp, c)]) uid (addConn (tc_sourceIP c) u)"
proof -
  have "mget_or 0 (us_ips u) (tc_sourceIP c) = int (length (open_from uid (tc_sourceIP c) cs))"
    using assms(1) by (simp add: stats_ok_def mget_or_def Let_def)
  then show ?thesis
    using assms by (auto simp: stats_ok_def addConn_def open_for_def open_from_def map_of_mput wf_mput Let_def)
qed

lemma stats_ok_remove:
  assumes "stats_ok (xs @ (tcp, c) # ys) uid u" and "tc_us c = Some uid" and "\<not> tc_closed c"
  shows "stats_ok (xs @ (tcp, c\<lparr>tc_closed := True\<rparr>) # ys) uid (removeConn (tc_sourceIP c) u)"
proof -
  have "mget_or 0 (us_ips u) (tc_sourceIP c) = int (length (open_from uid (tc_sourceIP c) (xs @ (tcp, c) # ys)))"
    using assms(1) by (simp add: stats_ok_def mget_or_def Let_def)
  then show ?thesis
    using assms
    by (auto simp: stats_ok_def removeConn_def open_for_def open_from_def map_of_mput map_of_mdel wf_mput wf_mdel Let_def)
qed

lemma stats_ok_other:
  assumes "stats_ok cs uid u" and "tc_us c \<noteq> Some uid"
  shows "stats_ok (cs @ [(tcp, c)]) uid u"
  using assms by (simp add: stats_ok_def open_for_def open_from_def)

lemma stats_ok_other_close:
  assumes "stats_ok (xs @ (tcp, c) # ys) uid u" and "tc_us c \<noteq> Some uid"
  shows "stats_ok (xs @ (tcp, c\<lparr>tc_closed := True\<rparr>) # ys) uid u"
  using assms by (simp add: stats_ok_def open_for_def open_from_def)

lemma user_update_users:
  "ct_users (user_update us f t) = (case us of None \<Rightarrow> ct_users t | Some uid \<Rightarrow>
     (case map_of (ct_users t) uid of None \<Rightarrow> ct_users t | Some u \<Rightarrow> mput uid (f u) (ct_users t)))"
  "ct_connMap (user_update us f t) = ct_connMap t" "ct_idCounter (user_update us f t) = ct_idCounter t"
  "ct_uuidMap (user_update us f t) = ct_uuidMap t"
  by (simp_all add: user_update_def split: option.split)

lemma users_inv_update:
  assumes "users_inv t cs" and "ct_users t' = ct_users (user_update us f t)"
    and "\<And>uid u. us = Some uid \<Longrightarrow> stats_ok cs uid u \<Longrightarrow> stats_ok cs' uid (f u)"
    and "\<And>uid u. us \<noteq> Some uid \<Longrightarrow> stats_ok cs uid u \<Longrightarrow> stats_ok cs' uid u"
    and "\<And>uid. us = Some uid \<Longrightarrow> mhas (ct_users t) uid"
    and "\<forall>(tcp, c) \<in> set cs'. \<forall>uid. tc_us c = Some uid \<longrightarrow> mhas (ct_users t) uid"
  shows "users_inv t' cs'"
proof (cases us)
  case None
  then show ?thesis using assms(1,2,4,6) by (simp add: users_inv_def user_update_users)
next
  case (Some uid)
  then obtain u where u: "map_of (ct_users t) uid = Some u" using assms(5) by (auto simp: mhas_def)
  then have t': "ct_users t' = mput uid (f u) (ct_users t)" using assms(2) Some by (simp add: user_update_users)
  have "stats_ok cs' x v" if "map_of (ct_users t') x = Some v" for x v
    using that assms(1,3,4) u Some by (cases "x = uid") (auto simp: t' map_of_mput users_inv_def)
  then show ?thesis
    using assms(1,6) wf_mput [of "ct_users t" uid "f u"] by (auto simp: users_inv_def t' mhas_def map_of_mput)
qed

lemma users_inv_counts:
  assumes "users_inv t cs"
  shows "users_inv (user_update us (add_upload n) t) cs" and "users_inv (user_update us (add_download n) t) cs"
proof -
  have "users_inv (user_update us f t) cs" if "\<And>uid u. stats_ok cs uid u \<Longrightarrow> stats_ok cs uid (f u)" for f
  proof (cases "\<exists>uid. us = Some uid \<and> mhas (ct_users t) uid")
    case True
    then show ?thesis
      by (intro users_inv_update [OF assms refl]) (use assms that in \<open>auto simp: users_inv_def\<close>)
  next
    case False
    then have "ct_users (user_update us f t) = ct_users t" by (auto simp: user_update_users mhas_def split: option.split)
    then show ?thesis using assms by (simp add: users_inv_def)
  qed
  then show "users_inv (user_update us (add_upload n) t) cs" "users_inv (user_update us (add_download n) t) cs"
    using stats_ok_counts by blast+
qed

lemma users_inv_SetUserMap:
  assumes "users_inv t cs"
  shows "users_inv (SetUserMap m t) cs"
proof -
  have new: "stats_ok cs uid userStats_new" if "\<not> mhas (ct_users s) uid" "users_inv s cs" for uid and s :: ConnTracker
  proof -
    have "open_for uid cs = []" "open_from uid ip cs = []" for ip
      using that by (fastforce simp: open_for_def open_from_def filter_empty_conv users_inv_def)+
    then show ?thesis by (simp add: stats_ok_def userStats_new_def wf_map_def)
  qed
  have step: "users_inv (s\<lparr>ct_users := (if mhas (ct_users s) uid then ct_users s else mput uid userStats_new (ct_users s))\<rparr>) cs"
    if "users_inv s cs" for s :: ConnTracker and uid
    using that new [of s uid] by (auto simp: users_inv_def map_of_mput wf_mput mhas_def)
  have "users_inv (s\<lparr>ct_users := fold (\<lambda>(uuid, uid) users. if mhas users uid then users else mput uid userStats_new users) xs (ct_users s)\<rparr>) cs"
    if "users_inv s cs" for s :: ConnTracker and xs :: "(string, int) gomap"
    using that
  proof (induction xs arbitrary: s)
    case (Cons x xs)
    obtain uuid uid where x: "x = (uuid, uid)" by (rule prod.exhaust)
    show ?case using Cons.IH [OF step [OF Cons.prems, of uid]] by (simp add: x del: if_split)
  qed simp
  from this [OF assms, of m] show ?thesis by (simp add: SetUserMap_def users_inv_def)
qed

lemma RoutedConnection_open:
  assumes "RoutedConnection tcp dl now conn uuid ip t = (Some c, t')"
  shows "tc_sourceIP c = ip" "\<not> tc_closed c" "tc_conn c = conn" "ct_users t' = ct_users (user_update (tc_us c) (addConn ip) t)"
    "tc_connID c = ''sb-'' @ formatInt36 (i64 (ct_idCounter t + 1))" "ct_idCounter t' = i64 (ct_idCounter t + 1)"
    "ct_connMap t' = (if tcp then mput (tc_connID c) conn (ct_connMap t) else ct_connMap t)"
    "tc_us c = Some uid \<Longrightarrow> mhas (ct_users t) uid"
  using assms by (auto simp: RoutedConnection_def lookup_user_def nextID_def Let_def user_update_users split: if_splits)

lemma users_inv_open:
  assumes "users_inv t cs" and "RoutedConnection tcp dl now conn uuid ip t = (Some c, t')"
  shows "users_inv t' (cs @ [(tcp, c)])"
proof -
  note R = RoutedConnection_open [OF assms(2)]
  show ?thesis
    by (rule users_inv_update [OF assms(1) R(4)])
      (use assms(1) R(1,2,8) stats_ok_add [of cs _ _ c tcp] stats_ok_other [of cs _ _ c tcp] in \<open>auto simp: users_inv_def\<close>)
qed

lemma users_inv_close:
  assumes "users_inv t (xs @ (tcp, c) # ys)" and "tracked_Close c t = (c', t')"
  shows "users_inv t' (xs @ (tcp, c') # ys)"
proof (cases "tc_closed c")
  case True
  then show ?thesis using assms by (simp add: tracked_Close_def)
next
  case False
  then have c': "c' = c\<lparr>tc_closed := True\<rparr>" and t': "ct_users t' = ct_users (user_update (tc_us c) (removeConn (tc_sourceIP c)) t)"
    using assms(2) by (auto simp: tracked_Close_def removeConnRef_def)
  show ?thesis unfolding c'
    by (rule users_inv_update [OF assms(1) t'])
      (use assms(1) False stats_ok_remove [of xs tcp c ys] stats_ok_other_close [of xs tcp c ys] in \<open>auto simp: users_inv_def\<close>)
qed

section \<open>Connection references\<close>

definition conn_id :: "int \<Rightarrow> string" where
  "conn_id k = ''sb-'' @ formatInt36 k"

definition refs_inv :: "ConnTracker \<Rightarrow> conns \<Rightarrow> bool" where
  "refs_inv t cs \<longleftrightarrow> ct_idCounter t = int (length cs) \<and> map (\<lambda>(tcp, c). tc_connID c) cs = map (\<lambda>k. conn_id (int k)) [1..<Suc (length cs)] \<and>
     (\<forall>i n. map_of (ct_connMap t) i = Some n \<longleftrightarrow> (\<exists>c. (True, c) \<in> set cs \<and> \<not> tc_closed c \<and> tc_connID c = i \<and> tc_conn c = n))"


lemma conn_id_inj: "0 < a \<Longrightarrow> 0 < b \<Longrightarrow> conn_id a = conn_id b \<Longrightarrow> a = b"
  by (simp add: conn_id_def formatInt36_inj)

lemma conn_ids_distinct: "distinct (map (\<lambda>k. conn_id (int k)) [1..<Suc n])"
  by (auto simp: distinct_map inj_on_def dest: conn_id_inj [rotated 2])

lemma refs_inv_distinct: "refs_inv t cs \<Longrightarrow> distinct (map (\<lambda>(tcp, c). tc_connID c) cs)"
  using conn_ids_distinct [of "length cs"] by (simp only: refs_inv_def)

lemma refs_inv_open:
  assumes I: "refs_inv t cs" and R: "RoutedConnection tcp dl now conn uuid ip t = (Some c, t')"
    and len: "int (length cs) < 2 ^ 63 - 1"
  shows "refs_inv t' (cs @ [(tcp, c)])"
proof -
  note r = RoutedConnection_open [OF R]
  have w: "i64 (ct_idCounter t + 1) = int (Suc (length cs))" using I len i64_id [of "int (Suc (length cs))"] by (simp add: refs_inv_def in_i64_def add.commute)
  have new: "tc_connID c = conn_id (int (Suc (length cs)))" using r(5) w by (simp add: conn_id_def)
  have ids: "map (\<lambda>(tcp, c). tc_connID c) (cs @ [(tcp, c)]) = map (\<lambda>k. conn_id (int k)) [1..<Suc (length (cs @ [(tcp, c)]))]"
    using I new by (simp add: refs_inv_def)
  then have "distinct (map (\<lambda>(tcp, c). tc_connID c) (cs @ [(tcp, c)]))" using conn_ids_distinct by metis
  then have fresh: "\<And>b d. (b, d) \<in> set cs \<Longrightarrow> tc_connID d \<noteq> tc_connID c" by force
  have M: "map_of (ct_connMap t) i = Some n \<longleftrightarrow> (\<exists>d. (True, d) \<in> set cs \<and> \<not> tc_closed d \<and> tc_connID d = i \<and> tc_conn d = n)" for i n
    using I by (simp add: refs_inv_def)
  have "map_of (ct_connMap t') i = Some n \<longleftrightarrow> (\<exists>d. (True, d) \<in> set (cs @ [(tcp, c)]) \<and> \<not> tc_closed d \<and> tc_connID d = i \<and> tc_conn d = n)" for i n
    using r(2,3,7) M [of i n] fresh by (cases "i = tc_connID c") (auto simp: map_of_mput)
  then show ?thesis using ids r(6) w by (simp add: refs_inv_def)
qed

lemma refs_inv_close:
  assumes I: "refs_inv t (xs @ (tcp, c) # ys)" and R: "tracked_Close c t = (c', t')"
  shows "refs_inv t' (xs @ (tcp, c') # ys)"
proof (cases "tc_closed c")
  case True
  then show ?thesis using assms by (simp add: tracked_Close_def)
next
  case False
  then have c': "c' = c\<lparr>tc_closed := True\<rparr>" and n': "ct_idCounter t' = ct_idCounter t"
    and m': "ct_connMap t' = mdel (tc_connID c) (ct_connMap t)"
    using R by (auto simp: tracked_Close_def removeConnRef_def user_update_users)
  have d: "tc_connID c \<notin> (\<lambda>(tcp, c). tc_connID c) ` (set xs \<union> set ys)"
    using refs_inv_distinct [OF I] by (simp add: image_Un)
  have fresh: "tc_connID d \<noteq> tc_connID c" if "(b, d) \<in> set xs \<union> set ys" for b d
    using imageI [OF that, of "\<lambda>(tcp, c). tc_connID c"] d by (metis prod.case)
  have M: "map_of (ct_connMap t) i = Some n \<longleftrightarrow>
      (\<exists>d. (True, d) \<in> set (xs @ (tcp, c) # ys) \<and> \<not> tc_closed d \<and> tc_connID d = i \<and> tc_conn d = n)" for i n
    using I by (simp add: refs_inv_def)
  have "map_of (ct_connMap t') i = Some n \<longleftrightarrow>
      (\<exists>d. (True, d) \<in> set (xs @ (tcp, c') # ys) \<and> \<not> tc_closed d \<and> tc_connID d = i \<and> tc_conn d = n)" for i n
  proof (cases "i = tc_connID c")
    case True
    then show ?thesis using fresh [of True] by (auto simp: map_of_mdel m' c')
  next
    case False
    then have eq: "map_of (ct_connMap t') i = map_of (ct_connMap t) i" and ne: "tc_connID c' \<noteq> i"
      by (simp_all add: map_of_mdel m' c')
    show ?thesis unfolding eq M using False ne by auto
  qed
  then show ?thesis using I c' n' by (simp add: refs_inv_def)
qed

lemma users_inv_cong: "ct_users t' = ct_users t \<Longrightarrow> users_inv t' cs = users_inv t cs"
  by (simp add: users_inv_def)

lemma refs_inv_cong: "ct_connMap t' = ct_connMap t \<Longrightarrow> ct_idCounter t' = ct_idCounter t \<Longrightarrow> refs_inv t' cs = refs_inv t cs"
  by (simp add: refs_inv_def)

lemma ct_reach_users: "ct_reach t cs \<Longrightarrow> users_inv t cs"
proof (induction rule: ct_reach.induct)
  case ct_new
  show ?case by (simp add: users_inv_def NewConnTracker_def wf_map_def)
next
  case (ct_devices t cs now ds)
  then show ?case by (simp add: users_inv_def ct_UpdateGlobalDevices_def)
next
  case (ct_clear t cs)
  then show ?case by (simp add: users_inv_def ct_ClearGlobalDevices_def)
qed (blast intro: users_inv_SetUserMap users_inv_open users_inv_close users_inv_counts)+

lemma ct_reach_refs: "ct_reach t cs \<Longrightarrow> int (length cs) < 2 ^ 63 \<Longrightarrow> refs_inv t cs"
proof (induction rule: ct_reach.induct)
  case ct_new
  show ?case by (simp add: refs_inv_def NewConnTracker_def)
next
  case (ct_open t cs tcp dl now conn uuid ip c t')
  then show ?case by (intro refs_inv_open [OF _ ct_open.hyps(2)]) simp_all
next
  case (ct_close t xs tcp c ys c' t')
  then show ?case by (intro refs_inv_close [OF _ ct_close.hyps(2)]) simp_all
qed (simp_all add: refs_inv_def SetUserMap_def ct_UpdateGlobalDevices_def ct_ClearGlobalDevices_def user_update_users)


section \<open>The books and the open connections\<close>

lemma sum_partition:
  assumes "distinct ks"
  shows "sum_list (map (\<lambda>k. int (length (filter (\<lambda>x. P x \<and> g x = Some k) xs))) ks)
    = int (length (filter (\<lambda>x. P x \<and> (\<exists>k \<in> set ks. g x = Some k)) xs))"
  using assms
proof (induction ks)
  case (Cons k ks)
  have "length (filter (\<lambda>x. P x \<and> (\<exists>j \<in> set (k # ks). g x = Some j)) xs)
      = length (filter (\<lambda>x. P x \<and> g x = Some k) xs) + length (filter (\<lambda>x. P x \<and> (\<exists>j \<in> set ks. g x = Some j)) xs)"
    using Cons.prems by (induction xs) auto
  then show ?case using Cons by simp
qed simp

definition open_known :: "conns \<Rightarrow> conns" where
  "open_known cs = filter (\<lambda>(tcp, c). \<not> tc_closed c \<and> tc_us c \<noteq> None) cs"

lemma users_inv_ActiveCount:
  assumes I: "users_inv t cs"
  shows "ActiveCount t = int (length (open_known cs))"
proof -
  define P :: "bool \<times> trackedConn \<Rightarrow> bool" where "P = (\<lambda>(tcp, c). \<not> tc_closed c)"
  define g :: "bool \<times> trackedConn \<Rightarrow> int option" where "g = (\<lambda>(tcp, c). tc_us c)"
  have "us_connCount u = int (length (filter (\<lambda>x. P x \<and> g x = Some uid) cs))" if "(uid, u) \<in> set (ct_users t)" for uid u
    using that I by (auto simp: users_inv_def wf_map_def stats_ok_def open_for_def P_def g_def case_prod_beta')
  then have "ActiveCount t = sum_list (map (\<lambda>k. int (length (filter (\<lambda>x. P x \<and> g x = Some k) cs))) (map fst (ct_users t)))"
    unfolding ActiveCount_def map_map by (intro arg_cong [where f = sum_list] map_cong) auto
  also have "\<dots> = int (length (filter (\<lambda>x. P x \<and> (\<exists>k \<in> set (map fst (ct_users t)). g x = Some k)) cs))"
    by (rule sum_partition) (use I in \<open>simp add: users_inv_def wf_map_def\<close>)
  also have "filter (\<lambda>x. P x \<and> (\<exists>k \<in> set (map fst (ct_users t)). g x = Some k)) cs = open_known cs"
    unfolding open_known_def
  proof (rule filter_cong [OF refl])
    fix x assume x: "x \<in> set cs"
    obtain b c where bc: "x = (b, c)" by (rule prod.exhaust)
    have "mhas (ct_users t) k" if "tc_us c = Some k" for k using I x that by (auto simp: users_inv_def bc)
    then have "k \<in> set (map fst (ct_users t))" if "tc_us c = Some k" for k
      using that by (force simp: mhas_def dest: map_of_SomeD)
    then show "(P x \<and> (\<exists>k \<in> set (map fst (ct_users t)). g x = Some k)) = (case x of (tcp, c) \<Rightarrow> \<not> tc_closed c \<and> tc_us c \<noteq> None)"
      by (auto simp: P_def g_def bc)
  qed
  finally show ?thesis .
qed

text \<open>
  C9. However connections are opened and closed, a user's connection count and the reference count of
  each of its IPs are exactly those of its connections that are still open, the total is their number,
  and the references kept for closing by force are exactly the open TCP connections, each under an
  identifier no other connection has ever had.
\<close>

theorem refcounts_exact:
  assumes "ct_reach t cs" and "int (length cs) < 2 ^ 63"
  shows "(\<forall>uid u. map_of (ct_users t) uid = Some u \<longrightarrow>
      us_connCount u = int (length (open_for uid cs)) \<and>
      (\<forall>ip. mget_or 0 (us_ips u) ip = int (length (open_from uid ip cs))) \<and>
      (\<forall>ip. mhas (us_ips u) ip \<longleftrightarrow> open_from uid ip cs \<noteq> [])) \<and>
    ActiveCount t = int (length (open_known cs)) \<and>
    (\<forall>i n. CloseByID i t = Some n \<longleftrightarrow> (\<exists>c. (True, c) \<in> set cs \<and> \<not> tc_closed c \<and> tc_connID c = i \<and> tc_conn c = n)) \<and>
    distinct (map (\<lambda>(tcp, c). tc_connID c) cs)"
proof -
  note u = ct_reach_users [OF assms(1)] and r = ct_reach_refs [OF assms]
  have s: "stats_ok cs uid u" if "map_of (ct_users t) uid = Some u" for uid u using u that by (auto simp: users_inv_def)
  have "us_connCount u = int (length (open_for uid cs)) \<and>
      (\<forall>ip. mget_or 0 (us_ips u) ip = int (length (open_from uid ip cs))) \<and>
      (\<forall>ip. mhas (us_ips u) ip \<longleftrightarrow> open_from uid ip cs \<noteq> [])" if "map_of (ct_users t) uid = Some u" for uid u
    using s [OF that] by (simp add: stats_ok_def mget_or_def mhas_def Let_def)
  moreover have "CloseByID i t = Some n \<longleftrightarrow> (\<exists>c. (True, c) \<in> set cs \<and> \<not> tc_closed c \<and> tc_connID c = i \<and> tc_conn c = n)" for i n
    using r by (simp add: refs_inv_def CloseByID_def)
  ultimately show ?thesis using users_inv_ActiveCount [OF u] refs_inv_distinct [OF r] by blast
qed

text \<open>A run: two connections of user 7 from one IP and one from another; the second is closed.\<close>

definition demo_ct :: "ConnTracker \<times> conns" where
  "demo_ct =
     (let t0 = SetUserMap [(''a'', 7)] NewConnTracker;
          (c1, t1) = RoutedConnection True None 0 1 ''a'' ''10.0.0.1'' t0;
          (c2, t2) = RoutedConnection False None 0 2 ''a'' ''10.0.0.2'' t1;
          (c3, t3) = RoutedConnection True None 0 3 ''a'' ''10.0.0.1'' t2;
          (c4, t4) = tracked_Close (the c2) t3
      in (t4, [(True, the c1), (False, c4), (True, the c3)]))"

lemma demo_ct_reach: "ct_reach (fst demo_ct) (snd demo_ct)"
proof -
  define t0 where "t0 = SetUserMap [(''a'', 7)] NewConnTracker"
  define r1 where "r1 = RoutedConnection True None 0 1 ''a'' ''10.0.0.1'' t0"
  define r2 where "r2 = RoutedConnection False None 0 2 ''a'' ''10.0.0.2'' (snd r1)"
  define r3 where "r3 = RoutedConnection True None 0 3 ''a'' ''10.0.0.1'' (snd r2)"
  define r4 where "r4 = tracked_Close (the (fst r2)) (snd r3)"
  have some: "RoutedConnection tcp None 0 n u ip t = (Some (the (fst (RoutedConnection tcp None 0 n u ip t))), snd (RoutedConnection tcp None 0 n u ip t))"
    for tcp n u ip t by (simp add: RoutedConnection_def gate_def Let_def split_beta)
  have "ct_reach t0 []" unfolding t0_def by (intro ct_users ct_new)
  then have "ct_reach (snd r1) ([] @ [(True, the (fst r1))])" unfolding r1_def by (rule ct_open) (rule some)
  then have "ct_reach (snd r2) (([] @ [(True, the (fst r1))]) @ [(False, the (fst r2))])" unfolding r2_def by (rule ct_open) (rule some)
  then have "ct_reach (snd r3) ((([] @ [(True, the (fst r1))]) @ [(False, the (fst r2))]) @ [(True, the (fst r3))])"
    unfolding r3_def by (rule ct_open) (rule some)
  then have "ct_reach (snd r3) ([(True, the (fst r1))] @ (False, the (fst r2)) # [(True, the (fst r3))])" by simp
  then have "ct_reach (snd r4) ([(True, the (fst r1))] @ (False, fst r4) # [(True, the (fst r3))])"
    unfolding r4_def by (rule ct_close) simp
  then show ?thesis
    by (simp add: demo_ct_def Let_def split_beta t0_def r1_def r2_def r3_def r4_def)
qed

lemma refcounts_exact_witness:
  "ActiveCount (fst demo_ct) = 2 \<and> CloseByID ''sb-3'' (fst demo_ct) = Some 3 \<and>
   int (length (open_from 7 ''10.0.0.1'' (snd demo_ct))) = 2 \<and> open_from 7 ''10.0.0.2'' (snd demo_ct) = [] \<and>
   ActiveCount (fst demo_ct) = int (length (open_known (snd demo_ct)))"
proof -
  have "int (length (snd demo_ct)) < 2 ^ 63" by code_simp
  with refcounts_exact [OF demo_ct_reach] have "ActiveCount (fst demo_ct) = int (length (open_known (snd demo_ct)))" by blast
  moreover have "ActiveCount (fst demo_ct) = 2" "CloseByID ''sb-3'' (fst demo_ct) = Some 3"
    "int (length (open_from 7 ''10.0.0.1'' (snd demo_ct))) = 2" "open_from 7 ''10.0.0.2'' (snd demo_ct) = []" by code_simp+
  ultimately show ?thesis by simp
qed

section \<open>What the gate decides\<close>

lemma ct_reach_global_wf: "ct_reach t cs \<Longrightarrow> global_wf t"
proof (induction rule: ct_reach.induct)
  case (ct_devices t cs now ds)
  have "distinct ips" if "(uid, ips) \<in> set (mbuild fst (\<lambda>(uid, ips). remdups ips) ds)" for uid ips
  proof -
    have "map_of (mbuild fst (\<lambda>(uid, ips). remdups ips) ds) uid = Some ips"
      using that wf_mbuild wf_map_of_iff by metis
    then show ?thesis unfolding map_of_mbuild by (auto dest: map_of_SomeD)
  qed
  then show ?case by (auto simp: global_wf_def ct_UpdateGlobalDevices_def)
qed (auto simp: global_wf_def NewConnTracker_def SetUserMap_def ct_ClearGlobalDevices_def RoutedConnection_def tracked_Close_def
  removeConnRef_def user_update_def nextID_def Let_def split: if_splits option.splits prod.splits)

lemma reach_gate:
  assumes "ct_reach t cs" and "map_of (ct_users t) uid = Some u"
  shows "wf_map (us_ips u)" and "global_wf t"
  using ct_reach_users [OF assms(1)] assms(2) ct_reach_global_wf [OF assms(1)] by (auto simp: users_inv_def stats_ok_def)

text \<open>
  The device gate, exactly: a connection is rejected if and only if its user has a positive limit,
  its IP is not yet known for the user, on this node or, while the platform's data is fresh, on another,
  and at least as many known IPs as the limit precede it in the order of the strings.
\<close>

lemma device_gate_exact:
  assumes "ct_reach t cs" and "map_of (ct_users t) uid = Some u"
  shows "checkDeviceGate now (Some u) uid ip limit t \<longleftrightarrow>
    0 < limit \<and> ip \<notin> known_ips now uid u t \<and> limit \<le> int (card {y \<in> known_ips now uid u t. y < ip})"
  using reach_gate [OF assms] by (rule checkDeviceGate_iff)

lemma device_gate_exact_witness:
  "\<exists>u. map_of (ct_users (fst demo_ct)) 7 = Some u \<and> checkDeviceGate 100 (Some u) 7 ''10.0.0.3'' 1 (fst demo_ct)"
proof -
  define u where "u = the (map_of (ct_users (fst demo_ct)) 7)"
  have u: "map_of (ct_users (fst demo_ct)) 7 = Some u" unfolding u_def by code_simp
  have "known_ips 100 7 (the (map_of (ct_users (fst demo_ct)) 7)) (fst demo_ct) = {''10.0.0.1''}" by code_simp
  then have k: "known_ips 100 7 u (fst demo_ct) = {''10.0.0.1''}" by (simp add: u_def)
  have "{y \<in> {''10.0.0.1''}. y < ''10.0.0.3''} = {''10.0.0.1''}" by auto
  then have "checkDeviceGate 100 (Some u) 7 ''10.0.0.3'' 1 (fst demo_ct)"
    using device_gate_exact [OF demo_ct_reach u, of 100 "''10.0.0.3''" 1] by (simp add: k)
  then show ?thesis using u by blast
qed

section \<open>Where the gate lets connections through\<close>

text \<open>Connections from the IPs of a list, one after another: the number that is admitted and the tracker.\<close>

fun open_all :: "(string \<Rightarrow> int option) option \<Rightarrow> int \<Rightarrow> string \<Rightarrow> string list \<Rightarrow> ConnTracker \<Rightarrow> nat \<times> ConnTracker" where
  "open_all dl now uuid [] t = (0, t)"
| "open_all dl now uuid (ip # ips) t =
     (let (c, t') = RoutedConnection True dl now 0 uuid ip t; (n, t'') = open_all dl now uuid ips t' in
      ((if c = None then n else Suc n), t''))"

definition user_with :: "string \<Rightarrow> int \<Rightarrow> string set \<Rightarrow> ConnTracker \<Rightarrow> bool" where
  "user_with uuid uid ips t \<longleftrightarrow> map_of (ct_uuidMap t) uuid = Some uid \<and>
     (\<exists>u. map_of (ct_users t) uid = Some u \<and> wf_map (us_ips u) \<and> fst ` set (us_ips u) = ips)"

lemma keys_mput: "fst ` set (mput k v m) = insert k (fst ` set m)"
  by (auto simp: dom_map_of_conv_image_fst [symmetric] map_of_mput split: if_splits)

lemma RoutedConnection_smaller:
  assumes "user_with uuid uid ips t" and "ct_globalLastUpdate t = None" and "0 < limit" and "\<forall>y \<in> ips. ip < y"
  shows "\<exists>c t'. RoutedConnection True (Some (\<lambda>_. Some limit)) now conn uuid ip t = (Some c, t') \<and>
    user_with uuid uid (insert ip ips) t' \<and> ct_globalLastUpdate t' = None"
proof -
  obtain u where uuid: "map_of (ct_uuidMap t) uuid = Some uid" and u: "map_of (ct_users t) uid = Some u"
    and wf: "wf_map (us_ips u)" and ips: "fst ` set (us_ips u) = ips" using assms(1) by (auto simp: user_with_def)
  define L where "L = map fst (us_ips u)"
  have L: "distinct L" "set L = ips" using wf ips by (simp_all add: L_def wf_map_def)
  have new: "ip \<notin> set L" using assms(4) L by auto
  have none: "{y \<in> set L. y < ip} = {}" using assms(4) L by auto
  have "among_first limit L ip" using among_first_iff [OF L(1) new] assms(3) by (simp add: none del: Collect_empty_eq)
  then have pass: "\<not> checkDeviceGate now (Some u) uid ip limit t"
    using assms(2) by (simp add: checkDeviceGate_def Let_def L_def [symmetric])
  then have "\<not> gate (Some (\<lambda>_. Some limit)) now uuid ip t"
    using uuid u by (simp add: gate_def lookup_user_def mget_or_def mhas_def)
  then show ?thesis
    using uuid u wf ips assms(2)
    by (simp add: RoutedConnection_def lookup_user_def mget_or_def mhas_def nextID_def user_with_def user_update_def
        map_of_mput addConn_def wf_mput keys_mput Let_def)
qed

text \<open>
  The gate does not enforce the limit: a user with any positive limit, even one device, has all of its
  connections admitted when their IPs come in strictly descending order, so the number of its alive IPs
  is not bounded by the limit.
\<close>

lemma device_limit_not_enforced:
  assumes "user_with uuid uid known t" and "ct_globalLastUpdate t = None" and "0 < limit"
    and "sorted_wrt (\<lambda>a b. b < a) ips" and "\<forall>x \<in> set ips. \<forall>y \<in> known. x < y"
  shows "fst (open_all (Some (\<lambda>_. Some limit)) now uuid ips t) = length ips \<and>
    user_with uuid uid (known \<union> set ips) (snd (open_all (Some (\<lambda>_. Some limit)) now uuid ips t))"
  using assms
proof (induction ips arbitrary: t known)
  case (Cons ip ips)
  have "\<forall>y \<in> known. ip < y" using Cons.prems(5) by simp
  then obtain c t' where R: "RoutedConnection True (Some (\<lambda>_. Some limit)) now 0 uuid ip t = (Some c, t')"
    and t': "user_with uuid uid (insert ip known) t'" "ct_globalLastUpdate t' = None"
    using RoutedConnection_smaller [OF Cons.prems(1-3), of ip now 0] by blast
  have "fst (open_all (Some (\<lambda>_. Some limit)) now uuid ips t') = length ips \<and>
      user_with uuid uid (insert ip known \<union> set ips) (snd (open_all (Some (\<lambda>_. Some limit)) now uuid ips t'))"
    by (rule Cons.IH [OF t' Cons.prems(3)]) (use Cons.prems(4,5) in auto)
  then show ?case by (simp add: R Let_def split_beta)
qed simp

lemma device_limit_not_enforced_witness:
  "fst (open_all (Some (\<lambda>_. Some 1)) 0 ''a'' [''3'', ''2'', ''1''] (SetUserMap [(''a'', 7)] NewConnTracker)) = 3"
proof -
  have "user_with ''a'' 7 {} (SetUserMap [(''a'', 7)] NewConnTracker)"
    by (simp add: user_with_def SetUserMap_def NewConnTracker_def mhas_def map_of_mput userStats_new_def wf_map_def)
  moreover have "ct_globalLastUpdate (SetUserMap [(''a'', 7)] NewConnTracker) = None" by code_simp
  moreover have "sorted_wrt (\<lambda>a b. b < a) [''3'', ''2'', ''1'']" by code_simp
  ultimately show ?thesis
    using device_limit_not_enforced [of "''a''" 7 "{}" "SetUserMap [(''a'', 7)] NewConnTracker" 1 "[''3'', ''2'', ''1'']" 0] by simp
qed

section \<open>The two ways a transfer is counted\<close>

text \<open>A UDP connection of user 7.\<close>

definition demo_udp :: "trackedConn option \<times> ConnTracker" where
  "demo_udp = RoutedConnection False None 0 2 ''a'' ''10.0.0.1'' (SetUserMap [(''a'', 7)] NewConnTracker)"

text \<open>
  For TCP the counters handed out for zero-copy transfers count as the wrapper does. For UDP they are
  swapped: what is read from the user past the wrapper counts as a download, what is written to it as an
  upload, the opposite of \<open>ReadPacket\<close> and \<open>WritePacket\<close>, and the two differ on every
  transfer that moves bytes.
\<close>

lemma unwrap_counters:
  assumes "0 < n" and "tc_us c = Some uid" and "map_of (ct_users t) uid = Some u"
    and "in_i64 (us_upload u + n)"
  shows "UnwrapReader_count c n t = tracked_Read c n t \<and> UnwrapWriter_count c n t = tracked_Write c n t \<and>
    UnwrapPacketReader_count c n t = WritePacket c n True t \<and> UnwrapPacketWriter_count c n t = ReadPacket c (Some n) t \<and>
    UnwrapPacketReader_count c n t \<noteq> ReadPacket c (Some n) t"
proof -
  have "UnwrapReader_count c n t = tracked_Read c n t" "UnwrapWriter_count c n t = tracked_Write c n t"
    "UnwrapPacketReader_count c n t = WritePacket c n True t" "UnwrapPacketWriter_count c n t = ReadPacket c (Some n) t"
    using assms(1) by (simp_all add: UnwrapReader_count_def tracked_Read_def UnwrapWriter_count_def tracked_Write_def
      UnwrapPacketReader_count_def WritePacket_def UnwrapPacketWriter_count_def ReadPacket_def)
  moreover have "UnwrapPacketReader_count c n t \<noteq> ReadPacket c (Some n) t"
  proof -
    have "map_of (ct_users (ReadPacket c (Some n) t)) uid = Some (u\<lparr>us_upload := us_upload u + n\<rparr>)"
    using assms by (simp add: ReadPacket_def user_update_users map_of_mput add_upload_def i64_id)
  moreover have "map_of (ct_users (UnwrapPacketReader_count c n t)) uid = Some (u\<lparr>us_download := i64 (us_download u + n)\<rparr>)"
    using assms by (simp add: UnwrapPacketReader_count_def user_update_users map_of_mput add_download_def)
  moreover have "us_upload (u\<lparr>us_upload := us_upload u + n\<rparr>) \<noteq> us_upload (u\<lparr>us_download := i64 (us_download u + n)\<rparr>)"
    using assms(1) by simp
    ultimately show ?thesis by (metis option.inject)
  qed
  ultimately show ?thesis by blast
qed

lemma unwrap_counters_witness:
  "UnwrapPacketReader_count (the (fst demo_udp)) 5 (snd demo_udp) \<noteq> ReadPacket (the (fst demo_udp)) (Some 5) (snd demo_udp)"
proof -
  have "tc_us (the (fst demo_udp)) = Some 7" by code_simp
  moreover have "map_of (ct_users (snd demo_udp)) 7 = Some (addConn ''10.0.0.1'' userStats_new)" by code_simp
  moreover have "in_i64 (us_upload (addConn ''10.0.0.1'' userStats_new) + 5)" by code_simp
  ultimately show ?thesis using unwrap_counters [of 5 "the (fst demo_udp)" 7 "snd demo_udp"] by fastforce
qed

end
