(* ===== verification/Dispatcher.thy ===== *)
theory Dispatcher
  imports ConnTracker
begin

text \<open>
  The limit dispatcher of the Xray kernel (\<^verbatim>\<open>internal/kernel/xray/dispatcher.go\<close>): it decides whether a
  connection of a user may be dispatched, keeps a reference count per user and source IP, for users with
  a device limit and users without one apart, and releases the reference when the link is closed.

  A user is its email. Each method holds the mutex from its admission decision to the count, so a method
  is one step. The dispatcher of xray-core is code of another repository: whether it accepts a request is
  an argument. Counts of open connections stay far below 2 to the 63 and are integers.
\<close>

section \<open>State\<close>

type_synonym ip_counts = "(string, (string, int) gomap) gomap"

record LimitDispatcher =
  ld_limitedIPs :: ip_counts
  ld_deviceLimits :: "(string, int) gomap"
  ld_emailToUID :: "(string, int) gomap"
  ld_unlimitedIPs :: ip_counts
  ld_connCount :: int

definition limitDispatcherFactory :: LimitDispatcher where
  "limitDispatcherFactory =
     \<lparr>ld_limitedIPs = [], ld_deviceLimits = [], ld_emailToUID = [], ld_unlimitedIPs = [], ld_connCount = 0\<rparr>"

text \<open>The writer of a tracked link: what its close callback captures and whether it ran.\<close>

record closeTrackingWriter =
  lw_email :: string
  lw_sourceIP :: string
  lw_isTCP :: bool
  lw_closed :: bool

section \<open>Limits and counts\<close>

definition UpdateLimits :: "(string, int) gomap \<Rightarrow> (string, int) gomap \<Rightarrow> LimitDispatcher \<Rightarrow> LimitDispatcher" where
  "UpdateLimits emailToUID deviceLimits d = d\<lparr>ld_emailToUID := emailToUID, ld_deviceLimits := deviceLimits\<rparr>"

definition ResetConns :: "LimitDispatcher \<Rightarrow> LimitDispatcher" where
  "ResetConns d = d\<lparr>ld_limitedIPs := [], ld_unlimitedIPs := [], ld_connCount := 0\<rparr>"

definition checkDeviceLimit :: "string \<Rightarrow> string \<Rightarrow> bool \<Rightarrow> LimitDispatcher \<Rightarrow> bool \<times> LimitDispatcher" where
  "checkDeviceLimit email sourceIP isTCP d =
     (let limit = mget_or 0 (ld_deviceLimits d) email in
      if limit \<le> 0 then
        (False,
         if isTCP then
           (let ic = mget_or [] (ld_unlimitedIPs d) email in
            d\<lparr>ld_unlimitedIPs := mput email (mput sourceIP (mget_or 0 ic sourceIP + 1) ic) (ld_unlimitedIPs d)\<rparr>)
         else d)
      else
        (let ips = mget_or [] (ld_limitedIPs d) email;
             kept = d\<lparr>ld_limitedIPs := mput email ips (ld_limitedIPs d)\<rparr>;
             counted = (if isTCP then d\<lparr>ld_limitedIPs := mput email (mput sourceIP (mget_or 0 ips sourceIP + 1) ips) (ld_limitedIPs d)\<rparr>
                        else kept)
         in if 0 < mget_or 0 ips sourceIP then (False, counted)
            else if int (length ips) < limit then (False, counted)
            else if among_first limit (map fst ips) sourceIP then (False, counted)
            else (True, kept)))"

definition delConn :: "string \<Rightarrow> string \<Rightarrow> LimitDispatcher \<Rightarrow> LimitDispatcher" where
  "delConn email sourceIP d =
     (let limited =
        (case map_of (ld_limitedIPs d) email of
           None \<Rightarrow> d
         | Some ips \<Rightarrow>
             (let n = mget_or 0 ips sourceIP - 1;
                  ips' = (if n \<le> 0 then mdel sourceIP (mput sourceIP n ips) else mput sourceIP n ips)
              in d\<lparr>ld_limitedIPs := (if length ips' = 0 then mdel email (ld_limitedIPs d) else mput email ips' (ld_limitedIPs d))\<rparr>))
      in case map_of (ld_unlimitedIPs d) email of
           None \<Rightarrow> limited
         | Some ic \<Rightarrow>
             (case map_of ic sourceIP of
                None \<Rightarrow> limited
              | Some n \<Rightarrow>
                  d\<lparr>ld_unlimitedIPs := mput email (if n - 1 \<le> 0 then mdel sourceIP ic else mput sourceIP (n - 1) ic) (ld_unlimitedIPs d)\<rparr>))"

section \<open>Dispatching\<close>

text \<open>\<open>si\<close>: the email and the address of the session's user, \<open>None\<close> without a session or a user.\<close>

definition identifyAndCheck ::
  "(string \<times> string) option \<Rightarrow> bool \<Rightarrow> LimitDispatcher \<Rightarrow> (string + string \<times> string \<times> bool) \<times> LimitDispatcher" where
  "identifyAndCheck si isTCP d =
     (case si of
        None \<Rightarrow> (Inr ([], [], False), d)
      | Some (email, sourceIP) \<Rightarrow>
          if email = [] then (Inr ([], [], False), d)
          else
            (let (over, d') = checkDeviceLimit email sourceIP isTCP d in
             if over then (Inl (''device limit exceeded for '' @ email), d') else (Inr (email, sourceIP, isTCP), d')))"

definition trackLink :: "string \<Rightarrow> string \<Rightarrow> bool \<Rightarrow> LimitDispatcher \<Rightarrow> closeTrackingWriter \<times> LimitDispatcher" where
  "trackLink email sourceIP isTCP d =
     (\<lparr>lw_email = email, lw_sourceIP = sourceIP, lw_isTCP = isTCP, lw_closed = False\<rparr>, d\<lparr>ld_connCount := ld_connCount d + 1\<rparr>)"

text \<open>\<open>inner\<close>: the error of the inner dispatcher. A link of a user is returned with its tracking writer.\<close>

definition Dispatch ::
  "(string \<times> string) option \<Rightarrow> bool \<Rightarrow> string option \<Rightarrow> LimitDispatcher \<Rightarrow> (string + closeTrackingWriter option) \<times> LimitDispatcher" where
  "Dispatch si tcp inner d =
     (case identifyAndCheck si tcp d of
        (Inl e, d1) \<Rightarrow> (Inl e, d1)
      | (Inr (email, sourceIP, isTCP), d1) \<Rightarrow>
          (case inner of
             Some e \<Rightarrow> (Inl e, if email \<noteq> [] \<and> isTCP then delConn email sourceIP d1 else d1)
           | None \<Rightarrow>
               if email \<noteq> [] then (let (w, d2) = trackLink email sourceIP isTCP d1 in (Inr (Some w), d2)) else (Inr None, d1)))"

text \<open>The link is the caller's: it is tracked before the inner dispatcher answers, and released when the caller closes it.\<close>

definition DispatchLink ::
  "(string \<times> string) option \<Rightarrow> bool \<Rightarrow> string option \<Rightarrow> LimitDispatcher \<Rightarrow> string option \<times> closeTrackingWriter option \<times> LimitDispatcher" where
  "DispatchLink si tcp inner d =
     (case identifyAndCheck si tcp d of
        (Inl e, d1) \<Rightarrow> (Some e, None, d1)
      | (Inr (email, sourceIP, isTCP), d1) \<Rightarrow>
          if email \<noteq> [] then (let (w, d2) = trackLink email sourceIP isTCP d1 in (inner, Some w, d2)) else (inner, None, d1))"

text \<open>\<open>Close\<close> and \<open>Interrupt\<close> of the writer: the first of them runs the callback.\<close>

definition writer_Close :: "closeTrackingWriter \<Rightarrow> LimitDispatcher \<Rightarrow> closeTrackingWriter \<times> LimitDispatcher" where
  "writer_Close w d =
     (if lw_closed w then (w, d)
      else
        (let d1 = (if lw_isTCP w then delConn (lw_email w) (lw_sourceIP w) d else d) in
         (w\<lparr>lw_closed := True\<rparr>, d1\<lparr>ld_connCount := ld_connCount d1 - 1\<rparr>)))"

section \<open>Reading the dispatcher\<close>

definition aliveIPs :: "(string, int) gomap \<Rightarrow> string list" where
  "aliveIPs ic = map fst (filter (\<lambda>(ip, n). 0 < n) ic)"

definition limited_step :: "(string, int) gomap \<Rightarrow> string \<times> (string, int) gomap \<Rightarrow> (int, string list) gomap \<Rightarrow> (int, string list) gomap" where
  "limited_step emailToUID = (\<lambda>(email, ipsMap) alive.
     (let uid = mget_or 0 emailToUID email in
      if uid = 0 then alive else if ipsMap = [] then alive else mput uid (map fst ipsMap) alive))"

definition unlimited_step :: "(string, int) gomap \<Rightarrow> string \<times> (string, int) gomap \<Rightarrow> (int, string list) gomap \<Rightarrow> (int, string list) gomap" where
  "unlimited_step emailToUID = (\<lambda>(email, ic) alive.
     (let uid = mget_or 0 emailToUID email; ips = aliveIPs ic in
      if uid = 0 then alive
      else if ips = [] then alive
      else (case map_of alive uid of
              Some existing \<Rightarrow> mput uid (existing @ filter (\<lambda>ip. ip \<notin> set existing) ips) alive
            | None \<Rightarrow> mput uid ips alive)))"

definition GetConnectionState :: "LimitDispatcher \<Rightarrow> (int, string list) gomap \<times> int" where
  "GetConnectionState d =
     (fold (unlimited_step (ld_emailToUID d)) (ld_unlimitedIPs d) (fold (limited_step (ld_emailToUID d)) (ld_limitedIPs d) []),
      ld_connCount d)"

section \<open>Counts\<close>

definition cnt :: "ip_counts \<Rightarrow> string \<Rightarrow> string \<Rightarrow> int" where
  "cnt m email ip = mget_or 0 (mget_or [] m email) ip"

definition ips_ok :: "(string, int) gomap \<Rightarrow> bool" where
  "ips_ok ips \<longleftrightarrow> wf_map ips \<and> (\<forall>ip n. map_of ips ip = Some n \<longrightarrow> 0 < n)"

definition counts_ok :: "ip_counts \<Rightarrow> bool" where
  "counts_ok m \<longleftrightarrow> wf_map m \<and> (\<forall>email ips. map_of m email = Some ips \<longrightarrow> ips_ok ips)"

definition refs :: "LimitDispatcher \<Rightarrow> string \<Rightarrow> string \<Rightarrow> int" where
  "refs d email ip = cnt (ld_limitedIPs d) email ip + cnt (ld_unlimitedIPs d) email ip"

definition ld_ok :: "LimitDispatcher \<Rightarrow> bool" where
  "ld_ok d \<longleftrightarrow> counts_ok (ld_limitedIPs d) \<and> counts_ok (ld_unlimitedIPs d)"

lemma ips_ok_get: "counts_ok m \<Longrightarrow> ips_ok (mget_or [] m email)"
  by (auto simp: counts_ok_def ips_ok_def mget_or_def split: option.split)

lemma ips_ok_nonneg: "ips_ok ips \<Longrightarrow> 0 \<le> mget_or 0 ips ip"
  by (force simp: ips_ok_def mget_or_def split: option.split)

lemma ips_ok_mput: "ips_ok ips \<Longrightarrow> 0 < n \<Longrightarrow> ips_ok (mput ip n ips)"
  by (auto simp: ips_ok_def wf_mput map_of_mput)

lemma ips_ok_mdel: "ips_ok ips \<Longrightarrow> ips_ok (mdel ip ips)"
  by (auto simp: ips_ok_def wf_mdel map_of_mdel)

lemma counts_ok_mput: "counts_ok m \<Longrightarrow> ips_ok ips \<Longrightarrow> counts_ok (mput email ips m)"
  by (auto simp: counts_ok_def wf_mput map_of_mput)

lemma counts_ok_mdel: "counts_ok m \<Longrightarrow> counts_ok (mdel email m)"
  by (auto simp: counts_ok_def wf_mdel map_of_mdel)

lemma cnt_mput: "cnt (mput email ips m) e ip = (if e = email then mget_or 0 ips ip else cnt m e ip)"
  by (simp add: cnt_def mget_or_mput)

lemma cnt_mdel: "cnt (mdel email m) e ip = (if e = email then 0 else cnt m e ip)"
  by (simp add: cnt_def mget_or_def map_of_mdel)

lemma mget_or_mdel: "mget_or z (mdel k m) x = (if x = k then z else mget_or z m x)"
  by (simp add: mget_or_def map_of_mdel)

lemma cnt_nonneg: "counts_ok m \<Longrightarrow> 0 \<le> cnt m email ip"
  unfolding cnt_def by (intro ips_ok_nonneg ips_ok_get)

lemmas count_simps = cnt_mput cnt_mdel mget_or_mput mget_or_mdel

lemma checkDeviceLimit_counts:
  assumes "ld_ok d" and "checkDeviceLimit email ip tcp d = (over, d')"
  shows "ld_ok d'" and "refs d' e i = refs d e i + (if \<not> over \<and> tcp \<and> e = email \<and> i = ip then 1 else 0)"
    and "ld_connCount d' = ld_connCount d" and "ld_deviceLimits d' = ld_deviceLimits d" and "ld_emailToUID d' = ld_emailToUID d"
proof -
  have L: "counts_ok (ld_limitedIPs d)" and U: "counts_ok (ld_unlimitedIPs d)" using assms(1) by (simp_all add: ld_ok_def)
  have p: "ips_ok (mput ip (mget_or 0 (mget_or [] m email) ip + 1) (mget_or [] m email))" if "counts_ok m" for m
    using ips_ok_mput [OF ips_ok_get [OF that]] ips_ok_nonneg [OF ips_ok_get [OF that]] by simp
  show "ld_ok d'"
    using assms(2) L U p [OF L] p [OF U] ips_ok_get [OF L, of email]
    by (auto simp: checkDeviceLimit_def ld_ok_def Let_def counts_ok_mput split: if_splits)
  show "refs d' e i = refs d e i + (if \<not> over \<and> tcp \<and> e = email \<and> i = ip then 1 else 0)"
    using assms(2) by (auto simp: checkDeviceLimit_def refs_def Let_def count_simps cnt_def split: if_splits)
  show "ld_connCount d' = ld_connCount d" "ld_deviceLimits d' = ld_deviceLimits d" "ld_emailToUID d' = ld_emailToUID d"
    using assms(2) by (auto simp: checkDeviceLimit_def Let_def split: if_splits)
qed

lemma delConn_counts:
  assumes "ld_ok d" and "0 < refs d email ip"
  shows "ld_ok (delConn email ip d)" and "refs (delConn email ip d) e i = refs d e i - (if e = email \<and> i = ip then 1 else 0)"
    and "ld_connCount (delConn email ip d) = ld_connCount d" and "ld_emailToUID (delConn email ip d) = ld_emailToUID d"
proof -
  have L: "counts_ok (ld_limitedIPs d)" and U: "counts_ok (ld_unlimitedIPs d)" using assms(1) by (simp_all add: ld_ok_def)
  have res: "ld_ok (delConn email ip d) \<and> (\<forall>e i. refs (delConn email ip d) e i = refs d e i - (if e = email \<and> i = ip then 1 else 0))
     \<and> ld_connCount (delConn email ip d) = ld_connCount d \<and> ld_emailToUID (delConn email ip d) = ld_emailToUID d"
  proof (cases "map_of (mget_or [] (ld_unlimitedIPs d) email) ip")
    case None
    then have zero: "cnt (ld_unlimitedIPs d) email ip = 0" by (simp add: cnt_def mget_or_def)
    then have pos: "0 < cnt (ld_limitedIPs d) email ip" using assms(2) by (simp add: refs_def)
    then obtain ips where ips: "map_of (ld_limitedIPs d) email = Some ips"
      by (cases "map_of (ld_limitedIPs d) email") (auto simp: cnt_def mget_or_def)
    then have n: "0 < mget_or 0 ips ip" "ips_ok ips" using pos ips_ok_get [OF L, of email] by (simp_all add: cnt_def mget_or_def)
    define ips' where "ips' = (if mget_or 0 ips ip - 1 \<le> 0 then mdel ip (mput ip (mget_or 0 ips ip - 1) ips)
      else mput ip (mget_or 0 ips ip - 1) ips)"
    have d': "delConn email ip d = d\<lparr>ld_limitedIPs := (if length ips' = 0 then mdel email (ld_limitedIPs d) else mput email ips' (ld_limitedIPs d))\<rparr>"
      using None ips by (auto simp: delConn_def mget_or_def [of "[]"] ips'_def Let_def split: option.split)
    have ok': "ips_ok ips'"
      using n by (auto simp: ips'_def ips_ok_mput ips_ok_def wf_mdel wf_mput map_of_mdel map_of_mput)
    have get': "mget_or 0 ips' i = mget_or 0 ips i - (if i = ip then 1 else 0)" for i
      using n by (auto simp: ips'_def count_simps)
    have empty: "mget_or 0 ips' i = 0" if "length ips' = 0" for i using that by (simp add: mget_or_def)
    have "cnt (ld_limitedIPs d) email i = mget_or 0 ips i" for i using ips by (simp add: cnt_def mget_or_def)
    then have "refs (delConn email ip d) e i = refs d e i - (if e = email \<and> i = ip then 1 else 0)" for e i
      unfolding d' refs_def using get' [of i] empty [of i] by (auto simp: count_simps)
    then show ?thesis unfolding d' using L U ok' by (simp add: ld_ok_def counts_ok_mput counts_ok_mdel)
  next
    case (Some n)
    then obtain ic where ic: "map_of (ld_unlimitedIPs d) email = Some ic" "map_of ic ip = Some n"
      by (auto simp: mget_or_def split: option.splits)
    then have n: "0 < n" "ips_ok ic" using U by (auto simp: counts_ok_def ips_ok_def)
    have d': "delConn email ip d = d\<lparr>ld_unlimitedIPs := mput email (if n - 1 \<le> 0 then mdel ip ic else mput ip (n - 1) ic) (ld_unlimitedIPs d)\<rparr>"
      using ic by (simp add: delConn_def Let_def)
    have "cnt (ld_unlimitedIPs d) email i = mget_or 0 ic i" for i using ic by (simp add: cnt_def mget_or_def)
    moreover have "mget_or 0 ic ip = n" using ic by (simp add: mget_or_def)
    ultimately have "refs (delConn email ip d) e i = refs d e i - (if e = email \<and> i = ip then 1 else 0)" for e i
      unfolding d' refs_def using n by (auto simp: count_simps)
    then show ?thesis unfolding d' using L U n by (simp add: ld_ok_def counts_ok_mput ips_ok_mput ips_ok_mdel)
  qed
  show "ld_ok (delConn email ip d)" "refs (delConn email ip d) e i = refs d e i - (if e = email \<and> i = ip then 1 else 0)"
    "ld_connCount (delConn email ip d) = ld_connCount d" "ld_emailToUID (delConn email ip d) = ld_emailToUID d"
    using res by blast+
qed

section \<open>Runs\<close>

text \<open>Runs with the writers of the links the dispatcher has tracked.\<close>

inductive ld_reach :: "LimitDispatcher \<Rightarrow> closeTrackingWriter list \<Rightarrow> bool" where
  ld_new: "ld_reach limitDispatcherFactory []"
| ld_limits: "ld_reach d ws \<Longrightarrow> ld_reach (UpdateLimits uids limits d) ws"
| ld_dispatch: "ld_reach d ws \<Longrightarrow> Dispatch si tcp inner d = (r, d') \<Longrightarrow>
    ld_reach d' (ws @ (case r of Inr (Some w) \<Rightarrow> [w] | _ \<Rightarrow> []))"
| ld_dispatch_link: "ld_reach d ws \<Longrightarrow> DispatchLink si tcp inner d = (r, w, d') \<Longrightarrow>
    ld_reach d' (ws @ (case w of Some w \<Rightarrow> [w] | None \<Rightarrow> []))"
| ld_close: "ld_reach d (xs @ w # ys) \<Longrightarrow> writer_Close w d = (w', d') \<Longrightarrow> ld_reach d' (xs @ w' # ys)"

definition open_links :: "closeTrackingWriter list \<Rightarrow> closeTrackingWriter list" where
  "open_links ws = filter (\<lambda>w. \<not> lw_closed w) ws"

definition open_tcp :: "string \<Rightarrow> string \<Rightarrow> closeTrackingWriter list \<Rightarrow> closeTrackingWriter list" where
  "open_tcp email ip ws = filter (\<lambda>w. \<not> lw_closed w \<and> lw_isTCP w \<and> lw_email w = email \<and> lw_sourceIP w = ip) ws"

definition ld_inv :: "LimitDispatcher \<Rightarrow> closeTrackingWriter list \<Rightarrow> bool" where
  "ld_inv d ws \<longleftrightarrow> ld_ok d \<and> ld_connCount d = int (length (open_links ws)) \<and>
     (\<forall>email ip. refs d email ip = int (length (open_tcp email ip ws)))"

lemma open_append: "open_links (xs @ ys) = open_links xs @ open_links ys"
  "open_tcp email ip (xs @ ys) = open_tcp email ip xs @ open_tcp email ip ys"
  by (simp_all add: open_links_def open_tcp_def)

text \<open>The admission counts a TCP connection that is not yet in the list.\<close>

definition admitted :: "string \<Rightarrow> string \<Rightarrow> bool \<Rightarrow> closeTrackingWriter" where
  "admitted email ip tcp = \<lparr>lw_email = email, lw_sourceIP = ip, lw_isTCP = tcp, lw_closed = False\<rparr>"

lemma open_admitted:
  "open_links [admitted email ip tcp] = [admitted email ip tcp]"
  "open_tcp e i [admitted email ip tcp] = (if tcp \<and> e = email \<and> i = ip then [admitted email ip tcp] else [])"
  by (auto simp: open_links_def open_tcp_def admitted_def)

lemma identifyAndCheck_cases:
  assumes "ld_inv d ws" and "identifyAndCheck si tcp d = (r, d')"
  shows "(\<exists>e. r = Inl e \<and> ld_inv d' ws) \<or> (r = Inr ([], [], False) \<and> d' = d) \<or>
    (\<exists>email ip. email \<noteq> [] \<and> r = Inr (email, ip, tcp) \<and> ld_inv (d'\<lparr>ld_connCount := ld_connCount d' + 1\<rparr>) (ws @ [admitted email ip tcp]))"
proof (cases si)
  case None
  then show ?thesis using assms(2) by (simp add: identifyAndCheck_def)
next
  case (Some a)
  obtain email ip where a: "a = (email, ip)" by (rule prod.exhaust)
  obtain over d1 where c: "checkDeviceLimit email ip tcp d = (over, d1)" by (rule prod.exhaust)
  have ok: "ld_ok d" using assms(1) by (simp add: ld_inv_def)
  note cc = checkDeviceLimit_counts [OF ok c]
  show ?thesis
  proof (cases "email = []")
    case True
    then show ?thesis using assms(2) Some a by (simp add: identifyAndCheck_def)
  next
    case False
    then have r: "r = (if over then Inl (''device limit exceeded for '' @ email) else Inr (email, ip, tcp))" "d' = d1"
      using assms(2) Some a c by (auto simp: identifyAndCheck_def split: if_splits)
    have "over \<Longrightarrow> ld_inv d1 ws" using assms(1) cc by (simp add: ld_inv_def)
    moreover have "\<not> over \<Longrightarrow> ld_inv (d1\<lparr>ld_connCount := ld_connCount d1 + 1\<rparr>) (ws @ [admitted email ip tcp])"
      using assms(1) cc by (auto simp: ld_inv_def ld_ok_def refs_def open_append open_admitted)
    ultimately show ?thesis using False r by auto
  qed
qed

lemma writer_Close_inv:
  assumes "ld_inv d (xs @ w # ys)" and "writer_Close w d = (w', d')"
  shows "ld_inv d' (xs @ w' # ys)"
proof (cases "lw_closed w")
  case True
  then show ?thesis using assms by (simp add: writer_Close_def)
next
  case False
  then have w': "w' = w\<lparr>lw_closed := True\<rparr>"
    and d': "d' = (let d1 = (if lw_isTCP w then delConn (lw_email w) (lw_sourceIP w) d else d) in d1\<lparr>ld_connCount := ld_connCount d1 - 1\<rparr>)"
    using assms(2) by (auto simp: writer_Close_def Let_def)
  have ok: "ld_ok d" using assms(1) by (simp add: ld_inv_def)
  have n: "ld_connCount d = int (length (open_links (xs @ w # ys)))" and r: "\<And>e i. refs d e i = int (length (open_tcp e i (xs @ w # ys)))"
    using assms(1) by (simp_all add: ld_inv_def)
  have l: "int (length (open_links (xs @ w' # ys))) = int (length (open_links (xs @ w # ys))) - 1"
    using False by (simp add: open_links_def w')
  have t: "int (length (open_tcp e i (xs @ w' # ys))) = int (length (open_tcp e i (xs @ w # ys)))
      - (if lw_isTCP w \<and> e = lw_email w \<and> i = lw_sourceIP w then 1 else 0)" for e i
    using False by (auto simp: open_tcp_def w')
  show ?thesis
  proof (cases "lw_isTCP w")
    case True
    have "0 < refs d (lw_email w) (lw_sourceIP w)" using True False by (simp add: r open_tcp_def)
    note dc = delConn_counts [OF ok this]
    show ?thesis using True dc n r l t by (simp add: ld_inv_def d' Let_def ld_ok_def refs_def)
  next
    case no: False
    then show ?thesis using ok n r l t by (simp add: ld_inv_def d' Let_def ld_ok_def refs_def)
  qed
qed

lemma undo_admission:
  assumes "ld_inv (d\<lparr>ld_connCount := ld_connCount d + 1\<rparr>) (ws @ [admitted email ip tcp])"
  shows "ld_inv (if tcp then delConn email ip d else d) ws"
proof -
  have inv: "ld_ok d" "ld_connCount d = int (length (open_links ws))"
    "\<And>e i. refs d e i = int (length (open_tcp e i (ws @ [admitted email ip tcp])))"
    using assms by (simp_all add: ld_inv_def ld_ok_def refs_def open_append open_admitted)
  show ?thesis
  proof (cases tcp)
    case True
    then have "0 < refs d email ip" by (simp add: inv(3) open_append open_admitted)
    from delConn_counts [OF inv(1) this] show ?thesis
      using True inv(2,3) by (simp add: ld_inv_def open_append open_admitted)
  next
    case False
    then show ?thesis using inv by (simp add: ld_inv_def open_append open_admitted)
  qed
qed

lemma Dispatch_inv:
  assumes "ld_inv d ws" and "Dispatch si tcp inner d = (r, d')"
  shows "ld_inv d' (ws @ (case r of Inr (Some w) \<Rightarrow> [w] | _ \<Rightarrow> []))"
proof -
  obtain q d1 where q: "identifyAndCheck si tcp d = (q, d1)" by (rule prod.exhaust)
  from identifyAndCheck_cases [OF assms(1) q] consider
      (rejected) e where "q = Inl e" "ld_inv d1 ws"
    | (unknown) "q = Inr ([], [], False)" "d1 = d"
    | (user) email ip where "email \<noteq> []" "q = Inr (email, ip, tcp)" "ld_inv (d1\<lparr>ld_connCount := ld_connCount d1 + 1\<rparr>) (ws @ [admitted email ip tcp])"
    by blast
  then show ?thesis
  proof cases
    case rejected
    then show ?thesis using assms(2) q by (auto simp: Dispatch_def)
  next
    case unknown
    then show ?thesis using assms q by (auto simp: Dispatch_def split: option.splits)
  next
    case user
    then show ?thesis using assms(2) q undo_admission [OF user(3)]
      by (cases inner) (auto simp: Dispatch_def trackLink_def admitted_def)
  qed
qed

lemma DispatchLink_inv:
  assumes "ld_inv d ws" and "DispatchLink si tcp inner d = (r, w, d')"
  shows "ld_inv d' (ws @ (case w of Some w \<Rightarrow> [w] | None \<Rightarrow> []))"
proof -
  obtain q d1 where q: "identifyAndCheck si tcp d = (q, d1)" by (rule prod.exhaust)
  show ?thesis using identifyAndCheck_cases [OF assms(1) q] assms q
    by (auto simp: DispatchLink_def trackLink_def admitted_def)
qed

lemma ld_reach_inv: "ld_reach d ws \<Longrightarrow> ld_inv d ws"
proof (induction rule: ld_reach.induct)
  case ld_new
  show ?case by (simp add: ld_inv_def limitDispatcherFactory_def ld_ok_def counts_ok_def refs_def cnt_def mget_or_def open_links_def open_tcp_def)
next
  case (ld_limits d ws uids limits)
  then show ?case by (simp add: ld_inv_def UpdateLimits_def ld_ok_def refs_def)
qed (blast intro: Dispatch_inv DispatchLink_inv writer_Close_inv)+

section \<open>What is reported\<close>

text \<open>An entry of a table that counts for the user \<open>u\<close>: its email maps to \<open>u\<close> and it holds an IP.\<close>

definition entry_of :: "(string, int) gomap \<Rightarrow> int \<Rightarrow> string \<times> (string, int) gomap \<Rightarrow> bool" where
  "entry_of uids u = (\<lambda>(e, ips). mget_or 0 uids e = u \<and> ips \<noteq> [])"

lemma fold_limited:
  assumes "u \<noteq> 0"
  shows "mget_or [] (fold (limited_step uids) xs alive) u =
    last (mget_or [] alive u # map (map fst \<circ> snd) (filter (entry_of uids u) xs))"
proof (induction xs arbitrary: alive)
  case (Cons x xs)
  have step: "mget_or [] (limited_step uids x alive) u = (if entry_of uids u x then map fst (snd x) else mget_or [] alive u)"
    using assms by (cases x) (auto simp: limited_step_def entry_of_def Let_def mget_or_mput)
  show ?case using Cons.IH [of "limited_step uids x alive"] step by simp
qed simp

lemma fold_unlimited:
  assumes "u \<noteq> 0"
  shows "set (mget_or [] (fold (unlimited_step uids) xs alive) u) =
    set (mget_or [] alive u) \<union> (\<Union>x \<in> set (filter (entry_of uids u) xs). set (aliveIPs (snd x)))"
proof (induction xs arbitrary: alive)
  case (Cons x xs)
  have none: "aliveIPs [] = []" by (simp add: aliveIPs_def)
  have step: "set (mget_or [] (unlimited_step uids x alive) u) =
      set (mget_or [] alive u) \<union> (if entry_of uids u x then set (aliveIPs (snd x)) else {})"
    using assms none by (cases x)
      (auto simp: unlimited_step_def entry_of_def Let_def map_of_mput mget_or_def [of "[]"] mget_or_mput split: option.splits if_splits)
  show ?case using Cons.IH [of "unlimited_step uids x alive"] step by (simp add: Un_assoc)
qed simp

lemma alive_counted:
  assumes "ips_ok ips"
  shows "fst ` set ips = {ip. 0 < mget_or 0 ips ip}" and "set (aliveIPs ips) = {ip. 0 < mget_or 0 ips ip}"
proof -
  have m: "(ip, n) \<in> set ips \<longleftrightarrow> map_of ips ip = Some n" for ip n using assms wf_map_of_iff unfolding ips_ok_def by metis
  have pos: "map_of ips ip = Some n \<Longrightarrow> 0 < n" for ip n using assms by (simp add: ips_ok_def)
  have key: "(\<exists>n. (ip, n) \<in> set ips) \<longleftrightarrow> 0 < mget_or 0 ips ip" for ip
    unfolding m using pos by (auto simp: mget_or_def split: option.splits)
  have "x \<in> fst ` set ips \<longleftrightarrow> (\<exists>n. (x, n) \<in> set ips)" for x by force
  then show a: "fst ` set ips = {ip. 0 < mget_or 0 ips ip}" by (simp add: key set_eq_iff)
  have "filter (\<lambda>(ip, n). 0 < n) ips = ips" using m pos by (auto simp: filter_id_conv)
  then show "set (aliveIPs ips) = {ip. 0 < mget_or 0 ips ip}" unfolding aliveIPs_def a [symmetric] by simp
qed

lemma entry_alive:
  assumes "counts_ok t" and "(e, ips) \<in> set t"
  shows "fst ` set ips = {ip. 0 < cnt t e ip}" and "set (aliveIPs ips) = {ip. 0 < cnt t e ip}"
proof -
  have "map_of t e = Some ips" using assms wf_map_of_iff unfolding counts_ok_def by metis
  then have "mget_or [] t e = ips" by (simp add: mget_or_def)
  then show "fst ` set ips = {ip. 0 < cnt t e ip}" and "set (aliveIPs ips) = {ip. 0 < cnt t e ip}"
    using alive_counted [OF ips_ok_get [OF assms(1), of e]] by (simp_all add: cnt_def)
qed

lemma counted_entry:
  assumes "counts_ok t" and "0 < cnt t e ip"
  obtains ips where "(e, ips) \<in> set t" and "ips \<noteq> []"
proof -
  have "mget_or [] t e \<noteq> []" using assms(2) by (auto simp: cnt_def mget_or_def [of 0])
  then obtain ips where "map_of t e = Some ips" and "ips \<noteq> []" by (auto simp: mget_or_def split: option.splits)
  then show ?thesis using that map_of_SomeD by metis
qed

lemma refs_pos:
  assumes "ld_ok d"
  shows "0 < refs d e ip \<longleftrightarrow> 0 < cnt (ld_limitedIPs d) e ip \<or> 0 < cnt (ld_unlimitedIPs d) e ip"
  using assms cnt_nonneg [of "ld_limitedIPs d" e ip] cnt_nonneg [of "ld_unlimitedIPs d" e ip]
  unfolding refs_def ld_ok_def by linarith

text \<open>What is reported of a user: the IPs of the last of its entries in the table of limited users, and
  those of all its entries in the other table.\<close>

lemma reported_set:
  assumes "u \<noteq> 0"
  shows "set (mget_or [] (fst (GetConnectionState d)) u) =
    set (last ([] # map (map fst \<circ> snd) (filter (entry_of (ld_emailToUID d) u) (ld_limitedIPs d)))) \<union>
    (\<Union>x \<in> set (filter (entry_of (ld_emailToUID d) u) (ld_unlimitedIPs d)). set (aliveIPs (snd x)))"
  unfolding GetConnectionState_def fst_conv fold_unlimited [OF assms] fold_limited [OF assms] by (simp add: mget_or_def)

lemma reported_sound:
  assumes ok: "ld_ok d" and "u \<noteq> 0" and "ip \<in> set (mget_or [] (fst (GetConnectionState d)) u)"
  shows "\<exists>e. mget_or 0 (ld_emailToUID d) e = u \<and> 0 < refs d e ip"
proof -
  have L: "counts_ok (ld_limitedIPs d)" and U: "counts_ok (ld_unlimitedIPs d)" using ok by (simp_all add: ld_ok_def)
  define xs where "xs = filter (entry_of (ld_emailToUID d) u) (ld_limitedIPs d)"
  consider (limited) "ip \<in> set (last ([] # map (map fst \<circ> snd) xs))"
    | (unlimited) x where "x \<in> set (filter (entry_of (ld_emailToUID d) u) (ld_unlimitedIPs d))" "ip \<in> set (aliveIPs (snd x))"
    using assms(3) unfolding reported_set [OF assms(2)] xs_def by blast
  then show ?thesis
  proof cases
    case limited
    then have "xs \<noteq> []" by auto
    then have "ip \<in> fst ` set (snd (last xs))" and "last xs \<in> set xs" using limited by (simp_all add: last_map)
    then show ?thesis using entry_alive(1) [OF L, of "fst (last xs)" "snd (last xs)"] refs_pos [OF ok]
      by (auto simp: xs_def entry_of_def split: prod.splits)
  next
    case unlimited
    then show ?thesis using entry_alive(2) [OF U, of "fst x" "snd x"] refs_pos [OF ok]
      by (auto simp: entry_of_def split: prod.splits)
  qed
qed

lemma reported_complete:
  assumes ok: "ld_ok d" and "u \<noteq> 0" and "mget_or 0 (ld_emailToUID d) email = u" and pos: "0 < refs d email ip"
    and one: "\<And>e i. mget_or 0 (ld_emailToUID d) e = u \<Longrightarrow> 0 < refs d e i \<Longrightarrow> e = email"
  shows "ip \<in> set (mget_or [] (fst (GetConnectionState d)) u)"
proof -
  have L: "counts_ok (ld_limitedIPs d)" and U: "counts_ok (ld_unlimitedIPs d)" using ok by (simp_all add: ld_ok_def)
  consider (limited) "0 < cnt (ld_limitedIPs d) email ip" | (unlimited) "0 < cnt (ld_unlimitedIPs d) email ip"
    using pos refs_pos [OF ok] by blast
  then show ?thesis
  proof cases
    case limited
    obtain ips where m: "(email, ips) \<in> set (ld_limitedIPs d)" and "ips \<noteq> []" using counted_entry [OF L limited] .
    define xs where "xs = filter (entry_of (ld_emailToUID d) u) (ld_limitedIPs d)"
    have "xs \<noteq> []" using m \<open>ips \<noteq> []\<close> assms(3) by (auto simp: xs_def filter_empty_conv entry_of_def)
    then have mem: "last xs \<in> set xs" by simp
    then have x: "last xs \<in> set (ld_limitedIPs d)" and u: "mget_or 0 (ld_emailToUID d) (fst (last xs)) = u" and "snd (last xs) \<noteq> []"
      by (auto simp: xs_def entry_of_def split: prod.splits)
    have keys: "fst ` set (snd (last xs)) = {i. 0 < cnt (ld_limitedIPs d) (fst (last xs)) i}"
      using entry_alive(1) [OF L, of "fst (last xs)" "snd (last xs)"] x by simp
    obtain i where "0 < cnt (ld_limitedIPs d) (fst (last xs)) i" using keys \<open>snd (last xs) \<noteq> []\<close> by (cases "snd (last xs)") auto
    then have "fst (last xs) = email" using one [OF u] refs_pos [OF ok] by blast
    then have "ip \<in> fst ` set (snd (last xs))" using keys limited by simp
    then show ?thesis using \<open>xs \<noteq> []\<close> unfolding reported_set [OF assms(2)] xs_def [symmetric] by (simp add: last_map)
  next
    case unlimited
    obtain ips where m: "(email, ips) \<in> set (ld_unlimitedIPs d)" and "ips \<noteq> []" using counted_entry [OF U unlimited] .
    then have "(email, ips) \<in> set (filter (entry_of (ld_emailToUID d) u) (ld_unlimitedIPs d))" using assms(3) by (simp add: entry_of_def)
    moreover have "ip \<in> set (aliveIPs ips)" using entry_alive(2) [OF U m] unlimited by simp
    ultimately show ?thesis unfolding reported_set [OF assms(2)] by force
  qed
qed

text \<open>
  C10. However links are dispatched, refused, closed or interrupted, and however the users' limits change
  while links are open: the connection count is the number of open links, and the references of an email
  and an IP, over both tables, are its open TCP links. Several emails may map to one user (the kernel maps
  both \<open>user@ID\<close> and the UUID to the ID): every IP reported for the user has an open TCP link under
  one of them, and when the open TCP links of the user all run under one of its emails, as they do when every
  account is created under \<open>user@ID\<close>, the IPs reported are exactly those with an open TCP link.
\<close>

theorem dispatcher_books:
  assumes "ld_reach d ws" and "u \<noteq> 0"
  defines "online \<equiv> {i. \<exists>e. mget_or 0 (ld_emailToUID d) e = u \<and> open_tcp e i ws \<noteq> []}"
  shows "snd (GetConnectionState d) = int (length (open_links ws)) \<and>
    (\<forall>e i. refs d e i = int (length (open_tcp e i ws))) \<and>
    set (mget_or [] (fst (GetConnectionState d)) u) \<subseteq> online \<and>
    ((\<exists>email. \<forall>e i. mget_or 0 (ld_emailToUID d) e = u \<and> open_tcp e i ws \<noteq> [] \<longrightarrow> e = email) \<longrightarrow>
      set (mget_or [] (fst (GetConnectionState d)) u) = online)"
proof -
  have inv: "ld_inv d ws" using assms(1) by (rule ld_reach_inv)
  then have ok: "ld_ok d" and refs: "refs d e i = int (length (open_tcp e i ws))" for e i by (simp_all add: ld_inv_def)
  have open_iff: "open_tcp e i ws \<noteq> [] \<longleftrightarrow> 0 < refs d e i" for e i by (simp add: refs)
  have sound: "set (mget_or [] (fst (GetConnectionState d)) u) \<subseteq> online"
    using reported_sound [OF ok assms(2)] by (auto simp: online_def open_iff)
  moreover have "online \<subseteq> set (mget_or [] (fst (GetConnectionState d)) u)"
    if "\<And>e i. mget_or 0 (ld_emailToUID d) e = u \<Longrightarrow> open_tcp e i ws \<noteq> [] \<Longrightarrow> e = email" for email
  proof
    fix i assume "i \<in> online"
    then obtain e where e: "mget_or 0 (ld_emailToUID d) e = u" "0 < refs d e i" by (auto simp: online_def open_iff)
    show "i \<in> set (mget_or [] (fst (GetConnectionState d)) u)"
      by (rule reported_complete [OF ok assms(2) e]) (metis e that open_iff)
  qed
  ultimately show ?thesis using inv refs by (auto simp: ld_inv_def GetConnectionState_def)
qed

text \<open>User 7 with the two emails the kernel maps to it opens a TCP link with a limit of one device, loses
  the limit and opens another from the same IP; the first is closed.\<close>

abbreviation demo_uids :: "(string, int) gomap" where
  "demo_uids \<equiv> [(''user@7'', 7), (''b831'', 7)]"

definition demo_ld :: "LimitDispatcher \<times> closeTrackingWriter list" where
  "demo_ld =
     (let d0 = UpdateLimits demo_uids [(''user@7'', 1), (''b831'', 1)] limitDispatcherFactory;
          (r1, w1, d1) = DispatchLink (Some (''user@7'', ''10.0.0.1'')) True None d0;
          d2 = UpdateLimits demo_uids [] d1;
          (r2, w2, d3) = DispatchLink (Some (''user@7'', ''10.0.0.1'')) True None d2;
          (w3, d4) = writer_Close (the w1) d3
      in (d4, [w3, the w2]))"

lemma demo_ld_reach: "ld_reach (fst demo_ld) (snd demo_ld)"
proof -
  define d0 where "d0 = UpdateLimits demo_uids [(''user@7'', 1), (''b831'', 1)] limitDispatcherFactory"
  obtain r1 w1 d1 where 1: "DispatchLink (Some (''user@7'', ''10.0.0.1'')) True None d0 = (r1, w1, d1)" by (rule prod_cases3)
  define d2 where "d2 = UpdateLimits demo_uids [] d1"
  obtain r2 w2 d3 where 2: "DispatchLink (Some (''user@7'', ''10.0.0.1'')) True None d2 = (r2, w2, d3)" by (rule prod_cases3)
  obtain w3 d4 where 3: "writer_Close (the w1) d3 = (w3, d4)" by (rule prod.exhaust)
  have s1: "w1 = Some (admitted ''user@7'' ''10.0.0.1'' True)"
  proof -
    have "fst (snd (DispatchLink (Some (''user@7'', ''10.0.0.1'')) True None
        (UpdateLimits demo_uids [(''user@7'', 1), (''b831'', 1)] limitDispatcherFactory))) = Some (admitted ''user@7'' ''10.0.0.1'' True)" by code_simp
    then show ?thesis using 1 by (simp add: d0_def)
  qed
  have s2: "w2 = Some (admitted ''user@7'' ''10.0.0.1'' True)"
    using 2 by (auto simp: DispatchLink_def identifyAndCheck_def checkDeviceLimit_def d2_def UpdateLimits_def mget_or_def trackLink_def admitted_def)
  have "ld_reach d0 []" unfolding d0_def by (intro ld_limits ld_new)
  from ld_dispatch_link [OF this 1] have "ld_reach d2 ([] @ [the w1])" unfolding d2_def by (simp add: s1 ld_limits)
  from ld_dispatch_link [OF this 2] have "ld_reach d3 ([] @ the w1 # [the w2])" by (simp add: s2)
  from ld_close [OF this 3] show ?thesis using 1 2 3 by (simp add: demo_ld_def d0_def d2_def Let_def)
qed

lemma dispatcher_books_witness:
  "GetConnectionState (fst demo_ld) = ([(7, [''10.0.0.1''])], 1) \<and>
   {''10.0.0.1''} = {i. \<exists>e. mget_or 0 demo_uids e = 7 \<and> open_tcp e i (snd demo_ld) \<noteq> []}"
proof -
  have u: "ld_emailToUID (fst demo_ld) = demo_uids" by code_simp
  have w: "map (\<lambda>w. lw_email w) (snd demo_ld) = [''user@7'', ''user@7'']" by code_simp
  then have "lw_email w = ''user@7''" if "w \<in> set (snd demo_ld)" for w using that by (metis (no_types, lifting) image_eqI list.set_map set_ConsD empty_iff empty_set)
  then have one: "\<exists>email. \<forall>e i. mget_or 0 (ld_emailToUID (fst demo_ld)) e = 7 \<and> open_tcp e i (snd demo_ld) \<noteq> [] \<longrightarrow> e = email"
    by (intro exI [of _ "''user@7''"]) (auto simp: open_tcp_def filter_empty_conv)
  have r: "GetConnectionState (fst demo_ld) = ([(7, [''10.0.0.1''])], 1)" by code_simp
  then have "set (mget_or [] (fst (GetConnectionState (fst demo_ld))) 7) = {''10.0.0.1''}" by (simp add: mget_or_def)
  with dispatcher_books [OF demo_ld_reach, of 7] one u have "{''10.0.0.1''} = {i. \<exists>e. mget_or 0 demo_uids e = 7 \<and> open_tcp e i (snd demo_ld) \<noteq> []}"
    by simp
  with r show ?thesis by simp
qed

text \<open>
  Were a limited user's links to run under two of its emails, only the IPs of one entry would be reported:
  the report replaces the list of the ID for each email of the table of limited users.
\<close>

lemma second_email_unreported:
  "mget_or [] (fst (GetConnectionState \<lparr>ld_limitedIPs = [(''user@7'', [(''10.0.0.1'', 1)]), (''b831'', [(''10.0.0.2'', 1)])],
     ld_deviceLimits = [(''user@7'', 2), (''b831'', 2)], ld_emailToUID = demo_uids, ld_unlimitedIPs = [], ld_connCount = 2\<rparr>)) 7 = [''10.0.0.2'']"
  by code_simp

section \<open>The two kernels decide alike\<close>

lemma checkDeviceLimit_iff:
  fixes d :: LimitDispatcher and email :: string
  assumes "ld_ok d"
  defines "K \<equiv> fst ` set (mget_or [] (ld_limitedIPs d) email)" and "limit \<equiv> mget_or 0 (ld_deviceLimits d) email"
  shows "fst (checkDeviceLimit email ip tcp d) \<longleftrightarrow> 0 < limit \<and> ip \<notin> K \<and> limit \<le> int (card {y \<in> K. y < ip})"
proof -
  define ips where "ips = mget_or [] (ld_limitedIPs d) email"
  have ok: "ips_ok ips" using assms(1) ips_ok_get by (simp add: ips_def ld_ok_def)
  have K: "set (map fst ips) = K" "distinct (map fst ips)" using ok by (simp_all add: K_def ips_def ips_ok_def wf_map_def)
  have in_K: "ip \<in> K \<longleftrightarrow> 0 < mget_or 0 ips ip" using alive_counted(1) [OF ok] K(1) by auto
  have "fst (checkDeviceLimit email ip tcp d) \<longleftrightarrow>
      0 < limit \<and> ip \<notin> K \<and> (if int (length (map fst ips)) < limit then False else \<not> among_first limit (map fst ips) ip)"
    unfolding in_K by (auto simp: checkDeviceLimit_def Let_def limit_def [symmetric] ips_def [symmetric])
  then show ?thesis using gate_with_list [OF K(2), of ip limit] unfolding K(1) by auto
qed

text \<open>
  The gates of the two kernels agree: for a user with the same limit and the same alive IPs, and with
  no data of other nodes, sing-box refuses a connection exactly when Xray does, over TCP and over UDP.
\<close>

lemma gates_agree:
  assumes "ct_reach t cs" and "map_of (ct_users t) uid = Some u" and "ct_globalLastUpdate t = None"
    and "ld_reach d ws" and "mget_or 0 (ld_deviceLimits d) email = limit"
    and "fst ` set (mget_or [] (ld_limitedIPs d) email) = fst ` set (us_ips u)"
  shows "checkDeviceGate now (Some u) uid ip limit t = fst (checkDeviceLimit email ip tcp d)"
proof -
  have "ld_ok d" using ld_reach_inv [OF assms(4)] by (simp add: ld_inv_def)
  moreover have "known_ips now uid u t = fst ` set (us_ips u)" using assms(3) by (simp add: known_ips_def global_known_def)
  ultimately show ?thesis
    using checkDeviceGate_iff [OF reach_gate [OF assms(1,2)], of now uid ip limit] checkDeviceLimit_iff [of d email ip tcp] assms(5,6) by simp
qed

text \<open>User \<open>a\<close> with a limit of one device and an open link from one IP.\<close>

definition demo_limited :: "LimitDispatcher \<times> closeTrackingWriter list" where
  "demo_limited =
     (let (r1, w1, d1) = DispatchLink (Some (''a'', ''10.0.0.1'')) True None (UpdateLimits [(''a'', 7)] [(''a'', 1)] limitDispatcherFactory)
      in (d1, case w1 of Some w \<Rightarrow> [w] | None \<Rightarrow> []))"

lemma demo_limited_reach: "ld_reach (fst demo_limited) (snd demo_limited)"
proof -
  obtain r w d where 1: "DispatchLink (Some (''a'', ''10.0.0.1'')) True None (UpdateLimits [(''a'', 7)] [(''a'', 1)] limitDispatcherFactory) = (r, w, d)"
    by (rule prod_cases3)
  from ld_dispatch_link [OF ld_limits [OF ld_new] 1] show ?thesis unfolding demo_limited_def by (simp add: 1)
qed

lemma gates_agree_witness:
  "\<exists>u. map_of (ct_users (fst demo_ct)) 7 = Some u \<and>
    checkDeviceGate 0 (Some u) 7 ''10.0.0.3'' 1 (fst demo_ct) = fst (checkDeviceLimit ''a'' ''10.0.0.3'' True (fst demo_limited))"
proof -
  define u where "u = the (map_of (ct_users (fst demo_ct)) 7)"
  have u: "map_of (ct_users (fst demo_ct)) 7 = Some u" unfolding u_def by code_simp
  have "fst ` set (mget_or [] (ld_limitedIPs (fst demo_limited)) ''a'') = fst ` set (us_ips (the (map_of (ct_users (fst demo_ct)) 7)))" by code_simp
  then have k: "fst ` set (mget_or [] (ld_limitedIPs (fst demo_limited)) ''a'') = fst ` set (us_ips u)" by (simp add: u_def)
  have g: "ct_globalLastUpdate (fst demo_ct) = None" by code_simp
  have l: "mget_or 0 (ld_deviceLimits (fst demo_limited)) ''a'' = 1" by code_simp
  from gates_agree [OF demo_ct_reach u g demo_limited_reach l k, of 0 "''10.0.0.3''" True] u show ?thesis by blast
qed

end
