(* ===== verification/ControlPlanes.thy ===== *)
theory ControlPlanes
  imports ServiceRun
begin

text \<open>
  The control planes of the panel, machine and standalone modes (\<^verbatim>\<open>internal/controlplane/panel.go\<close>,
  \<^verbatim>\<open>machine.go\<close>, \<^verbatim>\<open>local.go\<close>): what a service starts with, what it polls, and how pushed events reach it.

  The answers of the panel's REST client are arguments: \<open>None\<close> is an error. A push client is its
  number. The event and status channels are their buffers, of capacity 16 and 4; a send that would block
  is dropped.
\<close>

section \<open>Types\<close>

datatype cp_error = HandshakeFailed | ConfigFetchFailed | ConfigMissing | UsersFetchFailed | NormalizeFailed verror | CtxDone

record PanelHandshake =
  hs_Enabled :: bool
  hs_WSURL :: string
  hs_PushInterval :: int
  hs_PullInterval :: int

record MachineNode =
  mn_ID :: int
  mn_Type :: string
  mn_Name :: string

record panel_WSEvent =
  we_Type :: string
  we_Config :: "NodeConfig option"
  we_Users :: "panel_User slice"
  we_DeltaAction :: string
  we_DeltaUsers :: "panel_User slice"
  we_DeviceUsers :: device_users
  we_NodeID :: int
  we_Nodes :: "MachineNode slice"

type_synonym read_file = "string \<Rightarrow> file_result"
type_synonym parse_doc = "bool \<Rightarrow> string \<Rightarrow> (string, any) gomap option"

definition Bootstrap_zero :: Bootstrap where
  "Bootstrap_zero = \<lparr>bs_Revision = 0, bs_PushInterval = 0, bs_PullInterval = 0, bs_Push = None, bs_Config = None,
     bs_Users = None, bs_Mailbox = None\<rparr>"

section \<open>Start and poll\<close>

text \<open>The first configuration and users over REST, common to the panel and machine modes.\<close>

definition initial_fetch ::
  "read_file \<Rightarrow> parse_doc \<Rightarrow> KernelConfig \<Rightarrow> NodeConfig option option \<Rightarrow> panel_User slice option \<Rightarrow> Bootstrap \<Rightarrow> cp_error + Bootstrap" where
  "initial_fetch readFile parseDoc kcfg config users bootstrap =
     (case config of
        None \<Rightarrow> Inl ConfigFetchFailed
      | Some None \<Rightarrow> Inl ConfigMissing
      | Some (Some nc) \<Rightarrow>
          (case users of
             None \<Rightarrow> Inl UsersFetchFailed
           | Some us \<Rightarrow>
               (case NodeSpecFromPanelValidated readFile parseDoc (Some nc) kcfg of
                  Inl e \<Rightarrow> Inl (NormalizeFailed e)
                | Inr spec \<Rightarrow> Inr (bootstrap\<lparr>bs_Config := spec, bs_Users := UserSpecsFromPanel us\<rparr>))))"

definition panel_Initial ::
  "read_file \<Rightarrow> parse_doc \<Rightarrow> KernelConfig \<Rightarrow> nat \<Rightarrow> PanelHandshake option \<Rightarrow> NodeConfig option option \<Rightarrow>
    panel_User slice option \<Rightarrow> cp_error + Bootstrap" where
  "panel_Initial readFile parseDoc kcfg push handshake config users =
     (case handshake of
        None \<Rightarrow> Inl HandshakeFailed
      | Some hs \<Rightarrow>
          (let bootstrap = Bootstrap_zero\<lparr>bs_PushInterval := hs_PushInterval hs, bs_PullInterval := hs_PullInterval hs\<rparr> in
           if hs_Enabled hs \<and> hs_WSURL hs \<noteq> [] then Inr (bootstrap\<lparr>bs_Push := Some push\<rparr>)
           else initial_fetch readFile parseDoc kcfg config users bootstrap))"

text \<open>\<open>registered\<close>: the mailbox the orchestrator's register function returns, \<open>None\<close> when there is no function.\<close>

definition machine_Initial ::
  "read_file \<Rightarrow> parse_doc \<Rightarrow> KernelConfig \<Rightarrow> nat option \<Rightarrow> NodeMailbox option \<Rightarrow> PanelHandshake option \<Rightarrow>
    NodeConfig option option \<Rightarrow> panel_User slice option \<Rightarrow> cp_error + Bootstrap" where
  "machine_Initial readFile parseDoc kcfg push registered handshake config users =
     (let bootstrap = (case handshake of
            None \<Rightarrow> Bootstrap_zero
          | Some hs \<Rightarrow> Bootstrap_zero\<lparr>bs_PushInterval := hs_PushInterval hs, bs_PullInterval := hs_PullInterval hs\<rparr>)
      in case initial_fetch readFile parseDoc kcfg config users bootstrap of
           Inl e \<Rightarrow> Inl e
         | Inr b \<Rightarrow> Inr (if push \<noteq> None then b\<lparr>bs_Mailbox := registered, bs_Push := push\<rparr> else b))"

definition local_Initial ::
  "read_file \<Rightarrow> parse_doc \<Rightarrow> KernelConfig \<Rightarrow> StandaloneConfig option \<Rightarrow> int \<Rightarrow> int \<Rightarrow> bool \<Rightarrow> cp_error + Bootstrap" where
  "local_Initial readFile parseDoc kcfg standalone pushInterval pullInterval cancelled =
     (if cancelled then Inl CtxDone
      else case NodeSpecFromStandaloneValidated readFile parseDoc standalone kcfg of
        Inl e \<Rightarrow> Inl (NormalizeFailed e)
      | Inr spec \<Rightarrow> Inr (Bootstrap_zero\<lparr>bs_PushInterval := pushInterval, bs_PullInterval := pullInterval, bs_Config := spec,
          bs_Users := UserSpecsFromStandalone standalone\<rparr>))"

definition panel_Poll ::
  "read_file \<Rightarrow> parse_doc \<Rightarrow> KernelConfig \<Rightarrow> NodeConfig option option \<Rightarrow> panel_User slice option \<Rightarrow> bool \<Rightarrow> cp_error + Snapshot" where
  "panel_Poll readFile parseDoc kcfg config users cancelled =
     (case config of
        None \<Rightarrow> Inl ConfigFetchFailed
      | Some nc \<Rightarrow>
          (case users of
             None \<Rightarrow> Inl UsersFetchFailed
           | Some us \<Rightarrow>
               if cancelled then Inl CtxDone
               else (case NodeSpecFromPanelValidated readFile parseDoc nc kcfg of
                  Inl e \<Rightarrow> Inl (NormalizeFailed e)
                | Inr spec \<Rightarrow> Inr \<lparr>ss_Revision = 0, ss_Config = spec, ss_Users = UserSpecsFromPanel us\<rparr>)))"

text \<open>The machine mode polls as the panel mode does, with other error texts.\<close>

definition machine_Poll ::
  "read_file \<Rightarrow> parse_doc \<Rightarrow> KernelConfig \<Rightarrow> NodeConfig option option \<Rightarrow> panel_User slice option \<Rightarrow> bool \<Rightarrow> cp_error + Snapshot" where
  "machine_Poll = panel_Poll"

definition local_Poll :: "bool \<Rightarrow> cp_error + Snapshot" where
  "local_Poll cancelled = (if cancelled then Inl CtxDone else Inr \<lparr>ss_Revision = 0, ss_Config = None, ss_Users = None\<rparr>)"

definition panel_Discover :: "nat \<Rightarrow> PanelHandshake option \<Rightarrow> bool \<Rightarrow> cp_error + nat option" where
  "panel_Discover push handshake cancelled =
     (case handshake of
        None \<Rightarrow> Inl HandshakeFailed
      | Some hs \<Rightarrow> if cancelled then Inl CtxDone else if hs_Enabled hs \<and> hs_WSURL hs \<noteq> [] then Inr (Some push) else Inr None)"

definition machine_Discover :: "cp_error + nat option" where
  "machine_Discover = Inr None"

definition local_Discover :: "bool \<Rightarrow> cp_error + nat option" where
  "local_Discover cancelled = (if cancelled then Inl CtxDone else Inr None)"

text \<open>The device report a push client is asked to send.\<close>

definition panel_ReportDevices :: "nat option \<Rightarrow> device_users \<Rightarrow> (nat \<times> (int, string slice) gomap) option" where
  "panel_ReportDevices push devices =
     (case devices of None \<Rightarrow> None | Some d \<Rightarrow> map_option (\<lambda>p. (p, d)) push)"

definition machine_SupportsDeviceReports :: "nat option \<Rightarrow> bool" where
  "machine_SupportsDeviceReports push \<longleftrightarrow> push \<noteq> None"

section \<open>Pushed events\<close>

definition event_type :: "string \<Rightarrow> EventType" where
  "event_type t = (if t = ''sync.config'' then EventSyncConfig else if t = ''sync.users'' then EventSyncUsers
     else if t = ''sync.user.delta'' then EventSyncUserDelta else if t = ''sync.devices'' then EventSyncDevices else OtherEvent t)"

definition TranslateWSEvent :: "read_file \<Rightarrow> parse_doc \<Rightarrow> panel_WSEvent \<Rightarrow> KernelConfig \<Rightarrow> verror + Event" where
  "TranslateWSEvent readFile parseDoc event kcfg =
     (case (case we_Config event of None \<Rightarrow> Inr None | Some nc \<Rightarrow> NodeSpecFromPanelValidated readFile parseDoc (Some nc) kcfg) of
        Inl e \<Rightarrow> Inl e
      | Inr config \<Rightarrow> Inr \<lparr>ev_Type = event_type (we_Type event), ev_Config = config, ev_Users = UserSpecsFromPanel (we_Users event),
          ev_DeltaAction = we_DeltaAction event, ev_DeltaUsers = UserSpecsFromPanel (we_DeltaUsers event),
          ev_DeviceUsers = we_DeviceUsers event\<rparr>)"

type_synonym status = "bool \<times> bool"

definition try_send :: "nat \<Rightarrow> 'a \<Rightarrow> 'a list \<Rightarrow> 'a list" where
  "try_send capacity x buffer = (if length buffer < capacity then buffer @ [x] else buffer)"

text \<open>The two callbacks of \<open>newPushClient\<close>.\<close>

definition push_onEvent :: "read_file \<Rightarrow> parse_doc \<Rightarrow> KernelConfig \<Rightarrow> panel_WSEvent \<Rightarrow> Event list \<times> status list \<Rightarrow> Event list \<times> status list" where
  "push_onEvent readFile parseDoc kcfg event = (\<lambda>(events, statuses).
     (case TranslateWSEvent readFile parseDoc event kcfg of
        Inl e \<Rightarrow> (events, statuses)
      | Inr translated \<Rightarrow>
          if length events < 16 then (events @ [translated], statuses)
          else (events, try_send 4 (True, True) statuses)))"

definition push_onStatus :: "bool \<Rightarrow> Event list \<times> status list \<Rightarrow> Event list \<times> status list" where
  "push_onStatus connected = (\<lambda>(events, statuses). (events, try_send 4 (connected, False) statuses))"

section \<open>What a service starts with\<close>

lemma NodeSpecFromPanelValidated_Inr:
  assumes "NodeSpecFromPanelValidated rf pd nc kcfg = Inr spec"
  shows "spec = NodeSpecFromPanel nc" and "ValidateNodeSpec rf pd spec kcfg = Inr ()"
  using assms by (simp_all add: NodeSpecFromPanelValidated_def Let_def split: sum.splits)

lemma NodeSpecFromStandaloneValidated_Inr:
  assumes "NodeSpecFromStandaloneValidated rf pd sc kcfg = Inr spec"
  shows "spec = NodeSpecFromStandalone sc kcfg" and "ValidateNodeSpec rf pd spec kcfg = Inr ()"
  using assms by (simp_all add: NodeSpecFromStandaloneValidated_def Let_def split: sum.splits)

lemma ValidateNodeSpec_None: "ValidateNodeSpec rf pd None kcfg = Inr ()"
  by (simp add: ValidateNodeSpec_def)

definition boot_ok :: "read_file \<Rightarrow> parse_doc \<Rightarrow> KernelConfig \<Rightarrow> Bootstrap \<Rightarrow> bool" where
  "boot_ok rf pd kcfg b \<longleftrightarrow> (bs_Config b = None \<longrightarrow> bs_Push b \<noteq> None) \<and> ValidateNodeSpec rf pd (bs_Config b) kcfg = Inr ()"

lemma initial_fetch_ok:
  assumes "initial_fetch rf pd kcfg config users b = Inr b'"
  shows "bs_Config b' \<noteq> None" and "ValidateNodeSpec rf pd (bs_Config b') kcfg = Inr ()"
proof -
  obtain nc us spec where v: "NodeSpecFromPanelValidated rf pd (Some nc) kcfg = Inr spec"
    and b': "b' = b\<lparr>bs_Config := spec, bs_Users := UserSpecsFromPanel us\<rparr>"
    using assms by (auto simp: initial_fetch_def split: option.splits sum.splits)
  show "bs_Config b' \<noteq> None" "ValidateNodeSpec rf pd (bs_Config b') kcfg = Inr ()"
    using NodeSpecFromPanelValidated_Inr [OF v] by (simp_all add: b' NodeSpecFromPanel_def)
qed

lemma panel_Initial_ok:
  assumes "panel_Initial rf pd kcfg push hs config users = Inr b"
  shows "boot_ok rf pd kcfg b"
proof (cases "bs_Push b = None")
  case True
  then obtain b0 where "initial_fetch rf pd kcfg config users b0 = Inr b"
    using assms by (auto simp: panel_Initial_def Let_def split: option.splits if_splits)
  from initial_fetch_ok [OF this] show ?thesis by (auto simp: boot_ok_def)
next
  case False
  then show ?thesis
    using assms initial_fetch_ok [of rf pd kcfg config users]
    by (auto simp: panel_Initial_def boot_ok_def Let_def Bootstrap_zero_def ValidateNodeSpec_None split: option.splits if_splits)
qed

lemma machine_Initial_ok:
  assumes "machine_Initial rf pd kcfg push registered hs config users = Inr b"
  shows "boot_ok rf pd kcfg b"
proof -
  obtain b0 b1 where f: "initial_fetch rf pd kcfg config users b0 = Inr b1"
    and b: "b = (if push \<noteq> None then b1\<lparr>bs_Mailbox := registered, bs_Push := push\<rparr> else b1)"
    using assms by (auto simp: machine_Initial_def Let_def split: sum.splits)
  show ?thesis using initial_fetch_ok [OF f] by (auto simp: boot_ok_def b)
qed

lemma local_Initial_ok:
  assumes "local_Initial rf pd kcfg (Some sc) pushInterval pullInterval cancelled = Inr b"
  shows "boot_ok rf pd kcfg b"
  using assms NodeSpecFromStandaloneValidated_Inr [of rf pd "Some sc" kcfg]
  by (auto simp: local_Initial_def boot_ok_def NodeSpecFromStandalone_def Let_def split: sum.splits if_splits)

lemma boot_ok_setup:
  assumes "boot_ok rf pd kcfg b"
  shows "fst (initialSetup en b s) \<noteq> Some ConfigNil"
proof (cases "bs_Config b = None")
  case True
  then show ?thesis using assms by (simp add: initialSetup_def boot_ok_def)
next
  case False
  then show ?thesis
    by (auto simp: initialSetup_def Let_def split: sum.splits prod.splits bool.splits)
qed

text \<open>
  Whatever the panel answers, or with a standalone configuration, a service that gets a bootstrap
  from its control plane never fails for want of a configuration: the configuration is absent only when a
  push client will deliver one, and a configuration that is there has been validated for the kernel.
\<close>

lemma bootstrap_sound:
  assumes "panel_Initial rf pd kcfg push hs config users = Inr b \<or>
    machine_Initial rf pd kcfg mpush registered hs config users = Inr b \<or>
    local_Initial rf pd kcfg (Some sc) pushInterval pullInterval cancelled = Inr b"
  shows "fst (initialSetup en b s) \<noteq> Some ConfigNil \<and> (bs_Config b = None \<longrightarrow> bs_Push b \<noteq> None) \<and>
    ValidateNodeSpec rf pd (bs_Config b) kcfg = Inr ()"
proof -
  have "boot_ok rf pd kcfg b"
    using assms by (elim disjE) (erule panel_Initial_ok machine_Initial_ok local_Initial_ok)+
  then show ?thesis using boot_ok_setup [of rf pd kcfg b en s] by (simp add: boot_ok_def)
qed

definition demo_machine_boot :: Bootstrap where
  "demo_machine_boot = Bootstrap_zero\<lparr>bs_Config := NodeSpecFromPanel (ToPanel (Some demo_spec)), bs_Users := Some [],
     bs_Mailbox := Some NewNodeMailbox, bs_Push := Some 1\<rparr>"

lemma bootstrap_sound_witness:
  "fst (initialSetup demo_env demo_machine_boot demo_service) \<noteq> Some ConfigNil"
proof -
  obtain nc where nc: "ToPanel (Some demo_spec) = Some nc" by (auto simp: ToPanel_def)
  have "NodeSpecFromPanelValidated (\<lambda>_. FileMissing) (\<lambda>_ _. None) (Some nc) (demo_kcfg ''xray'') = Inr (NodeSpecFromPanel (Some nc))"
    using demo_spec_valid [of "\<lambda>_ _. None"] by (simp add: NodeSpecFromPanelValidated_def nc Let_def)
  then have "machine_Initial (\<lambda>_. FileMissing) (\<lambda>_ _. None) (demo_kcfg ''xray'') (Some 1) (Some NewNodeMailbox) None (Some (ToPanel (Some demo_spec)))
      (Some (Some [])) = Inr demo_machine_boot"
    by (simp add: machine_Initial_def initial_fetch_def demo_machine_boot_def nc UserSpecsFromPanel_def)
  then show ?thesis
    using bootstrap_sound [of "\<lambda>_. FileMissing" "\<lambda>_ _. None" "demo_kcfg ''xray''" 0 None "Some (ToPanel (Some demo_spec))" "Some (Some [])"
        demo_machine_boot "Some 1" "Some NewNodeMailbox" demo_standalone 0 0 False demo_env demo_service] by simp
qed

section \<open>Events are not lost\<close>

text \<open>
  An event pushed by the panel that can be translated is queued for the service behind all earlier
  ones, or, when the queue is full, a status change is waiting, on which the service fetches the whole
  state again; nothing queued before is dropped.
\<close>

lemma push_event_not_lost:
  assumes "TranslateWSEvent rf pd event kcfg = Inr e" and "push_onEvent rf pd kcfg event (events, statuses) = (events', statuses')"
  shows "(events' = events @ [e] \<and> statuses' = statuses) \<or>
    (length events \<ge> 16 \<and> events' = events \<and> statuses' \<noteq> [] \<and> take (length statuses) statuses' = statuses \<and>
     (length statuses < 4 \<longrightarrow> List.last statuses' = (True, True)))"
  using assms by (auto simp: push_onEvent_def try_send_def split: if_splits)

definition demo_ws_event :: panel_WSEvent where
  "demo_ws_event = \<lparr>we_Type = ''sync.users'', we_Config = None, we_Users = Some [], we_DeltaAction = [], we_DeltaUsers = None,
     we_DeviceUsers = None, we_NodeID = 5, we_Nodes = None\<rparr>"

lemma push_event_not_lost_witness:
  "snd (push_onEvent (\<lambda>_. FileMissing) (\<lambda>_ _. None) (demo_kcfg ''xray'') demo_ws_event (replicate 16 (no_event EventSyncUsers), [])) = [(True, True)]"
proof -
  let ?e = "(no_event EventSyncUsers)\<lparr>ev_Users := Some []\<rparr>" and ?q = "replicate 16 (no_event EventSyncUsers)"
  let ?out = "push_onEvent (\<lambda>_. FileMissing) (\<lambda>_ _. None) (demo_kcfg ''xray'') demo_ws_event (?q, [])"
  have t: "TranslateWSEvent (\<lambda>_. FileMissing) (\<lambda>_ _. None) demo_ws_event (demo_kcfg ''xray'') = Inr ?e" by code_simp
  have "fst ?out = ?q" by code_simp
  moreover have "length (snd ?out) = 1" by code_simp
  ultimately show ?thesis using push_event_not_lost [OF t prod.collapse [symmetric], of ?q "[]"] by (auto simp: length_Suc_conv)
qed

end
