(* ===== verification/Machine.thy ===== *)
theory Machine
  imports ControlPlanes Orchestrator
begin

text \<open>
  The orchestrator of machine mode (\<^verbatim>\<open>internal/machine/machine.go\<close>): it runs one service per node the panel
  has bound to the machine, and hands the events of one shared push connection to the nodes' mailboxes.

  A service is a number, given when it is started; its mailbox, which it keeps a pointer to, is the entry
  of that number in a store. Answers of the panel are arguments (\<open>None\<close>: failed). Each mutex-protected
  section of \<open>startNode\<close> and \<open>stopNode\<close> that another goroutine can interleave with is a definition
  of its own: discovery runs on a timer and, for \<^verbatim>\<open>sync.nodes\<close>, in a goroutine of its own.
\<close>

section \<open>State\<close>

record machine_Orchestrator =
  mo_nodes :: "(int, nat) gomap"
  mo_mailboxes :: "(int, nat) gomap"
  mo_boxes :: "(nat, NodeMailbox) gomap"
  mo_statuses :: "(int, StatusChange list) gomap"
  mo_running :: "(nat \<times> int \<times> string) list"
  mo_next :: nat
  mo_ws :: bool
  mo_pullInterval :: int
  mo_pushInterval :: int

definition machine_New :: machine_Orchestrator where
  "machine_New = \<lparr>mo_nodes = [], mo_mailboxes = [], mo_boxes = [], mo_statuses = [], mo_running = [], mo_next = 0, mo_ws = False,
     mo_pullInterval = 0, mo_pushInterval = 0\<rparr>"

section \<open>Node lifecycle\<close>

definition machine_kernel :: "KernelConfig \<Rightarrow> NodeConfig option option \<Rightarrow> string" where
  "machine_kernel kcfg config =
     (case config of Some (Some nc) \<Rightarrow> ResolveKernelForTransport (nc_Network nc) (kc_Type kcfg) | _ \<Rightarrow> kc_Type kcfg)"

definition machine_startNode ::
  "KernelConfig \<Rightarrow> NodeConfig option option \<Rightarrow> MachineNode \<Rightarrow> machine_Orchestrator \<Rightarrow> machine_Orchestrator" where
  "machine_startNode kcfg config mn m =
     (if mhas (mo_nodes m) (mn_ID mn) then m
      else
        (let k = mo_next m in
         m\<lparr>mo_nodes := mput (mn_ID mn) k (mo_nodes m), mo_mailboxes := mput (mn_ID mn) k (mo_mailboxes m),
           mo_boxes := mput k NewNodeMailbox (mo_boxes m),
           mo_running := mo_running m @ [(k, mn_ID mn, machine_kernel kcfg config)], mo_next := Suc k\<rparr>))"

definition machine_registerNode :: "int \<Rightarrow> machine_Orchestrator \<Rightarrow> machine_Orchestrator" where
  "machine_registerNode nodeID m = m\<lparr>mo_statuses := mput nodeID [] (mo_statuses m)\<rparr>"

definition machine_unregisterNode :: "int \<Rightarrow> machine_Orchestrator \<Rightarrow> machine_Orchestrator" where
  "machine_unregisterNode nodeID m = m\<lparr>mo_mailboxes := mdel nodeID (mo_mailboxes m), mo_statuses := mdel nodeID (mo_statuses m)\<rparr>"

text \<open>The end of a service's goroutine, whether it was cancelled or failed.\<close>

definition machine_exited :: "nat \<Rightarrow> int \<Rightarrow> machine_Orchestrator \<Rightarrow> machine_Orchestrator" where
  "machine_exited k nodeID m = machine_unregisterNode nodeID (m\<lparr>mo_running := filter (\<lambda>(j, _). j \<noteq> k) (mo_running m)\<rparr>)"

definition machine_alive :: "nat \<Rightarrow> machine_Orchestrator \<Rightarrow> bool" where
  "machine_alive k m \<longleftrightarrow> k \<in> fst ` set (mo_running m)"

text \<open>\<open>stopNode\<close> until it waits, with the service it cancels, and the whole of it: the wait ends with the
  goroutine, at once if that has ended before.\<close>

definition machine_stop_begin :: "int \<Rightarrow> machine_Orchestrator \<Rightarrow> nat option \<times> machine_Orchestrator" where
  "machine_stop_begin nodeID m =
     (case map_of (mo_nodes m) nodeID of
        None \<Rightarrow> (None, m)
      | Some k \<Rightarrow> (Some k, m\<lparr>mo_nodes := mdel nodeID (mo_nodes m), mo_mailboxes := mdel nodeID (mo_mailboxes m)\<rparr>))"

definition machine_stopNode :: "int \<Rightarrow> machine_Orchestrator \<Rightarrow> machine_Orchestrator" where
  "machine_stopNode nodeID m =
     (case machine_stop_begin nodeID m of
        (None, m1) \<Rightarrow> m1
      | (Some k, m1) \<Rightarrow> if machine_alive k m1 then machine_exited k nodeID m1 else m1)"

definition machine_stopAll :: "machine_Orchestrator \<Rightarrow> machine_Orchestrator" where
  "machine_stopAll m =
     (fold (\<lambda>(nodeID, k) s. if machine_alive k s then machine_exited k nodeID s else s) (mo_nodes m) m)\<lparr>mo_ws := False\<rparr>"

definition machine_rediscover ::
  "KernelConfig \<Rightarrow> (int list \<Rightarrow> int list) \<Rightarrow> MachineNode list option \<Rightarrow> (int \<Rightarrow> NodeConfig option option) \<Rightarrow>
    machine_Orchestrator \<Rightarrow> machine_Orchestrator" where
  "machine_rediscover kcfg rng response configs m =
     (case response of
        None \<Rightarrow> m
      | Some nodes \<Rightarrow>
          (let wanted = mbuild mn_ID (\<lambda>n. n) nodes;
               toRemove = filter (\<lambda>nodeID. \<not> mhas wanted nodeID) (rng (map fst (mo_nodes m)))
           in fold (\<lambda>n. machine_startNode kcfg (configs (mn_ID n)) n) nodes (fold machine_stopNode toRemove m)))"

definition machine_applyIntervals :: "int \<Rightarrow> int \<Rightarrow> machine_Orchestrator \<Rightarrow> machine_Orchestrator" where
  "machine_applyIntervals pull push m =
     (let second = 1000000000; p = i64 (pull * second); q = i64 (push * second) in
      m\<lparr>mo_pullInterval := (if p < 30 * second then 60 * second else p), mo_pushInterval := (if q < 10 * second then 60 * second else q)\<rparr>)"

definition machine_tryStartWS :: "PanelHandshake option \<Rightarrow> machine_Orchestrator \<Rightarrow> machine_Orchestrator" where
  "machine_tryStartWS handshake m =
     (case handshake of
        None \<Rightarrow> m
      | Some hs \<Rightarrow> if \<not> hs_Enabled hs \<or> hs_WSURL hs = [] then m else m\<lparr>mo_ws := True\<rparr>)"

text \<open>\<open>Run\<close> up to its loop; \<open>None\<close>: the first discovery failed.\<close>

definition machine_Run_start ::
  "KernelConfig \<Rightarrow> (MachineNode list \<times> int \<times> int) option \<Rightarrow> PanelHandshake option \<Rightarrow> (int \<Rightarrow> NodeConfig option option) \<Rightarrow>
    machine_Orchestrator \<Rightarrow> machine_Orchestrator option" where
  "machine_Run_start kcfg response handshake configs m =
     (case response of
        None \<Rightarrow> None
      | Some (nodes, pull, push) \<Rightarrow>
          Some (fold (\<lambda>n. machine_startNode kcfg (configs (mn_ID n)) n) nodes
            (machine_tryStartWS handshake (machine_applyIntervals pull push m))))"

section \<open>Shared push connection\<close>

text \<open>The second result: a rediscovery was started.\<close>

definition machine_onWSEvent ::
  "read_file \<Rightarrow> parse_doc \<Rightarrow> KernelConfig \<Rightarrow> panel_WSEvent \<Rightarrow> machine_Orchestrator \<Rightarrow> machine_Orchestrator \<times> bool" where
  "machine_onWSEvent readFile parseDoc kcfg event m =
     (if we_Type event = ''sync.nodes'' then (m, True)
      else if we_NodeID event = 0 then (m, False)
      else case TranslateWSEvent readFile parseDoc event kcfg of
        Inl e \<Rightarrow> (m, False)
      | Inr translated \<Rightarrow>
          (case map_of (mo_mailboxes m) (we_NodeID event) of
             None \<Rightarrow> (m, False)
           | Some k \<Rightarrow>
               (case map_of (mo_boxes m) k of
                  None \<Rightarrow> (m, False)
                | Some box \<Rightarrow> (m\<lparr>mo_boxes := mput k (Apply box translated) (mo_boxes m)\<rparr>, False))))"

definition machine_onWSStatus :: "bool \<Rightarrow> machine_Orchestrator \<Rightarrow> machine_Orchestrator" where
  "machine_onWSStatus connected m = m\<lparr>mo_statuses := map (\<lambda>(nodeID, buffer). (nodeID, send_status (connected, False) buffer)) (mo_statuses m)\<rparr>"

text \<open>The payload of \<open>SendDeviceReport\<close>, \<open>None\<close> without a connection.\<close>

definition machine_SendDeviceReport :: "int \<Rightarrow> (int, string list) gomap \<Rightarrow> machine_Orchestrator \<Rightarrow> (string, any) gomap option" where
  "machine_SendDeviceReport nodeID devices m =
     (if mo_ws m then Some [(''node_id'', AnyInt nodeID),
        (''devices'', AnyMap (mbuild (\<lambda>(uid, ips). FormatInt uid) (\<lambda>(uid, ips). AnyList (map AnyString ips)) devices))]
      else None)"

section \<open>Discovery\<close>

lemma machine_stopNode_nodes: "map_of (mo_nodes (machine_stopNode j m)) i = (if i = j then None else map_of (mo_nodes m) i)"
  by (auto simp: machine_stopNode_def machine_stop_begin_def machine_exited_def machine_unregisterNode_def map_of_mdel split: option.split)

lemma machine_startNode_nodes:
  "map_of (mo_nodes (machine_startNode kcfg c n m)) i =
    (if i = mn_ID n \<and> map_of (mo_nodes m) i = None then Some (mo_next m) else map_of (mo_nodes m) i)"
  by (auto simp: machine_startNode_def Let_def map_of_mput mhas_def)

interpretation mnodes: supervisor "\<lambda>m. map_of (mo_nodes m)" "\<lambda>_. True"
  "\<lambda>n. machine_startNode kcfg (configs (mn_ID n)) n" machine_stopNode mn_ID for kcfg configs
  by unfold_locales (auto simp: machine_stopNode_nodes machine_startNode_nodes)

lemma mhas_wanted: "mhas (mbuild mn_ID (\<lambda>n. n) ns) i \<longleftrightarrow> i \<in> mn_ID ` set ns"
  by (simp add: mhas_iff dom_mbuild)

lemma machine_rediscover_nodes:
  assumes "range_order rng"
  shows "map_of (mo_nodes (machine_rediscover kcfg rng (Some ns) configs m)) i \<noteq> None \<longleftrightarrow> i \<in> mn_ID ` set ns"
    and "i \<in> mn_ID ` set ns \<Longrightarrow> map_of (mo_nodes m) i \<noteq> None \<Longrightarrow>
      map_of (mo_nodes (machine_rediscover kcfg rng (Some ns) configs m)) i = map_of (mo_nodes m) i"
proof -
  define js where "js = filter (\<lambda>nodeID. \<not> mhas (mbuild mn_ID (\<lambda>n. n) ns) nodeID) (rng (map fst (mo_nodes m)))"
  have js: "set js = {j. map_of (mo_nodes m) j \<noteq> None \<and> j \<notin> mn_ID ` set ns}"
    using range_order_set [OF assms, of "map fst (mo_nodes m)"] by (auto simp: js_def mhas_wanted map_of_eq_None_iff)
  have m': "machine_rediscover kcfg rng (Some ns) configs m =
      fold (\<lambda>n. machine_startNode kcfg (configs (mn_ID n)) n) ns (fold machine_stopNode js m)"
    by (simp add: machine_rediscover_def js_def Let_def)
  show "map_of (mo_nodes (machine_rediscover kcfg rng (Some ns) configs m)) i \<noteq> None \<longleftrightarrow> i \<in> mn_ID ` set ns"
    unfolding m' using mnodes.converges(1) [OF TrueI, where ns = ns and js = js and s = m and i = i and kcfg = kcfg and configs = configs] js by auto
  show "map_of (mo_nodes (machine_rediscover kcfg rng (Some ns) configs m)) i = map_of (mo_nodes m) i"
    if "i \<in> mn_ID ` set ns" "map_of (mo_nodes m) i \<noteq> None"
    unfolding m' using mnodes.converges(2) [OF TrueI, where ns = ns and js = js and s = m and i = i and kcfg = kcfg and configs = configs] js that by auto
qed

text \<open>
  After a discovery that got an answer the machine manages exactly the nodes of the answer, in whatever
  order the nodes to stop were visited, and a node that was managed before and is still bound keeps its
  service; a discovery that failed changes nothing.
\<close>

lemma machine_rediscover_converges:
  assumes "range_order rng"
  shows "(\<forall>i. map_of (mo_nodes (machine_rediscover kcfg rng (Some ns) configs m)) i \<noteq> None \<longleftrightarrow> i \<in> mn_ID ` set ns) \<and>
    (\<forall>i \<in> mn_ID ` set ns. map_of (mo_nodes m) i \<noteq> None \<longrightarrow>
      map_of (mo_nodes (machine_rediscover kcfg rng (Some ns) configs m)) i = map_of (mo_nodes m) i) \<and>
    machine_rediscover kcfg rng None configs m = m"
  using machine_rediscover_nodes [OF assms, where kcfg = kcfg and ns = ns and configs = configs and m = m]
  by (auto simp: machine_rediscover_def)

text \<open>Node 5, and a machine that has started it.\<close>

definition demo_machine_node :: MachineNode where
  "demo_machine_node = \<lparr>mn_ID = 5, mn_Type = ''vless'', mn_Name = []\<rparr>"

definition demo_machine :: machine_Orchestrator where
  "demo_machine = machine_startNode (demo_kcfg ''singbox'') None demo_machine_node machine_New"

lemma machine_rediscover_converges_witness:
  "mo_nodes (machine_rediscover (demo_kcfg ''singbox'') id (Some [demo_machine_node]) (\<lambda>_. None) demo_machine) = [(5, 0)] \<and>
   map_of (mo_nodes (machine_rediscover (demo_kcfg ''singbox'') id (Some []) (\<lambda>_. None) demo_machine)) 5 = None"
proof -
  have r: "range_order (id :: int list \<Rightarrow> int list)" by (simp add: range_order_def)
  have "map_of (mo_nodes (machine_rediscover (demo_kcfg ''singbox'') id (Some []) (\<lambda>_. None) demo_machine)) 5 = None"
    using machine_rediscover_converges [OF r, of "demo_kcfg ''singbox''" "[]" "\<lambda>_. None" demo_machine] by simp
  moreover have "mo_nodes (machine_rediscover (demo_kcfg ''singbox'') id (Some [demo_machine_node]) (\<lambda>_. None) demo_machine) = [(5, 0)]"
    by code_simp
  ultimately show ?thesis by simp
qed

section \<open>Services that end by themselves\<close>

definition serves :: "machine_Orchestrator \<Rightarrow> int \<Rightarrow> bool" where
  "serves m nodeID \<longleftrightarrow> nodeID \<in> (\<lambda>x. fst (snd x)) ` set (mo_running m)"

lemma serves_stop: "serves (machine_stopNode j m) i \<Longrightarrow> serves m i"
  unfolding serves_def machine_stopNode_def machine_stop_begin_def machine_exited_def machine_unregisterNode_def
  by (cases "map_of (mo_nodes m) j") (force split: if_splits)+

lemma serves_start: "serves (machine_startNode kcfg c n m) i \<Longrightarrow> mn_ID n \<noteq> i \<or> mhas (mo_nodes m) i \<Longrightarrow> serves m i"
  by (auto simp: serves_def machine_startNode_def Let_def split: if_splits)

lemma fold_start_dead:
  assumes "mhas (mo_nodes m) i" and "\<not> serves m i"
  shows "mhas (mo_nodes (fold (\<lambda>n. machine_startNode kcfg (configs (mn_ID n)) n) ns m)) i \<and>
    \<not> serves (fold (\<lambda>n. machine_startNode kcfg (configs (mn_ID n)) n) ns m) i"
  using assms
proof (induction ns arbitrary: m)
  case (Cons n ns)
  have "mhas (mo_nodes (machine_startNode kcfg (configs (mn_ID n)) n m)) i"
    using Cons.prems(1) by (auto simp: mhas_def machine_startNode_nodes)
  moreover have "\<not> serves (machine_startNode kcfg (configs (mn_ID n)) n m) i" using Cons.prems serves_start by blast
  ultimately show ?case using Cons.IH by simp
qed simp

lemma fold_stop_dead:
  assumes "mhas (mo_nodes m) i" and "\<not> serves m i" and "i \<notin> set js"
  shows "mhas (mo_nodes (fold machine_stopNode js m)) i \<and> \<not> serves (fold machine_stopNode js m) i"
  using assms
proof (induction js arbitrary: m)
  case (Cons j js)
  have "mhas (mo_nodes (machine_stopNode j m)) i" using Cons.prems by (simp add: mhas_def machine_stopNode_nodes)
  moreover have "\<not> serves (machine_stopNode j m) i" using Cons.prems serves_stop by blast
  ultimately show ?case using Cons.IH Cons.prems(3) by simp
qed simp

lemma rediscover_dead:
  assumes "range_order rng" and "mhas (mo_nodes m) i" and "\<not> serves m i"
    and "\<And>ns. response = Some ns \<Longrightarrow> i \<in> mn_ID ` set ns"
  shows "mhas (mo_nodes (machine_rediscover kcfg rng response configs m)) i \<and> \<not> serves (machine_rediscover kcfg rng response configs m) i"
proof (cases response)
  case None
  then show ?thesis using assms by (simp add: machine_rediscover_def)
next
  case (Some ns)
  have "i \<notin> set (filter (\<lambda>nodeID. \<not> mhas (mbuild mn_ID (\<lambda>n. n) ns) nodeID) (rng (map fst (mo_nodes m))))"
    using assms(4) [OF Some] by (simp add: mhas_wanted)
  from fold_stop_dead [OF assms(2,3) this] show ?thesis
    using fold_start_dead by (simp add: machine_rediscover_def Some Let_def)
qed

lemma rediscoveries_dead:
  assumes "range_order rng" and "mhas (mo_nodes m) i" and "\<not> serves m i"
    and "\<forall>response \<in> set responses. \<forall>ns. response = Some ns \<longrightarrow> i \<in> mn_ID ` set ns"
  shows "\<not> serves (fold (\<lambda>response. machine_rediscover kcfg rng response configs) responses m) i"
  using assms(2-4)
proof (induction responses arbitrary: m)
  case (Cons r rs)
  have "mhas (mo_nodes (machine_rediscover kcfg rng r configs m)) i \<and> \<not> serves (machine_rediscover kcfg rng r configs m) i"
    by (rule rediscover_dead [OF assms(1) Cons.prems(1,2)]) (use Cons.prems(3) in simp)
  then show ?case using Cons.IH Cons.prems(3) by simp
qed simp

text \<open>
  A node whose service has ended by itself, with an error or not, is never served again while the panel
  keeps it bound to the machine: its handle stays, so every later discovery takes it for running.
\<close>

lemma dead_node_stays_dead:
  assumes "range_order rng" and "map_of (mo_nodes m) i = Some k" and "\<forall>x \<in> set (mo_running m). fst (snd x) = i \<longrightarrow> fst x = k"
    and "\<forall>response \<in> set responses. \<forall>ns. response = Some ns \<longrightarrow> i \<in> mn_ID ` set ns"
  shows "\<not> serves (fold (\<lambda>response. machine_rediscover kcfg rng response configs) responses (machine_exited k i m)) i"
proof -
  have "mhas (mo_nodes (machine_exited k i m)) i" using assms(2) by (simp add: mhas_def machine_exited_def machine_unregisterNode_def)
  moreover have "\<not> serves (machine_exited k i m) i"
    using assms(3) by (force simp: serves_def machine_exited_def machine_unregisterNode_def)
  ultimately show ?thesis using rediscoveries_dead [OF assms(1) _ _ assms(4)] by blast
qed

lemma dead_node_stays_dead_witness:
  "\<not> serves (machine_rediscover (demo_kcfg ''singbox'') id (Some [demo_machine_node]) (\<lambda>_. None) (machine_exited 0 5 demo_machine)) 5"
proof -
  have r: "range_order (id :: int list \<Rightarrow> int list)" by (simp add: range_order_def)
  have "map_of (mo_nodes demo_machine) 5 = Some 0" by code_simp
  moreover have "\<forall>x \<in> set (mo_running demo_machine). fst (snd x) = 5 \<longrightarrow> fst x = 0" by code_simp
  ultimately show ?thesis
    using dead_node_stays_dead [OF r, of demo_machine 5 0 "[Some [demo_machine_node]]" "demo_kcfg ''singbox''" "\<lambda>_. None"]
    by (simp add: demo_machine_node_def)
qed

section \<open>Events and mailboxes\<close>

text \<open>Runs in which one discovery at a time is under way.\<close>

inductive mach_reach :: "machine_Orchestrator \<Rightarrow> bool" where
  mr_new: "mach_reach machine_New"
| mr_start: "mach_reach m \<Longrightarrow> mach_reach (machine_startNode kcfg c n m)"
| mr_stop: "mach_reach m \<Longrightarrow> mach_reach (machine_stopNode i m)"
| mr_exit: "mach_reach m \<Longrightarrow> (k, i, kern) \<in> set (mo_running m) \<Longrightarrow> mach_reach (machine_exited k i m)"
| mr_event: "mach_reach m \<Longrightarrow> mach_reach (fst (machine_onWSEvent rf pd kcfg event m))"
| mr_status: "mach_reach m \<Longrightarrow> mach_reach (machine_onWSStatus connected m)"
| mr_register: "mach_reach m \<Longrightarrow> mach_reach (machine_registerNode i m)"

definition runs_node :: "machine_Orchestrator \<Rightarrow> nat \<Rightarrow> int \<Rightarrow> bool" where
  "runs_node m k i \<longleftrightarrow> (k, i) \<in> (\<lambda>x. (fst x, fst (snd x))) ` set (mo_running m)"

definition mach_inv :: "machine_Orchestrator \<Rightarrow> bool" where
  "mach_inv m \<longleftrightarrow>
     (\<forall>i k. map_of (mo_mailboxes m) i = Some k \<longleftrightarrow> runs_node m k i) \<and>
     (\<forall>i k. runs_node m k i \<longrightarrow> map_of (mo_nodes m) i = Some k \<and> mhas (mo_boxes m) k) \<and>
     (\<forall>i k. map_of (mo_nodes m) i = Some k \<longrightarrow> k < mo_next m) \<and>
     (\<forall>i j k. map_of (mo_nodes m) i = Some k \<longrightarrow> map_of (mo_nodes m) j = Some k \<longrightarrow> i = j)"

lemma runs_exited: "runs_node (machine_exited k i m) k' i' \<longleftrightarrow> runs_node m k' i' \<and> k' \<noteq> k"
  by (force simp: runs_node_def machine_exited_def machine_unregisterNode_def)

lemma exited_fields: "mo_nodes (machine_exited k i m) = mo_nodes m" "mo_boxes (machine_exited k i m) = mo_boxes m"
  "mo_next (machine_exited k i m) = mo_next m" "mo_mailboxes (machine_exited k i m) = mdel i (mo_mailboxes m)"
  by (simp_all add: machine_exited_def machine_unregisterNode_def)

lemma alive_iff: "machine_alive k m \<longleftrightarrow> (\<exists>i. runs_node m k i)"
  by (force simp: machine_alive_def runs_node_def)

lemma mach_inv_start:
  assumes "mach_inv m"
  shows "mach_inv (machine_startNode kcfg c n m)"
proof (cases "map_of (mo_nodes m) (mn_ID n)")
  case None
  let ?m = "machine_startNode kcfg c n m"
  have r: "runs_node ?m k i \<longleftrightarrow> runs_node m k i \<or> (k = mo_next m \<and> i = mn_ID n)" for k i
    using None by (auto simp: runs_node_def machine_startNode_def mhas_def Let_def)
  have nodes: "mo_nodes ?m = mput (mn_ID n) (mo_next m) (mo_nodes m)" and boxes: "mo_boxes ?m = mput (mo_next m) NewNodeMailbox (mo_boxes m)"
    and mail: "mo_mailboxes ?m = mput (mn_ID n) (mo_next m) (mo_mailboxes m)" and "next": "mo_next ?m = Suc (mo_next m)"
    using None by (simp_all add: machine_startNode_def mhas_def Let_def)
  have old: "\<not> runs_node m k (mn_ID n)" for k using assms None by (auto simp: mach_inv_def)
  have lt: "map_of (mo_nodes m) i = Some k \<Longrightarrow> k < mo_next m" for i k using assms by (simp add: mach_inv_def)
  have "\<forall>i k. map_of (mo_mailboxes ?m) i = Some k \<longleftrightarrow> runs_node ?m k i"
    using assms old by (auto simp: mach_inv_def r mail map_of_mput)
  moreover have "\<forall>i k. runs_node ?m k i \<longrightarrow> map_of (mo_nodes ?m) i = Some k \<and> mhas (mo_boxes ?m) k"
    using assms old by (auto simp: mach_inv_def r nodes boxes map_of_mput mhas_def)
  moreover have "\<forall>i k. map_of (mo_nodes ?m) i = Some k \<longrightarrow> k < mo_next ?m"
    using lt by (auto simp: nodes "next" map_of_mput less_SucI)
  moreover have "\<forall>i j k. map_of (mo_nodes ?m) i = Some k \<longrightarrow> map_of (mo_nodes ?m) j = Some k \<longrightarrow> i = j"
    using assms lt unfolding mach_inv_def nodes map_of_mput by (metis nat_neq_iff option.inject)
  ultimately show ?thesis unfolding mach_inv_def by blast
qed (use assms in \<open>simp add: machine_startNode_def mhas_def\<close>)

lemma mach_inv_exited:
  assumes "mach_inv m" and "runs_node m k i"
  shows "mach_inv (machine_exited k i m)"
proof -
  have one: "k' = k \<longleftrightarrow> i' = i" if "runs_node m k' i'" for k' i'
    using assms that unfolding mach_inv_def by (metis option.inject)
  show ?thesis
    using assms(1) one unfolding mach_inv_def runs_exited exited_fields map_of_mdel by auto
qed

lemma mach_inv_stop:
  assumes "mach_inv m"
  shows "mach_inv (machine_stopNode i m)"
proof (cases "map_of (mo_nodes m) i")
  case None
  then show ?thesis using assms by (simp add: machine_stopNode_def machine_stop_begin_def)
next
  case (Some k)
  define m1 where "m1 = m\<lparr>mo_nodes := mdel i (mo_nodes m), mo_mailboxes := mdel i (mo_mailboxes m)\<rparr>"
  have r1: "runs_node m1 = runs_node m" by (simp add: m1_def runs_node_def fun_eq_iff)
  have one: "k' = k \<longleftrightarrow> i' = i" if "runs_node m k' i'" for k' i'
    using assms that Some unfolding mach_inv_def by (metis option.inject)
  have stop: "machine_stopNode i m = (if machine_alive k m1 then machine_exited k i m1 else m1)"
    by (simp add: machine_stopNode_def machine_stop_begin_def Some m1_def)
  have f: "mo_nodes m1 = mdel i (mo_nodes m)" "mo_mailboxes m1 = mdel i (mo_mailboxes m)" "mo_boxes m1 = mo_boxes m" "mo_next m1 = mo_next m"
    by (simp_all add: m1_def)
  show ?thesis
  proof (cases "machine_alive k m1")
    case True
    then show ?thesis
      unfolding stop if_P [OF True] using assms one
      unfolding mach_inv_def runs_exited exited_fields f r1 map_of_mdel by auto
  next
    case False
    then have dead: "\<not> runs_node m k i'" for i' by (simp add: alive_iff r1)
    then have "\<not> runs_node m k' i" for k' using one by blast
    then show ?thesis
      unfolding stop if_not_P [OF False] using assms
      unfolding mach_inv_def f r1 map_of_mdel by auto
  qed
qed

lemma mach_inv_cong:
  assumes "mo_nodes m' = mo_nodes m" and "mo_mailboxes m' = mo_mailboxes m" and "mo_running m' = mo_running m" and "mo_next m' = mo_next m"
    and "\<And>k. mhas (mo_boxes m) k \<Longrightarrow> mhas (mo_boxes m') k" and "mach_inv m"
  shows "mach_inv m'"
proof -
  have "runs_node m' = runs_node m" by (simp add: runs_node_def assms(3) fun_eq_iff)
  then show ?thesis using assms(5,6) unfolding mach_inv_def assms(1,2,4) by auto
qed

lemma mach_reach_inv: "mach_reach m \<Longrightarrow> mach_inv m"
proof (induction rule: mach_reach.induct)
  case mr_new
  show ?case by (simp add: mach_inv_def machine_New_def runs_node_def)
next
  case (mr_exit m k i kern)
  have "runs_node m k i" using mr_exit.hyps(2) by (force simp: runs_node_def)
  then show ?case using mr_exit.IH by (intro mach_inv_exited)
next
  case (mr_event m rf pd kcfg event)
  show ?case
    by (rule mach_inv_cong [OF _ _ _ _ _ mr_event.IH])
      (auto simp: machine_onWSEvent_def mhas_def map_of_mput split: option.split sum.split)
next
  case (mr_status m connected)
  show ?case by (rule mach_inv_cong [OF _ _ _ _ _ mr_status.IH]) (simp_all add: machine_onWSStatus_def)
next
  case (mr_register m i)
  show ?case by (rule mach_inv_cong [OF _ _ _ _ _ mr_register.IH]) (simp_all add: machine_registerNode_def)
qed (simp_all add: mach_inv_start mach_inv_stop)

text \<open>
  C31. While discoveries do not overlap, a node has at most one running service, and a pushed event for a
  node that is served is applied to the mailbox of that service and to no other.
\<close>

theorem events_reach_their_node:
  assumes "mach_reach m" and "runs_node m k i" and "i \<noteq> 0" and "we_NodeID event = i" and "we_Type event \<noteq> ''sync.nodes''"
    and "TranslateWSEvent rf pd event kcfg = Inr e"
  shows "(\<exists>box. map_of (mo_boxes m) k = Some box \<and>
      fst (machine_onWSEvent rf pd kcfg event m) = m\<lparr>mo_boxes := mput k (Apply box e) (mo_boxes m)\<rparr>) \<and>
    (\<forall>k'. runs_node m k' i \<longrightarrow> k' = k)"
proof -
  have inv: "mach_inv m" using assms(1) by (rule mach_reach_inv)
  then have "map_of (mo_mailboxes m) i = Some k" "mhas (mo_boxes m) k" using assms(2) by (auto simp: mach_inv_def)
  then obtain box where "map_of (mo_boxes m) k = Some box" by (auto simp: mhas_def)
  moreover have "k' = k" if "runs_node m k' i" for k'
    using inv assms(2) that unfolding mach_inv_def by (metis option.inject)
  ultimately show ?thesis
    using \<open>map_of (mo_mailboxes m) i = Some k\<close> assms(3-6) by (simp add: machine_onWSEvent_def)
qed

lemma demo_machine_reach: "mach_reach demo_machine"
  unfolding demo_machine_def by (intro mr_start mr_new)

lemma events_reach_their_node_witness:
  "\<exists>box. map_of (mo_boxes demo_machine) 0 = Some box \<and>
    fst (machine_onWSEvent (\<lambda>_. FileMissing) (\<lambda>_ _. None) (demo_kcfg ''singbox'') demo_ws_event demo_machine)
      = demo_machine\<lparr>mo_boxes := mput 0 (Apply box ((no_event EventSyncUsers)\<lparr>ev_Users := Some []\<rparr>)) (mo_boxes demo_machine)\<rparr>"
proof -
  have t: "TranslateWSEvent (\<lambda>_. FileMissing) (\<lambda>_ _. None) demo_ws_event (demo_kcfg ''singbox'') =
      Inr ((no_event EventSyncUsers)\<lparr>ev_Users := Some []\<rparr>)" by code_simp
  have r: "runs_node demo_machine 0 5" by code_simp
  show ?thesis
    using events_reach_their_node [OF demo_machine_reach r _ _ _ t] by (simp add: demo_ws_event_def)
qed

section \<open>Overlapping discoveries\<close>

text \<open>
  When two discoveries overlap a node can lose its mailbox: one stops the node and waits for its
  service, the other starts the node again, and the old service, as it ends, removes the mailbox of the new
  one. The node is then managed and served, and every event pushed for it is dropped.
\<close>

lemma overlapping_discovery_loses_mailbox:
  assumes "mach_reach m" and "runs_node m k (mn_ID n)" and "machine_stop_begin (mn_ID n) m = (Some k, m1)"
    and "m' = machine_exited k (mn_ID n) (machine_startNode kcfg c n m1)" and "we_NodeID event = mn_ID n"
  shows "map_of (mo_nodes m') (mn_ID n) = Some (mo_next m) \<and> runs_node m' (mo_next m) (mn_ID n) \<and>
    fst (machine_onWSEvent rf pd kcfg event m') = m'"
proof -
  have inv: "mach_inv m" using assms(1) by (rule mach_reach_inv)
  then have nk: "map_of (mo_nodes m) (mn_ID n) = Some k" using assms(2) by (auto simp: mach_inv_def)
  then have lt: "k < mo_next m" using inv unfolding mach_inv_def by blast
  from nk have m1: "m1 = m\<lparr>mo_nodes := mdel (mn_ID n) (mo_nodes m), mo_mailboxes := mdel (mn_ID n) (mo_mailboxes m)\<rparr>"
    using assms(3) by (simp add: machine_stop_begin_def)
  have new: "runs_node (machine_startNode kcfg c n m1) (mo_next m) (mn_ID n)"
    by (simp add: runs_node_def machine_startNode_def m1 mhas_def map_of_mdel Let_def)
  have "map_of (mo_nodes m') (mn_ID n) = Some (mo_next m)"
    by (simp add: assms(4) exited_fields machine_startNode_nodes m1 map_of_mdel)
  moreover have "runs_node m' (mo_next m) (mn_ID n)" using new lt by (simp add: assms(4) runs_exited)
  moreover have "map_of (mo_mailboxes m') (mn_ID n) = None" by (simp add: assms(4) exited_fields map_of_mdel)
  ultimately show ?thesis using assms(5) by (simp add: machine_onWSEvent_def split: sum.split)
qed

lemma overlapping_discovery_loses_mailbox_witness:
  "\<exists>m'. runs_node m' 1 5 \<and> fst (machine_onWSEvent (\<lambda>_. FileMissing) (\<lambda>_ _. None) (demo_kcfg ''singbox'') demo_ws_event m') = m'"
proof -
  have r: "runs_node demo_machine 0 (mn_ID demo_machine_node)" by code_simp
  have s: "machine_stop_begin (mn_ID demo_machine_node) demo_machine = (Some 0, snd (machine_stop_begin (mn_ID demo_machine_node) demo_machine))"
    by code_simp
  have "mo_next demo_machine = 1" by code_simp
  then show ?thesis
    using overlapping_discovery_loses_mailbox [OF demo_machine_reach r s refl, of demo_ws_event "demo_kcfg ''singbox''" None]
    by (auto simp: demo_ws_event_def demo_machine_node_def)
qed

section \<open>Pushed configurations and the kernel\<close>

text \<open>
  A node whose transport sing-box does not support is started with Xray instead, but a configuration
  pushed for it is still validated for the machine's kernel: every such event is dropped.
\<close>

lemma switched_node_gets_no_config:
  assumes "kc_Type kcfg = ''singbox''" and "ToLower (TrimSpace (nc_Network nc)) \<in> {''xhttp'', ''splithttp''}"
    and "map_of (mo_nodes m) (mn_ID n) = None" and "we_Config event = Some nc" and "we_Type event = ''sync.config''"
    and "m' = machine_startNode kcfg (Some (Some nc)) n m"
  shows "(mo_next m, mn_ID n, ''xray'') \<in> set (mo_running m') \<and> machine_onWSEvent rf pd kcfg event m' = (m', False)"
proof -
  have "machine_kernel kcfg (Some (Some nc)) = ''xray''"
    using assms(1,2) by (simp add: machine_kernel_def ResolveKernelForTransport_def singboxUnsupportedTransports_def Let_def)
  then have run: "(mo_next m, mn_ID n, ''xray'') \<in> set (mo_running m')"
    using assms(3) by (simp add: assms(6) machine_startNode_def mhas_def Let_def)
  have k: "normalizeKernelType (TrimSpace ''singbox'') = Inr ''singbox''" "TrimSpace ''singbox'' \<noteq> []" by code_simp+
  have "n_Network (the (NodeSpecFromPanel (Some nc))) = nc_Network nc" by (simp add: NodeSpecFromPanel_def Let_def)
  then have "ValidateNodeSpec rf pd (NodeSpecFromPanel (Some nc)) kcfg \<noteq> Inr ()" if "NodeSpecFromPanel (Some nc) = Some spec" for spec
    using that assms(1,2) k
    by (auto simp: ValidateNodeSpec_def validateTransportKernel_def singboxUnsupportedTransports_def Let_def split: sum.splits if_splits)
  moreover have "NodeSpecFromPanel (Some nc) \<noteq> None" by (simp add: NodeSpecFromPanel_def Let_def)
  ultimately have "\<exists>err. TranslateWSEvent rf pd event kcfg = Inl err"
    using assms(4) by (auto simp: TranslateWSEvent_def NodeSpecFromPanelValidated_def Let_def split: sum.splits)
  then have "machine_onWSEvent rf pd kcfg event m' = (m', False)" using assms(5) by (auto simp: machine_onWSEvent_def)
  with run show ?thesis by simp
qed

lemma switched_node_gets_no_config_witness:
  "\<exists>nc. machine_onWSEvent (\<lambda>_. FileMissing) (\<lambda>_ _. None) (demo_kcfg ''singbox'') (demo_ws_event\<lparr>we_Type := ''sync.config'', we_Config := Some nc\<rparr>)
      (machine_startNode (demo_kcfg ''singbox'') (Some (Some nc)) demo_machine_node machine_New)
    = (machine_startNode (demo_kcfg ''singbox'') (Some (Some nc)) demo_machine_node machine_New, False)"
proof -
  obtain nc where nc: "ToPanel (Some (demo_spec\<lparr>n_Network := ''xhttp''\<rparr>)) = Some nc" by (auto simp: ToPanel_def)
  then have "nc_Network nc = ''xhttp''" by (auto simp: ToPanel_def demo_spec_def)
  then have "ToLower (TrimSpace (nc_Network nc)) \<in> {''xhttp'', ''splithttp''}"
  proof -
    have "ToLower (TrimSpace ''xhttp'') = ''xhttp''" by code_simp
    then show ?thesis by (simp add: \<open>nc_Network nc = ''xhttp''\<close>)
  qed
  moreover have "kc_Type (demo_kcfg ''singbox'') = ''singbox''" by (simp add: demo_kcfg_def)
  moreover have "map_of (mo_nodes machine_New) (mn_ID demo_machine_node) = None" by (simp add: machine_New_def)
  ultimately show ?thesis
    using switched_node_gets_no_config [of "demo_kcfg ''singbox''" nc machine_New demo_machine_node
        "demo_ws_event\<lparr>we_Type := ''sync.config'', we_Config := Some nc\<rparr>"] by auto
qed

end
