(* ===== verification/KernelCommon.thy ===== *)
theory KernelCommon
  imports AgentV2 Service "HOL-Library.List_Lexorder"
begin

text \<open>
  The helpers both proxy kernels share (package \<^verbatim>\<open>internal/kernel\<close>): which geo databases the routes need
  (\<^verbatim>\<open>geo.go\<close>, \<^verbatim>\<open>custom_route_compile.go\<close>), the user keys of Shadowsocks 2022 (\<^verbatim>\<open>ss2022.go\<close>), the custom
  configuration file and its list merges (\<^verbatim>\<open>customcfg.go\<close>), and the user set difference (\<^verbatim>\<open>kernel.go\<close>).

  A generated configuration is a JSON value of type \<open>any\<close>; a nil Go map inside it is \<open>AnyNil\<close>. What the
  generators take from outside is gathered in \<open>kenv\<close>: the file system, the JSON and YAML decoders of
  the custom configuration file, the PEM decoder and the decimal form of a \<^verbatim>\<open>float64\<close>.
\<close>

record kenv =
  ke_readFile :: "string \<Rightarrow> file_result"
  ke_parseDoc :: "bool \<Rightarrow> string \<Rightarrow> (string, any) gomap option"
  ke_pemDecode :: "string \<Rightarrow> (string \<times> string) option"
  ke_fmtFloat :: "int \<Rightarrow> int \<Rightarrow> string"

type_synonym M = "(string, any) gomap"

section \<open>JSON values\<close>

definition of_map :: "any_map \<Rightarrow> any" where
  "of_map m = (case m of None \<Rightarrow> AnyNil | Some kv \<Rightarrow> AnyMap kv)"

abbreviation any_strings :: "string list \<Rightarrow> any" where
  "any_strings xs \<equiv> AnyList (map AnyString xs)"

abbreviation any_maps :: "M list \<Rightarrow> any" where
  "any_maps ms \<equiv> AnyList (map AnyMap ms)"

text \<open>\<^verbatim>\<open>strings.Join\<close>.\<close>

fun Join :: "string list \<Rightarrow> string \<Rightarrow> string" where
  "Join [] sep = []"
| "Join [x] sep = x"
| "Join (x # y # xs) sep = x @ sep @ Join (y # xs) sep"

text \<open>\<^verbatim>\<open>fmt.Sprintf("%v", v)\<close>; the keys of a map are printed in increasing order.\<close>

fun Sprint :: "(int \<Rightarrow> int \<Rightarrow> string) \<Rightarrow> any \<Rightarrow> string" where
  "Sprint ff AnyNil = ''<nil>''"
| "Sprint ff (AnyBool b) = (if b then ''true'' else ''false'')"
| "Sprint ff (AnyInt x) = FormatInt x"
| "Sprint ff (AnyFloat m e) = ff m e"
| "Sprint ff (AnyString s) = s"
| "Sprint ff (AnyList vs) = ''['' @ Join (map (Sprint ff) vs) '' '' @ '']''"
| "Sprint ff (AnyMap kvs) =
     ''map['' @ Join (map snd (sort_key (\<lambda>p. map byte (fst p)) (map (\<lambda>(k, v). (k, k @ '':'' @ Sprint ff v)) kvs))) '' '' @ '']''"

text \<open>\<^verbatim>\<open>strings.Contains\<close>.\<close>

definition Contains :: "string \<Rightarrow> string \<Rightarrow> bool" where
  "Contains s sub = sublist sub s"

section \<open>Geo databases\<close>

definition has_geo :: "string \<Rightarrow> string slice \<Rightarrow> bool" where
  "has_geo p values = (\<exists>v \<in> set (elems values). HasPrefix v p)"

definition NeedsGeoIP :: "RouteRule slice \<Rightarrow> bool" where
  "NeedsGeoIP routes = (\<exists>r \<in> set (elems routes). has_geo ''geoip:'' (rr_Match r))"

definition NeedsGeoSite :: "RouteRule slice \<Rightarrow> bool" where
  "NeedsGeoSite routes = (\<exists>r \<in> set (elems routes). has_geo ''geosite:'' (rr_Match r))"

definition hasNonBlankRouteValues :: "string slice \<Rightarrow> bool" where
  "hasNonBlankRouteValues values = (\<exists>value \<in> set (elems values). TrimSpace value \<noteq> [])"

definition NeedsGeoIPRules :: "CustomRouteRule slice \<Rightarrow> bool" where
  "NeedsGeoIPRules rules = (\<exists>r \<in> set (elems rules).
     hasNonBlankRouteValues (m_GeoIPs (cr_Match r)) \<or> has_geo ''geoip:'' (m_IPCIDRs (cr_Match r)) \<or>
     has_geo ''geoip:'' (m_SourceCIDRs (cr_Match r)))"

definition NeedsGeoSiteRules :: "CustomRouteRule slice \<Rightarrow> bool" where
  "NeedsGeoSiteRules rules = (\<exists>r \<in> set (elems rules).
     has_geo ''geosite:'' (m_Domains (cr_Match r)) \<or> has_geo ''geosite:'' (m_DomainSuffixes (cr_Match r)))"

section \<open>Shadowsocks 2022 user keys\<close>

definition ss2022UserKeySizes :: "(string, nat) gomap" where
  "ss2022UserKeySizes =
     [(''2022-blake3-aes-128-gcm'', 16), (''2022-blake3-aes-256-gcm'', 32), (''2022-blake3-chacha20-poly1305'', 32)]"

definition IsSS2022Method :: "string \<Rightarrow> bool" where
  "IsSS2022Method method = mhas ss2022UserKeySizes method"

text \<open>\<^verbatim>\<open>base64.StdEncoding.EncodeToString\<close>: the standard alphabet, padded to a multiple of four.\<close>

definition b64_std_char :: "nat \<Rightarrow> char" where
  "b64_std_char n = (''ABCDEFGHIJKLMNOPQRSTUVWXYZabcdefghijklmnopqrstuvwxyz0123456789+/'' ! (n mod 64))"

definition StdEncoding :: "string \<Rightarrow> string" where
  "StdEncoding s =
     (let cs = map b64_std_char (b64_enc (map byte s)) in cs @ replicate ((4 - length cs mod 4) mod 4) (CHR ''=''))"

text \<open>\<^verbatim>\<open>copy\<close> of a string into a zeroed buffer of \<open>n\<close> bytes.\<close>

definition raw_key :: "nat \<Rightarrow> string \<Rightarrow> string" where
  "raw_key n udid = take n (udid @ replicate n (char_of (0::nat)))"

definition SS2022UserKey :: "string \<Rightarrow> string \<Rightarrow> string \<times> bool" where
  "SS2022UserKey method udid =
     (case map_of ss2022UserKeySizes method of
        None \<Rightarrow> ([], False)
      | Some n \<Rightarrow> (StdEncoding (raw_key n udid), True))"

section \<open>The custom configuration file\<close>

datatype custom_error = ReadCustomConfig | ParseCustomJSON | ParseCustomYAML

definition LoadCustomConfig :: "kenv \<Rightarrow> string \<Rightarrow> custom_error + any_map" where
  "LoadCustomConfig ke path =
     (if path = [] then Inr None
      else case ke_readFile ke path of
        FileMissing \<Rightarrow> Inr None
      | FileError \<Rightarrow> Inl ReadCustomConfig
      | FileData data \<Rightarrow>
          if data = [] then Inr None
          else
            (let isJSON = HasPrefix (TrimSpace data) ''{'' in
             case ke_parseDoc ke isJSON data of
               None \<Rightarrow> Inl (if isJSON then ParseCustomJSON else ParseCustomYAML)
             | Some result \<Rightarrow> Inr (Some result)))"

text \<open>A destination list holds the maps as JSON values (a nil map is \<open>AnyNil\<close>).\<close>

definition MergeAppendList :: "any list \<Rightarrow> any option \<Rightarrow> any list" where
  "MergeAppendList dst srcRaw =
     (let (srcList, ok) = toSliceOfMaps srcRaw in if \<not> ok then dst else dst @ map AnyMap srcList)"

definition MergePrependList :: "any list \<Rightarrow> any option \<Rightarrow> any list" where
  "MergePrependList dst srcRaw =
     (let (srcList, ok) = toSliceOfMaps srcRaw in if \<not> ok then dst else map AnyMap srcList @ dst)"

section \<open>User sets\<close>

definition UserDiff :: "UserSpec list \<Rightarrow> UserSpec list \<Rightarrow> UserSpec list \<times> UserSpec list" where
  "UserDiff oldUsers newUsers =
     (let oldMap = mbuild ID (\<lambda>u. u) oldUsers;
          newMap = mbuild ID (\<lambda>u. u) newUsers
      in (filter (\<lambda>u. case map_of oldMap (ID u) of None \<Rightarrow> True | Some old \<Rightarrow> UUID old \<noteq> UUID u) newUsers,
          filter (\<lambda>u. \<not> mhas newMap (ID u)) oldUsers))"

text \<open>Users with equal IDs are hashed in list order, as in the service.\<close>

definition ComputeHash :: "(string \<Rightarrow> string) \<Rightarrow> (NodeSpec \<Rightarrow> string) \<Rightarrow> NodeSpec \<Rightarrow> UserSpec list \<Rightarrow> string" where
  "ComputeHash sha js nc users =
     sha (js nc @ concat (map (\<lambda>u. FormatInt (ID u) @ '':'' @ UUID u @ '','') (sort_key ID users)))"

section \<open>Shadowsocks 2022 keys are of the size of the method and tell the key bytes apart\<close>

lemma length_raw_key [simp]: "length (raw_key n s) = n"
  by (simp add: raw_key_def)

definition b64_std_val :: "char \<Rightarrow> nat" where
  "b64_std_val c = length (takeWhile (\<lambda>d. d \<noteq> c) ''ABCDEFGHIJKLMNOPQRSTUVWXYZabcdefghijklmnopqrstuvwxyz0123456789+/'')"

lemma b64_std_val_char_all: "\<forall>n \<in> set [0..<64]. b64_std_val (b64_std_char n) = n"
  by code_simp

lemma map_std_inj:
  "\<lbrakk>\<forall>v \<in> set vs. v < 64; \<forall>v \<in> set ws. v < 64; map b64_std_char vs = map b64_std_char ws\<rbrakk> \<Longrightarrow> vs = ws"
proof -
  have inv: "\<forall>v \<in> set xs. v < 64 \<Longrightarrow> map b64_std_val (map b64_std_char xs) = xs" for xs
    using b64_std_val_char_all by (induction xs) auto
  assume "\<forall>v \<in> set vs. v < 64" "\<forall>v \<in> set ws. v < 64" "map b64_std_char vs = map b64_std_char ws"
  then show "vs = ws" using inv by metis
qed

lemma length_b64_enc: "length (b64_enc bs) = (4 * length bs + 2) div 3"
  by (induction bs rule: b64_enc.induct) auto

lemma StdEncoding_inj:
  assumes "length s = length t" and "StdEncoding s = StdEncoding t"
  shows "s = t"
proof -
  have small: "\<forall>v \<in> set (b64_enc (map byte x)). v < 64" for x :: string
    by (rule b64_enc_small) auto
  have "map b64_std_char (b64_enc (map byte s)) = map b64_std_char (b64_enc (map byte t))"
    using assms by (simp add: StdEncoding_def Let_def length_b64_enc)
  with small have "b64_enc (map byte s) = b64_enc (map byte t)" by (intro map_std_inj)
  then have "b64_dec (b64_enc (map byte s)) = b64_dec (b64_enc (map byte t))" by (rule arg_cong)
  moreover have "b64_dec (b64_enc (map byte x)) = Some (map byte x)" for x :: string
    by (rule b64_dec_enc) auto
  ultimately have "map byte s = map byte t" by simp
  then have "map char_of (map byte s) = (map char_of (map byte t) :: string)" by simp
  then show ?thesis by (simp add: comp_def)
qed

lemma length_StdEncoding: "length (StdEncoding s) = 4 * ((length s + 2) div 3)"
proof -
  have "(4 * n + 2) div 3 + (4 - (4 * n + 2) div 3 mod 4) mod 4 = 4 * ((n + 2) div 3)" for n :: nat
  proof -
    define k r where "k = n div 3" and "r = n mod 3"
    have n: "n = 3 * k + r" and "r = 0 \<or> r = 1 \<or> r = 2" by (auto simp: k_def r_def)
    then consider "r = 0" | "r = 1" | "r = 2" by blast
    then show ?thesis
    proof cases
      case 1
      have "(4 * n + 2) div 3 = 4 * k" and "(n + 2) div 3 = k" using n 1 by auto
      then show ?thesis by simp
    next
      case 2
      have "(4 * n + 2) div 3 = 4 * k + 2" and "(n + 2) div 3 = Suc k" using n 2 by auto
      moreover have "(4 * k + 2) mod 4 = 2" by presburger
      ultimately show ?thesis by simp
    next
      case 3
      have "(4 * n + 2) div 3 = 4 * k + 3" and "(n + 2) div 3 = Suc k" using n 3 by auto
      moreover have "(4 * k + 3) mod 4 = 3" by presburger
      ultimately show ?thesis by simp
    qed
  qed
  then show ?thesis by (simp add: StdEncoding_def Let_def length_b64_enc)
qed

text \<open>
  For a Shadowsocks 2022 method every user gets a key, the Base64 form of exactly as many bytes as
  the method needs (24 or 44 characters), and two users get the same key exactly when their UDIDs agree
  on that many bytes, a shorter one filled up with zero bytes.
\<close>

lemma ss2022_user_key:
  assumes "map_of ss2022UserKeySizes method = Some n"
  shows "snd (SS2022UserKey method u) \<and> (n = 16 \<or> n = 32) \<and>
    length (fst (SS2022UserKey method u)) = (if n = 16 then 24 else 44) \<and>
    (fst (SS2022UserKey method u) = fst (SS2022UserKey method v) \<longleftrightarrow> raw_key n u = raw_key n v)"
proof -
  have n: "n = 16 \<or> n = 32"
    using assms by (auto simp: ss2022UserKeySizes_def split: if_splits)
  moreover have "fst (SS2022UserKey method w) = StdEncoding (raw_key n w)" for w
    using assms by (simp add: SS2022UserKey_def)
  ultimately show ?thesis
    using assms StdEncoding_inj [of "raw_key n u" "raw_key n v"]
    by (auto simp: length_StdEncoding SS2022UserKey_def)
qed

theorem ss2022_user_key_witness:
  "fst (SS2022UserKey ''2022-blake3-aes-128-gcm'' ''0123456789abcdef-1'') =
   fst (SS2022UserKey ''2022-blake3-aes-128-gcm'' ''0123456789abcdef-2'')"
  using ss2022_user_key [of "''2022-blake3-aes-128-gcm''" 16 "''0123456789abcdef-1''" "''0123456789abcdef-2''"]
  by (simp add: ss2022UserKeySizes_def raw_key_def)

end
