(* ===== verification/Routing.thy ===== *)
theory Routing
  imports KernelCommon
begin

text \<open>
  Routing decisions, for both kernels. A router takes the outbound of the first rule that matches a
  connection. Both kernels compile the route profiles of the user scopes (\<^verbatim>\<open>admin\<close>, \<^verbatim>\<open>member\<close>) into rules
  that carry the list of the users they hold for. The locale \<open>scoped_rules\<close> states what such a
  compilation has to guarantee of one profile; that the scopes are kept apart follows from it for every
  kernel.
\<close>

section \<open>The first rule that matches\<close>

definition pick :: "(any \<Rightarrow> bool) \<Rightarrow> (any \<Rightarrow> string) \<Rightarrow> any list \<Rightarrow> string option" where
  "pick matches tag rules = map_option tag (find matches rules)"

lemma find_append: "find P (xs @ ys) = (case find P xs of None \<Rightarrow> find P ys | Some x \<Rightarrow> Some x)"
  by (induction xs) auto

lemma pick_append: "pick P t (xs @ ys) = (case pick P t xs of None \<Rightarrow> pick P t ys | Some s \<Rightarrow> Some s)"
  by (simp add: pick_def find_append split: option.split)

lemma pick_Cons: "pick P t (r # rs) = (if P r then Some (t r) else pick P t rs)"
  by (simp add: pick_def)

lemma pick_Nil [simp]: "pick P t [] = None"
  by (simp add: pick_def)

lemma pick_None: "\<forall>r \<in> set rs. \<not> P r \<Longrightarrow> pick P t rs = None"
  by (auto simp: pick_def find_None_iff)

lemma pick_map:
  "\<forall>r \<in> set rs. P (g r) = P (h r) \<and> t (g r) = t (h r) \<Longrightarrow> pick P t (map g rs) = pick P t (map h rs)"
  by (induction rs) (auto simp: pick_Cons)

text \<open>If only the entry of one key contributes, the order of the entries does not matter.\<close>

lemma pick_concat_single:
  assumes "wf_map m" and "\<forall>(k, v) \<in> set m. k \<noteq> s \<longrightarrow> pick P t (f (k, v)) = None"
  shows "pick P t (concat (map f m)) = (case map_of m s of None \<Rightarrow> None | Some v \<Rightarrow> pick P t (f (s, v)))"
  using assms
proof (induction m)
  case (Cons kv m)
  obtain k v where kv: "kv = (k, v)" by force
  have IH: "pick P t (concat (map f m)) = (case map_of m s of None \<Rightarrow> None | Some v \<Rightarrow> pick P t (f (s, v)))"
    using Cons by (auto simp: wf_map_def)
  show ?case
  proof (cases "k = s")
    case True
    then have "map_of m s = None" using Cons.prems(1) kv by (auto simp: wf_map_def map_of_eq_None_iff)
    with True kv IH show ?thesis by (auto simp: pick_append split: option.splits)
  next
    case False
    then have "pick P t (f (k, v)) = None" using Cons.prems(2) kv by auto
    with False kv IH show ?thesis by (simp add: pick_append)
  qed
qed simp

section \<open>Scopes\<close>

definition userScope :: "UserSpec \<Rightarrow> string" where
  "userScope u = (if RouteScope u \<noteq> ''admin'' then ''member'' else RouteScope u)"

text \<open>
  \<open>matches e r\<close>: rule \<open>r\<close> matches a connection of the user called \<open>e\<close>. \<open>scoped es p\<close> are the rules of profile
  \<open>p\<close> for the users \<open>es\<close>, \<open>own p\<close> the rules it stands for.
\<close>

locale scoped_rules =
  fixes matches :: "string \<Rightarrow> any \<Rightarrow> bool"
    and tag :: "any \<Rightarrow> string"
    and name :: "UserSpec \<Rightarrow> string"
    and own :: "RouteProfile \<Rightarrow> any list"
    and scoped :: "string list \<Rightarrow> RouteProfile \<Rightarrow> any list"
  assumes scoped_hit: "e \<in> set es \<Longrightarrow> pick (matches e) tag (scoped es p) = pick (matches e) tag (own p)"
    and scoped_miss: "e \<notin> set es \<Longrightarrow> pick (matches e) tag (scoped es p) = None"
begin

definition names :: "UserSpec list \<Rightarrow> string \<Rightarrow> string list" where
  "names users s = map name (filter (\<lambda>u. s = userScope u) users)"

definition profile_rules :: "UserSpec list \<Rightarrow> string \<times> RouteProfile \<Rightarrow> any list" where
  "profile_rules users sp = scoped (names users (fst sp)) (snd sp)"

lemma names_iff:
  assumes "u \<in> set users" and "distinct (map name users)"
  shows "name u \<in> set (names users s) \<longleftrightarrow> s = userScope u"
proof
  assume "name u \<in> set (names users s)"
  then obtain v where "v \<in> set users" "s = userScope v" "name v = name u"
    by (auto simp: names_def)
  with assms have "v = u" by (meson distinct_map inj_on_def)
  with \<open>s = userScope v\<close> show "s = userScope u" by simp
qed (use assms in \<open>auto simp: names_def\<close>)

lemma scopes_isolated:
  assumes "range_order rng" and "wf_map profiles" and "u \<in> set users" and "distinct (map name users)"
  shows "pick (matches (name u)) tag (before @ concat (map (profile_rules users) (rng profiles)) @ rest) =
    pick (matches (name u)) tag (before @ (case map_of profiles (userScope u) of None \<Rightarrow> [] | Some p \<Rightarrow> own p) @ rest)"
proof -
  have wf: "wf_map (rng profiles)"
    using assms(1,2) unfolding wf_map_def by (metis mset_map mset_eq_imp_distinct_iff range_order_mset)
  have "pick (matches (name u)) tag (concat (map (profile_rules users) (rng profiles))) =
      (case map_of (rng profiles) (userScope u) of None \<Rightarrow> None
       | Some p \<Rightarrow> pick (matches (name u)) tag (profile_rules users (userScope u, p)))"
    by (rule pick_concat_single [OF wf])
       (use names_iff [OF assms(3,4)] scoped_miss in \<open>auto simp: profile_rules_def\<close>)
  also have "\<dots> = pick (matches (name u)) tag (case map_of profiles (userScope u) of None \<Rightarrow> [] | Some p \<Rightarrow> own p)"
    using names_iff [OF assms(3,4)] range_order_map_of [OF assms(1,2)]
    by (simp add: profile_rules_def scoped_hit split: option.split)
  finally show ?thesis by (simp add: pick_append cong: option.case_cong)
qed

end

end
