(* ===== verification/XrayConfig.thy ===== *)
theory XrayConfig
  imports Routing
begin

text \<open>
  The configuration generator of the Xray kernel (\<^verbatim>\<open>internal/kernel/xray/config.go\<close>): outbounds, the
  inbound with its users, transport and TLS settings, the routing rules and the merge of a custom
  configuration file.

  The generated document is a JSON value. The functions that write into a map they are given return it;
  two of them also write into the node specification (\<^verbatim>\<open>buildTrojan\<close> sets \<^verbatim>\<open>TLS\<close>, \<^verbatim>\<open>applyStreamSettings\<close>
  cleans the \<^verbatim>\<open>extra\<close> settings in place), so they return the specification as well. The order in which
  the map of route profiles is walked is an argument \<open>rng\<close>.
\<close>

section \<open>Outbounds\<close>

definition outboundConfigToXray :: "OutboundConfig \<Rightarrow> M" where
  "outboundConfigToXray oc =
     [(''protocol'', AnyString (ob_Protocol oc)), (''tag'', AnyString (ob_Tag oc))] @
     (if elems (ob_Settings oc) \<noteq> [] then [(''settings'', AnyMap (elems (ob_Settings oc)))] else []) @
     (if ob_ProxyTag oc \<noteq> [] then [(''proxySettings'', AnyMap [(''tag'', AnyString (ob_ProxyTag oc))])] else [])"

definition xray_mergeRouteList :: "any_map slice \<Rightarrow> any_map list \<Rightarrow> any_map list" where
  "xray_mergeRouteList a b = elems a @ b"

definition raw_tag :: "any_map \<Rightarrow> string" where
  "raw_tag co = (case map_of (elems co) ''tag'' of Some (AnyString tag) \<Rightarrow> tag | _ \<Rightarrow> [])"

text \<open>The outbounds and the lower-case tags they define, as the first part of \<^verbatim>\<open>buildConfig\<close> collects them.\<close>

definition xray_tags :: "KernelConfig \<Rightarrow> NodeSpec \<Rightarrow> string list" where
  "xray_tags kcfg nc =
     map (\<lambda>co. ToLower (ob_Tag co)) (elems (n_CustomOutbounds nc)) @
     map ToLower (filter (\<lambda>tag. tag \<noteq> []) (map raw_tag (kc_CustomOutbound kcfg)))"

definition xray_outbounds :: "KernelConfig \<Rightarrow> NodeSpec \<Rightarrow> any list" where
  "xray_outbounds kcfg nc =
     (let tags = xray_tags kcfg nc;
          outbounds = map (\<lambda>co. AnyMap (outboundConfigToXray co)) (elems (n_CustomOutbounds nc)) @
                      map of_map (kc_CustomOutbound kcfg);
          outbounds = (if ''direct'' \<notin> set tags
            then AnyMap [(''protocol'', AnyString ''freedom''), (''tag'', AnyString ''direct'')] # outbounds else outbounds)
      in if ''block'' \<notin> set tags
         then outbounds @ [AnyMap [(''protocol'', AnyString ''blackhole''), (''tag'', AnyString ''block'')]] else outbounds)"

section \<open>Log level and user names\<close>

definition xrayLogLevel :: "string \<Rightarrow> string" where
  "xrayLogLevel singboxLevel =
     (if singboxLevel = ''trace'' \<or> singboxLevel = ''debug'' then ''debug''
      else if singboxLevel = ''info'' then ''info''
      else if singboxLevel = ''warn'' then ''warning''
      else if singboxLevel = ''error'' then ''error''
      else if singboxLevel = ''fatal'' \<or> singboxLevel = ''panic'' then ''error''
      else ''warning'')"

definition userEmail :: "int \<Rightarrow> string" where
  "userEmail userID = ''user@'' @ FormatInt userID"

section \<open>Transport and TLS\<close>

function sanitizeEmptyArrays :: "M \<Rightarrow> M" where
  "sanitizeEmptyArrays [] = []"
| "sanitizeEmptyArrays ((k, v) # m) =
     (case v of
        AnyList vs \<Rightarrow> if vs = [] then sanitizeEmptyArrays m else (k, v) # sanitizeEmptyArrays m
      | AnyMap n \<Rightarrow> (k, AnyMap (sanitizeEmptyArrays n)) # sanitizeEmptyArrays m
      | _ \<Rightarrow> (k, v) # sanitizeEmptyArrays m)"
  by pat_completeness auto
termination
  by (relation "measure (size_list (size_prod (\<lambda>_. 0) size))") auto

definition echPEMToBase64 :: "kenv \<Rightarrow> string \<Rightarrow> string" where
  "echPEMToBase64 ke data =
     (let trimmed = TrimSpace data in
      if \<not> Contains trimmed ''-----'' then trimmed
      else case ke_pemDecode ke data of
             None \<Rightarrow> []
           | Some (ty, bytes) \<Rightarrow> if ty \<noteq> ''ECH KEYS'' then [] else StdEncoding bytes)"

definition string_at :: "M \<Rightarrow> string \<Rightarrow> string" where
  "string_at m k = (case map_of m k of Some (AnyString s) \<Rightarrow> s | _ \<Rightarrow> [])"

definition extractECHServerKeys :: "kenv \<Rightarrow> M \<Rightarrow> string" where
  "extractECHServerKeys ke tlsSettings =
     (case map_of tlsSettings ''ech'' of
        Some (AnyMap echMap) \<Rightarrow>
          if map_of echMap ''enabled'' \<noteq> Some (AnyBool True) then []
          else if string_at echMap ''key'' \<noteq> [] then echPEMToBase64 ke (string_at echMap ''key'')
          else if string_at echMap ''key_path'' \<noteq> [] then
            (case ke_readFile ke (string_at echMap ''key_path'') of FileData data \<Rightarrow> echPEMToBase64 ke data | _ \<Rightarrow> [])
          else []
      | _ \<Rightarrow> [])"

definition buildRealitySettings :: "kenv \<Rightarrow> NodeSpec \<Rightarrow> M" where
  "buildRealitySettings ke nc =
     (case n_TLSSettings nc of
        None \<Rightarrow> [(''show'', AnyBool False)]
      | Some ts \<Rightarrow>
          (let r0 = [(''show'', AnyBool False)];
               r1 = (case map_of ts ''private_key'' of Some pk \<Rightarrow> mput ''privateKey'' pk r0 | None \<Rightarrow> r0);
               r2 = (case map_of ts ''short_id'' of
                       Some (AnyString v) \<Rightarrow> mput ''shortIds'' (any_strings [v]) r1
                     | Some (AnyList v) \<Rightarrow> mput ''shortIds'' (any_strings (map (Sprint (ke_fmtFloat ke)) v)) r1
                     | _ \<Rightarrow> r1);
               r3 = (case map_of ts ''dest'' of
                       Some dest \<Rightarrow> mput ''dest'' (AnyString (Sprint (ke_fmtFloat ke) dest)) r2 | None \<Rightarrow> r2)
           in case map_of ts ''server_name'' of
                None \<Rightarrow> r3
              | Some sn \<Rightarrow>
                  (let r4 = mput ''serverNames'' (any_strings [Sprint (ke_fmtFloat ke) sn]) r3
                   in if \<not> mhas r4 ''dest'' then mput ''dest'' (AnyString (Sprint (ke_fmtFloat ke) sn @ '':443'')) r4 else r4)))"

text \<open>\<^verbatim>\<open>if v, ok := src[from]; ok { dst[to] = f(v) }\<close>\<close>

definition copy_key :: "M \<Rightarrow> string \<Rightarrow> string \<Rightarrow> (any \<Rightarrow> any) \<Rightarrow> M \<Rightarrow> M" where
  "copy_key src k k' f dst = (case map_of src k of Some v \<Rightarrow> mput k' (f v) dst | None \<Rightarrow> dst)"

definition ws_settings :: "M \<Rightarrow> M" where
  "ws_settings ns =
     (let ws = copy_key ns ''path'' ''path'' id [];
          headers = (case map_of ns ''headers'' of Some (AnyMap hm) \<Rightarrow> fold (\<lambda>(k, v). mput k v) hm [] | _ \<Rightarrow> []);
          headers = copy_key ns ''host'' ''Host'' id headers
      in if headers \<noteq> [] then mput ''headers'' (AnyMap headers) ws else ws)"

definition grpc_settings :: "M \<Rightarrow> M" where
  "grpc_settings ns =
     (if mhas ns ''serviceName'' then copy_key ns ''serviceName'' ''serviceName'' id []
      else copy_key ns ''service_name'' ''serviceName'' id [])"

definition httpupgrade_settings :: "M \<Rightarrow> M" where
  "httpupgrade_settings ns = copy_key ns ''host'' ''host'' id (copy_key ns ''path'' ''path'' id [])"

definition h2_settings :: "M \<Rightarrow> M" where
  "h2_settings ns = copy_key ns ''host'' ''host'' (\<lambda>v. AnyList [v]) (copy_key ns ''path'' ''path'' id [])"

text \<open>The settings of XHTTP and the network settings with their \<^verbatim>\<open>extra\<close> map cleaned in place.\<close>

definition xhttp_settings :: "M \<Rightarrow> M \<times> M" where
  "xhttp_settings ns =
     (let xs = copy_key ns ''mode'' ''mode'' id (copy_key ns ''host'' ''host'' id (copy_key ns ''path'' ''path'' id []))
      in case map_of ns ''extra'' of
           Some (AnyMap m) \<Rightarrow>
             if m \<noteq> [] then
               (let m' = sanitizeEmptyArrays m in (mput ''extra'' (AnyMap m') xs, mput ''extra'' (AnyMap m') ns))
             else (xs, ns)
         | _ \<Rightarrow> (xs, ns))"

definition xray_transport :: "NodeSpec \<Rightarrow> M \<times> NodeSpec" where
  "xray_transport nc =
     (let network = (if n_Network nc = [] then ''tcp'' else n_Network nc);
          ns = elems (n_NetworkSettings nc)
      in if network = ''ws'' then ([(''network'', AnyString network), (''wsSettings'', AnyMap (ws_settings ns))], nc)
         else if network = ''grpc'' then ([(''network'', AnyString network), (''grpcSettings'', AnyMap (grpc_settings ns))], nc)
         else if network = ''httpupgrade'' then
           ([(''network'', AnyString network), (''httpupgradeSettings'', AnyMap (httpupgrade_settings ns))], nc)
         else if network = ''h2'' \<or> network = ''http'' then
           ([(''network'', AnyString ''h2''), (''httpSettings'', AnyMap (h2_settings ns))], nc)
         else if network = ''xhttp'' \<or> network = ''splithttp'' then
           (let (xs, ns') = xhttp_settings ns
            in ([(''network'', AnyString ''xhttp''), (''xhttpSettings'', AnyMap xs)],
                nc\<lparr>n_NetworkSettings := map_option (\<lambda>_. ns') (n_NetworkSettings nc)\<rparr>))
         else ([(''network'', AnyString network)], nc))"

definition cert_entry :: "TLSCert \<Rightarrow> any" where
  "cert_entry tc = AnyMap [(''certificate'', any_strings [fst tc]), (''key'', any_strings [snd tc])]"

definition xray_tls_settings :: "kenv \<Rightarrow> NodeSpec \<Rightarrow> TLSCert \<Rightarrow> M" where
  "xray_tls_settings ke nc tc =
     (let serverName = (if n_ServerName nc = [] \<and> n_Host nc \<noteq> [] then n_Host nc else n_ServerName nc);
          t0 = (if serverName \<noteq> [] then [(''serverName'', AnyString serverName)] else []);
          t1 = (case n_TLSSettings nc of
                  None \<Rightarrow> t0
                | Some ts \<Rightarrow>
                    (let t = (case map_of ts ''server_name'' of
                                Some sn \<Rightarrow> if sn \<noteq> AnyString [] then mput ''serverName'' sn t0 else t0 | None \<Rightarrow> t0);
                         echKeys = extractECHServerKeys ke ts
                     in if echKeys \<noteq> [] then mput ''echServerKeys'' (AnyString echKeys) t else t))
      in if HasCert tc then mput ''certificates'' (AnyList [cert_entry tc]) t1 else t1)"

text \<open>
  The map \<^verbatim>\<open>sockopt\<close> of the stream settings the inbound had before. Every caller passes an inbound whose
  \<^verbatim>\<open>streamSettings\<close> is a map.
\<close>

definition old_sockopt :: "M \<Rightarrow> M" where
  "old_sockopt inb =
     (case map_of inb ''streamSettings'' of
        Some (AnyMap ss) \<Rightarrow> (case map_of ss ''sockopt'' of Some (AnyMap so) \<Rightarrow> so | _ \<Rightarrow> [])
      | _ \<Rightarrow> [])"

definition applyStreamSettings :: "kenv \<Rightarrow> M \<Rightarrow> NodeSpec \<Rightarrow> TLSCert \<Rightarrow> M \<times> NodeSpec" where
  "applyStreamSettings ke inb nc tc =
     (let (ss, nc') = xray_transport nc;
          ss = (if n_TLS nc' = 1 then
                  mput ''tlsSettings'' (AnyMap (xray_tls_settings ke nc' tc)) (mput ''security'' (AnyString ''tls'') ss)
                else if n_TLS nc' = 2 then
                  mput ''realitySettings'' (AnyMap (buildRealitySettings ke nc')) (mput ''security'' (AnyString ''reality'') ss)
                else ss);
          ss = (if GetProxyProtocol (Some nc') then
                  mput ''sockopt'' (AnyMap (mput ''acceptProxyProtocol'' (AnyBool True) (old_sockopt inb))) ss
                else ss)
      in (mput ''streamSettings'' (AnyMap ss) inb, nc'))"

section \<open>Inbounds\<close>

definition xray_buildVMess :: "kenv \<Rightarrow> M \<Rightarrow> NodeSpec \<Rightarrow> UserSpec list \<Rightarrow> TLSCert \<Rightarrow> M \<times> NodeSpec" where
  "xray_buildVMess ke inb nc users tc =
     (let clients = map (\<lambda>u. [(''id'', AnyString (UUID u)), (''alterId'', AnyInt 0), (''email'', AnyString (userEmail (ID u)))]) users
      in applyStreamSettings ke (mput ''settings'' (AnyMap [(''clients'', any_maps clients)]) inb) nc tc)"

definition xray_buildVLESS :: "kenv \<Rightarrow> M \<Rightarrow> NodeSpec \<Rightarrow> UserSpec list \<Rightarrow> TLSCert \<Rightarrow> M \<times> NodeSpec" where
  "xray_buildVLESS ke inb nc users tc =
     (let clients = map (\<lambda>u. [(''id'', AnyString (UUID u)), (''email'', AnyString (userEmail (ID u)))] @
                            (if n_Flow nc \<noteq> [] then [(''flow'', AnyString (n_Flow nc))] else [])) users;
          decryption = (if n_Decryption nc \<noteq> [] then n_Decryption nc else ''none'')
      in applyStreamSettings ke
           (mput ''settings'' (AnyMap [(''clients'', any_maps clients), (''decryption'', AnyString decryption)]) inb) nc tc)"

definition stream_security :: "M \<Rightarrow> string option" where
  "stream_security inb =
     (case map_of inb ''streamSettings'' of
        Some (AnyMap ss) \<Rightarrow> (case map_of ss ''security'' of Some (AnyString security) \<Rightarrow> Some security | _ \<Rightarrow> None)
      | _ \<Rightarrow> None)"

definition xray_buildTrojan :: "kenv \<Rightarrow> M \<Rightarrow> NodeSpec \<Rightarrow> UserSpec list \<Rightarrow> TLSCert \<Rightarrow> M \<times> NodeSpec" where
  "xray_buildTrojan ke inb nc users tc =
     (let clients = map (\<lambda>u. [(''password'', AnyString (UUID u)), (''email'', AnyString (userEmail (ID u)))]) users;
          (inb1, nc1) = applyStreamSettings ke (mput ''settings'' (AnyMap [(''clients'', any_maps clients)]) inb) nc tc
      in if stream_security inb1 \<noteq> Some ''tls'' \<and> stream_security inb1 \<noteq> Some ''reality''
         then applyStreamSettings ke inb1 (nc1\<lparr>n_TLS := 1\<rparr>) tc
         else (inb1, nc1))"

definition xray_buildShadowsocks :: "M \<Rightarrow> NodeSpec \<Rightarrow> UserSpec list \<Rightarrow> M" where
  "xray_buildShadowsocks inb nc users =
     (if IsSS2022Method (n_Cipher nc) then
        mput ''settings'' (AnyMap
          [(''method'', AnyString (n_Cipher nc)), (''password'', AnyString (n_ServerKey nc)),
           (''clients'', any_maps (map (\<lambda>u. [(''password'', AnyString (fst (SS2022UserKey (n_Cipher nc) (UUID u)))),
                                           (''email'', AnyString (userEmail (ID u)))]) users)),
           (''network'', AnyString ''tcp,udp'')]) inb
      else
        mput ''settings'' (AnyMap
          [(''method'', AnyString (n_Cipher nc)),
           (''clients'', any_maps (map (\<lambda>u. [(''method'', AnyString (n_Cipher nc)), (''password'', AnyString (UUID u)),
                                           (''email'', AnyString (userEmail (ID u)))]) users)),
           (''network'', AnyString ''tcp,udp'')]) inb)"

definition account_entry :: "UserSpec \<Rightarrow> M" where
  "account_entry u =
     [(''user'', AnyString (UUID u)), (''pass'', AnyString (UUID u)), (''email'', AnyString (userEmail (ID u)))]"

definition xray_buildSocks :: "M \<Rightarrow> UserSpec list \<Rightarrow> M" where
  "xray_buildSocks inb users =
     mput ''settings'' (AnyMap [(''auth'', AnyString ''password''), (''accounts'', any_maps (map account_entry users)),
                              (''udp'', AnyBool True)])
       (mput ''protocol'' (AnyString ''socks'') inb)"

definition xray_buildHTTP :: "kenv \<Rightarrow> M \<Rightarrow> NodeSpec \<Rightarrow> UserSpec list \<Rightarrow> TLSCert \<Rightarrow> M \<times> NodeSpec" where
  "xray_buildHTTP ke inb nc users tc =
     (let inb1 = mput ''settings'' (AnyMap [(''accounts'', any_maps (map account_entry users))])
                   (mput ''protocol'' (AnyString ''http'') inb)
      in if n_TLS nc = 1 then applyStreamSettings ke inb1 nc tc else (inb1, nc))"

definition quic_params :: "NodeSpec \<Rightarrow> M" where
  "quic_params nc =
     (if 0 < n_UpMbps nc then [(''brutalUp'', AnyString (FormatInt (n_UpMbps nc) @ '' mbps''))] else []) @
     (if 0 < n_DownMbps nc then [(''brutalDown'', AnyString (FormatInt (n_DownMbps nc) @ '' mbps''))] else [])"

definition xray_buildHysteria :: "M \<Rightarrow> NodeSpec \<Rightarrow> UserSpec list \<Rightarrow> TLSCert \<Rightarrow> M option" where
  "xray_buildHysteria inb nc users tc =
     (if n_Version nc \<noteq> 2 then None
      else
        (let clients = map (\<lambda>u. [(''auth'', AnyString (UUID u)), (''email'', AnyString (userEmail (ID u)))]) users;
             ss = [(''network'', AnyString ''hysteria''),
                   (''hysteriaSettings'', AnyMap [(''version'', AnyInt (n_Version nc)), (''udpIdleTimeout'', AnyInt 60)])] @
                  (if 0 < n_UpMbps nc \<or> 0 < n_DownMbps nc
                   then [(''finalMask'', AnyMap [(''quicParams'', AnyMap (quic_params nc))])] else []) @
                  (if HasCert tc
                   then [(''security'', AnyString ''tls''),
                         (''tlsSettings'', AnyMap [(''certificates'', AnyList [cert_entry tc]), (''alpn'', any_strings [''h3''])])]
                   else []) @
                  (if GetProxyProtocol (Some nc) then [(''sockopt'', AnyMap [(''acceptProxyProtocol'', AnyBool True)])] else [])
         in Some (mput ''streamSettings'' (AnyMap ss) (mput ''settings'' (AnyMap [(''clients'', any_maps clients)]) inb))))"

definition xray_inbound_base :: "NodeSpec \<Rightarrow> M" where
  "xray_inbound_base nc =
     [(''tag'', AnyString (n_Protocol nc @ ''-in'')),
      (''listen'', AnyString (if n_ListenIP nc \<noteq> [] then n_ListenIP nc else ''::'')),
      (''port'', AnyInt (n_ServerPort nc)),
      (''protocol'', AnyString (n_Protocol nc)),
      (''sniffing'', AnyMap [(''enabled'', AnyBool True), (''destOverride'', any_strings [''http'', ''tls'', ''quic'']),
                           (''routeOnly'', AnyBool True)]),
      (''streamSettings'', AnyMap [(''sockopt'', AnyMap [(''reusePort'', AnyBool True)])])]"

definition xray_buildInbound :: "kenv \<Rightarrow> NodeSpec \<Rightarrow> UserSpec list \<Rightarrow> TLSCert \<Rightarrow> M option \<times> NodeSpec" where
  "xray_buildInbound ke nc users tc =
     (let inb = xray_inbound_base nc; protocol = n_Protocol nc in
      if protocol = ''vmess'' then apfst Some (xray_buildVMess ke inb nc users tc)
      else if protocol = ''vless'' then apfst Some (xray_buildVLESS ke inb nc users tc)
      else if protocol = ''trojan'' then apfst Some (xray_buildTrojan ke inb nc users tc)
      else if protocol = ''shadowsocks'' then (Some (xray_buildShadowsocks inb nc users), nc)
      else if protocol = ''socks'' then (Some (xray_buildSocks inb users), nc)
      else if protocol = ''http'' then apfst Some (xray_buildHTTP ke inb nc users tc)
      else if protocol = ''hysteria'' then (xray_buildHysteria inb nc users tc, nc)
      else (None, nc))"

section \<open>Routing\<close>

definition xrayOutboundForAction :: "RouteAction \<Rightarrow> string" where
  "xrayOutboundForAction action =
     (if a_Type action = ''direct'' then ''direct''
      else if a_Type action = ''route'' then (if a_Target action \<noteq> [] then a_Target action else ''block'')
      else ''block'')"

definition xray_field :: "string \<Rightarrow> any \<Rightarrow> string \<Rightarrow> M" where
  "xray_field k v outbound = [(''type'', AnyString ''field''), (k, v), (''outboundTag'', AnyString outbound)]"

definition nonblank :: "string list \<Rightarrow> string list" where
  "nonblank values = filter (\<lambda>v. v \<noteq> []) (map TrimSpace values)"

definition geoip_category :: "string \<Rightarrow> string" where
  "geoip_category category = TrimSpace (TrimPrefix (ToLower (TrimSpace category)) ''geoip:'')"

definition xray_domains :: "RouteMatch \<Rightarrow> string list" where
  "xray_domains match =
     nonblank (elems (m_Domains match)) @ map (\<lambda>v. ''domain:'' @ v) (nonblank (elems (m_DomainSuffixes match)))"

definition xray_ips :: "RouteMatch \<Rightarrow> string list" where
  "xray_ips match =
     nonblank (elems (m_IPCIDRs match)) @
     map (\<lambda>c. ''geoip:'' @ c) (filter (\<lambda>c. c \<noteq> []) (map geoip_category (elems (m_GeoIPs match))))"

definition xray_compileCustomRouteRule :: "CustomRouteRule \<Rightarrow> M list" where
  "xray_compileCustomRouteRule rule =
     (let outbound = xrayOutboundForAction (cr_Action rule); match = cr_Match rule in
      (if xray_domains match \<noteq> [] then [xray_field ''domain'' (any_strings (xray_domains match)) outbound] else []) @
      (if xray_ips match \<noteq> [] then [xray_field ''ip'' (any_strings (xray_ips match)) outbound] else []) @
      (if elems (m_Ports match) \<noteq> [] then [xray_field ''port'' (AnyString (Join (elems (m_Ports match)) '','')) outbound] else []) @
      (if elems (m_Networks match) \<noteq> []
       then [xray_field ''network'' (AnyString (Join (elems (m_Networks match)) '','')) outbound] else []) @
      (if elems (m_SourceCIDRs match) \<noteq> []
       then [xray_field ''source'' (any_strings (elems (m_SourceCIDRs match))) outbound] else []) @
      (if elems (m_SourcePorts match) \<noteq> []
       then [xray_field ''sourcePort'' (AnyString (Join (elems (m_SourcePorts match)) '','')) outbound] else []))"

text \<open>One entry of a panel rule goes to the addresses, the domains or the domain suffixes.\<close>

definition xray_panel_entry :: "string \<Rightarrow> RouteMatch \<Rightarrow> RouteMatch" where
  "xray_panel_entry raw match =
     (let item = TrimSpace raw in
      if item = [] then match
      else if HasPrefix item ''geoip:'' \<or> ContainsByte item (CHR ''/'') then
        match\<lparr>m_IPCIDRs := Some (elems (m_IPCIDRs match) @ [item])\<rparr>
      else if HasPrefix item ''geosite:'' then match\<lparr>m_Domains := Some (elems (m_Domains match) @ [item])\<rparr>
      else match\<lparr>m_DomainSuffixes := Some (elems (m_DomainSuffixes match) @ [TrimPrefix item ''*.''])\<rparr>)"

definition empty_match :: RouteMatch where
  "empty_match = \<lparr>m_Domains = None, m_DomainSuffixes = None, m_GeoIPs = None, m_IPCIDRs = None, m_Ports = None,
     m_Networks = None, m_SourceCIDRs = None, m_SourcePorts = None\<rparr>"

definition panel_action :: "RouteRule \<Rightarrow> RouteAction" where
  "panel_action rule =
     (if rr_Action rule = ''direct'' then \<lparr>a_Type = ''direct'', a_Target = []\<rparr>
      else if rr_Action rule = ''proxy'' then \<lparr>a_Type = ''route'', a_Target = rr_ActionValue rule\<rparr>
      else \<lparr>a_Type = ''block'', a_Target = []\<rparr>)"

definition xray_compilePanelRouteRule :: "RouteRule \<Rightarrow> M list" where
  "xray_compilePanelRouteRule rule =
     (if elems (rr_Match rule) = [] then []
      else xray_compileCustomRouteRule
             \<lparr>cr_Name = [], cr_Disabled = False, cr_Match = fold xray_panel_entry (elems (rr_Match rule)) empty_match,
              cr_Action = panel_action rule\<rparr>)"

fun firstDefaultOutboundTag :: "string list \<Rightarrow> string" where
  "firstDefaultOutboundTag [] = []"
| "firstDefaultOutboundTag (v # values) =
     (if TrimSpace v \<noteq> [] then TrimSpace v else firstDefaultOutboundTag values)"

definition effectiveDefaultOutboundTag :: "string \<Rightarrow> string" where
  "effectiveDefaultOutboundTag v = (if TrimSpace v \<noteq> [] then TrimSpace v else ''direct'')"

definition private_ranges :: "string list" where
  "private_ranges =
     [''10.0.0.0/8'', ''100.64.0.0/10'', ''127.0.0.0/8'', ''169.254.0.0/16'', ''172.16.0.0/12'', ''192.0.0.0/24'',
      ''192.168.0.0/16'', ''198.18.0.0/15'', ''fc00::/7'', ''fe80::/10'', ''::1/128'']"

definition private_rule :: M where
  "private_rule = xray_field ''ip'' (any_strings private_ranges) ''block''"

definition xray_default_rule :: "string \<Rightarrow> M" where
  "xray_default_rule tag = xray_field ''network'' (AnyString ''tcp,udp'') tag"

definition xray_rules :: "RouteRule slice \<Rightarrow> CustomRouteRule slice \<Rightarrow> any_map list \<Rightarrow> string list \<Rightarrow> any list" where
  "xray_rules rules customRouteRules customRules defaultOutboundTags =
     AnyMap private_rule #
     map AnyMap (concat (map xray_compileCustomRouteRule (filter (\<lambda>r. \<not> cr_Disabled r) (elems customRouteRules)))) @
     map of_map customRules @
     map AnyMap (concat (map xray_compilePanelRouteRule (elems rules))) @
     (let tag = firstDefaultOutboundTag defaultOutboundTags
      in if tag \<noteq> [] then [AnyMap (xray_default_rule tag)] else [])"

definition xray_buildRouting ::
  "RouteRule slice \<Rightarrow> CustomRouteRule slice \<Rightarrow> any_map list \<Rightarrow> string list \<Rightarrow> M" where
  "xray_buildRouting rules customRouteRules customRules defaultOutboundTags =
     [(''domainStrategy'', AnyString (if NeedsGeoIP rules \<or> NeedsGeoIPRules customRouteRules then ''IPIfNonMatch'' else ''AsIs'')),
      (''rules'', AnyList (xray_rules rules customRouteRules customRules defaultOutboundTags))]"

definition routeProfilesNeedGeoIP :: "(string, RouteProfile) gomap \<Rightarrow> bool" where
  "routeProfilesNeedGeoIP profiles = (\<exists>(k, profile) \<in> set profiles. NeedsGeoIPRules (rp_CustomRouteRules profile))"

definition scope_emails :: "string \<Rightarrow> UserSpec list \<Rightarrow> string list" where
  "scope_emails scope users = map (\<lambda>u. userEmail (ID u)) (filter (\<lambda>u. scope = userScope u) users)"

definition xray_scoped :: "string list \<Rightarrow> RouteProfile \<Rightarrow> M list" where
  "xray_scoped emails profile =
     (if emails = [] then []
      else
        map (mput ''user'' (any_strings emails))
          (concat (map xray_compileCustomRouteRule (elems (rp_CustomRouteRules profile)))) @
        (let tag = firstDefaultOutboundTag [rp_DefaultOutboundTag profile] in
         if tag \<noteq> []
         then [[(''type'', AnyString ''field''), (''user'', any_strings emails), (''network'', AnyString ''tcp,udp''),
                (''outboundTag'', AnyString tag)]]
         else []))"

definition xray_profile_rules :: "UserSpec list \<Rightarrow> string \<times> RouteProfile \<Rightarrow> M list" where
  "xray_profile_rules users sp = xray_scoped (scope_emails (fst sp) users) (snd sp)"

definition xray_buildRoutingForUsers ::
  "((string \<times> RouteProfile) list \<Rightarrow> (string \<times> RouteProfile) list) \<Rightarrow> NodeSpec \<Rightarrow> any_map list \<Rightarrow> UserSpec list \<Rightarrow> M" where
  "xray_buildRoutingForUsers rng nc customRules users =
     (if elems (n_RouteProfiles nc) = [] then
        xray_buildRouting (n_Routes nc) (n_CustomRouteRules nc) customRules [effectiveDefaultOutboundTag (n_DefaultOutboundTag nc)]
      else
        (let profiles = elems (n_RouteProfiles nc);
             routing = xray_buildRouting None None [] [];
             rules = (case map_of routing ''rules'' of Some (AnyList rs) \<Rightarrow> rs | _ \<Rightarrow> []) @
                     map AnyMap (concat (map (xray_profile_rules users) (rng profiles))) @
                     map of_map customRules @
                     map AnyMap (concat (map xray_compilePanelRouteRule (elems (n_Routes nc)))) @
                     [AnyMap (xray_default_rule (effectiveDefaultOutboundTag (n_DefaultOutboundTag nc)))];
             routing = mput ''rules'' (AnyList rules) routing
         in if NeedsGeoIP (n_Routes nc) \<or> routeProfilesNeedGeoIP profiles
            then mput ''domainStrategy'' (AnyString ''IPIfNonMatch'') routing else routing))"

section \<open>The custom configuration file and the whole document\<close>

definition mergeCustomXrayRouting :: "M \<Rightarrow> M \<Rightarrow> M" where
  "mergeCustomXrayRouting cfg customRouting =
     (let routing = (case map_of cfg ''routing'' of Some (AnyMap r) \<Rightarrow> r | _ \<Rightarrow> []);
          routing = (case map_of customRouting ''rules'' of
             None \<Rightarrow> routing
           | Some v \<Rightarrow> (case map_of routing ''rules'' of
                 Some (AnyList existing) \<Rightarrow> mput ''rules'' (AnyList (MergePrependList existing (Some v))) routing
               | _ \<Rightarrow> routing));
          routing = fold (\<lambda>(k, v) r. if k = ''rules'' then r else mput k v r) customRouting routing
      in mput ''routing'' (AnyMap routing) cfg)"

definition xray_protected :: "string list" where
  "xray_protected = [''inbounds'', ''outbounds'', ''routing'', ''dns'', ''log'', ''stats'', ''policy'']"

definition merge_dns :: "M \<Rightarrow> M \<Rightarrow> M" where
  "merge_dns custom cfg = (case map_of custom ''dns'' of Some v \<Rightarrow> mput ''dns'' v cfg | None \<Rightarrow> cfg)"

definition merge_outbounds :: "M \<Rightarrow> M \<Rightarrow> M" where
  "merge_outbounds custom cfg =
     (case map_of custom ''outbounds'' of
        None \<Rightarrow> cfg
      | Some v \<Rightarrow> (case map_of cfg ''outbounds'' of
            Some (AnyList existing) \<Rightarrow> mput ''outbounds'' (AnyList (MergeAppendList existing (Some v))) cfg
          | _ \<Rightarrow> cfg))"

definition merge_routing :: "M \<Rightarrow> M \<Rightarrow> M" where
  "merge_routing custom cfg =
     (case map_of custom ''routing'' of Some (AnyMap cr) \<Rightarrow> mergeCustomXrayRouting cfg cr | _ \<Rightarrow> cfg)"

definition mergeCustomXray :: "kenv \<Rightarrow> M \<Rightarrow> KernelConfig \<Rightarrow> M" where
  "mergeCustomXray ke cfg kcfg =
     (case LoadCustomConfig ke (kc_CustomConfig kcfg) of
        Inl e \<Rightarrow> cfg
      | Inr None \<Rightarrow> cfg
      | Inr (Some custom) \<Rightarrow>
          fold (\<lambda>(k, v) c. if k \<in> set xray_protected then c else mput k v c) custom
            (merge_routing custom (merge_outbounds custom (merge_dns custom cfg))))"

definition xray_policy :: any where
  "xray_policy = AnyMap
     [(''levels'', AnyMap [(''0'', AnyMap [(''statsUserUplink'', AnyBool True), (''statsUserDownlink'', AnyBool True)])]),
      (''system'', AnyMap [(''statsInboundUplink'', AnyBool True), (''statsInboundDownlink'', AnyBool True),
                         (''statsOutboundUplink'', AnyBool True), (''statsOutboundDownlink'', AnyBool True)])]"

text \<open>The routing is built from the specification as the inbound left it.\<close>

definition xray_buildConfig ::
  "kenv \<Rightarrow> ((string \<times> RouteProfile) list \<Rightarrow> (string \<times> RouteProfile) list) \<Rightarrow>
   KernelConfig \<Rightarrow> NodeSpec \<Rightarrow> UserSpec list \<Rightarrow> TLSCert \<Rightarrow> M \<times> NodeSpec" where
  "xray_buildConfig ke rng kcfg nc users tc =
     (let outbounds = xray_outbounds kcfg nc;
          cfg = [(''log'', AnyMap [(''loglevel'', AnyString (xrayLogLevel (kc_LogLevel kcfg))), (''error'', AnyString []),
                                 (''access'', AnyString [])]),
                 (''stats'', AnyMap []), (''policy'', xray_policy), (''outbounds'', AnyList outbounds)];
          (inbound, nc) = xray_buildInbound ke nc users tc;
          cfg = (case inbound of Some inb \<Rightarrow> mput ''inbounds'' (any_maps [inb]) cfg | None \<Rightarrow> cfg);
          cfg = mput ''routing''
                  (AnyMap (xray_buildRoutingForUsers rng nc (xray_mergeRouteList (n_CustomRoutes nc) (kc_CustomRoute kcfg)) users)) cfg
      in (mergeCustomXray ke cfg kcfg, nc))"

end
