(* ===== verification/XrayRouting.thy ===== *)
theory XrayRouting
  imports XrayConfig
begin

text \<open>
  What the routing rules of a generated Xray configuration decide. The router of xray-core takes the
  first rule all of whose conditions hold; a rule with a \<^verbatim>\<open>user\<close> condition holds only for a connection of
  one of the listed users. How the other conditions are evaluated on a connection is code of xray-core and
  is an argument \<open>cond\<close>: the condition \<open>k\<close> with value \<open>v\<close> holds of the connection if \<open>cond k v\<close>.
\<close>

section \<open>Decisions\<close>

definition lists_user :: "string \<Rightarrow> any \<Rightarrow> bool" where
  "lists_user email v = (case v of AnyList vs \<Rightarrow> AnyString email \<in> set vs | _ \<Rightarrow> False)"

definition holds :: "(string \<Rightarrow> any \<Rightarrow> bool) \<Rightarrow> string \<Rightarrow> string \<times> any \<Rightarrow> bool" where
  "holds cond email kv =
     (fst kv = ''type'' \<or> fst kv = ''outboundTag'' \<or>
      (if fst kv = ''user'' then lists_user email (snd kv) else cond (fst kv) (snd kv)))"

definition rule_matches :: "(string \<Rightarrow> any \<Rightarrow> bool) \<Rightarrow> string \<Rightarrow> any \<Rightarrow> bool" where
  "rule_matches cond email r = (case r of AnyMap kvs \<Rightarrow> list_all (holds cond email) kvs | _ \<Rightarrow> False)"

definition out_tag :: "any \<Rightarrow> string" where
  "out_tag r = (case r of AnyMap kvs \<Rightarrow> string_at kvs ''outboundTag'' | _ \<Rightarrow> [])"

abbreviation xray_pick :: "(string \<Rightarrow> any \<Rightarrow> bool) \<Rightarrow> string \<Rightarrow> any list \<Rightarrow> string option" where
  "xray_pick cond email \<equiv> pick (rule_matches cond email) out_tag"

definition rules_of :: "M \<Rightarrow> any list" where
  "rules_of routing = (case map_of routing ''rules'' of Some (AnyList rs) \<Rightarrow> rs | _ \<Rightarrow> [])"

definition config_rules :: "M \<Rightarrow> any list" where
  "config_rules cfg = (case map_of cfg ''routing'' of Some (AnyMap routing) \<Rightarrow> rules_of routing | _ \<Rightarrow> [])"

section \<open>User names\<close>

lemma digits_of_inj: "digits_of m = digits_of n \<longleftrightarrow> m = n"
proof
  assume "digits_of m = digits_of n"
  then have "Some (int m) = Some (int n)" using digits_val_digits_of by metis
  then show "m = n" by simp
qed simp

lemma FormatInt_inj: "FormatInt x = FormatInt y \<longleftrightarrow> x = y"
proof
  have sign: "digits_of n \<noteq> CHR ''-'' # cs" for n cs
    using digits_of_digits [of "CHR ''-''" n] is_digit_signs(1) by force
  assume "FormatInt x = FormatInt y"
  then show "x = y"
    using sign sign [symmetric] by (auto simp: FormatInt_def digits_of_inj split: if_splits)
qed simp

lemma userEmail_inj [simp]: "userEmail x = userEmail y \<longleftrightarrow> x = y"
  by (simp add: userEmail_def FormatInt_inj)

section \<open>Route profiles keep the scopes apart\<close>

text \<open>The rules a profile stands for, without the user condition.\<close>

definition own_rules :: "RouteProfile \<Rightarrow> M list" where
  "own_rules profile =
     concat (map xray_compileCustomRouteRule (elems (rp_CustomRouteRules profile))) @
     (if TrimSpace (rp_DefaultOutboundTag profile) \<noteq> []
      then [xray_default_rule (TrimSpace (rp_DefaultOutboundTag profile))] else [])"

definition xray_field_keys :: "string list" where
  "xray_field_keys = [''domain'', ''ip'', ''port'', ''network'', ''source'', ''sourcePort'']"

lemma set_if_one: "x \<in> set (if P then [y] else []) \<longleftrightarrow> P \<and> x = y"
  by auto

lemma compiled_rule:
  "r \<in> set (xray_compileCustomRouteRule rule) \<Longrightarrow>
   \<exists>k v. r = xray_field k v (xrayOutboundForAction (cr_Action rule)) \<and> k \<in> set xray_field_keys"
  unfolding xray_compileCustomRouteRule_def Let_def set_append Un_iff set_if_one
  by (elim disjE conjE) (intro exI conjI, assumption, simp add: xray_field_keys_def)+

lemma field_key:
  assumes "k \<in> set xray_field_keys"
  shows "k \<noteq> ''user''" and "k \<noteq> ''type''" and "k \<noteq> ''outboundTag''"
  using assms by (auto simp: xray_field_keys_def)

lemma lists_any_strings [simp]: "lists_user e (any_strings es) \<longleftrightarrow> e \<in> set es"
  by (auto simp: lists_user_def)

lemma field_user:
  assumes "k \<in> set xray_field_keys"
  shows "rule_matches c e (AnyMap (mput ''user'' (any_strings es) (xray_field k v t))) \<longleftrightarrow>
           e \<in> set es \<and> rule_matches c e (AnyMap (xray_field k v t))"
    and "out_tag (AnyMap (mput ''user'' (any_strings es) (xray_field k v t))) = out_tag (AnyMap (xray_field k v t))"
  using field_key [OF assms] by (auto simp: xray_field_def rule_matches_def holds_def out_tag_def string_at_def)

lemma profile_default:
  "rule_matches c e (AnyMap [(''type'', AnyString ''field''), (''user'', any_strings es), (''network'', AnyString ''tcp,udp''),
      (''outboundTag'', AnyString t)]) \<longleftrightarrow> e \<in> set es \<and> rule_matches c e (AnyMap (xray_default_rule t))"
  "out_tag (AnyMap [(''type'', AnyString ''field''), (''user'', any_strings es), (''network'', AnyString ''tcp,udp''),
      (''outboundTag'', AnyString t)]) = out_tag (AnyMap (xray_default_rule t))"
  by (auto simp: xray_default_rule_def xray_field_def rule_matches_def holds_def out_tag_def string_at_def)

lemma compiled_user:
  assumes "r \<in> set (concat (map xray_compileCustomRouteRule rules))"
  shows "rule_matches c e (AnyMap (mput ''user'' (any_strings es) r)) \<longleftrightarrow> e \<in> set es \<and> rule_matches c e (AnyMap r)"
    and "out_tag (AnyMap (mput ''user'' (any_strings es) r)) = out_tag (AnyMap r)"
  using assms compiled_rule field_user by (auto; metis)+

lemma pick_scoped_hit:
  assumes "e \<in> set es"
  shows "xray_pick c e (map AnyMap (xray_scoped es p)) = xray_pick c e (map AnyMap (own_rules p))"
proof -
  let ?rs = "concat (map xray_compileCustomRouteRule (elems (rp_CustomRouteRules p)))"
  have "es \<noteq> []" using assms by auto
  moreover have "xray_pick c e (map (\<lambda>r. AnyMap (mput ''user'' (any_strings es) r)) ?rs) = xray_pick c e (map AnyMap ?rs)"
    by (rule pick_map) (use assms compiled_user in auto)
  ultimately show ?thesis
    using assms
    by (simp add: xray_scoped_def own_rules_def Let_def pick_append pick_Cons profile_default comp_def split: option.split)
qed

lemma pick_scoped_miss:
  assumes "e \<notin> set es"
  shows "xray_pick c e (map AnyMap (xray_scoped es p)) = None"
proof (rule pick_None)
  show "\<forall>r \<in> set (map AnyMap (xray_scoped es p)). \<not> rule_matches c e r"
    using assms compiled_user(1) by (auto simp: xray_scoped_def Let_def profile_default simp del: AList.update.simps)
qed

interpretation xray_router: scoped_rules "rule_matches cond" out_tag "\<lambda>u. userEmail (ID u)"
  "\<lambda>p. map AnyMap (own_rules p)" "\<lambda>es p. map AnyMap (xray_scoped es p)"
  for cond
  by unfold_locales (simp_all add: pick_scoped_hit pick_scoped_miss)

lemma xray_router_rules:
  "concat (map (xray_router.profile_rules users) sps) = map AnyMap (concat (map (xray_profile_rules users) sps))"
proof -
  have "xray_router.profile_rules users = (\<lambda>sp. map AnyMap (xray_profile_rules users sp))"
    by (rule ext) (simp add: xray_router.profile_rules_def xray_router.names_def xray_profile_rules_def scope_emails_def)
  then show ?thesis by (simp add: map_concat comp_def)
qed

lemma rules_of_profiles:
  assumes "elems (n_RouteProfiles nc) \<noteq> []"
  shows "rules_of (xray_buildRoutingForUsers rng nc customRules users) =
    AnyMap private_rule #
    map AnyMap (concat (map (xray_profile_rules users) (rng (elems (n_RouteProfiles nc))))) @
    map of_map customRules @ map AnyMap (concat (map xray_compilePanelRouteRule (elems (n_Routes nc)))) @
    [AnyMap (xray_default_rule (effectiveDefaultOutboundTag (n_DefaultOutboundTag nc)))]"
  using assms
  by (simp add: xray_buildRoutingForUsers_def xray_buildRouting_def xray_rules_def rules_of_def Let_def map_of_mput)

text \<open>
  C11. With route profiles, the outbound of a connection of a user is the one the private ranges, the
  profile of the user's own scope (if there is one), the raw rules, the panel rules and the default
  decide in this order: the profiles of other scopes have no influence, and neither has the order in
  which the map of profiles is walked.
\<close>

theorem xray_scopes_isolated:
  assumes "range_order rng" and "n_RouteProfiles nc = Some profiles" and "wf_map profiles" and "profiles \<noteq> []"
    and "u \<in> set users" and "distinct (map ID users)"
  shows "xray_pick cond (userEmail (ID u)) (rules_of (xray_buildRoutingForUsers rng nc customRules users)) =
    xray_pick cond (userEmail (ID u))
      (AnyMap private_rule #
       map AnyMap (case map_of profiles (userScope u) of None \<Rightarrow> [] | Some p \<Rightarrow> own_rules p) @
       map of_map customRules @ map AnyMap (concat (map xray_compilePanelRouteRule (elems (n_Routes nc)))) @
       [AnyMap (xray_default_rule (effectiveDefaultOutboundTag (n_DefaultOutboundTag nc)))])"
proof -
  have "distinct (map (\<lambda>u. userEmail (ID u)) users)"
    using assms(6) by (simp add: distinct_map inj_on_def)
  from xray_router.scopes_isolated [OF assms(1,3,5) this, of cond "[AnyMap private_rule]"]
  show ?thesis
    using assms(2,4) by (simp add: rules_of_profiles xray_router_rules if_distrib [of "map AnyMap"] split: option.split)
qed

definition demo_rule :: "string \<Rightarrow> RouteAction \<Rightarrow> CustomRouteRule" where
  "demo_rule domain act =
     \<lparr>cr_Name = [], cr_Disabled = False, cr_Match = empty_match\<lparr>m_Domains := Some [domain]\<rparr>, cr_Action = act\<rparr>"

definition demo_profiles :: "(string, RouteProfile) gomap" where
  "demo_profiles =
     [(''admin'', \<lparr>rp_CustomRouteRules = Some [demo_rule ''full:a.example'' \<lparr>a_Type = ''block'', a_Target = []\<rparr>],
                 rp_DefaultOutboundTag = ''wg'', rp_CustomOutbounds = None\<rparr>),
      (''member'', \<lparr>rp_CustomRouteRules = Some [demo_rule ''full:a.example'' \<lparr>a_Type = ''route'', a_Target = ''us''\<rparr>],
                  rp_DefaultOutboundTag = [], rp_CustomOutbounds = None\<rparr>)]"

definition route_users :: "UserSpec list" where
  "route_users =
     [\<lparr>ID = 1, UUID = ''a'', SpeedLimit = 0, DeviceLimit = 0, RouteScope = ''admin''\<rparr>,
      \<lparr>ID = 2, UUID = ''b'', SpeedLimit = 0, DeviceLimit = 0, RouteScope = ''free''\<rparr>]"

definition route_spec :: "string \<Rightarrow> NodeSpec" where
  "route_spec protocol = \<lparr>n_Protocol = protocol, n_ListenIP = [], n_ServerPort = 443, n_Network = [],
    n_NetworkSettings = None, n_Routes = None, n_KernelType = [], n_KernelLogLevel = [],
    n_CustomOutbounds = None, n_CustomRoutes = None, n_CustomRouteRules = None, n_RouteProfiles = Some demo_profiles,
    n_DefaultOutboundTag = [], n_CertConfig = None, n_AutoTLS = False, n_Domain = [],
    n_Cipher = [], n_Plugin = [], n_PluginOpt = [], n_ServerKey = [], n_TLS = 0, n_Flow = [],
    n_Decryption = [], n_TLSSettings = None, n_Host = [], n_ServerName = [], n_Version = 0, n_UpMbps = 0,
    n_DownMbps = 0, n_Obfs = [], n_ObfsPassword = [], n_CongestionControl = [], n_PaddingScheme = [],
    n_Transport = [], n_TrafficPattern = [], n_Multiplex = None, n_AcceptProxyProtocol = False\<rparr>"

text \<open>A connection to a domain: only conditions on that domain and on the network hold.\<close>

definition demo_cond :: "string \<Rightarrow> any \<Rightarrow> bool" where
  "demo_cond k v = (k = ''network'' \<or> (k = ''domain'' \<and> v = any_strings [''full:a.example'']))"

theorem xray_scopes_isolated_witness:
  "xray_pick demo_cond (userEmail 2)
     (rules_of (xray_buildRoutingForUsers rev (route_spec ''vless'') [] route_users)) = Some ''us''"
proof -
  have wf: "wf_map demo_profiles" and ne: "demo_profiles \<noteq> []"
    and user: "route_users ! 1 \<in> set route_users" and ids: "distinct (map ID route_users)" "ID (route_users ! 1) = 2"
    and spec: "n_RouteProfiles (route_spec ''vless'') = Some demo_profiles"
    by (simp_all add: demo_profiles_def route_users_def route_spec_def wf_map_def)
  have "xray_pick demo_cond (userEmail 2)
      (AnyMap private_rule #
       map AnyMap (case map_of demo_profiles (userScope (route_users ! 1)) of None \<Rightarrow> [] | Some p \<Rightarrow> own_rules p) @
       map of_map [] @ map AnyMap (concat (map xray_compilePanelRouteRule (elems (n_Routes (route_spec ''vless''))))) @
       [AnyMap (xray_default_rule (effectiveDefaultOutboundTag (n_DefaultOutboundTag (route_spec ''vless''))))]) = Some ''us''"
    by code_simp
  then show ?thesis
    using xray_scopes_isolated [OF range_order_rev spec wf ne user ids(1), of demo_cond "[]"] ids(2) by simp
qed

section \<open>What a custom configuration file can change\<close>

lemma map_of_fold_unless:
  "map_of (fold (\<lambda>(k, v) c. if P k then c else mput k v c) kvs m) x =
     (if P x then map_of m x
      else case map_of (rev kvs) x of None \<Rightarrow> map_of m x | Some v \<Rightarrow> Some v)"
  by (induction kvs arbitrary: m) (auto simp: map_of_mput map_add_def split: option.splits)

text \<open>The entries of a list of the custom configuration file.\<close>

definition custom_doc :: "kenv \<Rightarrow> KernelConfig \<Rightarrow> M" where
  "custom_doc ke kcfg = (case LoadCustomConfig ke (kc_CustomConfig kcfg) of Inr (Some doc) \<Rightarrow> doc | _ \<Rightarrow> [])"

definition custom_rules :: "kenv \<Rightarrow> KernelConfig \<Rightarrow> M list" where
  "custom_rules ke kcfg =
     (case map_of (custom_doc ke kcfg) ''routing'' of
        Some (AnyMap r) \<Rightarrow> fst (toSliceOfMaps (map_of r ''rules'')) | _ \<Rightarrow> [])"

definition custom_outbounds :: "kenv \<Rightarrow> KernelConfig \<Rightarrow> M list" where
  "custom_outbounds ke kcfg = fst (toSliceOfMaps (map_of (custom_doc ke kcfg) ''outbounds''))"

lemma toSliceOfMaps_ok: "snd (toSliceOfMaps v) \<longleftrightarrow> fst (toSliceOfMaps v) \<noteq> []"
  by (simp add: toSliceOfMaps_def Let_def split: option.split any.split)

lemma MergePrependList_eq: "MergePrependList dst v = map AnyMap (fst (toSliceOfMaps v)) @ dst"
  and MergeAppendList_eq: "MergeAppendList dst v = dst @ map AnyMap (fst (toSliceOfMaps v))"
  using toSliceOfMaps_ok [of v] by (auto simp: MergePrependList_def MergeAppendList_def split: prod.splits)

lemma toSliceOfMaps_None [simp]: "fst (toSliceOfMaps None) = []"
  by (simp add: toSliceOfMaps_def)

lemma rules_of_merge:
  assumes "map_of cfg ''routing'' = Some (AnyMap routing)" and "map_of routing ''rules'' = Some (AnyList rs)"
  shows "config_rules (mergeCustomXrayRouting cfg cr) = map AnyMap (fst (toSliceOfMaps (map_of cr ''rules''))) @ rs"
  using assms
  by (simp add: mergeCustomXrayRouting_def Let_def config_rules_def rules_of_def map_of_mput map_of_fold_unless
      MergePrependList_eq split: option.split)

lemma merge_dns_other: "k \<noteq> ''dns'' \<Longrightarrow> map_of (merge_dns custom cfg) k = map_of cfg k"
  by (simp add: merge_dns_def map_of_mput split: option.split)

lemma merge_outbounds_other: "k \<noteq> ''outbounds'' \<Longrightarrow> map_of (merge_outbounds custom cfg) k = map_of cfg k"
  by (simp add: merge_outbounds_def map_of_mput split: option.split any.split)

lemma merge_routing_other: "k \<noteq> ''routing'' \<Longrightarrow> map_of (merge_routing custom cfg) k = map_of cfg k"
  by (simp add: merge_routing_def mergeCustomXrayRouting_def Let_def map_of_mput split: option.split any.split)

lemmas merge_other = merge_dns_other merge_outbounds_other merge_routing_other

lemma merge_outbounds_self:
  "map_of cfg ''outbounds'' = Some (AnyList os) \<Longrightarrow>
   map_of (merge_outbounds custom cfg) ''outbounds'' =
     Some (AnyList (os @ map AnyMap (fst (toSliceOfMaps (map_of custom ''outbounds'')))))"
  by (simp add: merge_outbounds_def map_of_mput MergeAppendList_eq split: option.split)

lemma merge_routing_rules:
  assumes "map_of cfg ''routing'' = Some (AnyMap routing)" and "map_of routing ''rules'' = Some (AnyList rs)"
  shows "config_rules (merge_routing custom cfg) =
    map AnyMap (case map_of custom ''routing'' of Some (AnyMap r) \<Rightarrow> fst (toSliceOfMaps (map_of r ''rules'')) | _ \<Rightarrow> []) @ rs"
proof (cases "\<exists>r. map_of custom ''routing'' = Some (AnyMap r)")
  case True
  then show ?thesis using rules_of_merge [OF assms] by (auto simp: merge_routing_def)
next
  case False
  then have "merge_routing custom cfg = cfg"
    and "(case map_of custom ''routing'' of Some (AnyMap r) \<Rightarrow> fst (toSliceOfMaps (map_of r ''rules'')) | _ \<Rightarrow> []) = []"
    by (auto simp: merge_routing_def split: option.split any.split)
  then show ?thesis using assms by (simp add: config_rules_def rules_of_def)
qed

lemma merged:
  assumes "k \<in> set xray_protected"
  shows "map_of (mergeCustomXray ke cfg kcfg) k =
    (case LoadCustomConfig ke (kc_CustomConfig kcfg) of
       Inr (Some custom) \<Rightarrow> map_of (merge_routing custom (merge_outbounds custom (merge_dns custom cfg))) k
     | _ \<Rightarrow> map_of cfg k)"
  using assms by (simp add: mergeCustomXray_def map_of_fold_unless split: sum.split option.split)

lemma merge_outbounds_all:
  assumes "map_of cfg ''outbounds'' = Some (AnyList os)"
  shows "map_of (mergeCustomXray ke cfg kcfg) ''outbounds'' = Some (AnyList (os @ map AnyMap (custom_outbounds ke kcfg)))"
  using assms
  by (simp add: merged xray_protected_def merge_other merge_outbounds_self custom_outbounds_def custom_doc_def
      split: sum.split option.split)

lemma merge_protected:
  assumes "k \<in> {''inbounds'', ''log'', ''stats'', ''policy''}"
  shows "map_of (mergeCustomXray ke cfg kcfg) k = map_of cfg k"
proof -
  have "k \<in> set xray_protected" "k \<noteq> ''dns''" "k \<noteq> ''outbounds''" "k \<noteq> ''routing''"
    using assms by (auto simp: xray_protected_def)
  then show ?thesis by (simp add: merged merge_other split: sum.split option.split)
qed

lemma config_rules_cong: "map_of c ''routing'' = map_of d ''routing'' \<Longrightarrow> config_rules c = config_rules d"
  by (simp add: config_rules_def)

lemma merge_rules:
  assumes "map_of cfg ''routing'' = Some (AnyMap routing)" and "map_of routing ''rules'' = Some (AnyList rs)"
  shows "config_rules (mergeCustomXray ke cfg kcfg) = map AnyMap (custom_rules ke kcfg) @ rs"
proof (cases "\<exists>custom. LoadCustomConfig ke (kc_CustomConfig kcfg) = Inr (Some custom)")
  case False
  then have "mergeCustomXray ke cfg kcfg = cfg" and "custom_rules ke kcfg = []"
    by (auto simp: mergeCustomXray_def custom_rules_def custom_doc_def split: sum.split option.split)
  with assms show ?thesis by (simp add: config_rules_def rules_of_def)
next
  case True
  then obtain custom where custom: "LoadCustomConfig ke (kc_CustomConfig kcfg) = Inr (Some custom)" by blast
  let ?c = "merge_outbounds custom (merge_dns custom cfg)"
  have "map_of ?c ''routing'' = Some (AnyMap routing)"
    using assms(1) by (simp add: merge_other)
  then have "config_rules (merge_routing custom ?c) = map AnyMap (custom_rules ke kcfg) @ rs"
    using merge_routing_rules assms(2) by (simp add: custom_rules_def custom_doc_def custom)
  moreover have "config_rules (mergeCustomXray ke cfg kcfg) = config_rules (merge_routing custom ?c)"
    by (rule config_rules_cong) (simp add: merged xray_protected_def custom)
  ultimately show ?thesis by simp
qed

section \<open>The rules of the whole document\<close>

text \<open>The specification may change in its TLS mode and its network settings only.\<close>

definition agrees :: "NodeSpec \<Rightarrow> NodeSpec \<Rightarrow> bool" where
  "agrees nc nc' \<longleftrightarrow> nc' = nc\<lparr>n_TLS := n_TLS nc', n_NetworkSettings := n_NetworkSettings nc'\<rparr>"

lemma agrees_refl [simp]: "agrees nc nc"
  by (simp add: agrees_def)

lemma agrees_TLS: "agrees nc nc' \<Longrightarrow> agrees nc (nc'\<lparr>n_TLS := t\<rparr>)"
  unfolding agrees_def by (cases nc; cases nc') simp

lemma agrees_trans: "agrees a b \<Longrightarrow> agrees b c \<Longrightarrow> agrees a c"
  unfolding agrees_def by (cases a; cases b; cases c) simp

lemma agrees_transport: "agrees nc (snd (xray_transport nc))"
  by (simp add: agrees_def xray_transport_def Let_def split: prod.split)

lemma agrees_stream: "agrees nc (snd (applyStreamSettings ke inb nc tc))"
  using agrees_transport [of nc] by (simp add: applyStreamSettings_def Let_def split_beta)

lemma agrees_trojan: "agrees nc (snd (xray_buildTrojan ke inb nc users tc))"
  using agrees_stream agrees_trans [OF agrees_TLS [OF agrees_stream] agrees_stream]
  by (simp add: xray_buildTrojan_def Let_def split_beta)

lemma agrees_inbound: "agrees nc (snd (xray_buildInbound ke nc users tc))"
  using agrees_trojan agrees_stream
  by (simp add: xray_buildInbound_def Let_def xray_buildVMess_def xray_buildVLESS_def xray_buildHTTP_def)

lemma routing_keeps:
  "xray_buildRoutingForUsers rng (snd (xray_buildInbound ke nc users tc)) rs us = xray_buildRoutingForUsers rng nc rs us"
  "n_CustomRoutes (snd (xray_buildInbound ke nc users tc)) = n_CustomRoutes nc"
proof -
  obtain t ns where eq: "snd (xray_buildInbound ke nc users tc) = nc\<lparr>n_TLS := t, n_NetworkSettings := ns\<rparr>"
    using agrees_inbound unfolding agrees_def by blast
  show "xray_buildRoutingForUsers rng (snd (xray_buildInbound ke nc users tc)) rs us = xray_buildRoutingForUsers rng nc rs us"
    and "n_CustomRoutes (snd (xray_buildInbound ke nc users tc)) = n_CustomRoutes nc"
    by (simp_all add: eq xray_buildRoutingForUsers_def)
qed

definition raw_rules :: "KernelConfig \<Rightarrow> NodeSpec \<Rightarrow> any_map list" where
  "raw_rules kcfg nc = xray_mergeRouteList (n_CustomRoutes nc) (kc_CustomRoute kcfg)"

lemma routing_rules:
  "map_of (xray_buildRoutingForUsers rng nc rs users) ''rules'' =
     Some (AnyList (rules_of (xray_buildRoutingForUsers rng nc rs users)))"
  by (simp add: xray_buildRoutingForUsers_def xray_buildRouting_def rules_of_def Let_def map_of_mput)

lemma config_rules_build:
  "config_rules (fst (xray_buildConfig ke rng kcfg nc users tc)) =
     map AnyMap (custom_rules ke kcfg) @ rules_of (xray_buildRoutingForUsers rng nc (raw_rules kcfg nc) users)"
proof -
  let ?r = "xray_buildRoutingForUsers rng nc (raw_rules kcfg nc) users"
  obtain cfg where cfg: "fst (xray_buildConfig ke rng kcfg nc users tc) = mergeCustomXray ke (mput ''routing'' (AnyMap ?r) cfg) kcfg"
    by (simp add: xray_buildConfig_def Let_def split_beta routing_keeps raw_rules_def)
  have "map_of (mput ''routing'' (AnyMap ?r) cfg) ''routing'' = Some (AnyMap ?r)" by (simp add: map_of_mput)
  from merge_rules [OF this routing_rules] show ?thesis by (simp add: cfg)
qed

text \<open>
  A connection to a private, loopback or link-local destination is blocked for every user, whatever
  the panel routes, the custom rules, the route profiles and the raw rules of the node say: only a rule of
  the local custom configuration file can decide before the block rule.
\<close>

lemma xray_private_blocked:
  assumes "xray_pick cond email (map AnyMap (custom_rules ke kcfg)) = None"
    and "cond ''ip'' (any_strings private_ranges)"
  shows "xray_pick cond email (config_rules (fst (xray_buildConfig ke rng kcfg nc users tc))) = Some ''block''"
proof -
  have block: "\<exists>rs. rules_of (xray_buildRoutingForUsers rng nc (raw_rules kcfg nc) users) = AnyMap private_rule # rs"
    by (cases "elems (n_RouteProfiles nc) = []")
       (simp_all add: rules_of_profiles, simp add: xray_buildRoutingForUsers_def xray_buildRouting_def xray_rules_def rules_of_def)
  have "rule_matches cond email (AnyMap private_rule)" and "out_tag (AnyMap private_rule) = ''block''"
    using assms(2) by (simp_all add: private_rule_def xray_field_def rule_matches_def holds_def out_tag_def string_at_def)
  with block assms(1) show ?thesis
    by (auto simp: config_rules_build pick_append pick_Cons)
qed

definition demo_kenv :: kenv where
  "demo_kenv = \<lparr>ke_readFile = (\<lambda>_. FileMissing), ke_parseDoc = (\<lambda>_ _. None), ke_pemDecode = (\<lambda>_. None),
     ke_fmtFloat = (\<lambda>m e. FormatInt m)\<rparr>"

definition route_kcfg :: KernelConfig where
  "route_kcfg = \<lparr>kc_Type = ''xray'', kc_ConfigDir = [], kc_LogLevel = [], kc_GeoDataDir = [], kc_CustomOutbound = [],
     kc_CustomRoute = [], kc_CustomConfig = []\<rparr>"

text \<open>A connection to a private address over TCP: of the address conditions only the private ranges hold.\<close>

definition private_cond :: "string \<Rightarrow> any \<Rightarrow> bool" where
  "private_cond k v = (k = ''network'' \<or> (k = ''ip'' \<and> v = any_strings private_ranges))"

theorem xray_private_blocked_witness:
  "xray_pick private_cond (userEmail 1)
     (config_rules (fst (xray_buildConfig demo_kenv rev route_kcfg (route_spec ''vless'') route_users ([], [])))) = Some ''block''"
  by (rule xray_private_blocked)
     (simp_all add: custom_rules_def custom_doc_def LoadCustomConfig_def route_kcfg_def private_cond_def)

section \<open>The generated rules are well-typed\<close>

text \<open>
  The shape xray-core's configuration schema asks of a field rule: known fields of the right type, the
  constant type, a non-empty outbound tag and at least one condition (a list condition is not empty).
\<close>

definition is_string :: "any \<Rightarrow> bool" where
  "is_string v = (case v of AnyString s \<Rightarrow> True | _ \<Rightarrow> False)"

definition is_strings :: "any \<Rightarrow> bool" where
  "is_strings v = (case v of AnyList vs \<Rightarrow> vs \<noteq> [] \<and> list_all is_string vs | _ \<Rightarrow> False)"

definition field_typed :: "string \<times> any \<Rightarrow> bool" where
  "field_typed kv =
     (if fst kv \<in> set [''type'', ''outboundTag'', ''port'', ''network'', ''sourcePort''] then is_string (snd kv)
      else fst kv \<in> set [''domain'', ''ip'', ''source'', ''user''] \<and> is_strings (snd kv))"

definition rule_typed :: "any \<Rightarrow> bool" where
  "rule_typed r =
     (case r of
        AnyMap kvs \<Rightarrow> wf_map kvs \<and> list_all field_typed kvs \<and> map_of kvs ''type'' = Some (AnyString ''field'') \<and>
          string_at kvs ''outboundTag'' \<noteq> [] \<and> list_ex (\<lambda>kv. fst kv \<in> set xray_field_keys) kvs
      | _ \<Rightarrow> False)"

lemma is_strings_map [simp]: "is_strings (any_strings xs) \<longleftrightarrow> xs \<noteq> []"
  by (auto simp: is_strings_def is_string_def list_all_iff)

lemma is_string_AnyString [simp]: "is_string (AnyString s)"
  by (simp add: is_string_def)

lemma outbound_ne: "xrayOutboundForAction action \<noteq> []"
  by (simp add: xrayOutboundForAction_def)

lemma field_rule_typed:
  assumes "k \<in> set xray_field_keys" and "field_typed (k, v)" and "t \<noteq> []"
  shows "rule_typed (AnyMap (xray_field k v t))"
  using assms field_key [OF assms(1)]
  by (simp add: rule_typed_def xray_field_def wf_map_def string_at_def) (simp add: field_typed_def)

lemma field_typed_kinds:
  "field_typed (''domain'', any_strings xs) \<longleftrightarrow> xs \<noteq> []" "field_typed (''ip'', any_strings xs) \<longleftrightarrow> xs \<noteq> []"
  "field_typed (''source'', any_strings xs) \<longleftrightarrow> xs \<noteq> []" "field_typed (''user'', any_strings xs) \<longleftrightarrow> xs \<noteq> []"
  "field_typed (''port'', AnyString s)" "field_typed (''network'', AnyString s)" "field_typed (''sourcePort'', AnyString s)"
  "field_typed (''type'', AnyString s)" "field_typed (''outboundTag'', AnyString s)"
  by (simp_all add: field_typed_def)

lemma compiled_typed:
  assumes "r \<in> set (xray_compileCustomRouteRule rule)"
  shows "\<exists>k v t. r = xray_field k v t \<and> k \<in> set xray_field_keys \<and> field_typed (k, v) \<and> t \<noteq> []"
  using assms unfolding xray_compileCustomRouteRule_def Let_def set_append Un_iff set_if_one
  by (elim disjE conjE)
     (intro exI conjI, assumption, simp add: xray_field_keys_def, simp add: field_typed_kinds, rule outbound_ne)+

lemma user_rule_typed:
  assumes "es \<noteq> []" and "k \<in> set xray_field_keys" and "field_typed (k, v)" and "t \<noteq> []"
  shows "rule_typed (AnyMap (mput ''user'' (any_strings es) (xray_field k v t)))"
  using assms field_key [OF assms(2)]
  by (simp add: rule_typed_def xray_field_def wf_map_def string_at_def field_typed_kinds)

lemma profile_rules_typed:
  assumes "r \<in> set (xray_profile_rules users sp)"
  shows "rule_typed (AnyMap r)"
proof -
  obtain s p where sp: "sp = (s, p)" by force
  let ?es = "scope_emails s users"
  have es: "?es \<noteq> []" using assms sp by (auto simp: xray_profile_rules_def xray_scoped_def)
  consider (rule) c where "c \<in> set (concat (map xray_compileCustomRouteRule (elems (rp_CustomRouteRules p))))"
        "r = mput ''user'' (any_strings ?es) c"
    | (default) t where "t \<noteq> []" "r = [(''type'', AnyString ''field''), (''user'', any_strings ?es),
        (''network'', AnyString ''tcp,udp''), (''outboundTag'', AnyString t)]"
    using assms sp es by (auto simp: xray_profile_rules_def xray_scoped_def Let_def simp del: AList.update.simps split: if_splits)
  then show ?thesis
  proof cases
    case rule
    then show ?thesis using compiled_typed user_rule_typed [OF es] by (auto; metis)
  next
    case default
    then show ?thesis
      using es by (simp add: rule_typed_def wf_map_def string_at_def field_typed_kinds xray_field_keys_def)
  qed
qed

lemma compiled_rule_typed: "r \<in> set (xray_compileCustomRouteRule rule) \<Longrightarrow> rule_typed (AnyMap r)"
  using compiled_typed field_rule_typed by blast

lemma panel_rule_typed: "r \<in> set (xray_compilePanelRouteRule rule) \<Longrightarrow> rule_typed (AnyMap r)"
  by (auto simp: xray_compilePanelRouteRule_def dest: compiled_rule_typed split: if_splits)

lemma default_rule_typed: "t \<noteq> [] \<Longrightarrow> rule_typed (AnyMap (xray_default_rule t))"
  unfolding xray_default_rule_def by (rule field_rule_typed) (simp_all add: xray_field_keys_def field_typed_kinds)

lemma private_rule_typed: "rule_typed (AnyMap private_rule)"
proof -
  have "private_ranges \<noteq> []" by (simp add: private_ranges_def)
  then show ?thesis
    unfolding private_rule_def by (intro field_rule_typed) (simp_all add: xray_field_keys_def field_typed_kinds)
qed

lemma firstDefault_effective: "firstDefaultOutboundTag [effectiveDefaultOutboundTag v] = effectiveDefaultOutboundTag v"
  and effective_ne: "effectiveDefaultOutboundTag v \<noteq> []"
proof -
  have "TrimSpace ''direct'' = ''direct''" by code_simp
  then show "firstDefaultOutboundTag [effectiveDefaultOutboundTag v] = effectiveDefaultOutboundTag v"
    by (simp add: effectiveDefaultOutboundTag_def TrimSpace_idem)
  show "effectiveDefaultOutboundTag v \<noteq> []" by (simp add: effectiveDefaultOutboundTag_def)
qed

text \<open>
  C36. Every routing rule of a generated Xray configuration is a well-typed field rule with an outbound
  tag and at least one condition, except those an operator wrote raw: the rules of the custom
  configuration file and the raw custom routes, which are passed through unchanged.
\<close>

theorem xray_rules_typed:
  assumes "r \<in> set (config_rules (fst (xray_buildConfig ke rng kcfg nc users tc)))"
  shows "rule_typed r \<or> r \<in> AnyMap ` set (custom_rules ke kcfg) \<or> r \<in> of_map ` set (raw_rules kcfg nc)"
proof (cases "elems (n_RouteProfiles nc) = []")
  case True
  with assms show ?thesis
    by (auto simp: config_rules_build xray_buildRoutingForUsers_def xray_buildRouting_def xray_rules_def rules_of_def
        firstDefault_effective Let_def private_rule_typed default_rule_typed
        dest: compiled_rule_typed panel_rule_typed split: if_splits)
next
  case False
  with assms show ?thesis
    by (auto simp: config_rules_build rules_of_profiles private_rule_typed default_rule_typed effective_ne
        dest: profile_rules_typed panel_rule_typed)
qed

theorem xray_rules_typed_witness:
  "rule_typed (AnyMap (xray_default_rule ''direct'')) \<or>
   AnyMap (xray_default_rule ''direct'') \<in> AnyMap ` set (custom_rules demo_kenv route_kcfg) \<or>
   AnyMap (xray_default_rule ''direct'') \<in> of_map ` set (raw_rules route_kcfg (route_spec ''vless''))"
proof (rule xray_rules_typed)
  show "AnyMap (xray_default_rule ''direct'') \<in>
    set (config_rules (fst (xray_buildConfig demo_kenv rev route_kcfg (route_spec ''vless'') route_users ([], []))))"
    by (simp add: config_rules_build rules_of_profiles route_spec_def demo_profiles_def effectiveDefaultOutboundTag_def)
qed

section \<open>Outbounds and inbound of the whole document\<close>

text \<open>The inbounds entry of a document for an inbound.\<close>

definition inbound_part :: "M option \<Rightarrow> any option" where
  "inbound_part inbound = map_option (\<lambda>inb. any_maps [inb]) inbound"

text \<open>
  The custom configuration file of the operator cannot touch what the panel manages or the agent's
  accounting rests on: the inbounds (with their users), the log, statistics and policy sections are the
  generated ones, and the outbounds are the generated ones with the outbounds of the file appended.
\<close>

lemma xray_custom_file_bounded:
  "map_of (fst (xray_buildConfig ke rng kcfg nc users tc)) ''inbounds'' =
     inbound_part (fst (xray_buildInbound ke nc users tc)) \<and>
   map_of (fst (xray_buildConfig ke rng kcfg nc users tc)) ''log'' =
     Some (AnyMap [(''loglevel'', AnyString (xrayLogLevel (kc_LogLevel kcfg))), (''error'', AnyString []), (''access'', AnyString [])]) \<and>
   map_of (fst (xray_buildConfig ke rng kcfg nc users tc)) ''stats'' = Some (AnyMap []) \<and>
   map_of (fst (xray_buildConfig ke rng kcfg nc users tc)) ''policy'' = Some xray_policy \<and>
   map_of (fst (xray_buildConfig ke rng kcfg nc users tc)) ''outbounds'' =
     Some (AnyList (xray_outbounds kcfg nc @ map AnyMap (custom_outbounds ke kcfg)))"
proof -
  define c where "c = (case fst (xray_buildInbound ke nc users tc) of
      Some inb \<Rightarrow> mput ''inbounds'' (any_maps [inb])
        [(''log'', AnyMap [(''loglevel'', AnyString (xrayLogLevel (kc_LogLevel kcfg))), (''error'', AnyString []),
          (''access'', AnyString [])]), (''stats'', AnyMap []), (''policy'', xray_policy), (''outbounds'', AnyList (xray_outbounds kcfg nc))]
    | None \<Rightarrow> [(''log'', AnyMap [(''loglevel'', AnyString (xrayLogLevel (kc_LogLevel kcfg))), (''error'', AnyString []),
          (''access'', AnyString [])]), (''stats'', AnyMap []), (''policy'', xray_policy), (''outbounds'', AnyList (xray_outbounds kcfg nc))])"
  obtain r where cfg: "fst (xray_buildConfig ke rng kcfg nc users tc) = mergeCustomXray ke (mput ''routing'' r c) kcfg"
    by (simp add: xray_buildConfig_def Let_def split_beta flip: c_def)
  have "map_of c ''inbounds'' = inbound_part (fst (xray_buildInbound ke nc users tc))"
    and "map_of c ''log'' = Some (AnyMap [(''loglevel'', AnyString (xrayLogLevel (kc_LogLevel kcfg))), (''error'', AnyString []), (''access'', AnyString [])])"
    and "map_of c ''stats'' = Some (AnyMap [])" and "map_of c ''policy'' = Some xray_policy"
    and "map_of c ''outbounds'' = Some (AnyList (xray_outbounds kcfg nc))"
    by (simp_all add: c_def inbound_part_def split: option.split)
  then show ?thesis
    by (simp add: cfg merge_protected map_of_mput merge_outbounds_all)
qed

text \<open>The users of an inbound: the name traffic is accounted to and the credential, in the order of the list.\<close>

definition entry_cred :: "string \<Rightarrow> M \<Rightarrow> string \<times> string" where
  "entry_cred k m = (string_at m ''email'', string_at m k)"

definition inbound_users :: "string \<Rightarrow> string \<Rightarrow> M \<Rightarrow> (string \<times> string) list" where
  "inbound_users list_key cred_key inb =
     (case map_of inb ''settings'' of
        Some (AnyMap s) \<Rightarrow> (case map_of s list_key of
            Some (AnyList es) \<Rightarrow> map (\<lambda>e. case e of AnyMap m \<Rightarrow> entry_cred cred_key m | _ \<Rightarrow> ([], [])) es
          | _ \<Rightarrow> [])
      | _ \<Rightarrow> [])"

definition user_keys :: "string \<Rightarrow> (string \<times> string) option" where
  "user_keys protocol = map_of
     [(''vmess'', (''clients'', ''id'')), (''vless'', (''clients'', ''id'')), (''trojan'', (''clients'', ''password'')),
      (''shadowsocks'', (''clients'', ''password'')), (''socks'', (''accounts'', ''pass'')), (''http'', (''accounts'', ''pass'')),
      (''hysteria'', (''clients'', ''auth''))] protocol"

definition user_cred :: "NodeSpec \<Rightarrow> UserSpec \<Rightarrow> string" where
  "user_cred nc u =
     (if n_Protocol nc = ''shadowsocks'' \<and> IsSS2022Method (n_Cipher nc)
      then fst (SS2022UserKey (n_Cipher nc) (UUID u)) else UUID u)"

lemma stream_settings_other:
  "k \<noteq> ''streamSettings'' \<Longrightarrow> map_of (fst (applyStreamSettings ke inb nc tc)) k = map_of inb k"
  by (simp add: applyStreamSettings_def Let_def split_beta map_of_mput)

lemma inbound_users_cong:
  "map_of a ''settings'' = map_of b ''settings'' \<Longrightarrow> inbound_users l c a = inbound_users l c b"
  by (simp add: inbound_users_def)

lemma inbound_users_stream [simp]:
  "inbound_users l c (fst (applyStreamSettings ke inb nc tc)) = inbound_users l c inb"
  by (rule inbound_users_cong) (simp add: stream_settings_other)

lemmas users_simps = inbound_users_def map_of_mput entry_cred_def string_at_def comp_def

lemma xray_users_vmess:
  "inbound_users ''clients'' ''id'' (fst (xray_buildVMess ke inb nc users tc)) = map (\<lambda>u. (userEmail (ID u), UUID u)) users"
  unfolding xray_buildVMess_def Let_def inbound_users_stream
  by (simp add: users_simps)

lemma xray_users_vless:
  "inbound_users ''clients'' ''id'' (fst (xray_buildVLESS ke inb nc users tc)) = map (\<lambda>u. (userEmail (ID u), UUID u)) users"
  unfolding xray_buildVLESS_def Let_def inbound_users_stream
  by (simp add: users_simps)

lemma xray_users_trojan:
  "inbound_users ''clients'' ''password'' (fst (xray_buildTrojan ke inb nc users tc)) = map (\<lambda>u. (userEmail (ID u), UUID u)) users"
proof -
  let ?i = "mput ''settings'' (AnyMap [(''clients'', any_maps (map (\<lambda>u. [(''password'', AnyString (UUID u)),
                (''email'', AnyString (userEmail (ID u)))]) users))]) inb"
  have "inbound_users ''clients'' ''password'' ?i = map (\<lambda>u. (userEmail (ID u), UUID u)) users"
    by (simp add: users_simps)
  then show ?thesis unfolding xray_buildTrojan_def Let_def split_beta by simp
qed

lemma xray_users_ss:
  "inbound_users ''clients'' ''password'' (xray_buildShadowsocks inb nc users) =
     map (\<lambda>u. (userEmail (ID u), if IsSS2022Method (n_Cipher nc) then fst (SS2022UserKey (n_Cipher nc) (UUID u)) else UUID u)) users"
proof (cases "IsSS2022Method (n_Cipher nc)")
  case True
  then show ?thesis
    unfolding xray_buildShadowsocks_def if_P [OF True]
    by (simp add: users_simps)
next
  case False
  then show ?thesis
    unfolding xray_buildShadowsocks_def if_not_P [OF False]
    by (simp add: users_simps)
qed

lemma xray_users_accounts:
  "map_of s ''accounts'' = Some (any_maps (map account_entry users)) \<Longrightarrow>
   inbound_users ''accounts'' ''pass'' (mput ''settings'' (AnyMap s) inb) = map (\<lambda>u. (userEmail (ID u), UUID u)) users"
  by (simp add: users_simps account_entry_def)

lemma xray_users_http:
  "inbound_users ''accounts'' ''pass'' (fst (xray_buildHTTP ke inb nc users tc)) = map (\<lambda>u. (userEmail (ID u), UUID u)) users"
  by (simp add: xray_buildHTTP_def Let_def xray_users_accounts)

lemma xray_users_socks:
  "inbound_users ''accounts'' ''pass'' (xray_buildSocks inb users) = map (\<lambda>u. (userEmail (ID u), UUID u)) users"
  unfolding xray_buildSocks_def by (rule xray_users_accounts) simp

lemma xray_users_hysteria:
  assumes "n_Version nc = 2"
  obtains inb' where "xray_buildHysteria inb nc users tc = Some inb'"
    and "inbound_users ''clients'' ''auth'' inb' = map (\<lambda>u. (userEmail (ID u), UUID u)) users"
proof -
  let ?i = "mput ''settings'' (AnyMap [(''clients'', any_maps (map (\<lambda>u. [(''auth'', AnyString (UUID u)),
                (''email'', AnyString (userEmail (ID u)))]) users))]) inb"
  have "inbound_users ''clients'' ''auth'' ?i = map (\<lambda>u. (userEmail (ID u), UUID u)) users"
    by (simp add: users_simps)
  moreover have "inbound_users l c (mput ''streamSettings'' v ?i) = inbound_users l c ?i" for l c v
    by (rule inbound_users_cong) (simp add: map_of_mput)
  ultimately show thesis
    using that assms by (simp add: xray_buildHysteria_def Let_def)
qed

lemmas xray_users = xray_users_vmess xray_users_vless xray_users_trojan xray_users_ss xray_users_http xray_users_socks

text \<open>
  For every protocol the Xray kernel serves, the generated inbound lists exactly the users of the
  node in their order, each under the name its traffic is accounted to and with its own credential (the
  derived key for Shadowsocks 2022, the UUID otherwise), and there is no inbound exactly when the
  protocol is not served or is Hysteria in another version than 2.
\<close>

lemma xray_inbound_users:
  "case fst (xray_buildInbound ke nc users tc) of
     None \<Rightarrow> user_keys (n_Protocol nc) = None \<or> (n_Protocol nc = ''hysteria'' \<and> n_Version nc \<noteq> 2)
   | Some inb \<Rightarrow> (\<exists>l c. user_keys (n_Protocol nc) = Some (l, c) \<and>
       inbound_users l c inb = map (\<lambda>u. (userEmail (ID u), user_cred nc u)) users)"
proof (cases "n_Protocol nc = ''hysteria''")
  case True
  show ?thesis
  proof (cases "n_Version nc = 2")
    case v2: True
    from xray_users_hysteria [OF v2, of "xray_inbound_base nc" users tc]
    obtain inb where "xray_buildHysteria (xray_inbound_base nc) nc users tc = Some inb"
      and "inbound_users ''clients'' ''auth'' inb = map (\<lambda>u. (userEmail (ID u), UUID u)) users" by blast
    with True show ?thesis by (simp add: xray_buildInbound_def Let_def user_keys_def user_cred_def)
  next
    case False
    with True show ?thesis by (simp add: xray_buildInbound_def Let_def xray_buildHysteria_def)
  qed
next
  case False
  have "user_keys p = None \<or> p = ''vmess'' \<or> p = ''vless'' \<or> p = ''trojan'' \<or> p = ''shadowsocks'' \<or> p = ''socks'' \<or>
      p = ''http'' \<or> p = ''hysteria''" for p
    unfolding user_keys_def by simp
  from this [of "n_Protocol nc"] consider "user_keys (n_Protocol nc) = None" | "n_Protocol nc = ''vmess''" | "n_Protocol nc = ''vless''"
    | "n_Protocol nc = ''trojan''" | "n_Protocol nc = ''shadowsocks''" | "n_Protocol nc = ''socks''" | "n_Protocol nc = ''http''"
    using False by (elim disjE) simp_all
  then show ?thesis
  proof cases
    case 1
    then show ?thesis by (auto simp: xray_buildInbound_def Let_def user_keys_def split: if_splits)
  qed (simp_all add: xray_buildInbound_def Let_def user_keys_def user_cred_def xray_users)
qed

end
