(* ===== verification/SingboxConfig.thy ===== *)
theory SingboxConfig
  imports XrayRouting
begin

text \<open>
  The configuration generator of the sing-box kernel (\<^verbatim>\<open>internal/kernel/singbox/config.go\<close>): outbounds
  translated to the flat layout of sing-box, the inbound with its users for eleven protocols, transport,
  TLS, Reality and multiplex settings, the route rules, and the merge of a custom configuration file.

  A map of settings is walked in the order of its association list, which stands for the order Go picks;
  the order in which the route profiles are walked is an argument \<open>rng\<close>. Code of other repositories and
  of the path library is gathered in \<open>senv\<close>: the decoder of structured rules and of Reality settings
  (\<^verbatim>\<open>mapstructure\<close>, weakly typed, \<open>None\<close> is its error) and \<^verbatim>\<open>filepath.Join\<close>.
\<close>

record reality_settings =
  rs_PrivateKey :: string
  rs_ShortID :: any
  rs_Dest :: string
  rs_ServerName :: string
  rs_ServerPort :: int

record senv =
  se_k :: kenv
  se_decodeRule :: "M \<Rightarrow> CustomRouteRule option"
  se_decodeReality :: "M \<Rightarrow> reality_settings"
  se_joinPath :: "string \<Rightarrow> string \<Rightarrow> string"

section \<open>Strings\<close>

text \<open>\<^verbatim>\<open>net.SplitHostPort\<close>; \<open>None\<close> is an error. \<open>index_of c s\<close> is the length of \<open>s\<close> if \<open>c\<close> does not occur.\<close>

definition index_of :: "char \<Rightarrow> string \<Rightarrow> nat" where
  "index_of c s = length (takeWhile (\<lambda>d. d \<noteq> c) s)"

definition last_index :: "char \<Rightarrow> string \<Rightarrow> nat option" where
  "last_index c s = (if c \<in> set s then Some (length s - 1 - index_of c (rev s)) else None)"

definition SplitHostPort :: "string \<Rightarrow> (string \<times> string) option" where
  "SplitHostPort hp =
     (case last_index (CHR '':'') hp of
        None \<Rightarrow> None
      | Some i \<Rightarrow>
          if hp ! 0 = CHR ''['' then
            (let e = index_of (CHR '']'') hp in
             if e = length hp \<or> e + 1 \<noteq> i then None
             else if CHR ''['' \<in> set (drop 1 hp) \<or> CHR '']'' \<in> set (drop (e + 1) hp) then None
             else Some (take (e - 1) (drop 1 hp), drop (i + 1) hp))
          else if CHR '':'' \<in> set (take i hp) \<or> CHR ''['' \<in> set hp \<or> CHR '']'' \<in> set hp then None
          else Some (take i hp, drop (i + 1) hp))"

section \<open>Outbounds\<close>

definition normalizeSingboxOutboundKey :: "string \<Rightarrow> string" where
  "normalizeSingboxOutboundKey key =
     (if key = ''address'' then ''server''
      else if key = ''port'' \<or> key = ''serverPort'' then ''server_port''
      else if key = ''secret_key'' then ''private_key''
      else if key = ''method'' then ''method''
      else key)"

text \<open>A missing key and a nil value read the same here.\<close>

definition at :: "M \<Rightarrow> string \<Rightarrow> any" where
  "at m k = mget_or AnyNil m k"

definition or_nil :: "any \<Rightarrow> any \<Rightarrow> any" where
  "or_nil v w = (if v = AnyNil then w else v)"

definition firstSingboxServer :: "any \<Rightarrow> (any \<times> any \<times> any \<times> any) option" where
  "firstSingboxServer value =
     (case value of
        AnyList (AnyMap server # rest) \<Rightarrow>
          (if mhas server ''address'' \<or> mhas server ''server'' then
             Some (if mhas server ''address'' then at server ''address'' else at server ''server'',
                   or_nil (at server ''port'') (at server ''server_port''),
                   or_nil (at server ''method'') (at server ''version''),
                   or_nil (or_nil (at server ''password'') (at server ''pass'')) (at server ''passwd''))
           else None)
      | _ \<Rightarrow> None)"

text \<open>\<^verbatim>\<open>if _, exists := out[k]; !exists { out[k] = v }\<close>\<close>

definition put_new :: "string \<Rightarrow> any \<Rightarrow> M \<Rightarrow> M" where
  "put_new k v out = (if mhas out k then out else mput k v out)"

definition put_some :: "string \<Rightarrow> any \<Rightarrow> M \<Rightarrow> M" where
  "put_some k v out = (if v = AnyNil then out else put_new k v out)"

definition move_key :: "string \<Rightarrow> string \<Rightarrow> M \<Rightarrow> M" where
  "move_key k k' out = (case map_of out k of None \<Rightarrow> out | Some v \<Rightarrow> mdel k (put_new k' v out))"

definition normalizeSingboxServerFields :: "M \<Rightarrow> M" where
  "normalizeSingboxServerFields out0 =
     (let out1 = move_key ''passwd'' ''password'' (move_key ''pass'' ''password'' out0);
          out2 = (case map_of out1 ''servers'' of
                    None \<Rightarrow> out1
                  | Some servers \<Rightarrow>
                      mdel ''servers''
                        (case firstSingboxServer servers of
                           None \<Rightarrow> out1
                         | Some (server, port, method, password) \<Rightarrow>
                             put_some ''password'' password (put_some ''method'' method
                               (put_some ''server_port'' port (put_new ''server'' server out1)))))
      in move_key ''port'' ''server_port'' out2)"

definition peer_entry :: "string \<times> any \<Rightarrow> M \<Rightarrow> M" where
  "peer_entry kv newPeer =
     (case kv of (k, v) \<Rightarrow>
        if k = ''endpoint'' then
          (case v of
             AnyString ep \<Rightarrow>
               (case SplitHostPort ep of
                  Some (host, portStr) \<Rightarrow>
                    mput ''port'' (AnyInt (case ParseInt portStr of Some p \<Rightarrow> p | None \<Rightarrow> 0)) (mput ''address'' (AnyString host) newPeer)
                | None \<Rightarrow> mput ''address'' (AnyString ep) newPeer)
           | _ \<Rightarrow> newPeer)
        else mput (normalizeSingboxOutboundKey k) v newPeer)"

definition normalizeSingboxWireGuard :: "M \<Rightarrow> M" where
  "normalizeSingboxWireGuard out0 =
     (let out1 = mdel ''method'' out0 in
      case map_of out1 ''peers'' of
        Some (AnyList peers) \<Rightarrow>
          (let wgPeers = concat (map (\<lambda>p. case p of AnyMap peerMap \<Rightarrow> [AnyMap (fold peer_entry peerMap [])] | _ \<Rightarrow> []) peers)
           in mput ''peers'' (if wgPeers = [] then AnyNil else AnyList wgPeers) out1)
      | _ \<Rightarrow> out1)"

definition finish_settings :: "string \<Rightarrow> M \<Rightarrow> M" where
  "finish_settings protocol out1 =
     (let out2 = normalizeSingboxServerFields out1
      in if protocol = ''wireguard'' then normalizeSingboxWireGuard out2 else out2)"

function settings_loop :: "string \<Rightarrow> M \<Rightarrow> M \<Rightarrow> M" where
  "settings_loop protocol [] out1 = out1"
| "settings_loop protocol ((k, v) # rest) out1 =
     (if k = ''settings'' then
        (case v of
           AnyMap nested \<Rightarrow>
             settings_loop protocol rest
               (fold (\<lambda>(nk, nv). mput nk nv) (finish_settings protocol (settings_loop protocol nested [])) out1)
         | _ \<Rightarrow> settings_loop protocol rest out1)
      else settings_loop protocol rest (mput (normalizeSingboxOutboundKey k) v out1))"
  by pat_completeness auto
termination
  by (relation "measure (\<lambda>(protocol, settings, out1). size_list (size_prod (\<lambda>_. 0) size) settings)") auto

definition normalizeSingboxOutboundSettings :: "string \<Rightarrow> M \<Rightarrow> M" where
  "normalizeSingboxOutboundSettings protocol settings = finish_settings protocol (settings_loop protocol settings [])"

definition outboundConfigToSingbox :: "OutboundConfig \<Rightarrow> M" where
  "outboundConfigToSingbox oc =
     (let m = fold (\<lambda>(k, v). mput k v) (normalizeSingboxOutboundSettings (ob_Protocol oc) (elems (ob_Settings oc)))
                [(''type'', AnyString (ob_Protocol oc)), (''tag'', AnyString (ob_Tag oc))]
      in if ob_ProxyTag oc \<noteq> [] then mput ''detour'' (AnyString (ob_ProxyTag oc)) m else m)"

definition sb_outbounds :: "KernelConfig \<Rightarrow> NodeSpec \<Rightarrow> any list" where
  "sb_outbounds kcfg nc =
     (let tags = xray_tags kcfg nc;
          outbounds = map (\<lambda>co. AnyMap (outboundConfigToSingbox co)) (elems (n_CustomOutbounds nc)) @
                      map of_map (kc_CustomOutbound kcfg);
          outbounds = (if ''direct'' \<notin> set tags
            then AnyMap [(''type'', AnyString ''direct''), (''tag'', AnyString ''direct'')] # outbounds else outbounds)
      in if ''block'' \<notin> set tags
         then outbounds @ [AnyMap [(''type'', AnyString ''block''), (''tag'', AnyString ''block'')]] else outbounds)"

section \<open>Route rules\<close>

definition singboxOutboundForAction :: "RouteAction \<Rightarrow> string" where
  "singboxOutboundForAction action =
     (if a_Type action = ''direct'' then ''direct''
      else if a_Type action = ''route'' then (if a_Target action \<noteq> [] then a_Target action else ''block'')
      else ''block'')"

definition split_port :: "string \<Rightarrow> int list \<times> string list \<Rightarrow> int list \<times> string list" where
  "split_port raw acc =
     (let v = TrimSpace raw; (ports, ranges) = acc in
      if v = [] then acc
      else if ContainsByte v (CHR '':'') \<or> ContainsByte v (CHR ''-'') then (ports, ranges @ [ReplaceAll ''-'' '':'' v])
      else case ParseInt v of Some port \<Rightarrow> (ports @ [port], ranges) | None \<Rightarrow> acc)"

definition splitPorts :: "string list \<Rightarrow> int list \<times> string list" where
  "splitPorts values = fold split_port values ([], [])"

definition sb_field :: "string \<Rightarrow> string slice \<Rightarrow> string \<Rightarrow> M list" where
  "sb_field k values outbound =
     (if elems values \<noteq> [] then [[(k, any_strings (elems values)), (''outbound'', AnyString outbound)]] else [])"

definition sb_ports :: "string \<Rightarrow> string \<Rightarrow> string slice \<Rightarrow> string \<Rightarrow> M list" where
  "sb_ports k kr values outbound =
     (if elems values = [] then []
      else
        (let (ports, portRanges) = splitPorts (elems values) in
         [[(''outbound'', AnyString outbound)] @
          (if ports \<noteq> [] then [(k, AnyList (map AnyInt ports))] else []) @
          (if portRanges \<noteq> [] then [(kr, any_strings portRanges)] else [])]))"

definition sb_compileCustomRouteRule :: "CustomRouteRule \<Rightarrow> M list" where
  "sb_compileCustomRouteRule rule =
     (if cr_Disabled rule then []
      else
        (let outbound = singboxOutboundForAction (cr_Action rule); match = cr_Match rule in
         sb_field ''domain'' (m_Domains match) outbound @
         sb_field ''domain_suffix'' (m_DomainSuffixes match) outbound @
         sb_field ''ip_cidr'' (m_IPCIDRs match) outbound @
         sb_ports ''port'' ''port_range'' (m_Ports match) outbound @
         sb_field ''network'' (m_Networks match) outbound @
         sb_field ''source_ip_cidr'' (m_SourceCIDRs match) outbound @
         sb_ports ''source_port'' ''source_port_range'' (m_SourcePorts match) outbound))"

definition sb_panel_items :: "string list \<Rightarrow> string list" where
  "sb_panel_items items = map (\<lambda>item. TrimPrefix item ''*.'') (nonblank items)"

definition sb_panel_outbound :: "RouteRule \<Rightarrow> string" where
  "sb_panel_outbound pr =
     (if rr_Action pr = ''direct'' then ''direct''
      else if rr_Action pr = ''dns'' then (if rr_ActionValue pr \<noteq> [] then rr_ActionValue pr else ''dns-out'')
      else if rr_Action pr = ''proxy'' \<and> rr_ActionValue pr \<noteq> [] then rr_ActionValue pr
      else ''block'')"

definition sb_compilePanelRouteRule :: "RouteRule \<Rightarrow> M list" where
  "sb_compilePanelRouteRule pr =
     (let items = sb_panel_items (elems (rr_Match pr));
          cidrs = filter (\<lambda>item. ContainsByte item (CHR ''/'')) items;
          domains = filter (\<lambda>item. \<not> ContainsByte item (CHR ''/'')) items
      in sb_field ''domain_suffix'' (Some domains) (sb_panel_outbound pr) @
         sb_field ''ip_cidr'' (Some cidrs) (sb_panel_outbound pr))"

fun firstAny :: "M \<Rightarrow> string list \<Rightarrow> any" where
  "firstAny m [] = AnyNil"
| "firstAny m (key # keys) = (case map_of m key of Some v \<Rightarrow> v | None \<Rightarrow> firstAny m keys)"

definition stringSliceFromAny :: "any \<Rightarrow> string slice" where
  "stringSliceFromAny value =
     (case value of
        AnyList vs \<Rightarrow> Some (concat (map (\<lambda>item. case item of AnyString s \<Rightarrow> [s] | _ \<Rightarrow> []) vs))
      | AnyString v \<Rightarrow> if v = [] then None else Some [v]
      | _ \<Rightarrow> None)"

definition map_or_empty :: "M \<Rightarrow> string \<Rightarrow> M" where
  "map_or_empty m k = (case map_of m k of Some (AnyMap n) \<Rightarrow> n | _ \<Rightarrow> [])"

definition any_string :: "any \<Rightarrow> string" where
  "any_string v = (case v of AnyString s \<Rightarrow> s | _ \<Rightarrow> [])"

definition normalizeDecodedCustomRouteRule :: "CustomRouteRule \<Rightarrow> M \<Rightarrow> CustomRouteRule" where
  "normalizeDecodedCustomRouteRule rule raw =
     (let match = map_or_empty raw ''match''; action = map_or_empty raw ''action'';
          fill = (\<lambda>s ks. if elems s = [] then stringSliceFromAny (firstAny match ks) else s);
          m = cr_Match rule; a = cr_Action rule
      in rule\<lparr>cr_Match := m\<lparr>m_DomainSuffixes := fill (m_DomainSuffixes m) [''domain_suffixes'', ''domainSuffixes''],
                            m_IPCIDRs := fill (m_IPCIDRs m) [''ip_cidrs'', ''ipCidrs''],
                            m_SourceCIDRs := fill (m_SourceCIDRs m) [''source_cidrs'', ''sourceCidrs''],
                            m_SourcePorts := fill (m_SourcePorts m) [''source_ports'', ''sourcePorts'']\<rparr>,
              cr_Action := a\<lparr>a_Type := if a_Type a = [] then any_string (firstAny action [''type'']) else a_Type a,
                             a_Target := if a_Target a = [] then any_string (firstAny action [''target'']) else a_Target a\<rparr>\<rparr>)"

definition compileMaybeStructuredCustomRoute :: "senv \<Rightarrow> any_map \<Rightarrow> M list option" where
  "compileMaybeStructuredCustomRoute se raw =
     (case raw of
        None \<Rightarrow> None
      | Some m \<Rightarrow>
          if \<not> mhas m ''match'' \<or> \<not> mhas m ''action'' then None
          else case se_decodeRule se m of
                 None \<Rightarrow> None
               | Some rule \<Rightarrow> Some (sb_compileCustomRouteRule (normalizeDecodedCustomRouteRule rule m)))"

definition sb_raw_rules :: "senv \<Rightarrow> any_map list \<Rightarrow> any list" where
  "sb_raw_rules se custom =
     concat (map (\<lambda>cr. case compileMaybeStructuredCustomRoute se cr of Some compiled \<Rightarrow> map AnyMap compiled | None \<Rightarrow> [of_map cr]) custom)"

definition sb_private_rules :: "M list" where
  "sb_private_rules =
     [[(''outbound'', AnyString ''block''),
       (''ip_cidr'', any_strings [''10.0.0.0/8'', ''100.64.0.0/10'', ''127.0.0.0/8'', ''169.254.0.0/16'', ''172.16.0.0/12'',
         ''192.0.0.0/24'', ''192.168.0.0/16'', ''198.18.0.0/15''])],
      [(''outbound'', AnyString ''block''), (''ip_cidr'', any_strings [''fc00::/7'', ''fe80::/10'', ''::1/128''])]]"

fun sb_firstDefaultOutboundTag :: "string list \<Rightarrow> string" where
  "sb_firstDefaultOutboundTag [] = ''direct''"
| "sb_firstDefaultOutboundTag (v # values) =
     (if TrimSpace v \<noteq> [] then TrimSpace v else sb_firstDefaultOutboundTag values)"

definition sb_buildRoutes ::
  "senv \<Rightarrow> RouteRule slice \<Rightarrow> CustomRouteRule slice \<Rightarrow> any_map list \<Rightarrow> string list \<Rightarrow> M" where
  "sb_buildRoutes se panelRoutes customRules custom defaultOutboundTags =
     [(''final'', AnyString (sb_firstDefaultOutboundTag defaultOutboundTags)),
      (''rules'', AnyList
         (map AnyMap (concat (map sb_compileCustomRouteRule (filter (\<lambda>r. \<not> cr_Disabled r) (elems customRules)))) @
          sb_raw_rules se custom @
          map AnyMap sb_private_rules @
          map AnyMap (concat (map sb_compilePanelRouteRule (elems panelRoutes)))))]"

definition scope_uuids :: "string \<Rightarrow> UserSpec list \<Rightarrow> string list" where
  "scope_uuids scope users = map UUID (filter (\<lambda>u. scope = userScope u) users)"

definition sb_scoped :: "string list \<Rightarrow> RouteProfile \<Rightarrow> M list" where
  "sb_scoped userIDs profile =
     (if userIDs = [] then []
      else
        map (mput ''auth_user'' (any_strings userIDs))
          (concat (map sb_compileCustomRouteRule (elems (rp_CustomRouteRules profile)))) @
        (let tag = TrimSpace (rp_DefaultOutboundTag profile) in
         if tag \<noteq> []
         then [[(''auth_user'', any_strings userIDs), (''network'', any_strings [''tcp'', ''udp'']), (''outbound'', AnyString tag)]]
         else []))"

definition sb_profile_rules :: "UserSpec list \<Rightarrow> string \<times> RouteProfile \<Rightarrow> M list" where
  "sb_profile_rules users sp = sb_scoped (scope_uuids (fst sp) users) (snd sp)"

definition sb_buildRoutesForUsers ::
  "senv \<Rightarrow> ((string \<times> RouteProfile) list \<Rightarrow> (string \<times> RouteProfile) list) \<Rightarrow> NodeSpec \<Rightarrow> any_map list \<Rightarrow> UserSpec list \<Rightarrow> M" where
  "sb_buildRoutesForUsers se rng nc custom users =
     (if elems (n_RouteProfiles nc) = [] then
        sb_buildRoutes se (n_Routes nc) (n_CustomRouteRules nc) custom [n_DefaultOutboundTag nc]
      else
        (let route = sb_buildRoutes se None None [] [];
             rules = (case map_of route ''rules'' of Some (AnyList rs) \<Rightarrow> rs | _ \<Rightarrow> []) @
                     map AnyMap (concat (map (sb_profile_rules users) (rng (elems (n_RouteProfiles nc))))) @
                     sb_raw_rules se custom @
                     map AnyMap (concat (map sb_compilePanelRouteRule (elems (n_Routes nc))))
         in mput ''rules'' (AnyList rules) route))"

definition routeProfilesNeedGeo :: "(string, RouteProfile) gomap \<Rightarrow> bool" where
  "routeProfilesNeedGeo profiles = (\<exists>(k, profile) \<in> set profiles.
     NeedsGeoIPRules (rp_CustomRouteRules profile) \<or> NeedsGeoSiteRules (rp_CustomRouteRules profile))"

section \<open>Transport, TLS and multiplexing\<close>

definition sb_transport :: "NodeSpec \<Rightarrow> M" where
  "sb_transport nc =
     (let ns = elems (n_NetworkSettings nc); t = [(''type'', AnyString (n_Network nc))] in
      if n_NetworkSettings nc = None then t
      else if n_Network nc = ''ws'' then
        (let t = copy_key ns ''headers'' ''headers'' id (copy_key ns ''path'' ''path'' id t);
             t = (if at t ''headers'' = AnyNil then copy_key ns ''host'' ''headers'' (\<lambda>v. AnyMap [(''Host'', v)]) t else t)
         in copy_key ns ''early_data_header_name'' ''early_data_header_name'' id
              (copy_key ns ''max_early_data'' ''max_early_data'' id t))
      else if n_Network nc = ''grpc'' then
        (if mhas ns ''serviceName'' then copy_key ns ''serviceName'' ''service_name'' id t
         else copy_key ns ''service_name'' ''service_name'' id t)
      else if n_Network nc = ''httpupgrade'' then copy_key ns ''host'' ''host'' id (copy_key ns ''path'' ''path'' id t)
      else if n_Network nc = ''h2'' \<or> n_Network nc = ''http'' then
        copy_key ns ''host'' ''host'' id (copy_key ns ''path'' ''path'' id (mput ''type'' (AnyString ''http'') t))
      else t)"

definition applyTransport :: "M \<Rightarrow> NodeSpec \<Rightarrow> M" where
  "applyTransport inb nc =
     (if n_Network nc = [] \<or> n_Network nc = ''tcp'' then inb else mput ''transport'' (AnyMap (sb_transport nc)) inb)"

definition extractECHInbound :: "M \<Rightarrow> M option" where
  "extractECHInbound tlsSettings =
     (case map_of tlsSettings ''ech'' of
        Some (AnyMap echMap) \<Rightarrow>
          if map_of echMap ''enabled'' \<noteq> Some (AnyBool True) then None
          else
            Some ([(''enabled'', AnyBool True)] @
              (if string_at echMap ''key'' \<noteq> [] then [(''key'', any_strings [string_at echMap ''key''])] else []) @
              (if string_at echMap ''key_path'' \<noteq> [] then [(''key_path'', AnyString (string_at echMap ''key_path''))] else []))
      | _ \<Rightarrow> None)"

definition buildTLSConfig :: "NodeSpec \<Rightarrow> TLSCert \<Rightarrow> M option" where
  "buildTLSConfig nc tc =
     (if \<not> HasCert tc then None
      else
        (let serverName = (if n_ServerName nc = [] \<and> n_Host nc \<noteq> [] then n_Host nc else n_ServerName nc);
             t0 = (''enabled'', AnyBool True) # (if serverName \<noteq> [] then [(''server_name'', AnyString serverName)] else []);
             t1 = (case n_TLSSettings nc of
                     None \<Rightarrow> t0
                   | Some ts \<Rightarrow>
                       (let t = (case map_of ts ''server_name'' of
                                   Some sn \<Rightarrow> if sn \<noteq> AnyString [] then mput ''server_name'' sn t0 else t0 | None \<Rightarrow> t0);
                            t = copy_key ts ''alpn'' ''alpn'' id t
                        in case extractECHInbound ts of Some ech \<Rightarrow> mput ''ech'' (AnyMap ech) t | None \<Rightarrow> t))
         in Some (mput ''key'' (any_strings [snd tc]) (mput ''certificate'' (any_strings [fst tc]) t1))))"

text \<open>\<^verbatim>\<open>strings.SplitN(dest, ":", 2)\<close> gives two parts exactly when there is a colon.\<close>

definition reality_handshake :: "reality_settings \<Rightarrow> string \<Rightarrow> M" where
  "reality_handshake settings dest =
     (if CHR '':'' \<in> set dest then
        (let i = index_of (CHR '':'') dest in
         [(''server'', AnyString (take i dest)),
          (''server_port'', AnyInt (case ParseInt (drop (i + 1) dest) of Some p \<Rightarrow> p | None \<Rightarrow> 443))])
      else
        [(''server'', AnyString dest),
         (''server_port'', AnyInt (if 0 < rs_ServerPort settings then rs_ServerPort settings else 443))])"

definition buildRealityConfig :: "senv \<Rightarrow> NodeSpec \<Rightarrow> M" where
  "buildRealityConfig se nc =
     (case n_TLSSettings nc of
        None \<Rightarrow> [(''enabled'', AnyBool True)]
      | Some ts \<Rightarrow>
          (let settings = se_decodeReality se ts;
               r0 = [(''enabled'', AnyBool True)];
               r1 = (if rs_PrivateKey settings \<noteq> [] then mput ''private_key'' (AnyString (rs_PrivateKey settings)) r0 else r0);
               r2 = (case rs_ShortID settings of
                       AnyString v \<Rightarrow> mput ''short_id'' (any_strings [v]) r1
                     | AnyList v \<Rightarrow> mput ''short_id'' (any_strings (map (Sprint (ke_fmtFloat (se_k se))) v)) r1
                     | _ \<Rightarrow> r1);
               dest = (if rs_Dest settings = [] then rs_ServerName settings else rs_Dest settings);
               r3 = (if dest \<noteq> [] then mput ''handshake'' (AnyMap (reality_handshake settings dest)) r2 else r2);
               t0 = [(''enabled'', AnyBool True)];
               t1 = (if rs_ServerName settings \<noteq> [] then mput ''server_name'' (AnyString (rs_ServerName settings)) t0 else t0)
           in mput ''reality'' (AnyMap r3) t1))"

definition brutal_settings :: "BrutalConfig \<Rightarrow> M" where
  "brutal_settings b =
     [(''enabled'', AnyBool True)] @
     (if 0 < br_UpMbps b then [(''up_mbps'', AnyInt (br_UpMbps b))] else []) @
     (if 0 < br_DownMbps b then [(''down_mbps'', AnyInt (br_DownMbps b))] else [])"

definition applyMultiplex :: "M \<Rightarrow> NodeSpec \<Rightarrow> M" where
  "applyMultiplex inb nc =
     (case n_Multiplex nc of
        None \<Rightarrow> inb
      | Some mx \<Rightarrow>
          if \<not> mx_Enabled mx then inb
          else mput ''multiplex''
            (AnyMap ([(''enabled'', AnyBool True)] @
               (if mx_Padding mx then [(''padding'', AnyBool True)] else []) @
               (case mx_Brutal mx of
                  Some b \<Rightarrow> if br_Enabled b then [(''brutal'', AnyMap (brutal_settings b))] else []
                | None \<Rightarrow> []))) inb)"

text \<open>The body of \<^verbatim>\<open>applyProxyProtocol\<close> is commented out.\<close>

definition applyProxyProtocol :: "M \<Rightarrow> NodeSpec \<Rightarrow> M" where
  "applyProxyProtocol inb nc = inb"

definition put_tls :: "M option \<Rightarrow> M \<Rightarrow> M" where
  "put_tls tls inb = (case tls of Some t \<Rightarrow> mput ''tls'' (AnyMap t) inb | None \<Rightarrow> inb)"

section \<open>Inbounds\<close>

text \<open>Write the type and the user list into the inbound.\<close>

definition sb_start :: "string \<Rightarrow> (UserSpec \<Rightarrow> M) \<Rightarrow> UserSpec list \<Rightarrow> M \<Rightarrow> M" where
  "sb_start ty f users inb = mput ''users'' (any_maps (map f users)) (mput ''type'' (AnyString ty) inb)"

definition sb_name_password :: "UserSpec \<Rightarrow> M" where
  "sb_name_password u = [(''name'', AnyString (UUID u)), (''password'', AnyString (UUID u))]"

definition sb_buildMieru :: "M \<Rightarrow> NodeSpec \<Rightarrow> UserSpec list \<Rightarrow> M" where
  "sb_buildMieru inb nc users =
     (let inb1 = (if n_Transport nc \<noteq> [] then mput ''transport'' (AnyString (n_Transport nc)) inb else inb);
          inb2 = (if n_TrafficPattern nc \<noteq> [] then mput ''traffic_pattern'' (AnyString (n_TrafficPattern nc)) inb1 else inb1)
      in sb_start ''mieru'' sb_name_password users inb2)"

definition sb_buildShadowsocks :: "M \<Rightarrow> NodeSpec \<Rightarrow> UserSpec list \<Rightarrow> M" where
  "sb_buildShadowsocks inb nc users =
     (let ss2022 = IsSS2022Method (n_Cipher nc);
          inb1 = mput ''method'' (AnyString (n_Cipher nc)) inb;
          inb2 = (if ss2022 then mput ''password'' (AnyString (n_ServerKey nc)) inb1 else inb1)
      in sb_start ''shadowsocks''
           (\<lambda>u. [(''name'', AnyString (UUID u)),
                 (''password'', AnyString (if ss2022 then fst (SS2022UserKey (n_Cipher nc) (UUID u)) else UUID u))]) users inb2)"

definition sb_stream :: "M \<Rightarrow> NodeSpec \<Rightarrow> M" where
  "sb_stream inb nc = applyMultiplex (applyProxyProtocol (applyTransport inb nc) nc) nc"

definition sb_buildVMess :: "M \<Rightarrow> NodeSpec \<Rightarrow> UserSpec list \<Rightarrow> TLSCert \<Rightarrow> M" where
  "sb_buildVMess inb nc users tc =
     (let inb1 = sb_stream (sb_start ''vmess''
            (\<lambda>u. [(''name'', AnyString (UUID u)), (''uuid'', AnyString (UUID u)), (''alterId'', AnyInt 0)]) users inb) nc
      in if n_TLS nc = 1 then put_tls (buildTLSConfig nc tc) inb1 else inb1)"

definition sb_buildVLESS :: "senv \<Rightarrow> M \<Rightarrow> NodeSpec \<Rightarrow> UserSpec list \<Rightarrow> TLSCert \<Rightarrow> M" where
  "sb_buildVLESS se inb nc users tc =
     (let inb1 = sb_stream (sb_start ''vless''
            (\<lambda>u. [(''name'', AnyString (UUID u)), (''uuid'', AnyString (UUID u))] @
                  (if n_Flow nc \<noteq> [] then [(''flow'', AnyString (n_Flow nc))] else [])) users inb) nc
      in if n_TLS nc = 1 then put_tls (buildTLSConfig nc tc) inb1
         else if n_TLS nc = 2 then mput ''tls'' (AnyMap (buildRealityConfig se nc)) inb1
         else inb1)"

definition sb_buildTrojan :: "senv \<Rightarrow> M \<Rightarrow> NodeSpec \<Rightarrow> UserSpec list \<Rightarrow> TLSCert \<Rightarrow> M" where
  "sb_buildTrojan se inb nc users tc =
     (let inb1 = sb_stream (sb_start ''trojan'' sb_name_password users inb) nc;
          inb2 = (if n_TLS nc = 1 then put_tls (buildTLSConfig nc tc) inb1
                  else if n_TLS nc = 2 then mput ''tls'' (AnyMap (buildRealityConfig se nc)) inb1
                  else inb1)
      in if \<not> mhas inb2 ''tls'' then put_tls (buildTLSConfig nc tc) inb2 else inb2)"

text \<open>The TLS settings of the QUIC protocols, with the application protocol h3 unless the panel sets one.\<close>

definition quic_tls :: "NodeSpec \<Rightarrow> TLSCert \<Rightarrow> M option" where
  "quic_tls nc tc = map_option (put_new ''alpn'' (any_strings [''h3''])) (buildTLSConfig nc tc)"

definition sb_buildHysteria :: "M \<Rightarrow> NodeSpec \<Rightarrow> UserSpec list \<Rightarrow> TLSCert \<Rightarrow> M" where
  "sb_buildHysteria inb nc users tc =
     (let inb1 =
        (if n_Version nc = 2 then
           (let i = sb_start ''hysteria2'' sb_name_password users inb
            in if n_Obfs nc \<noteq> [] then
                 mput ''obfs'' (AnyMap [(''type'', AnyString (n_Obfs nc)), (''password'', AnyString (n_ObfsPassword nc))]) i
               else i)
         else
           (let i = sb_start ''hysteria'' (\<lambda>u. [(''name'', AnyString (UUID u)), (''auth_str'', AnyString (UUID u))]) users inb;
                i = mput ''down_mbps'' (AnyInt (n_DownMbps nc)) (mput ''up_mbps'' (AnyInt (n_UpMbps nc)) i)
            in if n_Obfs nc \<noteq> [] then mput ''obfs'' (AnyString (n_Obfs nc)) i else i))
      in put_tls (quic_tls nc tc) inb1)"

definition sb_buildTUIC :: "M \<Rightarrow> NodeSpec \<Rightarrow> UserSpec list \<Rightarrow> TLSCert \<Rightarrow> M" where
  "sb_buildTUIC inb nc users tc =
     (let i = sb_start ''tuic''
                (\<lambda>u. [(''name'', AnyString (UUID u)), (''uuid'', AnyString (UUID u)), (''password'', AnyString (UUID u))]) users inb;
          i = (if n_CongestionControl nc \<noteq> [] then mput ''congestion_control'' (AnyString (n_CongestionControl nc)) i else i)
      in put_tls (quic_tls nc tc) i)"

definition sb_buildAnyTLS :: "M \<Rightarrow> NodeSpec \<Rightarrow> UserSpec list \<Rightarrow> TLSCert \<Rightarrow> M" where
  "sb_buildAnyTLS inb nc users tc =
     (let i = sb_start ''anytls'' sb_name_password users inb;
          i = (if n_PaddingScheme nc \<noteq> [] then mput ''padding_scheme'' (AnyString (n_PaddingScheme nc)) i else i)
      in put_tls (buildTLSConfig nc tc) i)"

definition sb_buildNaive :: "M \<Rightarrow> NodeSpec \<Rightarrow> UserSpec list \<Rightarrow> TLSCert \<Rightarrow> M" where
  "sb_buildNaive inb nc users tc =
     (let i = sb_start ''naive'' (\<lambda>u. [(''username'', AnyString (FormatInt (ID u))), (''password'', AnyString (UUID u))]) users inb
      in if n_TLS nc = 1 then put_tls (buildTLSConfig nc tc) i else i)"

definition sb_login :: "UserSpec \<Rightarrow> M" where
  "sb_login u = [(''username'', AnyString (UUID u)), (''password'', AnyString (UUID u))]"

definition sb_buildSocks :: "M \<Rightarrow> UserSpec list \<Rightarrow> M" where
  "sb_buildSocks inb users = sb_start ''socks'' sb_login users inb"

definition sb_buildHTTP :: "M \<Rightarrow> NodeSpec \<Rightarrow> UserSpec list \<Rightarrow> TLSCert \<Rightarrow> M" where
  "sb_buildHTTP inb nc users tc =
     (let i = applyProxyProtocol (sb_start ''http'' sb_login users inb) nc
      in if n_TLS nc = 1 then put_tls (buildTLSConfig nc tc) i else i)"

definition sb_inbound_base :: "NodeSpec \<Rightarrow> M" where
  "sb_inbound_base nc =
     [(''tag'', AnyString (n_Protocol nc @ ''-in'')), (''listen'', AnyString ''::''), (''listen_port'', AnyInt (n_ServerPort nc))]"

definition sb_buildInbound :: "senv \<Rightarrow> NodeSpec \<Rightarrow> UserSpec list \<Rightarrow> TLSCert \<Rightarrow> M option" where
  "sb_buildInbound se nc users tc =
     (let inb = sb_inbound_base nc; protocol = n_Protocol nc in
      if protocol = ''shadowsocks'' then Some (sb_buildShadowsocks inb nc users)
      else if protocol = ''vmess'' then Some (sb_buildVMess inb nc users tc)
      else if protocol = ''vless'' then Some (sb_buildVLESS se inb nc users tc)
      else if protocol = ''trojan'' then Some (sb_buildTrojan se inb nc users tc)
      else if protocol = ''hysteria'' then Some (sb_buildHysteria inb nc users tc)
      else if protocol = ''tuic'' then Some (sb_buildTUIC inb nc users tc)
      else if protocol = ''anytls'' then Some (sb_buildAnyTLS inb nc users tc)
      else if protocol = ''naive'' then Some (sb_buildNaive inb nc users tc)
      else if protocol = ''socks'' then Some (sb_buildSocks inb users)
      else if protocol = ''http'' then Some (sb_buildHTTP inb nc users tc)
      else if protocol = ''mieru'' then Some (sb_buildMieru inb nc users)
      else None)"

section \<open>The custom configuration file and the whole document\<close>

definition mergeCustomSingboxRoute :: "M \<Rightarrow> M \<Rightarrow> M" where
  "mergeCustomSingboxRoute cfg customRoute =
     (let route = (case map_of cfg ''route'' of Some (AnyMap r) \<Rightarrow> r | _ \<Rightarrow> []);
          route = (case map_of customRoute ''rules'' of
             None \<Rightarrow> route
           | Some v \<Rightarrow> (case map_of route ''rules'' of
                 Some (AnyList existing) \<Rightarrow> mput ''rules'' (AnyList (MergePrependList existing (Some v))) route
               | _ \<Rightarrow> route));
          route = (case map_of customRoute ''rule_set'' of
             None \<Rightarrow> route
           | Some v \<Rightarrow> (case map_of route ''rule_set'' of
                 Some (AnyList existing) \<Rightarrow> mput ''rule_set'' (AnyList (MergeAppendList existing (Some v))) route
               | _ \<Rightarrow> (let items = MergeAppendList [] (Some v)
                        in mput ''rule_set'' (if items = [] then AnyNil else AnyList items) route)));
          route = fold (\<lambda>(k, v) r. if k \<in> set [''rules'', ''rule_set''] then r else mput k v r) customRoute route
      in mput ''route'' (AnyMap route) cfg)"

definition sb_merge_endpoints :: "M \<Rightarrow> M \<Rightarrow> M" where
  "sb_merge_endpoints custom cfg =
     (case map_of custom ''endpoints'' of
        None \<Rightarrow> cfg
      | Some v \<Rightarrow> (case map_of cfg ''endpoints'' of
            Some (AnyList existing) \<Rightarrow> mput ''endpoints'' (AnyList (MergeAppendList existing (Some v))) cfg
          | _ \<Rightarrow> (let items = MergeAppendList [] (Some v)
                   in if items \<noteq> [] then mput ''endpoints'' (AnyList items) cfg else cfg)))"

definition sb_merge_route :: "M \<Rightarrow> M \<Rightarrow> M" where
  "sb_merge_route custom cfg =
     (case map_of custom ''route'' of Some (AnyMap cr) \<Rightarrow> mergeCustomSingboxRoute cfg cr | _ \<Rightarrow> cfg)"

definition mergeCustomSingbox :: "kenv \<Rightarrow> M \<Rightarrow> KernelConfig \<Rightarrow> M" where
  "mergeCustomSingbox ke cfg kcfg =
     (case LoadCustomConfig ke (kc_CustomConfig kcfg) of
        Inr (Some custom) \<Rightarrow>
          sb_merge_route custom
            (sb_merge_endpoints custom
              (merge_outbounds custom
                (copy_key custom ''experimental'' ''experimental'' id (merge_dns custom cfg))))
      | _ \<Rightarrow> cfg)"

definition sb_needs_geo :: "NodeSpec \<Rightarrow> bool" where
  "sb_needs_geo nc \<longleftrightarrow>
     NeedsGeoIP (n_Routes nc) \<or> NeedsGeoSite (n_Routes nc) \<or> NeedsGeoIPRules (n_CustomRouteRules nc) \<or>
     NeedsGeoSiteRules (n_CustomRouteRules nc) \<or> routeProfilesNeedGeo (elems (n_RouteProfiles nc))"

definition sb_buildConfig ::
  "senv \<Rightarrow> ((string \<times> RouteProfile) list \<Rightarrow> (string \<times> RouteProfile) list) \<Rightarrow>
   KernelConfig \<Rightarrow> NodeSpec \<Rightarrow> UserSpec list \<Rightarrow> TLSCert \<Rightarrow> M" where
  "sb_buildConfig se rng kcfg nc users tc =
     (let cfg = [(''log'', AnyMap [(''level'', AnyString (kc_LogLevel kcfg)), (''timestamp'', AnyBool True)]),
                 (''outbounds'', AnyList (sb_outbounds kcfg nc))];
          cfg = (case sb_buildInbound se nc users tc of Some inb \<Rightarrow> mput ''inbounds'' (any_maps [inb]) cfg | None \<Rightarrow> cfg);
          cfg = mput ''route''
                  (AnyMap (sb_buildRoutesForUsers se rng nc (xray_mergeRouteList (n_CustomRoutes nc) (kc_CustomRoute kcfg)) users)) cfg;
          cfg = (if sb_needs_geo nc
                 then mput ''experimental'' (AnyMap [(''cache_file'', AnyMap [(''enabled'', AnyBool True),
                        (''path'', AnyString (se_joinPath se (kc_ConfigDir kcfg) ''cache.db''))])]) cfg
                 else cfg)
      in mergeCustomSingbox (se_k se) cfg kcfg)"

end
