(* ===== verification/SingboxRouting.thy ===== *)
theory SingboxRouting
  imports SingboxConfig
begin

text \<open>
  What the configuration generated for sing-box means: which outbound the route rules pick for a user,
  and under which name each user appears in the inbound, against the map from names to users the
  connection tracker uses (\<^verbatim>\<open>buildUserMap\<close> of \<^verbatim>\<open>singbox.go\<close>).

  The router of sing-box takes the first rule that matches and the final outbound if none does; a rule
  with an \<^verbatim>\<open>auth_user\<close> list matches only connections of the listed names. How the rest of a rule is
  evaluated on a connection is code of sing-box, an argument \<open>hit\<close> on the rule without that list.
\<close>

section \<open>Decisions\<close>

definition sb_matches :: "(M \<Rightarrow> bool) \<Rightarrow> string \<Rightarrow> any \<Rightarrow> bool" where
  "sb_matches hit name r =
     (case r of
        AnyMap kvs \<Rightarrow> (case map_of kvs ''auth_user'' of None \<Rightarrow> True | Some v \<Rightarrow> lists_user name v) \<and>
                      hit (mdel ''auth_user'' kvs)
      | _ \<Rightarrow> False)"

definition sb_tag :: "any \<Rightarrow> string" where
  "sb_tag r = (case r of AnyMap kvs \<Rightarrow> string_at kvs ''outbound'' | _ \<Rightarrow> [])"

abbreviation sb_pick :: "(M \<Rightarrow> bool) \<Rightarrow> string \<Rightarrow> any list \<Rightarrow> string option" where
  "sb_pick hit name \<equiv> pick (sb_matches hit name) sb_tag"

definition sb_decide :: "(M \<Rightarrow> bool) \<Rightarrow> string \<Rightarrow> M \<Rightarrow> string" where
  "sb_decide hit name route =
     (case sb_pick hit name (rules_of route) of Some t \<Rightarrow> t | None \<Rightarrow> string_at route ''final'')"

definition sb_own_rules :: "RouteProfile \<Rightarrow> M list" where
  "sb_own_rules profile =
     concat (map sb_compileCustomRouteRule (elems (rp_CustomRouteRules profile))) @
     (if TrimSpace (rp_DefaultOutboundTag profile) \<noteq> []
      then [[(''network'', any_strings [''tcp'', ''udp'']), (''outbound'', AnyString (TrimSpace (rp_DefaultOutboundTag profile)))]]
      else [])"

lemma mdel_mput_new: "k \<notin> fst ` set m \<Longrightarrow> mdel k (mput k v m) = m"
  by (simp add: delete_update_same delete_notin_dom)

lemma sb_field_no_user: "r \<in> set (sb_field k vs t) \<Longrightarrow> k \<noteq> ''auth_user'' \<Longrightarrow> ''auth_user'' \<notin> fst ` set r"
  by (auto simp: sb_field_def split: if_splits)

lemma sb_ports_no_user:
  "r \<in> set (sb_ports k kr vs t) \<Longrightarrow> k \<noteq> ''auth_user'' \<Longrightarrow> kr \<noteq> ''auth_user'' \<Longrightarrow> ''auth_user'' \<notin> fst ` set r"
  by (auto simp: sb_ports_def Let_def split: if_splits prod.splits)

lemma sb_compiled_no_user:
  assumes "r \<in> set (sb_compileCustomRouteRule rule)"
  shows "''auth_user'' \<notin> fst ` set r"
proof -
  have "\<not> cr_Disabled rule" using assms by (auto simp: sb_compileCustomRouteRule_def split: if_splits)
  with assms show ?thesis
    by (simp only: sb_compileCustomRouteRule_def Let_def if_False set_append Un_iff)
       (elim disjE; (erule sb_field_no_user | erule sb_ports_no_user); simp)
qed

lemma sb_compiled_user:
  assumes "r \<in> set (concat (map sb_compileCustomRouteRule rules))"
  shows "sb_matches h e (AnyMap (mput ''auth_user'' (any_strings es) r)) \<longleftrightarrow> e \<in> set es \<and> sb_matches h e (AnyMap r)"
    and "sb_tag (AnyMap (mput ''auth_user'' (any_strings es) r)) = sb_tag (AnyMap r)"
proof -
  have "''auth_user'' \<notin> fst ` set r" using assms sb_compiled_no_user by auto
  then have "map_of r ''auth_user'' = None" and "mdel ''auth_user'' (mput ''auth_user'' v r) = r" and "mdel ''auth_user'' r = r" for v
    by (simp_all add: map_of_eq_None_iff mdel_mput_new delete_notin_dom)
  then show "sb_matches h e (AnyMap (mput ''auth_user'' (any_strings es) r)) \<longleftrightarrow> e \<in> set es \<and> sb_matches h e (AnyMap r)"
    and "sb_tag (AnyMap (mput ''auth_user'' (any_strings es) r)) = sb_tag (AnyMap r)"
    by (simp_all add: sb_matches_def sb_tag_def string_at_def map_of_mput)
qed

lemma sb_default_user:
  "sb_matches h e (AnyMap [(''auth_user'', any_strings es), (''network'', n), (''outbound'', t)]) \<longleftrightarrow>
     e \<in> set es \<and> sb_matches h e (AnyMap [(''network'', n), (''outbound'', t)])"
  "sb_tag (AnyMap [(''auth_user'', any_strings es), (''network'', n), (''outbound'', t)]) =
     sb_tag (AnyMap [(''network'', n), (''outbound'', t)])"
  by (simp_all add: sb_matches_def sb_tag_def string_at_def)

lemma sb_scoped_hit:
  assumes "e \<in> set es"
  shows "sb_pick h e (map AnyMap (sb_scoped es p)) = sb_pick h e (map AnyMap (sb_own_rules p))"
proof -
  let ?rs = "concat (map sb_compileCustomRouteRule (elems (rp_CustomRouteRules p)))"
  have "es \<noteq> []" using assms by auto
  moreover have "sb_pick h e (map (\<lambda>r. AnyMap (mput ''auth_user'' (any_strings es) r)) ?rs) = sb_pick h e (map AnyMap ?rs)"
    by (rule pick_map) (use assms sb_compiled_user in auto)
  ultimately show ?thesis
    using assms
    by (simp add: sb_scoped_def sb_own_rules_def Let_def pick_append pick_Cons sb_default_user comp_def split: option.split)
qed

lemma sb_scoped_miss:
  assumes "e \<notin> set es"
  shows "sb_pick h e (map AnyMap (sb_scoped es p)) = None"
proof (rule pick_None)
  let ?rs = "concat (map sb_compileCustomRouteRule (elems (rp_CustomRouteRules p)))"
  have "\<not> sb_matches h e (AnyMap (mput ''auth_user'' (any_strings es) r))" if "r \<in> set ?rs" for r
    using assms sb_compiled_user(1) [OF that] by blast
  then show "\<forall>r \<in> set (map AnyMap (sb_scoped es p)). \<not> sb_matches h e r"
    using assms by (auto simp: sb_scoped_def Let_def sb_default_user)
qed

interpretation sb_router: scoped_rules "sb_matches hit" sb_tag UUID
  "\<lambda>p. map AnyMap (sb_own_rules p)" "\<lambda>es p. map AnyMap (sb_scoped es p)"
  for hit
  by unfold_locales (simp_all add: sb_scoped_hit sb_scoped_miss)

lemma sb_router_rules:
  "concat (map (sb_router.profile_rules users) sps) = map AnyMap (concat (map (sb_profile_rules users) sps))"
proof -
  have "sb_router.profile_rules users = (\<lambda>sp. map AnyMap (sb_profile_rules users sp))"
    by (rule ext) (simp add: sb_router.profile_rules_def sb_router.names_def sb_profile_rules_def scope_uuids_def)
  then show ?thesis by (simp add: map_concat comp_def)
qed

lemma sb_rules_of_profiles:
  assumes "elems (n_RouteProfiles nc) \<noteq> []"
  shows "rules_of (sb_buildRoutesForUsers se rng nc custom users) =
    map AnyMap sb_private_rules @ map AnyMap (concat (map (sb_profile_rules users) (rng (elems (n_RouteProfiles nc))))) @
    sb_raw_rules se custom @ map AnyMap (concat (map sb_compilePanelRouteRule (elems (n_Routes nc))))"
    and "string_at (sb_buildRoutesForUsers se rng nc custom users) ''final'' = ''direct''"
  using assms
  by (simp_all add: sb_buildRoutesForUsers_def sb_buildRoutes_def sb_raw_rules_def rules_of_def Let_def map_of_mput string_at_def)

text \<open>
  C12. With route profiles, sing-box picks for a connection of a user (known by its UUID) what the
  private ranges, the profile of the user's own scope, the raw rules and the panel rules decide in this
  order, and \<^verbatim>\<open>direct\<close> if none does: the profiles of other scopes and the order of the map of profiles have
  no influence, and neither has the default outbound of the node, which the Xray kernel uses here.
\<close>

theorem singbox_scopes_isolated:
  assumes "range_order rng" and "n_RouteProfiles nc = Some profiles" and "wf_map profiles" and "profiles \<noteq> []"
    and "u \<in> set users" and "distinct (map UUID users)"
  shows "sb_decide hit (UUID u) (sb_buildRoutesForUsers se rng nc custom users) =
    (case sb_pick hit (UUID u)
        (map AnyMap sb_private_rules @
         map AnyMap (case map_of profiles (userScope u) of None \<Rightarrow> [] | Some p \<Rightarrow> sb_own_rules p) @
         sb_raw_rules se custom @ map AnyMap (concat (map sb_compilePanelRouteRule (elems (n_Routes nc))))) of
       Some t \<Rightarrow> t | None \<Rightarrow> ''direct'')"
proof -
  have ne: "elems (n_RouteProfiles nc) \<noteq> []" using assms(2,4) by simp
  have "sb_pick hit (UUID u) (rules_of (sb_buildRoutesForUsers se rng nc custom users)) =
      sb_pick hit (UUID u) (map AnyMap sb_private_rules @
         map AnyMap (case map_of profiles (userScope u) of None \<Rightarrow> [] | Some p \<Rightarrow> sb_own_rules p) @
         sb_raw_rules se custom @ map AnyMap (concat (map sb_compilePanelRouteRule (elems (n_Routes nc)))))"
    using sb_router.scopes_isolated [OF assms(1,3,5,6), of hit "map AnyMap sb_private_rules"] assms(2)
    unfolding sb_rules_of_profiles(1) [OF ne] sb_router_rules by (simp split: option.split)
  then show ?thesis unfolding sb_decide_def sb_rules_of_profiles(2) [OF ne] by (simp only:)
qed

definition demo_senv :: senv where
  "demo_senv = \<lparr>se_k = demo_kenv, se_decodeRule = (\<lambda>_. None),
     se_decodeReality = (\<lambda>_. \<lparr>rs_PrivateKey = [], rs_ShortID = AnyNil, rs_Dest = [], rs_ServerName = [], rs_ServerPort = 0\<rparr>),
     se_joinPath = (\<lambda>a b. a @ ''/'' @ b)\<rparr>"

definition demo_hit :: "M \<Rightarrow> bool" where
  "demo_hit r = (map_of r ''ip_cidr'' = None \<and> map_of r ''domain'' = None)"

text \<open>Neither the domain nor the private ranges match: the admin's profile has a default, the member's has none.\<close>

theorem singbox_scopes_isolated_witness:
  "sb_decide demo_hit ''a'' (sb_buildRoutesForUsers demo_senv rev ((route_spec ''vless'')\<lparr>n_DefaultOutboundTag := ''us''\<rparr>) [] route_users) = ''wg'' \<and>
   sb_decide demo_hit ''b'' (sb_buildRoutesForUsers demo_senv rev ((route_spec ''vless'')\<lparr>n_DefaultOutboundTag := ''us''\<rparr>) [] route_users) = ''direct''"
proof -
  let ?nc = "(route_spec ''vless'')\<lparr>n_DefaultOutboundTag := ''us''\<rparr>"
  have spec: "n_RouteProfiles ?nc = Some demo_profiles" and wf: "wf_map demo_profiles" and ne: "demo_profiles \<noteq> []"
    and users: "route_users ! 0 \<in> set route_users" "route_users ! 1 \<in> set route_users" "distinct (map UUID route_users)"
      "UUID (route_users ! 0) = ''a''" "UUID (route_users ! 1) = ''b''"
    by (simp_all add: route_spec_def demo_profiles_def route_users_def wf_map_def)
  have eval: "(case sb_pick demo_hit (UUID (route_users ! i))
        (map AnyMap sb_private_rules @
         map AnyMap (case map_of demo_profiles (userScope (route_users ! i)) of None \<Rightarrow> [] | Some p \<Rightarrow> sb_own_rules p) @
         sb_raw_rules demo_senv [] @ map AnyMap (concat (map sb_compilePanelRouteRule (elems (n_Routes ?nc))))) of
       Some t \<Rightarrow> t | None \<Rightarrow> ''direct'') = (if i = 0 then ''wg'' else ''direct'')" if "i = 0 \<or> i = 1" for i :: nat
    using that by (elim disjE) (simp, code_simp)+
  show ?thesis
    using singbox_scopes_isolated [OF range_order_rev spec wf ne users(1,3), of demo_hit demo_senv "[]"]
      singbox_scopes_isolated [OF range_order_rev spec wf ne users(2,3), of demo_hit demo_senv "[]"] eval [of 0] eval [of 1]
    by (simp add: users(4,5) del: One_nat_def)
qed

section \<open>User names\<close>

definition buildUserMap :: "UserSpec list \<Rightarrow> (string, int) gomap" where
  "buildUserMap users = mbuild UUID ID users"

text \<open>The names and secrets of the user list of an inbound.\<close>

definition sb_entry :: "any \<Rightarrow> string \<times> string" where
  "sb_entry e =
     (case e of
        AnyMap m \<Rightarrow>
          (if mhas m ''name'' then string_at m ''name'' else string_at m ''username'',
           if mhas m ''password'' then string_at m ''password''
           else if mhas m ''uuid'' then string_at m ''uuid'' else string_at m ''auth_str'')
      | _ \<Rightarrow> ([], []))"

definition sb_users :: "M \<Rightarrow> (string \<times> string) list" where
  "sb_users inb = (case map_of inb ''users'' of Some (AnyList es) \<Rightarrow> map sb_entry es | _ \<Rightarrow> [])"

definition sb_protocols :: "string list" where
  "sb_protocols = [''shadowsocks'', ''vmess'', ''vless'', ''trojan'', ''hysteria'', ''tuic'', ''anytls'', ''naive'', ''socks'', ''http'', ''mieru'']"

definition sb_name :: "NodeSpec \<Rightarrow> UserSpec \<Rightarrow> string" where
  "sb_name nc u = (if n_Protocol nc = ''naive'' then FormatInt (ID u) else UUID u)"

lemma sb_users_cong: "map_of a ''users'' = map_of b ''users'' \<Longrightarrow> sb_users a = sb_users b"
  by (simp add: sb_users_def)

lemma sb_users_put [simp]: "k \<noteq> ''users'' \<Longrightarrow> sb_users (mput k v inb) = sb_users inb"
  by (rule sb_users_cong) (simp add: map_of_mput)

lemma sb_users_tls [simp]: "sb_users (put_tls tls inb) = sb_users inb"
  by (simp add: put_tls_def split: option.split)

lemma sb_users_stream [simp]: "sb_users (sb_stream inb nc) = sb_users inb"
  by (simp add: sb_stream_def applyProxyProtocol_def applyTransport_def applyMultiplex_def split: option.split)

lemma sb_users_proxy [simp]: "sb_users (applyProxyProtocol inb nc) = sb_users inb"
  by (simp add: applyProxyProtocol_def)

lemma sb_users_start [simp]: "sb_users (sb_start ty f users inb) = map (\<lambda>u. sb_entry (AnyMap (f u))) users"
  by (simp add: sb_start_def sb_users_def map_of_mput comp_def)

lemmas sb_builders = sb_buildMieru_def sb_buildShadowsocks_def sb_buildVMess_def sb_buildVLESS_def sb_buildTrojan_def
  sb_buildHysteria_def sb_buildTUIC_def sb_buildAnyTLS_def sb_buildNaive_def sb_buildSocks_def sb_buildHTTP_def

lemma sb_inbound_users:
  "case sb_buildInbound se nc users tc of
     None \<Rightarrow> n_Protocol nc \<notin> set sb_protocols
   | Some inb \<Rightarrow> n_Protocol nc \<in> set sb_protocols \<and> sb_users inb = map (\<lambda>u. (sb_name nc u, user_cred nc u)) users"
proof (cases "n_Protocol nc \<in> set sb_protocols")
  case True
  then consider "n_Protocol nc = ''shadowsocks''" | "n_Protocol nc = ''vmess''" | "n_Protocol nc = ''vless''" | "n_Protocol nc = ''trojan''"
    | "n_Protocol nc = ''hysteria''" | "n_Protocol nc = ''tuic''" | "n_Protocol nc = ''anytls''" | "n_Protocol nc = ''naive''"
    | "n_Protocol nc = ''socks''" | "n_Protocol nc = ''http''" | "n_Protocol nc = ''mieru''"
    by (auto simp: sb_protocols_def)
  then show ?thesis
    by cases (simp_all add: sb_buildInbound_def sb_protocols_def Let_def sb_builders sb_entry_def sb_name_password_def sb_login_def
      string_at_def sb_name_def user_cred_def mhas_def)
next
  case False
  then show ?thesis by (auto simp: sb_buildInbound_def sb_protocols_def Let_def)
qed

text \<open>
  For each of its eleven protocols the sing-box kernel generates an inbound that lists exactly the
  users of the node in their order, each with its own secret (the derived key for Shadowsocks 2022, the
  UUID otherwise), and for no other protocol; the name a connection is accounted to is the UUID, except
  for Naive, where it is the decimal user ID.
\<close>

lemma singbox_inbound_users:
  "case sb_buildInbound se nc users tc of
     None \<Rightarrow> n_Protocol nc \<notin> set sb_protocols
   | Some inb \<Rightarrow> n_Protocol nc \<in> set sb_protocols \<and> sb_users inb = map (\<lambda>u. (sb_name nc u, user_cred nc u)) users"
  by (rule sb_inbound_users)

lemma buildUserMap_of: "distinct (map UUID users) \<Longrightarrow> u \<in> set users \<Longrightarrow> map_of (buildUserMap users) (UUID u) = Some (ID u)"
  by (simp add: buildUserMap_def mbuild_distinct map_of_eq_Some_iff comp_def)

lemma buildUserMap_None: "map_of (buildUserMap users) n = None \<longleftrightarrow> n \<notin> UUID ` set users"
  by (simp add: buildUserMap_def map_of_eq_None_iff dom_mbuild)

text \<open>
  The names the inbound authenticates with are looked up in the map from UUIDs to users to account
  traffic and enforce limits. For every protocol but Naive each name leads to its own user. For Naive no
  name leads to any user (unless a UUID happens to be a decimal number in the user's place), so its
  traffic is accounted to user 0 and neither counted nor limited for the user.
\<close>

lemma singbox_users_resolve:
  assumes "distinct (map UUID users)" and "sb_buildInbound se nc users tc = Some inb" and "i < length users"
  shows "if n_Protocol nc = ''naive''
    then FormatInt (ID (users ! i)) \<notin> UUID ` set users \<longrightarrow> map_of (buildUserMap users) (fst (sb_users inb ! i)) = None
    else map_of (buildUserMap users) (fst (sb_users inb ! i)) = Some (ID (users ! i))"
proof -
  have "sb_users inb = map (\<lambda>u. (sb_name nc u, user_cred nc u)) users"
    using sb_inbound_users [where se = se and nc = nc and users = users and tc = tc] assms(2) by simp
  with assms(3) have "fst (sb_users inb ! i) = sb_name nc (users ! i)" and "users ! i \<in> set users" by simp_all
  then show ?thesis
    using buildUserMap_of [OF assms(1)] by (simp add: sb_name_def buildUserMap_None)
qed

theorem singbox_users_resolve_witness:
  "map_of (buildUserMap route_users) (fst (sb_users (sb_buildVMess (sb_inbound_base (route_spec ''vmess'')) (route_spec ''vmess'') route_users ([], [])) ! 1)) = Some 2 \<and>
   map_of (buildUserMap route_users) (fst (sb_users (sb_buildNaive (sb_inbound_base (route_spec ''naive'')) (route_spec ''naive'') route_users ([], [])) ! 1)) = None"
proof -
  have users: "distinct (map UUID route_users)" "1 < length route_users" "ID (route_users ! 1) = 2"
      "FormatInt 2 \<notin> UUID ` set route_users"
    by (code_simp)+
  have protocol: "n_Protocol (route_spec p) = p" for p by (simp add: route_spec_def)
  have inb: "sb_buildInbound demo_senv (route_spec ''vmess'') route_users ([], []) =
      Some (sb_buildVMess (sb_inbound_base (route_spec ''vmess'')) (route_spec ''vmess'') route_users ([], []))"
    "sb_buildInbound demo_senv (route_spec ''naive'') route_users ([], []) =
      Some (sb_buildNaive (sb_inbound_base (route_spec ''naive'')) (route_spec ''naive'') route_users ([], []))"
    by (simp_all add: sb_buildInbound_def Let_def protocol)
  show ?thesis
    using singbox_users_resolve [OF users(1) inb(1) users(2)] singbox_users_resolve [OF users(1) inb(2) users(2)] users(3,4)
    by (simp add: protocol del: One_nat_def)
qed

section \<open>What a custom configuration file can change\<close>

definition sb_base_config ::
  "senv \<Rightarrow> ((string \<times> RouteProfile) list \<Rightarrow> (string \<times> RouteProfile) list) \<Rightarrow> KernelConfig \<Rightarrow> NodeSpec \<Rightarrow> UserSpec list \<Rightarrow> TLSCert \<Rightarrow> M" where
  "sb_base_config se rng kcfg nc users tc = sb_buildConfig se rng (kcfg\<lparr>kc_CustomConfig := []\<rparr>) nc users tc"

lemma sb_merge_route_map_other: "k \<noteq> ''route'' \<Longrightarrow> map_of (mergeCustomSingboxRoute cfg cr) k = map_of cfg k"
  by (simp only: mergeCustomSingboxRoute_def Let_def map_of_mput if_False)

lemma sb_merge_other:
  "k \<noteq> ''endpoints'' \<Longrightarrow> map_of (sb_merge_endpoints custom cfg) k = map_of cfg k"
  "k \<noteq> ''route'' \<Longrightarrow> map_of (sb_merge_route custom cfg) k = map_of cfg k"
  "k \<noteq> k' \<Longrightarrow> map_of (copy_key custom k1 k' f cfg) k = map_of cfg k"
  by (simp_all add: sb_merge_endpoints_def sb_merge_route_def sb_merge_route_map_other copy_key_def Let_def map_of_mput
      split: option.split any.split)

lemma sb_buildConfig_merge:
  "sb_buildConfig se rng kcfg nc users tc = mergeCustomSingbox (se_k se) (sb_base_config se rng kcfg nc users tc) kcfg"
proof -
  have "mergeCustomSingbox (se_k se) c (kcfg\<lparr>kc_CustomConfig := []\<rparr>) = c" for c
    by (simp add: mergeCustomSingbox_def LoadCustomConfig_def)
  then show ?thesis
    by (simp add: sb_base_config_def sb_buildConfig_def Let_def sb_outbounds_def xray_tags_def)
qed

text \<open>
  Whatever the operator's custom configuration file holds, the inbounds (with their users) and the log
  section sing-box gets are the generated ones, and the outbounds are the generated ones with those of
  the file appended.
\<close>

lemma singbox_custom_file_bounded:
  "map_of (sb_buildConfig se rng kcfg nc users tc) ''inbounds'' = inbound_part (sb_buildInbound se nc users tc) \<and>
   map_of (sb_buildConfig se rng kcfg nc users tc) ''log'' = map_of (sb_base_config se rng kcfg nc users tc) ''log'' \<and>
   map_of (sb_buildConfig se rng kcfg nc users tc) ''outbounds'' =
     Some (AnyList (sb_outbounds kcfg nc @ map AnyMap (custom_outbounds (se_k se) kcfg)))"
proof -
  let ?b = "sb_base_config se rng kcfg nc users tc"
  have none: "mergeCustomSingbox (se_k se) c (kcfg\<lparr>kc_CustomConfig := []\<rparr>) = c" for c
    by (simp add: mergeCustomSingbox_def LoadCustomConfig_def)
  have base: "map_of ?b ''inbounds'' = inbound_part (sb_buildInbound se nc users tc)"
    "map_of ?b ''outbounds'' = Some (AnyList (sb_outbounds kcfg nc))"
    by (simp_all add: sb_base_config_def sb_buildConfig_def none Let_def map_of_mput inbound_part_def sb_outbounds_def xray_tags_def
        split: option.split)
  have "map_of (mergeCustomSingbox (se_k se) ?b kcfg) k = map_of ?b k" if "k = ''inbounds'' \<or> k = ''log''" for k
  proof -
    have "k \<noteq> ''endpoints'' \<and> k \<noteq> ''route'' \<and> k \<noteq> ''experimental'' \<and> k \<noteq> ''dns'' \<and> k \<noteq> ''outbounds''" using that by auto
    then show ?thesis by (simp add: mergeCustomSingbox_def sb_merge_other merge_other split: sum.split option.split)
  qed
  moreover have "map_of (mergeCustomSingbox (se_k se) ?b kcfg) ''outbounds'' =
      Some (AnyList (sb_outbounds kcfg nc @ map AnyMap (custom_outbounds (se_k se) kcfg)))"
  proof (cases "\<exists>custom. LoadCustomConfig (se_k se) (kc_CustomConfig kcfg) = Inr (Some custom)")
    case True
    then obtain custom where custom: "LoadCustomConfig (se_k se) (kc_CustomConfig kcfg) = Inr (Some custom)" by blast
    have "map_of (copy_key custom ''experimental'' ''experimental'' id (merge_dns custom ?b)) ''outbounds'' = Some (AnyList (sb_outbounds kcfg nc))"
      by (simp add: sb_merge_other merge_other base)
    from merge_outbounds_self [OF this] show ?thesis
      by (simp add: mergeCustomSingbox_def custom sb_merge_other custom_outbounds_def custom_doc_def)
  next
    case False
    then have "mergeCustomSingbox (se_k se) ?b kcfg = ?b" and "custom_outbounds (se_k se) kcfg = []"
      by (auto simp: mergeCustomSingbox_def custom_outbounds_def custom_doc_def split: sum.split option.split)
    then show ?thesis by (simp add: base)
  qed
  ultimately show ?thesis unfolding sb_buildConfig_merge [of se rng kcfg] using base by simp
qed

end
