(* ===== verification/Targets.thy ===== *)
theory Targets
  imports SingboxRouting
begin

text \<open>
  Validation (\<^verbatim>\<open>internal/model\<close>) against the configuration generators (\<^verbatim>\<open>internal/kernel\<close>): the outbound a
  validated rule, profile or default names is one of the outbounds of the generated document, up to case
  and surrounding white space, which is as far as the agreement goes.
\<close>

section \<open>Where validation and the generators disagree\<close>

definition mixed_case_spec :: NodeSpec where
  "mixed_case_spec = (route_spec ''vless'')\<lparr>n_RouteProfiles := None,
     n_CustomOutbounds := Some [\<lparr>ob_Tag = ''Direct'', ob_Protocol = ''socks'', ob_Settings = Some [(''server'', AnyString ''192.0.2.1'')], ob_ProxyTag = []\<rparr>]\<rparr>"

definition ob_tags :: "any list \<Rightarrow> string list" where
  "ob_tags obs = map (\<lambda>v. case v of AnyMap m \<Rightarrow> string_at m ''tag'' | _ \<Rightarrow> []) obs"

text \<open>
  An outbound tagged \<^verbatim>\<open>Direct\<close> passes validation and replaces the built-in \<^verbatim>\<open>direct\<close> outbound, but the default
  rule still sends traffic to \<^verbatim>\<open>direct\<close>, which no outbound of the document is called.
\<close>

lemma mixed_case_direct_lost:
  "ValidateNodeSpec (\<lambda>_. FileMissing) (\<lambda>_ _. None) (Some mixed_case_spec) route_kcfg = Inr () \<and>
   out_tag (last (config_rules (fst (xray_buildConfig demo_kenv id route_kcfg mixed_case_spec route_users ([], []))))) = ''direct'' \<and>
   ''direct'' \<notin> set (ob_tags (xray_outbounds route_kcfg mixed_case_spec))"
proof (intro conjI)
  show "ValidateNodeSpec (\<lambda>_. FileMissing) (\<lambda>_ _. None) (Some mixed_case_spec) route_kcfg = Inr ()" by code_simp
  show "out_tag (last (config_rules (fst (xray_buildConfig demo_kenv id route_kcfg mixed_case_spec route_users ([], []))))) = ''direct''"
    by code_simp
  show "''direct'' \<notin> set (ob_tags (xray_outbounds route_kcfg mixed_case_spec))" by code_simp
qed

definition shouted_rule :: CustomRouteRule where
  "shouted_rule = demo_rule ''full:a.example'' \<lparr>a_Type = ''Direct'', a_Target = []\<rparr>"

text \<open>An action type in upper case passes validation and is compiled to \<^verbatim>\<open>block\<close> by both kernels.\<close>

lemma action_case_blocks:
  "ValidateCustomRouteRules (Some [shouted_rule]) ''xray'' (Some [''direct'', ''block'']) = Inr () \<and>
   map out_tag (map AnyMap (xray_compileCustomRouteRule shouted_rule)) = [''block''] \<and>
   map sb_tag (map AnyMap (sb_compileCustomRouteRule shouted_rule)) = [''block'']"
proof (intro conjI)
  show "ValidateCustomRouteRules (Some [shouted_rule]) ''xray'' (Some [''direct'', ''block'']) = Inr ()" by code_simp
  show "map out_tag (map AnyMap (xray_compileCustomRouteRule shouted_rule)) = [''block'']" by code_simp
  show "map sb_tag (map AnyMap (sb_compileCustomRouteRule shouted_rule)) = [''block'']" by code_simp
qed

definition blank_port_rule :: CustomRouteRule where
  "blank_port_rule = (demo_rule ''a.example'' \<lparr>a_Type = ''block'', a_Target = []\<rparr>)
     \<lparr>cr_Match := empty_match\<lparr>m_Domains := Some [''a.example''], m_Ports := Some ['' '']\<rparr>\<rparr>"

text \<open>A blank port passes validation, and the sing-box rule compiled for the ports has no condition at all.\<close>

lemma blank_port_unconditional:
  "ValidateCustomRouteRules (Some [blank_port_rule]) ''singbox'' (Some [''direct'', ''block'']) = Inr () \<and>
   [(''outbound'', AnyString ''block'')] \<in> set (sb_compileCustomRouteRule blank_port_rule)"
proof (intro conjI)
  show "ValidateCustomRouteRules (Some [blank_port_rule]) ''singbox'' (Some [''direct'', ''block'']) = Inr ()" by code_simp
  show "[(''outbound'', AnyString ''block'')] \<in> set (sb_compileCustomRouteRule blank_port_rule)" by code_simp
qed

definition disabled_profile :: RouteProfile where
  "disabled_profile = \<lparr>rp_CustomRouteRules = Some [(demo_rule ''full:a.example'' \<lparr>a_Type = ''route'', a_Target = ''gone''\<rparr>)\<lparr>cr_Disabled := True\<rparr>],
     rp_DefaultOutboundTag = [], rp_CustomOutbounds = None\<rparr>"

definition disabled_spec :: NodeSpec where
  "disabled_spec = (route_spec ''vless'')\<lparr>n_RouteProfiles := Some [(''member'', disabled_profile)]\<rparr>"

text \<open>
  Validation skips a disabled rule of a route profile, whose target need not exist; sing-box leaves the rule
  out, Xray compiles it and sends the traffic to the missing outbound.
\<close>

lemma disabled_profile_rule_active:
  "ValidateNodeSpec (\<lambda>_. FileMissing) (\<lambda>_ _. None) (Some disabled_spec) route_kcfg = Inr () \<and>
   xray_pick demo_cond (userEmail 2) (rules_of (xray_buildRoutingForUsers id disabled_spec [] route_users)) = Some ''gone'' \<and>
   ''gone'' \<notin> set (ob_tags (xray_outbounds route_kcfg disabled_spec)) \<and>
   sb_compileCustomRouteRule (hd (elems (rp_CustomRouteRules disabled_profile))) = []"
proof (intro conjI)
  show "ValidateNodeSpec (\<lambda>_. FileMissing) (\<lambda>_ _. None) (Some disabled_spec) route_kcfg = Inr ()" by code_simp
  show "xray_pick demo_cond (userEmail 2) (rules_of (xray_buildRoutingForUsers id disabled_spec [] route_users)) = Some ''gone''"
    by code_simp
  show "''gone'' \<notin> set (ob_tags (xray_outbounds route_kcfg disabled_spec))" by code_simp
  show "sb_compileCustomRouteRule (hd (elems (rp_CustomRouteRules disabled_profile))) = []" by code_simp
qed

text \<open>A panel rule for a \<^verbatim>\<open>geosite\<close> category becomes a domain suffix that no domain has.\<close>

lemma geosite_as_suffix:
  "sb_compilePanelRouteRule \<lparr>rr_ID = 1, rr_Match = Some [''geosite:cn''], rr_Action = ''block'', rr_ActionValue = []\<rparr> =
     [[(''domain_suffix'', any_strings [''geosite:cn'']), (''outbound'', AnyString ''block'')]]"
  by code_simp

definition warp_rule :: CustomRouteRule where
  "warp_rule = (demo_rule [] \<lparr>a_Type = ''route'', a_Target = ''warp-out''\<rparr>)
     \<lparr>cr_Match := empty_match\<lparr>m_IPCIDRs := Some [''1.1.1.0/24''], m_Ports := Some [''80'', ''443'']\<rparr>\<rparr>"

text \<open>
  The conditions of one rule are alternatives in both kernels: the documented example for some ports of one
  range (\<^verbatim>\<open>docs-custom-routes.md\<close>) redirects these ports everywhere and every port of the range.
\<close>

lemma conditions_alternative:
  "xray_compileCustomRouteRule warp_rule =
     [xray_field ''ip'' (any_strings [''1.1.1.0/24'']) ''warp-out'', xray_field ''port'' (AnyString ''80,443'') ''warp-out''] \<and>
   sb_compileCustomRouteRule warp_rule =
     [[(''ip_cidr'', any_strings [''1.1.1.0/24'']), (''outbound'', AnyString ''warp-out'')],
      [(''outbound'', AnyString ''warp-out''), (''port'', AnyList [AnyInt 80, AnyInt 443])]]"
  by code_simp

section \<open>Lower case and white space\<close>

definition letterless :: "string \<Rightarrow> bool" where
  "letterless p \<longleftrightarrow> list_all (\<lambda>c. \<not> is_upper c \<and> \<not> is_lower c) p"

lemma lower_char_eq: "\<not> is_upper d \<Longrightarrow> \<not> is_lower d \<Longrightarrow> lower_char c = d \<longleftrightarrow> c = d"
proof (cases "is_upper c")
  case True
  then have "is_lower (lower_char c)"
    by (simp add: lower_char_def is_upper_def is_lower_def of_char_of take_bit_eq_mod)
  moreover assume "\<not> is_upper d" "\<not> is_lower d"
  ultimately show ?thesis using True by auto
qed (simp add: lower_char_def)

lemma prefix_lower: "letterless p \<Longrightarrow> prefix p (map lower_char s) \<longleftrightarrow> prefix p s"
proof (induction p arbitrary: s)
  case (Cons d p)
  then have "\<not> is_upper d" "\<not> is_lower d" "letterless p" by (simp_all add: letterless_def)
  then have "d = lower_char c \<longleftrightarrow> d = c" for c using lower_char_eq [of d c] by auto
  then show ?case using Cons.IH [OF \<open>letterless p\<close>] by (cases s) simp_all
qed simp

lemma lead_lower: "list_all letterless ps \<Longrightarrow> lead ps (map lower_char s) = lead ps s"
  by (induction ps) (auto simp: prefix_lower)

lemma strip_lower: "list_all letterless ps \<Longrightarrow> strip ps (map lower_char s) = map lower_char (strip ps s)"
proof (induction ps s rule: strip.induct)
  case (1 ps s)
  show ?case
  proof (cases "0 < lead ps s \<and> s \<noteq> []")
    case True
    with 1 show ?thesis
      by (simp add: strip.simps [of ps s] strip.simps [of ps "map lower_char s"] lead_lower drop_map)
  next
    case False
    with "1.prems" show ?thesis
      by (auto simp: strip.simps [of ps s] strip.simps [of ps "map lower_char s"] lead_lower)
  qed
qed

lemma TrimSpace_ToLower: "TrimSpace (ToLower s) = ToLower (TrimSpace s)"
proof -
  have "list_all letterless space_runes" and "list_all letterless (map rev space_runes)" by code_simp+
  then show ?thesis by (simp add: TrimSpace_def ToLower_def strip_lower rev_map)
qed

lemma tagkey_trim: "tagkey (TrimSpace t) = tagkey t"
  by (simp add: tagkey_def TrimSpace_idem)

lemma tagkey_of_lower: "ToLower t = s \<Longrightarrow> TrimSpace s = s \<Longrightarrow> tagkey t = s"
  by (metis tagkey_def TrimSpace_ToLower)

lemma tagkey_words: "tagkey ''direct'' = ''direct''" "tagkey ''block'' = ''block''" "tagkey ''route'' = ''route''"
  by code_simp+

section \<open>Validated targets exist\<close>

lemma ob_tags_append [simp]: "ob_tags (xs @ ys) = ob_tags xs @ ob_tags ys"
  by (simp add: ob_tags_def)

lemma ob_tags_xray: "ob_tags (map (\<lambda>co. AnyMap (outboundConfigToXray co)) cos) = map ob_Tag cos"
  by (simp add: ob_tags_def outboundConfigToXray_def string_at_def comp_def)

lemma ob_tags_raw: "ob_tags (map of_map cos) = map raw_tag cos"
  by (auto simp: ob_tags_def of_map_def raw_tag_def string_at_def comp_def split: option.split any.split)

lemma ob_tags_Cons: "ob_tags (AnyMap m # xs) = string_at m ''tag'' # ob_tags xs"
  by (simp add: ob_tags_def)

lemma ob_tags_Nil [simp]: "ob_tags [] = []"
  by (simp add: ob_tags_def)

lemma set_xray_outbounds:
  "set (ob_tags (xray_outbounds kcfg nc)) =
     ob_Tag ` set (elems (n_CustomOutbounds nc)) \<union> raw_tag ` set (kc_CustomOutbound kcfg) \<union>
     (if ''direct'' \<notin> set (xray_tags kcfg nc) then {''direct''} else {}) \<union>
     (if ''block'' \<notin> set (xray_tags kcfg nc) then {''block''} else {})"
  by (simp add: xray_outbounds_def Let_def ob_tags_xray ob_tags_raw ob_tags_Cons string_at_def Un_ac)

lemma xray_tags_tag:
  assumes "w \<in> set (xray_tags kcfg nc)" and "TrimSpace w = w"
  shows "w \<in> tagkey ` set (ob_tags (xray_outbounds kcfg nc))"
proof -
  obtain t where t: "t \<in> ob_Tag ` set (elems (n_CustomOutbounds nc)) \<union> raw_tag ` set (kc_CustomOutbound kcfg)" "ToLower t = w"
    using assms(1) by (auto simp: xray_tags_def)
  then have "tagkey t = w" using tagkey_of_lower assms(2) by blast
  moreover have "t \<in> set (ob_tags (xray_outbounds kcfg nc))" using t by (auto simp: set_xray_outbounds)
  ultimately show ?thesis by blast
qed

lemma xray_builtin_tags: "{''direct'', ''block''} \<subseteq> tagkey ` set (ob_tags (xray_outbounds kcfg nc))"
proof -
  have trim: "TrimSpace ''direct'' = ''direct''" "TrimSpace ''block'' = ''block''" by code_simp+
  have "w \<in> tagkey ` set (ob_tags (xray_outbounds kcfg nc))" if "w = ''direct'' \<or> w = ''block''" for w
  proof (cases "w \<in> set (xray_tags kcfg nc)")
    case True
    then show ?thesis using that trim xray_tags_tag by blast
  next
    case False
    then have "w \<in> set (ob_tags (xray_outbounds kcfg nc))" using that by (auto simp: set_xray_outbounds)
    moreover have "tagkey w = w" using that tagkey_words by auto
    ultimately show ?thesis by force
  qed
  then show ?thesis by simp
qed

lemma tag_sources_tags: "tagset (map ts_Tag (tag_sources pre i ms)) \<subseteq> tagkey ` (\<lambda>m. string_at m ''tag'') ` set ms"
proof (induction ms arbitrary: i)
  case (Cons m ms)
  have "tagkey (tag_string m) = tagkey (string_at m ''tag'')"
    by (auto simp: tag_string_def string_at_def tagkey_trim split: option.split any.split)
  then show ?case using Cons.IH [of "Suc i"] by (auto simp: tagset_Cons)
qed (simp add: tagset_def)

text \<open>The tags validation knows are tags of the document.\<close>

lemma source_tags_exist:
  assumes "collectAdditionalOutboundTagSources (ke_readFile ke) (ke_parseDoc ke) (kc_CustomConfig kcfg) (kc_CustomOutbound kcfg) = Inr sources"
  shows "tagset (map ts_Tag sources) \<subseteq>
    tagkey ` (raw_tag ` set (kc_CustomOutbound kcfg) \<union> (\<lambda>m. string_at m ''tag'') ` set (custom_outbounds ke kcfg))"
proof -
  obtain cs where cs: "collectCustomConfigOutboundTagSources (ke_readFile ke) (ke_parseDoc ke) (kc_CustomConfig kcfg) = Inr cs"
    and sources: "sources = collectRawOutboundTagSources (kc_CustomOutbound kcfg) @ cs"
    using assms by (auto simp: collectAdditionalOutboundTagSources_def Let_def split: sum.splits)
  have "cs = [] \<or> cs = tag_sources ''kernel.custom_config.outbounds'' 0 (custom_outbounds ke kcfg)"
  proof (cases "cs = []")
    case False
    then show ?thesis
      using cs
      by (auto simp: collectCustomConfigOutboundTagSources_def custom_outbounds_def custom_doc_def LoadCustomConfig_def Let_def
          split: if_splits file_result.splits option.splits prod.splits)
  qed simp
  then have "tagset (map ts_Tag cs) \<subseteq> tagkey ` (\<lambda>m. string_at m ''tag'') ` set (custom_outbounds ke kcfg)"
    using tag_sources_tags by (elim disjE) (simp add: tagset_def, metis)
  moreover have "raw_tag ` set (kc_CustomOutbound kcfg) = (\<lambda>m. string_at m ''tag'') ` set (map elems (kc_CustomOutbound kcfg))"
    by (simp add: raw_tag_def string_at_def image_image)
  then have "tagset (map ts_Tag (collectRawOutboundTagSources (kc_CustomOutbound kcfg))) \<subseteq> tagkey ` raw_tag ` set (kc_CustomOutbound kcfg)"
    using tag_sources_tags unfolding collectRawOutboundTagSources_def by metis
  ultimately show ?thesis
    unfolding sources map_append tagset_append image_Un by (rule Un_mono [rotated])
qed

lemma known_tags_exist:
  assumes "collectAdditionalOutboundTagSources (ke_readFile ke) (ke_parseDoc ke) (kc_CustomConfig kcfg) (kc_CustomOutbound kcfg) = Inr sources"
  shows "known_tags (elems (n_CustomOutbounds nc)) (map ts_Tag sources) \<subseteq>
    tagkey ` set (ob_tags (xray_outbounds kcfg nc @ map AnyMap (custom_outbounds ke kcfg)))"
proof -
  let ?doc = "set (ob_tags (xray_outbounds kcfg nc))"
  have "tagset (map ob_Tag (elems (n_CustomOutbounds nc))) \<subseteq> tagkey ` ob_Tag ` set (elems (n_CustomOutbounds nc))"
    by (auto simp: tagset_def)
  moreover have files: "set (ob_tags (map AnyMap ms)) = (\<lambda>m. string_at m ''tag'') ` set ms" for ms
    by (simp add: ob_tags_def image_image)
  moreover have "ob_Tag ` set (elems (n_CustomOutbounds nc)) \<subseteq> ?doc" and "raw_tag ` set (kc_CustomOutbound kcfg) \<subseteq> ?doc"
    by (auto simp: set_xray_outbounds)
  ultimately have "tagset (map ob_Tag (elems (n_CustomOutbounds nc))) \<subseteq> tagkey ` ?doc"
    and "tagset (map ts_Tag sources) \<subseteq> tagkey ` (?doc \<union> (\<lambda>m. string_at m ''tag'') ` set (custom_outbounds ke kcfg))"
    using source_tags_exist [OF assms] by (meson image_mono subset_trans, meson image_mono Un_mono subset_refl subset_trans)
  then show ?thesis
    using xray_builtin_tags [of kcfg nc] files [of "custom_outbounds ke kcfg"]
    unfolding known_tags_def ob_tags_append set_append image_Un by auto
qed

lemma action_target:
  assumes "action_ok tags act" and "{''direct'', ''block''} \<subseteq> tags"
  shows "tagkey (xrayOutboundForAction act) \<in> tags"
  using assms tagkey_words by (auto simp: action_ok_def xrayOutboundForAction_def)

lemma compiled_tag: "r \<in> set (xray_compileCustomRouteRule rule) \<Longrightarrow> out_tag (AnyMap r) = xrayOutboundForAction (cr_Action rule)"
  using compiled_rule field_key(3) by (fastforce simp: xray_field_def out_tag_def string_at_def)

lemma default_tag: "out_tag (AnyMap (xray_default_rule t)) = t"
  by (simp add: xray_default_rule_def xray_field_def out_tag_def string_at_def)

lemma private_tag: "out_tag (AnyMap private_rule) = ''block''"
  by (simp add: private_rule_def xray_field_def out_tag_def string_at_def)

lemma profile_tag:
  assumes "r \<in> set (xray_profile_rules users (s, p))"
  shows "(\<exists>rule \<in> set (elems (rp_CustomRouteRules p)). out_tag (AnyMap r) = xrayOutboundForAction (cr_Action rule)) \<or>
    (TrimSpace (rp_DefaultOutboundTag p) \<noteq> [] \<and> out_tag (AnyMap r) = TrimSpace (rp_DefaultOutboundTag p))"
proof -
  let ?es = "scope_emails s users"
  consider (rule) rule c where "rule \<in> set (elems (rp_CustomRouteRules p))" "c \<in> set (xray_compileCustomRouteRule rule)"
        "r = mput ''user'' (any_strings ?es) c"
    | (default) "TrimSpace (rp_DefaultOutboundTag p) \<noteq> []" "r = [(''type'', AnyString ''field''), (''user'', any_strings ?es),
        (''network'', AnyString ''tcp,udp''), (''outboundTag'', AnyString (TrimSpace (rp_DefaultOutboundTag p)))]"
    using assms by (auto simp: xray_profile_rules_def xray_scoped_def Let_def simp del: AList.update.simps split: if_splits)
  then show ?thesis
  proof cases
    case rule
    then have "c \<in> set (concat (map xray_compileCustomRouteRule [rule]))" by simp
    from compiled_user(2) [OF this] rule compiled_tag show ?thesis by metis
  qed (simp add: out_tag_def string_at_def)
qed

lemma trim_effective: "TrimSpace (effectiveDefaultOutboundTag v) = effectiveDefaultOutboundTag v"
proof -
  have "TrimSpace ''direct'' = ''direct''" by code_simp
  then show ?thesis by (simp add: effectiveDefaultOutboundTag_def TrimSpace_idem)
qed

lemma effective_tag:
  assumes "tagkey t = [] \<or> tagkey t \<in> tags" and "''direct'' \<in> tags"
  shows "tagkey (effectiveDefaultOutboundTag t) \<in> tags"
  using assms tagkey_words(1) by (auto simp: effectiveDefaultOutboundTag_def tagkey_trim simp flip: tagkey_nonblank)

text \<open>
  C16. In the Xray configuration generated for a node that passed validation, every routing rule that
  comes from the structured custom rules, the route profiles and the defaults sends traffic to an outbound
  of the same document (comparing tags without case and surrounding space, as validation does), provided
  no rule of a profile is disabled: the disabled ones are not validated, but compiled.
\<close>

theorem validated_targets_exist:
  assumes "ValidateNodeSpec (ke_readFile ke) (ke_parseDoc ke) (Some nc) kcfg = Inr ()"
    and "\<forall>p \<in> snd ` set (elems (n_RouteProfiles nc)). \<forall>rule \<in> set (elems (rp_CustomRouteRules p)). \<not> cr_Disabled rule"
    and "range_order rng"
    and "r \<in> set (config_rules (fst (xray_buildConfig ke rng kcfg nc users tc)))"
    and "r \<notin> AnyMap ` set (custom_rules ke kcfg)" and "r \<notin> of_map ` set (raw_rules kcfg nc)"
    and "r \<notin> AnyMap ` set (concat (map xray_compilePanelRouteRule (elems (n_Routes nc))))"
  shows "tagkey (out_tag r) \<in> tagkey ` set (ob_tags (xray_outbounds kcfg nc @ map AnyMap (custom_outbounds ke kcfg)))"
proof -
  obtain k sources where
    sources: "collectAdditionalOutboundTagSources (ke_readFile ke) (ke_parseDoc ke) (kc_CustomConfig kcfg) (kc_CustomOutbound kcfg) = Inr sources"
    and ok: "node_ok k sources nc"
    using assms(1) by (auto simp: ValidateNodeSpec_node_ok)
  define tags where "tags = known_tags (elems (n_CustomOutbounds nc)) (map ts_Tag sources)"
  have words: "{''direct'', ''block''} \<subseteq> tags" by (simp add: tags_def known_tags_def)
  have rules: "\<And>rule. rule \<in> set (elems (n_CustomRouteRules nc)) \<Longrightarrow> rule_ok k tags rule"
    and profiles: "\<And>p. p \<in> snd ` set (elems (n_RouteProfiles nc)) \<Longrightarrow> profile_ok k tags p"
    and default: "tagkey (n_DefaultOutboundTag nc) = [] \<or> tagkey (n_DefaultOutboundTag nc) \<in> tags"
    using ok unfolding node_ok_def Let_def tags_def by blast+
  have target: "tagkey (xrayOutboundForAction (cr_Action rule)) \<in> tags" if "rule_ok k tags rule" "\<not> cr_Disabled rule" for rule
    using that words by (intro action_target) (simp_all add: rule_ok_def)
  have eff: "tagkey (effectiveDefaultOutboundTag (n_DefaultOutboundTag nc)) \<in> tags"
    using default words by (intro effective_tag) auto
  have "tagkey (out_tag r) \<in> tags"
  proof (cases "elems (n_RouteProfiles nc) = []")
    case True
    with assms(4-7) have "r = AnyMap private_rule \<or> r = AnyMap (xray_default_rule (effectiveDefaultOutboundTag (n_DefaultOutboundTag nc))) \<or>
        (\<exists>rule c. rule \<in> set (elems (n_CustomRouteRules nc)) \<and> \<not> cr_Disabled rule \<and> c \<in> set (xray_compileCustomRouteRule rule) \<and> r = AnyMap c)"
      by (auto simp: config_rules_build xray_buildRoutingForUsers_def xray_buildRouting_def xray_rules_def rules_of_def
          trim_effective Let_def split: if_splits)
    then show ?thesis
      using target rules eff words by (auto simp: private_tag default_tag compiled_tag tagkey_words)
  next
    case False
    with assms(4-7) range_order_set [OF assms(3)] have "r = AnyMap private_rule \<or> r = AnyMap (xray_default_rule (effectiveDefaultOutboundTag (n_DefaultOutboundTag nc))) \<or>
        (\<exists>s p c. (s, p) \<in> set (elems (n_RouteProfiles nc)) \<and> c \<in> set (xray_profile_rules users (s, p)) \<and> r = AnyMap c)"
      by (auto simp: config_rules_build rules_of_profiles)
    moreover have "tagkey (out_tag (AnyMap c)) \<in> tags"
      if "(s, p) \<in> set (elems (n_RouteProfiles nc))" "c \<in> set (xray_profile_rules users (s, p))" for s p c
    proof -
      have p: "p \<in> snd ` set (elems (n_RouteProfiles nc))" using that(1) by force
      with profiles have "profile_ok k tags p" by blast
      with profile_tag [OF that(2)] assms(2) p target show ?thesis
        by (auto simp: profile_ok_def tagkey_trim simp flip: tagkey_nonblank)
    qed
    ultimately show ?thesis
      using eff words by (auto simp: private_tag default_tag tagkey_words)
  qed
  then show ?thesis using known_tags_exist [OF sources, of nc] unfolding tags_def by blast
qed

theorem validated_targets_exist_witness:
  "tagkey (out_tag (AnyMap (xray_default_rule ''direct''))) \<in>
     tagkey ` set (ob_tags (xray_outbounds route_kcfg mixed_case_spec @ map AnyMap (custom_outbounds demo_kenv route_kcfg)))"
proof (rule validated_targets_exist [OF _ _ range_order_id])
  show "ValidateNodeSpec (ke_readFile demo_kenv) (ke_parseDoc demo_kenv) (Some mixed_case_spec) route_kcfg = Inr ()" by code_simp
  show "\<forall>p \<in> snd ` set (elems (n_RouteProfiles mixed_case_spec)). \<forall>rule \<in> set (elems (rp_CustomRouteRules p)). \<not> cr_Disabled rule"
    by code_simp
  show "AnyMap (xray_default_rule ''direct'') \<in>
      set (config_rules (fst (xray_buildConfig demo_kenv (\<lambda>xs. xs) route_kcfg mixed_case_spec route_users ([], []))))"
    by code_simp
  show "AnyMap (xray_default_rule ''direct'') \<notin> AnyMap ` set (custom_rules demo_kenv route_kcfg)" by code_simp
  show "AnyMap (xray_default_rule ''direct'') \<notin> of_map ` set (raw_rules route_kcfg mixed_case_spec)" by code_simp
  show "AnyMap (xray_default_rule ''direct'') \<notin>
      AnyMap ` set (concat (map xray_compilePanelRouteRule (elems (n_Routes mixed_case_spec))))" by code_simp
qed

end
