(* ===== verification/SingboxReload.thy ===== *)
theory SingboxReload
  imports SingboxRouting
begin

text \<open>
  The hot reload of the sing-box kernel (\<^verbatim>\<open>internal/kernel/singbox/reload.go\<close>): the outbounds of a new
  configuration are created with the ones they depend on first, obsolete ones are removed in the opposite
  order.

  An \<^verbatim>\<open>option.Outbound\<close> is its type, tag and options, the options in their JSON form. The recursive closure
  \<^verbatim>\<open>visit\<close> keeps a state per tag (1: being visited, 2: done) and a result; it is defined here with a bound
  on the depth of the recursion, \<open>None\<close> is the value when the bound is too small, and
  \<open>orderedOutbounds_returns\<close> shows that the number of outbounds is always enough. The outbound manager is
  code of sing-box: its operations are arguments.
\<close>

section \<open>Outbounds in dependency order\<close>

record Outbound =
  o_Type :: string
  o_Tag :: string
  o_Options :: M

datatype reload_error = Cyclic | BadOptions | MarshalFailed | CreateFailed string | RemoveFailed string

text \<open>
  The dependencies: the JSON fields \<^verbatim>\<open>outbounds\<close> (a list of strings) and \<^verbatim>\<open>detour\<close> (a string) of the options;
  a missing or null field and a null element are the zero value, another type is an error.
\<close>

definition json_string :: "any \<Rightarrow> string option" where
  "json_string v = (case v of AnyString s \<Rightarrow> Some s | AnyNil \<Rightarrow> Some [] | _ \<Rightarrow> None)"

fun json_strings :: "any list \<Rightarrow> string list option" where
  "json_strings [] = Some []"
| "json_strings (v # vs) =
     (case json_string v of None \<Rightarrow> None | Some s \<Rightarrow> map_option ((#) s) (json_strings vs))"

definition dependencies :: "Outbound \<Rightarrow> string list option" where
  "dependencies ob =
     (case (case mget_or AnyNil (o_Options ob) ''outbounds'' of AnyList vs \<Rightarrow> json_strings vs | AnyNil \<Rightarrow> Some [] | _ \<Rightarrow> None) of
        None \<Rightarrow> None
      | Some ds \<Rightarrow>
          (case json_string (mget_or AnyNil (o_Options ob) ''detour'') of
             None \<Rightarrow> None
           | Some d \<Rightarrow> Some (filter (\<lambda>t. t \<noteq> []) (ds @ [d]))))"

record dfs =
  d_state :: "(string, nat) gomap"
  d_result :: "Outbound list"

type_synonym visit_result = "(reload_error + dfs) option"

fun each :: "(string \<Rightarrow> dfs \<Rightarrow> visit_result) \<Rightarrow> string list \<Rightarrow> dfs \<Rightarrow> visit_result" where
  "each v [] st = Some (Inr st)"
| "each v (t # ts) st = (case v t st of Some (Inr st') \<Rightarrow> each v ts st' | r \<Rightarrow> r)"

primrec visit :: "(string, Outbound) gomap \<Rightarrow> nat \<Rightarrow> string \<Rightarrow> dfs \<Rightarrow> visit_result" where
  "visit byTag 0 = (\<lambda>tag st.
     (if mget_or 0 (d_state st) tag = 2 then Some (Inr st)
      else if mget_or 0 (d_state st) tag = 1 then Some (Inl Cyclic)
      else case map_of byTag tag of None \<Rightarrow> Some (Inr st) | Some ob \<Rightarrow> None))"
| "visit byTag (Suc n) = (\<lambda>tag st.
     (if mget_or 0 (d_state st) tag = 2 then Some (Inr st)
      else if mget_or 0 (d_state st) tag = 1 then Some (Inl Cyclic)
      else case map_of byTag tag of
          None \<Rightarrow> Some (Inr st)
        | Some ob \<Rightarrow>
            (case dependencies ob of
               None \<Rightarrow> Some (Inl BadOptions)
             | Some ds \<Rightarrow>
                 (case each (visit byTag n) ds (st\<lparr>d_state := mput tag 1 (d_state st)\<rparr>) of
                    Some (Inr st') \<Rightarrow> Some (Inr (st'\<lparr>d_state := mput tag 2 (d_state st'), d_result := d_result st' @ [ob]\<rparr>))
                  | r \<Rightarrow> r))))"

definition by_tag :: "Outbound list \<Rightarrow> (string, Outbound) gomap" where
  "by_tag outbounds = mbuild o_Tag (\<lambda>ob. ob) outbounds"

definition orderedOutbounds :: "nat \<Rightarrow> Outbound list \<Rightarrow> (reload_error + Outbound list) option" where
  "orderedOutbounds fuel outbounds =
     (case each (visit (by_tag outbounds) fuel) (map o_Tag outbounds) \<lparr>d_state = [], d_result = []\<rparr> of
        None \<Rightarrow> None
      | Some (Inl e) \<Rightarrow> Some (Inl e)
      | Some (Inr st) \<Rightarrow> Some (Inr (d_result st)))"

section \<open>The visit returns\<close>

definition mark :: "dfs \<Rightarrow> string \<Rightarrow> nat" where
  "mark st t = mget_or 0 (d_state st) t"

definition white :: "(string, Outbound) gomap \<Rightarrow> dfs \<Rightarrow> string set" where
  "white byTag st = {t \<in> fst ` set byTag. mark st t = 0}"

lemma finite_white [simp]: "finite (white byTag st)"
  by (simp add: white_def)

lemma mark_put: "mark (st\<lparr>d_state := mput t k (d_state st)\<rparr>) x = (if x = t then k else mark st x)"
  "mark (st\<lparr>d_state := mput t k (d_state st), d_result := rs\<rparr>) x = (if x = t then k else mark st x)"
  by (simp_all add: mark_def mget_or_mput)

text \<open>Marks are 0, 1 or 2, and a visit only turns marks 0 into 2.\<close>

definition marks_ok :: "dfs \<Rightarrow> bool" where
  "marks_ok st \<longleftrightarrow> (\<forall>t. mark st t \<le> 2)"

definition grows :: "dfs \<Rightarrow> dfs \<Rightarrow> bool" where
  "grows st st' \<longleftrightarrow> (\<forall>t. mark st' t = mark st t \<or> (mark st t = 0 \<and> mark st' t = 2))"

lemma grows_refl [simp]: "grows st st"
  by (simp add: grows_def)

lemma grows_trans: "grows a b \<Longrightarrow> grows b c \<Longrightarrow> grows a c"
  unfolding grows_def by (metis zero_neq_numeral)

lemma each_trans:
  assumes "\<And>st. R st st" and "\<And>a b c. R a b \<Longrightarrow> R b c \<Longrightarrow> R a c"
    and "\<And>t st st'. v t st = Some (Inr st') \<Longrightarrow> R st st'"
  shows "each v ts st = Some (Inr st') \<Longrightarrow> R st st'"
proof (induction ts arbitrary: st)
  case (Cons t ts)
  then show ?case using assms(2,3) by (auto split: option.splits sum.splits) blast
qed (simp add: assms(1))

lemma visit_cases:
  assumes "visit byTag n tag st = Some (Inr st')"
  obtains (skip) "st' = st" "mark st tag = 2 \<or> (mark st tag \<noteq> 1 \<and> tag \<notin> fst ` set byTag)"
  | (fresh) m ob ds st1 where "n = Suc m" "mark st tag \<noteq> 1" "mark st tag \<noteq> 2" "map_of byTag tag = Some ob" "dependencies ob = Some ds"
      "each (visit byTag m) ds (st\<lparr>d_state := mput tag 1 (d_state st)\<rparr>) = Some (Inr st1)"
      "st' = st1\<lparr>d_state := mput tag 2 (d_state st1), d_result := d_result st1 @ [ob]\<rparr>"
  using assms
  by (cases n) (auto simp: mark_def map_of_eq_None_iff split: if_splits option.splits sum.splits)

definition step_ok :: "dfs \<Rightarrow> dfs \<Rightarrow> bool" where
  "step_ok st st' \<longleftrightarrow> (marks_ok st \<longrightarrow> grows st st' \<and> marks_ok st')"

lemma each_step_ok:
  "(\<And>t st st'. v t st = Some (Inr st') \<Longrightarrow> step_ok st st') \<Longrightarrow> each v ts st = Some (Inr st') \<Longrightarrow> step_ok st st'"
  by (rule each_trans [where R = step_ok]) (auto simp: step_ok_def intro: grows_trans)

lemma marks_ok_put: "marks_ok st \<Longrightarrow> k \<le> 2 \<Longrightarrow> marks_ok (st\<lparr>d_state := mput t k (d_state st)\<rparr>)"
  by (simp add: marks_ok_def mark_put)

lemma mark_white: "marks_ok st \<Longrightarrow> mark st t \<noteq> 1 \<Longrightarrow> mark st t \<noteq> 2 \<Longrightarrow> mark st t = 0"
  by (metis marks_ok_def One_nat_def Suc_1 le_Suc_eq le_zero_eq)

lemma visit_step_ok: "visit byTag n tag st = Some (Inr st') \<Longrightarrow> step_ok st st'"
proof (induction n arbitrary: tag st st')
  case 0
  then show ?case by (cases rule: visit_cases) (simp_all add: step_ok_def)
next
  case (Suc n)
  from Suc.prems show ?case
  proof (cases rule: visit_cases)
    case skip
    then show ?thesis by (simp add: step_ok_def)
  next
    case (fresh m ob ds st1)
    let ?g = "st\<lparr>d_state := mput tag 1 (d_state st)\<rparr>"
    have g: "step_ok ?g st1"
      by (rule each_step_ok [OF _ fresh(6)]) (use fresh(1) Suc.IH in simp)
    show ?thesis unfolding step_ok_def
    proof
      assume ok: "marks_ok st"
      with g have 1: "grows ?g st1" "marks_ok st1" by (simp_all add: step_ok_def marks_ok_put)
      have w: "mark st tag = 0" using mark_white ok fresh(2,3) by blast
      have "mark st' t = mark st t \<or> (mark st t = 0 \<and> mark st' t = 2)" for t
      proof (cases "t = tag")
        case True
        then show ?thesis using w by (simp add: fresh(7) mark_put)
      next
        case False
        with 1(1) show ?thesis unfolding grows_def by (metis fresh(7) mark_put)
      qed
      moreover have "marks_ok st'" using 1(2) by (simp add: fresh(7) marks_ok_def mark_put)
      ultimately show "grows st st' \<and> marks_ok st'" by (simp add: grows_def)
    qed
  qed
qed

lemma white_shrinks: "grows st st' \<Longrightarrow> white byTag st' \<subseteq> white byTag st"
  unfolding white_def grows_def by (smt (verit) mem_Collect_eq subsetI zero_neq_numeral)

lemma each_returns:
  assumes "\<And>t st. marks_ok st \<Longrightarrow> card (white byTag st) \<le> n \<Longrightarrow> visit byTag n t st \<noteq> None"
    and "marks_ok st" and "card (white byTag st) \<le> n"
  shows "each (visit byTag n) ts st \<noteq> None"
  using assms(2,3)
proof (induction ts arbitrary: st)
  case (Cons t ts)
  have "each (visit byTag n) ts st' \<noteq> None" if "visit byTag n t st = Some (Inr st')" for st'
  proof -
    have "grows st st'" "marks_ok st'" using visit_step_ok [OF that] Cons.prems(1) by (simp_all add: step_ok_def)
    moreover from this have "card (white byTag st') \<le> n"
      using white_shrinks card_mono finite_white Cons.prems(2) by (meson le_trans)
    ultimately show ?thesis using Cons.IH by blast
  qed
  then show ?case using assms(1) [OF Cons.prems, of t] by (auto split: option.splits sum.splits)
qed simp

lemma visit_returns: "marks_ok st \<Longrightarrow> card (white byTag st) \<le> n \<Longrightarrow> visit byTag n tag st \<noteq> None"
proof (induction n arbitrary: tag st)
  case 0
  have "map_of byTag tag = None" if "mark st tag \<noteq> 1" "mark st tag \<noteq> 2"
    using mark_white [OF 0(1) that] 0(2) by (auto simp: white_def map_of_eq_None_iff)
  then show ?case by (auto simp: mark_def split: option.splits)
next
  case (Suc n)
  let ?g = "st\<lparr>d_state := mput tag 1 (d_state st)\<rparr>"
  have "each (visit byTag n) ds ?g \<noteq> None"
    if "mark st tag \<noteq> 1" "mark st tag \<noteq> 2" "map_of byTag tag = Some ob" for ob ds
  proof (rule each_returns)
    show "marks_ok ?g" using Suc.prems(1) by (rule marks_ok_put) simp
    have "tag \<in> white byTag st"
      using mark_white [OF Suc.prems(1) that(1,2)] that(3) by (force simp: white_def dest: map_of_SomeD)
    moreover have "white byTag ?g = white byTag st - {tag}" by (auto simp: white_def mark_put)
    ultimately show "card (white byTag ?g) \<le> n" using Suc.prems(2) by simp
  qed (rule Suc.IH)
  note each = this
  show ?case
  proof (cases "mark st tag = 1 \<or> mark st tag = 2 \<or> map_of byTag tag = None")
    case True
    then show ?thesis by (auto simp: mark_def)
  next
    case False
    then obtain ob where ob: "map_of byTag tag = Some ob" by auto
    with False each [of ob] show ?thesis
      by (cases "dependencies ob") (auto simp: mark_def split: option.splits sum.splits)
  qed
qed

lemma start_marks: "marks_ok \<lparr>d_state = [], d_result = []\<rparr>" "mark \<lparr>d_state = [], d_result = []\<rparr> t = 0"
  by (simp_all add: marks_ok_def mark_def mget_or_def)

lemma card_white: "card (white (by_tag outbounds) st) \<le> length outbounds"
proof -
  have "white (by_tag outbounds) st \<subseteq> o_Tag ` set outbounds"
    by (auto simp: white_def by_tag_def dom_mbuild)
  then have "card (white (by_tag outbounds) st) \<le> card (o_Tag ` set outbounds)" by (intro card_mono) auto
  also have "\<dots> \<le> length outbounds" by (meson card_image_le card_length finite_set le_trans)
  finally show ?thesis .
qed

lemma ordered_returns:
  assumes "length outbounds \<le> fuel"
  shows "orderedOutbounds fuel outbounds \<noteq> None"
proof -
  have "each (visit (by_tag outbounds) fuel) ts \<lparr>d_state = [], d_result = []\<rparr> \<noteq> None" for ts
  proof (rule each_returns)
    show "card (white (by_tag outbounds) \<lparr>d_state = [], d_result = []\<rparr>) \<le> fuel"
      using card_white assms by (rule le_trans)
  qed (simp_all add: visit_returns start_marks)
  then show ?thesis by (simp add: orderedOutbounds_def split: option.split sum.split)
qed

section \<open>The order respects the dependencies\<close>

definition topological :: "(string, Outbound) gomap \<Rightarrow> Outbound list \<Rightarrow> bool" where
  "topological byTag rs \<longleftrightarrow>
     (\<forall>i < length rs. \<exists>ds. dependencies (rs ! i) = Some ds \<and>
        (\<forall>d \<in> set ds. d \<in> fst ` set byTag \<longrightarrow> d \<in> o_Tag ` set (take i rs)))"

definition sorted_so_far :: "(string, Outbound) gomap \<Rightarrow> dfs \<Rightarrow> bool" where
  "sorted_so_far byTag st \<longleftrightarrow>
     o_Tag ` set (d_result st) = {t. mark st t = 2} \<and> distinct (map o_Tag (d_result st)) \<and>
     (\<forall>ob \<in> set (d_result st). map_of byTag (o_Tag ob) = Some ob) \<and> topological byTag (d_result st)"

definition keyed :: "(string, Outbound) gomap \<Rightarrow> bool" where
  "keyed byTag \<longleftrightarrow> (\<forall>t ob. map_of byTag t = Some ob \<longrightarrow> o_Tag ob = t)"

lemma topological_snoc:
  "topological byTag rs \<Longrightarrow> dependencies ob = Some ds \<Longrightarrow> (\<forall>d \<in> set ds. d \<in> fst ` set byTag \<longrightarrow> d \<in> o_Tag ` set rs) \<Longrightarrow>
   topological byTag (rs @ [ob])"
  by (auto simp: topological_def nth_append less_Suc_eq)

lemma each_black:
  assumes "\<And>t st st'. v t st = Some (Inr st') \<Longrightarrow> marks_ok st \<Longrightarrow> grows st st' \<and> marks_ok st' \<and> (t \<in> D \<longrightarrow> mark st' t = 2)"
    and "each v ts st = Some (Inr st')" and "marks_ok st"
  shows "\<forall>t \<in> set ts. t \<in> D \<longrightarrow> mark st' t = 2"
  using assms(2,3)
proof (induction ts arbitrary: st)
  case (Cons t ts)
  then obtain s1 where s1: "v t st = Some (Inr s1)" "each v ts s1 = Some (Inr st')" by (auto split: option.splits sum.splits)
  with assms(1) Cons.prems have ok: "marks_ok s1" "t \<in> D \<longrightarrow> mark s1 t = 2" by blast+
  moreover have "step_ok s1 st'"
    by (rule each_step_ok [OF _ s1(2)]) (use assms(1) in \<open>auto simp: step_ok_def\<close>)
  ultimately have "grows s1 st'" by (simp add: step_ok_def)
  then have "t \<in> D \<longrightarrow> mark st' t = 2" using ok(2) unfolding grows_def by (metis zero_neq_numeral)
  then show ?case using Cons.IH [OF s1(2) ok(1)] by simp
qed simp

lemma visit_black:
  assumes "visit byTag n tag st = Some (Inr st')" and "marks_ok st" and "tag \<in> fst ` set byTag"
  shows "mark st' tag = 2"
  using assms(1)
proof (cases rule: visit_cases)
  case skip
  then show ?thesis using assms(3) by auto
qed (simp add: mark_put)

lemma each_visit_black:
  "each (visit byTag n) ts st = Some (Inr st') \<Longrightarrow> marks_ok st \<Longrightarrow> \<forall>t \<in> set ts. t \<in> fst ` set byTag \<longrightarrow> mark st' t = 2"
  by (rule each_black [where v = "visit byTag n"]) (use visit_step_ok visit_black in \<open>auto simp: step_ok_def; blast\<close>)+

definition sort_step :: "(string, Outbound) gomap \<Rightarrow> dfs \<Rightarrow> dfs \<Rightarrow> bool" where
  "sort_step byTag st st' \<longleftrightarrow>
     (marks_ok st \<and> sorted_so_far byTag st \<longrightarrow> marks_ok st' \<and> sorted_so_far byTag st')"

lemma each_sort_step:
  "(\<And>t st st'. v t st = Some (Inr st') \<Longrightarrow> sort_step byTag st st') \<Longrightarrow> each v ts st = Some (Inr st') \<Longrightarrow> sort_step byTag st st'"
  by (rule each_trans [where R = "sort_step byTag"]) (auto simp: sort_step_def)

lemma sorted_mark1: "sorted_so_far byTag st \<Longrightarrow> mark st tag \<noteq> 2 \<Longrightarrow> sorted_so_far byTag (st\<lparr>d_state := mput tag 1 (d_state st)\<rparr>)"
  by (auto simp: sorted_so_far_def mark_put)

lemma visit_sort_step:
  assumes "keyed byTag"
  shows "visit byTag n tag st = Some (Inr st') \<Longrightarrow> sort_step byTag st st'"
proof (induction n arbitrary: tag st st')
  case 0
  then show ?case by (cases rule: visit_cases) (simp_all add: sort_step_def)
next
  case (Suc n)
  from Suc.prems show ?case
  proof (cases rule: visit_cases)
    case skip
    then show ?thesis by (simp add: sort_step_def)
  next
    case (fresh m ob ds st1)
    let ?g = "st\<lparr>d_state := mput tag 1 (d_state st)\<rparr>"
    have inner: "sort_step byTag ?g st1"
      by (rule each_sort_step [OF _ fresh(6)]) (use fresh(1) Suc.IH in simp)
    show ?thesis unfolding sort_step_def
    proof
      assume ok: "marks_ok st \<and> sorted_so_far byTag st"
      then have g: "marks_ok ?g" "sorted_so_far byTag ?g"
        using fresh(3) by (blast intro: marks_ok_put sorted_mark1 one_le_numeral)+
      with inner have 1: "marks_ok st1" "sorted_so_far byTag st1" by (simp_all add: sort_step_def)
      have "grows ?g st1"
        using each_step_ok [OF _ fresh(6)] visit_step_ok g(1) by (auto simp: step_ok_def)
      moreover have "mark ?g tag = 1" by (simp add: mark_put)
      ultimately have gray: "mark st1 tag = 1" unfolding grows_def by (metis one_neq_zero)
      have black: "\<forall>d \<in> set ds. d \<in> fst ` set byTag \<longrightarrow> d \<in> o_Tag ` set (d_result st1)"
        using each_visit_black [OF fresh(6) g(1)] 1(2) unfolding sorted_so_far_def by simp
      have tag: "o_Tag ob = tag" using assms fresh(4) by (simp add: keyed_def)
      have "tag \<notin> o_Tag ` set (d_result st1)" using gray 1(2) unfolding sorted_so_far_def by simp
      then have "sorted_so_far byTag st'"
        using 1(2) topological_snoc [OF _ fresh(5) black] fresh(4)
        unfolding sorted_so_far_def fresh(7) mark_put by (auto simp: tag)
      moreover have "marks_ok st'" using 1(1) by (simp add: fresh(7) marks_ok_def mark_put)
      ultimately show "marks_ok st' \<and> sorted_so_far byTag st'" by simp
    qed
  qed
qed

lemma keyed_by_tag [simp]: "keyed (by_tag outbounds)"
  unfolding keyed_def by_tag_def map_of_mbuild by (auto dest!: map_of_SomeD)

lemma ordered_topological:
  assumes "orderedOutbounds fuel outbounds = Some (Inr rs)"
  shows "topological (by_tag outbounds) rs \<and> distinct (map o_Tag rs) \<and> o_Tag ` set rs = o_Tag ` set outbounds \<and>
    (\<forall>ob \<in> set rs. map_of (by_tag outbounds) (o_Tag ob) = Some ob)"
proof -
  let ?v = "visit (by_tag outbounds) fuel" and ?s = "\<lparr>d_state = [], d_result = []\<rparr> :: dfs"
  obtain st where st: "each ?v (map o_Tag outbounds) ?s = Some (Inr st)" and rs: "rs = d_result st"
    using assms by (auto simp: orderedOutbounds_def split: option.splits sum.splits)
  have start: "sorted_so_far (by_tag outbounds) ?s"
    by (simp add: sorted_so_far_def topological_def start_marks)
  have "sort_step (by_tag outbounds) ?s st"
    by (rule each_sort_step [OF _ st]) (rule visit_sort_step, simp_all)
  then have good: "sorted_so_far (by_tag outbounds) st" using start start_marks(1) by (simp add: sort_step_def)
  have dom: "fst ` set (by_tag outbounds) = o_Tag ` set outbounds" by (simp add: by_tag_def dom_mbuild)
  have "o_Tag ` set outbounds \<subseteq> o_Tag ` set rs"
    using each_visit_black [OF st start_marks(1)] good unfolding sorted_so_far_def rs dom by auto
  moreover have "o_Tag ` set rs \<subseteq> o_Tag ` set outbounds"
    using good unfolding sorted_so_far_def rs dom [symmetric] by (force dest: map_of_SomeD)
  ultimately show ?thesis using good unfolding sorted_so_far_def rs by blast
qed

section \<open>An error is a cycle\<close>

definition dep_edges :: "(string, Outbound) gomap \<Rightarrow> (string \<times> string) set" where
  "dep_edges byTag = {(a, b). \<exists>ob ds. map_of byTag a = Some ob \<and> dependencies ob = Some ds \<and> b \<in> set ds}"

lemma each_cyclic:
  assumes "each (visit byTag n) ts st = Some (Inl e)" and "marks_ok st"
  obtains t st' where "t \<in> set ts" "visit byTag n t st' = Some (Inl e)" "grows st st'" "marks_ok st'"
  using assms
proof (induction ts arbitrary: st thesis)
  case (Cons t ts)
  show ?case
  proof (cases "visit byTag n t st = Some (Inl e)")
    case True
    then show ?thesis using Cons.prems by (metis grows_refl list.set_intros(1))
  next
    case False
    then obtain s1 where s1: "visit byTag n t st = Some (Inr s1)" "each (visit byTag n) ts s1 = Some (Inl e)"
      using Cons.prems(2) by (auto split: option.splits sum.splits)
    with visit_step_ok [OF s1(1)] Cons.prems(3) have "grows st s1" "marks_ok s1" by (simp_all add: step_ok_def)
    then show ?thesis
      using Cons.IH [OF _ s1(2)] Cons.prems(1) by (metis grows_trans list.set_intros(2))
  qed
qed simp

lemma grows_gray: "grows st st' \<Longrightarrow> mark st' g = 1 \<longleftrightarrow> mark st g = 1"
  unfolding grows_def by (metis numeral_One numeral_eq_iff one_neq_zero semiring_norm(85))

lemma visit_cyclic:
  assumes "visit byTag n tag st = Some (Inl Cyclic)" and "marks_ok st"
    and "\<forall>g. mark st g = 1 \<longrightarrow> (g, tag) \<in> (dep_edges byTag)\<^sup>+"
  shows "\<exists>x. (x, x) \<in> (dep_edges byTag)\<^sup>+"
  using assms
proof (induction n arbitrary: tag st)
  case 0
  then show ?case by (auto simp: mark_def split: if_splits option.splits)
next
  case (Suc n)
  show ?case
  proof (cases "mark st tag = 1")
    case True
    then show ?thesis using Suc.prems(3) by blast
  next
    case False
    let ?g = "st\<lparr>d_state := mput tag 1 (d_state st)\<rparr>"
    obtain ob ds where ob: "map_of byTag tag = Some ob" "dependencies ob = Some ds"
      and each: "each (visit byTag n) ds ?g = Some (Inl Cyclic)"
      using Suc.prems(1) False by (auto simp: mark_def split: if_splits option.splits sum.splits)
    have "marks_ok ?g" using Suc.prems(2) by (rule marks_ok_put) simp
    then obtain d st' where d: "d \<in> set ds" "visit byTag n d st' = Some (Inl Cyclic)" "grows ?g st'" "marks_ok st'"
      using each_cyclic [OF each] by blast
    have edge: "(tag, d) \<in> dep_edges byTag" using ob d(1) by (auto simp: dep_edges_def)
    have "\<forall>g. mark st' g = 1 \<longrightarrow> (g, d) \<in> (dep_edges byTag)\<^sup>+"
      using grows_gray [OF d(3)] Suc.prems(3) edge by (auto simp: mark_put split: if_splits intro: trancl_into_trancl)
    then show ?thesis using Suc.IH d by blast
  qed
qed

lemma ordered_cyclic:
  assumes "orderedOutbounds fuel outbounds = Some (Inl Cyclic)"
  shows "\<exists>x. (x, x) \<in> (dep_edges (by_tag outbounds))\<^sup>+"
proof -
  have "each (visit (by_tag outbounds) fuel) (map o_Tag outbounds) \<lparr>d_state = [], d_result = []\<rparr> = Some (Inl Cyclic)"
    using assms by (auto simp: orderedOutbounds_def split: option.splits sum.splits)
  then obtain t st where t: "visit (by_tag outbounds) fuel t st = Some (Inl Cyclic)" "marks_ok st"
      "grows \<lparr>d_state = [], d_result = []\<rparr> st"
    using each_cyclic [OF _ start_marks(1)] by metis
  have "mark st g \<noteq> 1" for g using grows_gray [OF t(3)] start_marks(2) by simp
  then show ?thesis using visit_cyclic [OF t(1,2)] by blast
qed

lemma each_error: "each v ts st = Some (Inl e) \<Longrightarrow> \<exists>t st'. v t st' = Some (Inl e)"
proof (induction ts arbitrary: st)
  case (Cons t ts)
  then show ?case by (cases "v t st") (auto split: sum.splits)
qed simp

lemma visit_error:
  assumes "\<And>t ob. map_of byTag t = Some ob \<Longrightarrow> dependencies ob \<noteq> None"
  shows "visit byTag n t st = Some (Inl e) \<Longrightarrow> e = Cyclic"
proof (induction n arbitrary: t st)
  case 0
  then show ?case by (auto split: if_splits option.splits)
next
  case (Suc n)
  show ?case
  proof (cases "map_of byTag t")
    case None
    then show ?thesis using Suc.prems by (simp split: if_splits)
  next
    case (Some ob)
    then obtain ds where ds: "dependencies ob = Some ds" using assms by blast
    show ?thesis
    proof (cases "each (visit byTag n) ds (st\<lparr>d_state := mput t 1 (d_state st)\<rparr>) = Some (Inl e)")
      case True
      then obtain t' st' where "visit byTag n t' st' = Some (Inl e)" using each_error by blast
      then show ?thesis by (rule Suc.IH)
    next
      case False
      then show ?thesis
        using Suc.prems Some ds by (simp split: if_splits option.splits sum.splits)
    qed
  qed
qed

text \<open>In a topological order an edge leads strictly to the front.\<close>

definition place :: "Outbound list \<Rightarrow> string \<Rightarrow> nat" where
  "place rs t = length (takeWhile (\<lambda>ob. o_Tag ob \<noteq> t) rs)"

lemma place_take: "t \<in> o_Tag ` set (take i rs) \<Longrightarrow> place rs t < i"
proof (induction rs arbitrary: i)
  case (Cons r rs)
  then show ?case by (cases i) (auto simp: place_def)
qed simp

lemma place_nth: "i < length rs \<Longrightarrow> distinct (map o_Tag rs) \<Longrightarrow> place rs (o_Tag (rs ! i)) = i"
proof (induction rs arbitrary: i)
  case (Cons r rs)
  then show ?case by (cases i) (auto simp: place_def)
qed simp

lemma edge_place:
  assumes "topological byTag rs" and "distinct (map o_Tag rs)" and "\<forall>ob \<in> set rs. map_of byTag (o_Tag ob) = Some ob"
    and "fst ` set byTag = o_Tag ` set rs" and "(a, b) \<in> dep_edges byTag" and "b \<in> fst ` set byTag"
  shows "place rs b < place rs a"
proof -
  obtain ob ds where ob: "map_of byTag a = Some ob" "dependencies ob = Some ds" "b \<in> set ds"
    using assms(5) by (auto simp: dep_edges_def)
  then have "a \<in> o_Tag ` set rs" using assms(4) by (metis domI dom_map_of_conv_image_fst)
  then obtain i where i: "i < length rs" "o_Tag (rs ! i) = a" by (metis imageE in_set_conv_nth)
  then have "rs ! i = ob" using assms(3) ob(1) by (metis nth_mem option.inject)
  then have "b \<in> o_Tag ` set (take i rs)"
    using assms(1,6) i ob(2,3) unfolding topological_def by (metis option.inject)
  then show ?thesis using place_take place_nth [OF i(1) assms(2)] i(2) by metis
qed

lemma topological_acyclic:
  assumes "topological byTag rs" and "distinct (map o_Tag rs)" and "\<forall>ob \<in> set rs. map_of byTag (o_Tag ob) = Some ob"
    and "fst ` set byTag = o_Tag ` set rs"
  shows "(x, x) \<notin> (dep_edges byTag)\<^sup>+"
proof
  have dom: "a \<in> fst ` set byTag" if "(a, b) \<in> dep_edges byTag" for a b
    using that by (auto simp: dep_edges_def) (metis domI dom_map_of_conv_image_fst)
  have less: "(a, b) \<in> (dep_edges byTag)\<^sup>+ \<Longrightarrow> b \<in> fst ` set byTag \<Longrightarrow> place rs b < place rs a" for a b
    by (induction rule: trancl_induct) (use edge_place [OF assms] dom in \<open>auto intro: less_trans\<close>)
  assume cycle: "(x, x) \<in> (dep_edges byTag)\<^sup>+"
  then have "x \<in> fst ` set byTag" using dom by (meson tranclD)
  with less [OF cycle] show False by simp
qed

text \<open>
  C14. Ordering the outbounds of a configuration by their dependencies always returns: the recursion is
  never deeper than there are outbounds.
\<close>

theorem orderedOutbounds_returns:
  "\<exists>r. orderedOutbounds (length outbounds) outbounds = Some r \<and> orderedOutbounds (length outbounds + k) outbounds \<noteq> None"
  using ordered_returns [of outbounds "length outbounds"] ordered_returns [of outbounds "length outbounds + k"] by auto

text \<open>
  C13. When it succeeds, the result holds the outbound of every tag exactly once, and every outbound stands
  behind all the outbounds it depends on; it reports a cycle exactly when the dependencies have one
  (for outbounds whose dependencies can be read).
\<close>

theorem orderedOutbounds_topological:
  assumes "\<forall>ob \<in> set outbounds. dependencies ob \<noteq> None"
  shows "case orderedOutbounds (length outbounds) outbounds of
      None \<Rightarrow> False
    | Some (Inl e) \<Rightarrow> e = Cyclic \<and> (\<exists>x. (x, x) \<in> (dep_edges (by_tag outbounds))\<^sup>+)
    | Some (Inr rs) \<Rightarrow> topological (by_tag outbounds) rs \<and> distinct (map o_Tag rs) \<and>
        o_Tag ` set rs = o_Tag ` set outbounds \<and> (\<nexists>x. (x, x) \<in> (dep_edges (by_tag outbounds))\<^sup>+)"
proof -
  let ?t = "by_tag outbounds"
  have deps: "dependencies ob \<noteq> None" if "map_of ?t t = Some ob" for t ob
    using that assms by (auto simp: by_tag_def map_of_mbuild dest!: map_of_SomeD)
  show ?thesis
  proof (cases "orderedOutbounds (length outbounds) outbounds")
    case None
    then show ?thesis using ordered_returns [of outbounds "length outbounds"] by simp
  next
    case (Some r)
    show ?thesis
    proof (cases r)
      case (Inl e)
      then have "each (visit ?t (length outbounds)) (map o_Tag outbounds) \<lparr>d_state = [], d_result = []\<rparr> = Some (Inl e)"
        using Some by (auto simp: orderedOutbounds_def split: option.splits sum.splits)
      then obtain t st where "visit ?t (length outbounds) t st = Some (Inl e)" using each_error by blast
      then have "e = Cyclic" by (rule visit_error [rotated]) (rule deps)
      with Some Inl ordered_cyclic show ?thesis by auto
    next
      case (Inr rs)
      with Some have "orderedOutbounds (length outbounds) outbounds = Some (Inr rs)" by simp
      note order = ordered_topological [OF this]
      have "fst ` set ?t = o_Tag ` set rs" using order by (simp add: by_tag_def dom_mbuild)
      moreover have "topological ?t rs" "distinct (map o_Tag rs)" "\<forall>ob \<in> set rs. map_of ?t (o_Tag ob) = Some ob"
        using order by simp_all
      ultimately have "(x, x) \<notin> (dep_edges ?t)\<^sup>+" for x using topological_acyclic by metis
      with Some Inr order show ?thesis by simp
    qed
  qed
qed

definition demo_outbounds :: "Outbound list" where
  "demo_outbounds =
     [\<lparr>o_Type = ''socks'', o_Tag = ''a'', o_Options = [(''detour'', AnyString ''b'')]\<rparr>,
      \<lparr>o_Type = ''selector'', o_Tag = ''c'', o_Options = [(''outbounds'', any_strings [''a'', ''b''])]\<rparr>,
      \<lparr>o_Type = ''direct'', o_Tag = ''b'', o_Options = []\<rparr>]"

theorem orderedOutbounds_topological_witness:
  "map_option (map_sum id (map o_Tag)) (orderedOutbounds 3 demo_outbounds) = Some (Inr [''b'', ''a'', ''c'']) \<and>
   (\<nexists>x. (x, x) \<in> (dep_edges (by_tag demo_outbounds))\<^sup>+)"
proof -
  have deps: "\<forall>ob \<in> set demo_outbounds. dependencies ob \<noteq> None" by code_simp
  have eval: "map_option (map_sum id (map o_Tag)) (orderedOutbounds 3 demo_outbounds) = Some (Inr [''b'', ''a'', ''c''])" by code_simp
  then obtain rs where rs: "orderedOutbounds 3 demo_outbounds = Some (Inr rs)"
    by (cases "orderedOutbounds 3 demo_outbounds"; cases "the (orderedOutbounds 3 demo_outbounds)") auto
  have "length demo_outbounds = 3" by (simp add: demo_outbounds_def)
  with orderedOutbounds_topological [OF deps] rs eval show ?thesis by simp
qed

section \<open>Replacing and removing outbounds\<close>

text \<open>
  The outbound manager over a state \<open>'m\<close>: whether a tag exists, creating (or replacing) an outbound and
  removing one, each with whether it succeeded. \<open>ser\<close> is the JSON form of the type, tag and options of an
  outbound, \<open>None\<close> if it cannot be encoded.
\<close>

record 'm OutboundManager =
  om_Outbound :: "string \<Rightarrow> 'm \<Rightarrow> bool"
  om_Create :: "Outbound \<Rightarrow> 'm \<Rightarrow> bool \<times> 'm"
  om_Remove :: "string \<Rightarrow> 'm \<Rightarrow> bool \<times> 'm"

fun replace_loop ::
  "'m OutboundManager \<Rightarrow> (Outbound \<Rightarrow> string option) \<Rightarrow> (string, string) gomap \<Rightarrow> Outbound list \<Rightarrow> 'm \<Rightarrow> reload_error option \<times> 'm" where
  "replace_loop om ser previousByTag [] m = (None, m)"
| "replace_loop om ser previousByTag (ob # obs) m =
     (case ser ob of
        None \<Rightarrow> (Some MarshalFailed, m)
      | Some data \<Rightarrow>
          if om_Outbound om (o_Tag ob) m \<and> mget_or [] previousByTag (o_Tag ob) = data
          then replace_loop om ser previousByTag obs m
          else case om_Create om ob m of
                 (True, m') \<Rightarrow> replace_loop om ser previousByTag obs m'
               | (False, m') \<Rightarrow> (Some (CreateFailed (o_Tag ob)), m'))"

definition replaceOutbounds ::
  "'m OutboundManager \<Rightarrow> (Outbound \<Rightarrow> string option) \<Rightarrow> Outbound list \<Rightarrow> Outbound list \<Rightarrow> 'm \<Rightarrow> (reload_error option \<times> 'm) option" where
  "replaceOutbounds om ser desired previous m =
     (case orderedOutbounds (length desired) desired of
        None \<Rightarrow> None
      | Some (Inl e) \<Rightarrow> Some (Some e, m)
      | Some (Inr ordered) \<Rightarrow>
          Some (replace_loop om ser (mbuild o_Tag (\<lambda>ob. case ser ob of Some data \<Rightarrow> data | None \<Rightarrow> []) previous) ordered m))"

fun remove_loop :: "'m OutboundManager \<Rightarrow> string list \<Rightarrow> Outbound list \<Rightarrow> 'm \<Rightarrow> reload_error option \<times> 'm" where
  "remove_loop om wanted [] m = (None, m)"
| "remove_loop om wanted (ob # obs) m =
     (if o_Tag ob \<in> set wanted \<or> \<not> om_Outbound om (o_Tag ob) m then remove_loop om wanted obs m
      else case om_Remove om (o_Tag ob) m of
             (True, m') \<Rightarrow> remove_loop om wanted obs m'
           | (False, m') \<Rightarrow> (Some (RemoveFailed (o_Tag ob)), m'))"

definition removeObsoleteOutbounds ::
  "'m OutboundManager \<Rightarrow> Outbound list \<Rightarrow> Outbound list \<Rightarrow> 'm \<Rightarrow> (reload_error option \<times> 'm) option" where
  "removeObsoleteOutbounds om previous desired m =
     (case orderedOutbounds (length previous) previous of
        None \<Rightarrow> None
      | Some (Inl e) \<Rightarrow> Some (Some e, m)
      | Some (Inr ordered) \<Rightarrow> Some (remove_loop om (map o_Tag desired) (rev ordered) m))"

text \<open>
  What the manager documents: creating an outbound can succeed only if the outbounds it names exist, and
  succeeds if they do; it then exists, and nothing else changes.
\<close>

definition creates_ok :: "'m OutboundManager \<Rightarrow> bool" where
  "creates_ok om \<longleftrightarrow> (\<forall>ob m ds. dependencies ob = Some ds \<longrightarrow>
     fst (om_Create om ob m) = list_all (\<lambda>d. om_Outbound om d m) ds \<and>
     (fst (om_Create om ob m) \<longrightarrow>
       (\<forall>t. om_Outbound om t (snd (om_Create om ob m)) \<longleftrightarrow> t = o_Tag ob \<or> om_Outbound om t m)))"

lemma replace_loop_ok:
  assumes om: "creates_ok om"
    and ser: "\<forall>ob \<in> set obs. ser ob \<noteq> None"
    and deps: "\<forall>i < length obs. \<exists>ds. dependencies (obs ! i) = Some ds \<and>
      (\<forall>d \<in> set ds. d \<in> o_Tag ` set (take i obs) \<or> om_Outbound om d m)"
  shows "\<exists>m'. replace_loop om ser prev obs m = (None, m') \<and>
    (\<forall>t. om_Outbound om t m' \<longleftrightarrow> t \<in> o_Tag ` set obs \<or> om_Outbound om t m)"
  using ser deps
proof (induction obs arbitrary: m)
  case Nil
  then show ?case by simp
next
  case (Cons ob obs)
  obtain data where data: "ser ob = Some data" using Cons.prems(1) by auto
  obtain ds where ds: "dependencies ob = Some ds" "\<forall>d \<in> set ds. om_Outbound om d m"
    using Cons.prems(2) by force
  have next_deps: "\<forall>i < length obs. \<exists>ds. dependencies (obs ! i) = Some ds \<and>
      (\<forall>d \<in> set ds. d \<in> o_Tag ` set (take i obs) \<or> om_Outbound om d m1)"
    if "\<forall>t. om_Outbound om t m1 \<longleftrightarrow> t = o_Tag ob \<or> om_Outbound om t m" for m1
  proof (intro allI impI)
    fix i
    assume "i < length obs"
    then obtain es where "dependencies ((ob # obs) ! Suc i) = Some es"
        "\<forall>d \<in> set es. d \<in> o_Tag ` set (take (Suc i) (ob # obs)) \<or> om_Outbound om d m"
      using Cons.prems(2) by (metis Suc_less_eq length_Cons)
    then have "dependencies (obs ! i) = Some es" and "\<forall>d \<in> set es. d \<in> o_Tag ` set (take i obs) \<or> om_Outbound om d m1"
      using that by auto
    then show "\<exists>ds. dependencies (obs ! i) = Some ds \<and> (\<forall>d \<in> set ds. d \<in> o_Tag ` set (take i obs) \<or> om_Outbound om d m1)"
      by blast
  qed
  have ser': "\<forall>ob \<in> set obs. ser ob \<noteq> None" using Cons.prems(1) by simp
  show ?case
  proof (cases "om_Outbound om (o_Tag ob) m \<and> mget_or [] prev (o_Tag ob) = data")
    case True
    then have "\<forall>t. om_Outbound om t m \<longleftrightarrow> t = o_Tag ob \<or> om_Outbound om t m" by auto
    from Cons.IH [OF ser' next_deps [OF this]] obtain m' where "replace_loop om ser prev obs m = (None, m')"
        "\<forall>t. om_Outbound om t m' \<longleftrightarrow> t \<in> o_Tag ` set obs \<or> om_Outbound om t m" by blast
    with True data show ?thesis by auto
  next
    case False
    obtain m1 where m1: "om_Create om ob m = (True, m1)" "\<forall>t. om_Outbound om t m1 \<longleftrightarrow> t = o_Tag ob \<or> om_Outbound om t m"
    proof -
      have c: "fst (om_Create om ob m) = list_all (\<lambda>d. om_Outbound om d m) ds \<and>
          (fst (om_Create om ob m) \<longrightarrow> (\<forall>t. om_Outbound om t (snd (om_Create om ob m)) \<longleftrightarrow> t = o_Tag ob \<or> om_Outbound om t m))"
        using om ds(1) unfolding creates_ok_def by blast
      moreover have "list_all (\<lambda>d. om_Outbound om d m) ds" using ds(2) by (simp add: list_all_iff)
      ultimately show thesis by (intro that [of "snd (om_Create om ob m)"]) (simp_all add: prod_eq_iff)
    qed
    from Cons.IH [OF ser' next_deps [OF m1(2)]] obtain m' where "replace_loop om ser prev obs m1 = (None, m')"
        "\<forall>t. om_Outbound om t m' \<longleftrightarrow> t \<in> o_Tag ` set obs \<or> om_Outbound om t m1" by blast
    with False data m1 show ?thesis by auto
  qed
qed

text \<open>
  Replacing the outbounds of a running sing-box never fails for want of an outbound: if every outbound
  of the new configuration depends only on outbounds of that configuration and the dependencies have no
  cycle, each one is created after those it depends on, the replacement succeeds, and exactly the
  outbounds of the new configuration and those that existed before exist afterwards.
\<close>

lemma replaceOutbounds_succeeds:
  assumes "creates_ok om" and "\<forall>ob \<in> set desired. ser ob \<noteq> None"
    and "\<forall>ob \<in> set desired. \<exists>ds. dependencies ob = Some ds \<and> set ds \<subseteq> o_Tag ` set desired"
    and "\<nexists>x. (x, x) \<in> (dep_edges (by_tag desired))\<^sup>+"
  shows "\<exists>m'. replaceOutbounds om ser desired previous m = Some (None, m') \<and>
    (\<forall>t. om_Outbound om t m' \<longleftrightarrow> t \<in> o_Tag ` set desired \<or> om_Outbound om t m)"
proof -
  let ?prev = "mbuild o_Tag (\<lambda>ob. case ser ob of Some data \<Rightarrow> data | None \<Rightarrow> []) previous"
  have "orderedOutbounds (length desired) desired \<noteq> Some (Inl e)" for e
  proof
    assume "orderedOutbounds (length desired) desired = Some (Inl e)"
    then have "each (visit (by_tag desired) (length desired)) (map o_Tag desired) \<lparr>d_state = [], d_result = []\<rparr> = Some (Inl e)"
      by (auto simp: orderedOutbounds_def split: option.splits sum.splits)
    then obtain t st where "visit (by_tag desired) (length desired) t st = Some (Inl e)" using each_error by blast
    moreover have "dependencies ob \<noteq> None" if "map_of (by_tag desired) t = Some ob" for t ob
      using that assms(3) by (auto simp: by_tag_def map_of_mbuild dest!: map_of_SomeD)
    ultimately have "e = Cyclic" using visit_error by metis
    with \<open>orderedOutbounds (length desired) desired = Some (Inl e)\<close> ordered_cyclic assms(4) show False by blast
  qed
  then obtain rs where rs: "orderedOutbounds (length desired) desired = Some (Inr rs)"
    using ordered_returns [of desired "length desired"] by (metis not_None_eq old.sum.exhaust order_refl)
  note order = ordered_topological [OF rs]
  have mem: "ob \<in> set desired" if "ob \<in> set rs" for ob
    using order that by (auto simp: by_tag_def map_of_mbuild dest!: bspec map_of_SomeD)
  have dom: "fst ` set (by_tag desired) = o_Tag ` set desired" by (simp add: by_tag_def dom_mbuild)
  have "\<exists>ds. dependencies (rs ! i) = Some ds \<and> (\<forall>d \<in> set ds. d \<in> o_Tag ` set (take i rs))" if i: "i < length rs" for i
  proof -
    obtain ds where ds: "dependencies (rs ! i) = Some ds" "\<forall>d \<in> set ds. d \<in> o_Tag ` set desired \<longrightarrow> d \<in> o_Tag ` set (take i rs)"
      using order i unfolding topological_def dom by blast
    obtain es where "dependencies (rs ! i) = Some es" "set es \<subseteq> o_Tag ` set desired"
      using assms(3) mem [OF nth_mem [OF i]] by blast
    with ds show ?thesis by auto
  qed
  then have "\<exists>m'. replace_loop om ser ?prev rs m = (None, m') \<and>
      (\<forall>t. om_Outbound om t m' \<longleftrightarrow> t \<in> o_Tag ` set rs \<or> om_Outbound om t m)"
    using assms(1,2) mem by (intro replace_loop_ok) (blast, blast, metis)
  then show ?thesis using order by (simp add: replaceOutbounds_def rs)
qed

text \<open>A manager that only knows which tags exist.\<close>

definition tag_manager :: "string list OutboundManager" where
  "tag_manager = \<lparr>om_Outbound = (\<lambda>t m. t \<in> set m),
     om_Create = (\<lambda>ob m. case dependencies ob of
        Some ds \<Rightarrow> if list_all (\<lambda>d. d \<in> set m) ds then (True, o_Tag ob # m) else (False, m) | None \<Rightarrow> (False, m)),
     om_Remove = (\<lambda>t m. (True, removeAll t m))\<rparr>"

theorem replaceOutbounds_succeeds_witness:
  "\<exists>m'. replaceOutbounds tag_manager (\<lambda>ob. Some (o_Tag ob)) demo_outbounds [] [] = Some (None, m') \<and>
    (\<forall>t. om_Outbound tag_manager t m' \<longleftrightarrow> t \<in> o_Tag ` set demo_outbounds \<or> om_Outbound tag_manager t [])"
proof (rule replaceOutbounds_succeeds)
  show "creates_ok tag_manager" by (auto simp: creates_ok_def tag_manager_def)
  show "\<forall>ob \<in> set demo_outbounds. Some (o_Tag ob) \<noteq> None" by simp
  show "\<forall>ob \<in> set demo_outbounds. \<exists>ds. dependencies ob = Some ds \<and> set ds \<subseteq> o_Tag ` set demo_outbounds"
    by (simp add: demo_outbounds_def dependencies_def mget_or_def json_string_def)
  have deps: "\<forall>ob \<in> set demo_outbounds. dependencies ob \<noteq> None" by code_simp
  have "map_option isl (orderedOutbounds (length demo_outbounds) demo_outbounds) = Some False" by code_simp
  then obtain rs where "orderedOutbounds (length demo_outbounds) demo_outbounds = Some (Inr rs)"
    by (auto simp: isl_def) (metis old.sum.exhaust)
  from ordered_topological [OF this] show "\<nexists>x. (x, x) \<in> (dep_edges (by_tag demo_outbounds))\<^sup>+"
    using topological_acyclic [of "by_tag demo_outbounds" rs] by (simp add: by_tag_def dom_mbuild)
qed

section \<open>The catch-all rule of a reload\<close>

text \<open>
  \<^verbatim>\<open>reloadConfigBytes\<close> on the JSON value: \<open>norm\<close> is the round trip through JSON text. A reload cannot
  change the final outbound of the running instance, so the final one of the new configuration is
  appended as a rule without conditions.
\<close>

definition reloadConfigBytes :: "(M \<Rightarrow> M option) \<Rightarrow> M \<Rightarrow> M option" where
  "reloadConfigBytes norm cfg =
     (case norm cfg of
        None \<Rightarrow> None
      | Some normalized \<Rightarrow>
          Some (case map_of normalized ''route'' of
             Some (AnyMap route) \<Rightarrow>
               (case map_of route ''final'' of
                  Some (AnyString final) \<Rightarrow>
                    if final \<noteq> [] then
                      mput ''route'' (AnyMap (mput ''rules'' (AnyList
                        ((case map_of route ''rules'' of Some (AnyList rs) \<Rightarrow> rs | _ \<Rightarrow> []) @ [AnyMap [(''outbound'', AnyString final)]])) route)) normalized
                    else normalized
                | _ \<Rightarrow> normalized)
           | _ \<Rightarrow> normalized))"

end
