(* ===== verification/SingboxKernel.thy ===== *)
theory SingboxKernel
  imports SingboxReload ConnTracker
begin

text \<open>
  The sing-box kernel (\<^verbatim>\<open>internal/kernel/singbox/singbox.go\<close>): start, hot reload with its roll-back, stop, and the
  hot user operations.

  The sing-box library is vendored code. The operations on a running box of type \<open>'b\<close> (its inbound
  and outbound managers and its router) are the fields of record \<open>box\<close>; what the properties rely on is stated by
  \<open>box_ok\<close>. Every public method holds the mutex from start to end, so it is one step. JSON text is represented by
  its value: \<open>bx_json\<close> encodes and decodes (\<open>None\<close>: not encodable), \<open>bx_options\<close> decodes the options of sing-box.
  The box, its context and its cancel function are set together and are one field. A user list stands for a
  slice that is not nil. Closing an old box in the background has no effect on the state here.
\<close>

section \<open>The library\<close>

record Inbound =
  i_Type :: string
  i_Tag :: string
  i_Options :: M

record Options =
  op_Inbounds :: "Inbound list"
  op_Outbounds :: "Outbound list"
  op_Rules :: "any list"
  op_RuleSet :: "any list"

record 'b box =
  bx_json :: "M \<Rightarrow> M option"
  bx_options :: "M \<Rightarrow> Options option"
  bx_New :: "Options \<Rightarrow> 'b option"
  bx_Start :: "'b \<Rightarrow> 'b option"
  bx_InboundManager :: "'b \<Rightarrow> bool"
  bx_Router :: "'b \<Rightarrow> bool"
  bx_OutboundManager :: "'b \<Rightarrow> bool"
  bx_Get :: "string \<Rightarrow> 'b \<Rightarrow> string option"
  bx_Updatable :: "string \<Rightarrow> 'b \<Rightarrow> bool"
  bx_UpdateUsers :: "Inbound \<Rightarrow> 'b \<Rightarrow> bool \<times> 'b"
  bx_Remove :: "string \<Rightarrow> 'b \<Rightarrow> 'b"
  bx_Create :: "Inbound \<Rightarrow> 'b \<Rightarrow> bool \<times> 'b"
  bx_UpdateRules :: "any list \<Rightarrow> any list \<Rightarrow> 'b \<Rightarrow> bool \<times> 'b"
  bx_om :: "'b OutboundManager"
  bx_ser :: "Outbound \<Rightarrow> string option"

datatype sb_error =
    SbNotRunning | MarshalConfig | ParseOptions | CreateBox | StartBox | NoInboundManager | NoRouter | BuildPrevious
  | ParsePrevious | NoOutboundManager | OutboundError reload_error | ReloadRouting | RecreateInbound string

section \<open>State\<close>

text \<open>The connection tracker with the limit functions installed in it.\<close>

record 'f kernel_tracker =
  kt_tracker :: ConnTracker
  kt_speed :: "'f option"
  kt_device :: "(string \<Rightarrow> int option) option"

record ('b, 'f) SingBox =
  k_cfg :: KernelConfig
  k_box :: "'b option"
  k_users :: "UserSpec list"
  k_nodeConfig :: "NodeSpec option"
  k_tls :: TLSCert
  k_connTracker :: "'f kernel_tracker option"
  k_speedLimitFunc :: "'f option"
  k_deviceLimitFunc :: "(string \<Rightarrow> int option) option"
  k_trackerRegistered :: bool

definition New_singbox :: "KernelConfig \<Rightarrow> ('b, 'f) SingBox" where
  "New_singbox cfg = \<lparr>k_cfg = cfg, k_box = None, k_users = [], k_nodeConfig = None, k_tls = ([], []), k_connTracker = None,
     k_speedLimitFunc = None, k_deviceLimitFunc = None, k_trackerRegistered = False\<rparr>"

definition sb_Protocols :: "string list" where
  "sb_Protocols = [''vmess'', ''vless'', ''trojan'', ''shadowsocks'', ''hysteria'', ''hysteria2'', ''tuic'', ''naive'',
     ''socks'', ''http'', ''anytls'', ''mieru'']"

section \<open>Start and stop\<close>

definition registerTracker :: "'b box \<Rightarrow> 'b \<Rightarrow> ('b, 'f) SingBox \<Rightarrow> ('b, 'f) SingBox" where
  "registerTracker bx b s =
     (if k_trackerRegistered s \<or> \<not> bx_Router bx b then s else s\<lparr>k_trackerRegistered := True\<rparr>)"

definition fresh_tracker :: "('b, 'f) SingBox \<Rightarrow> UserSpec list \<Rightarrow> 'f kernel_tracker" where
  "fresh_tracker s users = \<lparr>kt_tracker = SetUserMap (buildUserMap users) NewConnTracker,
     kt_speed = k_speedLimitFunc s, kt_device = k_deviceLimitFunc s\<rparr>"

type_synonym profile_order = "(string \<times> RouteProfile) list \<Rightarrow> (string \<times> RouteProfile) list"

definition sb_Start ::
  "'b box \<Rightarrow> senv \<Rightarrow> profile_order \<Rightarrow> NodeSpec \<Rightarrow> UserSpec list \<Rightarrow> TLSCert \<Rightarrow> ('b, 'f) SingBox \<Rightarrow> sb_error option \<times> ('b, 'f) SingBox" where
  "sb_Start bx se rng nc users tls s =
     (case bx_json bx (sb_buildConfig se rng (k_cfg s) nc users tls) of
        None \<Rightarrow> (Some MarshalConfig, s)
      | Some data \<Rightarrow>
     (case bx_options bx data of
        None \<Rightarrow> (Some ParseOptions, s)
      | Some opts \<Rightarrow>
     (case bx_New bx opts of
        None \<Rightarrow> (Some CreateBox, s)
      | Some inst0 \<Rightarrow>
     (case bx_Start bx inst0 of
        None \<Rightarrow> (Some StartBox, s)
      | Some inst \<Rightarrow>
          (None, registerTracker bx inst
             (s\<lparr>k_box := Some inst, k_users := users, k_nodeConfig := Some nc, k_tls := tls,
                k_connTracker := Some (fresh_tracker s users), k_trackerRegistered := False\<rparr>))))))"

definition sb_Stop :: "('b, 'f) SingBox \<Rightarrow> ('b, 'f) SingBox" where
  "sb_Stop s = (if k_box s = None then s else s\<lparr>k_box := None\<rparr>)"

definition sb_IsRunning :: "('b, 'f) SingBox \<Rightarrow> bool" where
  "sb_IsRunning s \<longleftrightarrow> k_box s \<noteq> None"

section \<open>Limit functions and the tracker\<close>

definition on_tracker :: "(ConnTracker \<Rightarrow> ConnTracker) \<Rightarrow> ('b, 'f) SingBox \<Rightarrow> ('b, 'f) SingBox" where
  "on_tracker f s = s\<lparr>k_connTracker := map_option (\<lambda>kt. kt\<lparr>kt_tracker := f (kt_tracker kt)\<rparr>) (k_connTracker s)\<rparr>"

definition sb_SetSpeedLimitFunc :: "'f \<Rightarrow> ('b, 'f) SingBox \<Rightarrow> ('b, 'f) SingBox" where
  "sb_SetSpeedLimitFunc fn s =
     s\<lparr>k_speedLimitFunc := Some fn, k_connTracker := map_option (\<lambda>kt. kt\<lparr>kt_speed := Some fn\<rparr>) (k_connTracker s)\<rparr>"

definition sb_SetDeviceLimitFunc :: "(string \<Rightarrow> int option) \<Rightarrow> ('b, 'f) SingBox \<Rightarrow> ('b, 'f) SingBox" where
  "sb_SetDeviceLimitFunc fn s =
     s\<lparr>k_deviceLimitFunc := Some fn, k_connTracker := map_option (\<lambda>kt. kt\<lparr>kt_device := Some fn\<rparr>) (k_connTracker s)\<rparr>"

definition sb_UpdateGlobalDevices :: "int \<Rightarrow> (int, string list) gomap \<Rightarrow> ('b, 'f) SingBox \<Rightarrow> ('b, 'f) SingBox" where
  "sb_UpdateGlobalDevices now users s = on_tracker (ct_UpdateGlobalDevices now users) s"

definition sb_ClearGlobalDevices :: "('b, 'f) SingBox \<Rightarrow> ('b, 'f) SingBox" where
  "sb_ClearGlobalDevices s = on_tracker ct_ClearGlobalDevices s"

definition sb_GetUserTraffic :: "('b, 'f) SingBox \<Rightarrow> (int, int \<times> int) gomap \<times> (int, string list) gomap \<times> int" where
  "sb_GetUserTraffic s = (case k_connTracker s of None \<Rightarrow> ([], [], 0) | Some kt \<Rightarrow> ct_GetUserTraffic (kt_tracker kt))"

text \<open>The connection to close, if the kernel has a tracker and the tracker knows it.\<close>

definition sb_CloseConnection :: "string \<Rightarrow> ('b, 'f) SingBox \<Rightarrow> sb_error + nat option" where
  "sb_CloseConnection connID s =
     (case k_connTracker s of None \<Rightarrow> Inl SbNotRunning | Some kt \<Rightarrow> Inr (CloseByID connID (kt_tracker kt)))"

section \<open>Users of the running inbounds\<close>

text \<open>
  The type switch over the updatable inbounds: an existing inbound of a type the switch names is updated if it
  implements the interface; any other inbound is left as it is, without an error.
\<close>

definition user_types :: "string list" where
  "user_types = [''vmess'', ''vless'', ''trojan'', ''hysteria2'', ''shadowsocks'', ''tuic'', ''anytls'', ''mieru'', ''naive'', ''socks'', ''http'']"

definition update_users :: "'b box \<Rightarrow> Inbound \<Rightarrow> 'b \<Rightarrow> bool \<times> 'b" where
  "update_users bx inb b =
     (if i_Type inb \<in> set user_types \<and> bx_Updatable bx (i_Tag inb) b then bx_UpdateUsers bx inb b else (True, b))"

definition recreate :: "'b box \<Rightarrow> Inbound \<Rightarrow> 'b \<Rightarrow> bool \<times> 'b" where
  "recreate bx inb b = bx_Create bx inb (bx_Remove bx (i_Tag inb) b)"

fun swap_inbounds :: "'b box \<Rightarrow> Inbound list \<Rightarrow> 'b \<Rightarrow> sb_error option \<times> 'b" where
  "swap_inbounds bx [] b = (None, b)"
| "swap_inbounds bx (inb # inbs) b =
     (let (updated, b1) = (if bx_Get bx (i_Tag inb) b = Some (i_Type inb) then update_users bx inb b else (False, b)) in
      if updated then swap_inbounds bx inbs b1
      else case recreate bx inb b1 of
             (True, b2) \<Rightarrow> swap_inbounds bx inbs b2
           | (False, b2) \<Rightarrow> (Some (RecreateInbound (i_Tag inb)), b2))"

definition reloadInboundsLocked ::
  "'b box \<Rightarrow> senv \<Rightarrow> profile_order \<Rightarrow> UserSpec list \<Rightarrow> ('b, 'f) SingBox \<Rightarrow> sb_error option \<times> ('b, 'f) SingBox" where
  "reloadInboundsLocked bx se rng users s =
     (case (k_box s, k_nodeConfig s) of
        (Some b, Some nc) \<Rightarrow>
          (case bx_json bx (sb_buildConfig se rng (k_cfg s) nc users (k_tls s)) of
             None \<Rightarrow> (Some MarshalConfig, s)
           | Some data \<Rightarrow>
          (case bx_options bx data of
             None \<Rightarrow> (Some ParseOptions, s)
           | Some opts \<Rightarrow>
               if \<not> bx_InboundManager bx b then (Some NoInboundManager, s)
               else if \<not> bx_Router bx b then (Some NoRouter, s)
               else
                 (case swap_inbounds bx (op_Inbounds opts) b of
                    (Some e, b') \<Rightarrow> (Some e, s\<lparr>k_box := Some b'\<rparr>)
                  | (None, b') \<Rightarrow> (None, on_tracker (SetUserMap (buildUserMap users)) (s\<lparr>k_box := Some b'\<rparr>)))))
      | _ \<Rightarrow> (Some SbNotRunning, s))"

definition sb_AddUsers ::
  "'b box \<Rightarrow> senv \<Rightarrow> profile_order \<Rightarrow> UserSpec list \<Rightarrow> ('b, 'f) SingBox \<Rightarrow> (int \<times> sb_error option) \<times> ('b, 'f) SingBox" where
  "sb_AddUsers bx se rng users s =
     (if k_box s = None then ((0, Some SbNotRunning), s)
      else
        (let toAdd = filter (\<lambda>u. ID u \<notin> ID ` set (k_users s)) users;
             merged = k_users s @ toAdd
         in if toAdd = [] then ((0, None), s)
            else case reloadInboundsLocked bx se rng merged s of
                   (Some e, s') \<Rightarrow> ((0, Some e), s')
                 | (None, s') \<Rightarrow> ((int (length toAdd), None), s'\<lparr>k_users := merged\<rparr>)))"

definition sb_RemoveUsers ::
  "'b box \<Rightarrow> senv \<Rightarrow> profile_order \<Rightarrow> UserSpec list \<Rightarrow> ('b, 'f) SingBox \<Rightarrow> (int \<times> sb_error option) \<times> ('b, 'f) SingBox" where
  "sb_RemoveUsers bx se rng users s =
     (if k_box s = None then ((0, Some SbNotRunning), s)
      else
        (let kept = filter (\<lambda>u. ID u \<notin> ID ` set users) (k_users s);
             removed = int (length (filter (\<lambda>u. ID u \<in> ID ` set users) (k_users s)))
         in if removed = 0 then ((0, None), s)
            else case reloadInboundsLocked bx se rng kept s of
                   (Some e, s') \<Rightarrow> ((0, Some e), s')
                 | (None, s') \<Rightarrow> ((removed, None), s'\<lparr>k_users := kept\<rparr>)))"

definition sb_UpdateUsers ::
  "'b box \<Rightarrow> senv \<Rightarrow> profile_order \<Rightarrow> UserSpec list \<Rightarrow> ('b, 'f) SingBox \<Rightarrow> (int \<times> int \<times> sb_error option) \<times> ('b, 'f) SingBox" where
  "sb_UpdateUsers bx se rng users s =
     (if k_box s = None then ((0, 0, Some SbNotRunning), s)
      else
        (let (toAdd, toRemove) = UserDiff (k_users s) users;
             added = int (length toAdd); removed = int (length toRemove)
         in if added = 0 \<and> removed = 0
            then ((0, 0, None), (on_tracker (SetUserMap (buildUserMap users)) s)\<lparr>k_users := users\<rparr>)
            else case reloadInboundsLocked bx se rng users s of
                   (Some e, s') \<Rightarrow> ((0, 0, Some e), s')
                 | (None, s') \<Rightarrow> ((added, removed, None), s'\<lparr>k_users := users\<rparr>)))"

section \<open>Hot reload\<close>



text \<open>
  The deferred restore of the previous routes, outbounds and listeners after a failure. Each of its steps may
  fail in turn: the failure is logged and the restore goes on, so it returns what it logs.
\<close>

primrec recreate_all :: "'b box \<Rightarrow> Inbound list \<Rightarrow> 'b \<Rightarrow> sb_error list \<times> 'b" where
  "recreate_all bx [] b = ([], b)"
| "recreate_all bx (inb # inbs) b =
     (let (created, b1) = recreate bx inb b; (log, b2) = recreate_all bx inbs b1
      in (if created then log else RecreateInbound (i_Tag inb) # log, b2))"











section \<open>The contract of the library\<close>

text \<open>
  Over what a box serves: \<open>ins b\<close>, its inbounds by tag, and \<open>rules b\<close>, its route rules and rule sets. Creating an
  inbound makes it the inbound of its tag, updating the users of an inbound replaces its \<^verbatim>\<open>users\<close> option, new
  rules replace the old ones; what fails changes nothing (an update that fails may leave anything at its tag).
  The outbound manager touches neither inbounds nor rules.
\<close>

definition set_users :: "Inbound \<Rightarrow> Inbound \<Rightarrow> Inbound" where
  "set_users inb old =
     old\<lparr>i_Options := (case map_of (i_Options inb) ''users'' of
        Some us \<Rightarrow> mput ''users'' us (i_Options old) | None \<Rightarrow> mdel ''users'' (i_Options old))\<rparr>"

definition box_ok :: "'b box \<Rightarrow> ('b \<Rightarrow> string \<Rightarrow> Inbound option) \<Rightarrow> ('b \<Rightarrow> any list \<times> any list) \<Rightarrow> bool" where
  "box_ok bx ins rules \<longleftrightarrow>
     (\<forall>t b. bx_Get bx t b = map_option i_Type (ins b t)) \<and>
     (\<forall>inb b. case bx_UpdateUsers bx inb b of (ok, b') \<Rightarrow>
        (\<forall>t. t \<noteq> i_Tag inb \<longrightarrow> ins b' t = ins b t) \<and> rules b' = rules b \<and>
        (ok \<longrightarrow> ins b' (i_Tag inb) = map_option (set_users inb) (ins b (i_Tag inb)))) \<and>
     (\<forall>t b. ins (bx_Remove bx t b) = (ins b)(t := None) \<and> rules (bx_Remove bx t b) = rules b) \<and>
     (\<forall>inb b. case bx_Create bx inb b of (ok, b') \<Rightarrow>
        ins b' = (if ok then (ins b)(i_Tag inb \<mapsto> inb) else ins b) \<and> rules b' = rules b) \<and>
     (\<forall>rs ss b. case bx_UpdateRules bx rs ss b of (ok, b') \<Rightarrow> ins b' = ins b \<and> rules b' = (if ok then (rs, ss) else rules b)) \<and>
     (\<forall>ob b. case om_Create (bx_om bx) ob b of (ok, b') \<Rightarrow> ins b' = ins b \<and> rules b' = rules b) \<and>
     (\<forall>t b. case om_Remove (bx_om bx) t b of (ok, b') \<Rightarrow> ins b' = ins b \<and> rules b' = rules b)"

text \<open>Two inbounds with the same options, in any order of the keys.\<close>

definition same_inbound :: "Inbound \<Rightarrow> Inbound \<Rightarrow> bool" where
  "same_inbound i j \<longleftrightarrow> i_Type i = i_Type j \<and> map_of (i_Options i) = map_of (i_Options j)"


lemma set_users_same:
  assumes "same_inbound old inb"
  shows "same_inbound (set_users inb old) inb"
  using assms by (auto simp: same_inbound_def set_users_def map_of_mput map_of_mdel fun_eq_iff split: option.split)

lemma box_laws:
  assumes "box_ok bx ins rules"
  shows "bx_Get bx t b = map_option i_Type (ins b t)"
    and "bx_UpdateUsers bx inb b = (ok, b') \<Longrightarrow> (\<forall>t. t \<noteq> i_Tag inb \<longrightarrow> ins b' t = ins b t) \<and> rules b' = rules b \<and>
        (ok \<longrightarrow> ins b' (i_Tag inb) = map_option (set_users inb) (ins b (i_Tag inb)))"
    and "ins (bx_Remove bx t b) = (ins b)(t := None)" and "rules (bx_Remove bx t b) = rules b"
    and "bx_Create bx inb b = (ok, b') \<Longrightarrow> ins b' = (if ok then (ins b)(i_Tag inb \<mapsto> inb) else ins b) \<and> rules b' = rules b"
    and "bx_UpdateRules bx rs ss b = (ok, b') \<Longrightarrow> ins b' = ins b \<and> rules b' = (if ok then (rs, ss) else rules b)"
    and "om_Create (bx_om bx) ob b = (ok, b') \<Longrightarrow> ins b' = ins b \<and> rules b' = rules b"
    and "om_Remove (bx_om bx) t b = (ok, b') \<Longrightarrow> ins b' = ins b \<and> rules b' = rules b"
proof -
  note laws = assms [unfolded box_ok_def]
  show "bx_Get bx t b = map_option i_Type (ins b t)" using laws by blast
  show "ins (bx_Remove bx t b) = (ins b)(t := None)" and "rules (bx_Remove bx t b) = rules b"
    using laws [THEN conjunct2, THEN conjunct2, THEN conjunct1, THEN spec [of _ t], THEN spec [of _ b]] by simp_all
  show "bx_UpdateUsers bx inb b = (ok, b') \<Longrightarrow> (\<forall>t. t \<noteq> i_Tag inb \<longrightarrow> ins b' t = ins b t) \<and> rules b' = rules b \<and>
      (ok \<longrightarrow> ins b' (i_Tag inb) = map_option (set_users inb) (ins b (i_Tag inb)))"
    using laws [THEN conjunct2, THEN conjunct1, THEN spec [of _ inb], THEN spec [of _ b]] by simp
  show "bx_Create bx inb b = (ok, b') \<Longrightarrow> ins b' = (if ok then (ins b)(i_Tag inb \<mapsto> inb) else ins b) \<and> rules b' = rules b"
    using laws [THEN conjunct2, THEN conjunct2, THEN conjunct2, THEN conjunct1, THEN spec [of _ inb], THEN spec [of _ b]] by simp
  show "bx_UpdateRules bx rs ss b = (ok, b') \<Longrightarrow> ins b' = ins b \<and> rules b' = (if ok then (rs, ss) else rules b)"
    using laws [THEN conjunct2, THEN conjunct2, THEN conjunct2, THEN conjunct2, THEN conjunct1, THEN spec [of _ rs], THEN spec [of _ ss], THEN spec [of _ b]] by simp
  show "om_Create (bx_om bx) ob b = (ok, b') \<Longrightarrow> ins b' = ins b \<and> rules b' = rules b"
    using laws [THEN conjunct2, THEN conjunct2, THEN conjunct2, THEN conjunct2, THEN conjunct2, THEN conjunct1, THEN spec [of _ ob], THEN spec [of _ b]] by simp
  show "om_Remove (bx_om bx) t b = (ok, b') \<Longrightarrow> ins b' = ins b \<and> rules b' = rules b"
    using laws [THEN conjunct2, THEN conjunct2, THEN conjunct2, THEN conjunct2, THEN conjunct2, THEN conjunct2, THEN spec [of _ t], THEN spec [of _ b]] by simp
qed




section \<open>One inbound\<close>

abbreviation serves :: "('b \<Rightarrow> string \<Rightarrow> Inbound option) \<Rightarrow> 'b \<Rightarrow> Inbound \<Rightarrow> bool" where
  "serves ins b inb \<equiv> rel_option same_inbound (ins b (i_Tag inb)) (Some inb)"


lemma update_users_effect:
  assumes "box_ok bx ins rules" and "update_users bx inb b = (ok, b1)"
  shows "(\<forall>t. t \<noteq> i_Tag inb \<longrightarrow> ins b1 t = ins b t) \<and> rules b1 = rules b \<and> (ok \<longrightarrow> serves ins b inb \<longrightarrow> serves ins b1 inb)"
proof (cases "i_Type inb \<in> set user_types \<and> bx_Updatable bx (i_Tag inb) b")
  case True
  then have "bx_UpdateUsers bx inb b = (ok, b1)" using assms(2) by (simp add: update_users_def)
  note law = box_laws(2) [OF assms(1) this]
  have "serves ins b1 inb" if "ok" "serves ins b inb"
    using law that set_users_same by (auto simp: option_rel_Some2)
  with law show ?thesis by blast
next
  case False
  then show ?thesis using assms(2) by (auto simp: update_users_def)
qed

lemma recreate_effect:
  assumes "box_ok bx ins rules" and "recreate bx inb b = (ok, b1)"
  shows "ins b1 = (ins b)(i_Tag inb := (if ok then Some inb else None)) \<and> rules b1 = rules b"
  using box_laws(5) [OF assms(1) assms(2) [unfolded recreate_def]] box_laws(3,4) [OF assms(1)] by auto

section \<open>The loop over the inbounds of a reload\<close>







text \<open>Decoded options never repeat a tag.\<close>

definition options_ok :: "'b box \<Rightarrow> bool" where
  "options_ok bx \<longleftrightarrow> (\<forall>data opts. bx_options bx data = Some opts \<longrightarrow> distinct (map i_Tag (op_Inbounds opts)))"






section \<open>A reload happens as a whole or not at all\<close>


section \<open>Hot user operations\<close>

text \<open>The inbound of the box at the tag of \<open>inb\<close> lists the users of \<open>inb\<close>.\<close>

definition lists_users :: "('b \<Rightarrow> string \<Rightarrow> Inbound option) \<Rightarrow> 'b \<Rightarrow> Inbound \<Rightarrow> bool" where
  "lists_users ins b inb \<longleftrightarrow>
     (case ins b (i_Tag inb) of
        None \<Rightarrow> False
      | Some cur \<Rightarrow> i_Type cur = i_Type inb \<and> map_of (i_Options cur) ''users'' = map_of (i_Options inb) ''users'')"

text \<open>
  An inbound the type switch updates: of a type it names, and implementing the interface, which is a property
  \<open>impl\<close> of the running inbound (the library's inbounds of Hysteria version 1 and of mieru, and a
  single-user Shadowsocks inbound, do not). An inbound that runs at its tag with the type of the generated one
  and is not updatable is skipped without an error.
\<close>

definition hot_updatable :: "(Inbound \<Rightarrow> bool) \<Rightarrow> Inbound \<Rightarrow> bool" where
  "hot_updatable impl cur \<longleftrightarrow> i_Type cur \<in> set user_types \<and> impl cur"

definition skipped :: "('b \<Rightarrow> string \<Rightarrow> Inbound option) \<Rightarrow> (Inbound \<Rightarrow> bool) \<Rightarrow> 'b \<Rightarrow> Inbound \<Rightarrow> bool" where
  "skipped ins impl b inb \<longleftrightarrow>
     (case ins b (i_Tag inb) of None \<Rightarrow> False | Some cur \<Rightarrow> i_Type cur = i_Type inb \<and> \<not> hot_updatable impl cur)"

text \<open>What becomes of one inbound: skipped, it stays as it was; otherwise it lists the users of the generated one.\<close>

definition swapped :: "('b \<Rightarrow> string \<Rightarrow> Inbound option) \<Rightarrow> (Inbound \<Rightarrow> bool) \<Rightarrow> 'b \<Rightarrow> 'b \<Rightarrow> Inbound \<Rightarrow> bool" where
  "swapped ins impl b b' inb \<longleftrightarrow> (if skipped ins impl b inb then ins b' (i_Tag inb) = ins b (i_Tag inb) else lists_users ins b' inb)"

definition implements :: "'b box \<Rightarrow> ('b \<Rightarrow> string \<Rightarrow> Inbound option) \<Rightarrow> (Inbound \<Rightarrow> bool) \<Rightarrow> bool" where
  "implements bx ins impl \<longleftrightarrow> (\<forall>t b cur. ins b t = Some cur \<longrightarrow> bx_Updatable bx t b = impl cur)"

lemma update_users_lists:
  assumes "box_ok bx ins rules" and "implements bx ins impl" and "update_users bx inb b = (True, b1)"
    and "bx_Get bx (i_Tag inb) b = Some (i_Type inb)"
  shows "swapped ins impl b b1 inb"
proof -
  obtain cur where cur: "ins b (i_Tag inb) = Some cur" "i_Type cur = i_Type inb"
    using assms(4) box_laws(1) [OF assms(1)] by auto
  have u: "bx_Updatable bx (i_Tag inb) b = impl cur" using assms(2) cur(1) by (simp add: implements_def)
  show ?thesis
  proof (cases "hot_updatable impl cur")
    case True
    then have "bx_UpdateUsers bx inb b = (True, b1)" using assms(3) cur(2) u by (simp add: update_users_def hot_updatable_def)
    from box_laws(2) [OF assms(1) this] cur True show ?thesis
      by (auto simp: swapped_def skipped_def lists_users_def set_users_def map_of_mput map_of_mdel split: option.split)
  next
    case False
    then show ?thesis using assms(3) cur u by (auto simp: update_users_def hot_updatable_def swapped_def skipped_def)
  qed
qed

lemma update_users_skipped:
  assumes "box_ok bx ins rules" and "implements bx ins impl" and "skipped ins impl b inb"
  shows "bx_Get bx (i_Tag inb) b = Some (i_Type inb) \<and> fst (update_users bx inb b)"
  using assms by (auto simp: skipped_def implements_def box_laws(1) update_users_def hot_updatable_def split: option.splits)

lemma swapped_cong:
  assumes "ins b (i_Tag inb) = ins c (i_Tag inb)" and "ins b' (i_Tag inb) = ins c' (i_Tag inb)"
  shows "swapped ins impl b b' inb = swapped ins impl c c' inb"
  using assms by (simp add: swapped_def skipped_def lists_users_def)

lemma swap_inbounds_effect:
  assumes ok: "box_ok bx ins rules" and impl: "implements bx ins impl" and "distinct (map i_Tag inbs)"
    and "swap_inbounds bx inbs b = (r, b')"
  shows "rules b' = rules b \<and> (\<forall>t. t \<notin> i_Tag ` set inbs \<longrightarrow> ins b' t = ins b t) \<and>
    (r = None \<longrightarrow> (\<forall>inb \<in> set inbs. swapped ins impl b b' inb))"
  using assms(3,4)
proof (induction inbs arbitrary: b)
  case (Cons inb inbs)
  define upd where "upd = (if bx_Get bx (i_Tag inb) b = Some (i_Type inb) then update_users bx inb b else (False, b))"
  obtain updated b1 where u: "upd = (updated, b1)" by force
  have b1: "(\<forall>t. t \<noteq> i_Tag inb \<longrightarrow> ins b1 t = ins b t) \<and> rules b1 = rules b"
    using u update_users_effect [OF ok, of inb b updated b1] by (auto simp: upd_def split: if_splits)
  have upd: "updated \<Longrightarrow> swapped ins impl b b1 inb" and skip: "skipped ins impl b inb \<Longrightarrow> updated"
    using u update_users_lists [OF ok impl, of inb b b1] update_users_skipped [OF ok impl, of b inb]
    by (auto simp: upd_def split: if_splits)
  have tag: "i_Tag inb \<notin> i_Tag ` set inbs" using Cons.prems(1) by simp
  then have ne: "i_Tag i \<noteq> i_Tag inb" if "i \<in> set inbs" for i using that by (metis image_eqI)
  have step: ?case
    if r: "swap_inbounds bx inbs b2 = (r, b')" and frame: "\<forall>t. t \<noteq> i_Tag inb \<longrightarrow> ins b2 t = ins b t" "rules b2 = rules b"
      and here: "swapped ins impl b b2 inb" for b2
  proof -
    have IH: "rules b' = rules b2" "\<forall>t. t \<notin> i_Tag ` set inbs \<longrightarrow> ins b' t = ins b2 t"
        "r = None \<longrightarrow> (\<forall>i \<in> set inbs. swapped ins impl b2 b' i)"
      using Cons.IH [OF _ r] Cons.prems(1) by simp_all
    have "swapped ins impl b b' inb" using here swapped_cong [of ins b inb b b' b2] IH(2) tag by simp
    moreover have "swapped ins impl b b' i" if "r = None" "i \<in> set inbs" for i
      using IH(3) that frame(1) ne swapped_cong [of ins b i b2 b' b'] by simp
    ultimately show ?thesis using IH(1,2) frame by auto
  qed
  show ?case
  proof (cases updated)
    case True
    then have r: "swap_inbounds bx inbs b1 = (r, b')" using Cons.prems(2) u by (simp add: upd_def)
    show ?thesis by (rule step [OF r]) (use b1 upd True in simp_all)
  next
    case False
    obtain created b2 where c: "recreate bx inb b1 = (created, b2)" by force
    note b2 = recreate_effect [OF ok c]
    show ?thesis
    proof (cases created)
      case True
      then have r: "swap_inbounds bx inbs b2 = (r, b')" using Cons.prems(2) u c \<open>\<not> updated\<close> by (simp add: upd_def)
      have "swapped ins impl b b2 inb" using b2 True False skip by (auto simp: swapped_def lists_users_def)
      then show ?thesis using step [OF r] b1 b2 by simp
    next
      case False
      then have "r \<noteq> None" "b' = b2" using Cons.prems(2) u c \<open>\<not> updated\<close> by (auto simp: upd_def)
      then show ?thesis using b1 b2 by auto
    qed
  qed
qed simp

text \<open>
  C18. A hot replacement of the users that changes the list of users, when it reports success: every inbound of
  the generated configuration the type switch can update, and every one that has to be created, runs with the
  users the configuration lists for it; an inbound that runs with the wanted type and cannot be updated (Hysteria
  version 1, mieru) is left exactly as it was, with its old users. No other listener is touched, the route rules
  stay as they are, connections are attributed by the new users and the kernel records them.
\<close>

theorem singbox_users_hot_swapped:
  assumes "box_ok bx ins rules" and "implements bx ins impl" and "options_ok bx" and "k_box s = Some b" and "k_nodeConfig s = Some nc"
    and "bx_json bx (sb_buildConfig se rng (k_cfg s) nc users (k_tls s)) = Some data" and "bx_options bx data = Some opts"
    and "UserDiff (k_users s) users \<noteq> ([], [])"
    and "sb_UpdateUsers bx se rng users s = ((added, removed, None), s')"
  shows "\<exists>b'. k_box s' = Some b' \<and>
    (\<forall>inb \<in> set (op_Inbounds opts). if skipped ins impl b inb then ins b' (i_Tag inb) = ins b (i_Tag inb) else lists_users ins b' inb) \<and>
    (\<forall>t. t \<notin> i_Tag ` set (op_Inbounds opts) \<longrightarrow> ins b' t = ins b t) \<and> rules b' = rules b \<and>
    k_users s' = users \<and> k_nodeConfig s' = Some nc \<and>
    (\<forall>kt. k_connTracker s' = Some kt \<longrightarrow> ct_uuidMap (kt_tracker kt) = buildUserMap users)"
proof -
  obtain s1 where s1: "reloadInboundsLocked bx se rng users s = (None, s1)" "s' = s1\<lparr>k_users := users\<rparr>"
    using assms(4,8,9) by (auto simp: sb_UpdateUsers_def Let_def split: prod.splits if_splits option.splits)
  obtain b' where b': "swap_inbounds bx (op_Inbounds opts) b = (None, b')"
      and s1': "s1 = on_tracker (SetUserMap (buildUserMap users)) (s\<lparr>k_box := Some b'\<rparr>)"
    using s1(1) assms(4-7) by (auto simp: reloadInboundsLocked_def split: if_splits prod.splits option.splits)
  have "distinct (map i_Tag (op_Inbounds opts))" using assms(3,7) unfolding options_ok_def by blast
  from swap_inbounds_effect [OF assms(1,2) this b'] have
    "\<forall>inb \<in> set (op_Inbounds opts). if skipped ins impl b inb then ins b' (i_Tag inb) = ins b (i_Tag inb) else lists_users ins b' inb"
    "\<forall>t. t \<notin> i_Tag ` set (op_Inbounds opts) \<longrightarrow> ins b' t = ins b t" "rules b' = rules b"
    by (simp_all add: swapped_def)
  then show ?thesis using assms(5) by (auto simp: s1(2) s1' on_tracker_def SetUserMap_def)
qed

text \<open>
  An inbound of Hysteria version 1 has a type the switch does not name: the operation reports success and
  changes nothing.
\<close>

lemma hysteria1_users_kept:
  assumes "i_Type inb = ''hysteria''" and "bx_Get bx (i_Tag inb) b = Some ''hysteria''"
  shows "swap_inbounds bx [inb] b = (None, b)"
  using assms by (simp add: update_users_def user_types_def)

text \<open>
  C40. The route rules in force decide for a user added by a hot operation without any profile: with route
  profiles, a user who was not in the list the rules were generated for is routed by the private ranges, the raw
  and the panel rules and then directly, as if no profile existed for its scope.
\<close>

theorem singbox_hot_user_unscoped:
  assumes "n_RouteProfiles nc = Some profiles" and "profiles \<noteq> []" and "UUID u \<notin> UUID ` set users"
  shows "sb_decide hit (UUID u) (sb_buildRoutesForUsers se rng nc custom users) =
    (case sb_pick hit (UUID u) (map AnyMap sb_private_rules @ sb_raw_rules se custom @
        map AnyMap (concat (map sb_compilePanelRouteRule (elems (n_Routes nc))))) of
       Some t \<Rightarrow> t | None \<Rightarrow> ''direct'')"
proof -
  have ne: "elems (n_RouteProfiles nc) \<noteq> []" using assms(1,2) by simp
  have miss: "sb_pick hit (UUID u) (map AnyMap (sb_profile_rules users sp)) = None" for sp
    unfolding sb_profile_rules_def by (rule sb_scoped_miss) (use assms(3) in \<open>auto simp: scope_uuids_def\<close>)
  have none: "sb_pick hit (UUID u) (map AnyMap (concat (map (sb_profile_rules users) sps))) = None" for sps
  proof (induction sps)
    case (Cons sp sps)
    then show ?case using miss [of sp] by (simp add: pick_append)
  qed (simp add: pick_def)
  show ?thesis
    unfolding sb_decide_def sb_rules_of_profiles [OF ne]
    by (simp only: pick_append none) (simp split: option.split)
qed

section \<open>An instance\<close>

text \<open>
  A box that is its inbounds, its rules and the tags of its outbounds, of a library that accepts everything but
  VMess listeners.
\<close>

type_synonym demo_box = "(string, Inbound) gomap \<times> (any list \<times> any list) \<times> string list"

definition demo_inbounds :: "M \<Rightarrow> Inbound list" where
  "demo_inbounds data =
     (case map_of data ''inbounds'' of
        Some (AnyList [AnyMap m]) \<Rightarrow> [\<lparr>i_Type = string_at m ''type'', i_Tag = string_at m ''tag'', i_Options = m\<rparr>]
      | _ \<Rightarrow> [])"

definition demo_options :: "M \<Rightarrow> Options" where
  "demo_options data = \<lparr>op_Inbounds = demo_inbounds data, op_Outbounds = [], op_Rules = config_rules data, op_RuleSet = []\<rparr>"

definition demo_boxed :: "Options \<Rightarrow> demo_box" where
  "demo_boxed opts = (map (\<lambda>i. (i_Tag i, i)) (op_Inbounds opts), (op_Rules opts, op_RuleSet opts), [])"

definition demo_bx :: "demo_box box" where
  "demo_bx = \<lparr>bx_json = Some, bx_options = (\<lambda>data. Some (demo_options data)), bx_New = (\<lambda>opts. Some (demo_boxed opts)),
     bx_Start = Some, bx_InboundManager = (\<lambda>_. True), bx_Router = (\<lambda>_. True), bx_OutboundManager = (\<lambda>_. True),
     bx_Get = (\<lambda>t (is, rs, os). map_option i_Type (map_of is t)), bx_Updatable = (\<lambda>_ _. True),
     bx_UpdateUsers = (\<lambda>inb (is, rs, os).
        (True, (case map_of is (i_Tag inb) of Some old \<Rightarrow> mput (i_Tag inb) (set_users inb old) is | None \<Rightarrow> is), rs, os)),
     bx_Remove = (\<lambda>t (is, rs, os). (mdel t is, rs, os)),
     bx_Create = (\<lambda>inb (is, rs, os). if i_Type inb = ''vmess'' then (False, is, rs, os) else (True, mput (i_Tag inb) inb is, rs, os)),
     bx_UpdateRules = (\<lambda>r ss (is, rs, os). (True, is, (r, ss), os)),
     bx_om = \<lparr>om_Outbound = (\<lambda>t (is, rs, os). t \<in> set os), om_Create = (\<lambda>ob (is, rs, os). (True, is, rs, o_Tag ob # os)),
       om_Remove = (\<lambda>t (is, rs, os). (True, is, rs, removeAll t os))\<rparr>,
     bx_ser = (\<lambda>ob. Some (o_Tag ob))\<rparr>"

abbreviation demo_ins :: "demo_box \<Rightarrow> string \<Rightarrow> Inbound option" where
  "demo_ins b \<equiv> map_of (fst b)"

abbreviation demo_rules :: "demo_box \<Rightarrow> any list \<times> any list" where
  "demo_rules b \<equiv> fst (snd b)"

definition demo_sb :: "(demo_box, unit) SingBox" where
  "demo_sb = snd (sb_Start demo_bx demo_senv rev (route_spec ''vless'') route_users ([], []) (New_singbox route_kcfg))"

lemma demo_box_ok: "box_ok demo_bx demo_ins demo_rules"
  by (auto simp: box_ok_def demo_bx_def map_of_mput map_of_mdel fun_eq_iff split: option.splits if_splits)

lemma demo_options_ok: "options_ok demo_bx"
proof -
  have "length (demo_inbounds data) \<le> 1" for data
    by (auto simp: demo_inbounds_def split: option.split any.split list.split)
  then have "distinct (map i_Tag (demo_inbounds data))" for data
    by (metis One_nat_def distinct_singleton distinct.simps(1) le_SucE le_zero_eq length_0_conv length_Suc_conv list.map(1,2))
  then show ?thesis by (simp add: options_ok_def demo_bx_def demo_options_def)
qed

abbreviation demo_config :: "NodeSpec \<Rightarrow> UserSpec list \<Rightarrow> M" where
  "demo_config nc users \<equiv> sb_buildConfig demo_senv rev route_kcfg nc users ([], [])"

lemma demo_sb_fields:
  "k_box demo_sb = Some (demo_boxed (demo_options (demo_config (route_spec ''vless'') route_users)))"
  "k_nodeConfig demo_sb = Some (route_spec ''vless'')" "k_users demo_sb = route_users" "k_tls demo_sb = ([], [])" "k_cfg demo_sb = route_kcfg"
  by (simp_all add: demo_sb_def sb_Start_def demo_bx_def registerTracker_def New_singbox_def)



text \<open>When the library refuses a previous listener as well, the tag is not served any more and the log says so.\<close>

lemma restore_may_fail:
  assumes "box_ok bx ins rules" and "\<not> fst (recreate bx inb b)"
  shows "fst (recreate_all bx [inb] b) = [RecreateInbound (i_Tag inb)] \<and> ins (snd (recreate_all bx [inb] b)) (i_Tag inb) = None"
  using assms(2) recreate_effect [OF assms(1), of inb b] by (cases "recreate bx inb b") auto

theorem singbox_users_hot_swapped_witness:
  "\<exists>b. k_box (snd (sb_UpdateUsers demo_bx demo_senv rev (tl route_users) demo_sb)) = Some b \<and>
     (\<forall>inb \<in> set (demo_inbounds (demo_config (route_spec ''vless'') (tl route_users))). lists_users demo_ins b inb) \<and>
     k_users (snd (sb_UpdateUsers demo_bx demo_senv rev (tl route_users) demo_sb)) = tl route_users"
proof -
  let ?cfg = "demo_config (route_spec ''vless'') (tl route_users)"
  let ?b = "demo_boxed (demo_options (demo_config (route_spec ''vless'') route_users))"
  obtain added removed r s' where res: "sb_UpdateUsers demo_bx demo_senv rev (tl route_users) demo_sb = ((added, removed, r), s')"
    using prod_cases3 by (metis surj_pair)
  have "snd (snd (fst (sb_UpdateUsers demo_bx demo_senv rev (tl route_users) demo_sb))) = None" by code_simp
  then have "r = None" by (simp add: res)
  have json: "bx_json demo_bx (sb_buildConfig demo_senv rev (k_cfg demo_sb) (route_spec ''vless'') (tl route_users) (k_tls demo_sb)) = Some ?cfg"
    and opts: "bx_options demo_bx ?cfg = Some (demo_options ?cfg)"
    by (simp_all add: demo_bx_def demo_sb_fields)
  have impl: "implements demo_bx demo_ins (\<lambda>_. True)" by (simp add: implements_def demo_bx_def)
  have "list_all (\<lambda>i. i_Type i \<in> set user_types) (demo_inbounds ?cfg)" by code_simp
  then have hot: "\<not> skipped demo_ins (\<lambda>_. True) ?b inb" if "inb \<in> set (demo_inbounds ?cfg)" for inb
    using that by (auto simp: skipped_def hot_updatable_def list_all_iff split: option.splits)
  have diff: "UserDiff (k_users demo_sb) (tl route_users) \<noteq> ([], [])"
    unfolding demo_sb_fields by code_simp
  show ?thesis
    using singbox_users_hot_swapped [OF demo_box_ok impl demo_options_ok demo_sb_fields(1,2) json opts diff res [unfolded \<open>r = None\<close>]] hot
    by (auto simp: res demo_options_def)
qed

theorem singbox_hot_user_unscoped_witness:
  "sb_decide (\<lambda>_. False) ''new-user'' (sb_buildRoutesForUsers demo_senv rev (route_spec ''vless'') [] route_users) = ''direct''"
proof -
  have p: "n_RouteProfiles (route_spec ''vless'') = Some demo_profiles" "demo_profiles \<noteq> []"
    by (simp_all add: route_spec_def demo_profiles_def)
  let ?u = "\<lparr>ID = 9, UUID = ''new-user'', SpeedLimit = 0, DeviceLimit = 0, RouteScope = ''admin''\<rparr>"
  have "UUID ?u \<notin> UUID ` set route_users" by (simp add: route_users_def)
  moreover have "sb_pick (\<lambda>_. False) ''new-user'' (map AnyMap sb_private_rules @ sb_raw_rules demo_senv [] @
        map AnyMap (concat (map sb_compilePanelRouteRule (elems (n_Routes (route_spec ''vless'')))))) = None"
    by code_simp
  ultimately show ?thesis
    using singbox_hot_user_unscoped [OF p, of ?u route_users "\<lambda>_. False" demo_senv rev "[]"] by simp
qed

end
