(* ===== verification/XrayKernel.thy ===== *)
theory XrayKernel
  imports XrayRouting Dispatcher
begin

text \<open>
  The Xray kernel (\<^verbatim>\<open>internal/kernel/xray/xray.go\<close>): start, reload and stop, the hot user operations through
  the user manager of the running inbound, the traffic counters and the limits it hands to the dispatcher
  and the bandwidth feature.

  xray-core is code of another repository. Its operations on a running instance of type \<open>'i\<close> are the
  arguments of record \<open>core\<close>; what the properties rely on is stated by \<open>um_ok\<close>. A public method holds the
  mutex except while it calls the core; methods do not overlap, since the service calls them one at a time.
  Closing an old instance runs in the background and has no effect on the state here. \<open>xenv\<close> gathers the
  core with the hash, JSON, UUID and SHA-224 functions and the orders in which maps are walked.
\<close>

section \<open>Accounts\<close>

datatype CipherType = AES_128_GCM | AES_256_GCM | CHACHA20_POLY1305 | XCHACHA20_POLY1305 | CIPHER_NONE

datatype Account =
    VMessAccount string
  | VLESSAccount string string
  | TrojanAccount string string
  | SS2022Account string
  | SSAccount CipherType string

record MemoryUser =
  mu_Email :: string
  mu_Account :: Account

datatype xerror = NotRunning | ParseConfig | CreateInstance | StartInstance | BadUUID | BadMethod | BadSSAccount | NoMemoryUser

section \<open>State\<close>

record 'i core =
  co_load :: "M \<Rightarrow> bool"
  co_new :: "M \<Rightarrow> 'i option"
  co_start :: "'i \<Rightarrow> bool"
  co_manager :: "string \<Rightarrow> 'i \<Rightarrow> bool"
  co_AddUser :: "MemoryUser \<Rightarrow> 'i \<Rightarrow> bool \<times> 'i"
  co_RemoveUser :: "string \<Rightarrow> 'i \<Rightarrow> bool \<times> 'i"
  co_stats :: "'i \<Rightarrow> bool"
  co_counter :: "'i \<Rightarrow> string \<Rightarrow> int option"
  co_reset :: "string \<Rightarrow> 'i \<Rightarrow> 'i"
  co_bandwidth :: "'i \<Rightarrow> bool"
  co_limits :: "(string \<times> (string + int)) list \<Rightarrow> 'i \<Rightarrow> 'i"

record 'i xenv =
  xe_k :: kenv
  xe_core :: "'i core"
  xe_uuid :: "string \<Rightarrow> string option"
  xe_ssOK :: "CipherType \<Rightarrow> string \<Rightarrow> bool"
  xe_sha224 :: "string \<Rightarrow> string"
  xe_sha :: "string \<Rightarrow> string"
  xe_json :: "NodeSpec \<Rightarrow> string"
  xe_profiles :: "(string \<times> RouteProfile) list \<Rightarrow> (string \<times> RouteProfile) list"
  xe_users :: "(int \<times> UserSpec) list \<Rightarrow> (int \<times> UserSpec) list"

record 'i Xray =
  x_cfg :: KernelConfig
  x_instance :: "'i option"
  x_limitDispatcher :: "LimitDispatcher option"
  x_users :: "UserSpec list"
  x_nodeConfig :: "NodeSpec option"
  x_tls :: TLSCert
  x_protocol :: string
  x_inboundTag :: string
  x_lastKernelHash :: string
  x_cumTraffic :: "(int, int \<times> int) gomap"
  x_speedLimitFunc :: bool
  x_running :: bool

definition New_xray :: "KernelConfig \<Rightarrow> 'i Xray" where
  "New_xray cfg = \<lparr>x_cfg = cfg, x_instance = None, x_limitDispatcher = None, x_users = [], x_nodeConfig = None,
     x_tls = ([], []), x_protocol = [], x_inboundTag = [], x_lastKernelHash = [], x_cumTraffic = [],
     x_speedLimitFunc = False, x_running = False\<rparr>"

definition xray_Protocols :: "string list" where
  "xray_Protocols = [''vmess'', ''vless'', ''trojan'', ''shadowsocks'', ''hysteria'']"

section \<open>Limits\<close>

definition device_limits :: "UserSpec list \<Rightarrow> (string, int) gomap" where
  "device_limits users =
     fold (\<lambda>u m. if 0 < DeviceLimit u then mput (UUID u) (DeviceLimit u) (mput (userEmail (ID u)) (DeviceLimit u) m) else m) users []"

definition email_uids :: "UserSpec list \<Rightarrow> (string, int) gomap" where
  "email_uids users = fold (\<lambda>u m. mput (UUID u) (ID u) (mput (userEmail (ID u)) (ID u) m)) users []"

definition updateDispatcherLimits :: "UserSpec list \<Rightarrow> 'i Xray \<Rightarrow> 'i Xray" where
  "updateDispatcherLimits users x =
     (case x_limitDispatcher x of
        None \<Rightarrow> x
      | Some ld \<Rightarrow> x\<lparr>x_limitDispatcher := Some (UpdateLimits (email_uids users) (device_limits users) ld)\<rparr>)"

text \<open>\<^verbatim>\<open>int64(u.SpeedLimit) * 1_000_000 / 8\<close>: the product wraps around, the quotient is rounded towards 0.\<close>

definition bytes_per_second :: "UserSpec \<Rightarrow> int" where
  "bytes_per_second u = (let p = i64 (SpeedLimit u * 1000000) in if p < 0 then - (- p div 8) else p div 8)"

text \<open>
  The bandwidth manager is reset and told the limit of each user: the limiter the service resolves the
  UUID to (\<open>Inl\<close>), or the speed limit in bytes per second (\<open>Inr\<close>). A nil user list stands for the current one.
\<close>

definition updateBandwidthLimits :: "'i core \<Rightarrow> UserSpec slice \<Rightarrow> 'i Xray \<Rightarrow> 'i Xray" where
  "updateBandwidthLimits co users x =
     (case x_instance x of
        None \<Rightarrow> x
      | Some inst \<Rightarrow>
          if \<not> co_bandwidth co inst then x
          else
            (let us = (case users of None \<Rightarrow> x_users x | Some us \<Rightarrow> us)
             in x\<lparr>x_instance := Some (co_limits co
                  (map (\<lambda>u. (userEmail (ID u),
                             if x_speedLimitFunc x then Inl (UUID u)
                             else Inr (bytes_per_second u))) us) inst)\<rparr>))"

definition apply_limits :: "'i core \<Rightarrow> UserSpec list \<Rightarrow> 'i Xray \<Rightarrow> 'i Xray" where
  "apply_limits co users x = updateBandwidthLimits co (Some users) (updateDispatcherLimits users x)"

definition xray_SetSpeedLimitFunc :: "'i core \<Rightarrow> bool \<Rightarrow> 'i Xray \<Rightarrow> 'i Xray" where
  "xray_SetSpeedLimitFunc co fn x = updateBandwidthLimits co None (x\<lparr>x_speedLimitFunc := fn\<rparr>)"

section \<open>Accounts of users\<close>

definition hex_digit :: "nat \<Rightarrow> char" where
  "hex_digit n = ''0123456789abcdef'' ! (n mod 16)"

definition hexEncode :: "string \<Rightarrow> string" where
  "hexEncode src = concat (map (\<lambda>v. [hex_digit (byte v div 16), hex_digit (byte v mod 16)]) src)"

definition trojanHexSha224 :: "(string \<Rightarrow> string) \<Rightarrow> string \<Rightarrow> string" where
  "trojanHexSha224 sha224 password = hexEncode (sha224 password)"

definition parseCipherType :: "string \<Rightarrow> CipherType" where
  "parseCipherType cipher =
     (if cipher = ''aes-128-gcm'' then AES_128_GCM
      else if cipher = ''aes-256-gcm'' then AES_256_GCM
      else if cipher = ''chacha20-ietf-poly1305'' \<or> cipher = ''chacha20-poly1305'' then CHACHA20_POLY1305
      else if cipher = ''xchacha20-ietf-poly1305'' \<or> cipher = ''xchacha20-poly1305'' then XCHACHA20_POLY1305
      else if cipher = ''none'' \<or> cipher = ''plain'' then CIPHER_NONE
      else AES_256_GCM)"

definition toMemoryUser :: "'i xenv \<Rightarrow> string \<Rightarrow> NodeSpec \<Rightarrow> UserSpec \<Rightarrow> xerror + MemoryUser" where
  "toMemoryUser en proto nc u =
     (let mu = (\<lambda>a. Inr \<lparr>mu_Email = userEmail (ID u), mu_Account = a\<rparr>) in
      if proto = ''vmess'' then
        (case xe_uuid en (UUID u) of None \<Rightarrow> Inl BadUUID | Some uid \<Rightarrow> mu (VMessAccount uid))
      else if proto = ''vless'' then
        (case xe_uuid en (UUID u) of None \<Rightarrow> Inl BadUUID | Some uid \<Rightarrow> mu (VLESSAccount uid (n_Flow nc)))
      else if proto = ''trojan'' then mu (TrojanAccount (UUID u) (trojanHexSha224 (xe_sha224 en) (UUID u)))
      else if proto = ''shadowsocks'' then
        (if HasPrefix (n_Cipher nc) ''2022-blake3-'' then
           (case SS2022UserKey (n_Cipher nc) (UUID u) of (userKey, True) \<Rightarrow> mu (SS2022Account userKey) | _ \<Rightarrow> Inl BadMethod)
         else
           (let ct = parseCipherType (n_Cipher nc)
            in if xe_ssOK en ct (UUID u) then mu (SSAccount ct (UUID u)) else Inl BadSSAccount))
      else Inl NoMemoryUser)"

section \<open>Lifecycle\<close>

definition xray_needs_geo :: "NodeSpec \<Rightarrow> bool \<times> bool" where
  "xray_needs_geo nc =
     (NeedsGeoIP (n_Routes nc) \<or> NeedsGeoIPRules (n_CustomRouteRules nc) \<or>
        list_ex (\<lambda>(k, p). NeedsGeoIPRules (rp_CustomRouteRules p)) (elems (n_RouteProfiles nc)),
      NeedsGeoSite (n_Routes nc) \<or> NeedsGeoSiteRules (n_CustomRouteRules nc) \<or>
        list_ex (\<lambda>(k, p). NeedsGeoSiteRules (rp_CustomRouteRules p)) (elems (n_RouteProfiles nc)))"

text \<open>
  The geo databases are fetched before the configuration is built; a failure is logged only, so it has no
  effect here. The new instance comes with a fresh dispatcher. The specification is stored, and hashed, as
  building the configuration left it.
\<close>

definition xray_Start :: "'i xenv \<Rightarrow> NodeSpec \<Rightarrow> UserSpec list \<Rightarrow> TLSCert \<Rightarrow> 'i Xray \<Rightarrow> xerror option \<times> 'i Xray" where
  "xray_Start en nc users tls x =
     (let (data, nc') = xray_buildConfig (xe_k en) (xe_profiles en) (x_cfg x) nc users tls in
      if \<not> co_load (xe_core en) data then (Some ParseConfig, x)
      else case co_new (xe_core en) data of
        None \<Rightarrow> (Some CreateInstance, x)
      | Some inst \<Rightarrow>
          if \<not> co_start (xe_core en) inst then (Some StartInstance, x)
          else
            (None, apply_limits (xe_core en) users
              (x\<lparr>x_instance := Some inst, x_limitDispatcher := Some limitDispatcherFactory, x_users := users,
                 x_nodeConfig := Some nc', x_tls := tls, x_protocol := n_Protocol nc', x_inboundTag := n_Protocol nc' @ ''-in'',
                 x_cumTraffic := [], x_lastKernelHash := ComputeHash (xe_sha en) (xe_json en) nc' users, x_running := True\<rparr>)))"

definition tlsEqual :: "TLSCert \<Rightarrow> TLSCert \<Rightarrow> bool" where
  "tlsEqual a b \<longleftrightarrow> fst a = fst b \<and> snd a = snd b"

definition xray_Reload :: "'i xenv \<Rightarrow> NodeSpec \<Rightarrow> UserSpec list \<Rightarrow> TLSCert \<Rightarrow> 'i Xray \<Rightarrow> xerror option \<times> 'i Xray" where
  "xray_Reload en nc users tls x0 =
     (let x = apply_limits (xe_core en) users x0;
          newHash = ComputeHash (xe_sha en) (xe_json en) nc users
      in if x_lastKernelHash x = newHash \<and> tlsEqual (x_tls x) tls then (None, x\<lparr>x_users := users\<rparr>)
         else xray_Start en nc users tls x)"

definition xray_Stop :: "'i Xray \<Rightarrow> 'i Xray" where
  "xray_Stop x = x\<lparr>x_running := False, x_instance := None, x_limitDispatcher := None\<rparr>"

section \<open>User management\<close>

text \<open>Register a list of users with the user manager; users without an account and failures are skipped.\<close>

definition add_one :: "'i xenv \<Rightarrow> string \<Rightarrow> NodeSpec \<Rightarrow> UserSpec \<Rightarrow> int \<times> 'i \<Rightarrow> int \<times> 'i" where
  "add_one en proto nc u acc =
     (case acc of (added, inst) \<Rightarrow>
       (case toMemoryUser en proto nc u of
          Inl e \<Rightarrow> acc
        | Inr mu \<Rightarrow> (case co_AddUser (xe_core en) mu inst of (ok, inst') \<Rightarrow> (if ok then added + 1 else added, inst'))))"

definition remove_one :: "'i core \<Rightarrow> UserSpec \<Rightarrow> int \<times> 'i \<Rightarrow> int \<times> 'i" where
  "remove_one co u acc =
     (case acc of (removed, inst) \<Rightarrow>
       (case co_RemoveUser co (userEmail (ID u)) inst of (ok, inst') \<Rightarrow> (if ok then removed + 1 else removed, inst')))"

definition merge_users :: "'i xenv \<Rightarrow> UserSpec list \<Rightarrow> UserSpec list \<Rightarrow> UserSpec list" where
  "merge_users en old users =
     map snd (xe_users en (fold (\<lambda>u m. mput (ID u) u m) users (mbuild ID (\<lambda>u. u) old)))"

text \<open>The users whose ID is neither known nor earlier in the list.\<close>

fun new_users :: "int list \<Rightarrow> UserSpec list \<Rightarrow> UserSpec list" where
  "new_users known [] = []"
| "new_users known (u # us) =
     (if ID u \<in> set known then new_users known us else u # new_users (ID u # known) us)"

definition xray_AddUsers :: "'i xenv \<Rightarrow> UserSpec list \<Rightarrow> 'i Xray \<Rightarrow> (int \<times> xerror option) \<times> 'i Xray" where
  "xray_AddUsers en users x =
     (case (x_instance x, x_nodeConfig x) of
        (Some inst, Some nc) \<Rightarrow>
          (let toAdd = new_users (map ID (x_users x)) users;
               merged = merge_users en (x_users x) users
           in if toAdd = [] then ((0, None), apply_limits (xe_core en) merged (x\<lparr>x_users := merged\<rparr>))
              else if \<not> co_manager (xe_core en) (x_inboundTag x) inst then
                (case xray_Start en nc merged (x_tls x) x of
                   (Some e, x') \<Rightarrow> ((0, Some e), x')
                 | (None, x') \<Rightarrow> ((int (length toAdd), None), x'))
              else
                (let (added, inst') = fold (add_one en (x_protocol x) nc) toAdd (0, inst)
                 in ((added, None), apply_limits (xe_core en) merged (x\<lparr>x_instance := Some inst', x_users := merged\<rparr>))))
      | _ \<Rightarrow> ((0, Some NotRunning), x))"

definition xray_RemoveUsers :: "'i xenv \<Rightarrow> UserSpec list \<Rightarrow> 'i Xray \<Rightarrow> (int \<times> xerror option) \<times> 'i Xray" where
  "xray_RemoveUsers en users x =
     (case (x_instance x, x_nodeConfig x) of
        (Some inst, Some nc) \<Rightarrow>
          (let kept = filter (\<lambda>u. ID u \<notin> ID ` set users) (x_users x);
               removed = int (length (filter (\<lambda>u. ID u \<in> ID ` set users) (x_users x)))
           in if removed = 0 then ((0, None), x)
              else if kept = [] then ((removed, None), xray_Stop x)
              else if \<not> co_manager (xe_core en) (x_inboundTag x) inst then
                (case xray_Start en nc kept (x_tls x) x of
                   (Some e, x') \<Rightarrow> ((0, Some e), x')
                 | (None, x') \<Rightarrow> ((removed, None), x'))
              else
                (let (actualRemoved, inst') = fold (remove_one (xe_core en)) users (0, inst)
                 in ((actualRemoved, None), apply_limits (xe_core en) kept (x\<lparr>x_instance := Some inst', x_users := kept\<rparr>))))
      | _ \<Rightarrow> ((0, Some NotRunning), x))"

definition xray_UpdateUsers :: "'i xenv \<Rightarrow> UserSpec list \<Rightarrow> 'i Xray \<Rightarrow> (int \<times> int \<times> xerror option) \<times> 'i Xray" where
  "xray_UpdateUsers en users x =
     (case (x_instance x, x_nodeConfig x) of
        (Some inst, Some nc) \<Rightarrow>
          (let (toAdd, toRemove) = UserDiff (x_users x) users;
               added = int (length toAdd); removed = int (length toRemove)
           in if added = 0 \<and> removed = 0 then ((0, 0, None), apply_limits (xe_core en) users (x\<lparr>x_users := users\<rparr>))
              else if \<not> co_manager (xe_core en) (x_inboundTag x) inst then
                (case xray_Start en nc users (x_tls x) x of
                   (Some e, x') \<Rightarrow> ((0, 0, Some e), x')
                 | (None, x') \<Rightarrow> ((added, removed, None), x'))
              else
                (let inst1 = snd (fold (remove_one (xe_core en)) toRemove (0, inst));
                     inst2 = snd (fold (add_one en (x_protocol x) nc) toAdd (0, inst1))
                 in ((added, removed, None), apply_limits (xe_core en) users (x\<lparr>x_instance := Some inst2, x_users := users\<rparr>))))
      | _ \<Rightarrow> ((0, 0, Some NotRunning), x))"

section \<open>Traffic\<close>

text \<open>The instance counters are read and set to zero; they are added to the cumulative counters here.\<close>

definition take_counter :: "'i core \<Rightarrow> string \<Rightarrow> 'i \<Rightarrow> int \<times> 'i" where
  "take_counter co name inst = (case co_counter co inst name of None \<Rightarrow> (0, inst) | Some v \<Rightarrow> (v, co_reset co name inst))"

definition uplink :: "int \<Rightarrow> string" where
  "uplink uid = ''user>>>'' @ userEmail uid @ ''>>>traffic>>>uplink''"

definition downlink :: "int \<Rightarrow> string" where
  "downlink uid = ''user>>>'' @ userEmail uid @ ''>>>traffic>>>downlink''"

definition stats_step ::
  "'i core \<Rightarrow> UserSpec \<Rightarrow> 'i \<times> (int, int \<times> int) gomap \<times> (int, int \<times> int) gomap \<Rightarrow> 'i \<times> (int, int \<times> int) gomap \<times> (int, int \<times> int) gomap" where
  "stats_step co u acc =
     (let (inst, cums, traffic) = acc;
          (dUp, inst1) = take_counter co (uplink (ID u)) inst;
          (dDown, inst2) = take_counter co (downlink (ID u)) inst1;
          old = mget_or (0, 0) cums (ID u);
          cums' = (if 0 < dUp \<or> 0 < dDown then mput (ID u) (i64 (fst old + dUp), i64 (snd old + dDown)) cums else cums);
          cum = mget_or (0, 0) cums' (ID u);
          traffic' = (if 0 < fst cum \<or> 0 < snd cum then mput (ID u) cum traffic else traffic)
      in (inst2, cums', traffic'))"

definition aggregateStats :: "'i core \<Rightarrow> 'i \<Rightarrow> 'i Xray \<Rightarrow> (int, int \<times> int) gomap \<times> 'i Xray" where
  "aggregateStats co inst x =
     (if \<not> co_stats co inst then ([], x)
      else
        (let (inst', cums, traffic) = fold (stats_step co) (x_users x) (inst, x_cumTraffic x, [])
         in (traffic, x\<lparr>x_instance := Some inst', x_cumTraffic := cums\<rparr>)))"

definition xray_GetUserTraffic ::
  "'i core \<Rightarrow> 'i Xray \<Rightarrow> ((int, int \<times> int) gomap \<times> (int, string list) gomap \<times> int) \<times> 'i Xray" where
  "xray_GetUserTraffic co x =
     (case x_instance x of
        Some inst \<Rightarrow>
          if \<not> x_running x then (([], [], 0), x)
          else
            (let (traffic, x') = aggregateStats co inst x;
                 (alive, conns) = (case x_limitDispatcher x of None \<Rightarrow> ([], 0) | Some ld \<Rightarrow> GetConnectionState ld)
             in ((traffic, alive, conns), x'))
      | None \<Rightarrow> (([], [], 0), x))"

section \<open>The accounts of the running inbound\<close>

text \<open>
  What the user manager of xray-core documents, over the accounts of an instance by email: a user whose
  email is registered already is refused, an unknown email cannot be removed; changing limits does not
  touch accounts. The validators of VMess, VLESS, Trojan and Shadowsocks 2022 do this; that of the legacy
  Shadowsocks ciphers has no check for a registered email, so it is outside what is proved with \<open>um_ok\<close>.
\<close>

definition um_ok :: "'i core \<Rightarrow> ('i \<Rightarrow> string \<Rightarrow> Account option) \<Rightarrow> bool" where
  "um_ok co accts \<longleftrightarrow>
     (\<forall>mu inst. accts (snd (co_AddUser co mu inst)) =
        (if accts inst (mu_Email mu) = None then (accts inst)(mu_Email mu \<mapsto> mu_Account mu) else accts inst)) \<and>
     (\<forall>e inst. accts (snd (co_RemoveUser co e inst)) = (accts inst)(e := None)) \<and>
     (\<forall>ls inst. accts (co_limits co ls inst) = accts inst)"

definition acct_of :: "'i xenv \<Rightarrow> string \<Rightarrow> NodeSpec \<Rightarrow> UserSpec \<Rightarrow> Account option" where
  "acct_of en proto nc u = (case toMemoryUser en proto nc u of Inl e \<Rightarrow> None | Inr mu \<Rightarrow> Some (mu_Account mu))"

text \<open>The accounts a user list stands for.\<close>

definition roster :: "'i xenv \<Rightarrow> string \<Rightarrow> NodeSpec \<Rightarrow> UserSpec list \<Rightarrow> string \<Rightarrow> Account option" where
  "roster en proto nc users e =
     (case map_of (map (\<lambda>u. (userEmail (ID u), u)) users) e of None \<Rightarrow> None | Some u \<Rightarrow> acct_of en proto nc u)"

lemma um_limits: "um_ok co accts \<Longrightarrow> accts (co_limits co ls inst) = accts inst"
  by (simp add: um_ok_def)

lemma apply_limits_instance:
  assumes "um_ok co accts" and "x_instance x = Some inst"
  obtains inst' where "x_instance (apply_limits co users x) = Some inst'" and "accts inst' = accts inst"
proof -
  have "x_instance (updateDispatcherLimits users x) = Some inst"
    using assms(2) by (simp add: updateDispatcherLimits_def split: option.split)
  then obtain inst' where "x_instance (apply_limits co users x) = Some inst'" "inst' = inst \<or> (\<exists>ls. inst' = co_limits co ls inst)"
    by (cases "co_bandwidth co inst") (auto simp: apply_limits_def updateBandwidthLimits_def Let_def)
  then show thesis using that um_limits [OF assms(1)] by metis
qed

lemma apply_limits_keeps [simp]:
  "x_users (apply_limits co users x) = x_users x" "x_nodeConfig (apply_limits co users x) = x_nodeConfig x"
  "x_protocol (apply_limits co users x) = x_protocol x" "x_inboundTag (apply_limits co users x) = x_inboundTag x"
  by (simp_all add: apply_limits_def updateBandwidthLimits_def updateDispatcherLimits_def Let_def split: option.split)

lemma accts_remove:
  assumes "um_ok (xe_core en) accts"
  shows "accts (snd (fold (remove_one (xe_core en)) us (k, inst))) e = (if e \<in> (\<lambda>u. userEmail (ID u)) ` set us then None else accts inst e)"
proof (induction us arbitrary: k inst)
  case (Cons u us)
  obtain ok inst' where r: "co_RemoveUser (xe_core en) (userEmail (ID u)) inst = (ok, inst')" by force
  then have "accts inst' = (accts inst)(userEmail (ID u) := None)" using assms unfolding um_ok_def by (metis snd_conv)
  then show ?case using Cons.IH [of _ inst'] by (simp add: remove_one_def r)
qed simp

lemma toMemoryUser_email: "toMemoryUser en proto nc u = Inr mu \<Longrightarrow> mu_Email mu = userEmail (ID u)"
  by (auto simp: toMemoryUser_def Let_def split: if_splits option.splits prod.splits bool.splits)

lemma accts_add_one:
  assumes "um_ok (xe_core en) accts"
  shows "accts (snd (add_one en proto nc u (k, inst))) e =
    (if e = userEmail (ID u) \<and> accts inst e = None then acct_of en proto nc u else accts inst e)"
proof (cases "toMemoryUser en proto nc u")
  case (Inl err)
  then show ?thesis by (auto simp: add_one_def acct_of_def)
next
  case (Inr mu)
  obtain ok inst' where r: "co_AddUser (xe_core en) mu inst = (ok, inst')" by force
  then have "accts inst' = (if accts inst (mu_Email mu) = None then (accts inst)(mu_Email mu \<mapsto> mu_Account mu) else accts inst)"
    using assms unfolding um_ok_def by (metis snd_conv)
  with Inr toMemoryUser_email [OF Inr] show ?thesis by (auto simp: add_one_def r acct_of_def)
qed

text \<open>An account that exists stays as it is, whoever is added.\<close>

lemma accts_add_keeps:
  assumes "um_ok (xe_core en) accts" and "accts inst e = Some a"
  shows "accts (snd (fold (add_one en proto nc) us (k, inst))) e = Some a"
  using assms(2)
proof (induction us arbitrary: k inst)
  case (Cons u us)
  obtain k' inst' where r: "add_one en proto nc u (k, inst) = (k', inst')" by force
  then have "accts inst' e = Some a"
    using accts_add_one [OF assms(1), of proto nc u k inst e] Cons.prems by simp
  then show ?case using Cons.IH [of inst' k'] by (simp add: r)
qed simp

lemma accts_add_new:
  assumes "um_ok (xe_core en) accts" and "distinct (map ID us)" and "\<forall>u \<in> set us. accts inst (userEmail (ID u)) = None"
  shows "accts (snd (fold (add_one en proto nc) us (k, inst))) e =
    (case map_of (map (\<lambda>u. (userEmail (ID u), u)) us) e of None \<Rightarrow> accts inst e | Some u \<Rightarrow> acct_of en proto nc u)"
  using assms(2,3)
proof (induction us arbitrary: k inst)
  case (Cons u us)
  obtain k' inst' where r: "add_one en proto nc u (k, inst) = (k', inst')" by force
  then have inst': "accts inst' e = (if e = userEmail (ID u) \<and> accts inst e = None then acct_of en proto nc u else accts inst e)" for e
    using accts_add_one [OF assms(1), of proto nc u k inst e] by simp
  have fresh: "map_of (map (\<lambda>u. (userEmail (ID u), u)) us) (userEmail (ID u)) = None"
    using Cons.prems(1) by (auto simp: map_of_eq_None_iff)
  have "ID u \<notin> ID ` set us" using Cons.prems(1) by simp
  then have "ID v \<noteq> ID u" if "v \<in> set us" for v using that by (metis image_eqI)
  then have "\<forall>v \<in> set us. accts inst' (userEmail (ID v)) = None"
    using Cons.prems(2) by (simp add: inst')
  then show ?case
    using Cons.IH [of inst' k'] Cons.prems fresh by (auto simp: r inst' split: option.split)
qed simp

lemma map_of_emails:
  assumes "distinct (map ID us)"
  shows "map_of (map (\<lambda>u. (userEmail (ID u), u)) us) e = Some u \<longleftrightarrow> u \<in> set us \<and> e = userEmail (ID u)"
proof -
  have "distinct (map fst (map (\<lambda>u. (userEmail (ID u), u)) us))"
    using assms by (simp add: comp_def distinct_map inj_on_def)
  then show ?thesis by (auto simp: map_of_eq_Some_iff)
qed

lemma acct_of_same: "ID u = ID v \<Longrightarrow> UUID u = UUID v \<Longrightarrow> acct_of en proto nc u = acct_of en proto nc v"
  by (simp add: acct_of_def toMemoryUser_def Let_def)

lemma UserDiff_same_creds:
  assumes "distinct (map ID old)" and "distinct (map ID users)"
    and "\<forall>u \<in> set users. \<forall>v \<in> set old. ID u = ID v \<longrightarrow> UUID u = UUID v"
  shows "UserDiff old users = (filter (\<lambda>u. ID u \<notin> ID ` set old) users, filter (\<lambda>u. ID u \<notin> ID ` set users) old)"
proof -
  have get: "map_of (mbuild ID (\<lambda>u. u) old) i = Some v \<longleftrightarrow> v \<in> set old \<and> ID v = i" for i v
    using assms(1) by (auto simp: mbuild_distinct map_of_eq_Some_iff comp_def)
  have none: "map_of (mbuild ID (\<lambda>u. u) old) i = None \<longleftrightarrow> i \<notin> ID ` set old" for i
    by (simp add: map_of_eq_None_iff dom_mbuild)
  have "(case map_of (mbuild ID (\<lambda>u. u) old) (ID u) of None \<Rightarrow> True | Some v \<Rightarrow> UUID v \<noteq> UUID u) \<longleftrightarrow> ID u \<notin> ID ` set old"
    if u: "u \<in> set users" for u
  proof (cases "ID u \<in> ID ` set old")
    case True
    then obtain v where v: "v \<in> set old" "ID u = ID v" by auto
    from v u assms(3) have "UUID u = UUID v" by blast
    moreover from v have "map_of (mbuild ID (\<lambda>u. u) old) (ID u) = Some v" by (simp only: get)
    ultimately show ?thesis using True by simp
  next
    case False
    then have "map_of (mbuild ID (\<lambda>u. u) old) (ID u) = None" by (rule none [THEN iffD2])
    then show ?thesis using False by simp
  qed
  then show ?thesis
    by (simp add: UserDiff_def Let_def mhas_iff dom_mbuild cong: filter_cong)
qed

lemma roster_user: "distinct (map ID us) \<Longrightarrow> u \<in> set us \<Longrightarrow> roster en proto nc us (userEmail (ID u)) = acct_of en proto nc u"
  by (simp add: roster_def map_of_emails [THEN iffD2])

lemma roster_none:
  assumes "e \<notin> (\<lambda>u. userEmail (ID u)) ` set us"
  shows "roster en proto nc us e = None"
proof -
  have "map_of (map (\<lambda>u. (userEmail (ID u), u)) us) e = None"
    using assms by (simp add: map_of_eq_None_iff image_image)
  then show ?thesis by (simp add: roster_def)
qed

text \<open>Removing the users that left and adding the users that came turns one roster into the other.\<close>

lemma roster_update:
  assumes um: "um_ok (xe_core en) accts" and inst: "accts inst = roster en p nc old"
    and ids: "distinct (map ID old)" "distinct (map ID users)"
    and same: "\<forall>u \<in> set users. \<forall>v \<in> set old. ID u = ID v \<longrightarrow> UUID u = UUID v"
  shows "accts (snd (fold (add_one en p nc) (filter (\<lambda>u. ID u \<notin> ID ` set old) users)
           (0, snd (fold (remove_one (xe_core en)) (filter (\<lambda>u. ID u \<notin> ID ` set users) old) (0, inst))))) = roster en p nc users"
proof
  fix e
  let ?add = "filter (\<lambda>u. ID u \<notin> ID ` set old) users" and ?rem = "filter (\<lambda>u. ID u \<notin> ID ` set users) old"
  define inst1 where "inst1 = snd (fold (remove_one (xe_core en)) ?rem (0, inst))"
  have 1: "accts inst1 e = (if e \<in> (\<lambda>u. userEmail (ID u)) ` set ?rem then None else roster en p nc old e)" for e
    unfolding inst1_def accts_remove [OF um] inst ..
  have absent: "roster en p nc old (userEmail (ID u)) = None" if "ID u \<notin> ID ` set old" for u
    using that by (intro roster_none) auto
  have new: "\<forall>u \<in> set ?add. accts inst1 (userEmail (ID u)) = None" by (simp add: 1 absent)
  have dist: "distinct (map ID ?add)" using ids(2) by (simp add: distinct_map_filter)
  have 2: "accts (snd (fold (add_one en p nc) ?add (0, inst1))) e =
      (case map_of (map (\<lambda>u. (userEmail (ID u), u)) ?add) e of None \<Rightarrow> accts inst1 e | Some u \<Rightarrow> acct_of en p nc u)"
    by (rule accts_add_new [OF um dist new])
  consider (new) u where "u \<in> set users" "e = userEmail (ID u)" "ID u \<notin> ID ` set old"
    | (kept) u v where "u \<in> set users" "e = userEmail (ID u)" "v \<in> set old" "ID v = ID u"
    | (gone) "e \<notin> (\<lambda>u. userEmail (ID u)) ` set users"
    by (metis (no_types, lifting) image_iff)
  then show "accts (snd (fold (add_one en p nc) ?add (0, snd (fold (remove_one (xe_core en)) ?rem (0, inst))))) e = roster en p nc users e"
    unfolding inst1_def [symmetric] 2
  proof cases
    case new
    then have "map_of (map (\<lambda>u. (userEmail (ID u), u)) ?add) e = Some u" using map_of_emails [OF dist] by simp
    then show "(case map_of (map (\<lambda>u. (userEmail (ID u), u)) ?add) e of None \<Rightarrow> accts inst1 e | Some u \<Rightarrow> acct_of en p nc u) = roster en p nc users e"
      using new roster_user [OF ids(2) new(1), of en p nc] by simp
  next
    case kept
    have "map_of (map (\<lambda>u. (userEmail (ID u), u)) ?add) e = None"
      using kept by (auto simp: map_of_eq_None_iff) (metis image_eqI)
    moreover have "e \<notin> (\<lambda>u. userEmail (ID u)) ` set ?rem" using kept by (auto simp: image_iff) metis
    moreover have "roster en p nc old e = acct_of en p nc u"
      using roster_user [OF ids(1) kept(3)] kept acct_of_same same by metis
    ultimately show "(case map_of (map (\<lambda>u. (userEmail (ID u), u)) ?add) e of None \<Rightarrow> accts inst1 e | Some u \<Rightarrow> acct_of en p nc u) = roster en p nc users e"
      using kept roster_user [OF ids(2) kept(1), of en p nc] by (simp add: 1)
  next
    case gone
    then have "map_of (map (\<lambda>u. (userEmail (ID u), u)) ?add) e = None" by (auto simp: map_of_eq_None_iff)
    moreover have "accts inst1 e = None"
    proof (cases "e \<in> (\<lambda>u. userEmail (ID u)) ` set old")
      case True
      then obtain v where "v \<in> set old" "e = userEmail (ID v)" by auto
      with gone have "v \<in> set ?rem" by auto
      with \<open>e = userEmail (ID v)\<close> show ?thesis by (simp add: 1)
    next
      case False
      then show ?thesis by (simp add: 1 roster_none)
    qed
    ultimately show "(case map_of (map (\<lambda>u. (userEmail (ID u), u)) ?add) e of None \<Rightarrow> accts inst1 e | Some u \<Rightarrow> acct_of en p nc u) = roster en p nc users e"
      using gone by (simp add: roster_none)
  qed
qed

text \<open>
  C15. If the running inbound holds exactly the accounts of the kernel's users and no user changed its UUID,
  then replacing the user set through the user manager leaves exactly the accounts of the new users in the
  inbound, without a restart.
\<close>

theorem xray_update_in_step:
  assumes "um_ok (xe_core en) accts" and "x_instance x = Some inst" and "x_nodeConfig x = Some nc"
    and "co_manager (xe_core en) (x_inboundTag x) inst"
    and "accts inst = roster en (x_protocol x) nc (x_users x)"
    and "distinct (map ID (x_users x))" and "distinct (map ID users)"
    and "\<forall>u \<in> set users. \<forall>v \<in> set (x_users x). ID u = ID v \<longrightarrow> UUID u = UUID v"
  shows "\<exists>inst'. x_instance (snd (xray_UpdateUsers en users x)) = Some inst' \<and>
    accts inst' = roster en (x_protocol x) nc users \<and> x_users (snd (xray_UpdateUsers en users x)) = users"
proof -
  let ?old = "x_users x" and ?p = "x_protocol x"
  let ?add = "filter (\<lambda>u. ID u \<notin> ID ` set ?old) users" and ?rem = "filter (\<lambda>u. ID u \<notin> ID ` set users) ?old"
  have diff: "UserDiff ?old users = (?add, ?rem)" using UserDiff_same_creds assms(6-8) by blast
  let ?inst = "snd (fold (add_one en ?p nc) ?add (0, snd (fold (remove_one (xe_core en)) ?rem (0, inst))))"
  have roster: "accts ?inst = roster en ?p nc users" by (rule roster_update) (use assms in auto)
  have "snd (xray_UpdateUsers en users x) = apply_limits (xe_core en) users (x\<lparr>x_instance := Some ?inst, x_users := users\<rparr>)"
  proof (cases "?add = [] \<and> ?rem = []")
    case True
    then have "?inst = inst" by simp
    moreover have "x\<lparr>x_instance := Some inst, x_users := users\<rparr> = x\<lparr>x_users := users\<rparr>" using assms(2) by (cases x) simp
    ultimately have "x\<lparr>x_instance := Some ?inst, x_users := users\<rparr> = x\<lparr>x_users := users\<rparr>" by (simp only:)
    then show ?thesis using True assms(2,3) by (simp only:) (simp add: xray_UpdateUsers_def diff)
  next
    case False
    then show ?thesis using assms(2-4) by (auto simp: xray_UpdateUsers_def diff Let_def)
  qed
  moreover define y where "y = x\<lparr>x_instance := Some ?inst, x_users := users\<rparr>"
  moreover have "x_instance y = Some ?inst" and "x_users y = users" by (simp_all add: y_def)
  moreover obtain inst' where "x_instance (apply_limits (xe_core en) users y) = Some inst'" and "accts inst' = accts ?inst"
    using apply_limits_instance [OF assms(1) \<open>x_instance y = Some ?inst\<close>] by blast
  ultimately show ?thesis using roster by simp
qed

text \<open>A core whose instances are the list of registered accounts and the traffic counters.\<close>

type_synonym demo_inst = "(string, Account) gomap \<times> (string, int) gomap"

definition demo_core :: "demo_inst core" where
  "demo_core = \<lparr>co_load = (\<lambda>_. True), co_new = (\<lambda>_. Some ([], [])), co_start = (\<lambda>_. True),
     co_manager = (\<lambda>t _. t = ''trojan-in''),
     co_AddUser = (\<lambda>mu (as, cs). if mhas as (mu_Email mu) then (False, as, cs)
                                  else (True, mput (mu_Email mu) (mu_Account mu) as, cs)),
     co_RemoveUser = (\<lambda>e (as, cs). (mhas as e, mdel e as, cs)),
     co_stats = (\<lambda>_. True), co_counter = (\<lambda>(as, cs) n. map_of cs n),
     co_reset = (\<lambda>n (as, cs). (as, if mhas cs n then mput n 0 cs else cs)),
     co_bandwidth = (\<lambda>_. False), co_limits = (\<lambda>_ inst. inst)\<rparr>"

definition demo_xenv :: "demo_inst xenv" where
  "demo_xenv = \<lparr>xe_k = demo_kenv, xe_core = demo_core, xe_uuid = (\<lambda>s. Some s), xe_ssOK = (\<lambda>_ _. True),
     xe_sha224 = (\<lambda>s. s), xe_sha = (\<lambda>s. s), xe_json = (\<lambda>_. []), xe_profiles = rev, xe_users = rev\<rparr>"

abbreviation trojan_user :: "int \<Rightarrow> string \<Rightarrow> UserSpec" where
  "trojan_user i uuid \<equiv> \<lparr>ID = i, UUID = uuid, SpeedLimit = 0, DeviceLimit = 0, RouteScope = []\<rparr>"

abbreviation trojan_acct :: "string \<Rightarrow> Account" where
  "trojan_acct uuid \<equiv> TrojanAccount uuid (hexEncode uuid)"

definition demo_inst0 :: demo_inst where
  "demo_inst0 = ([(userEmail 1, trojan_acct ''u1''), (userEmail 2, trojan_acct ''u2'')], [(uplink 1, 7), (downlink 1, 5)])"

definition demo_xray :: "demo_inst Xray" where
  "demo_xray = (New_xray route_kcfg)\<lparr>
     x_instance := Some demo_inst0, x_users := [trojan_user 1 ''u1'', trojan_user 2 ''u2''],
     x_nodeConfig := Some (route_spec ''trojan''), x_protocol := ''trojan'', x_inboundTag := ''trojan-in'',
     x_cumTraffic := [(1, 10, 20)], x_running := True\<rparr>"

lemma demo_xray_fields:
  "x_instance demo_xray = Some demo_inst0" "x_users demo_xray = [trojan_user 1 ''u1'', trojan_user 2 ''u2'']"
  "x_nodeConfig demo_xray = Some (route_spec ''trojan'')" "x_protocol demo_xray = ''trojan''"
  "x_cumTraffic demo_xray = [(1, 10, 20)]" "co_manager (xe_core demo_xenv) (x_inboundTag demo_xray) demo_inst0"
  by (simp_all add: demo_xray_def demo_xenv_def demo_core_def)

lemma demo_um_ok: "um_ok (xe_core demo_xenv) (map_of \<circ> fst)"
  by (auto simp: um_ok_def demo_xenv_def demo_core_def mhas_def map_of_mput map_of_mdel fun_eq_iff split: option.split)

theorem xray_update_in_step_witness:
  "\<exists>inst. x_instance (snd (xray_UpdateUsers demo_xenv [trojan_user 2 ''u2'', trojan_user 3 ''u3''] demo_xray)) = Some inst \<and>
    (map_of \<circ> fst) inst = roster demo_xenv ''trojan'' (route_spec ''trojan'') [trojan_user 2 ''u2'', trojan_user 3 ''u3''] \<and>
    x_users (snd (xray_UpdateUsers demo_xenv [trojan_user 2 ''u2'', trojan_user 3 ''u3''] demo_xray)) =
      [trojan_user 2 ''u2'', trojan_user 3 ''u3'']"
proof -
  have "(map_of \<circ> fst) demo_inst0 = roster demo_xenv (x_protocol demo_xray) (route_spec ''trojan'') (x_users demo_xray)"
    by (simp add: fun_eq_iff demo_xray_fields demo_inst0_def roster_def acct_of_def toMemoryUser_def trojanHexSha224_def demo_xenv_def)
  note step = xray_update_in_step [OF demo_um_ok demo_xray_fields(1,3,6) this]
  show ?thesis
    using step [of "[trojan_user 2 ''u2'', trojan_user 3 ''u3'']"] by (simp add: demo_xray_fields)
qed

text \<open>
  Replacing the user set never changes an account of a user that stays: a user in the new list whose
  email is registered keeps the account it has, also where the new list gives it another UUID. So the old
  credential goes on working and the new one does not, although the kernel records the new list.
\<close>

lemma xray_changed_uuid_ignored:
  assumes "um_ok (xe_core en) accts" and "x_instance x = Some inst" and "x_nodeConfig x = Some nc"
    and "co_manager (xe_core en) (x_inboundTag x) inst"
    and "accts inst (userEmail (ID u)) = Some a" and "u \<in> set users"
  shows "\<exists>inst'. x_instance (snd (xray_UpdateUsers en users x)) = Some inst' \<and>
    accts inst' (userEmail (ID u)) = Some a \<and> x_users (snd (xray_UpdateUsers en users x)) = users"
proof -
  obtain add rem where diff: "UserDiff (x_users x) users = (add, rem)" by force
  then have rem: "ID v \<noteq> ID u" if "v \<in> set rem" for v
    using that assms(6) by (auto simp: UserDiff_def Let_def mhas_iff dom_mbuild)
  define inst1 where "inst1 = snd (fold (remove_one (xe_core en)) rem (0, inst))"
  define inst2 where "inst2 = snd (fold (add_one en (x_protocol x) nc) add (0, inst1))"
  have "accts inst1 (userEmail (ID u)) = Some a"
    unfolding inst1_def accts_remove [OF assms(1)] using assms(5) rem by (auto dest: sym)
  then have kept: "accts inst2 (userEmail (ID u)) = Some a"
    unfolding inst2_def by (rule accts_add_keeps [OF assms(1)])
  let ?x = "snd (xray_UpdateUsers en users x)"
  obtain inst' y where "?x = apply_limits (xe_core en) users y" "x_instance y = Some inst'" "x_users y = users"
      "accts inst' (userEmail (ID u)) = Some a"
  proof (cases "add = [] \<and> rem = []")
    case True
    then show thesis
      using assms(2,3,5) by (intro that [of "x\<lparr>x_users := users\<rparr>" inst]) (simp_all add: xray_UpdateUsers_def diff)
  next
    case False
    then show thesis
      using assms(2-4) kept by (intro that [of "x\<lparr>x_instance := Some inst2, x_users := users\<rparr>" inst2])
        (auto simp: xray_UpdateUsers_def diff Let_def inst1_def inst2_def)
  qed
  then show ?thesis using apply_limits_instance [OF assms(1)] by (metis apply_limits_keeps(1))
qed

theorem xray_changed_uuid_ignored_witness:
  "\<exists>inst. x_instance (snd (xray_UpdateUsers demo_xenv [trojan_user 1 ''new''] demo_xray)) = Some inst \<and>
    (map_of \<circ> fst) inst (userEmail (ID (trojan_user 1 ''new''))) = Some (trojan_acct ''u1'') \<and>
    x_users (snd (xray_UpdateUsers demo_xenv [trojan_user 1 ''new''] demo_xray)) = [trojan_user 1 ''new'']"
  by (rule xray_changed_uuid_ignored [OF demo_um_ok demo_xray_fields(1,3,6)]) (simp_all add: demo_inst0_def)

section \<open>Traffic counters\<close>

text \<open>
  What the statistics feature documents: \<^verbatim>\<open>Set(0)\<close> zeroes the named counter and no other.
\<close>

definition counters_ok :: "'i core \<Rightarrow> bool" where
  "counters_ok co \<longleftrightarrow>
     (\<forall>inst n m. co_counter co (co_reset co n inst) m =
        (if m = n then map_option (\<lambda>_. 0) (co_counter co inst n) else co_counter co inst m))"

definition counted :: "'i core \<Rightarrow> 'i \<Rightarrow> string \<Rightarrow> int" where
  "counted co inst n = (case co_counter co inst n of None \<Rightarrow> 0 | Some v \<Rightarrow> v)"

text \<open>What a user has used: the cumulative counters and what the instance counted since the last poll.\<close>

definition used :: "'i core \<Rightarrow> 'i \<Rightarrow> (int, int \<times> int) gomap \<Rightarrow> int \<Rightarrow> int \<times> int" where
  "used co inst cums i =
     (i64 (fst (mget_or (0, 0) cums i) + counted co inst (uplink i)), i64 (snd (mget_or (0, 0) cums i) + counted co inst (downlink i)))"

lemma counter_names [simp]:
  "uplink i = uplink j \<longleftrightarrow> i = j" "downlink i = downlink j \<longleftrightarrow> i = j" "uplink i \<noteq> downlink j" "downlink j \<noteq> uplink i"
proof -
  have "i = j" if "userEmail i @ s = userEmail j @ s" for s using that by simp
  then show "uplink i = uplink j \<longleftrightarrow> i = j" "downlink i = downlink j \<longleftrightarrow> i = j" by (auto simp: uplink_def downlink_def)
  have "drop (length (uplink i) - 6) (uplink i) \<noteq> drop (length (downlink j) - 6) (downlink j)"
    by (simp add: uplink_def downlink_def)
  then show "uplink i \<noteq> downlink j" "downlink j \<noteq> uplink i" by auto
qed

lemma take_counter_counted:
  assumes "counters_ok co" and "take_counter co n inst = (d, inst')"
  shows "d = counted co inst n" and "counted co inst' m = (if m = n then 0 else counted co inst m)"
  using assms by (auto simp: take_counter_def counted_def counters_ok_def split: option.splits)

text \<open>One user: its counters move into the cumulative ones, nobody else's change.\<close>

lemma stats_step_used:
  assumes ok: "counters_ok co" and step: "stats_step co u (inst, cums, traffic) = (inst', cums', traffic')"
    and pos: "0 \<le> counted co inst (uplink (ID u))" "0 \<le> counted co inst (downlink (ID u))"
    and i64: "in_i64 (fst (mget_or (0, 0) cums (ID u)))" "in_i64 (snd (mget_or (0, 0) cums (ID u)))"
  shows "mget_or (0, 0) cums' j = (if j = ID u then used co inst cums j else mget_or (0, 0) cums j)"
    and "counted co inst' (uplink j) = (if j = ID u then 0 else counted co inst (uplink j))"
    and "counted co inst' (downlink j) = (if j = ID u then 0 else counted co inst (downlink j))"
    and "map_of traffic' j =
      (if j = ID u \<and> (0 < fst (used co inst cums j) \<or> 0 < snd (used co inst cums j)) then Some (used co inst cums j) else map_of traffic j)"
proof -
  obtain dUp inst1 where up: "take_counter co (uplink (ID u)) inst = (dUp, inst1)" by force
  obtain dDown inst2 where down: "take_counter co (downlink (ID u)) inst1 = (dDown, inst2)" by force
  note cu = take_counter_counted [OF ok up] and cd = take_counter_counted [OF ok down]
  have d: "dUp = counted co inst (uplink (ID u))" "dDown = counted co inst (downlink (ID u))" using cu cd by simp_all
  have inst': "inst' = inst2" using step up down by (auto simp: stats_step_def Let_def)
  show "counted co inst' (uplink j) = (if j = ID u then 0 else counted co inst (uplink j))"
    and "counted co inst' (downlink j) = (if j = ID u then 0 else counted co inst (downlink j))"
    unfolding inst' using cu cd by simp_all
  have same: "used co inst cums (ID u) = mget_or (0, 0) cums (ID u)" if "\<not> (0 < dUp \<or> 0 < dDown)"
    using that pos i64 d by (simp add: used_def prod_eq_iff i64_id)
  have cums': "cums' = (if 0 < dUp \<or> 0 < dDown then mput (ID u) (used co inst cums (ID u)) cums else cums)"
    using step up down d by (auto simp: stats_step_def Let_def used_def)
  show c: "mget_or (0, 0) cums' j = (if j = ID u then used co inst cums j else mget_or (0, 0) cums j)" for j
    using same by (auto simp: cums' mget_or_mput)
  have "traffic' = (if 0 < fst (mget_or (0, 0) cums' (ID u)) \<or> 0 < snd (mget_or (0, 0) cums' (ID u))
      then mput (ID u) (mget_or (0, 0) cums' (ID u)) traffic else traffic)"
    using step up down by (auto simp: stats_step_def Let_def)
  then show "map_of traffic' j =
      (if j = ID u \<and> (0 < fst (used co inst cums j) \<or> 0 < snd (used co inst cums j)) then Some (used co inst cums j) else map_of traffic j)"
    by (auto simp: c map_of_mput)
qed

lemma stats_fold_used:
  assumes ok: "counters_ok co" and "distinct (map ID us)"
    and "\<forall>u \<in> set us. 0 \<le> counted co inst (uplink (ID u)) \<and> 0 \<le> counted co inst (downlink (ID u))"
    and "\<forall>u \<in> set us. in_i64 (fst (mget_or (0, 0) cums (ID u))) \<and> in_i64 (snd (mget_or (0, 0) cums (ID u)))"
    and "fold (stats_step co) us (inst, cums, traffic) = (inst', cums', traffic')"
  shows "mget_or (0, 0) cums' j = (if j \<in> ID ` set us then used co inst cums j else mget_or (0, 0) cums j) \<and>
    (j \<in> ID ` set us \<longrightarrow> counted co inst' (uplink j) = 0 \<and> counted co inst' (downlink j) = 0) \<and>
    (j \<notin> ID ` set us \<longrightarrow> counted co inst' (uplink j) = counted co inst (uplink j) \<and>
      counted co inst' (downlink j) = counted co inst (downlink j)) \<and>
    map_of traffic' j =
      (if j \<in> ID ` set us \<and> (0 < fst (used co inst cums j) \<or> 0 < snd (used co inst cums j)) then Some (used co inst cums j) else map_of traffic j)"
  using assms(2-)
proof (induction us arbitrary: inst cums traffic)
  case (Cons u us)
  obtain inst1 cums1 traffic1 where s: "stats_step co u (inst, cums, traffic) = (inst1, cums1, traffic1)"
    using prod_cases3 by blast
  note step = stats_step_used [OF ok s]
  have pos: "0 \<le> counted co inst (uplink (ID u))" "0 \<le> counted co inst (downlink (ID u))"
    and in64: "in_i64 (fst (mget_or (0, 0) cums (ID u)))" "in_i64 (snd (mget_or (0, 0) cums (ID u)))"
    using Cons.prems(2,3) by simp_all
  have u: "ID u \<notin> ID ` set us" using Cons.prems(1) by simp
  then have ne: "ID v \<noteq> ID u" if "v \<in> set us" for v using that by (metis image_eqI)
  have rest: "used co inst1 cums1 j = used co inst cums j" if "j \<noteq> ID u" for j
    using that by (simp add: used_def step [OF pos in64])
  have "\<forall>v \<in> set us. 0 \<le> counted co inst1 (uplink (ID v)) \<and> 0 \<le> counted co inst1 (downlink (ID v))"
    and "\<forall>v \<in> set us. in_i64 (fst (mget_or (0, 0) cums1 (ID v))) \<and> in_i64 (snd (mget_or (0, 0) cums1 (ID v)))"
    using Cons.prems(2,3) by (simp_all add: step [OF pos in64] ne)
  note IH = Cons.IH [OF _ this, of traffic1]
  have IH: "mget_or (0, 0) cums' j = (if j \<in> ID ` set us then used co inst1 cums1 j else mget_or (0, 0) cums1 j) \<and>
    (j \<in> ID ` set us \<longrightarrow> counted co inst' (uplink j) = 0 \<and> counted co inst' (downlink j) = 0) \<and>
    (j \<notin> ID ` set us \<longrightarrow> counted co inst' (uplink j) = counted co inst1 (uplink j) \<and>
      counted co inst' (downlink j) = counted co inst1 (downlink j)) \<and>
    map_of traffic' j =
      (if j \<in> ID ` set us \<and> (0 < fst (used co inst1 cums1 j) \<or> 0 < snd (used co inst1 cums1 j)) then Some (used co inst1 cums1 j) else map_of traffic1 j)"
    by (rule IH) (use Cons.prems(1,4) s in simp_all)
  show ?case
  proof (cases "j = ID u")
    case True
    then show ?thesis using IH u by (simp add: step [OF pos in64])
  next
    case False
    then show ?thesis using IH by (simp add: step [OF pos in64] rest)
  qed
qed simp

text \<open>
  C22. Polling the traffic of the running kernel loses and repeats nothing: the cumulative counters of every
  user grow by exactly what the instance counted since the last poll (with the wrap-around of
  \<^verbatim>\<open>int64\<close>), the instance counters of the user are zero afterwards, and the returned table holds
  these cumulative counters, for the users that have any, and no other entry.
\<close>

theorem xray_traffic_conserved:
  assumes "counters_ok (xe_core en)" and "co_stats (xe_core en) inst" and "distinct (map ID (x_users x))"
    and "\<forall>u \<in> set (x_users x). 0 \<le> counted (xe_core en) inst (uplink (ID u)) \<and> 0 \<le> counted (xe_core en) inst (downlink (ID u))"
    and "\<forall>u \<in> set (x_users x). in_i64 (fst (mget_or (0, 0) (x_cumTraffic x) (ID u))) \<and> in_i64 (snd (mget_or (0, 0) (x_cumTraffic x) (ID u)))"
    and "x_instance x = Some inst" and "x_running x"
    and "xray_GetUserTraffic (xe_core en) x = ((traffic, alive, conns), x')"
  shows "(\<forall>u \<in> set (x_users x). mget_or (0, 0) (x_cumTraffic x') (ID u) = used (xe_core en) inst (x_cumTraffic x) (ID u)) \<and>
    (\<forall>u \<in> set (x_users x). counted (xe_core en) (the (x_instance x')) (uplink (ID u)) = 0 \<and>
       counted (xe_core en) (the (x_instance x')) (downlink (ID u)) = 0) \<and>
    (\<forall>i. map_of traffic i = (let c = mget_or (0, 0) (x_cumTraffic x') i
       in if i \<in> ID ` set (x_users x) \<and> (0 < fst c \<or> 0 < snd c) then Some c else None))"
proof -
  obtain inst' cums traffic' where f: "fold (stats_step (xe_core en)) (x_users x) (inst, x_cumTraffic x, []) = (inst', cums, traffic')"
    using prod_cases3 by blast
  then have "x_instance x' = Some inst'" "x_cumTraffic x' = cums" "traffic = traffic'"
    using assms(2,6-8) by (auto simp: xray_GetUserTraffic_def aggregateStats_def split: option.splits prod.splits)
  with stats_fold_used [OF assms(1,3-5) f] show ?thesis by (simp add: Let_def)
qed

lemma demo_counters_ok: "counters_ok (xe_core demo_xenv)"
  by (auto simp: counters_ok_def demo_xenv_def demo_core_def mhas_def map_of_mput split: option.split)

theorem xray_traffic_conserved_witness:
  "mget_or (0, 0) (x_cumTraffic (snd (xray_GetUserTraffic (xe_core demo_xenv) demo_xray))) 1 = (17, 25)"
proof -
  obtain traffic alive conns x' where r: "xray_GetUserTraffic (xe_core demo_xenv) demo_xray = ((traffic, alive, conns), x')"
    using prod_cases3 by (metis surj_pair)
  have "counted (xe_core demo_xenv) demo_inst0 (uplink 1) = 7" "counted (xe_core demo_xenv) demo_inst0 (downlink 1) = 5"
    "counted (xe_core demo_xenv) demo_inst0 (uplink 2) = 0" "counted (xe_core demo_xenv) demo_inst0 (downlink 2) = 0"
    by (simp_all add: counted_def demo_xenv_def demo_core_def demo_inst0_def)
  moreover have "co_stats (xe_core demo_xenv) demo_inst0" "x_running demo_xray"
    by (simp_all add: demo_xenv_def demo_core_def demo_xray_def)
  ultimately show ?thesis
    using xray_traffic_conserved [OF demo_counters_ok _ _ _ _ demo_xray_fields(1) _ r]
    by (simp add: demo_xray_fields r mget_or_def used_def i64_def in_i64_def)
qed

end
