(* ===== verification/ConfigLoad.thy ===== *)
theory ConfigLoad
  imports Panel KernelCommon "HOL-Library.Char_ord"
begin

text \<open>
  Loading the configuration (\<^verbatim>\<open>internal/config/config.go\<close>) and the policy on control endpoints
  (\<^verbatim>\<open>internal/controlsecurity/endpoints.go\<close>): environment overrides, inheritance from the top level, instance
  identifiers, defaults, validation, and the configurations of the nodes of an instance.

  The environment, the file system, YAML decoding, \<^verbatim>\<open>filepath\<close>, \<^verbatim>\<open>url.Parse\<close>, \<^verbatim>\<open>net.ParseIP\<close> and SHA-1 are fields of
  \<open>cenv\<close>. Of a parsed URL the model keeps what the code reads. \<^verbatim>\<open>EqualFold\<close> is used with ASCII words only, for which
  it compares lower-case forms; the names of hosts and the paths of endpoints are taken to be ASCII, where \<open>ToLower\<close>
  is Go's. The texts of errors are reduced to their kind.
\<close>

section \<open>The configuration\<close>

record ControlConfig =
  cl_Mode :: string
  cl_URL :: string
  cl_Token :: string
  cl_TokenEnv :: string
  cl_MachineID :: string
  cl_PanelPublicKey :: string

record MachineConfig =
  mc_MachineID :: int
  mc_Token :: string
  mc_TokenEnv :: string

record KernelOverride =
  ko_ConfigDir :: string
  ko_GeoDataDir :: string
  ko_LogLevel :: string
  ko_CustomConfig :: string

record NodeEntry =
  ne_NodeID :: int
  ne_NodeType :: string
  ne_Kernel :: "KernelOverride option"
  ne_Cert :: "CertConfig option"

record RuntimeConfig =
  rt_GoMemLimit :: string
  rt_GoGCPercent :: int

record PanelConfig =
  pl_URL :: string
  pl_Token :: string
  pl_TokenEnv :: string
  pl_NodeID :: int
  pl_NodeType :: string
  pl_MachineID :: int

record IntervalConfig =
  iv_PushInterval :: int
  iv_PullInterval :: int
  iv_TrackInterval :: int
  iv_DeviceReportInterval :: int

record WSConfig =
  wc_StatusInterval :: int
  wc_HandshakeTimeout :: int
  wc_BackoffInitial :: int
  wc_BackoffMax :: int
  wc_DiscoveryInterval :: int

record LogConfig =
  lg_Level :: string
  lg_Output :: string

record Config =
  cf_sourcePath :: string
  cf_InstanceID :: string
  cf_Control :: ControlConfig
  cf_Panel :: PanelConfig
  cf_Node :: IntervalConfig
  cf_Kernel :: KernelConfig
  cf_Cert :: CertConfig
  cf_Log :: LogConfig
  cf_Runtime :: RuntimeConfig
  cf_WS :: WSConfig
  cf_Standalone :: "StandaloneConfig option"
  cf_HealthPort :: int
  cf_Nodes :: "NodeEntry list"
  cf_Machine :: "MachineConfig option"

record RootConfig =
  rc_Instances :: "Config list"
  rc_Config :: Config

definition zero_Config :: Config where
  "zero_Config = \<lparr>cf_sourcePath = [], cf_InstanceID = [],
     cf_Control = \<lparr>cl_Mode = [], cl_URL = [], cl_Token = [], cl_TokenEnv = [], cl_MachineID = [], cl_PanelPublicKey = []\<rparr>,
     cf_Panel = \<lparr>pl_URL = [], pl_Token = [], pl_TokenEnv = [], pl_NodeID = 0, pl_NodeType = [], pl_MachineID = 0\<rparr>,
     cf_Node = \<lparr>iv_PushInterval = 0, iv_PullInterval = 0, iv_TrackInterval = 0, iv_DeviceReportInterval = 0\<rparr>,
     cf_Kernel = \<lparr>kc_Type = [], kc_ConfigDir = [], kc_LogLevel = [], kc_GeoDataDir = [], kc_CustomOutbound = [], kc_CustomRoute = [], kc_CustomConfig = []\<rparr>,
     cf_Cert = \<lparr>cc_AutoTLS = False, cc_Domain = [], cc_Email = [], cc_CertFile = [], cc_KeyFile = [], cc_CertDir = [], cc_HTTPPort = 0,
       cc_CertMode = [], cc_DNSProvider = [], cc_DNSEnv = None, cc_CertContent = [], cc_KeyContent = []\<rparr>,
     cf_Log = \<lparr>lg_Level = [], lg_Output = []\<rparr>, cf_Runtime = \<lparr>rt_GoMemLimit = [], rt_GoGCPercent = 0\<rparr>,
     cf_WS = \<lparr>wc_StatusInterval = 0, wc_HandshakeTimeout = 0, wc_BackoffInitial = 0, wc_BackoffMax = 0, wc_DiscoveryInterval = 0\<rparr>,
     cf_Standalone = None, cf_HealthPort = 0, cf_Nodes = [], cf_Machine = None\<rparr>"

record url =
  u_Scheme :: string
  u_Host :: string
  u_Hostname :: string
  u_User :: bool
  u_Fragment :: string
  u_Opaque :: string
  u_EscapedPath :: string

record cenv =
  ce_getenv :: "string \<Rightarrow> string"
  ce_readFile :: "string \<Rightarrow> file_result"
  ce_parseRoot :: "string \<Rightarrow> RootConfig option"
  ce_parseConfig :: "string \<Rightarrow> Config option"
  ce_abs :: "string \<Rightarrow> string option"
  ce_dir :: "string \<Rightarrow> string"
  ce_join :: "string \<Rightarrow> string \<Rightarrow> string"
  ce_stat :: "string \<Rightarrow> bool"
  ce_url :: "string \<Rightarrow> url option"
  ce_loopback :: "string \<Rightarrow> bool"
  ce_sha1 :: "string \<Rightarrow> string"

datatype config_error =
    ParseConfigFile | ParseLegacy | ReadConfigFile | EndpointInvalid | EndpointInsecure | InvalidURL | BadMode | StandaloneMixed
  | StandaloneBad standalone_error | ControlURL | ControlToken | ControlMachineID | ControlMixed | PanelURL | MachineToken
  | MachineNodes | PanelToken | PanelNodeID | NodeEntryID nat | KernelType | CertDomain | PushNegative | PullNegative
  | InInstance nat config_error | DuplicateInstance nat string
  | LegacyRuntime string | HealthPortShared int | ConfigDirShared string | CustomConfigMissing string | BindingShared string

section \<open>Endpoints\<close>

definition ValidateEndpoint :: "cenv \<Rightarrow> string \<Rightarrow> bool \<Rightarrow> config_error + unit" where
  "ValidateEndpoint ce raw websocket =
     (case ce_url ce (TrimSpace raw) of
        None \<Rightarrow> Inl EndpointInvalid
      | Some u \<Rightarrow>
          if u_Hostname u = [] \<or> u_User u \<or> u_Fragment u \<noteq> [] \<or> u_Opaque u \<noteq> [] then Inl EndpointInvalid
          else
            (let secure = (if websocket then ''wss'' else ''https'');
                 loc = (if websocket then ''ws'' else ''http'')
             in if ToLower (u_Scheme u) = secure then Inr ()
                else if ToLower (u_Scheme u) \<noteq> loc \<or> \<not> ce_loopback ce (u_Hostname u) then Inl EndpointInsecure
                else Inr ()))"

section \<open>Environment\<close>

fun envFirst :: "cenv \<Rightarrow> string list \<Rightarrow> string" where
  "envFirst ce [] = []"
| "envFirst ce (n # names) = (if ce_getenv ce n \<noteq> [] then ce_getenv ce n else envFirst ce names)"

text \<open>\<^verbatim>\<open>if v := envFirst(...); v != "" { f(v) }\<close>\<close>

definition with_env :: "cenv \<Rightarrow> string list \<Rightarrow> (string \<Rightarrow> Config \<Rightarrow> Config) \<Rightarrow> Config \<Rightarrow> Config" where
  "with_env ce names f c = (let v = envFirst ce names in if v \<noteq> [] then f v c else c)"

definition on_machine :: "(MachineConfig \<Rightarrow> MachineConfig) \<Rightarrow> Config \<Rightarrow> Config" where
  "on_machine f c =
     c\<lparr>cf_Machine := Some (f (case cf_Machine c of None \<Rightarrow> \<lparr>mc_MachineID = 0, mc_Token = [], mc_TokenEnv = []\<rparr> | Some m \<Rightarrow> m))\<rparr>"

definition applyEnvOverrides :: "cenv \<Rightarrow> Config \<Rightarrow> Config" where
  "applyEnvOverrides ce c =
     (let c = with_env ce [''CORADE_CONTROL_URL''] (\<lambda>v c. c\<lparr>cf_Control := cf_Control c\<lparr>cl_URL := v, cl_Mode := ''device-platform''\<rparr>\<rparr>) c;
          c = with_env ce [''CORADE_AGENT_TOKEN''] (\<lambda>v c. c\<lparr>cf_Control := cf_Control c\<lparr>cl_Token := v, cl_Mode := ''device-platform''\<rparr>\<rparr>) c;
          c = with_env ce [''CORADE_PANEL_PUBLIC_KEY''] (\<lambda>v c. c\<lparr>cf_Control := cf_Control c\<lparr>cl_PanelPublicKey := v, cl_Mode := ''device-platform''\<rparr>\<rparr>) c;
          c = with_env ce [''apiHost'', ''API_HOST''] (\<lambda>v c. c\<lparr>cf_Panel := cf_Panel c\<lparr>pl_URL := v\<rparr>\<rparr>) c;
          c = with_env ce [''apiKey'', ''API_KEY''] (\<lambda>v c. c\<lparr>cf_Panel := cf_Panel c\<lparr>pl_Token := v\<rparr>\<rparr>) c;
          c = with_env ce [''nodeID'', ''NODE_ID'']
                (\<lambda>v c. case ParseInt v of Some i \<Rightarrow> c\<lparr>cf_Panel := cf_Panel c\<lparr>pl_NodeID := i\<rparr>\<rparr> | None \<Rightarrow> c) c;
          c = with_env ce [''nodeType'', ''NODE_TYPE''] (\<lambda>v c. c\<lparr>cf_Panel := cf_Panel c\<lparr>pl_NodeType := v\<rparr>\<rparr>) c;
          c = with_env ce [''kernel'', ''KERNEL_TYPE''] (\<lambda>v c. c\<lparr>cf_Kernel := cf_Kernel c\<lparr>kc_Type := v\<rparr>\<rparr>) c;
          c = with_env ce [''certFile'', ''CERT_FILE''] (\<lambda>v c. c\<lparr>cf_Cert := cf_Cert c\<lparr>cc_CertFile := v\<rparr>\<rparr>) c;
          c = with_env ce [''keyFile'', ''KEY_FILE''] (\<lambda>v c. c\<lparr>cf_Cert := cf_Cert c\<lparr>cc_KeyFile := v\<rparr>\<rparr>) c;
          c = with_env ce [''domain'', ''DOMAIN''] (\<lambda>v c. c\<lparr>cf_Cert := cf_Cert c\<lparr>cc_Domain := v, cc_AutoTLS := True\<rparr>\<rparr>) c;
          c = with_env ce [''logLevel'', ''LOG_LEVEL''] (\<lambda>v c. c\<lparr>cf_Log := cf_Log c\<lparr>lg_Level := v\<rparr>\<rparr>) c;
          c = with_env ce [''MACHINE_ID''] (\<lambda>v c. case ParseInt v of Some i \<Rightarrow> on_machine (\<lambda>m. m\<lparr>mc_MachineID := i\<rparr>) c | None \<Rightarrow> c) c
      in with_env ce [''MACHINE_TOKEN''] (\<lambda>v. on_machine (\<lambda>m. m\<lparr>mc_Token := v\<rparr>)) c)"

definition from_env :: "cenv \<Rightarrow> string \<Rightarrow> string \<Rightarrow> string" where
  "from_env ce token tokenEnv = (if token = [] \<and> tokenEnv \<noteq> [] then ce_getenv ce tokenEnv else token)"

definition resolveEnvRefs :: "cenv \<Rightarrow> Config \<Rightarrow> Config" where
  "resolveEnvRefs ce c =
     c\<lparr>cf_Control := cf_Control c\<lparr>cl_Token := from_env ce (cl_Token (cf_Control c)) (cl_TokenEnv (cf_Control c))\<rparr>,
       cf_Panel := cf_Panel c\<lparr>pl_Token := from_env ce (pl_Token (cf_Panel c)) (pl_TokenEnv (cf_Panel c))\<rparr>,
       cf_Machine := map_option (\<lambda>m. m\<lparr>mc_Token := from_env ce (mc_Token m) (mc_TokenEnv m)\<rparr>) (cf_Machine c)\<rparr>"

section \<open>Inheritance and defaults\<close>

definition or_str :: "string \<Rightarrow> string \<Rightarrow> string" where
  "or_str s d = (if s = [] then d else s)"

definition or_int :: "int \<Rightarrow> int \<Rightarrow> int" where
  "or_int i d = (if i = 0 then d else i)"

definition inherit_control :: "ControlConfig \<Rightarrow> ControlConfig \<Rightarrow> ControlConfig" where
  "inherit_control p c = \<lparr>cl_Mode = or_str (cl_Mode c) (cl_Mode p), cl_URL = or_str (cl_URL c) (cl_URL p),
     cl_Token = or_str (cl_Token c) (cl_Token p), cl_TokenEnv = or_str (cl_TokenEnv c) (cl_TokenEnv p),
     cl_MachineID = or_str (cl_MachineID c) (cl_MachineID p), cl_PanelPublicKey = or_str (cl_PanelPublicKey c) (cl_PanelPublicKey p)\<rparr>"

definition inherit_node :: "IntervalConfig \<Rightarrow> IntervalConfig \<Rightarrow> IntervalConfig" where
  "inherit_node p c = \<lparr>iv_PushInterval = or_int (iv_PushInterval c) (iv_PushInterval p), iv_PullInterval = or_int (iv_PullInterval c) (iv_PullInterval p),
     iv_TrackInterval = or_int (iv_TrackInterval c) (iv_TrackInterval p),
     iv_DeviceReportInterval = or_int (iv_DeviceReportInterval c) (iv_DeviceReportInterval p)\<rparr>"

definition inherit_ws :: "WSConfig \<Rightarrow> WSConfig \<Rightarrow> WSConfig" where
  "inherit_ws p c = \<lparr>wc_StatusInterval = or_int (wc_StatusInterval c) (wc_StatusInterval p),
     wc_HandshakeTimeout = or_int (wc_HandshakeTimeout c) (wc_HandshakeTimeout p), wc_BackoffInitial = or_int (wc_BackoffInitial c) (wc_BackoffInitial p),
     wc_BackoffMax = or_int (wc_BackoffMax c) (wc_BackoffMax p), wc_DiscoveryInterval = or_int (wc_DiscoveryInterval c) (wc_DiscoveryInterval p)\<rparr>"

definition inherit_kernel :: "KernelConfig \<Rightarrow> KernelConfig \<Rightarrow> KernelConfig" where
  "inherit_kernel p c = c\<lparr>kc_Type := or_str (kc_Type c) (kc_Type p), kc_LogLevel := or_str (kc_LogLevel c) (kc_LogLevel p),
     kc_GeoDataDir := or_str (kc_GeoDataDir c) (kc_GeoDataDir p), kc_CustomConfig := or_str (kc_CustomConfig c) (kc_CustomConfig p),
     kc_CustomOutbound := (if kc_CustomOutbound c = [] then kc_CustomOutbound p else kc_CustomOutbound c),
     kc_CustomRoute := (if kc_CustomRoute c = [] then kc_CustomRoute p else kc_CustomRoute c)\<rparr>"

text \<open>Whether the instance has a certificate configuration of its own is decided after it has inherited one.\<close>

definition inherit_cert :: "CertConfig \<Rightarrow> CertConfig \<Rightarrow> CertConfig" where
  "inherit_cert p c =
     (let c = c\<lparr>cc_CertMode := or_str (cc_CertMode c) (cc_CertMode p), cc_Domain := or_str (cc_Domain c) (cc_Domain p),
          cc_Email := or_str (cc_Email c) (cc_Email p), cc_CertFile := or_str (cc_CertFile c) (cc_CertFile p),
          cc_KeyFile := or_str (cc_KeyFile c) (cc_KeyFile p), cc_DNSProvider := or_str (cc_DNSProvider c) (cc_DNSProvider p),
          cc_DNSEnv := (if elems (cc_DNSEnv c) = [] then cc_DNSEnv p else cc_DNSEnv c), cc_HTTPPort := or_int (cc_HTTPPort c) (cc_HTTPPort p),
          cc_CertContent := or_str (cc_CertContent c) (cc_CertContent p), cc_KeyContent := or_str (cc_KeyContent c) (cc_KeyContent p)\<rparr>;
          childHasCertConfig = (cc_CertMode c \<noteq> [] \<or> cc_CertFile c \<noteq> [] \<or> cc_CertContent c \<noteq> [])
      in if \<not> childHasCertConfig \<and> \<not> cc_AutoTLS c \<and> cc_AutoTLS p then c\<lparr>cc_AutoTLS := True\<rparr> else c)"

definition inheritFrom :: "Config \<Rightarrow> Config \<Rightarrow> Config" where
  "inheritFrom parent c =
     c\<lparr>cf_Control := inherit_control (cf_Control parent) (cf_Control c),
       cf_Log := \<lparr>lg_Level = or_str (lg_Level (cf_Log c)) (lg_Level (cf_Log parent)), lg_Output = or_str (lg_Output (cf_Log c)) (lg_Output (cf_Log parent))\<rparr>,
       cf_Node := inherit_node (cf_Node parent) (cf_Node c), cf_WS := inherit_ws (cf_WS parent) (cf_WS c),
       cf_Runtime := \<lparr>rt_GoMemLimit = or_str (rt_GoMemLimit (cf_Runtime c)) (rt_GoMemLimit (cf_Runtime parent)),
         rt_GoGCPercent = or_int (rt_GoGCPercent (cf_Runtime c)) (rt_GoGCPercent (cf_Runtime parent))\<rparr>,
       cf_Kernel := inherit_kernel (cf_Kernel parent) (cf_Kernel c), cf_Cert := inherit_cert (cf_Cert parent) (cf_Cert c)\<rparr>"

definition setDefaultsFrom :: "cenv \<Rightarrow> string \<Rightarrow> Config \<Rightarrow> Config" where
  "setDefaultsFrom ce baseDir c =
     (let co = cf_Control c; k = cf_Kernel c; ce' = cf_Cert c; w = cf_WS c; n = cf_Node c;
          configDir = or_str (kc_ConfigDir k) baseDir
      in c\<lparr>cf_Control := (if cl_Mode co = [] \<and> (cl_URL co \<noteq> [] \<or> cl_Token co \<noteq> [] \<or> cl_TokenEnv co \<noteq> []) then co\<lparr>cl_Mode := ''device-platform''\<rparr> else co),
           cf_Kernel := k\<lparr>kc_Type := or_str (kc_Type k) ''singbox'', kc_ConfigDir := configDir, kc_GeoDataDir := or_str (kc_GeoDataDir k) configDir,
             kc_LogLevel := or_str (kc_LogLevel k) ''warn''\<rparr>,
           cf_Log := \<lparr>lg_Level = or_str (lg_Level (cf_Log c)) ''info'', lg_Output = or_str (lg_Output (cf_Log c)) ''stdout''\<rparr>,
           cf_Cert := ce'\<lparr>cc_CertDir := or_str (cc_CertDir ce') (ce_join ce configDir ''certs''), cc_HTTPPort := or_int (cc_HTTPPort ce') 80\<rparr>,
           cf_WS := \<lparr>wc_StatusInterval = or_int (wc_StatusInterval w) 10, wc_HandshakeTimeout = or_int (wc_HandshakeTimeout w) 15,
             wc_BackoffInitial = or_int (wc_BackoffInitial w) 1, wc_BackoffMax = or_int (wc_BackoffMax w) 60,
             wc_DiscoveryInterval = or_int (wc_DiscoveryInterval w) 300\<rparr>,
           cf_Node := n\<lparr>iv_TrackInterval := or_int (iv_TrackInterval n) 10, iv_DeviceReportInterval := or_int (iv_DeviceReportInterval n) 30\<rparr>\<rparr>)"

section \<open>Modes and instance identifiers\<close>

definition IsMachineMode :: "Config \<Rightarrow> bool" where
  "IsMachineMode c \<longleftrightarrow> (case cf_Machine c of None \<Rightarrow> False | Some m \<Rightarrow> 0 < mc_MachineID m)"

definition IsDevicePlatform :: "Config \<Rightarrow> bool" where
  "IsDevicePlatform c \<longleftrightarrow> ToLower (TrimSpace (cl_Mode (cf_Control c))) = ''device-platform''"

definition IsStandalone :: "Config \<Rightarrow> bool" where
  "IsStandalone c \<longleftrightarrow> (case cf_Standalone c of None \<Rightarrow> False | Some sc \<Rightarrow> sc_Enabled sc)"

text \<open>\<^verbatim>\<open>strings.Trim\<close> and \<^verbatim>\<open>strings.TrimSuffix\<close> for one byte.\<close>

definition trim_byte :: "char \<Rightarrow> string \<Rightarrow> string" where
  "trim_byte x s = rev (dropWhile (\<lambda>y. y = x) (rev (dropWhile (\<lambda>y. y = x) s)))"

definition trim_suffix :: "char \<Rightarrow> string \<Rightarrow> string" where
  "trim_suffix x s = (if s \<noteq> [] \<and> last s = x then butlast s else s)"

text \<open>
  The loop over the runes of the lower-case name: letters and digits are kept, a run of anything else becomes one
  dash. A rune outside ASCII is a run of bytes that are neither, so the loop over bytes does the same.
\<close>

fun slug_loop :: "bool \<Rightarrow> string \<Rightarrow> string" where
  "slug_loop lastDash [] = []"
| "slug_loop lastDash (r # rs) =
     (if is_lower r \<or> is_digit r then r # slug_loop False rs
      else if \<not> lastDash then CHR ''-'' # slug_loop True rs
      else slug_loop lastDash rs)"

definition slug_of :: "string \<Rightarrow> string" where
  "slug_of slugBase =
     (let slug = trim_byte (CHR ''-'') (slug_loop False (ToLower slugBase));
          slug = (if slug = [] then ''panel'' else slug)
      in if 48 < length slug then trim_byte (CHR ''-'') (take 48 slug) else slug)"

definition normalizeBaseURL :: "cenv \<Rightarrow> string \<Rightarrow> config_error + string \<times> string" where
  "normalizeBaseURL ce raw =
     (if raw = ''standalone'' then Inr (raw, raw)
      else case ValidateEndpoint ce raw False of
        Inl e \<Rightarrow> Inl e
      | Inr _ \<Rightarrow>
          (case ce_url ce (TrimSpace raw) of
             None \<Rightarrow> Inl InvalidURL
           | Some u \<Rightarrow>
               if u_Scheme u = [] \<or> u_Host u = [] then Inl InvalidURL
               else
                 (let pathPart = trim_suffix (CHR ''/'') (u_EscapedPath u);
                      hasPath = (pathPart \<noteq> [] \<and> pathPart \<noteq> ''/'');
                      host = ToLower (u_Host u)
                  in Inr (ToLower (u_Scheme u) @ ''://'' @ host @ (if hasPath then pathPart else []),
                          slug_of (host @ (if hasPath then ''-'' @ trim_byte (CHR ''/'') pathPart else []))))))"

definition hex_text :: "string \<Rightarrow> string" where
  "hex_text s = concat (map (\<lambda>v. [''0123456789abcdef'' ! (byte v div 16), ''0123456789abcdef'' ! (byte v mod 16)]) s)"

definition instance_target :: "cenv \<Rightarrow> Config \<Rightarrow> string \<times> string \<times> string" where
  "instance_target ce c =
     (if IsStandalone c then (''standalone'', ''local'', ''standalone'')
      else if IsDevicePlatform c then
        (''device-platform'', take 8 (hex_text (ce_sha1 ce (cl_Token (cf_Control c)))), TrimSpace (cl_URL (cf_Control c)))
      else if IsMachineMode c then
        (''machine'', (case cf_Machine c of Some m \<Rightarrow> FormatInt (mc_MachineID m) | None \<Rightarrow> ''0''), TrimSpace (pl_URL (cf_Panel c)))
      else if cf_Nodes c \<noteq> [] then
        (''node'', Join (sort (map (\<lambda>n. FormatInt (ne_NodeID n)) (cf_Nodes c))) '','', TrimSpace (pl_URL (cf_Panel c)))
      else (''node'', FormatInt (pl_NodeID (cf_Panel c)), TrimSpace (pl_URL (cf_Panel c))))"

definition AutoInstanceID :: "cenv \<Rightarrow> Config \<Rightarrow> config_error + string" where
  "AutoInstanceID ce c =
     (let (mode, target, baseURL) = instance_target ce c in
      case normalizeBaseURL ce baseURL of
        Inl e \<Rightarrow> Inl e
      | Inr (normalized, slug) \<Rightarrow>
          (let key = normalized @ ''|'' @ mode @ ''|'' @ target
           in Inr (slug @ ''-'' @ mode @ ''-'' @ target @ ''-'' @ take 6 (hex_text (ce_sha1 ce key)))))"

section \<open>Validation\<close>

fun node_entries :: "nat \<Rightarrow> NodeEntry list \<Rightarrow> config_error + unit" where
  "node_entries i [] = Inr ()"
| "node_entries i (n # ns) = (if ne_NodeID n \<le> 0 then Inl (NodeEntryID i) else node_entries (Suc i) ns)"

definition panel_used :: "Config \<Rightarrow> bool" where
  "panel_used c \<longleftrightarrow> pl_URL (cf_Panel c) \<noteq> [] \<or> pl_Token (cf_Panel c) \<noteq> [] \<or> pl_TokenEnv (cf_Panel c) \<noteq> [] \<or>
     0 < pl_NodeID (cf_Panel c) \<or> pl_NodeType (cf_Panel c) \<noteq> []"

definition validate_mode :: "Config \<Rightarrow> config_error + unit" where
  "validate_mode c =
     (if IsStandalone c then
        (case validateStandalone (length (cf_Nodes c)) (cf_Standalone c) of Inl e \<Rightarrow> Inl (StandaloneBad e) | Inr _ \<Rightarrow> Inr ())
      else if IsDevicePlatform c then
        (if TrimSpace (cl_URL (cf_Control c)) = [] then Inl ControlURL
         else if TrimSpace (cl_Token (cf_Control c)) = [] \<and> TrimSpace (cl_PanelPublicKey (cf_Control c)) = [] then Inl ControlToken
         else if TrimSpace (cl_MachineID (cf_Control c)) = [] then Inl ControlMachineID
         else if cf_Nodes c \<noteq> [] \<or> cf_Machine c \<noteq> None \<or> panel_used c then Inl ControlMixed
         else Inr ())
      else if IsMachineMode c then
        (if pl_URL (cf_Panel c) = [] then Inl PanelURL
         else if (case cf_Machine c of Some m \<Rightarrow> mc_Token m = [] | None \<Rightarrow> True) then Inl MachineToken
         else if cf_Nodes c \<noteq> [] then Inl MachineNodes
         else Inr ())
      else
        (if pl_URL (cf_Panel c) = [] then Inl PanelURL
         else if pl_Token (cf_Panel c) = [] then Inl PanelToken
         else if cf_Nodes c = [] \<and> pl_NodeID (cf_Panel c) \<le> 0 then Inl PanelNodeID
         else node_entries 0 (cf_Nodes c)))"

definition validate_config :: "cenv \<Rightarrow> Config \<Rightarrow> config_error + unit" where
  "validate_config ce c =
     (let endpoint = (if IsDevicePlatform c then cl_URL (cf_Control c) else pl_URL (cf_Panel c));
          mode = ToLower (TrimSpace (cl_Mode (cf_Control c)))
      in case (if IsStandalone c then Inr () else ValidateEndpoint ce endpoint False) of
           Inl e \<Rightarrow> Inl e
         | Inr _ \<Rightarrow>
             if mode \<noteq> [] \<and> mode \<noteq> ''device-platform'' then Inl BadMode
             else if IsStandalone c \<and> (mode \<noteq> [] \<or> cl_URL (cf_Control c) \<noteq> [] \<or> cl_Token (cf_Control c) \<noteq> [] \<or> cl_TokenEnv (cf_Control c) \<noteq> [] \<or>
                 panel_used c \<or> cf_Machine c \<noteq> None) then Inl StandaloneMixed
             else case validate_mode c of
               Inl e \<Rightarrow> Inl e
             | Inr _ \<Rightarrow>
                 if kc_Type (cf_Kernel c) \<noteq> ''singbox'' \<and> kc_Type (cf_Kernel c) \<noteq> ''xray'' then Inl KernelType
                 else if cc_AutoTLS (cf_Cert c) \<and> cc_Domain (cf_Cert c) = [] then Inl CertDomain
                 else if iv_PushInterval (cf_Node c) < 0 then Inl PushNegative
                 else if iv_PullInterval (cf_Node c) < 0 then Inl PullNegative
                 else Inr ())"

section \<open>Loading\<close>

fun assign_ids :: "cenv \<Rightarrow> nat \<Rightarrow> Config list \<Rightarrow> config_error + Config list" where
  "assign_ids ce i [] = Inr []"
| "assign_ids ce i (c # cs) =
     (case (if cf_InstanceID c \<noteq> [] then Inr (cf_InstanceID c) else AutoInstanceID ce c) of
        Inl e \<Rightarrow> Inl (InInstance i e)
      | Inr iid \<Rightarrow> (case assign_ids ce (Suc i) cs of Inl e \<Rightarrow> Inl e | Inr cs' \<Rightarrow> Inr (c\<lparr>cf_InstanceID := iid\<rparr> # cs')))"

definition configBaseDir :: "cenv \<Rightarrow> string \<Rightarrow> string" where
  "configBaseDir ce configPath = (case ce_abs ce configPath of None \<Rightarrow> ''/etc/corade'' | Some p \<Rightarrow> ce_dir ce p)"

definition root_defaults :: "cenv \<Rightarrow> string \<Rightarrow> RootConfig \<Rightarrow> RootConfig" where
  "root_defaults ce baseDir rc =
     (if rc_Instances rc = [] then rc\<lparr>rc_Config := setDefaultsFrom ce baseDir (rc_Config rc)\<rparr>
      else rc\<lparr>rc_Instances := map (\<lambda>c. setDefaultsFrom ce
             (if 1 < length (rc_Instances rc) \<and> kc_ConfigDir (cf_Kernel c) = [] then ce_join ce baseDir (cf_InstanceID c) else baseDir) c)
           (rc_Instances rc)\<rparr>)"

fun validate_instances :: "cenv \<Rightarrow> nat \<Rightarrow> string list \<Rightarrow> Config list \<Rightarrow> config_error + unit" where
  "validate_instances ce i ids [] = Inr ()"
| "validate_instances ce i ids (c # cs) =
     (case validate_config ce c of
        Inl e \<Rightarrow> Inl (InInstance i e)
      | Inr _ \<Rightarrow>
          if cf_InstanceID c \<in> set ids then Inl (DuplicateInstance i (cf_InstanceID c))
          else validate_instances ce (Suc i) (cf_InstanceID c # ids) cs)"

definition validateRoot :: "cenv \<Rightarrow> RootConfig \<Rightarrow> config_error + unit" where
  "validateRoot ce rc =
     (if rc_Instances rc = [] then validate_config ce (rc_Config rc) else validate_instances ce 0 [] (rc_Instances rc))"

definition on_configs :: "(Config \<Rightarrow> Config) \<Rightarrow> RootConfig \<Rightarrow> RootConfig" where
  "on_configs f rc =
     (if rc_Instances rc = [] then rc\<lparr>rc_Config := f (rc_Config rc)\<rparr> else rc\<lparr>rc_Instances := map f (rc_Instances rc)\<rparr>)"

text \<open>Reading and decoding; \<open>True\<close> with the configuration if there is a file.\<close>

definition read_root :: "cenv \<Rightarrow> string \<Rightarrow> config_error + bool \<times> RootConfig" where
  "read_root ce path =
     (case ce_readFile ce path of
        FileMissing \<Rightarrow> Inr (False, \<lparr>rc_Instances = [], rc_Config = zero_Config\<rparr>)
      | FileError \<Rightarrow> Inl ReadConfigFile
      | FileData data \<Rightarrow>
          (case ce_parseRoot ce data of
             None \<Rightarrow> Inl ParseConfigFile
           | Some rc \<Rightarrow>
               if rc_Instances rc = [] then
                 (case ce_parseConfig ce data of None \<Rightarrow> Inl ParseLegacy | Some legacy \<Rightarrow> Inr (True, rc\<lparr>rc_Config := legacy\<rparr>))
               else Inr (True, rc)))"

definition LoadRoot :: "cenv \<Rightarrow> string \<Rightarrow> config_error + RootConfig" where
  "LoadRoot ce path =
     (case read_root ce path of
        Inl e \<Rightarrow> Inl e
      | Inr (found, rc0) \<Rightarrow>
          (let rc1 = rc0\<lparr>rc_Instances := map (inheritFrom (rc_Config rc0)) (rc_Instances rc0)\<rparr>;
               rc2 = (if found then rc1\<lparr>rc_Config := rc_Config rc1\<lparr>cf_sourcePath := path\<rparr>,
                        rc_Instances := map (\<lambda>c. c\<lparr>cf_sourcePath := path\<rparr>) (rc_Instances rc1)\<rparr> else rc1);
               rc3 = on_configs (resolveEnvRefs ce) (on_configs (applyEnvOverrides ce) rc2)
           in case assign_ids ce 0 (rc_Instances rc3) of
                Inl e \<Rightarrow> Inl e
              | Inr cs \<Rightarrow>
                  (let rc4 = root_defaults ce (configBaseDir ce path) (rc3\<lparr>rc_Instances := cs\<rparr>)
                   in case validateRoot ce rc4 of Inl e \<Rightarrow> Inl e | Inr _ \<Rightarrow> Inr rc4)))"

definition Load :: "cenv \<Rightarrow> string \<Rightarrow> config_error + Config" where
  "Load ce path =
     (case (case ce_readFile ce path of
              FileMissing \<Rightarrow> Inr zero_Config
            | FileError \<Rightarrow> Inl ReadConfigFile
            | FileData data \<Rightarrow>
                (case ce_parseConfig ce data of None \<Rightarrow> Inl ParseConfigFile | Some c \<Rightarrow> Inr (c\<lparr>cf_sourcePath := path\<rparr>))) of
        Inl e \<Rightarrow> Inl e
      | Inr c0 \<Rightarrow>
          (let c = setDefaultsFrom ce (configBaseDir ce path) (resolveEnvRefs ce (applyEnvOverrides ce c0))
           in case validate_config ce c of Inl e \<Rightarrow> Inl e | Inr _ \<Rightarrow> Inr c))"

fun with_ids :: "cenv \<Rightarrow> Config list \<Rightarrow> config_error + Config list" where
  "with_ids ce [] = Inr []"
| "with_ids ce (c # cs) =
     (case (if cf_InstanceID c \<noteq> [] then Inr (cf_InstanceID c) else AutoInstanceID ce c) of
        Inl e \<Rightarrow> Inl e
      | Inr iid \<Rightarrow> (case with_ids ce cs of Inl e \<Rightarrow> Inl e | Inr cs' \<Rightarrow> Inr (c\<lparr>cf_InstanceID := iid\<rparr> # cs')))"

definition NormalizeInstances :: "cenv \<Rightarrow> RootConfig \<Rightarrow> config_error + Config list" where
  "NormalizeInstances ce rc = with_ids ce (if rc_Instances rc = [] then [rc_Config rc] else rc_Instances rc)"

section \<open>Nodes\<close>

definition node_dir :: "Config \<Rightarrow> int \<Rightarrow> string" where
  "node_dir c nodeID = kc_ConfigDir (cf_Kernel c) @ ''/node-'' @ FormatInt nodeID"

definition override_kernel :: "KernelConfig \<Rightarrow> KernelOverride \<Rightarrow> KernelConfig" where
  "override_kernel k e =
     (let k1 = (if ko_ConfigDir e \<noteq> [] then
                  k\<lparr>kc_ConfigDir := ko_ConfigDir e, kc_GeoDataDir := (if kc_GeoDataDir k = kc_ConfigDir k then ko_ConfigDir e else kc_GeoDataDir k)\<rparr>
                else k)
      in k1\<lparr>kc_GeoDataDir := or_str (ko_GeoDataDir e) (kc_GeoDataDir k1), kc_LogLevel := or_str (ko_LogLevel e) (kc_LogLevel k1),
            kc_CustomConfig := or_str (ko_CustomConfig e) (kc_CustomConfig k1)\<rparr>)"

text \<open>
  Without an override the geo directory stays that of the instance (the assignment in the source sets it to the
  value it has).
\<close>

definition expand_node :: "cenv \<Rightarrow> Config \<Rightarrow> NodeEntry \<Rightarrow> Config" where
  "expand_node ce c entry =
     (let kernel = (case ne_Kernel entry of
                      Some e \<Rightarrow> override_kernel (cf_Kernel c) e
                    | None \<Rightarrow> (cf_Kernel c)\<lparr>kc_ConfigDir := node_dir c (ne_NodeID entry)\<rparr>);
          cert = (case ne_Cert entry of Some ct \<Rightarrow> ct | None \<Rightarrow> cf_Cert c)
      in c\<lparr>cf_Nodes := [], cf_Panel := cf_Panel c\<lparr>pl_NodeID := ne_NodeID entry, pl_NodeType := ne_NodeType entry\<rparr>, cf_Kernel := kernel,
           cf_Cert := cert\<lparr>cc_CertDir := or_str (cc_CertDir cert) (ce_join ce (kc_ConfigDir kernel) ''certs'')\<rparr>\<rparr>)"

definition ExpandNodes :: "cenv \<Rightarrow> Config \<Rightarrow> Config list" where
  "ExpandNodes ce c = (if cf_Nodes c = [] then [c] else map (expand_node ce c) (cf_Nodes c))"

text \<open>The machine configuration is present: the code dereferences it.\<close>

definition ExpandMachineNode :: "cenv \<Rightarrow> Config \<Rightarrow> MachineConfig \<Rightarrow> int \<Rightarrow> string \<Rightarrow> Config" where
  "ExpandMachineNode ce c m nodeID nodeType =
     c\<lparr>cf_Nodes := [],
       cf_Panel := cf_Panel c\<lparr>pl_NodeID := nodeID, pl_NodeType := nodeType, pl_Token := mc_Token m, pl_MachineID := mc_MachineID m\<rparr>,
       cf_Kernel := (cf_Kernel c)\<lparr>kc_ConfigDir := node_dir c nodeID\<rparr>,
       cf_Cert := (cf_Cert c)\<lparr>cc_CertDir := ce_join ce (node_dir c nodeID) ''certs''\<rparr>\<rparr>"

definition ExpandDevicePlatformNode :: "cenv \<Rightarrow> Config \<Rightarrow> int \<Rightarrow> string \<Rightarrow> Config" where
  "ExpandDevicePlatformNode ce c nodeID nodeType =
     c\<lparr>cf_Nodes := [], cf_Machine := None,
       cf_Panel := \<lparr>pl_URL = [], pl_Token = [], pl_TokenEnv = [], pl_NodeID = nodeID, pl_NodeType = nodeType, pl_MachineID = 0\<rparr>,
       cf_Kernel := (cf_Kernel c)\<lparr>kc_ConfigDir := node_dir c nodeID\<rparr>,
       cf_Cert := (cf_Cert c)\<lparr>cc_CertDir := ce_join ce (node_dir c nodeID) ''certs''\<rparr>\<rparr>"

section \<open>The startup layout\<close>

record layout =
  ly_ports :: "(int, string) gomap"
  ly_dirs :: "(string, string) gomap"
  ly_bindings :: "(string, string) gomap"

definition custom_missing :: "cenv \<Rightarrow> Config \<Rightarrow> bool" where
  "custom_missing ce c \<longleftrightarrow> (let path = TrimSpace (kc_CustomConfig (cf_Kernel c)) in path \<noteq> [] \<and> \<not> ce_stat ce path)"

definition node_binding :: "Config \<Rightarrow> string" where
  "node_binding c = TrimSpace (pl_URL (cf_Panel c)) @ ''/'' @ FormatInt (pl_NodeID (cf_Panel c))"

fun bind_nodes :: "cenv \<Rightarrow> string \<Rightarrow> Config list \<Rightarrow> (string, string) gomap \<Rightarrow> config_error + (string, string) gomap" where
  "bind_nodes ce owner [] bs = Inr bs"
| "bind_nodes ce owner (n # ns) bs =
     (if mhas bs (node_binding n) then Inl (BindingShared (node_binding n))
      else if custom_missing ce n then Inl (CustomConfigMissing owner)
      else bind_nodes ce owner ns (mput (node_binding n) owner bs))"

definition claim_port :: "Config \<Rightarrow> layout \<Rightarrow> config_error + layout" where
  "claim_port c ly =
     (if 0 < cf_HealthPort c then
        (if mhas (ly_ports ly) (cf_HealthPort c) then Inl (HealthPortShared (cf_HealthPort c))
         else Inr (ly\<lparr>ly_ports := mput (cf_HealthPort c) (cf_InstanceID c) (ly_ports ly)\<rparr>))
      else Inr ly)"

definition claim_dir :: "Config \<Rightarrow> layout \<Rightarrow> config_error + layout" where
  "claim_dir c ly =
     (let dir = TrimSpace (kc_ConfigDir (cf_Kernel c)) in
      if dir \<noteq> [] then
        (if (case map_of (ly_dirs ly) dir of Some other \<Rightarrow> other \<noteq> cf_InstanceID c | None \<Rightarrow> False) then Inl (ConfigDirShared dir)
         else Inr (ly\<lparr>ly_dirs := mput dir (cf_InstanceID c) (ly_dirs ly)\<rparr>))
      else Inr ly)"

definition claim_nodes :: "cenv \<Rightarrow> Config \<Rightarrow> layout \<Rightarrow> config_error + layout" where
  "claim_nodes ce c ly =
     (if IsMachineMode c \<or> IsDevicePlatform c then
        (if custom_missing ce c then Inl (CustomConfigMissing (cf_InstanceID c)) else Inr ly)
      else case bind_nodes ce (cf_InstanceID c) (ExpandNodes ce c) (ly_bindings ly) of
             Inl e \<Rightarrow> Inl e | Inr bs \<Rightarrow> Inr (ly\<lparr>ly_bindings := bs\<rparr>))"

definition place_instance :: "cenv \<Rightarrow> Config \<Rightarrow> layout \<Rightarrow> config_error + layout" where
  "place_instance ce c ly =
     (if \<not> IsStandalone c \<and> \<not> IsDevicePlatform c then Inl (LegacyRuntime (cf_InstanceID c))
      else case claim_port c ly of
        Inl e \<Rightarrow> Inl e
      | Inr ly1 \<Rightarrow> (case claim_dir c ly1 of Inl e \<Rightarrow> Inl e | Inr ly2 \<Rightarrow> claim_nodes ce c ly2))"

fun place_all :: "cenv \<Rightarrow> Config list \<Rightarrow> layout \<Rightarrow> config_error + unit" where
  "place_all ce [] ly = Inr ()"
| "place_all ce (c # cs) ly = (case place_instance ce c ly of Inl e \<Rightarrow> Inl e | Inr ly' \<Rightarrow> place_all ce cs ly')"

definition ValidateStartupLayout :: "cenv \<Rightarrow> Config list \<Rightarrow> config_error + unit" where
  "ValidateStartupLayout ce instances = place_all ce instances \<lparr>ly_ports = [], ly_dirs = [], ly_bindings = []\<rparr>"

section \<open>What loading guarantees\<close>

text \<open>The endpoints \<^verbatim>\<open>ValidateEndpoint\<close> is meant to let through.\<close>

definition endpoint_ok :: "cenv \<Rightarrow> string \<Rightarrow> bool" where
  "endpoint_ok ce raw \<longleftrightarrow>
     (case ce_url ce (TrimSpace raw) of
        None \<Rightarrow> False
      | Some u \<Rightarrow> u_Hostname u \<noteq> [] \<and> \<not> u_User u \<and> u_Fragment u = [] \<and> u_Opaque u = [] \<and>
          (ToLower (u_Scheme u) = ''https'' \<or> ToLower (u_Scheme u) = ''http'' \<and> ce_loopback ce (u_Hostname u)))"

lemma ValidateEndpoint_iff: "ValidateEndpoint ce raw False = Inr () \<longleftrightarrow> endpoint_ok ce raw"
  by (auto simp: ValidateEndpoint_def endpoint_ok_def Let_def split: option.split)

text \<open>The endpoint an instance talks to.\<close>

definition endpoint_of :: "Config \<Rightarrow> string" where
  "endpoint_of c = (if IsDevicePlatform c then cl_URL (cf_Control c) else pl_URL (cf_Panel c))"

text \<open>
  An instance is in one mode, with what the mode needs and nothing of another: standalone, device platform,
  machine mode (a machine with a positive number and its token, no nodes), or node mode (a panel token and
  nodes with positive numbers).
\<close>

definition mode_ok :: "Config \<Rightarrow> bool" where
  "mode_ok c \<longleftrightarrow>
     (if IsStandalone c then
        \<not> IsDevicePlatform c \<and> cf_Machine c = None \<and> cf_Nodes c = [] \<and> \<not> panel_used c \<and>
        cl_URL (cf_Control c) = [] \<and> cl_Token (cf_Control c) = [] \<and> cl_TokenEnv (cf_Control c) = []
      else if IsDevicePlatform c then
        TrimSpace (cl_MachineID (cf_Control c)) \<noteq> [] \<and>
        (TrimSpace (cl_Token (cf_Control c)) \<noteq> [] \<or> TrimSpace (cl_PanelPublicKey (cf_Control c)) \<noteq> []) \<and>
        cf_Machine c = None \<and> cf_Nodes c = [] \<and> \<not> panel_used c
      else case (if IsMachineMode c then cf_Machine c else None) of
        Some m \<Rightarrow> 0 < mc_MachineID m \<and> mc_Token m \<noteq> [] \<and> cf_Nodes c = []
      | None \<Rightarrow> pl_Token (cf_Panel c) \<noteq> [] \<and> (\<forall>n \<in> set (cf_Nodes c). 0 < ne_NodeID n) \<and> (cf_Nodes c = [] \<longrightarrow> 0 < pl_NodeID (cf_Panel c)))"

definition instance_ok :: "cenv \<Rightarrow> Config \<Rightarrow> bool" where
  "instance_ok ce c \<longleftrightarrow>
     (kc_Type (cf_Kernel c) = ''singbox'' \<or> kc_Type (cf_Kernel c) = ''xray'') \<and>
     (\<not> IsStandalone c \<longrightarrow> endpoint_ok ce (endpoint_of c)) \<and> mode_ok c \<and>
     (cc_AutoTLS (cf_Cert c) \<longrightarrow> cc_Domain (cf_Cert c) \<noteq> []) \<and>
     0 \<le> iv_PushInterval (cf_Node c) \<and> 0 \<le> iv_PullInterval (cf_Node c)"

lemma node_entries_ok: "node_entries i ns = Inr () \<longleftrightarrow> (\<forall>n \<in> set ns. 0 < ne_NodeID n)"
  by (induction ns arbitrary: i) auto

lemma validate_mode_cases:
  assumes "validate_mode c = Inr ()"
  shows "IsStandalone c \<Longrightarrow> cf_Nodes c = []"
    and "\<not> IsStandalone c \<Longrightarrow> mode_ok c"
proof -
  show "IsStandalone c \<Longrightarrow> cf_Nodes c = []"
    using assms by (auto simp: validate_mode_def validateStandalone_def Let_def split: if_splits sum.splits option.splits)
  assume no: "\<not> IsStandalone c"
  consider (platform) "IsDevicePlatform c" | (machine) m where "\<not> IsDevicePlatform c" "IsMachineMode c" "cf_Machine c = Some m"
    | (node) "\<not> IsDevicePlatform c" "\<not> IsMachineMode c"
    by (cases "cf_Machine c") (auto simp: IsMachineMode_def)
  then show "mode_ok c"
  proof cases
    case platform
    then show ?thesis using assms no by (auto simp: validate_mode_def mode_ok_def split: if_splits)
  next
    case machine
    then have "0 < mc_MachineID m" by (simp add: IsMachineMode_def)
    then show ?thesis using assms no machine by (auto simp: validate_mode_def mode_ok_def split: if_splits)
  next
    case node
    then show ?thesis using assms no by (auto simp: validate_mode_def mode_ok_def node_entries_ok split: if_splits)
  qed
qed

lemma validate_config_ok:
  assumes "validate_config ce c = Inr ()"
  shows "instance_ok ce c"
proof -
  have m: "validate_mode c = Inr ()"
    using assms by (auto simp: validate_config_def Let_def split: if_splits sum.splits)
  have k: "(kc_Type (cf_Kernel c) = ''singbox'' \<or> kc_Type (cf_Kernel c) = ''xray'') \<and>
      (cc_AutoTLS (cf_Cert c) \<longrightarrow> cc_Domain (cf_Cert c) \<noteq> []) \<and> 0 \<le> iv_PushInterval (cf_Node c) \<and> 0 \<le> iv_PullInterval (cf_Node c)"
    using assms by (auto simp: validate_config_def Let_def split: if_splits sum.splits)
  have e: "\<not> IsStandalone c \<Longrightarrow> ValidateEndpoint ce (endpoint_of c) False = Inr ()"
    using assms by (auto simp: validate_config_def endpoint_of_def Let_def split: if_splits sum.splits)
  have s: "IsStandalone c \<Longrightarrow> \<not> IsDevicePlatform c \<and> cf_Machine c = None \<and> \<not> panel_used c \<and>
      cl_URL (cf_Control c) = [] \<and> cl_Token (cf_Control c) = [] \<and> cl_TokenEnv (cf_Control c) = []"
    using assms by (auto simp: validate_config_def IsDevicePlatform_def Let_def split: if_splits sum.splits)
  have "mode_ok c"
  proof (cases "IsStandalone c")
    case True
    then show ?thesis using s validate_mode_cases(1) [OF m] by (simp add: mode_ok_def)
  qed (rule validate_mode_cases(2) [OF m])
  then show ?thesis using k e by (simp add: instance_ok_def ValidateEndpoint_iff)
qed

lemma validate_instances_ok:
  "validate_instances ce i ids cs = Inr () \<Longrightarrow>
     distinct (map cf_InstanceID cs) \<and> cf_InstanceID ` set cs \<inter> set ids = {} \<and> (\<forall>c \<in> set cs. instance_ok ce c)"
proof (induction ce i ids cs rule: validate_instances.induct)
  case (2 ce i ids c cs)
  have v: "validate_config ce c = Inr ()" and "cf_InstanceID c \<notin> set ids"
    and "validate_instances ce (Suc i) (cf_InstanceID c # ids) cs = Inr ()"
    using "2.prems" by (auto split: sum.splits if_splits)
  then show ?case using "2.IH" [OF v] validate_config_ok [OF v] by auto
qed simp

text \<open>Setting an identifier changes nothing validation looks at.\<close>

lemma instance_ok_id [simp]: "instance_ok ce (c\<lparr>cf_InstanceID := i\<rparr>) = instance_ok ce c"
  by (cases "cf_Machine c") (simp_all add: instance_ok_def mode_ok_def IsStandalone_def IsDevicePlatform_def IsMachineMode_def panel_used_def endpoint_of_def)

lemma endpoint_ok_trim [simp]: "endpoint_ok ce (TrimSpace s) = endpoint_ok ce s"
  by (simp add: endpoint_ok_def go_simps)

lemma normalizeBaseURL_ok:
  assumes "endpoint_ok ce raw" and "\<And>s u. ce_url ce s = Some u \<Longrightarrow> u_Host u = [] \<Longrightarrow> u_Hostname u = []"
  shows "\<exists>nrm slug. normalizeBaseURL ce raw = Inr (nrm, slug)"
proof -
  obtain u where u: "ce_url ce (TrimSpace raw) = Some u" and h: "u_Hostname u \<noteq> []"
    and sch: "ToLower (u_Scheme u) \<in> {''https'', ''http''}"
    using assms(1) by (auto simp: endpoint_ok_def split: option.splits)
  then have "u_Host u \<noteq> []" and "u_Scheme u \<noteq> []" using assms(2) by auto
  moreover have "ValidateEndpoint ce raw False = Inr ()" using assms(1) by (simp add: ValidateEndpoint_iff)
  ultimately show ?thesis using u by (simp add: normalizeBaseURL_def Let_def)
qed
lemma AutoInstanceID_ok:
  assumes "instance_ok ce c" and "\<And>s u. ce_url ce s = Some u \<Longrightarrow> u_Host u = [] \<Longrightarrow> u_Hostname u = []"
  shows "\<exists>iid. AutoInstanceID ce c = Inr iid"
proof -
  obtain mode target baseURL where t: "instance_target ce c = (mode, target, baseURL)" by (cases "instance_target ce c")
  have "\<exists>nrm slug. normalizeBaseURL ce baseURL = Inr (nrm, slug)"
  proof (cases "IsStandalone c")
    case True
    then have "baseURL = ''standalone''" using t by (auto simp: instance_target_def)
    then show ?thesis by (simp add: normalizeBaseURL_def)
  next
    case False
    then have "endpoint_ok ce (endpoint_of c)" using assms(1) by (simp add: instance_ok_def)
    moreover have "baseURL = TrimSpace (endpoint_of c)"
      using False t by (auto simp: instance_target_def endpoint_of_def split: if_splits)
    ultimately show ?thesis using normalizeBaseURL_ok assms(2) by (metis endpoint_ok_trim)
  qed
  then show ?thesis using t by (auto simp: AutoInstanceID_def)
qed

lemma with_ids_ok:
  assumes "\<forall>c \<in> set cs. cf_InstanceID c = [] \<longrightarrow> (\<exists>iid. AutoInstanceID ce c = Inr iid)"
  shows "\<exists>cs'. with_ids ce cs = Inr cs'"
  using assms by (induction cs) (auto split: sum.split)

lemma with_ids_same: "\<forall>c \<in> set cs. cf_InstanceID c \<noteq> [] \<Longrightarrow> with_ids ce cs = Inr cs"
  by (induction cs) auto

lemma AutoInstanceID_nonempty: "AutoInstanceID ce c = Inr iid \<Longrightarrow> iid \<noteq> []"
  by (auto simp: AutoInstanceID_def Let_def split: prod.splits sum.splits)

lemma assign_ids_nonempty: "assign_ids ce i cs = Inr cs' \<Longrightarrow> \<forall>c \<in> set cs'. cf_InstanceID c \<noteq> []"
proof (induction cs arbitrary: i cs')
  case (Cons c cs)
  obtain iid cs'' where i: "(if cf_InstanceID c \<noteq> [] then Inr (cf_InstanceID c) else AutoInstanceID ce c) = Inr iid"
    and "assign_ids ce (Suc i) cs = Inr cs''" and "cs' = c\<lparr>cf_InstanceID := iid\<rparr> # cs''"
    using Cons.prems by (auto split: sum.splits)
  moreover have "iid \<noteq> []" using i AutoInstanceID_nonempty by (metis sum.inject(2))
  ultimately show ?case using Cons.IH by simp
qed simp

lemma root_defaults_instances:
  "cf_InstanceID ` set (rc_Instances (root_defaults ce dir rc)) = cf_InstanceID ` set (rc_Instances rc)"
  by (auto simp: root_defaults_def setDefaultsFrom_def Let_def image_image)

lemma LoadRoot_valid:
  assumes "LoadRoot ce path = Inr rc"
  shows "validateRoot ce rc = Inr ()" and "\<forall>c \<in> set (rc_Instances rc). cf_InstanceID c \<noteq> []"
proof -
  obtain rc3 cs where a: "assign_ids ce 0 (rc_Instances rc3) = Inr cs"
    and rc: "rc = root_defaults ce (configBaseDir ce path) (rc3\<lparr>rc_Instances := cs\<rparr>)" and v: "validateRoot ce rc = Inr ()"
    using assms by (auto simp: LoadRoot_def Let_def split: sum.splits prod.splits)
  show "validateRoot ce rc = Inr ()" by (rule v)
  have "cf_InstanceID ` set (rc_Instances rc) = cf_InstanceID ` set cs"
    unfolding rc by (simp add: root_defaults_instances)
  then show "\<forall>c \<in> set (rc_Instances rc). cf_InstanceID c \<noteq> []"
    using assign_ids_nonempty [OF a] by (metis imageE imageI)
qed

lemma LoadRoot_instances:
  assumes "LoadRoot ce path = Inr rc" and "NormalizeInstances ce rc = Inr cs"
  shows "distinct (map cf_InstanceID cs)" and "\<forall>c \<in> set cs. instance_ok ce c"
proof -
  have "distinct (map cf_InstanceID cs) \<and> (\<forall>c \<in> set cs. instance_ok ce c)"
  proof (cases "rc_Instances rc = []")
    case True
    then have "instance_ok ce (rc_Config rc)"
      using LoadRoot_valid(1) [OF assms(1)] by (simp add: validateRoot_def validate_config_ok)
    then show ?thesis using assms(2) True by (auto simp: NormalizeInstances_def split: sum.splits if_splits)
  next
    case False
    then have "validate_instances ce 0 [] (rc_Instances rc) = Inr ()"
      using LoadRoot_valid(1) [OF assms(1)] by (simp add: validateRoot_def)
    then show ?thesis
      using validate_instances_ok False assms(2) with_ids_same [OF LoadRoot_valid(2) [OF assms(1)]]
      by (simp add: NormalizeInstances_def)
  qed
  then show "distinct (map cf_InstanceID cs)" and "\<forall>c \<in> set cs. instance_ok ce c" by simp_all
qed

lemma LoadRoot_normalizes:
  assumes "LoadRoot ce path = Inr rc" and "\<And>s u. ce_url ce s = Some u \<Longrightarrow> u_Host u = [] \<Longrightarrow> u_Hostname u = []"
  shows "\<exists>cs. NormalizeInstances ce rc = Inr cs"
proof (cases "rc_Instances rc = []")
  case True
  then have "instance_ok ce (rc_Config rc)"
    using LoadRoot_valid(1) [OF assms(1)] by (simp add: validateRoot_def validate_config_ok)
  then show ?thesis
    using with_ids_ok [of "[rc_Config rc]" ce] AutoInstanceID_ok [OF _ assms(2)] True by (simp add: NormalizeInstances_def)
next
  case False
  then show ?thesis using with_ids_same [OF LoadRoot_valid(2) [OF assms(1)]] by (simp add: NormalizeInstances_def)
qed

text \<open>
  C21. A configuration that loads gives instances: \<^verbatim>\<open>NormalizeInstances\<close> never fails on it, the instances have pairwise
  different identifiers, run a kernel the agent has with intervals that are not negative, talk to their control
  plane over HTTPS (HTTP only to a loopback host), and each is in exactly one mode with what that mode needs: a
  standalone instance has no control plane, panel, machine or nodes; a device-platform instance has a machine
  identifier, a token or the panel's key and no panel, machine or nodes; an instance in machine mode has a machine
  token and no nodes; any other has a panel token and only positive node numbers, at least one. Of \<^verbatim>\<open>url.Parse\<close> it
  uses that a URL without a host has no host name.
\<close>

theorem load_instances_ok:
  assumes "LoadRoot ce path = Inr rc"
    and "\<And>s u. ce_url ce s = Some u \<Longrightarrow> u_Host u = [] \<Longrightarrow> u_Hostname u = []"
  shows "\<exists>cs. NormalizeInstances ce rc = Inr cs \<and> distinct (map cf_InstanceID cs) \<and> (\<forall>c \<in> set cs. instance_ok ce c)"
  using LoadRoot_normalizes [OF assms(1)] assms(2) LoadRoot_instances [OF assms(1)] by blast

section \<open>The layout\<close>

abbreviation dir_of :: "Config \<Rightarrow> string" where
  "dir_of c \<equiv> TrimSpace (kc_ConfigDir (cf_Kernel c))"

text \<open>Two instances that do not get in each other's way, and an instance the layout still has room for.\<close>

definition apart :: "Config \<Rightarrow> Config \<Rightarrow> bool" where
  "apart c d \<longleftrightarrow> (0 < cf_HealthPort c \<longrightarrow> cf_HealthPort c \<noteq> cf_HealthPort d) \<and>
     (dir_of c \<noteq> [] \<longrightarrow> dir_of c = dir_of d \<longrightarrow> cf_InstanceID c = cf_InstanceID d) \<and> 
     \<not> (IsStandalone c \<and> IsStandalone d \<and> pl_NodeID (cf_Panel c) = pl_NodeID (cf_Panel d))"

definition fits :: "layout \<Rightarrow> Config \<Rightarrow> bool" where
  "fits ly c \<longleftrightarrow> (0 < cf_HealthPort c \<longrightarrow> cf_HealthPort c \<notin> fst ` set (ly_ports ly)) \<and>
     (dir_of c \<noteq> [] \<longrightarrow> map_of (ly_dirs ly) (dir_of c) \<in> {None, Some (cf_InstanceID c)}) \<and>
     (IsStandalone c \<longrightarrow> node_binding c \<notin> fst ` set (ly_bindings ly))"

lemma standalone_binding:
  assumes "instance_ok ce c" and "IsStandalone c"
  shows "ExpandNodes ce c = [c]" and "\<not> IsMachineMode c" and "\<not> IsDevicePlatform c"
    and "node_binding c = ''/'' @ FormatInt (pl_NodeID (cf_Panel c))"
  using assms
  by (auto simp: instance_ok_def mode_ok_def ExpandNodes_def IsMachineMode_def panel_used_def node_binding_def)

lemma bind_nodes_keys: "bind_nodes ce owner ns bs = Inr bs' \<Longrightarrow> fst ` set bs' = fst ` set bs \<union> node_binding ` set ns"
  by (induction ce owner ns bs rule: bind_nodes.induct) (auto simp: AList.dom_update split: if_splits)

text \<open>An instance is accepted if it fits; whoever fits afterwards fitted before and is apart from it.\<close>

lemma claim_port_fits:
  assumes "claim_port c ly = Inr ly'"
  shows "0 < cf_HealthPort c \<Longrightarrow> cf_HealthPort c \<notin> fst ` set (ly_ports ly)"
    and "fst ` set (ly_ports ly') = (if 0 < cf_HealthPort c then {cf_HealthPort c} else {}) \<union> fst ` set (ly_ports ly)"
    and "ly_dirs ly' = ly_dirs ly" and "ly_bindings ly' = ly_bindings ly"
proof -
  have ly': "ly' = (if 0 < cf_HealthPort c then ly\<lparr>ly_ports := mput (cf_HealthPort c) (cf_InstanceID c) (ly_ports ly)\<rparr> else ly)"
    and "0 < cf_HealthPort c \<longrightarrow> cf_HealthPort c \<notin> fst ` set (ly_ports ly)"
    using assms by (auto simp: claim_port_def mhas_iff split: if_splits)
  then show "0 < cf_HealthPort c \<Longrightarrow> cf_HealthPort c \<notin> fst ` set (ly_ports ly)" by blast
  show "fst ` set (ly_ports ly') = (if 0 < cf_HealthPort c then {cf_HealthPort c} else {}) \<union> fst ` set (ly_ports ly)"
    and "ly_dirs ly' = ly_dirs ly" and "ly_bindings ly' = ly_bindings ly"
    unfolding ly' by (simp_all add: AList.dom_update)
qed

lemma claim_dir_fits:
  assumes "claim_dir c ly = Inr ly'"
  shows "dir_of c \<noteq> [] \<Longrightarrow> map_of (ly_dirs ly) (dir_of c) \<in> {None, Some (cf_InstanceID c)}"
    and "map_of (ly_dirs ly') d = (if dir_of c \<noteq> [] \<and> d = dir_of c then Some (cf_InstanceID c) else map_of (ly_dirs ly) d)"
    and "ly_ports ly' = ly_ports ly" and "ly_bindings ly' = ly_bindings ly"
  using assms by (auto simp: claim_dir_def map_of_mput Let_def split: if_splits option.splits)

lemma claim_nodes_fits:
  assumes "claim_nodes ce c ly = Inr ly'" and "instance_ok ce c"
  shows "IsStandalone c \<Longrightarrow> node_binding c \<notin> fst ` set (ly_bindings ly) \<and> node_binding c \<in> fst ` set (ly_bindings ly')"
    and "fst ` set (ly_bindings ly) \<subseteq> fst ` set (ly_bindings ly')"
    and "ly_ports ly' = ly_ports ly" and "ly_dirs ly' = ly_dirs ly"
proof -
  note b = assms(1) [unfolded claim_nodes_def]
  show "IsStandalone c \<Longrightarrow> node_binding c \<notin> fst ` set (ly_bindings ly) \<and> node_binding c \<in> fst ` set (ly_bindings ly')"
    using b standalone_binding(1-3) [OF assms(2)] by (simp add: mhas_iff AList.dom_update split: if_splits) (auto simp: AList.dom_update)
  show "fst ` set (ly_bindings ly) \<subseteq> fst ` set (ly_bindings ly')"
  proof (cases "IsMachineMode c \<or> IsDevicePlatform c")
    case False
    then obtain bs where "bind_nodes ce (cf_InstanceID c) (ExpandNodes ce c) (ly_bindings ly) = Inr bs" and "ly' = ly\<lparr>ly_bindings := bs\<rparr>"
      using b by (auto split: sum.splits)
    then show ?thesis using bind_nodes_keys by simp
  qed (use b in \<open>simp split: if_splits\<close>)
  show "ly_ports ly' = ly_ports ly" and "ly_dirs ly' = ly_dirs ly"
    using b by (auto split: if_splits sum.splits)
qed

lemma place_instance_fits:
  assumes "place_instance ce c ly = Inr ly'" and "instance_ok ce c"
  shows "fits ly c" and "instance_ok ce d \<Longrightarrow> fits ly' d \<Longrightarrow> apart c d \<and> fits ly d"
proof -
  obtain ly1 ly2 where p: "claim_port c ly = Inr ly1" and d: "claim_dir c ly1 = Inr ly2" and n: "claim_nodes ce c ly2 = Inr ly'"
    using assms(1) by (auto simp: place_instance_def split: if_splits sum.splits)
  note facts = claim_port_fits [OF p] claim_dir_fits [OF d] claim_nodes_fits [OF n assms(2)]
  show "fits ly c" using facts by (auto simp: fits_def)
  show "apart c d \<and> fits ly d" if "instance_ok ce d" and "fits ly' d"
  proof -
    have "node_binding c = node_binding d" if "IsStandalone c" "IsStandalone d" "pl_NodeID (cf_Panel c) = pl_NodeID (cf_Panel d)"
      using that standalone_binding(4) [OF assms(2)] standalone_binding(4) [OF \<open>instance_ok ce d\<close>] by simp
    then show ?thesis using facts that unfolding apart_def fits_def by (auto split: if_splits)
  qed
qed

lemma place_all_apart:
  assumes "place_all ce cs ly = Inr ()" and "\<forall>c \<in> set cs. instance_ok ce c"
  shows "sorted_wrt apart cs \<and> (\<forall>c \<in> set cs. fits ly c)"
  using assms
proof (induction cs arbitrary: ly)
  case (Cons c cs)
  obtain ly' where ly': "place_instance ce c ly = Inr ly'" and "place_all ce cs ly' = Inr ()"
    using Cons.prems(1) by (auto split: sum.splits)
  then have "sorted_wrt apart cs" and "\<forall>d \<in> set cs. fits ly' d" using Cons.IH Cons.prems(2) by auto
  then show ?case using place_instance_fits [OF ly'] Cons.prems(2) by auto
qed simp

text \<open>
  C28. The instances of a loaded configuration that passes the check of the startup layout do not get in each other's
  way: no two of them listen on the same health port or keep their kernel's files in the same directory.
\<close>

theorem startup_layout_exclusive:
  assumes "LoadRoot ce path = Inr rc" and "NormalizeInstances ce rc = Inr cs" and "ValidateStartupLayout ce cs = Inr ()"
    and "i < j" and "j < length cs"
  shows "(0 < cf_HealthPort (cs ! i) \<longrightarrow> cf_HealthPort (cs ! i) \<noteq> cf_HealthPort (cs ! j)) \<and>
    (dir_of (cs ! i) \<noteq> [] \<longrightarrow> dir_of (cs ! i) \<noteq> dir_of (cs ! j))"
proof -
  note ok = LoadRoot_instances [OF assms(1,2)]
  have "apart (cs ! i) (cs ! j)"
    using place_all_apart [OF _ ok(2)] assms(3-5) sorted_wrt_nth_less by (fastforce simp: ValidateStartupLayout_def)
  moreover have "cf_InstanceID (cs ! i) \<noteq> cf_InstanceID (cs ! j)"
    using ok(1) assms(4,5) by (simp add: distinct_conv_nth)
  ultimately show ?thesis by (auto simp: apart_def)
qed

text \<open>Two standalone instances are refused whatever their ports and directories: they have no panel, and the binding of both is \<^verbatim>\<open>/0\<close>.\<close>

lemma two_standalone_refused:
  assumes "\<forall>c \<in> set cs. instance_ok ce c" and "i < j" and "j < length cs" and "IsStandalone (cs ! i)" and "IsStandalone (cs ! j)"
    and "pl_NodeID (cf_Panel (cs ! i)) = 0" and "pl_NodeID (cf_Panel (cs ! j)) = 0"
  shows "ValidateStartupLayout ce cs \<noteq> Inr ()"
proof
  assume "ValidateStartupLayout ce cs = Inr ()"
  then have "apart (cs ! i) (cs ! j)"
    using place_all_apart [OF _ assms(1)] assms(2,3) sorted_wrt_nth_less by (fastforce simp: ValidateStartupLayout_def)
  then show False using assms(4-7) by (simp add: apart_def)
qed

section \<open>Identifiers\<close>

text \<open>The characters of an identifier the agent derives itself.\<close>

definition id_char :: "char \<Rightarrow> bool" where
  "id_char x \<longleftrightarrow> is_lower x \<or> is_digit x \<or> x = CHR ''-'' \<or> x = CHR '',''"

lemma id_char_dash [simp]: "id_char (CHR ''-'')" "id_char (CHR '','')"
  by (simp_all add: id_char_def)

lemma is_lower_id_char: "is_lower x \<Longrightarrow> id_char x"
  by (simp add: id_char_def)

lemma set_trim_byte: "set (trim_byte x s) \<subseteq> set s"
  unfolding trim_byte_def by (metis set_dropWhileD set_rev subsetI)

lemma trim_byte_prefix: "\<exists>us. dropWhile (\<lambda>y. y = x) s = trim_byte x s @ us"
proof -
  let ?r = "rev (dropWhile (\<lambda>y. y = x) s)"
  have "rev ?r = rev (dropWhile (\<lambda>y. y = x) ?r) @ rev (takeWhile (\<lambda>y. y = x) ?r)"
    by (metis rev_append takeWhile_dropWhile_id)
  then show ?thesis by (auto simp: trim_byte_def)
qed

lemma hd_trim_byte:
  assumes "trim_byte x s \<noteq> []"
  shows "hd (trim_byte x s) \<noteq> x"
proof -
  obtain us where us: "dropWhile (\<lambda>y. y = x) s = trim_byte x s @ us" using trim_byte_prefix by blast
  then have "dropWhile (\<lambda>y. y = x) s \<noteq> []" and "hd (trim_byte x s) = hd (dropWhile (\<lambda>y. y = x) s)" using assms by auto
  then show ?thesis using hd_dropWhile [of "\<lambda>y. y = x" s] by simp
qed

lemma trim_byte_NilD: "trim_byte x s = [] \<Longrightarrow> y \<in> set s \<Longrightarrow> y = x"
proof -
  assume t: "trim_byte x s = []" and y: "y \<in> set s"
  have r: "\<forall>z \<in> set (dropWhile (\<lambda>y. y = x) s). z = x"
    using t unfolding trim_byte_def rev_is_Nil_conv dropWhile_eq_Nil_conv set_rev .
  have "dropWhile (\<lambda>y. y = x) s = []"
  proof (rule ccontr)
    assume "dropWhile (\<lambda>y. y = x) s \<noteq> []"
    then show False using r hd_dropWhile [of "\<lambda>y. y = x" s] hd_in_set by blast
  qed
  then show "y = x" using y by simp
qed

lemma slug_loop_chars: "y \<in> set (slug_loop b s) \<Longrightarrow> id_char y"
  by (induction b s rule: slug_loop.induct) (auto simp: id_char_def split: if_splits)

lemma slug_base:
  defines "t s \<equiv> (let u = trim_byte (CHR ''-'') (slug_loop False (ToLower s)) in if u = [] then ''panel'' else u)"
  shows "t s \<noteq> []" and "hd (t s) \<noteq> CHR ''-''" and "y \<in> set (t s) \<Longrightarrow> id_char y"
    and "slug_of s = (if 48 < length (t s) then trim_byte (CHR ''-'') (take 48 (t s)) else t s)"
proof -
  let ?u = "trim_byte (CHR ''-'') (slug_loop False (ToLower s))"
  have t: "t s = (if ?u = [] then ''panel'' else ?u)" by (simp add: t_def Let_def)
  show "t s \<noteq> []" by (simp add: t)
  show "hd (t s) \<noteq> CHR ''-''" using hd_trim_byte [of "CHR ''-''"] by (simp add: t)
  have "y \<in> set ?u \<Longrightarrow> id_char y" using set_trim_byte slug_loop_chars by blast
  moreover have "y \<in> set ''panel'' \<Longrightarrow> id_char y" by (auto simp: id_char_def is_lower_def)
  ultimately show "y \<in> set (t s) \<Longrightarrow> id_char y" unfolding t by presburger
  show "slug_of s = (if 48 < length (t s) then trim_byte (CHR ''-'') (take 48 (t s)) else t s)"
    by (simp add: slug_of_def t_def Let_def)
qed

lemma slug_of_shape:
  shows "slug_of s \<noteq> []" and "hd (slug_of s) \<noteq> CHR ''-''" and "length (slug_of s) \<le> 48" and "y \<in> set (slug_of s) \<Longrightarrow> id_char y"
proof -
  obtain t where t: "t \<noteq> []" "hd t \<noteq> CHR ''-''" "\<And>y. y \<in> set t \<Longrightarrow> id_char y"
    and slug: "slug_of s = (if 48 < length t then trim_byte (CHR ''-'') (take 48 t) else t)"
    using slug_base [where s = s] by metis
  have "hd t \<in> set (take 48 t)" using t(1) by (cases t) auto
  then have ne: "trim_byte (CHR ''-'') (take 48 t) \<noteq> []" using t(2) trim_byte_NilD by blast
  then show "slug_of s \<noteq> []" using t(1) slug by simp
  show "hd (slug_of s) \<noteq> CHR ''-''" using t(2) slug hd_trim_byte [OF ne] by simp
  have "length (trim_byte (CHR ''-'') u) \<le> length u" for u
    unfolding trim_byte_def by (metis length_dropWhile_le length_rev order.trans)
  from this [of "take 48 t"] show "length (slug_of s) \<le> 48" using slug by auto
  show "id_char y" if y: "y \<in> set (slug_of s)"
  proof -
    have "set (slug_of s) \<subseteq> set t"
      using slug set_trim_byte [of "CHR ''-''" "take 48 t"] set_take_subset [of 48 t] by auto
    then show ?thesis using y t(3) by blast
  qed
qed

lemma normalizeBaseURL_slug:
  assumes "normalizeBaseURL ce raw = Inr (nrm, slug)"
  shows "slug \<noteq> [] \<and> hd slug \<noteq> CHR ''-'' \<and> (\<forall>y \<in> set slug. id_char y)"
proof -
  have "slug = ''standalone'' \<or> (\<exists>s. slug = slug_of s)"
    using assms by (auto simp: normalizeBaseURL_def Let_def split: if_splits sum.splits option.splits)
  moreover have "\<forall>y \<in> set ''standalone''. id_char y" by (auto simp: id_char_def is_lower_def)
  ultimately show ?thesis using slug_of_shape by auto
qed

lemma FormatInt_chars: "y \<in> set (FormatInt i) \<Longrightarrow> id_char y"
  by (auto simp: FormatInt_def id_char_def dest: digits_of_digits split: if_splits)

lemma Join_chars: "\<forall>x \<in> set xs. \<forall>y \<in> set x. id_char y \<Longrightarrow> y \<in> set (Join xs '','') \<Longrightarrow> id_char y"
  by (induction xs "'',''" rule: Join.induct) auto

lemma hex_digit_char: "i < 16 \<Longrightarrow> id_char (''0123456789abcdef'' ! i)"
proof -
  assume "i < 16"
  then have "''0123456789abcdef'' ! i \<in> set ''0123456789abcdef''" by (intro nth_mem) simp
  moreover have "\<forall>y \<in> set ''0123456789abcdef''. id_char y" by (auto simp: id_char_def is_lower_def is_digit_def)
  ultimately show ?thesis by blast
qed

lemma hex_text_chars: "y \<in> set (hex_text s) \<Longrightarrow> id_char y"
proof -
  have "byte v div 16 < 16" for v by (rule less_mult_imp_div_less) simp
  moreover assume "y \<in> set (hex_text s)"
  ultimately show ?thesis unfolding hex_text_def by (auto intro: hex_digit_char)
qed

lemma instance_target_chars:
  assumes "instance_target ce c = (mode, target, baseURL)"
  shows "y \<in> set mode \<union> set target \<Longrightarrow> id_char y"
proof -
  have m: "mode \<in> {''standalone'', ''device-platform'', ''machine'', ''node''}"
    using assms by (auto simp: instance_target_def split: if_splits)
  have "\<forall>y \<in> set mode. id_char y" using m by (auto simp: id_char_def is_lower_def)
  moreover have "\<forall>y \<in> set ''local'' \<union> set ''0''. id_char y" by (auto simp: id_char_def is_lower_def is_digit_def)
  moreover have "\<forall>y \<in> set (Join (sort (map (\<lambda>n. FormatInt (ne_NodeID n)) (cf_Nodes c))) '',''). id_char y"
    using Join_chars [of "sort (map (\<lambda>n. FormatInt (ne_NodeID n)) (cf_Nodes c))"] FormatInt_chars by auto
  ultimately have "\<forall>y \<in> set mode \<union> set target. id_char y"
    using assms FormatInt_chars hex_text_chars
    by (auto simp: instance_target_def split: if_splits option.splits dest: in_set_takeD)
  moreover assume "y \<in> set mode \<union> set target"
  ultimately show "id_char y" by blast
qed

text \<open>
  C30. The identifier the agent derives for an instance, which names its directory below the base directory, is not empty,
  does not start with a dash and consists of lower-case letters, digits, dashes and commas: it has no path separator and
  no dots, whatever the endpoint is.
\<close>

theorem auto_instance_id_safe:
  assumes "AutoInstanceID ce c = Inr iid"
  shows "iid \<noteq> [] \<and> hd iid \<noteq> CHR ''-'' \<and> (\<forall>y \<in> set iid. id_char y)"
proof -
  obtain mode target baseURL where t: "instance_target ce c = (mode, target, baseURL)" by (cases "instance_target ce c")
  obtain nrm slug where n: "normalizeBaseURL ce baseURL = Inr (nrm, slug)"
    using assms t by (auto simp: AutoInstanceID_def split: sum.splits)
  then obtain h where "iid = slug @ ''-'' @ mode @ ''-'' @ target @ ''-'' @ take 6 (hex_text h)"
    using assms t by (auto simp: AutoInstanceID_def Let_def)
  then show ?thesis
    using normalizeBaseURL_slug [OF n] instance_target_chars [OF t] hex_text_chars by (auto dest: in_set_takeD)
qed

text \<open>The order of the nodes does not change the identifier.\<close>

lemma AutoInstanceID_reorder:
  assumes "mset ns = mset (cf_Nodes c)"
  shows "AutoInstanceID ce (c\<lparr>cf_Nodes := ns\<rparr>) = AutoInstanceID ce c"
proof -
  have "sort (map (\<lambda>n. FormatInt (ne_NodeID n)) ns) = sort (map (\<lambda>n. FormatInt (ne_NodeID n)) (cf_Nodes c))"
    by (rule properties_for_sort) (simp_all add: assms)
  moreover have "ns = [] \<longleftrightarrow> cf_Nodes c = []" using assms by auto
  ultimately have "instance_target ce (c\<lparr>cf_Nodes := ns\<rparr>) = instance_target ce c"
    by (simp add: instance_target_def IsStandalone_def IsDevicePlatform_def IsMachineMode_def)
  then show ?thesis by (simp add: AutoInstanceID_def)
qed

text \<open>
  The mode an instance has by default (\<^verbatim>\<open>setDefaultsFrom\<close>) is not known yet when its identifier is derived: an instance
  with a control endpoint but neither a mode nor an identifier is refused for its empty \<^verbatim>\<open>panel.url\<close>.
\<close>

lemma implicit_mode_refused:
  assumes "cl_Mode (cf_Control c) = []" and "\<not> IsStandalone c" and "pl_URL (cf_Panel c) = []" and "cf_InstanceID c = []"
    and "\<And>u. ce_url ce [] = Some u \<Longrightarrow> u_Hostname u = []"
  shows "assign_ids ce i (c # cs) = Inl (InInstance i EndpointInvalid)"
proof -
  have d: "\<not> IsDevicePlatform c" using assms(1) by (simp add: IsDevicePlatform_def)
  have "snd (snd (instance_target ce c)) = []"
    using assms(2,3) d by (simp add: instance_target_def)
  then obtain mode target where "instance_target ce c = (mode, target, [])" by (metis prod.collapse)
  moreover have "normalizeBaseURL ce [] = Inl EndpointInvalid"
    using assms(5) by (auto simp: normalizeBaseURL_def ValidateEndpoint_def split: option.split)
  ultimately show ?thesis using assms(4) by (simp add: AutoInstanceID_def)
qed

section \<open>An example\<close>

definition demo_root :: RootConfig where
  "demo_root = \<lparr>rc_Instances =
     [zero_Config\<lparr>cf_Control := (cf_Control zero_Config)\<lparr>cl_Mode := ''device-platform'', cl_URL := ''https://p'', cl_Token := ''t'', cl_MachineID := ''m''\<rparr>, cf_HealthPort := 1\<rparr>,
      zero_Config\<lparr>cf_InstanceID := ''lab'', cf_Control := (cf_Control zero_Config)\<lparr>cl_URL := ''http://l'', cl_Token := ''t'', cl_MachineID := ''m''\<rparr>, cf_HealthPort := 2\<rparr>],
     rc_Config = zero_Config\<lparr>cf_Kernel := (cf_Kernel zero_Config)\<lparr>kc_Type := ''xray''\<rparr>\<rparr>\<rparr>"

definition demo_url :: "string \<Rightarrow> url option" where
  "demo_url s = (if s = ''https://p'' then Some \<lparr>u_Scheme = ''https'', u_Host = ''p'', u_Hostname = ''p'', u_User = False, u_Fragment = [], u_Opaque = [], u_EscapedPath = []\<rparr>
     else if s = ''http://l'' then Some \<lparr>u_Scheme = ''http'', u_Host = ''l'', u_Hostname = ''l'', u_User = False, u_Fragment = [], u_Opaque = [], u_EscapedPath = []\<rparr>
     else None)"

definition demo_cenv :: cenv where
  "demo_cenv = \<lparr>ce_getenv = (\<lambda>_. []), ce_readFile = (\<lambda>_. FileData []), ce_parseRoot = (\<lambda>_. Some demo_root), ce_parseConfig = (\<lambda>_. None),
     ce_abs = Some, ce_dir = (\<lambda>_. ''/d''), ce_join = (\<lambda>a b. a @ ''/'' @ b), ce_stat = (\<lambda>_. True), ce_url = demo_url,
     ce_loopback = (\<lambda>h. h = ''l''), ce_sha1 = (\<lambda>s. ''abcdefgh'')\<rparr>"

definition demo_loaded :: RootConfig where
  "demo_loaded = (case LoadRoot demo_cenv ''c'' of Inr rc \<Rightarrow> rc | Inl _ \<Rightarrow> demo_root)"

definition demo_instances :: "Config list" where
  "demo_instances = (case NormalizeInstances demo_cenv demo_loaded of Inr cs \<Rightarrow> cs | Inl _ \<Rightarrow> [])"

lemma demo_url_host: "ce_url demo_cenv s = Some u \<Longrightarrow> u_Host u = [] \<Longrightarrow> u_Hostname u = []"
  by (auto simp: demo_cenv_def demo_url_def split: if_splits)

lemma demo_load: "LoadRoot demo_cenv ''c'' = Inr demo_loaded"
proof -
  have "(case LoadRoot demo_cenv ''c'' of Inr rc \<Rightarrow> True | Inl _ \<Rightarrow> False)" by code_simp
  then show ?thesis by (simp add: demo_loaded_def split: sum.splits)
qed

lemma demo_normalize: "NormalizeInstances demo_cenv demo_loaded = Inr demo_instances"
proof -
  have "(case NormalizeInstances demo_cenv demo_loaded of Inr rc \<Rightarrow> True | Inl _ \<Rightarrow> False)" by code_simp
  then show ?thesis by (simp add: demo_instances_def split: sum.splits)
qed

lemma demo_layout: "ValidateStartupLayout demo_cenv demo_instances = Inr ()"
  by code_simp

theorem load_instances_ok_witness:
  "\<exists>cs. NormalizeInstances demo_cenv demo_loaded = Inr cs \<and> distinct (map cf_InstanceID cs) \<and> list_all (instance_ok demo_cenv) cs"
  unfolding list_all_iff by (rule load_instances_ok [OF demo_load demo_url_host])

theorem startup_layout_exclusive_witness:
  "cf_HealthPort (demo_instances ! 0) \<noteq> cf_HealthPort (demo_instances ! 1) \<and> dir_of (demo_instances ! 0) \<noteq> dir_of (demo_instances ! 1)"
proof -
  have "0 < cf_HealthPort (demo_instances ! 0)" and "dir_of (demo_instances ! 0) \<noteq> []" and l: "1 < length demo_instances" by code_simp+
  then show ?thesis using startup_layout_exclusive [OF demo_load demo_normalize demo_layout zero_less_one l] by blast
qed

definition demo_id :: string where
  "demo_id = cf_InstanceID (demo_instances ! 0)"

theorem auto_instance_id_safe_witness: "demo_id \<noteq> [] \<and> hd demo_id \<noteq> CHR ''-'' \<and> list_all id_char demo_id"
proof -
  have "AutoInstanceID demo_cenv (demo_instances ! 0) = Inr demo_id" by code_simp
  then show ?thesis unfolding list_all_iff by (rule auto_instance_id_safe)
qed

end
