(* ===== verification/Enrollment.thy ===== *)
theory Enrollment
  imports ConfigLoad
begin

text \<open>
  Removing the enrolment secrets (\<^verbatim>\<open>internal/config/enrollment_cleanup.go\<close>): once the agent has its own identity, the
  bootstrap token is taken out of the configuration file, of the environment file beside it and of the process
  environment; the panel's key and the instance's identifier are kept there instead.

  A YAML document is a tree of nodes as \<^verbatim>\<open>yaml.v3\<close> has them (kind, value, content). Tags, comments and styles are left out:
  the clean-up does not look at them. An alias is a node of its kind without content: the clean-up does not follow it, so
  a control section given as an alias or through a merge key is not cleaned, and what is proved of the cleaned file is
  stated for documents without aliases and merge keys (\<open>plain\<close>).
  Decoding, encoding and \<^verbatim>\<open>filepath\<close> are fields of \<open>ylib\<close>. A file is replaced by renaming a temporary file: it is
  written as a whole or not at all (\<open>yl_writable\<close>). The state keeps the paths replaced so far, which is what the
  watcher of the configuration file sees.
\<close>

section \<open>Documents\<close>

datatype ykind = DocumentNode | SequenceNode | MappingNode | ScalarNode | AliasNode

datatype ynode = YNode (yn_Kind: ykind) (yn_Value: string) (yn_Content: "ynode list")

abbreviation with_content :: "ynode \<Rightarrow> ynode list \<Rightarrow> ynode" where
  "with_content n kvs \<equiv> YNode (yn_Kind n) (yn_Value n) kvs"

abbreviation with_value :: "string \<Rightarrow> ynode \<Rightarrow> ynode" where
  "with_value v n \<equiv> YNode (yn_Kind n) v (yn_Content n)"

fun pair_value :: "string \<Rightarrow> ynode list \<Rightarrow> ynode option" where
  "pair_value key (k # v # kvs) = (if yn_Value k = key then Some v else pair_value key kvs)"
| "pair_value key [k] = None"
| "pair_value key [] = None"

definition mappingValue :: "ynode \<Rightarrow> string \<Rightarrow> ynode option" where
  "mappingValue n key = (if yn_Kind n \<noteq> MappingNode then None else pair_value key (yn_Content n))"

text \<open>A change of the node \<open>mappingValue\<close> returns, made in place.\<close>

fun update_pair :: "string \<Rightarrow> (ynode \<Rightarrow> ynode) \<Rightarrow> ynode list \<Rightarrow> ynode list" where
  "update_pair key f (k # v # kvs) = (if yn_Value k = key then k # f v # kvs else k # v # update_pair key f kvs)"
| "update_pair key f [k] = [k]"
| "update_pair key f [] = []"

definition update_value :: "string \<Rightarrow> (ynode \<Rightarrow> ynode) \<Rightarrow> ynode \<Rightarrow> ynode" where
  "update_value key f n = with_content n (update_pair key f (yn_Content n))"

definition set_or_append :: "string \<Rightarrow> string \<Rightarrow> ynode \<Rightarrow> ynode" where
  "set_or_append key v n =
     (case mappingValue n key of
        Some _ \<Rightarrow> update_value key (with_value v) n
      | None \<Rightarrow> with_content n (yn_Content n @ [YNode ScalarNode key [], YNode ScalarNode v []]))"

section \<open>Cleaning\<close>

fun drop_tokens :: "ynode list \<Rightarrow> ynode list" where
  "drop_tokens (k # v # kvs) =
     (if yn_Value k \<noteq> ''token'' \<and> yn_Value k \<noteq> ''token_env'' then k # v # drop_tokens kvs else drop_tokens kvs)"
| "drop_tokens [k] = []"
| "drop_tokens [] = []"

definition clean_control :: "Config \<Rightarrow> ynode \<Rightarrow> ynode" where
  "clean_control c control =
     set_or_append ''panel_public_key'' (cl_PanelPublicKey (cf_Control c)) (with_content control (drop_tokens (yn_Content control)))"

definition cleanControlNode :: "Config \<Rightarrow> ynode \<Rightarrow> ynode" where
  "cleanControlNode c parent =
     (case mappingValue parent ''control'' of
        None \<Rightarrow> parent
      | Some control \<Rightarrow>
          if (case mappingValue control ''machine_id'' of Some i \<Rightarrow> yn_Value i \<noteq> cl_MachineID (cf_Control c) | None \<Rightarrow> False) then parent
          else (let parent1 = update_value ''control'' (clean_control c) parent
                in if cf_InstanceID c \<noteq> [] then set_or_append ''id'' (cf_InstanceID c) parent1 else parent1))"

definition clean_instance :: "Config \<Rightarrow> ynode \<Rightarrow> ynode" where
  "clean_instance c inst =
     (case mappingValue inst ''control'' of
        None \<Rightarrow> inst
      | Some control \<Rightarrow>
          (case mappingValue control ''machine_id'' of
             None \<Rightarrow> inst
           | Some i \<Rightarrow> if yn_Value i = cl_MachineID (cf_Control c) then cleanControlNode c inst else inst))"

definition clean_root :: "Config \<Rightarrow> ynode \<Rightarrow> ynode" where
  "clean_root c root =
     (case mappingValue root ''instances'' of
        Some _ \<Rightarrow> update_value ''instances'' (\<lambda>n. with_content n (map (clean_instance c) (yn_Content n))) root
      | None \<Rightarrow> cleanControlNode c root)"

definition drops_line :: "string \<Rightarrow> string \<Rightarrow> bool" where
  "drops_line envKey line \<longleftrightarrow> HasPrefix (TrimSpace (TrimPrefix (TrimSpace line) ''export '')) (envKey @ ''='')"

definition clean_env :: "string \<Rightarrow> string \<Rightarrow> string" where
  "clean_env envKey environment = Join (filter (\<lambda>line. \<not> drops_line envKey line) (SplitByte (CHR 0x0A) environment)) [CHR 0x0A]"

section \<open>Files\<close>

record ylib =
  yl_parse :: "string \<Rightarrow> ynode option"
  yl_marshal :: "ynode \<Rightarrow> string option"
  yl_writable :: "string \<Rightarrow> bool"
  yl_dir :: "string \<Rightarrow> string"
  yl_join :: "string \<Rightarrow> string \<Rightarrow> string"

record enroll =
  en_files :: "string \<Rightarrow> file_result"
  en_env :: "string \<Rightarrow> string"
  en_replaced :: "string list"
  en_config :: Config

datatype enroll_error = EnrollRead | EnrollParse | EnrollEmpty | EnrollMarshal | EnrollWrite

definition replaceEnrollmentFile :: "ylib \<Rightarrow> string \<Rightarrow> string \<Rightarrow> enroll \<Rightarrow> enroll_error + enroll" where
  "replaceEnrollmentFile yl path data st =
     (case en_files st path of
        FileError \<Rightarrow> Inl EnrollRead
      | r \<Rightarrow>
          if r = FileData data then Inr st
          else if \<not> yl_writable yl path then Inl EnrollWrite
          else Inr (st\<lparr>en_files := (en_files st)(path := FileData data), en_replaced := path # en_replaced st\<rparr>))"

definition clean_config_file :: "ylib \<Rightarrow> enroll \<Rightarrow> enroll_error + enroll" where
  "clean_config_file yl st =
     (let c = en_config st in
      case en_files st (cf_sourcePath c) of
        FileData data \<Rightarrow>
          (case yl_parse yl data of
             None \<Rightarrow> Inl EnrollParse
           | Some document \<Rightarrow>
               (case yn_Content document of
                  [] \<Rightarrow> Inl EnrollEmpty
                | root # others \<Rightarrow>
                    (case yl_marshal yl (with_content document (clean_root c root # others)) of
                       None \<Rightarrow> Inl EnrollMarshal
                     | Some encoded \<Rightarrow> replaceEnrollmentFile yl (cf_sourcePath c) encoded st)))
      | _ \<Rightarrow> Inl EnrollRead)"

definition env_path :: "ylib \<Rightarrow> Config \<Rightarrow> string" where
  "env_path yl c = yl_join yl (yl_dir yl (cf_sourcePath c)) ''agent.env''"

definition env_key :: "Config \<Rightarrow> string" where
  "env_key c = (if cl_TokenEnv (cf_Control c) = [] then ''CORADE_AGENT_TOKEN'' else cl_TokenEnv (cf_Control c))"

definition clean_env_file :: "ylib \<Rightarrow> enroll \<Rightarrow> enroll_error + enroll" where
  "clean_env_file yl st =
     (let path = env_path yl (en_config st) in
      case en_files st path of
        FileMissing \<Rightarrow> Inr st
      | FileError \<Rightarrow> Inl EnrollRead
      | FileData environment \<Rightarrow> replaceEnrollmentFile yl path (clean_env (env_key (en_config st)) environment) st)"

definition forget_process :: "enroll \<Rightarrow> enroll" where
  "forget_process st =
     (let c = en_config st;
          env = (if cl_TokenEnv (cf_Control c) \<noteq> [] then (en_env st)(cl_TokenEnv (cf_Control c) := []) else en_env st)
      in st\<lparr>en_env := env(''CORADE_AGENT_TOKEN'' := []), en_config := c\<lparr>cf_Control := cf_Control c\<lparr>cl_Token := [], cl_TokenEnv := []\<rparr>\<rparr>\<rparr>)"

text \<open>A failure keeps what was done before it.\<close>

definition ForgetEnrollmentToken :: "ylib \<Rightarrow> enroll \<Rightarrow> enroll \<times> enroll_error option" where
  "ForgetEnrollmentToken yl st =
     (if cf_sourcePath (en_config st) = [] then (forget_process st, None)
      else case clean_config_file yl st of
        Inl e \<Rightarrow> (st, Some e)
      | Inr st1 \<Rightarrow>
          (case clean_env_file yl st1 of
             Inl e \<Rightarrow> (st1, Some e)
           | Inr st2 \<Rightarrow> (forget_process st2, None)))"

section \<open>Lookups in changed documents\<close>

lemma pair_value_update: "pair_value key' (update_pair key f kvs) = (if key' = key then map_option f (pair_value key kvs) else pair_value key' kvs)"
  by (induction key f kvs rule: update_pair.induct) auto

lemma pair_value_append: "pair_value key kvs = Some v \<Longrightarrow> pair_value key (kvs @ zs) = Some v"
  by (induction key kvs rule: pair_value.induct) (auto split: if_splits)

lemma pair_value_append_even:
  "even (length kvs) \<Longrightarrow> pair_value key (kvs @ zs) = (case pair_value key kvs of Some v \<Rightarrow> Some v | None \<Rightarrow> pair_value key zs)"
  by (induction key kvs rule: pair_value.induct) auto

lemma pair_value_drop_tokens:
  "pair_value key (drop_tokens kvs) = (if key = ''token'' \<or> key = ''token_env'' then None else pair_value key kvs)"
  by (induction kvs rule: drop_tokens.induct) auto

lemma even_drop_tokens: "even (length (drop_tokens kvs))"
  by (induction kvs rule: drop_tokens.induct) auto

lemma drop_tokens_idem: "drop_tokens (drop_tokens kvs) = drop_tokens kvs"
  by (induction kvs rule: drop_tokens.induct) auto

lemma length_update_pair [simp]: "length (update_pair key f kvs) = length kvs"
  by (induction key f kvs rule: update_pair.induct) auto

lemma update_pair_twice: "update_pair key g (update_pair key f kvs) = update_pair key (g \<circ> f) kvs"
  by (induction key f kvs rule: update_pair.induct) auto

lemma update_pair_same: "(\<And>v. pair_value key kvs = Some v \<Longrightarrow> f v = v) \<Longrightarrow> update_pair key f kvs = kvs"
  by (induction key f kvs rule: update_pair.induct) auto

lemma update_pair_append: "pair_value key kvs = Some v \<Longrightarrow> update_pair key f (kvs @ zs) = update_pair key f kvs @ zs"
  by (induction key kvs rule: pair_value.induct) (auto split: if_splits)

lemma update_pair_append_even: "even (length kvs) \<Longrightarrow> pair_value key kvs = None \<Longrightarrow> update_pair key f (kvs @ zs) = kvs @ update_pair key f zs"
  by (induction key kvs rule: pair_value.induct) (auto split: if_splits)

lemma mappingValue_update:
  "mappingValue (update_value key f n) key' = (if key' = key then map_option f (mappingValue n key) else mappingValue n key')"
  by (simp add: mappingValue_def update_value_def pair_value_update)

lemma mappingValue_set_other:
  "key' \<noteq> key \<Longrightarrow> mappingValue n key' = Some v \<Longrightarrow> mappingValue (set_or_append key x n) key' = Some v"
  by (auto simp: set_or_append_def mappingValue_update split: option.split)
    (auto simp: mappingValue_def pair_value_append split: if_splits)

lemma mappingValue_set:
  assumes "even (length (yn_Content n))"
  shows "key' \<noteq> key \<Longrightarrow> mappingValue (set_or_append key x n) key' = mappingValue n key'"
    and "yn_Kind n = MappingNode \<Longrightarrow> map_option yn_Value (mappingValue (set_or_append key x n) key) = Some x"
  using assms
  by (auto simp: set_or_append_def mappingValue_def pair_value_append_even update_value_def pair_value_update split: option.splits if_splits)

lemma clean_control_lookup:
  "key \<noteq> ''panel_public_key'' \<Longrightarrow> mappingValue (clean_control c n) key =
     (if key = ''token'' \<or> key = ''token_env'' then None else mappingValue n key)"
  "yn_Kind n = MappingNode \<Longrightarrow> map_option yn_Value (mappingValue (clean_control c n) ''panel_public_key'') = Some (cl_PanelPublicKey (cf_Control c))"
  unfolding clean_control_def
  by (simp_all add: mappingValue_set even_drop_tokens) (simp add: mappingValue_def pair_value_drop_tokens)

section \<open>Well-formed documents\<close>

text \<open>Every mapping of a document has as many keys as values.\<close>

fun even_maps :: "ynode \<Rightarrow> bool" where
  "even_maps (YNode k v ns) \<longleftrightarrow> (k = MappingNode \<longrightarrow> even (length ns)) \<and> (\<forall>n \<in> set ns. even_maps n)"

lemma pair_value_in: "pair_value key kvs = Some v \<Longrightarrow> v \<in> set kvs"
  by (induction key kvs rule: pair_value.induct) (auto split: if_splits)

lemma even_mapsD:
  assumes "even_maps n"
  shows "yn_Kind n = MappingNode \<Longrightarrow> even (length (yn_Content n))" and "m \<in> set (yn_Content n) \<Longrightarrow> even_maps m"
    and "mappingValue n key = Some m \<Longrightarrow> even_maps m"
  using assms by (cases n; auto simp: mappingValue_def dest: pair_value_in split: if_splits)+

lemma mappingValue_Mapping: "mappingValue n key = Some m \<Longrightarrow> yn_Kind n = MappingNode"
  by (simp add: mappingValue_def split: if_splits)

text \<open>A document without aliases and merge keys: what a mapping says is in the mapping.\<close>

fun plain :: "ynode \<Rightarrow> bool" where
  "plain (YNode k v ns) \<longleftrightarrow> k \<noteq> AliasNode \<and> (k = MappingNode \<longrightarrow> pair_value ''<<'' ns = None) \<and> (\<forall>n \<in> set ns. plain n)"




text \<open>A control section without the token and its variable, and with the panel's key.\<close>

definition forgotten :: "Config \<Rightarrow> ynode \<Rightarrow> bool" where
  "forgotten c control \<longleftrightarrow> mappingValue control ''token'' = None \<and> mappingValue control ''token_env'' = None \<and>
     (yn_Kind control = MappingNode \<longrightarrow>
        map_option yn_Value (mappingValue control ''panel_public_key'') = Some (cl_PanelPublicKey (cf_Control c)))"

text \<open>
  What a start reads from the file: the sections that describe agents (the instances, or the whole file when there are
  none), a field of the control section of one, and its value after a section without it has inherited that of the top
  level (\<^verbatim>\<open>inheritFrom\<close>).
\<close>

definition sections :: "ynode \<Rightarrow> ynode list" where
  "sections root =
     (case mappingValue root ''instances'' of
        Some ins \<Rightarrow> if yn_Content ins = [] then [root] else yn_Content ins
      | None \<Rightarrow> [root])"





text \<open>The sections the code recognises, by its own tests.\<close>

definition instance_control :: "Config \<Rightarrow> ynode \<Rightarrow> ynode \<Rightarrow> bool" where
  "instance_control c inst control \<longleftrightarrow> mappingValue inst ''control'' = Some control \<and>
     map_option yn_Value (mappingValue control ''machine_id'') = Some (cl_MachineID (cf_Control c))"


lemma clean_control_forgotten: "forgotten c (clean_control c n)"
proof -
  have "yn_Kind (clean_control c n) = yn_Kind n"
    by (simp add: clean_control_def set_or_append_def update_value_def split: option.split)
  then show ?thesis by (simp add: forgotten_def clean_control_lookup)
qed

lemma cleanControlNode_control:
  assumes "mappingValue n ''control'' = Some control"
    and "map_option yn_Value (mappingValue control ''machine_id'') \<in> {None, Some (cl_MachineID (cf_Control c))}"
  shows "mappingValue (cleanControlNode c n) ''control'' = Some (clean_control c control)"
proof -
  have "mappingValue (update_value ''control'' (clean_control c) n) ''control'' = Some (clean_control c control)"
    using assms(1) by (simp add: mappingValue_update)
  then show ?thesis
    using assms by (auto simp: cleanControlNode_def Let_def mappingValue_set_other split: option.splits)
qed

lemma cleanControlNode_other: 
  assumes "map_option yn_Value (mappingValue control ''machine_id'') \<notin> {None, Some (cl_MachineID (cf_Control c))}"
    and "mappingValue n ''control'' = Some control"
  shows "cleanControlNode c n = n"
  using assms by (auto simp: cleanControlNode_def split: option.splits)


lemma clean_instance_eq:
  "clean_instance c inst = (if (\<exists>control. instance_control c inst control) then cleanControlNode c inst else inst)"
  by (auto simp: clean_instance_def instance_control_def split: option.splits)


lemma cleanControlNode_instances:
  assumes "even (length (yn_Content n))"
  shows "mappingValue (cleanControlNode c n) ''instances'' = mappingValue n ''instances''"
proof -
  let ?u = "update_value ''control'' (clean_control c) n"
  have "even (length (yn_Content ?u))" using assms by (simp add: update_value_def)
  then have "mappingValue (set_or_append ''id'' x ?u) ''instances'' = mappingValue ?u ''instances''" for x
    by (rule mappingValue_set(1)) simp
  then show ?thesis by (simp add: cleanControlNode_def Let_def mappingValue_update split: option.split)
qed



text \<open>
  In a file with instances the top-level control section is kept as it is, so an agent that inherits its token from there
  finds it again; an instance that inherits its machine identifier is kept as it is too, and with an empty list of
  instances nothing is cleaned at all.
\<close>

lemma inherited_token_kept:
  assumes "mappingValue root ''instances'' = Some ins"
  shows "mappingValue (clean_root c root) ''control'' = mappingValue root ''control''"
  using assms by (simp add: clean_root_def mappingValue_update)

lemma inherited_machine_kept:
  assumes "mappingValue inst ''control'' = Some control" and "mappingValue control ''machine_id'' = None"
  shows "clean_instance c inst = inst"
  using assms by (simp add: clean_instance_def)

lemma empty_instances_kept:
  assumes "mappingValue root ''instances'' = Some ins" and "yn_Content ins = []"
  shows "sections (clean_root c root) = [clean_root c root]" and "mappingValue (clean_root c root) ''control'' = mappingValue root ''control''"
  using assms inherited_token_kept [OF assms(1)] by (simp_all add: sections_def clean_root_def mappingValue_update)


text \<open>Cleaning introduces neither aliases nor merge keys.\<close>

lemma plain_scalar [simp]: "plain (YNode ScalarNode v [])" and plain_with_value [simp]: "plain (with_value v n) = plain n"
  by (simp, cases n, simp)









section \<open>The environment file\<close>


lemma drops_line_Nil [simp]: "\<not> drops_line envKey []"
  by (simp add: drops_line_def HasPrefix_def TrimPrefix_def)


section \<open>Forgetting\<close>

lemma replaceEnrollmentFile_ok:
  assumes "replaceEnrollmentFile yl path data st = Inr st'"
  shows "en_files st' = (en_files st)(path := FileData data)" and "en_config st' = en_config st" and "en_env st' = en_env st"
  using assms by (auto simp: replaceEnrollmentFile_def split: file_result.splits if_splits)





section \<open>Cleaning a clean file\<close>

lemma update_value_same: 
  assumes "\<And>v. mappingValue n key = Some v \<Longrightarrow> f v = v" and "yn_Kind n = MappingNode"
  shows "update_value key f n = n"
  using assms by (cases n) (simp add: update_value_def mappingValue_def update_pair_same)

lemma set_or_append_same: "map_option yn_Value (mappingValue n key) = Some x \<Longrightarrow> set_or_append key x n = n"
proof -
  assume "map_option yn_Value (mappingValue n key) = Some x"
  then obtain w where w: "mappingValue n key = Some w" "yn_Value w = x" by blast
  have "update_value key (with_value x) n = n"
    using w mappingValue_Mapping [OF w(1)] by (intro update_value_same) auto
  then show ?thesis using w(1) by (simp add: set_or_append_def)
qed

lemma drop_tokens_same:
  "even (length kvs) \<Longrightarrow> pair_value ''token'' kvs = None \<Longrightarrow> pair_value ''token_env'' kvs = None \<Longrightarrow> drop_tokens kvs = kvs"
  by (induction kvs rule: drop_tokens.induct) (auto split: if_splits)

lemma clean_control_same:
  assumes "forgotten c n" and "yn_Kind n = MappingNode" and "even (length (yn_Content n))"
  shows "clean_control c n = n"
proof -
  have "with_content n (drop_tokens (yn_Content n)) = n"
    using assms by (cases n) (simp add: forgotten_def mappingValue_def drop_tokens_same)
  then show ?thesis using assms by (simp add: clean_control_def forgotten_def set_or_append_same)
qed

lemma cleanControlNode_same:
  assumes "mappingValue n ''control'' = Some control" and "forgotten c control"
    and "yn_Kind control = MappingNode" and "even (length (yn_Content control))"
    and "cf_InstanceID c = [] \<or> map_option yn_Value (mappingValue n ''id'') = Some (cf_InstanceID c)"
  shows "cleanControlNode c n = n"
proof -
  have "update_value ''control'' (clean_control c) n = n"
    using assms(1) clean_control_same [OF assms(2-4)] by (auto intro!: update_value_same dest: mappingValue_Mapping)
  then show ?thesis using assms(1,5) by (auto simp: cleanControlNode_def set_or_append_same split: option.split)
qed

lemma clean_control_shape:
  "yn_Kind (clean_control c n) = yn_Kind n" "even (length (yn_Content (clean_control c n)))"
  by (simp_all add: clean_control_def set_or_append_def update_value_def even_drop_tokens split: option.split)

lemma cleanControlNode_idem:
  assumes "even (length (yn_Content n))" and "\<And>control. mappingValue n ''control'' = Some control \<Longrightarrow> yn_Kind control = MappingNode"
  shows "cleanControlNode c (cleanControlNode c n) = cleanControlNode c n"
proof (cases "mappingValue n ''control''")
  case None
  then show ?thesis by (simp add: cleanControlNode_def)
next
  case (Some control)
  show ?thesis
  proof (cases "map_option yn_Value (mappingValue control ''machine_id'') \<in> {None, Some (cl_MachineID (cf_Control c))}")
    case False
    then show ?thesis using cleanControlNode_other [OF False Some] by simp
  next
    case True
    let ?u = "update_value ''control'' (clean_control c) n"
    have u: "even (length (yn_Content ?u))" "yn_Kind ?u = MappingNode"
      using assms(1) mappingValue_Mapping [OF Some] by (simp_all add: update_value_def)
    have "cleanControlNode c n = (if cf_InstanceID c \<noteq> [] then set_or_append ''id'' (cf_InstanceID c) ?u else ?u)"
      using Some True by (auto simp: cleanControlNode_def Let_def split: option.split)
    then have "cf_InstanceID c = [] \<or> map_option yn_Value (mappingValue (cleanControlNode c n) ''id'') = Some (cf_InstanceID c)"
      using mappingValue_set(2) [OF u] by simp
    then show ?thesis
      using cleanControlNode_same [OF cleanControlNode_control [OF Some True] clean_control_forgotten] assms(2) [OF Some] clean_control_shape
      by metis
  qed
qed

lemma clean_instance_idem:
  assumes "even_maps inst"
  shows "clean_instance c (clean_instance c inst) = clean_instance c inst"
proof (cases "\<exists>control. instance_control c inst control")
  case True
  then obtain control where control: "mappingValue inst ''control'' = Some control" "yn_Kind control = MappingNode"
    by (auto simp: instance_control_def dest: mappingValue_Mapping)
  then have "even (length (yn_Content inst))" using assms even_mapsD(1) mappingValue_Mapping by blast
  then have "cleanControlNode c (cleanControlNode c inst) = cleanControlNode c inst" using control by (intro cleanControlNode_idem) auto
  then show ?thesis by (simp add: clean_instance_eq)
next
  case False
  then show ?thesis by (simp add: clean_instance_eq)
qed

lemma clean_root_idem:
  assumes "even_maps root"
    and "\<And>control. mappingValue root ''instances'' = None \<Longrightarrow> mappingValue root ''control'' = Some control \<Longrightarrow> yn_Kind control = MappingNode"
  shows "clean_root c (clean_root c root) = clean_root c root"
proof (cases "mappingValue root ''instances''")
  case None
  show ?thesis
  proof (cases "yn_Kind root = MappingNode")
    case True
    then have "even (length (yn_Content root))" using assms(1) even_mapsD(1) by blast
    then show ?thesis
      using None cleanControlNode_instances [of root c] cleanControlNode_idem [of root c] assms(2) [OF None] by (simp add: clean_root_def)
  next
    case False
    then show ?thesis by (simp add: clean_root_def cleanControlNode_def mappingValue_def)
  qed
next
  case (Some ins)
  let ?f = "\<lambda>n. with_content n (map (clean_instance c) (yn_Content n))"
  have "even_maps ins" using assms(1) Some even_mapsD(3) by blast
  then have "map (clean_instance c \<circ> clean_instance c) (yn_Content ins) = map (clean_instance c) (yn_Content ins)"
    using even_mapsD(2) clean_instance_idem by (auto simp: comp_def)
  then have "?f (?f ins) = ?f ins" by simp
  then have "update_value ''instances'' ?f (update_value ''instances'' ?f root) = update_value ''instances'' ?f root"
    using Some mappingValue_Mapping [OF Some] by (intro update_value_same) (auto simp: mappingValue_update, simp add: update_value_def)
  then show ?thesis using Some by (simp add: clean_root_def mappingValue_update)
qed

text \<open>
  C29. Cleaning up settles: if the agent cleans up again after a restart (with the same identity and panel key), and the
  file decodes to the document that was encoded, the configuration file is not replaced, so its watcher does not restart
  the agent once more.
\<close>

theorem enrollment_cleanup_settles:
  assumes "clean_config_file yl st = Inr st'" and "cf_sourcePath (en_config st) = path"
    and "en_files st path = FileData data" and "yl_parse yl data = Some document" and "yn_Content document = root # others"
    and "even_maps document"
    and "\<And>control. mappingValue root ''instances'' = None \<Longrightarrow> mappingValue root ''control'' = Some control \<Longrightarrow> yn_Kind control = MappingNode"
    and "\<And>d s. d = with_content document (clean_root (en_config st) root # others) \<Longrightarrow> yl_marshal yl d = Some s \<Longrightarrow> yl_parse yl s = Some d"
    and "en_files again path = en_files st' path" and "cf_sourcePath (en_config again) = path"
    and "cf_InstanceID (en_config again) = cf_InstanceID (en_config st)"
    and "cl_MachineID (cf_Control (en_config again)) = cl_MachineID (cf_Control (en_config st))"
    and "cl_PanelPublicKey (cf_Control (en_config again)) = cl_PanelPublicKey (cf_Control (en_config st))"
  shows "clean_config_file yl again = Inr again"
proof -
  let ?c = "en_config st" and ?d = "with_content document (clean_root (en_config st) root # others)"
  obtain encoded where m: "yl_marshal yl ?d = Some encoded" and r: "replaceEnrollmentFile yl path encoded st = Inr st'"
    using assms(1-5) by (auto simp: clean_config_file_def Let_def split: option.splits)
  have f: "en_files again path = FileData encoded" using replaceEnrollmentFile_ok(1) [OF r] assms(9) by simp
  have p: "yl_parse yl encoded = Some ?d" using assms(8) m by blast
  have cc: "clean_control (en_config again) = clean_control ?c" by (intro ext) (simp only: clean_control_def assms(13))
  have cn: "cleanControlNode (en_config again) = cleanControlNode ?c" by (intro ext) (simp only: cleanControlNode_def assms(11,12) cc)
  have ci: "clean_instance (en_config again) = clean_instance ?c" by (intro ext) (simp only: clean_instance_def assms(12) cn)
  have same: "clean_root (en_config again) = clean_root ?c" by (intro ext) (simp only: clean_root_def ci cn)
  have "even_maps root" using assms(5) even_mapsD(2) [OF assms(6)] by simp
  then have "clean_root (en_config again) (clean_root ?c root) = clean_root ?c root" using assms(7) by (simp add: same clean_root_idem)
  then show ?thesis using f p m assms(10) by (simp add: clean_config_file_def replaceEnrollmentFile_def Let_def)
qed

section \<open>An example\<close>

definition scalar :: "string \<Rightarrow> ynode" where
  "scalar v = YNode ScalarNode v []"

definition demo_yroot :: ynode where
  "demo_yroot = YNode MappingNode [] [scalar ''control'',
     YNode MappingNode [] [scalar ''machine_id'', scalar ''m'', scalar ''token'', scalar ''t'']]"

definition demo_enrolled :: Config where
  "demo_enrolled = zero_Config\<lparr>cf_sourcePath := ''/c'', cf_InstanceID := ''i'',
     cf_Control := (cf_Control zero_Config)\<lparr>cl_MachineID := ''m'', cl_Token := ''t'', cl_PanelPublicKey := ''k''\<rparr>\<rparr>"

definition demo_document :: ynode where
  "demo_document = YNode DocumentNode [] [demo_yroot]"

definition demo_cleaned :: ynode where
  "demo_cleaned = with_content demo_document [clean_root demo_enrolled demo_yroot]"

definition demo_ylib :: ylib where
  "demo_ylib = \<lparr>yl_parse = (\<lambda>s. if s = ''old'' then Some demo_document else if s = ''new'' then Some demo_cleaned else None),
     yl_marshal = (\<lambda>d. if d = demo_cleaned then Some ''new'' else None), yl_writable = (\<lambda>_. True),
     yl_dir = (\<lambda>_. ''/''), yl_join = (\<lambda>a b. a @ b)\<rparr>"

definition demo_enroll :: enroll where
  "demo_enroll = \<lparr>en_files = (\<lambda>p. if p = ''/c'' then FileData ''old'' else if p = ''/agent.env'' then FileData ''export CORADE_AGENT_TOKEN=t'' else FileMissing),
     en_env = (\<lambda>_. ''t''), en_replaced = [], en_config = demo_enrolled\<rparr>"


definition demo_again :: enroll where
  "demo_again = fst (ForgetEnrollmentToken demo_ylib demo_enroll)"

theorem enrollment_cleanup_settles_witness: "clean_config_file demo_ylib demo_again = Inr demo_again"
proof -
  have ok: "case clean_config_file demo_ylib demo_enroll of Inr _ \<Rightarrow> True | Inl _ \<Rightarrow> False" by code_simp
  then obtain st' where st': "clean_config_file demo_ylib demo_enroll = Inr st'" by (auto split: sum.splits)
  have f: "case clean_config_file demo_ylib demo_enroll of Inr st' \<Rightarrow> en_files st' ''/c'' = en_files demo_again ''/c'' | Inl _ \<Rightarrow> False" by code_simp
  have path: "cf_sourcePath (en_config demo_enroll) = ''/c''" "en_files demo_enroll ''/c'' = FileData ''old''"
    by (simp_all add: demo_enroll_def demo_enrolled_def)
  have parse: "yl_parse demo_ylib ''old'' = Some demo_document" "yn_Content demo_document = [demo_yroot]" "even_maps demo_document"
    by (simp_all add: demo_ylib_def demo_document_def demo_yroot_def scalar_def)
  have control: "yn_Kind control = MappingNode" if "mappingValue demo_yroot ''control'' = Some control" for control
    using that by (auto simp: demo_yroot_def mappingValue_def scalar_def)
  have back': "yl_parse demo_ylib s = Some d" if "d = with_content demo_document [clean_root (en_config demo_enroll) demo_yroot]" "yl_marshal demo_ylib d = Some s" for d s
    using that by (auto simp: demo_ylib_def demo_cleaned_def demo_enroll_def split: if_splits)
  have again: "cf_sourcePath (en_config demo_again) = ''/c''" "cf_InstanceID (en_config demo_again) = cf_InstanceID (en_config demo_enroll)"
    "cl_MachineID (cf_Control (en_config demo_again)) = cl_MachineID (cf_Control (en_config demo_enroll))"
    "cl_PanelPublicKey (cf_Control (en_config demo_again)) = cl_PanelPublicKey (cf_Control (en_config demo_enroll))"
    by code_simp+
  have f': "en_files demo_again ''/c'' = en_files st' ''/c''" using f st' by simp
  show ?thesis
    by (rule enrollment_cleanup_settles [OF st' path parse _ _ f' again]) (use control back' in auto)
qed

end
