(* ===== verification/Certs.thy ===== *)
theory Certs
  imports Service KernelCommon "HOL-Library.Char_ord"
begin

text \<open>
  The certificate manager of a node (\<^verbatim>\<open>internal/cert/cert.go\<close>): the modes, the PEM material in memory, its copy on disk,
  reconfiguration while the node runs, and the renewals of the ACME library.

  \<open>cert_env\<close> has what does not change while the agent runs (file paths, PEM and X.509 decoding, the check of a key
  pair, SHA-256, the registry of DNS providers, the keys of certmagic's storage); \<open>cert_world\<close> has what one call meets:
  the time, the key and the serial number drawn, the signing and the encoding of the standard library, the answers of
  the ACME library and what its storage holds. A self-signed certificate is assembled from them as the code does; what
  is used of the standard library is \<open>x509_laws\<close>. The state of the manager includes the files
  it reads and writes; reading a file gives \<open>None\<close> on any error. Messages of errors are reduced to their kind.
\<close>

section \<open>DNS providers\<close>

text \<open>The registry (\<^verbatim>\<open>dnsproviders/registry.go\<close>); a builder tells whether it accepts an environment. \<open>None\<close> is a panic.\<close>

type_synonym dns_builder = "(string, string) gomap \<Rightarrow> bool"

fun register_names :: "string list \<Rightarrow> dns_builder \<Rightarrow> (string, dns_builder) gomap \<Rightarrow> (string, dns_builder) gomap option" where
  "register_names [] p reg = Some reg"
| "register_names (n # ns) p reg =
     (let key = ToLower (TrimSpace n) in
      if key = [] \<or> mhas reg key then None else register_names ns p (mput key p reg))"

definition dns_Register :: "string list \<Rightarrow> dns_builder \<Rightarrow> (string, dns_builder) gomap \<Rightarrow> (string, dns_builder) gomap option" where
  "dns_Register names p reg = (if names = [] then None else register_names names p reg)"

definition dns_Get :: "(string, dns_builder) gomap \<Rightarrow> string \<Rightarrow> dns_builder option" where
  "dns_Get reg name = map_of reg (ToLower (TrimSpace name))"

section \<open>State\<close>

record certMaterial =
  cm_certPEM :: string
  cm_keyPEM :: string

record Manager =
  ma_cfg :: CertConfig
  ma_mat :: "certMaterial option"
  ma_magic :: bool
  ma_renewed :: bool
  ma_acmeStarted :: bool
  ma_acmeFingerprint :: string
  ma_acmeCancel :: bool
  ma_disk :: "string \<Rightarrow> string option"

text \<open>What the agent reads of a parsed certificate; keys are opaque.\<close>

record x509_cert =
  x5_PublicKey :: string
  x5_NotAfter :: int
  x5_VerifyHostname :: "string \<Rightarrow> bool"

record cert_env =
  ct_join :: "string \<Rightarrow> string \<Rightarrow> string"
  ct_mkdir :: "string \<Rightarrow> bool"
  ct_write :: "string \<Rightarrow> bool"
  ct_keyPair :: "string \<Rightarrow> string \<Rightarrow> bool"
  ct_isIP :: "string \<Rightarrow> bool"
  ct_pemEncode :: "string \<Rightarrow> string \<Rightarrow> string"
  ct_pemDecode :: "string \<Rightarrow> (string \<times> string) option"
  ct_ParseCertificate :: "string \<Rightarrow> x509_cert option"
  ct_ParseECPrivateKey :: "string \<Rightarrow> string option"
  ct_PublicKey :: "string \<Rightarrow> string"
  ct_sha256 :: "string \<Rightarrow> string"
  ct_hex :: "string \<Rightarrow> string"
  ct_registry :: "(string, dns_builder) gomap"
  ct_issuerKey :: string
  ct_SiteCert :: "string \<Rightarrow> string \<Rightarrow> string"
  ct_SitePrivateKey :: "string \<Rightarrow> string \<Rightarrow> string"

record issuer =
  is_Email :: string
  is_DNS01Solver :: bool
  is_DisableHTTPChallenge :: bool
  is_DisableTLSALPNChallenge :: bool
  is_AltHTTPPort :: int

text \<open>The template of a self-signed certificate; times are in seconds.\<close>

record cert_template =
  tp_SerialNumber :: int
  tp_CommonName :: string
  tp_NotBefore :: int
  tp_NotAfter :: int
  tp_KeyUsage :: "string list"
  tp_ExtKeyUsage :: "string list"
  tp_IPAddresses :: "string list"
  tp_DNSNames :: "string list"

record cert_world =
  cw_now :: int
  cw_GenerateKey :: "string option"
  cw_serial :: "int option"
  cw_CreateCertificate :: "cert_template \<Rightarrow> cert_template \<Rightarrow> string \<Rightarrow> string \<Rightarrow> string option"
  cw_MarshalECPrivateKey :: "string \<Rightarrow> string option"
  cw_obtain :: "issuer \<Rightarrow> string \<Rightarrow> bool"
  cw_storage :: "string \<Rightarrow> string \<Rightarrow> string option"
  cw_manage :: bool

datatype cert_error =
    CertFileRead | KeyFileRead | InvalidPair | GenerateKey | GenerateSerial | CreateCertificate | MarshalKey | ContentMissing | ContentInvalid | DomainRequired | CertDirFailed
  | ObtainFailed | StorageArgs | StorageCert | StorageKey | StoragePair | ManageFailed | ProviderRequired | ProviderUnknown | ProviderBuild
  | UnknownMode string

definition NewManager :: "CertConfig \<Rightarrow> (string \<Rightarrow> string option) \<Rightarrow> Manager" where
  "NewManager cfg disk = \<lparr>ma_cfg = cfg, ma_mat = None, ma_magic = False, ma_renewed = False, ma_acmeStarted = False,
     ma_acmeFingerprint = [], ma_acmeCancel = False, ma_disk = disk\<rparr>"

section \<open>Material\<close>

text \<open>The temporary file is not read by the agent; the renaming replaces the file as a whole.\<close>

definition atomicWriteFile :: "cert_env \<Rightarrow> string \<Rightarrow> string \<Rightarrow> Manager \<Rightarrow> Manager" where
  "atomicWriteFile en path data m = (if ct_write en path then m\<lparr>ma_disk := (ma_disk m)(path := Some data)\<rparr> else m)"

definition cert_path :: "cert_env \<Rightarrow> Manager \<Rightarrow> string" where
  "cert_path en m = ct_join en (cc_CertDir (ma_cfg m)) ''cert.pem''"

definition key_path :: "cert_env \<Rightarrow> Manager \<Rightarrow> string" where
  "key_path en m = ct_join en (cc_CertDir (ma_cfg m)) ''key.pem''"

definition persistPEM :: "cert_env \<Rightarrow> string \<Rightarrow> string \<Rightarrow> Manager \<Rightarrow> Manager" where
  "persistPEM en c k m =
     (if cc_CertDir (ma_cfg m) = [] \<or> \<not> ct_mkdir en (cc_CertDir (ma_cfg m)) then m
      else atomicWriteFile en (key_path en m) k (atomicWriteFile en (cert_path en m) c m))"

definition storePEM :: "cert_env \<Rightarrow> string \<Rightarrow> string \<Rightarrow> Manager \<Rightarrow> Manager" where
  "storePEM en c k m = persistPEM en c k (m\<lparr>ma_mat := Some \<lparr>cm_certPEM = c, cm_keyPEM = k\<rparr>\<rparr>)"

definition validateKeyPair :: "cert_env \<Rightarrow> string \<Rightarrow> string \<Rightarrow> bool" where
  "validateKeyPair en c k = ct_keyPair en c k"

definition loadPersistedPEM :: "cert_env \<Rightarrow> Manager \<Rightarrow> bool \<times> Manager" where
  "loadPersistedPEM en m =
     (if cc_CertDir (ma_cfg m) = [] then (False, m)
      else case (ma_disk m (cert_path en m), ma_disk m (key_path en m)) of
        (Some c, Some k) \<Rightarrow>
          if validateKeyPair en c k then (True, m\<lparr>ma_mat := Some \<lparr>cm_certPEM = c, cm_keyPEM = k\<rparr>\<rparr>) else (False, m)
      | _ \<Rightarrow> (False, m))"

definition mgr_HasCert :: "Manager \<Rightarrow> bool" where
  "mgr_HasCert m = (case ma_mat m of None \<Rightarrow> False | Some p \<Rightarrow> cm_certPEM p \<noteq> [] \<and> cm_keyPEM p \<noteq> [])"

definition CertRenewed :: "Manager \<Rightarrow> bool \<times> Manager" where
  "CertRenewed m = (ma_renewed m, m\<lparr>ma_renewed := False\<rparr>)"

definition mgr_TLSCert :: "Manager \<Rightarrow> TLSCert" where
  "mgr_TLSCert m = (case ma_mat m of None \<Rightarrow> ([], []) | Some p \<Rightarrow> (cm_certPEM p, cm_keyPEM p))"

definition pemEqual :: "TLSCert \<Rightarrow> TLSCert \<Rightarrow> bool" where
  "pemEqual a b \<longleftrightarrow> fst a = fst b \<and> snd a = snd b"

section \<open>Modes\<close>

definition resolveModeFor :: "CertConfig \<Rightarrow> string" where
  "resolveModeFor cfg =
     (let mode = ToLower (TrimSpace (cc_CertMode cfg)) in
      if mode \<noteq> [] then mode
      else if cc_AutoTLS cfg then ''http''
      else if cc_CertContent cfg \<noteq> [] \<and> cc_KeyContent cfg \<noteq> [] then ''content''
      else if cc_CertFile cfg \<noteq> [] \<and> cc_KeyFile cfg \<noteq> [] then ''file''
      else ''none'')"

definition resolveMode :: "Manager \<Rightarrow> string" where
  "resolveMode m =
     (let mode = ToLower (TrimSpace (cc_CertMode (ma_cfg m))) in
      if mode \<noteq> [] then mode
      else if cc_AutoTLS (ma_cfg m) then ''http''
      else if cc_CertContent (ma_cfg m) \<noteq> [] \<and> cc_KeyContent (ma_cfg m) \<noteq> [] then ''content''
      else if cc_CertFile (ma_cfg m) \<noteq> [] \<and> cc_KeyFile (ma_cfg m) \<noteq> [] then ''file''
      else ''none'')"

text \<open>The text the fingerprint is the hash of; the keys of the DNS environment are sorted.\<close>

definition fingerprint_text :: "CertConfig \<Rightarrow> string" where
  "fingerprint_text cfg =
     ToLower (TrimSpace (cc_CertMode cfg)) @ ''|'' @ TrimSpace (cc_Domain cfg) @ ''|'' @ TrimSpace (cc_Email cfg) @ ''|'' @
     TrimSpace (cc_DNSProvider cfg) @ ''|'' @
     concat (map (\<lambda>k. k @ ''='' @ the (map_of (elems (cc_DNSEnv cfg)) k) @ '';'') (sort (map fst (elems (cc_DNSEnv cfg)))))"

definition acmeFingerprint :: "cert_env \<Rightarrow> CertConfig \<Rightarrow> string" where
  "acmeFingerprint en cfg = ct_hex en (ct_sha256 en (fingerprint_text cfg))"

definition tearDownACME :: "Manager \<Rightarrow> Manager" where
  "tearDownACME m = m\<lparr>ma_acmeCancel := False, ma_magic := False, ma_acmeStarted := False, ma_acmeFingerprint := [], ma_mat := None\<rparr>"

definition startFile :: "cert_env \<Rightarrow> Manager \<Rightarrow> cert_error option \<times> Manager" where
  "startFile en m =
     (case ma_disk m (cc_CertFile (ma_cfg m)) of
        None \<Rightarrow> (Some CertFileRead, m)
      | Some c \<Rightarrow>
          (case ma_disk m (cc_KeyFile (ma_cfg m)) of
             None \<Rightarrow> (Some KeyFileRead, m)
           | Some k \<Rightarrow> if validateKeyPair en c k then (None, storePEM en c k m) else (Some InvalidPair, m)))"

text \<open>The persisted certificate decodes, covers the name and has not expired.\<close>

definition covers :: "cert_env \<Rightarrow> string \<Rightarrow> string \<Rightarrow> int \<Rightarrow> bool" where
  "covers en c domain now =
     (case ct_pemDecode en c of
        None \<Rightarrow> False
      | Some (typ, der) \<Rightarrow>
          (case ct_ParseCertificate en der of None \<Rightarrow> False | Some x \<Rightarrow> x5_VerifyHostname x domain \<and> now < x5_NotAfter x))"

definition self_template :: "cert_env \<Rightarrow> int \<Rightarrow> int \<Rightarrow> string \<Rightarrow> cert_template" where
  "self_template en serial now domain = \<lparr>tp_SerialNumber = serial, tp_CommonName = domain, tp_NotBefore = now - 3600, tp_NotAfter = now + 10 * 365 * 24 * 3600,
     tp_KeyUsage = [''digitalSignature'', ''keyEncipherment''], tp_ExtKeyUsage = [''serverAuth''],
     tp_IPAddresses = (if ct_isIP en domain then [domain] else []), tp_DNSNames = (if ct_isIP en domain then [] else [domain])\<rparr>"

text \<open>A fresh pair: the certificate over the public part of the key drawn, signed with that key, and the key, in PEM.\<close>

definition self_signed :: "cert_env \<Rightarrow> cert_world \<Rightarrow> string \<Rightarrow> cert_error + (string \<times> string)" where
  "self_signed en w domain =
     (case cw_GenerateKey w of
        None \<Rightarrow> Inl GenerateKey
      | Some key \<Rightarrow>
     (case cw_serial w of
        None \<Rightarrow> Inl GenerateSerial
      | Some serial \<Rightarrow>
          (let template = self_template en serial (cw_now w) domain in
           case cw_CreateCertificate w template template (ct_PublicKey en key) key of
             None \<Rightarrow> Inl CreateCertificate
           | Some certDER \<Rightarrow>
          (case cw_MarshalECPrivateKey w key of
             None \<Rightarrow> Inl MarshalKey
           | Some keyDER \<Rightarrow> Inr (ct_pemEncode en ''CERTIFICATE'' certDER, ct_pemEncode en ''EC PRIVATE KEY'' keyDER)))))"

definition startSelfSigned :: "cert_env \<Rightarrow> cert_world \<Rightarrow> Manager \<Rightarrow> cert_error option \<times> Manager" where
  "startSelfSigned en w m =
     (let domain = (if cc_Domain (ma_cfg m) = [] then ''localhost'' else cc_Domain (ma_cfg m));
          (loaded, m1) = loadPersistedPEM en m
      in if loaded \<and> covers en (fst (mgr_TLSCert m1)) domain (cw_now w) then (None, m1)
         else case self_signed en w domain of
           Inl e \<Rightarrow> (Some e, m1)
         | Inr (c, k) \<Rightarrow> (None, storePEM en c k m1))"

definition startContent :: "cert_env \<Rightarrow> Manager \<Rightarrow> cert_error option \<times> Manager" where
  "startContent en m =
     (let c = cc_CertContent (ma_cfg m); k = cc_KeyContent (ma_cfg m) in
      if c = [] \<or> k = [] then
        (case loadPersistedPEM en m of (loaded, m1) \<Rightarrow> if loaded then (None, m1) else (Some ContentMissing, m1))
      else if validateKeyPair en c k then (None, storePEM en c k m)
      else (Some ContentInvalid, m))"

definition loadPEMFromStorage :: "cert_env \<Rightarrow> (string \<Rightarrow> string option) \<Rightarrow> string \<Rightarrow> string \<Rightarrow> Manager \<Rightarrow> cert_error option \<times> Manager" where
  "loadPEMFromStorage en storage issuerKey domain m =
     (if issuerKey = [] \<or> domain = [] then (Some StorageArgs, m)
      else case storage (ct_SiteCert en issuerKey domain) of
        None \<Rightarrow> (Some StorageCert, m)
      | Some c \<Rightarrow>
          (case storage (ct_SitePrivateKey en issuerKey domain) of
             None \<Rightarrow> (Some StorageKey, m)
           | Some k \<Rightarrow> if validateKeyPair en c k then (None, storePEM en c k m) else (Some StoragePair, m)))"

definition acme_issuer :: "CertConfig \<Rightarrow> bool \<Rightarrow> issuer" where
  "acme_issuer cfg dnsSolver =
     (if dnsSolver then \<lparr>is_Email = cc_Email cfg, is_DNS01Solver = True, is_DisableHTTPChallenge = True, is_DisableTLSALPNChallenge = True, is_AltHTTPPort = 0\<rparr>
      else \<lparr>is_Email = cc_Email cfg, is_DNS01Solver = False, is_DisableHTTPChallenge = False, is_DisableTLSALPNChallenge = True,
            is_AltHTTPPort = (if cc_HTTPPort cfg = 0 then 80 else cc_HTTPPort cfg)\<rparr>)"

definition startACME :: "cert_env \<Rightarrow> cert_world \<Rightarrow> bool \<Rightarrow> Manager \<Rightarrow> cert_error option \<times> Manager" where
  "startACME en w dnsSolver m =
     (if ma_acmeStarted m then (None, m)
      else if cc_Domain (ma_cfg m) = [] then (Some DomainRequired, m)
      else if \<not> ct_mkdir en (cc_CertDir (ma_cfg m)) then (Some CertDirFailed, m)
      else
        (let m1 = m\<lparr>ma_magic := True\<rparr> in
         if \<not> cw_obtain w (acme_issuer (ma_cfg m) dnsSolver) (cc_Domain (ma_cfg m)) then (Some ObtainFailed, m1)
         else case loadPEMFromStorage en (cw_storage w (cc_CertDir (ma_cfg m))) (ct_issuerKey en) (cc_Domain (ma_cfg m)) m1 of
           (Some e, m2) \<Rightarrow> (Some e, m2)
         | (None, m2) \<Rightarrow>
             if \<not> cw_manage w then (Some ManageFailed, m2)
             else (None, m2\<lparr>ma_acmeCancel := True, ma_acmeFingerprint := acmeFingerprint en (ma_cfg m2), ma_acmeStarted := True\<rparr>)))"

text \<open>The handler of the events of the ACME library; \<open>dir\<close> is the directory of the storage it was set up with.\<close>

definition OnEvent :: "cert_env \<Rightarrow> cert_world \<Rightarrow> string \<Rightarrow> string \<Rightarrow> bool \<Rightarrow> string \<Rightarrow> Manager \<Rightarrow> Manager" where
  "OnEvent en w dir event renewal issuerKey m =
     (if event \<noteq> ''cert_obtained'' \<or> \<not> renewal \<or> issuerKey = [] then m
      else case loadPEMFromStorage en (cw_storage w dir) issuerKey (cc_Domain (ma_cfg m)) m of
        (Some e, m1) \<Rightarrow> m1
      | (None, m1) \<Rightarrow> m1\<lparr>ma_renewed := True\<rparr>)"

definition newDNSProvider :: "cert_env \<Rightarrow> CertConfig \<Rightarrow> cert_error option" where
  "newDNSProvider en cfg =
     (let name = TrimSpace (cc_DNSProvider cfg) in
      if name = [] then Some ProviderRequired
      else case dns_Get (ct_registry en) name of
        None \<Rightarrow> Some ProviderUnknown
      | Some build \<Rightarrow> if build (elems (cc_DNSEnv cfg)) then None else Some ProviderBuild)"

definition cert_Start :: "cert_env \<Rightarrow> cert_world \<Rightarrow> Manager \<Rightarrow> cert_error option \<times> Manager" where
  "cert_Start en w m =
     (let mode = resolveMode m in
      if mode = ''none'' \<or> mode = [] then (None, m)
      else if mode = ''file'' then startFile en m
      else if mode = ''self'' then startSelfSigned en w m
      else if mode = ''content'' then startContent en m
      else if mode = ''http'' then startACME en w False m
      else if mode = ''dns'' then
        (case newDNSProvider en (ma_cfg m) of Some e \<Rightarrow> (Some e, m) | None \<Rightarrow> startACME en w True m)
      else (Some (UnknownMode mode), m))"

definition stale_acme :: "cert_env \<Rightarrow> CertConfig \<Rightarrow> Manager \<Rightarrow> bool" where
  "stale_acme en newCfg m \<longleftrightarrow> ma_acmeStarted m \<and>
     (resolveModeFor newCfg \<noteq> ''http'' \<and> resolveModeFor newCfg \<noteq> ''dns'' \<or> acmeFingerprint en newCfg \<noteq> ma_acmeFingerprint m)"

definition Reconfigure :: "cert_env \<Rightarrow> cert_world \<Rightarrow> CertConfig \<Rightarrow> Manager \<Rightarrow> (cert_error + bool) \<times> Manager" where
  "Reconfigure en w newCfg m =
     (let cfg = (if cc_CertDir newCfg = [] then newCfg\<lparr>cc_CertDir := cc_CertDir (ma_cfg m)\<rparr> else newCfg);
          m1 = (if stale_acme en cfg m then tearDownACME m else m);
          oldTLS = mgr_TLSCert m1
      in case cert_Start en w (m1\<lparr>ma_cfg := cfg\<rparr>) of
           (Some e, m2) \<Rightarrow> (Inl e, m2)
         | (None, m2) \<Rightarrow> (Inr (\<not> pemEqual oldTLS (mgr_TLSCert m2)), m2))"

section \<open>The interface of the service\<close>

definition cert_manager :: "cert_env \<Rightarrow> cert_world \<Rightarrow> (cert_error \<Rightarrow> string) \<Rightarrow> Manager CertManager" where
  "cert_manager en w msg = \<lparr>c_Reconfigure = (\<lambda>cfg m. case Reconfigure en w cfg m of (Inl e, m') \<Rightarrow> (Inl (msg e), m') | (Inr b, m') \<Rightarrow> (Inr b, m')),
     c_TLSCert = mgr_TLSCert, c_CertRenewed = CertRenewed\<rparr>"

section \<open>Histories\<close>

text \<open>
  What happens to a manager: it is started and reconfigured, asked for renewals, the ACME library reports events, and
  other programs change files.
\<close>

inductive cert_reach :: "cert_env \<Rightarrow> cert_world set \<Rightarrow> Manager \<Rightarrow> bool" for en W where
  reach_new: "cert_reach en W (NewManager cfg disk)"
| reach_start: "cert_reach en W m \<Longrightarrow> w \<in> W \<Longrightarrow> cert_Start en w m = (r, m') \<Longrightarrow> cert_reach en W m'"
| reach_reconf: "cert_reach en W m \<Longrightarrow> w \<in> W \<Longrightarrow> Reconfigure en w cfg m = (r', m') \<Longrightarrow> cert_reach en W m'"
| reach_event: "cert_reach en W m \<Longrightarrow> cert_reach en W (OnEvent en w dir event renewal issuerKey m)"
| reach_renewed: "cert_reach en W m \<Longrightarrow> cert_reach en W (snd (CertRenewed m))"
| reach_disk: "cert_reach en W m \<Longrightarrow> cert_reach en W (m\<lparr>ma_disk := disk\<rparr>)"

section \<open>The standard library\<close>

text \<open>
  What is used of \<^verbatim>\<open>encoding/pem\<close>, \<^verbatim>\<open>crypto/x509\<close> and \<^verbatim>\<open>crypto/tls\<close>: an encoded block decodes to itself; a certificate that
  was created parses, with the public key it was created for; a marshalled private key parses to itself; and
  \<^verbatim>\<open>X509KeyPair\<close> accepts a certificate block and an EC private key block whose public keys are the same.
\<close>

definition pair_law :: "cert_env \<Rightarrow> bool" where
  "pair_law en \<longleftrightarrow>
     (\<forall>c k certDER keyDER x key. ct_pemDecode en c = Some (''CERTIFICATE'', certDER) \<longrightarrow> ct_ParseCertificate en certDER = Some x \<longrightarrow>
        ct_pemDecode en k = Some (''EC PRIVATE KEY'', keyDER) \<longrightarrow> ct_ParseECPrivateKey en keyDER = Some key \<longrightarrow>
        ct_PublicKey en key = x5_PublicKey x \<longrightarrow> ct_keyPair en c k)"

definition x509_laws :: "cert_env \<Rightarrow> cert_world \<Rightarrow> bool" where
  "x509_laws en w \<longleftrightarrow> pair_law en \<and>
     (\<forall>typ der. typ \<in> {''CERTIFICATE'', ''EC PRIVATE KEY''} \<longrightarrow> ct_pemDecode en (ct_pemEncode en typ der) = Some (typ, der)) \<and>
     (\<forall>t p pub key der. cw_CreateCertificate w t p pub key = Some der \<longrightarrow> (\<exists>x. ct_ParseCertificate en der = Some x \<and> x5_PublicKey x = pub)) \<and>
     (\<forall>key der. cw_MarshalECPrivateKey w key = Some der \<longrightarrow> ct_ParseECPrivateKey en der = Some key)"

lemma self_signed_pair:
  assumes "x509_laws en w" and "self_signed en w domain = Inr (c, k)"
  shows "ct_keyPair en c k"
proof -
  from assms(2) obtain key serial certDER keyDER where key: "cw_GenerateKey w = Some key"
      and cert: "cw_CreateCertificate w (self_template en serial (cw_now w) domain) (self_template en serial (cw_now w) domain) (ct_PublicKey en key) key = Some certDER"
      and der: "cw_MarshalECPrivateKey w key = Some keyDER"
      and pem: "c = ct_pemEncode en ''CERTIFICATE'' certDER" "k = ct_pemEncode en ''EC PRIVATE KEY'' keyDER"
    by (auto simp: self_signed_def Let_def split: option.splits)
  obtain x where "ct_ParseCertificate en certDER = Some x" "x5_PublicKey x = ct_PublicKey en key"
    using assms(1) cert unfolding x509_laws_def by blast
  moreover have "ct_ParseECPrivateKey en keyDER = Some key" "ct_pemDecode en c = Some (''CERTIFICATE'', certDER)"
      "ct_pemDecode en k = Some (''EC PRIVATE KEY'', keyDER)" "pair_law en"
    using assms(1) der by (auto simp: x509_laws_def pem)
  ultimately show ?thesis unfolding pair_law_def by metis
qed

section \<open>The material is a pair\<close>

definition mat_ok :: "cert_env \<Rightarrow> Manager \<Rightarrow> bool" where
  "mat_ok en m \<longleftrightarrow> (case ma_mat m of None \<Rightarrow> True | Some p \<Rightarrow> ct_keyPair en (cm_certPEM p) (cm_keyPEM p))"

lemma store_fields:
  "ma_mat (storePEM en c k m) = Some \<lparr>cm_certPEM = c, cm_keyPEM = k\<rparr>" "ma_cfg (storePEM en c k m) = ma_cfg m"
  "ma_acmeStarted (storePEM en c k m) = ma_acmeStarted m" "ma_acmeFingerprint (storePEM en c k m) = ma_acmeFingerprint m"
  by (simp_all add: storePEM_def persistPEM_def atomicWriteFile_def)

lemma mat_ok_store: "ct_keyPair en c k \<Longrightarrow> mat_ok en (storePEM en c k m)"
  by (simp add: mat_ok_def store_fields)

lemma mat_ok_upd [simp]:
  "mat_ok en (m\<lparr>ma_cfg := cfg\<rparr>) = mat_ok en m" "mat_ok en (m\<lparr>ma_disk := disk\<rparr>) = mat_ok en m"
  "mat_ok en (m\<lparr>ma_renewed := b\<rparr>) = mat_ok en m" "mat_ok en (m\<lparr>ma_magic := b\<rparr>) = mat_ok en m"
  "mat_ok en (m\<lparr>ma_acmeCancel := b, ma_acmeFingerprint := f, ma_acmeStarted := b'\<rparr>) = mat_ok en m"
  by (simp_all add: mat_ok_def)

lemma mat_ok_load: "mat_ok en m \<Longrightarrow> mat_ok en (snd (loadPersistedPEM en m))"
  by (auto simp: loadPersistedPEM_def mat_ok_def validateKeyPair_def split: option.splits)

lemma mat_ok_storage: "mat_ok en m \<Longrightarrow> mat_ok en (snd (loadPEMFromStorage en st i d m))"
  by (auto simp: loadPEMFromStorage_def validateKeyPair_def mat_ok_store split: option.splits)

lemma mat_ok_acme: "mat_ok en m \<Longrightarrow> mat_ok en (snd (startACME en w b m))"
  using mat_ok_storage [of en "m\<lparr>ma_magic := True\<rparr>"]
  by (auto simp: startACME_def Let_def split: prod.splits option.splits) (metis snd_conv mat_ok_upd(4))+

lemma mat_ok_start:
  assumes "mat_ok en m" and "x509_laws en w"
  shows "mat_ok en (snd (cert_Start en w m))"
proof -
  have f: "mat_ok en (snd (startFile en m))"
    using assms(1) by (auto simp: startFile_def validateKeyPair_def mat_ok_store split: option.splits)
  have s: "mat_ok en (snd (startSelfSigned en w m))"
    using self_signed_pair [OF assms(2)] mat_ok_load [OF assms(1)]
    by (auto simp: startSelfSigned_def Let_def mat_ok_store split: sum.splits prod.splits)
  have c: "mat_ok en (snd (startContent en m))"
    using assms(1) mat_ok_load [OF assms(1)] by (auto simp: startContent_def Let_def validateKeyPair_def mat_ok_store split: prod.splits)
  show ?thesis
    using f s c mat_ok_acme [OF assms(1)] assms(1) unfolding cert_Start_def Let_def by (simp split: option.split)
qed

lemma mat_ok_reconfigure:
  assumes "mat_ok en m" and "x509_laws en w"
  shows "mat_ok en (snd (Reconfigure en w cfg m))"
proof -
  have "mat_ok en (tearDownACME m)" by (simp add: tearDownACME_def mat_ok_def)
  then have "mat_ok en (snd (cert_Start en w ((if b then tearDownACME m else m)\<lparr>ma_cfg := cfg'\<rparr>)))" for b cfg'
    using assms(1) by (intro mat_ok_start assms(2)) simp_all
  then have *: "mat_ok en (snd (cert_Start en w ((if b then tearDownACME m else m)\<lparr>ma_cfg := cfg'\<rparr>)))" for b cfg' .
  define cfg' where "cfg' = (if cc_CertDir cfg = [] then cfg\<lparr>cc_CertDir := cc_CertDir (ma_cfg m)\<rparr> else cfg)"
  define n where "n = (if stale_acme en cfg' m then tearDownACME m else m)\<lparr>ma_cfg := cfg'\<rparr>"
  have "snd (Reconfigure en w cfg m) = snd (cert_Start en w n)"
    unfolding Reconfigure_def Let_def cfg'_def [symmetric] n_def [symmetric]
    by (cases "cert_Start en w n") (simp split: option.split)
  then show ?thesis using * [of cfg' "stale_acme en cfg' m"] by (simp add: n_def)
qed

lemma mat_ok_event: "mat_ok en m \<Longrightarrow> mat_ok en (OnEvent en w dir event renewal issuerKey m)"
  using mat_ok_storage [of en m "cw_storage w dir" issuerKey "cc_Domain (ma_cfg m)"]
  by (auto simp: OnEvent_def split: prod.split option.split)

text \<open>
  C27. Whatever the history of starts, reconfigurations (successful or not), renewals and changes of files by others, the
  material a kernel is given is a certificate with its own private key, or empty. This includes the self-signed pairs,
  which the agent assembles itself: of the standard library it is only used that encoding and decoding match, that a
  created certificate holds the public key it was created for, and that \<^verbatim>\<open>X509KeyPair\<close> accepts a certificate and a key
  with the same public key.
\<close>

theorem cert_material_valid:
  assumes "cert_reach en W m" and "\<forall>w \<in> W. x509_laws en w" and "mgr_TLSCert m \<noteq> ([], [])"
  shows "ct_keyPair en (fst (mgr_TLSCert m)) (snd (mgr_TLSCert m))"
proof -
  have "mat_ok en m" using assms(1)
  proof (induction rule: cert_reach.induct)
    case (reach_new cfg disk)
    then show ?case by (simp add: mat_ok_def NewManager_def)
  next
    case (reach_start m w r m')
    then show ?case using mat_ok_start [of en m w] assms(2) by (metis snd_conv)
  next
    case (reach_reconf m w cfg r' m')
    then show ?case using mat_ok_reconfigure [of en m w cfg] assms(2) by (metis snd_conv)
  qed (simp_all add: mat_ok_event CertRenewed_def)
  then show ?thesis using assms(3) by (auto simp: mat_ok_def mgr_TLSCert_def split: option.splits)
qed

section \<open>Restarts\<close>

lemma store_disk:
  assumes "cc_CertDir (ma_cfg m) \<noteq> []" and "ct_mkdir en (cc_CertDir (ma_cfg m))" and "ct_write en (cert_path en m)"
    and "ct_write en (key_path en m)" and "cert_path en m \<noteq> key_path en m"
  shows "ma_disk (storePEM en c k m) (cert_path en m) = Some c" and "ma_disk (storePEM en c k m) (key_path en m) = Some k"
  using assms by (simp_all add: storePEM_def persistPEM_def atomicWriteFile_def cert_path_def key_path_def)

text \<open>
  The panel need not send its certificate again after a restart: what a manager stored for content mode is what a
  new manager with the same directory, mode and no content of its own starts with.
\<close>

lemma cert_survives_restart:
  assumes "cert_Start en w m = (None, m')" and "resolveMode m = ''content''"
    and "cc_CertContent (ma_cfg m) \<noteq> []" and "cc_KeyContent (ma_cfg m) \<noteq> []"
    and "cc_CertDir (ma_cfg m) \<noteq> []" and "ct_mkdir en (cc_CertDir (ma_cfg m))" and "ct_write en (cert_path en m)"
    and "ct_write en (key_path en m)" and "cert_path en m \<noteq> key_path en m"
    and "cc_CertDir cfg = cc_CertDir (ma_cfg m)" and "cc_CertMode cfg = ''content''" and "cc_CertContent cfg = []"
  shows "fst (cert_Start en w' (NewManager cfg (ma_disk m'))) = None \<and>
    mgr_TLSCert (snd (cert_Start en w' (NewManager cfg (ma_disk m')))) = (cc_CertContent (ma_cfg m), cc_KeyContent (ma_cfg m))"
proof -
  let ?c = "cc_CertContent (ma_cfg m)" and ?k = "cc_KeyContent (ma_cfg m)" and ?n = "NewManager cfg (ma_disk m')"
  have p: "validateKeyPair en ?c ?k" and m': "m' = storePEM en ?c ?k m"
    using assms(1-4) by (auto simp: cert_Start_def startContent_def Let_def split: if_splits)
  have paths: "cert_path en ?n = cert_path en m" "key_path en ?n = key_path en m" "ma_cfg ?n = cfg"
    using assms(10) by (simp_all add: cert_path_def key_path_def NewManager_def)
  have d: "ma_disk ?n (cert_path en m) = Some ?c" "ma_disk ?n (key_path en m) = Some ?k"
    using store_disk [OF assms(5-9)] by (simp_all add: NewManager_def m')
  have l: "loadPersistedPEM en ?n = (True, ?n\<lparr>ma_mat := Some \<lparr>cm_certPEM = ?c, cm_keyPEM = ?k\<rparr>\<rparr>)"
    using p d paths assms(5,10) by (simp add: loadPersistedPEM_def)
  have "TrimSpace ''content'' = ''content''" and "ToLower ''content'' = ''content''" by code_simp+
  then have "resolveMode ?n = ''content''" using paths(3) assms(11) by (simp add: resolveMode_def)
  then have "cert_Start en w' ?n = (None, ?n\<lparr>ma_mat := Some \<lparr>cm_certPEM = ?c, cm_keyPEM = ?k\<rparr>\<rparr>)"
    using l paths(3) assms(12) by (simp add: cert_Start_def startContent_def)
  then show ?thesis by (simp add: mgr_TLSCert_def)
qed

section \<open>Reconfiguration\<close>

lemma resolveMode_for: "resolveMode m = resolveModeFor (ma_cfg m)"
  by (simp add: resolveMode_def resolveModeFor_def)

text \<open>An ACME manager whose settings did not change is not started again and keeps its certificate.\<close>

lemma acme_kept:
  assumes "ma_acmeStarted m" and "\<not> stale_acme en cfg m" and "cc_CertDir cfg \<noteq> []" and "resolveModeFor cfg = ''http''"
  shows "Reconfigure en w cfg m = (Inr False, m\<lparr>ma_cfg := cfg\<rparr>)"
  using assms by (simp add: Reconfigure_def cert_Start_def resolveMode_for startACME_def pemEqual_def mgr_TLSCert_def)

text \<open>Mode \<^verbatim>\<open>none\<close> keeps the certificate of a manager without ACME.\<close>

lemma none_keeps_material:
  assumes "\<not> ma_acmeStarted m" and "resolveModeFor cfg = ''none''" and "cc_CertDir cfg \<noteq> []"
  shows "Reconfigure en w cfg m = (Inr False, m\<lparr>ma_cfg := cfg\<rparr>)" and "mgr_TLSCert (m\<lparr>ma_cfg := cfg\<rparr>) = mgr_TLSCert m"
  using assms by (simp_all add: Reconfigure_def stale_acme_def cert_Start_def resolveMode_for pemEqual_def mgr_TLSCert_def)

text \<open>Leaving ACME for mode \<^verbatim>\<open>none\<close> removes the certificate and reports that nothing changed.\<close>

lemma acme_teardown_unreported:
  assumes "ma_acmeStarted m" and "resolveModeFor cfg = ''none''" and "cc_CertDir cfg \<noteq> []"
  shows "fst (Reconfigure en w cfg m) = Inr False" and "mgr_TLSCert (snd (Reconfigure en w cfg m)) = ([], [])"
  using assms
  by (simp_all add: Reconfigure_def stale_acme_def cert_Start_def resolveMode_for pemEqual_def mgr_TLSCert_def tearDownACME_def)

text \<open>Two DNS environments with one fingerprint: a change from one to the other does not start ACME again.\<close>

lemma fingerprint_collision:
  "fingerprint_text (cfg\<lparr>cc_DNSEnv := Some [(''a'', ''1''), (''b'', ''2'')]\<rparr>) = fingerprint_text (cfg\<lparr>cc_DNSEnv := Some [(''a'', ''1;b=2'')]\<rparr>)"
proof -
  have "sort [''a'', ''b''] = [''a'', ''b'']" by code_simp
  then show ?thesis by (simp add: fingerprint_text_def)
qed

section \<open>An example\<close>

text \<open>
  A library whose PEM blocks are the type, a newline and the bytes, in which a certificate is its public key, a private
  key is \<open>p\<close> and its public key, and whose key pairs are checked by decoding both blocks.
\<close>

definition demo_decode :: "string \<Rightarrow> (string \<times> string) option" where
  "demo_decode s = (if CHR 0x0A \<in> set s then Some (takeWhile (\<lambda>c. c \<noteq> CHR 0x0A) s, tl (dropWhile (\<lambda>c. c \<noteq> CHR 0x0A) s)) else None)"

definition demo_parse :: "string \<Rightarrow> x509_cert option" where
  "demo_parse der = Some \<lparr>x5_PublicKey = der, x5_NotAfter = 1000, x5_VerifyHostname = (\<lambda>_. True)\<rparr>"

definition demo_pair :: "string \<Rightarrow> string \<Rightarrow> bool" where
  "demo_pair c k =
     (case (demo_decode c, demo_decode k) of
        (Some (t, der), Some (t', der')) \<Rightarrow> t = ''CERTIFICATE'' \<and> t' = ''EC PRIVATE KEY'' \<and> der = tl der'
      | _ \<Rightarrow> False)"

definition demo_cert_env :: cert_env where
  "demo_cert_env = \<lparr>ct_join = (\<lambda>d f. d @ ''/'' @ f), ct_mkdir = (\<lambda>_. True), ct_write = (\<lambda>_. True), ct_keyPair = demo_pair,
     ct_isIP = (\<lambda>_. False), ct_pemEncode = (\<lambda>t der. t @ CHR 0x0A # der), ct_pemDecode = demo_decode,
     ct_ParseCertificate = demo_parse, ct_ParseECPrivateKey = Some, ct_PublicKey = tl,
     ct_sha256 = (\<lambda>s. s), ct_hex = (\<lambda>s. s), ct_registry = [], ct_issuerKey = ''le'',
     ct_SiteCert = (\<lambda>_ d. d), ct_SitePrivateKey = (\<lambda>_ d. ''k'' @ d)\<rparr>"

definition demo_world :: cert_world where
  "demo_world = \<lparr>cw_now = 0, cw_GenerateKey = Some ''p9'', cw_serial = Some 5, cw_CreateCertificate = (\<lambda>_ _ pub _. Some pub),
     cw_MarshalECPrivateKey = Some, cw_obtain = (\<lambda>_ _. True), cw_storage = (\<lambda>_. Some), cw_manage = True\<rparr>"

definition demo_cert :: CertConfig where
  "demo_cert = \<lparr>cc_AutoTLS = False, cc_Domain = [], cc_Email = [], cc_CertFile = [], cc_KeyFile = [], cc_CertDir = ''/d'', cc_HTTPPort = 0,
     cc_CertMode = ''content'', cc_DNSProvider = [], cc_DNSEnv = None, cc_CertContent = ''CERTIFICATE'' @ CHR 0x0A # ''9'', cc_KeyContent = ''EC PRIVATE KEY'' @ CHR 0x0A # ''p9''\<rparr>"

definition demo_manager :: Manager where
  "demo_manager = snd (cert_Start demo_cert_env demo_world (NewManager demo_cert (\<lambda>_. None)))"

lemma demo_cert_started: "cert_Start demo_cert_env demo_world (NewManager demo_cert (\<lambda>_. None)) = (None, demo_manager)"
proof -
  have "fst (cert_Start demo_cert_env demo_world (NewManager demo_cert (\<lambda>_. None))) = None" by code_simp
  then show ?thesis by (metis demo_manager_def prod.collapse)
qed

text \<open>A manager in mode \<^verbatim>\<open>self\<close>: the pair is generated.\<close>

definition demo_self :: Manager where
  "demo_self = snd (cert_Start demo_cert_env demo_world (NewManager (demo_cert\<lparr>cc_CertMode := ''self''\<rparr>) (\<lambda>_. None)))"

lemma demo_laws: "x509_laws demo_cert_env demo_world"
  by (auto simp: x509_laws_def pair_law_def demo_cert_env_def demo_world_def demo_pair_def demo_decode_def demo_parse_def)

theorem cert_material_valid_witness:
  "ct_keyPair demo_cert_env (fst (mgr_TLSCert demo_self)) (snd (mgr_TLSCert demo_self)) \<and> snd (mgr_TLSCert demo_self) = ''EC PRIVATE KEY'' @ CHR 0x0A # ''p9''"
proof
  have "cert_reach demo_cert_env {demo_world} demo_self"
    unfolding demo_self_def by (rule reach_start [OF reach_new _ prod.collapse [symmetric]]) simp
  moreover have "\<forall>w \<in> {demo_world}. x509_laws demo_cert_env w" using demo_laws by simp
  moreover have "mgr_TLSCert demo_self \<noteq> ([], [])" by code_simp
  ultimately show "ct_keyPair demo_cert_env (fst (mgr_TLSCert demo_self)) (snd (mgr_TLSCert demo_self))" by (rule cert_material_valid)
  show "snd (mgr_TLSCert demo_self) = ''EC PRIVATE KEY'' @ CHR 0x0A # ''p9''" by code_simp
qed

theorem cert_survives_restart_witness:
  "mgr_TLSCert (snd (cert_Start demo_cert_env demo_world (NewManager (demo_cert\<lparr>cc_CertContent := []\<rparr>) (ma_disk demo_manager)))) = (cc_CertContent demo_cert, cc_KeyContent demo_cert)"
proof -
  let ?m = "NewManager demo_cert (\<lambda>_. None)" and ?cfg = "demo_cert\<lparr>cc_CertContent := []\<rparr>"
  have r: "resolveMode ?m = ''content''" by code_simp
  have h: "cc_CertContent (ma_cfg ?m) \<noteq> []" "cc_KeyContent (ma_cfg ?m) \<noteq> []" "cc_CertDir (ma_cfg ?m) \<noteq> []"
    "ct_mkdir demo_cert_env (cc_CertDir (ma_cfg ?m))" "ct_write demo_cert_env (cert_path demo_cert_env ?m)"
    "ct_write demo_cert_env (key_path demo_cert_env ?m)" "cert_path demo_cert_env ?m \<noteq> key_path demo_cert_env ?m"
    by code_simp+
  have k: "cc_CertDir ?cfg = cc_CertDir (ma_cfg ?m)" "cc_CertMode ?cfg = ''content''" "cc_CertContent ?cfg = []"
    by (simp_all add: NewManager_def demo_cert_def)
  have v: "cc_CertContent (ma_cfg ?m) = cc_CertContent demo_cert" "cc_KeyContent (ma_cfg ?m) = cc_KeyContent demo_cert" by (simp_all add: NewManager_def)
  show ?thesis using conjunct2 [OF cert_survives_restart [OF demo_cert_started r h k, of demo_world]] unfolding v .
qed

end
