(* ===== verification/ReleaseVerify.thy ===== *)
theory ReleaseVerify
  imports Validate
begin

text \<open>
  Verification of releases (\<^verbatim>\<open>internal/releaseverify/verify.go\<close>): a manifest of SHA-256 digests signed with an offline
  Ed25519 key, the version file it lists, and the check of a downloaded file.

  The embedded key, Ed25519, SHA-256 and the file system are fields of \<open>renv\<close>. The regular expressions are written as
  the automata they are; a scanner of lines reads a file of at most 64 KiB, so a line is too long exactly if the file
  has that size and no line break.
\<close>

section \<open>Names, versions and digests\<close>

datatype embedded_key = KeyUnavailable | KeyUnparsable | KeyNotEd25519 | KeyEd25519 string

datatype release_error =
    PublicKeyUnavailable | PublicKeyInvalid | PublicKeyKind | SignatureFailed | BadEntry | BadDigest | DuplicateAsset | LineTooLong | EmptyManifest
  | AssetAbsent | AssetRead | DigestMismatch string | MetadataRead | MetadataTooLarge | BadVersion | VersionMismatch

record renv =
  rv_key :: embedded_key
  rv_ed25519 :: "string \<Rightarrow> string \<Rightarrow> string \<Rightarrow> bool"
  rv_sha256 :: "string \<Rightarrow> string"
  rv_read :: "string \<Rightarrow> file_result"
  rv_join :: "string \<Rightarrow> string \<Rightarrow> string"

type_synonym manifest = "(string, string) gomap"

definition is_alnum :: "char \<Rightarrow> bool" where
  "is_alnum c \<longleftrightarrow> is_lower c \<or> is_upper c \<or> is_digit c"

definition asset_char :: "char \<Rightarrow> bool" where
  "asset_char c \<longleftrightarrow> is_alnum c \<or> c = CHR ''.'' \<or> c = CHR ''_'' \<or> c = CHR ''-''"

definition assetName :: "string \<Rightarrow> bool" where
  "assetName s = (case s of [] \<Rightarrow> False | c # cs \<Rightarrow> is_alnum c \<and> length cs \<le> 127 \<and> list_all asset_char cs)"

definition eat_number :: "string \<Rightarrow> string option" where
  "eat_number s = (if takeWhile is_digit s = [] then None else Some (dropWhile is_digit s))"

definition eat :: "char \<Rightarrow> string \<Rightarrow> string option" where
  "eat c s = (case s of x # xs \<Rightarrow> if x = c then Some xs else None | [] \<Rightarrow> None)"

definition releaseVersion :: "string \<Rightarrow> bool" where
  "releaseVersion s =
     (case Option.bind (Option.bind (Option.bind (Option.bind (Option.bind (Option.bind (Some s) (eat (CHR ''v''))) eat_number)
             (eat (CHR ''.''))) eat_number) (eat (CHR ''.''))) eat_number of
        None \<Rightarrow> False
      | Some [] \<Rightarrow> True
      | Some (c # cs) \<Rightarrow> c = CHR ''+'' \<and> cs \<noteq> [] \<and> list_all asset_char cs)"

text \<open>\<^verbatim>\<open>hex.DecodeString\<close>.\<close>

definition hex_val :: "char \<Rightarrow> nat option" where
  "hex_val c = (if is_digit c then Some (byte c - 48)
     else if 97 \<le> byte c \<and> byte c \<le> 102 then Some (byte c - 87)
     else if 65 \<le> byte c \<and> byte c \<le> 70 then Some (byte c - 55) else None)"

fun hex_decode :: "string \<Rightarrow> string option" where
  "hex_decode [] = Some []"
| "hex_decode [c] = None"
| "hex_decode (a # b # s) =
     (case (hex_val a, hex_val b, hex_decode s) of
        (Some x, Some y, Some bs) \<Rightarrow> Some (char_of (16 * x + y) # bs)
      | _ \<Rightarrow> None)"

section \<open>The manifest\<close>

text \<open>\<^verbatim>\<open>bufio.ScanLines\<close>: lines without their line break and one carriage return.\<close>

definition drop_cr :: "string \<Rightarrow> string" where
  "drop_cr l = (if l \<noteq> [] \<and> last l = CHR 0x0D then butlast l else l)"

definition scan_lines :: "string \<Rightarrow> string list" where
  "scan_lines data =
     (let ls = SplitByte (CHR 0x0A) data in map drop_cr (if last ls = [] then butlast ls else ls))"

fun manifest_lines :: "string list \<Rightarrow> manifest \<Rightarrow> release_error + manifest" where
  "manifest_lines [] m = Inr m"
| "manifest_lines (l # ls) m =
     (case Fields l of
        [digest, name] \<Rightarrow>
          if length digest \<noteq> 64 \<or> \<not> assetName name then Inl BadEntry
          else (case hex_decode digest of
                  None \<Rightarrow> Inl BadDigest
                | Some decoded \<Rightarrow> if mhas m name then Inl DuplicateAsset else manifest_lines ls (mput name decoded m))
      | _ \<Rightarrow> Inl BadEntry)"

definition read_manifest :: "string \<Rightarrow> release_error + manifest" where
  "read_manifest data =
     (if length data = 65536 \<and> CHR 0x0A \<notin> set data then Inl LineTooLong
      else case manifest_lines (scan_lines data) [] of
        Inl e \<Rightarrow> Inl e
      | Inr m \<Rightarrow> if m = [] then Inl EmptyManifest else Inr m)"

definition verifyWithKey :: "renv \<Rightarrow> string \<Rightarrow> string \<Rightarrow> string \<Rightarrow> release_error + manifest" where
  "verifyWithKey rv data signature key =
     (if data = [] \<or> 65536 < length data \<or> length signature \<noteq> 64 \<or> \<not> rv_ed25519 rv key data signature then Inl SignatureFailed
      else read_manifest data)"

definition release_Verify :: "renv \<Rightarrow> string \<Rightarrow> string \<Rightarrow> release_error + manifest" where
  "release_Verify rv data signature =
     (case rv_key rv of
        KeyUnavailable \<Rightarrow> Inl PublicKeyUnavailable
      | KeyUnparsable \<Rightarrow> Inl PublicKeyInvalid
      | KeyNotEd25519 \<Rightarrow> Inl PublicKeyKind
      | KeyEd25519 key \<Rightarrow> verifyWithKey rv data signature key)"

section \<open>Files\<close>

text \<open>The reader is what it yields, \<open>None\<close> if reading fails.\<close>

definition VerifyReader :: "renv \<Rightarrow> manifest \<Rightarrow> string \<Rightarrow> string option \<Rightarrow> release_error + unit" where
  "VerifyReader rv m name reader =
     (case map_of m name of
        None \<Rightarrow> Inl AssetAbsent
      | Some expected \<Rightarrow>
          if \<not> assetName name then Inl AssetAbsent
          else (case reader of
                  None \<Rightarrow> Inl AssetRead
                | Some content \<Rightarrow> if rv_sha256 rv content \<noteq> expected then Inl (DigestMismatch name) else Inr ()))"

definition VerifyFile :: "renv \<Rightarrow> manifest \<Rightarrow> string \<Rightarrow> string \<Rightarrow> release_error + unit" where
  "VerifyFile rv m name path =
     (case rv_read rv path of FileData content \<Rightarrow> VerifyReader rv m name (Some content) | _ \<Rightarrow> Inl AssetRead)"

definition readBounded :: "renv \<Rightarrow> string \<Rightarrow> nat \<Rightarrow> release_error + string" where
  "readBounded rv path limit =
     (case rv_read rv path of FileData data \<Rightarrow> if limit < length data then Inl MetadataTooLarge else Inr data | _ \<Rightarrow> Inl MetadataRead)"

definition version_matches :: "string \<Rightarrow> string \<Rightarrow> bool" where
  "version_matches version expected0 \<longleftrightarrow>
     (let expected = TrimPrefix expected0 ''corade-'' in
      \<not> (expected \<noteq> [] \<and> expected \<noteq> ''latest'' \<and> expected \<noteq> version \<and>
         (CHR ''+'' \<in> set expected \<or> takeWhile (\<lambda>c. c \<noteq> CHR ''+'') version \<noteq> expected)))"

definition VerifyVersion :: "renv \<Rightarrow> manifest \<Rightarrow> string \<Rightarrow> string \<Rightarrow> release_error + string" where
  "VerifyVersion rv m versionFile expected =
     (case readBounded rv versionFile 256 of
        Inl e \<Rightarrow> Inl e
      | Inr data \<Rightarrow>
          (case VerifyReader rv m ''agent-version.txt'' (Some data) of
             Inl e \<Rightarrow> Inl e
           | Inr _ \<Rightarrow>
               (let version = TrimSpace data in
                if \<not> releaseVersion version then Inl BadVersion
                else if \<not> version_matches version expected then Inl VersionMismatch
                else Inr version)))"

definition VerifyArtifact :: "renv \<Rightarrow> string \<Rightarrow> string \<Rightarrow> string \<Rightarrow> string \<Rightarrow> release_error + unit" where
  "VerifyArtifact rv directory name path expectedVersion =
     (case readBounded rv (rv_join rv directory ''release-manifest.sha256'') 65536 of
        Inl e \<Rightarrow> Inl e
      | Inr data \<Rightarrow>
          (case readBounded rv (rv_join rv directory ''release-manifest.sha256.sig'') 64 of
             Inl e \<Rightarrow> Inl e
           | Inr signature \<Rightarrow>
               (case release_Verify rv data signature of
                  Inl e \<Rightarrow> Inl e
                | Inr m \<Rightarrow>
                    (case VerifyVersion rv m (rv_join rv directory ''agent-version.txt'') expectedVersion of
                       Inl e \<Rightarrow> Inl e
                     | Inr _ \<Rightarrow> VerifyFile rv m name path))))"

section \<open>What a verified file is\<close>

lemma VerifyReader_ok:
  "VerifyReader rv m name (Some content) = Inr () \<longleftrightarrow> map_of m name = Some (rv_sha256 rv content) \<and> assetName name"
  by (auto simp: VerifyReader_def split: option.splits)

lemma readBounded_ok: "readBounded rv path n = Inr data \<longleftrightarrow> rv_read rv path = FileData data \<and> length data \<le> n"
  by (auto simp: readBounded_def split: file_result.splits)

lemma VerifyVersion_ok:
  assumes "VerifyVersion rv m path expected = Inr version"
  obtains data where "map_of m ''agent-version.txt'' = Some (rv_sha256 rv data)" and "TrimSpace data = version"
    and "releaseVersion version" and "version_matches version expected" and "rv_read rv path = FileData data"
proof -
  obtain data where d: "readBounded rv path 256 = Inr data" using assms by (auto simp: VerifyVersion_def split: sum.splits)
  then have "VerifyReader rv m ''agent-version.txt'' (Some data) = Inr ()"
    using assms by (auto simp: VerifyVersion_def split: sum.splits)
  then have "map_of m ''agent-version.txt'' = Some (rv_sha256 rv data)" by (simp add: VerifyReader_ok)
  moreover have "TrimSpace data = version" "releaseVersion version" "version_matches version expected"
    using assms d by (auto simp: VerifyVersion_def Let_def split: sum.splits if_splits)
  moreover have "rv_read rv path = FileData data" using d by (simp add: readBounded_ok)
  ultimately show ?thesis using that by blast
qed

lemma release_Verify_ok:
  assumes "release_Verify rv data signature = Inr m"
  shows "\<exists>key. rv_key rv = KeyEd25519 key \<and> rv_ed25519 rv key data signature" and "read_manifest data = Inr m"
  using assms by (auto simp: release_Verify_def verifyWithKey_def split: embedded_key.splits if_splits)

text \<open>
  C19. A file that passes is the file of a signed release: if the offline key has signed only the manifests \<open>published\<close>,
  there is a published manifest that lists, under the name asked for, the digest of the file, and the digest of a
  version file with a well-formed version that matches the version asked for. Both come from one manifest: a file of
  one release does not pass with the version of another.
\<close>

theorem release_authentic:
  assumes "VerifyArtifact rv directory name path expected = Inr ()"
    and "\<And>key data signature. rv_key rv = KeyEd25519 key \<Longrightarrow> rv_ed25519 rv key data signature \<Longrightarrow> data \<in> published"
  shows "\<exists>data m content vdata. data \<in> published \<and> read_manifest data = Inr m \<and>
    rv_read rv path = FileData content \<and> map_of m name = Some (rv_sha256 rv content) \<and>
    map_of m ''agent-version.txt'' = Some (rv_sha256 rv vdata) \<and> releaseVersion (TrimSpace vdata) \<and>
    version_matches (TrimSpace vdata) expected"
proof -
  obtain data signature m version where r: "release_Verify rv data signature = Inr m"
    and v: "VerifyVersion rv m (rv_join rv directory ''agent-version.txt'') expected = Inr version"
    and f: "VerifyFile rv m name path = Inr ()"
    using assms(1) by (auto simp: VerifyArtifact_def split: sum.splits)
  obtain content where "rv_read rv path = FileData content" and "map_of m name = Some (rv_sha256 rv content)"
    using f by (auto simp: VerifyFile_def VerifyReader_ok split: file_result.splits)
  moreover have "data \<in> published" using release_Verify_ok(1) [OF r] assms(2) by blast
  ultimately show ?thesis using release_Verify_ok(2) [OF r] VerifyVersion_ok [OF v] by metis
qed

section \<open>Writing and reading a manifest\<close>

text \<open>The format of the manifest, as \<^verbatim>\<open>sha256sum\<close> prints it.\<close>

definition hex_char :: "nat \<Rightarrow> char" where
  "hex_char n = ''0123456789abcdef'' ! n"

definition hex_print :: "string \<Rightarrow> string" where
  "hex_print s = concat (map (\<lambda>v. [hex_char (byte v div 16), hex_char (byte v mod 16)]) s)"

definition manifest_line :: "string \<times> string \<Rightarrow> string" where
  "manifest_line e = hex_print (snd e) @ ''  '' @ fst e"

definition print_manifest :: "manifest \<Rightarrow> string" where
  "print_manifest m = concat (map (\<lambda>e. manifest_line e @ [CHR 0x0A]) m)"

definition manifest_ok :: "manifest \<Rightarrow> bool" where
  "manifest_ok m \<longleftrightarrow> m \<noteq> [] \<and> distinct (map fst m) \<and> list_all (\<lambda>(name, digest). assetName name \<and> length digest = 32) m"

lemma hex_val_char: "n < 16 \<Longrightarrow> hex_val (hex_char n) = Some n"
proof -
  have "list_all (\<lambda>n. hex_val (hex_char n) = Some n) [0..<16]" by code_simp
  then show "n < 16 \<Longrightarrow> hex_val (hex_char n) = Some n" by (simp add: list_all_iff)
qed

lemma byte_halves: "byte v div 16 < 16" "byte v mod 16 < 16"
  by (rule less_mult_imp_div_less, simp) simp

lemma hex_decode_print: "hex_decode (hex_print s) = Some s"
  by (induction s) (simp_all add: hex_print_def hex_val_char byte_halves)

lemma length_hex_print: "length (hex_print s) = 2 * length s"
  by (induction s) (simp_all add: hex_print_def)

text \<open>Visible ASCII characters begin no white-space rune.\<close>

definition plain :: "char \<Rightarrow> bool" where
  "plain c \<longleftrightarrow> 33 \<le> byte c \<and> byte c \<le> 126"

lemma lead_plain: "plain c \<Longrightarrow> lead space_runes (c # s) = 0"
proof -
  have "\<forall>p \<in> set ps. p \<noteq> [] \<and> \<not> plain (hd p) \<Longrightarrow> plain c \<Longrightarrow> lead ps (c # s) = 0" for ps
    by (induction ps) (auto simp: prefix_Cons)
  moreover have "\<forall>p \<in> set space_runes. p \<noteq> [] \<and> \<not> plain (hd p)" by (simp add: space_runes_def plain_def)
  ultimately show "plain c \<Longrightarrow> lead space_runes (c # s) = 0" by blast
qed

lemma lead_blank: "lead space_runes (CHR '' '' # s) = 1"
  by (simp add: space_runes_def)

lemma field_end_plain: "list_all plain xs \<Longrightarrow> ys = [] \<or> hd ys = CHR '' '' \<Longrightarrow> field_end (xs @ ys) = length xs"
proof (induction xs)
  case Nil
  then show ?case by (cases ys) (simp_all add: field_end.simps lead_blank)
next
  case (Cons x xs)
  then show ?case by (simp add: field_end.simps [of "x # xs @ ys"] lead_plain)
qed

lemma strip_plain: "plain c \<Longrightarrow> strip space_runes (c # s) = c # s"
  by (simp add: strip_fix lead_plain)

lemma strip_blank: "strip space_runes (CHR '' '' # s) = strip space_runes s"
  by (simp add: strip.simps [of _ "CHR '' '' # s"] lead_blank)

lemma Fields_two:
  assumes "list_all plain xs" and "list_all plain ys" and "xs \<noteq> []" and "ys \<noteq> []"
  shows "Fields (xs @ ''  '' @ ys) = [xs, ys]"
proof -
  have x: "strip space_runes (xs @ zs) = xs @ zs" for zs using assms(1,3) by (cases xs) (simp_all add: strip_plain)
  have y: "strip space_runes ys = ys" using assms(2,4) by (cases ys) (simp_all add: strip_plain)
  have e: "field_end (xs @ ''  '' @ ys) = length xs" using assms(1) by (intro field_end_plain) simp_all
  have n: "Fields [] = []" by (simp add: Fields.simps strip.simps)
  have "Fields (''  '' @ ys) = [ys]"
    using y assms(4) field_end_plain [OF assms(2), of "[]"] n by (subst Fields.simps) (simp add: strip_blank Let_def)
  then show ?thesis using x [of "''  '' @ ys"] e assms(3) by (subst Fields.simps) (simp add: Let_def)
qed

lemma plain_asset: "asset_char c \<Longrightarrow> plain c"
  by (auto simp: asset_char_def is_alnum_def is_lower_def is_upper_def is_digit_def plain_def)

lemma plain_assetName: "assetName s \<Longrightarrow> list_all plain s \<and> s \<noteq> []"
  using plain_asset by (auto simp: assetName_def asset_char_def list_all_iff split: list.splits)

lemma plain_hex: "list_all plain (hex_print s)"
proof -
  have "list_all (\<lambda>n. plain (hex_char n)) [0..<16]" by code_simp
  then have "n < 16 \<Longrightarrow> plain (hex_char n)" for n by (simp add: list_all_iff)
  then show ?thesis by (induction s) (simp_all add: hex_print_def byte_halves)
qed

lemma manifest_line_fields:
  assumes "assetName name" and "length digest = 32"
  shows "Fields (manifest_line (name, digest)) = [hex_print digest, name]"
proof -
  have "hex_print digest \<noteq> []" using assms(2) length_hex_print [of digest] by auto
  then show ?thesis
    using Fields_two [OF plain_hex] plain_assetName [OF assms(1)] by (simp add: manifest_line_def)
qed

lemma manifest_lines_print:
  "list_all (\<lambda>(name, digest). assetName name \<and> length digest = 32) m \<Longrightarrow> distinct (map fst (m0 @ m)) \<Longrightarrow>
     manifest_lines (map manifest_line m) m0 = Inr (m0 @ m)"
proof (induction m arbitrary: m0)
  case (Cons e m)
  obtain name digest where e: "e = (name, digest)" by (cases e)
  have "\<not> mhas m0 name" using Cons.prems(2) by (auto simp: mhas_iff e)
  moreover have "mput name digest m0 = m0 @ [(name, digest)]" using Cons.prems(2) by (intro mput_new) (simp add: e)
  moreover have "assetName name" "length digest = 32" using Cons.prems(1) by (simp_all add: e)
  ultimately show ?case
    using Cons.IH [of "m0 @ [e]"] Cons.prems by (simp add: e manifest_line_fields length_hex_print hex_decode_print)
qed simp

lemma no_break: "list_all (\<lambda>(name, digest). assetName name \<and> length digest = 32) m \<Longrightarrow> e \<in> set m \<Longrightarrow>
   CHR 0x0A \<notin> set (manifest_line e) \<and> drop_cr (manifest_line e) = manifest_line e"
proof -
  assume "list_all (\<lambda>(name, digest). assetName name \<and> length digest = 32) m" and "e \<in> set m"
  then have a: "assetName (fst e)" by (auto simp: list_all_iff)
  have n: "list_all plain (fst e)" "fst e \<noteq> []" using plain_assetName [OF a] by auto
  have "\<not> plain (CHR 0x0A)" "CHR 0x0A \<noteq> CHR '' ''" by (simp_all add: plain_def)
  then have "CHR 0x0A \<notin> set (manifest_line e)" using n plain_hex [of "snd e"] by (auto simp: manifest_line_def list_all_iff)
  moreover have "last (manifest_line e) = last (fst e)" using n by (simp add: manifest_line_def)
  moreover have "plain (last (fst e))" using n by (simp add: list_all_iff)
  ultimately show ?thesis by (auto simp: drop_cr_def plain_def)
qed

lemma split_print: "\<forall>e \<in> set m. CHR 0x0A \<notin> set (manifest_line e) \<Longrightarrow> SplitByte (CHR 0x0A) (print_manifest m) = map manifest_line m @ [[]]"
  by (induction m) (simp_all add: print_manifest_def SplitByte_append)

lemma read_print:
  assumes "manifest_ok m"
  shows "read_manifest (print_manifest m) = Inr m"
proof -
  have ok: "list_all (\<lambda>(name, digest). assetName name \<and> length digest = 32) m" using assms by (simp add: manifest_ok_def)
  have "SplitByte (CHR 0x0A) (print_manifest m) = map manifest_line m @ [[]]" using no_break [OF ok] by (intro split_print) blast
  then have "scan_lines (print_manifest m) = map manifest_line m" using no_break [OF ok] by (simp add: scan_lines_def)
  moreover have "manifest_lines (map manifest_line m) [] = Inr m"
    using manifest_lines_print [OF ok, of "[]"] assms by (simp add: manifest_ok_def)
  moreover have "CHR 0x0A \<in> set (print_manifest m)" using assms by (cases m) (simp_all add: manifest_ok_def print_manifest_def)
  ultimately show ?thesis using assms by (auto simp: read_manifest_def manifest_ok_def)
qed

lemma print_manifest_ne: "manifest_ok m \<Longrightarrow> print_manifest m \<noteq> []"
  by (cases m) (simp_all add: manifest_ok_def print_manifest_def)

text \<open>
  C38. A manifest printed in the format of \<^verbatim>\<open>sha256sum\<close> and signed with the embedded key is read back entry by entry,
  whatever its names and digests are.
\<close>

theorem manifest_roundtrip:
  assumes "manifest_ok m" and "length (print_manifest m) \<le> 65536" and "rv_key rv = KeyEd25519 key"
    and "rv_ed25519 rv key (print_manifest m) signature" and "length signature = 64"
  shows "release_Verify rv (print_manifest m) signature = Inr m"
  using assms by (simp add: release_Verify_def verifyWithKey_def read_print print_manifest_ne)

section \<open>An example\<close>

definition demo_release :: manifest where
  "demo_release = [(''agent-version.txt'', replicate 32 (CHR ''v'')), (''corade'', replicate 32 (CHR ''x''))]"

definition demo_renv :: renv where
  "demo_renv = \<lparr>rv_key = KeyEd25519 ''pk'', rv_ed25519 = (\<lambda>key data signature. data = print_manifest demo_release),
     rv_sha256 = (\<lambda>s. replicate 32 (hd s)),
     rv_read = (\<lambda>p. if p = ''/r/release-manifest.sha256'' then FileData (print_manifest demo_release)
       else if p = ''/r/release-manifest.sha256.sig'' then FileData (replicate 64 (CHR ''s''))
       else if p = ''/r/agent-version.txt'' then FileData ''v1.2.3+a'' else if p = ''/t/corade'' then FileData ''x1'' else FileMissing),
     rv_join = (\<lambda>d f. d @ ''/'' @ f)\<rparr>"

lemma demo_release_ok: "manifest_ok demo_release" "length (print_manifest demo_release) \<le> 65536"
proof -
  show "manifest_ok demo_release" by code_simp
  show "length (print_manifest demo_release) \<le> 65536"
    by (simp add: print_manifest_def manifest_line_def length_hex_print demo_release_def)
qed

theorem manifest_roundtrip_witness: "release_Verify demo_renv (print_manifest demo_release) (replicate 64 (CHR ''s'')) = Inr demo_release"
proof (rule manifest_roundtrip [OF demo_release_ok])
  show "rv_key demo_renv = KeyEd25519 ''pk''" and "rv_ed25519 demo_renv ''pk'' (print_manifest demo_release) (replicate 64 (CHR ''s''))"
    by (simp_all add: demo_renv_def)
  show "length (replicate 64 (CHR ''s'')) = 64" by simp
qed

lemma demo_release_read: "release_Verify demo_renv (print_manifest demo_release) (replicate 64 (CHR ''s'')) = Inr demo_release"
  using demo_release_ok
  by (simp add: release_Verify_def verifyWithKey_def read_print print_manifest_ne demo_renv_def)

lemma demo_release_version: "VerifyVersion demo_renv demo_release ''/r/agent-version.txt'' ''corade-v1.2.3'' = Inr ''v1.2.3+a''"
  by code_simp

lemma demo_release_file: "VerifyFile demo_renv demo_release ''corade'' ''/t/corade'' = Inr ()"
  by code_simp

theorem release_authentic_witness:
  "\<exists>data m content vdata. data \<in> {print_manifest demo_release} \<and> read_manifest data = Inr m \<and>
    rv_read demo_renv ''/t/corade'' = FileData content \<and> map_of m ''corade'' = Some (rv_sha256 demo_renv content) \<and>
    map_of m ''agent-version.txt'' = Some (rv_sha256 demo_renv vdata) \<and> releaseVersion (TrimSpace vdata) \<and>
    version_matches (TrimSpace vdata) ''corade-v1.2.3''"
proof (rule release_authentic)
  have "readBounded demo_renv ''/r/release-manifest.sha256'' 65536 = Inr (print_manifest demo_release)"
    and "readBounded demo_renv ''/r/release-manifest.sha256.sig'' 64 = Inr (replicate 64 (CHR ''s''))"
    using demo_release_ok(2) by (simp_all add: readBounded_ok demo_renv_def)
  moreover have "rv_join demo_renv ''/r'' f = ''/r/'' @ f" for f by (simp add: demo_renv_def)
  ultimately show "VerifyArtifact demo_renv ''/r'' ''corade'' ''/t/corade'' ''corade-v1.2.3'' = Inr ()"
    by (simp add: VerifyArtifact_def demo_release_read demo_release_version demo_release_file)
  show "data \<in> {print_manifest demo_release}" if "rv_ed25519 demo_renv key data signature" for key data signature
    using that by (simp add: demo_renv_def)
qed

end
