(* ===== verification/Spec2Isabelle.thy ===== *)
theory Spec2Isabelle
  imports AgentV2 ServiceReport ServiceUsers Orchestrator Dispatcher Machine Targets SingboxKernel XrayKernel Enrollment Certs ReleaseVerify
begin

text \<open>
  Verification of the CPanelde node agent, a Go program that runs proxy nodes for a panel.

  \<^bold>\<open>The program.\<close> The agent gets the configuration and the users of its nodes from a control plane, runs a
  proxy kernel (Xray or sing-box, both linked as libraries) for each node, enforces per-user speed and device
  limits, counts traffic and reports it back. It has four modes, which differ in the control plane: one node of
  a panel, all nodes of a machine of a panel, a device of the device platform (with an encrypted channel), and
  standalone. All file names below are relative to \<^verbatim>\<open>src/internal\<close>.

    \<^item> A \<^emph>\<open>control plane\<close> (\<^verbatim>\<open>controlplane\<close>) turns the answers and push events of a server into snapshots and
      events of one node. The device platform speaks the secure channel of \<^verbatim>\<open>agentv2\<close>; the machine mode
      shares one connection among the nodes through a mailbox per node.
    \<^item> An \<^emph>\<open>orchestrator\<close> (\<^verbatim>\<open>deviceplatform\<close>, \<^verbatim>\<open>machine\<close>) runs one service per assigned node and starts, stops and
      replaces services as the assignment changes; it also drives upgrades of the agent.
    \<^item> The \<^emph>\<open>service\<close> (\<^verbatim>\<open>service\<close>) is the main loop of a node. It validates a configuration (\<^verbatim>\<open>model\<close>), applies it to
      the kernel with a roll-back when that fails, keeps the limiter (\<^verbatim>\<open>limiter\<close>) in step with the users, and
      reports the traffic of the tracker (\<^verbatim>\<open>tracker\<close>) in batches that are retried under one identifier.
    \<^item> A \<^emph>\<open>kernel\<close> (\<^verbatim>\<open>kernel/xray\<close>, \<^verbatim>\<open>kernel/singbox\<close>) generates the configuration document of the proxy library from
      the node specification, starts and reloads it, changes users while it runs, and tracks connections.

  \<^bold>\<open>Conventions.\<close> A Go struct is a record, a slice that may be nil an option of a list, a map an association
  list without double keys, an \<^verbatim>\<open>int\<close> or \<^verbatim>\<open>int64\<close> an integer with \<open>i64\<close> where arithmetic can leave the range, a
  \<^verbatim>\<open>uint64\<close> a word, a string a list of bytes. A method with a pointer receiver is a function that takes and
  returns the record; an error return is \<open>Inl\<close> or \<open>Some\<close> error. A loop over a map takes its order as an argument
  (\<open>range_order\<close>: some permutation). Critical sections of a mutex are single steps; where goroutines interleave,
  a step relation has one rule per critical section, and a method that takes the mutex twice, or waits outside it, is
  several steps (\<open>GetLimiter_lookup\<close> and \<open>GetLimiter_insert\<close>, \<open>stop_begin\<close>, \<open>stopAll_begin\<close>, \<open>ReportApplication_check\<close> and
  \<open>ReportApplication_enqueue\<close>). Logging is left out, except where it is the only trace of a failure (\<open>restore_previous\<close>).
  Code that is not the agent's own (the proxy libraries, vendored under \<^verbatim>\<open>third_party\<close>, cryptographic primitives, JSON, YAML and mapstructure decoding, PEM, the file system, clocks and
  random numbers) is an argument, gathered in environment records (\<open>kenv\<close>, \<open>senv\<close>, \<open>xenv\<close>, \<open>cenv\<close>, \<open>ylib\<close>, \<open>cert_env\<close>, \<open>renv\<close>,
  \<open>env\<close> of the service); what a property relies on is a named hypothesis (such as \<open>um_ok\<close>, \<open>counters_ok\<close>, \<open>creates_ok\<close>, \<open>x509_laws\<close>) with a
  concrete instance in the witness of the property.

  \<^bold>\<open>The theories, the code they model, and what they show.\<close>

    \<^item> \<open>Prelude\<close>, \<open>GoStrings\<close>: integers, maps, slices and the functions of \<^verbatim>\<open>strings\<close>, \<^verbatim>\<open>strconv\<close> and \<^verbatim>\<open>sort\<close> in
      use, with the lemmas the component proofs rewrite with (collections \<open>go_simps\<close>, \<open>go_wf\<close>).
    \<^item> \<open>AgentV2\<close> (\<^verbatim>\<open>agentv2/protocol.go\<close>): handshake, key schedule and envelopes. The replay window accepts exactly the
      new numbers of its range; no envelope is opened twice; a session delivers what the peer sealed; a completed
      handshake was answered by the holder of the pinned key for this very request, because transcripts are injective.
    \<^item> \<open>Model\<close>, \<open>Panel\<close>, \<open>Validate\<close> (\<^verbatim>\<open>model\<close>): the node specification, the conversions from and to the panel and the
      standalone file, and validation. Validation succeeds exactly for specifications that satisfy a declarative
      predicate; converting any specification to the panel format and back keeps all but what the
      format does not have.
    \<^item> \<open>Limiter\<close> (\<^verbatim>\<open>limiter\<close>), \<open>Tracker\<close> (\<^verbatim>\<open>tracker/tracker.go\<close>): after any history of updates the limits in force are
      those of the last user list; traffic is never counted twice, and all that is lost of what the kernel counted is
      the runs whose restart the counters do not show.
    \<^item> \<open>Outbox\<close> (locale \<open>outbox\<close>): a sender that never reuses an idempotency key; interpreted on the senders of the
      device platform and of the service.
    \<^item> \<open>Mailbox\<close>, \<open>ControlPlane\<close>, \<open>ControlPlanes\<close> (\<^verbatim>\<open>controlplane\<close>): the mailbox of machine mode loses no update however
      pushes, drains and applications interleave; the snapshots of the device platform are sound and its application
      results arrive in the order they were queued, stale ones only when two calls overtake each other; the start-up snapshot and the push events of the other control planes.
    \<^item> \<open>Service\<close>, \<open>ServiceRun\<close>, \<open>ServiceReport\<close>, \<open>ServiceUsers\<close> (\<^verbatim>\<open>service/service.go\<close>): every handler of the main loop.
      A pull result is applied as a whole, the kernel agreeing, or rolled back; in every reachable state the limits in
      force are those of the users kept, up to buckets inserted by overtaken connections; every byte the tracker sees is
      reported exactly once; pushed and polled users agree.
    \<^item> \<open>Upgrade\<close>, \<open>Orchestrator\<close> (\<^verbatim>\<open>deviceplatform\<close>), \<open>Machine\<close> (\<^verbatim>\<open>machine/machine.go\<close>): at most one service per node that
      was not told to stop, in every interleaving; discovery converges to the assignment; the outcome of an upgrade
      reaches the platform unless a new command replaces it; shell words are quoted safely; an event reaches the mailbox
      of its node only.
    \<^item> \<open>ConnTracker\<close> (\<^verbatim>\<open>kernel/singbox/conntracker.go\<close>), \<open>Dispatcher\<close> (\<^verbatim>\<open>kernel/xray/dispatcher.go\<close>): the books of open
      connections are exactly those of the connections, however they open and close, and what is reported of a user with
      several emails; both device gates agree.
    \<^item> \<open>KernelCommon\<close> (\<^verbatim>\<open>kernel/*.go\<close>): helpers of both kernels; Shadowsocks 2022 keys.
    \<^item> \<open>Routing\<close>: first-match routing and the locale \<open>scoped_rules\<close>, what rules limited to the users of a scope
      decide; interpreted as \<open>xray_router\<close> and \<open>sb_router\<close>.
    \<^item> \<open>XrayConfig\<close>, \<open>XrayRouting\<close> (\<^verbatim>\<open>kernel/xray/config.go\<close>), \<open>SingboxConfig\<close>, \<open>SingboxRouting\<close> (\<^verbatim>\<open>kernel/singbox/config.go\<close>): the
      whole generators. Route profiles keep the user scopes apart; private destinations are blocked; the rules are
      well typed; inbounds list exactly the users; what a custom configuration file can change.
    \<^item> \<open>Targets\<close>: validation against the generators: every rule of a validated specification has an outbound to go
      to; and the cases where validation and generators disagree.
    \<^item> \<open>SingboxReload\<close> (\<^verbatim>\<open>kernel/singbox/reload.go\<close>): outbounds are ordered by their dependencies exactly if these are
      acyclic, the search always ends, and replacing outbounds in this order succeeds.
    \<^item> \<open>XrayKernel\<close> (\<^verbatim>\<open>kernel/xray/xray.go\<close>): lifecycle, user operations, limits and counters. A user update turns the
      accounts of the running inbound into those of the new list if no UUID changed; a poll of the counters
      neither loses nor repeats traffic.
    \<^item> \<open>SingboxKernel\<close> (\<^verbatim>\<open>kernel/singbox/singbox.go\<close>): start, hot reload with its roll-back, hot user operations. A reload
      is applied as a whole or undone, with a log entry for everything the library refuses to restore; replacing the
      users changes the inbounds that can be updated and nothing else; users added while the kernel runs are outside the
      route profiles. The library is the record \<open>box\<close> with the laws \<open>box_ok\<close>, \<open>options_ok\<close> and \<open>implements\<close>.
    \<^item> \<open>ConfigLoad\<close> (\<^verbatim>\<open>config/config.go\<close>, \<^verbatim>\<open>controlsecurity/endpoints.go\<close>), \<open>Enrollment\<close> (\<^verbatim>\<open>config/enrollment_cleanup.go\<close>): a
      configuration that loads gives instances with distinct identifiers and secure endpoints, each in one mode; instances that pass
      the startup check share neither ports nor directories; a derived identifier is a safe directory name; the
      clean-up after enrolment removes the token from a file whose agents do not inherit it, the cases in which it stays,
      and a second clean-up leaves the file alone.
    \<^item> \<open>Certs\<close> (\<^verbatim>\<open>cert/cert.go\<close>, \<^verbatim>\<open>cert/dnsproviders/registry.go\<close>): the certificate manager behind the interface the service
      uses. In every history the material is a certificate with its own key, self-signed pairs included; content survives a restart; and the
      cases in which a change of the mode leaves or drops a certificate unnoticed.
    \<^item> \<open>ReleaseVerify\<close> (\<^verbatim>\<open>releaseverify/verify.go\<close>): a file that passes is listed, with its version, in one manifest signed
      with the offline key; a printed manifest is read back.

  \<^bold>\<open>Fuel.\<close> Recursion is structural or has a termination proof, except the depth-first search of the outbounds,
  which follows tags through a map: its fuel is the number of outbounds, and \<open>orderedOutbounds_returns\<close> shows that
  this is enough for every list, cycles included.

  \<^bold>\<open>Not modelled.\<close> The command line tools (\<^verbatim>\<open>cmd\<close>): flags, prompts, processes and files. Network clients and their
  reconnect loops (\<^verbatim>\<open>panel/client.go\<close>, \<^verbatim>\<open>panel/ws.go\<close>, \<^verbatim>\<open>platformclient\<close>): HTTP and WebSocket transport whose answers are arguments of
  the control planes. The ACME library and the wrappers of DNS providers (\<^verbatim>\<open>cert/dnsproviders\<close>). The watcher of the configuration
  file, logging, the host monitor and the download of geo databases: input and output. Draining and closing old kernel
  instances in the background, which does not touch the state of the kernel objects.
\<close>

end
